(* ===== verification/Prelude.thy ===== *)
theory Prelude
  imports Main "HOL-Library.Word"
begin

text \<open>
  Shared vocabulary of the development: the widths of the Go integer types, the result type of
  code that may panic or return an error, its sequencing operator, and the big-endian byte
  encodings of \<^verbatim>\<open>encoding/binary\<close>, with the generic lemmas the components use.
\<close>

unbundle bit_operations_syntax

section \<open>Go's fixed-width integers and byte slices\<close>

type_synonym byte = "8 word"
type_synonym uint32 = "32 word"
type_synonym uint64 = "64 word"
type_synonym bytes = "8 word list"

named_theorems wf_intros \<open>introduction rules for well-formedness invariants\<close>
named_theorems frame_simps \<open>which parts of a state an operation leaves alone\<close>

section \<open>Results: an error value or a normal value\<close>

definition rbind :: "'e + 'a \<Rightarrow> ('a \<Rightarrow> 'e + 'b) \<Rightarrow> 'e + 'b" where
  "rbind m f = (case m of Inl e \<Rightarrow> Inl e | Inr x \<Rightarrow> f x)"

definition guard :: "bool \<Rightarrow> 'e \<Rightarrow> 'e + unit" where
  "guard b e = (if b then Inr () else Inl e)"

definition is_ok :: "'e + 'a \<Rightarrow> bool" where
  "is_ok m = (case m of Inl _ \<Rightarrow> False | Inr _ \<Rightarrow> True)"

section \<open>Big-endian encodings\<close>

text \<open>\<open>be_bytes n w\<close>: the low \<open>n\<close> bytes of \<open>w\<close>, most significant first
  (\<^verbatim>\<open>binary.BigEndian.PutUint64\<close> and its kin).\<close>

fun be_bytes :: "nat \<Rightarrow> 'a::len word \<Rightarrow> bytes" where
  "be_bytes 0 w = []"
| "be_bytes (Suc n) w = be_bytes n (drop_bit 8 w) @ [ucast w]"

text \<open>\<open>be_word bs\<close>: the bytes read as one big-endian number (\<^verbatim>\<open>binary.BigEndian.Uint64\<close>).\<close>

definition be_word :: "bytes \<Rightarrow> 'a::len word" where
  "be_word bs = foldl (\<lambda>acc b. push_bit 8 acc OR ucast b) 0 bs"

text \<open>\<open>bits.Len64\<close>: the number of bits needed to represent the value, 0 for 0.\<close>

fun bit_len :: "nat \<Rightarrow> nat" where
  "bit_len n = (if n = 0 then 0 else Suc (bit_len (n div 2)))"

declare bit_len.simps [simp del]

text \<open>Overwriting a slice of a byte array in place (\<^verbatim>\<open>copy(dst[off:], src)\<close> for
  a source that fits).\<close>

definition overwrite :: "'a list \<Rightarrow> nat \<Rightarrow> 'a list \<Rightarrow> 'a list" where
  "overwrite dst off src = take off dst @ src @ drop (off + length src) dst"

definition go_slice :: "'a list \<Rightarrow> nat \<Rightarrow> nat \<Rightarrow> 'a list" where
  "go_slice xs i j = take (j - i) (drop i xs)"

section \<open>Lemmas on results\<close>

lemma rbind_simps [simp]:
  "rbind (Inl e) f = Inl e"
  "rbind (Inr x) f = f x"
  by (simp_all add: rbind_def)

lemma rbind_Inr_iff: "rbind m f = Inr y \<longleftrightarrow> (\<exists>x. m = Inr x \<and> f x = Inr y)"
  by (cases m) simp_all

lemma rbind_Inl_iff: "rbind m f = Inl e \<longleftrightarrow> m = Inl e \<or> (\<exists>x. m = Inr x \<and> f x = Inl e)"
  by (cases m) simp_all

lemma rbind_InrE:
  assumes "rbind m f = Inr y"
  obtains x where "m = Inr x" "f x = Inr y"
  using assms by (auto simp: rbind_Inr_iff)

lemma rbind_cong [fundef_cong]:
  "m = m' \<Longrightarrow> (\<And>x. m' = Inr x \<Longrightarrow> f x = f' x) \<Longrightarrow> rbind m f = rbind m' f'"
  by (cases m') simp_all

lemma rbind_assoc: "rbind (rbind m f) g = rbind m (\<lambda>x. rbind (f x) g)"
  by (cases m) simp_all

lemma guard_simps [simp]:
  "guard True e = Inr ()"
  "guard False e = Inl e"
  "guard b e = Inr u \<longleftrightarrow> b"
  "guard b e = Inl e' \<longleftrightarrow> \<not> b \<and> e' = e"
  by (auto simp: guard_def)

lemma rbind_guard: "rbind (guard b e) f = (if b then f () else Inl e)"
  by (simp add: guard_def)

lemma is_ok_simps [simp]:
  "is_ok (Inr x)"
  "\<not> is_ok (Inl e)"
  by (simp_all add: is_ok_def)

lemma is_ok_iff: "is_ok m \<longleftrightarrow> (\<exists>x. m = Inr x)"
  by (cases m) simp_all

section \<open>Lemmas on slices\<close>

lemma length_overwrite [simp]: "off + length src \<le> length dst \<Longrightarrow> length (overwrite dst off src) = length dst"
  by (simp add: overwrite_def)

lemma nth_overwrite:
  assumes "off + length src \<le> length dst" "i < length dst"
  shows "overwrite dst off src ! i = (if off \<le> i \<and> i < off + length src then src ! (i - off) else dst ! i)"
proof (cases "i < off")
  case True
  then show ?thesis using assms by (simp add: overwrite_def nth_append)
next
  case False
  then have "overwrite dst off src ! i = (src @ drop (off + length src) dst) ! (i - off)"
    using assms by (simp add: overwrite_def nth_append min_absorb2)
  with False assms show ?thesis by (auto simp: nth_append)
qed

lemma length_go_slice [simp]: "length (go_slice xs i j) = min (j - i) (length xs - i)"
  by (simp add: go_slice_def)

lemma nth_go_slice: "i + k < j \<Longrightarrow> i + k < length xs \<Longrightarrow> go_slice xs i j ! k = xs ! (i + k)"
  by (simp add: go_slice_def)

lemma go_slice_append:
  assumes "i \<le> j" "j \<le> k"
  shows "go_slice xs i j @ go_slice xs j k = go_slice xs i k"
proof -
  have "take (j - i) (drop i xs) @ take (k - j) (drop (j - i) (drop i xs)) = take (j - i + (k - j)) (drop i xs)"
    by (simp add: take_add)
  with assms show ?thesis by (simp add: go_slice_def)
qed

lemma go_slice_overwrite_same:
  assumes "off + length src \<le> length dst"
  shows "go_slice (overwrite dst off src) off (off + length src) = src"
  using assms by (simp add: go_slice_def overwrite_def)

lemma go_slice_overwrite_disjoint:
  assumes "off + length src \<le> length dst" "j \<le> off \<or> off + length src \<le> i" "j \<le> length dst"
  shows "go_slice (overwrite dst off src) i j = go_slice dst i j"
  by (rule nth_equalityI) (use assms in \<open>auto simp: nth_go_slice nth_overwrite\<close>)

section \<open>Lemmas on big-endian encodings\<close>

lemma length_be_bytes [simp]: "length (be_bytes n w) = n"
  by (induction n arbitrary: w) simp_all

lemma be_bytes_0: "be_bytes n 0 = replicate n 0"
  by (induction n) (simp_all add: replicate_append_same)

lemma be_word_Nil [simp]: "be_word [] = 0"
  by (simp add: be_word_def)

lemma be_word_snoc [simp]: "be_word (bs @ [b]) = push_bit 8 (be_word bs) OR ucast b"
  by (simp add: be_word_def)

lemma be_word_be_bytes_take:
  "be_word (be_bytes n w) = take_bit (8 * n) w"
proof (induction n arbitrary: w)
  case (Suc n)
  have "push_bit 8 (take_bit (8 * n) (drop_bit 8 w)) OR ucast (ucast w :: byte) = take_bit (8 * Suc n) w"
    by (rule bit_word_eqI) (auto simp: bit_simps)
  with Suc show ?case by simp
qed simp

lemma be_word_be_bytes [simp]:
  "LENGTH('a) \<le> 8 * n \<Longrightarrow> be_word (be_bytes n w) = (w :: 'a::len word)"
  by (simp add: be_word_be_bytes_take take_bit_word_eq_self)

lemma be_bytes_be_word:
  assumes "8 * length bs \<le> LENGTH('a)"
  shows "be_bytes (length bs) (be_word bs :: 'a::len word) = bs"
  using assms
proof (induction bs rule: rev_induct)
  case (snoc b bs)
  have "drop_bit 8 (push_bit 8 (be_word bs :: 'a word) OR ucast b)
      = (be_word bs :: 'a word) AND mask (LENGTH('a) - 8)"
    by (rule bit_word_eqI) (auto simp: bit_simps dest: bit_imp_le_length)
  moreover have "be_word bs AND mask (LENGTH('a) - 8) = (be_word bs :: 'a word)"
  proof -
    have "be_word bs = (be_word (be_bytes (length bs) (be_word bs :: 'a word)) :: 'a word)"
      using snoc by simp
    then have eq: "take_bit (8 * length bs) (be_word bs :: 'a word) = be_word bs"
      by (simp add: be_word_be_bytes_take)
    have "take_bit (LENGTH('a) - 8) (take_bit (8 * length bs) (be_word bs :: 'a word))
        = take_bit (8 * length bs) (be_word bs)"
      using snoc.prems by (simp add: min.absorb2)
    then show ?thesis by (simp add: eq flip: take_bit_eq_mask)
  qed
  moreover have "ucast (push_bit 8 (be_word bs :: 'a word) OR ucast b) = b"
    using snoc.prems by (intro bit_word_eqI) (auto simp: bit_simps)
  ultimately show ?case using snoc by simp
qed simp

lemma be_bytes_inj:
  "LENGTH('a) \<le> 8 * n \<Longrightarrow> be_bytes n v = be_bytes n (w :: 'a::len word) \<longleftrightarrow> v = w"
  by (metis be_word_be_bytes)

lemma take_be_bytes: "k \<le> n \<Longrightarrow> take k (be_bytes n w) = be_bytes k (drop_bit (8 * (n - k)) w)"
proof (induction n arbitrary: w)
  case (Suc n)
  show ?case
  proof (cases "k = Suc n")
    case False
    with Suc.prems have "8 * (n - k) + 8 = 8 * (Suc n - k)" "k \<le> n" by auto
    with Suc.IH show ?thesis by (simp add: drop_bit_drop_bit)
  qed (simp del: be_bytes.simps)
qed simp

lemma drop_be_bytes: "k \<le> n \<Longrightarrow> drop k (be_bytes n w) = be_bytes (n - k) w"
proof (induction n arbitrary: w)
  case (Suc n)
  then show ?case by (cases "k = Suc n") (auto simp: Suc_diff_le)
qed simp

lemma go_slice_be_bytes:
  "i + k \<le> n \<Longrightarrow> go_slice (be_bytes n w) i (i + k) = be_bytes k (drop_bit (8 * (n - i - k)) w)"
  by (simp add: go_slice_def drop_be_bytes take_be_bytes)

lemma be_bytes_take_bit: "be_bytes n (take_bit (8 * n) w) = be_bytes n w"
proof (induction n arbitrary: w)
  case (Suc n)
  have "drop_bit 8 (take_bit (8 * Suc n) w) = take_bit (8 * n) (drop_bit 8 w)"
    by (simp add: drop_bit_take_bit)
  moreover have "(ucast (take_bit (8 * Suc n) w) :: byte) = ucast w"
    by (rule bit_word_eqI) (auto simp: bit_simps)
  ultimately show ?case using Suc.IH by simp
qed simp

lemma be_bytes_cong: "take_bit (8 * n) v = take_bit (8 * n) w \<Longrightarrow> be_bytes n v = be_bytes n w"
  by (metis be_bytes_take_bit)

lemma be_bytes_split: "k \<le> n \<Longrightarrow> be_bytes n w = be_bytes k (drop_bit (8 * (n - k)) w) @ be_bytes (n - k) w"
  by (metis append_take_drop_id drop_be_bytes take_be_bytes)

section \<open>Lemmas on words\<close>

lemma unat_exp: "n < LENGTH('a) \<Longrightarrow> unat (2 ^ n :: 'a::len word) = 2 ^ n"
proof -
  assume "n < LENGTH('a)"
  then have "(2::nat) ^ n < 2 ^ LENGTH('a)" by simp
  then have "unat (of_nat (2 ^ n) :: 'a word) = 2 ^ n" by (simp only: unat_of_nat take_bit_eq_mod mod_less)
  then show ?thesis by simp
qed

section \<open>Lemmas on bit lengths\<close>

lemma bit_len_0 [simp]: "bit_len 0 = 0"
  by (simp add: bit_len.simps)

lemma bit_len_double: "0 < n \<Longrightarrow> bit_len (2 * n) = Suc (bit_len n)"
  by (subst bit_len.simps) simp

lemma bit_len_double_Suc: "bit_len (Suc (2 * n)) = Suc (bit_len n)"
  by (subst bit_len.simps) simp

lemma bit_len_bounds: "0 < n \<Longrightarrow> 2 ^ (bit_len n - 1) \<le> n \<and> n < 2 ^ bit_len n"
proof (induction n rule: bit_len.induct)
  case (1 n)
  show ?case
  proof (cases "n = 1")
    case True
    then show ?thesis by (simp add: bit_len.simps)
  next
    case False
    with 1 have d: "0 < n div 2" by auto
    with 1 have ih: "2 ^ (bit_len (n div 2) - 1) \<le> n div 2" "n div 2 < 2 ^ bit_len (n div 2)" by auto
    have len: "bit_len n = Suc (bit_len (n div 2))" using 1 by (subst bit_len.simps) simp
    have pos: "0 < bit_len (n div 2)" using d by (subst bit_len.simps) simp
    have "2 * 2 ^ (bit_len (n div 2) - 1) \<le> n" using ih(1) by linarith
    then have "2 ^ bit_len (n div 2) \<le> n" using pos by (cases "bit_len (n div 2)") simp_all
    moreover have "n < 2 * 2 ^ bit_len (n div 2)" using ih(2) by linarith
    ultimately show ?thesis by (simp add: len)
  qed
qed

lemma bit_len_lt_pow: "0 < g \<Longrightarrow> bit_len g \<le> n \<longleftrightarrow> g < 2 ^ n"
proof -
  assume g: "0 < g"
  note b = bit_len_bounds [OF g]
  show ?thesis
  proof
    assume "bit_len g \<le> n"
    then have "(2::nat) ^ bit_len g \<le> 2 ^ n" by simp
    with b show "g < 2 ^ n" by linarith
  next
    assume "g < 2 ^ n"
    then have "(2::nat) ^ (bit_len g - 1) < 2 ^ n" using b by linarith
    then have "bit_len g - 1 < n" by (rule power_less_imp_less_exp [rotated]) simp
    then show "bit_len g \<le> n" by simp
  qed
qed

lemma bit_len_pos [simp]: "0 < bit_len n \<longleftrightarrow> 0 < n"
  by (subst bit_len.simps) simp

lemma bit_len_unique:
  assumes "2 ^ k \<le> n" "n < 2 ^ Suc k"
  shows "bit_len n = Suc k"
proof -
  have n: "0 < n" using assms(1) by (rule less_le_trans [rotated]) simp
  note bb = bit_len_bounds [OF n]
  have "(2::nat) ^ (bit_len n - 1) < 2 ^ Suc k" using bb assms(2) by linarith
  then have "bit_len n - 1 < Suc k" by (rule power_less_imp_less_exp [rotated]) simp
  moreover have "(2::nat) ^ k < 2 ^ bit_len n" using bb assms(1) by linarith
  then have "k < bit_len n" by (rule power_less_imp_less_exp [rotated]) simp
  ultimately show ?thesis by simp
qed

lemma unat_of_nat_lt: "n < 2 ^ LENGTH('a) \<Longrightarrow> unat (of_nat n :: 'a::len word) = n"
  by (simp only: unat_of_nat mod_less)

section \<open>Codecs\<close>

text \<open>An encoder and a decoder that reads back what was written and leaves the rest of the input.\<close>

locale codec =
  fixes enc :: "'a \<Rightarrow> bytes" and dec :: "bytes \<Rightarrow> 'e + 'a \<times> bytes" and valid :: "'a \<Rightarrow> bool"
  assumes dec_enc: "valid x \<Longrightarrow> dec (enc x @ rest) = Inr (x, rest)"
begin

text \<open>Reading as many items as were written one after the other.\<close>

lemma dec_many:
  assumes "\<And>inp. many 0 inp = Inr ([], inp)"
    "\<And>n inp. many (Suc n) inp = rbind (dec inp) (\<lambda>(x, inp). rbind (many n inp) (\<lambda>(xs, inp). Inr (x # xs, inp)))"
    "list_all valid xs"
  shows "many (length xs) (concat (map enc xs) @ rest) = Inr (xs, rest)"
  using assms(3) by (induction xs) (simp_all add: assms(1,2) dec_enc)

lemma enc_inj: "valid x \<Longrightarrow> valid y \<Longrightarrow> enc x = enc y \<Longrightarrow> x = y"
  using dec_enc [of x "[]"] dec_enc [of y "[]"] by simp

end

end
