(* ===== verification/Arch.thy ===== *)
theory Arch
  imports Prelude
begin

text \<open>
  The architecture constants of \<^verbatim>\<open>cannon/mipsevm/arch\<close> as compiled for the
  \<^verbatim>\<open>cannon64\<close> build (\<^verbatim>\<open>arch64.go\<close>): \<open>Word\<close> is \<^verbatim>\<open>uint64\<close>. The
  \<^verbatim>\<open>IsMips32\<close> branches of the shared code are kept in the model, over this \<open>Word\<close>,
  exactly as the Go compiler sees them in that build. The register numbers of
  \<^verbatim>\<open>register/calling_convention.go\<close> and the runtime panics of the machine are here too.
\<close>

type_synonym Word = "64 word"

named_theorems arch_defs \<open>definitions of the architecture constants\<close>

definition WordSize :: nat where [arch_defs]: "WordSize = 64"
definition IsMips32 :: bool where [arch_defs]: "IsMips32 = (WordSize = 32)"
definition WordSizeBytes :: nat where [arch_defs]: "WordSizeBytes = WordSize div 2 ^ 3"
definition PageAddrSize :: nat where [arch_defs]: "PageAddrSize = 12"
definition PageKeySize :: nat where [arch_defs]: "PageKeySize = WordSize - PageAddrSize"
definition MemProofLeafCount :: nat where [arch_defs]: "MemProofLeafCount = WordSize - 4"
definition MemProofSize :: nat where [arch_defs]: "MemProofSize = MemProofLeafCount * 32"

definition AddressMask :: Word where [arch_defs]: "AddressMask = 0xFFFFFFFFFFFFFFF8"
definition ExtMask :: Word where [arch_defs]: "ExtMask = 0x7"
definition HeapStart :: Word where [arch_defs]: "HeapStart = 0x0000100000000000"
definition HeapEnd :: Word where [arch_defs]: "HeapEnd = 0x0000600000000000"
definition ProgramBreak :: Word where [arch_defs]: "ProgramBreak = 0x0000400000000000"

text \<open>The syscall numbers with an effect of their own, and the ones answered with a no-op.\<close>

definition SysMmap :: Word where [arch_defs]: "SysMmap = 5009"
definition SysBrk :: Word where [arch_defs]: "SysBrk = 5012"
definition SysClone :: Word where [arch_defs]: "SysClone = 5055"
definition SysExitGroup :: Word where [arch_defs]: "SysExitGroup = 5205"
definition SysRead :: Word where [arch_defs]: "SysRead = 5000"
definition SysWrite :: Word where [arch_defs]: "SysWrite = 5001"
definition SysFcntl :: Word where [arch_defs]: "SysFcntl = 5070"
definition SysExit :: Word where [arch_defs]: "SysExit = 5058"
definition SysSchedYield :: Word where [arch_defs]: "SysSchedYield = 5023"
definition SysGetTID :: Word where [arch_defs]: "SysGetTID = 5178"
definition SysFutex :: Word where [arch_defs]: "SysFutex = 5194"
definition SysOpen :: Word where [arch_defs]: "SysOpen = 5002"
definition SysNanosleep :: Word where [arch_defs]: "SysNanosleep = 5034"
definition SysClockGetTime :: Word where [arch_defs]: "SysClockGetTime = 5222"
definition SysGetpid :: Word where [arch_defs]: "SysGetpid = 5038"

definition UndefinedSysNr :: Word where [arch_defs]: "UndefinedSysNr = NOT 0"
definition SysFstat64 :: Word where [arch_defs]: "SysFstat64 = UndefinedSysNr"
definition SysStat64 :: Word where [arch_defs]: "SysStat64 = UndefinedSysNr"
definition SysLlseek :: Word where [arch_defs]: "SysLlseek = UndefinedSysNr"

text \<open>Munmap, GetAffinity, Madvise, RtSigprocmask, Sigaltstack, RtSigaction, Prlimit64, Close,
  Pread64, Stat, Fstat, OpenAt, Readlink, ReadlinkAt, Ioctl, EpollCreate1, Pipe2, EpollCtl,
  EpollPwait, GetRandom, Uname, Getuid, Getgid, MinCore, Tgkill, SetITimer, TimerCreate,
  TimerSetTime, TimerDelete, GetRLimit, Lseek, in the order of \<^verbatim>\<open>handleSyscall\<close>.\<close>

definition NoopSyscalls :: "Word list" where [arch_defs]:
  "NoopSyscalls =
    [5011, 5196, 5027, 5014, 5129, 5013, 5297, 5003,
     5016, 5004, 5005, 5247, 5087, 5257, 5015, 5285, 5287, 5208,
     5272, 5313, 5061, 5100, 5102, 5026, 5225, 5036, 5216,
     5217, 5220, 5095, 5008]"

definition RegSyscallNum :: nat where [arch_defs]: "RegSyscallNum = 2"
definition RegSyscallErrno :: nat where [arch_defs]: "RegSyscallErrno = 7"
definition RegSyscallRet1 :: nat where [arch_defs]: "RegSyscallRet1 = 2"
definition RegSyscallParam1 :: nat where [arch_defs]: "RegSyscallParam1 = 4"
definition RegSyscallParam2 :: nat where [arch_defs]: "RegSyscallParam2 = 5"
definition RegSyscallParam3 :: nat where [arch_defs]: "RegSyscallParam3 = 6"
definition RegSP :: nat where [arch_defs]: "RegSP = 29"

section \<open>Panics\<close>

text \<open>Each \<^verbatim>\<open>panic\<close> of the VM packages, and the runtime panics the code can run into,
  as a value; \<open>ErrEOF\<close> and \<open>ErrUnexpectedEOF\<close> are the errors of the readers.\<close>

datatype fault =
    UnalignedAccess Word
  | InvalidPageAddr
  | NilDeref
  | IndexOutOfRange
  | SliceOutOfRange
  | StackOverflow
  | GindexTooDeep
  | TraversedTooDeep
  | InvalidPC Word
  | InvalidInsn uint32
  | InvalidFun uint32
  | BranchInDelaySlot
  | JumpInDelaySlot
  | DivideByZero
  | InvalidRegister
  | DifferentMemAccess Word Word
  | DisjointMemAccess Word Word
  | PreimageOffsetOutOfBounds
  | EmptyThreadStack
  | EmptyPostStateStack
  | UnrecognizedSyscall Word
  | InvalidRMWOpcode uint32
  | InvalidWitnessLength nat
  | NoProgress
  | ErrEOF
  | ErrUnexpectedEOF
  | ErrInvalidBool byte

section \<open>Lemmas\<close>

lemma arch_consts [simp]:
  "WordSize = 64" "IsMips32 = False" "WordSizeBytes = 8" "PageAddrSize = 12" "PageKeySize = 52"
  "MemProofLeafCount = 60" "MemProofSize = 1920"
  by (simp_all add: arch_defs)

lemma AddressMask_not_ExtMask: "AddressMask = NOT ExtMask"
  by (simp add: arch_defs)

lemma and_ExtMask: "a AND ExtMask = take_bit 3 a"
  by (simp add: ExtMask_def take_bit_eq_mask mask_eq_exp_minus_1)

lemma aligned_iff: "a AND ExtMask = 0 \<longleftrightarrow> unat a mod 8 = 0"
proof -
  have "a AND ExtMask = 0 \<longleftrightarrow> unat (take_bit 3 a) = 0"
    by (simp add: and_ExtMask unat_eq_0)
  also have "unat (take_bit 3 a) = unat a mod 8"
    by (simp add: take_bit_eq_mod unat_mod)
  finally show ?thesis .
qed

lemma aligned_AddressMask [simp]: "(a AND AddressMask) AND ExtMask = 0"
  by (simp add: AddressMask_not_ExtMask and.assoc)

lemma AddressMask_aligned: "a AND ExtMask = 0 \<Longrightarrow> a AND AddressMask = a"
proof -
  assume "a AND ExtMask = 0"
  moreover have "(a AND ExtMask) OR (a AND NOT ExtMask) = a"
    by (rule bit_word_eqI) (auto simp: bit_simps)
  ultimately show ?thesis by (simp add: AddressMask_not_ExtMask)
qed

end
