(* ===== verification/CannonMemory.thy ===== *)
theory CannonMemory
  imports Arch "HOL-Library.AList"
begin

text \<open>
  The memory of the fault-proof VM (\<^verbatim>\<open>cannon/mipsevm/memory\<close>): pages with their cache of
  intermediate Merkle nodes (\<^verbatim>\<open>page.go\<close>), the binary tree index over the pages
  (\<^verbatim>\<open>binary_tree.go\<close>) and the word-level operations (\<^verbatim>\<open>memory.go\<close>).

  Page objects are shared between the page table, the two-entry lookup cache and the tree index, so
  they live in an explicit store: \<open>pageHeap\<close> maps the number of an allocation to the object and
  every \<^verbatim>\<open>*CachedPage\<close> is such a number. The hash function is a parameter
  \<open>keccak\<close>; everything that may fill a cache returns the updated memory.
\<close>

section \<open>Pages\<close>

definition PageSize :: nat where "PageSize = 2 ^ PageAddrSize"
definition PageAddrMask :: Word where "PageAddrMask = of_nat PageSize - 1"

definition HashPair :: "(bytes \<Rightarrow> bytes) \<Rightarrow> bytes \<Rightarrow> bytes \<Rightarrow> bytes" where
  "HashPair keccak left right = keccak (left @ right)"

text \<open>\<^verbatim>\<open>zeroHashes[i]\<close>: the hash of an all-zero subtree of height \<open>i\<close>.\<close>

fun zeroHashes :: "(bytes \<Rightarrow> bytes) \<Rightarrow> nat \<Rightarrow> bytes" where
  "zeroHashes keccak 0 = replicate 32 0"
| "zeroHashes keccak (Suc i) = HashPair keccak (zeroHashes keccak i) (zeroHashes keccak i)"

record CachedPage =
  Data :: bytes
  Cache :: "bytes list"
  Ok :: "bool list"

definition newPage :: CachedPage where
  "newPage = \<lparr>Data = replicate PageSize 0,
              Cache = replicate (PageSize div 32) (replicate 32 0),
              Ok = replicate (PageSize div 32) False\<rparr>"

fun invalidate_loop :: "nat \<Rightarrow> bool list \<Rightarrow> bool list" where
  "invalidate_loop k ok = (if 0 < k then invalidate_loop (k div 2) (ok[k := False]) else ok)"

declare invalidate_loop.simps [simp del]

definition CachedPage_invalidate :: "CachedPage \<Rightarrow> Word \<Rightarrow> fault + CachedPage" where
  "CachedPage_invalidate p pageAddr =
    (if of_nat PageSize \<le> pageAddr then Inl InvalidPageAddr
     else let k = push_bit PageAddrSize 1 OR pageAddr;
              k = unat (drop_bit (5 + 1) k)
          in Inr (p\<lparr>Ok := invalidate_loop k (Ok p)\<rparr>))"

definition CachedPage_InvalidateFull :: "CachedPage \<Rightarrow> CachedPage" where
  "CachedPage_InvalidateFull p = p\<lparr>Ok := replicate (PageSize div 32) False\<rparr>"

function bottom_loop :: "(bytes \<Rightarrow> bytes) \<Rightarrow> nat \<Rightarrow> CachedPage \<Rightarrow> CachedPage" where
  "bottom_loop keccak i p =
    (if i < PageSize then
       let j = PageSize div 32 div 2 + i div 64 in
       if Ok p ! j then bottom_loop keccak (i + 64) p
       else bottom_loop keccak (i + 64)
              (p\<lparr>Cache := (Cache p)[j := keccak (go_slice (Data p) i (i + 64))], Ok := (Ok p)[j := True]\<rparr>)
     else p)"
  by pat_completeness auto
termination by (relation "measure (\<lambda>(keccak, i, p). PageSize - i)") auto

declare bottom_loop.simps [simp del]

function layer_loop :: "(bytes \<Rightarrow> bytes) \<Rightarrow> nat \<Rightarrow> CachedPage \<Rightarrow> CachedPage" where
  "layer_loop keccak i p =
    (if 0 < i then
       let j = i div 2 in
       if Ok p ! j then layer_loop keccak (i - 2) p
       else layer_loop keccak (i - 2)
              (p\<lparr>Cache := (Cache p)[j := HashPair keccak (Cache p ! i) (Cache p ! (i + 1))],
                 Ok := (Ok p)[j := True]\<rparr>)
     else p)"
  by pat_completeness auto
termination by (relation "measure (\<lambda>(keccak, i, p). i)") auto

declare layer_loop.simps [simp del]

definition CachedPage_fill :: "(bytes \<Rightarrow> bytes) \<Rightarrow> CachedPage \<Rightarrow> CachedPage" where
  "CachedPage_fill keccak p = layer_loop keccak (PageSize div 32 - 2) (bottom_loop keccak 0 p)"

definition CachedPage_MerkleRoot :: "(bytes \<Rightarrow> bytes) \<Rightarrow> CachedPage \<Rightarrow> bytes \<times> CachedPage" where
  "CachedPage_MerkleRoot keccak p =
    (let p' = CachedPage_fill keccak p in (Cache p' ! 1, p'))"

definition CachedPage_MerkleizeSubtree ::
    "(bytes \<Rightarrow> bytes) \<Rightarrow> CachedPage \<Rightarrow> nat \<Rightarrow> fault + bytes \<times> CachedPage" where
  "CachedPage_MerkleizeSubtree keccak p gindex =
    (let (_, p) = CachedPage_MerkleRoot keccak p in
     if PageSize div 32 \<le> gindex then
       (if PageSize div 32 * 2 \<le> gindex then Inl GindexTooDeep
        else let nodeIndex = gindex mod 2 ^ (PageAddrSize - 5)
             in Inr (go_slice (Data p) (nodeIndex * 32) (nodeIndex * 32 + 32), p))
     else Inr (Cache p ! gindex, p))"

section \<open>Memory\<close>

text \<open>\<open>nodes\<close> is the map of the \<^verbatim>\<open>BinaryTreeIndex\<close>: an absent key, a \<^verbatim>\<open>nil\<close>
  (invalidated) entry, or a hash. Its \<^verbatim>\<open>pageTable\<close> reference is the field
  \<open>pageTable\<close> here, as in the code.\<close>

record Memory =
  nodes :: "nat \<rightharpoonup> bytes option"
  pageTable :: "(Word \<times> nat) list"
  pageHeap :: "nat \<Rightarrow> CachedPage"
  pageCounter :: nat
  lastPageKeys :: "Word \<times> Word"
  lastPage :: "nat option \<times> nat option"

definition NewMemory :: Memory where
  "NewMemory = \<lparr>nodes = Map.empty, pageTable = [], pageHeap = (\<lambda>_. newPage), pageCounter = 0,
                lastPageKeys = (NOT 0, NOT 0), lastPage = (None, None)\<rparr>"

fun clear_path :: "nat \<Rightarrow> (nat \<rightharpoonup> bytes option) \<Rightarrow> (nat \<rightharpoonup> bytes option)" where
  "clear_path k ns = (if 0 < k then clear_path (k div 2) (ns(k \<mapsto> None)) else ns)"

declare clear_path.simps [simp del]

definition AddPage :: "Memory \<Rightarrow> Word \<Rightarrow> Memory" where
  "AddPage m pageIndex =
    m\<lparr>nodes := clear_path (unat (push_bit PageKeySize 1 OR pageIndex)) (nodes m)\<rparr>"

definition Invalidate :: "Memory \<Rightarrow> Word \<Rightarrow> Memory" where
  "Invalidate m addr =
    m\<lparr>nodes := clear_path (unat (push_bit (WordSize - PageAddrSize) 1 OR drop_bit PageAddrSize addr)) (nodes m)\<rparr>"

definition AllocPage :: "Memory \<Rightarrow> Word \<Rightarrow> nat \<times> Memory" where
  "AllocPage m pageIndex =
    (let p = pageCounter m;
         m = m\<lparr>pageHeap := (pageHeap m)(p := newPage), pageCounter := Suc p\<rparr>;
         m = m\<lparr>pageTable := AList.update pageIndex p (pageTable m)\<rparr>;
         m = AddPage m pageIndex
     in (p, m))"

definition PageLookup :: "Memory \<Rightarrow> Word \<Rightarrow> (nat option \<times> bool) \<times> Memory" where
  "PageLookup m pageIndex =
    (if pageIndex = fst (lastPageKeys m) then ((fst (lastPage m), True), m)
     else if pageIndex = snd (lastPageKeys m) then ((snd (lastPage m), True), m)
     else case map_of (pageTable m) pageIndex of
        None \<Rightarrow> ((None, False), m)
      | Some p \<Rightarrow> ((Some p, True),
                   m\<lparr>lastPageKeys := (pageIndex, fst (lastPageKeys m)),
                     lastPage := (Some p, fst (lastPage m))\<rparr>))"

text \<open>Dereferencing a page pointer; a \<^verbatim>\<open>nil\<close> pointer panics.\<close>

definition deref :: "nat option \<Rightarrow> fault + nat" where
  "deref p = (case p of None \<Rightarrow> Inl NilDeref | Some r \<Rightarrow> Inr r)"

definition GetWord :: "Memory \<Rightarrow> Word \<Rightarrow> fault + Word \<times> Memory" where
  "GetWord m addr =
    (if addr AND ExtMask \<noteq> 0 then Inl (UnalignedAccess addr)
     else let pageIndex = drop_bit PageAddrSize addr;
              ((p, ok), m) = PageLookup m pageIndex
          in if \<not> ok then Inr (0, m)
             else rbind (deref p) (\<lambda>r.
                    let pageAddr = unat (addr AND PageAddrMask)
                    in Inr (be_word (go_slice (Data (pageHeap m r)) pageAddr (pageAddr + WordSizeBytes)), m)))"

definition SetWord :: "Memory \<Rightarrow> Word \<Rightarrow> Word \<Rightarrow> fault + Memory" where
  "SetWord m addr v =
    (if addr AND ExtMask \<noteq> 0 then Inl (UnalignedAccess addr)
     else let pageIndex = drop_bit PageAddrSize addr;
              pageAddr = addr AND PageAddrMask;
              ((p, ok), m) = PageLookup m pageIndex
          in rbind
               (if \<not> ok then Inr (AllocPage m pageIndex)
                else rbind (deref p) (\<lambda>r.
                  let prevValid = Ok (pageHeap m r) ! 1 in
                  rbind (CachedPage_invalidate (pageHeap m r) pageAddr) (\<lambda>pg.
                    let m = m\<lparr>pageHeap := (pageHeap m)(r := pg)\<rparr>
                    in Inr (r, if prevValid then Invalidate m addr else m))))
               (\<lambda>(r, m).
                  let pg = pageHeap m r
                  in Inr (m\<lparr>pageHeap := (pageHeap m)(r :=
                            pg\<lparr>Data := overwrite (Data pg) (unat pageAddr) (be_bytes WordSizeBytes v)\<rparr>)\<rparr>)))"

text \<open>The reader is a \<^verbatim>\<open>bytes.Reader\<close>: each \<^verbatim>\<open>Read\<close> fills the chunk as far as the
  remaining data reach, and reports EOF once nothing is left.\<close>

definition chunk_len :: "Word \<Rightarrow> nat" where
  "chunk_len addr = PageSize - unat (addr AND PageAddrMask)"

lemma chunk_len_pos: "0 < chunk_len addr"
proof -
  have "unat (addr AND PageAddrMask) < PageSize"
    by (simp add: PageAddrMask_def PageSize_def word_and_le1 [THEN word_le_nat_alt [THEN iffD1], THEN le_less_trans])
  then show ?thesis by (simp add: chunk_len_def)
qed

function SetMemoryRange :: "Memory \<Rightarrow> Word \<Rightarrow> bytes \<Rightarrow> fault + Memory" where
  "SetMemoryRange m addr r =
    (if r = [] then Inr m
     else let pageIndex = drop_bit PageAddrSize addr;
              pageAddr = unat (addr AND PageAddrMask);
              readLen = chunk_len addr;
              chunk = take readLen r;
              ((p, ok), m) = PageLookup m pageIndex;
              (p, m) = (if \<not> ok then (let (q, m) = AllocPage m pageIndex in (Some q, m)) else (p, m))
          in rbind (deref p) (\<lambda>q.
               let pg = CachedPage_InvalidateFull (pageHeap m q);
                   pg = pg\<lparr>Data := overwrite (Data pg) pageAddr chunk\<rparr>;
                   m = m\<lparr>pageHeap := (pageHeap m)(q := pg)\<rparr>
               in SetMemoryRange m (addr + of_nat (length chunk)) (drop readLen r)))"
  by pat_completeness auto
termination
  by (relation "measure (\<lambda>(m, addr, r). length r)") (auto simp: chunk_len_pos)

declare SetMemoryRange.simps [simp del]

definition PageCount :: "Memory \<Rightarrow> nat" where
  "PageCount m = length (pageTable m)"

section \<open>The Merkle index\<close>

function MerkleizeSubtree :: "(bytes \<Rightarrow> bytes) \<Rightarrow> Memory \<Rightarrow> nat \<Rightarrow> fault + bytes \<times> Memory" where
  "MerkleizeSubtree keccak m gindex =
    (let l = bit_len gindex in
     if MemProofLeafCount < l then Inl GindexTooDeep
     else if PageKeySize < l then
       (let depthIntoPage = l - 1 - PageKeySize;
            pageIndex = (gindex div 2 ^ depthIntoPage) mod 2 ^ PageKeySize
        in case map_of (pageTable m) (of_nat pageIndex) of
             Some r \<Rightarrow>
               (let pageGindex = 2 ^ depthIntoPage + gindex mod 2 ^ depthIntoPage
                in rbind (CachedPage_MerkleizeSubtree keccak (pageHeap m r) pageGindex) (\<lambda>(h, pg).
                     Inr (h, m\<lparr>pageHeap := (pageHeap m)(r := pg)\<rparr>)))
           | None \<Rightarrow> Inr (zeroHashes keccak (MemProofLeafCount - l), m))
     else case nodes m gindex of
        None \<Rightarrow> Inr (zeroHashes keccak (MemProofLeafCount - l), m)
      | Some (Some n) \<Rightarrow> Inr (n, m)
      | Some None \<Rightarrow>
          (if gindex = 0 then Inl StackOverflow
           else rbind (MerkleizeSubtree keccak m (2 * gindex)) (\<lambda>(left, m).
                rbind (MerkleizeSubtree keccak m (2 * gindex + 1)) (\<lambda>(right, m).
                let r = HashPair keccak left right
                in Inr (r, m\<lparr>nodes := (nodes m)(gindex \<mapsto> Some r)\<rparr>)))))"
  by pat_completeness auto
termination
  by (relation "measure (\<lambda>(keccak, m, g). 64 - bit_len g)")
    (auto simp: bit_len_double bit_len_double_Suc)

declare MerkleizeSubtree.simps [simp del]

definition MerkleRoot :: "(bytes \<Rightarrow> bytes) \<Rightarrow> Memory \<Rightarrow> fault + bytes \<times> Memory" where
  "MerkleRoot keccak m = MerkleizeSubtree keccak m 1"

function traverseBranch ::
    "(bytes \<Rightarrow> bytes) \<Rightarrow> Memory \<Rightarrow> nat \<Rightarrow> Word \<Rightarrow> nat \<Rightarrow> fault + bytes list \<times> Memory" where
  "traverseBranch keccak m parent addr depth =
    (if depth = WordSize - 5 then
       rbind (MerkleizeSubtree keccak m parent) (\<lambda>(h, m). Inr ([h], m))
     else if WordSize - 5 < depth then Inl TraversedTooDeep
     else let self = 2 * parent;
              sibling = 2 * parent + 1;
              (self, sibling) = (if bit addr ((WordSize - 1) - depth) then (sibling, self) else (self, sibling))
          in rbind (traverseBranch keccak m self addr (depth + 1)) (\<lambda>(proof, m).
             rbind (MerkleizeSubtree keccak m sibling) (\<lambda>(siblingNode, m).
             Inr (proof @ [siblingNode], m))))"
  by pat_completeness auto
termination by (relation "measure (\<lambda>(keccak, m, parent, addr, depth). 64 - depth)") auto

declare traverseBranch.simps [simp del]

definition MerkleProof :: "(bytes \<Rightarrow> bytes) \<Rightarrow> Memory \<Rightarrow> Word \<Rightarrow> fault + bytes \<times> Memory" where
  "MerkleProof keccak m addr =
    rbind (traverseBranch keccak m 1 addr 0) (\<lambda>(proof, m).
      if length proof < MemProofLeafCount then Inl IndexOutOfRange
      else Inr (concat (take MemProofLeafCount proof), m))"

section \<open>Representation invariant and contents\<close>

definition page_wf :: "CachedPage \<Rightarrow> bool" where
  "page_wf p \<longleftrightarrow> length (Data p) = 4096 \<and> length (Cache p) = 128 \<and> length (Ok p) = 128"

text \<open>One entry of the lookup cache: an unused key, or a key with the page the table has for it.\<close>

definition cache_entry_ok :: "Memory \<Rightarrow> Word \<Rightarrow> nat option \<Rightarrow> bool" where
  "cache_entry_ok m k p \<longleftrightarrow> k = NOT 0 \<or> (p \<noteq> None \<and> map_of (pageTable m) k = p)"

definition mem_wf :: "Memory \<Rightarrow> bool" where
  "mem_wf m \<longleftrightarrow>
     distinct (map fst (pageTable m)) \<and>
     (\<forall>k r. map_of (pageTable m) k = Some r \<longrightarrow> r < pageCounter m \<and> unat k < 2 ^ 52) \<and>
     (\<forall>k k' r. map_of (pageTable m) k = Some r \<longrightarrow> map_of (pageTable m) k' = Some r \<longrightarrow> k = k') \<and>
     (\<forall>r. page_wf (pageHeap m r)) \<and>
     cache_entry_ok m (fst (lastPageKeys m)) (fst (lastPage m)) \<and>
     cache_entry_ok m (snd (lastPageKeys m)) (snd (lastPage m))"

definition page_at :: "Memory \<Rightarrow> Word \<Rightarrow> CachedPage option" where
  "page_at m k = map_option (pageHeap m) (map_of (pageTable m) k)"

definition page_word :: "CachedPage \<Rightarrow> nat \<Rightarrow> Word" where
  "page_word p a = be_word (go_slice (Data p) a (a + 8))"

text \<open>The word a reader of the memory sees at an aligned address.\<close>

definition word_at :: "Memory \<Rightarrow> Word \<Rightarrow> Word" where
  "word_at m a = (case page_at m (drop_bit 12 a) of
       None \<Rightarrow> 0 | Some p \<Rightarrow> page_word p (unat (a AND PageAddrMask)))"

text \<open>Two memories that differ in the lookup cache only.\<close>

definition same_pages :: "Memory \<Rightarrow> Memory \<Rightarrow> bool" where
  "same_pages m m' \<longleftrightarrow> nodes m' = nodes m \<and> pageTable m' = pageTable m \<and>
     pageHeap m' = pageHeap m \<and> pageCounter m' = pageCounter m"

section \<open>Lemmas on pages and addresses\<close>

lemma PageSize_4096 [simp]: "PageSize = 4096"
  by (simp add: PageSize_def)

lemma PageAddrMask_mask: "PageAddrMask = mask 12"
  by (simp add: PageAddrMask_def mask_eq_exp_minus_1)

lemma and_PageAddrMask: "unat (a AND PageAddrMask) = unat a mod 4096"
  by (simp add: PageAddrMask_mask flip: take_bit_eq_mask) (simp add: take_bit_eq_mod unat_mod)

lemma unat_page_index: "unat (drop_bit 12 (a :: Word)) = unat a div 4096"
  by (simp add: drop_bit_eq_div unat_div)

lemma page_index_bound: "unat (drop_bit 12 (a :: Word)) < 2 ^ 52"
proof -
  have "unat a < 2 ^ 64" using unsigned_less [of a] by simp
  then show ?thesis by (simp add: unat_page_index)
qed

lemma page_index_not_max [simp]: "drop_bit 12 (a :: Word) \<noteq> NOT 0"
proof
  assume "drop_bit 12 a = NOT 0"
  then have "bit (drop_bit 12 a) 63 = bit (NOT 0 :: Word) 63" by simp
  then show False by (auto simp: bit_simps dest: bit_imp_le_length)
qed

lemma aligned_page_addr:
  assumes "a AND ExtMask = 0"
  shows "unat (a AND PageAddrMask) mod 8 = 0" "unat (a AND PageAddrMask) + 8 \<le> 4096"
proof -
  have m8: "unat a mod 8 = 0" using assms by (simp add: aligned_iff)
  have "unat a mod 4096 mod 8 = unat a mod 8" by (rule mod_mod_cancel) simp
  then show 1: "unat (a AND PageAddrMask) mod 8 = 0"
    by (simp add: and_PageAddrMask m8)
  have up: "x mod 8 = 0 \<Longrightarrow> x < 4096 \<Longrightarrow> x + 8 \<le> 4096" for x :: nat by presburger
  show "unat (a AND PageAddrMask) + 8 \<le> 4096"
    using 1 by (rule up) (simp add: and_PageAddrMask)
qed

lemma addr_eq_iff: "a = b \<longleftrightarrow> drop_bit 12 a = drop_bit 12 b \<and> a AND PageAddrMask = b AND PageAddrMask"
  for a b :: Word
proof
  assume h: "drop_bit 12 a = drop_bit 12 b \<and> a AND PageAddrMask = b AND PageAddrMask"
  then have "unat a div 4096 = unat b div 4096" "unat a mod 4096 = unat b mod 4096"
    by (metis unat_page_index, metis and_PageAddrMask)
  then have "unat a = unat b" by (metis div_mult_mod_eq)
  then show "a = b" by (simp add: word_unat_eq_iff)
qed simp

lemma newPage_wf [simp, wf_intros]: "page_wf newPage"
  by (simp add: page_wf_def newPage_def)

lemma length_invalidate_loop [simp]: "length (invalidate_loop k ok) = length ok"
  by (induction k ok rule: invalidate_loop.induct) (subst invalidate_loop.simps, simp)

lemma CachedPage_invalidate_ok:
  "pageAddr < 4096 \<Longrightarrow> CachedPage_invalidate p pageAddr =
     Inr (p\<lparr>Ok := invalidate_loop (unat (drop_bit 6 (0x1000 OR pageAddr))) (Ok p)\<rparr>)"
  by (simp add: CachedPage_invalidate_def Let_def)

lemma page_addr_lt [simp]: "a AND PageAddrMask < 4096"
  by (simp add: word_less_nat_alt and_PageAddrMask)

lemma page_wf_update [wf_intros]:
  "page_wf p \<Longrightarrow> length d = length (Data p) \<Longrightarrow> page_wf (p\<lparr>Data := d\<rparr>)"
  "page_wf p \<Longrightarrow> length o' = length (Ok p) \<Longrightarrow> page_wf (p\<lparr>Ok := o'\<rparr>)"
  "page_wf p \<Longrightarrow> length c = length (Cache p) \<Longrightarrow> page_wf (p\<lparr>Cache := c\<rparr>)"
  by (simp_all add: page_wf_def)

lemma page_wf_lengths:
  "page_wf p \<Longrightarrow> length (Data p) = 4096"
  "page_wf p \<Longrightarrow> length (Cache p) = 128"
  "page_wf p \<Longrightarrow> length (Ok p) = 128"
  by (simp_all add: page_wf_def)

section \<open>Lemmas on the page table and its lookup cache\<close>

lemma mem_wf_page: "mem_wf m \<Longrightarrow> page_wf (pageHeap m r)"
  by (simp add: mem_wf_def)

lemma mem_wf_NewMemory [simp, wf_intros]: "mem_wf NewMemory"
  by (simp add: mem_wf_def NewMemory_def cache_entry_ok_def)

lemma same_pages_refl [simp]: "same_pages m m"
  by (simp add: same_pages_def)

lemma same_pages_word_at: "same_pages m m' \<Longrightarrow> word_at m' = word_at m"
  by (rule ext) (simp add: same_pages_def word_at_def page_at_def)

text \<open>The two-entry cache is transparent: a lookup answers what the page table holds.\<close>

lemma PageLookup_correct:
  assumes "mem_wf m" "k \<noteq> NOT 0"
  obtains m' where "PageLookup m k = ((map_of (pageTable m) k, map_of (pageTable m) k \<noteq> None), m')"
    "mem_wf m'" "same_pages m m'"
proof -
  define m' where "m' = snd (PageLookup m k)"
  have c: "cache_entry_ok m (fst (lastPageKeys m)) (fst (lastPage m))"
    "cache_entry_ok m (snd (lastPageKeys m)) (snd (lastPage m))"
    using assms(1) unfolding mem_wf_def by blast+
  have eq: "PageLookup m k = ((map_of (pageTable m) k, map_of (pageTable m) k \<noteq> None), m')"
    using c assms(2) unfolding m'_def
    by (auto simp: PageLookup_def cache_entry_ok_def split: option.splits)
  have m': "m' = m \<or> (\<exists>p. map_of (pageTable m) k = Some p \<and>
               m' = m\<lparr>lastPageKeys := (k, fst (lastPageKeys m)), lastPage := (Some p, fst (lastPage m))\<rparr>)"
    by (auto simp: m'_def PageLookup_def split: option.splits)
  with assms(1) have "mem_wf m'" "same_pages m m'"
    by (auto simp: mem_wf_def cache_entry_ok_def same_pages_def)
  with eq that show thesis by blast
qed

lemma GetWord_correct:
  assumes "mem_wf m" "a AND ExtMask = 0"
  obtains m' where "GetWord m a = Inr (word_at m a, m')" "mem_wf m'" "same_pages m m'"
proof -
  obtain m' where lk: "PageLookup m (drop_bit 12 a) =
      ((map_of (pageTable m) (drop_bit 12 a), map_of (pageTable m) (drop_bit 12 a) \<noteq> None), m')"
    and m': "mem_wf m'" "same_pages m m'"
    using PageLookup_correct [OF assms(1) page_index_not_max] by metis
  have "GetWord m a = Inr (word_at m a, m')"
    using assms(2) lk m'(2)
    by (cases "map_of (pageTable m) (drop_bit 12 a)")
      (simp_all add: GetWord_def word_at_def page_at_def page_word_def deref_def same_pages_def Let_def)
  with m' that show thesis by blast
qed

lemma page_word_overwrite:
  assumes "page_wf p" "a mod 8 = 0" "b mod 8 = 0" "a + 8 \<le> 4096" "b + 8 \<le> 4096"
  shows "page_word (p\<lparr>Data := overwrite (Data p) a (be_bytes 8 v)\<rparr>) b
       = (if a = b then v else page_word p b)"
proof (cases "a = b")
  case True
  then show ?thesis
    using go_slice_overwrite_same [of a "be_bytes 8 v" "Data p"] assms
    by (simp add: page_word_def page_wf_lengths)
next
  case False
  then have "b + 8 \<le> a \<or> a + 8 \<le> b" using assms(2,3) by presburger
  then show ?thesis
    using False go_slice_overwrite_disjoint [of a "be_bytes 8 v" "Data p" "b + 8" b] assms
    by (simp add: page_word_def page_wf_lengths)
qed

lemma AllocPage_eq:
  "AllocPage m k = (pageCounter m, AddPage (m\<lparr>pageHeap := (pageHeap m)(pageCounter m := newPage),
     pageCounter := Suc (pageCounter m), pageTable := AList.update k (pageCounter m) (pageTable m)\<rparr>) k)"
  by (simp add: AllocPage_def Let_def)

text \<open>What \<^verbatim>\<open>SetWord\<close> does to the pages, in the two cases of the code.\<close>

definition SetWord_existing :: "Memory \<Rightarrow> Word \<Rightarrow> Word \<Rightarrow> nat \<Rightarrow> Memory" where
  "SetWord_existing m a v r =
    (let pg = pageHeap m r;
         pg' = pg\<lparr>Ok := invalidate_loop (unat (drop_bit 6 (0x1000 OR (a AND PageAddrMask)))) (Ok pg),
                  Data := overwrite (Data pg) (unat (a AND PageAddrMask)) (be_bytes 8 v)\<rparr>
     in (if Ok pg ! 1 then Invalidate m a else m)\<lparr>pageHeap := (pageHeap m)(r := pg')\<rparr>)"

definition SetWord_fresh :: "Memory \<Rightarrow> Word \<Rightarrow> Word \<Rightarrow> Memory" where
  "SetWord_fresh m a v =
    (AddPage m (drop_bit 12 a))\<lparr>
       pageHeap := (pageHeap m)(pageCounter m :=
         newPage\<lparr>Data := overwrite (Data newPage) (unat (a AND PageAddrMask)) (be_bytes 8 v)\<rparr>),
       pageCounter := Suc (pageCounter m),
       pageTable := AList.update (drop_bit 12 a) (pageCounter m) (pageTable m)\<rparr>"

lemma SetWord_cases:
  assumes "mem_wf m" "a AND ExtMask = 0"
  obtains m1 where "mem_wf m1" "same_pages m m1"
    "SetWord m a v = Inr (case map_of (pageTable m) (drop_bit 12 a) of
        None \<Rightarrow> SetWord_fresh m1 a v | Some r \<Rightarrow> SetWord_existing m1 a v r)"
proof -
  obtain m1 where lk: "PageLookup m (drop_bit 12 a) =
      ((map_of (pageTable m) (drop_bit 12 a), map_of (pageTable m) (drop_bit 12 a) \<noteq> None), m1)"
    and m1: "mem_wf m1" "same_pages m m1"
    using PageLookup_correct [OF assms(1) page_index_not_max] by metis
  have "SetWord m a v = Inr (case map_of (pageTable m) (drop_bit 12 a) of
        None \<Rightarrow> SetWord_fresh m1 a v | Some r \<Rightarrow> SetWord_existing m1 a v r)"
    using assms(2) lk
    by (cases "map_of (pageTable m) (drop_bit 12 a)")
      (simp_all add: SetWord_def AllocPage_eq AddPage_def Invalidate_def CachedPage_invalidate_ok
        deref_def SetWord_fresh_def SetWord_existing_def Let_def)
  with m1 that show thesis by blast
qed

lemma mem_wf_key_bound: "mem_wf m \<Longrightarrow> map_of (pageTable m) k = Some r \<Longrightarrow> r < pageCounter m \<and> unat k < 2 ^ 52"
  unfolding mem_wf_def by blast

lemma mem_wf_inj:
  "mem_wf m \<Longrightarrow> map_of (pageTable m) k = Some r \<Longrightarrow> map_of (pageTable m) k' = Some r \<Longrightarrow> k = k'"
  unfolding mem_wf_def by blast

lemma mem_wf_set_page:
  "mem_wf m \<Longrightarrow> page_wf pg \<Longrightarrow> mem_wf (m\<lparr>pageHeap := (pageHeap m)(r := pg)\<rparr>)"
  unfolding mem_wf_def cache_entry_ok_def by (simp add: fun_upd_def)

lemma mem_wf_nodes: "mem_wf (m\<lparr>nodes := ns\<rparr>) = mem_wf m"
  unfolding mem_wf_def cache_entry_ok_def by simp

lemma cache_entry_ok_fresh:
  assumes "cache_entry_ok m k p" "map_of (pageTable m) key = None"
  shows "cache_entry_ok (m\<lparr>pageTable := AList.update key r (pageTable m)\<rparr>) k p"
  using assms by (auto simp: cache_entry_ok_def update_conv)

lemma mem_wf_alloc:
  assumes "mem_wf m" "map_of (pageTable m) key = None" "unat key < 2 ^ 52" "page_wf pg"
  shows "mem_wf (m\<lparr>pageHeap := (pageHeap m)(pageCounter m := pg), pageCounter := Suc (pageCounter m),
                   pageTable := AList.update key (pageCounter m) (pageTable m)\<rparr>)"
proof -
  have b: "map_of (pageTable m) k = Some r \<Longrightarrow> r < pageCounter m \<and> unat k < 2 ^ 52" for k r
    using assms(1) by (rule mem_wf_key_bound)
  have "cache_entry_ok (m\<lparr>pageTable := AList.update key (pageCounter m) (pageTable m)\<rparr>) (fst (lastPageKeys m)) (fst (lastPage m))"
    "cache_entry_ok (m\<lparr>pageTable := AList.update key (pageCounter m) (pageTable m)\<rparr>) (snd (lastPageKeys m)) (snd (lastPage m))"
    using assms(1,2) by (auto simp: mem_wf_def intro: cache_entry_ok_fresh)
  moreover have "distinct (map fst (AList.update key (pageCounter m) (pageTable m)))"
    using assms(1) by (simp add: mem_wf_def distinct_update)
  moreover have "\<forall>k r. map_of (AList.update key (pageCounter m) (pageTable m)) k = Some r \<longrightarrow>
      r < Suc (pageCounter m) \<and> unat k < 2 ^ 52"
    using b assms(3) by (auto simp: update_conv less_Suc_eq)
  moreover have "\<forall>k k' r. map_of (AList.update key (pageCounter m) (pageTable m)) k = Some r \<longrightarrow>
      map_of (AList.update key (pageCounter m) (pageTable m)) k' = Some r \<longrightarrow> k = k'"
  proof (intro allI impI)
    fix k k' r
    assume "map_of (AList.update key (pageCounter m) (pageTable m)) k = Some r"
      "map_of (AList.update key (pageCounter m) (pageTable m)) k' = Some r"
    then show "k = k'"
      using b [of k r] b [of k' r] mem_wf_inj [OF assms(1), of k r k']
      by (cases "k = key"; cases "k' = key") (auto simp: update_conv)
  qed
  moreover have "\<forall>r. page_wf (((pageHeap m)(pageCounter m := pg)) r)"
    using assms(1,4) by (simp add: mem_wf_def)
  ultimately show ?thesis by (simp add: mem_wf_def cache_entry_ok_def)
qed

lemma page_addr_fits: "a AND ExtMask = 0 \<Longrightarrow> page_wf p \<Longrightarrow>
    unat (a AND PageAddrMask) + length (be_bytes 8 (v :: Word)) \<le> length (Data p)"
  using aligned_page_addr(2) [of a] by (simp add: page_wf_lengths)

lemma SetWord_existing_wf:
  assumes "mem_wf m" "a AND ExtMask = 0"
  shows "mem_wf (SetWord_existing m a v r)"
proof -
  have "page_wf ((pageHeap m r)\<lparr>Ok := invalidate_loop k (Ok (pageHeap m r)),
      Data := overwrite (Data (pageHeap m r)) (unat (a AND PageAddrMask)) (be_bytes 8 v)\<rparr>)" for k
    using page_addr_fits [OF assms(2)] assms(1) by (auto intro!: wf_intros simp: mem_wf_page)
  then show ?thesis
    using assms(1)
    by (auto simp: SetWord_existing_def Invalidate_def Let_def mem_wf_nodes
        intro!: mem_wf_set_page [of "m\<lparr>nodes := _\<rparr>", simplified] mem_wf_set_page)
qed

lemma SetWord_fresh_wf:
  assumes "mem_wf m" "a AND ExtMask = 0" "map_of (pageTable m) (drop_bit 12 a) = None"
  shows "mem_wf (SetWord_fresh m a v)"
proof -
  have "page_wf (newPage\<lparr>Data := overwrite (Data newPage) (unat (a AND PageAddrMask)) (be_bytes 8 v)\<rparr>)"
    using page_addr_fits [OF assms(2) newPage_wf] by (auto intro!: wf_intros)
  then have "mem_wf ((AddPage m (drop_bit 12 a))\<lparr>pageHeap := (pageHeap m)(pageCounter m :=
      newPage\<lparr>Data := overwrite (Data newPage) (unat (a AND PageAddrMask)) (be_bytes 8 v)\<rparr>),
      pageCounter := Suc (pageCounter m),
      pageTable := AList.update (drop_bit 12 a) (pageCounter m) (pageTable m)\<rparr>)"
    using mem_wf_alloc [of "AddPage m (drop_bit 12 a)" "drop_bit 12 a"] assms(1,3) page_index_bound [of a]
    by (simp add: AddPage_def mem_wf_nodes)
  then show ?thesis by (simp add: SetWord_fresh_def)
qed

lemma page_word_newPage: "a + 8 \<le> 4096 \<Longrightarrow> page_word newPage a = 0"
proof -
  assume "a + 8 \<le> 4096"
  then have "go_slice (Data newPage) a (a + 8) = be_bytes 8 (0 :: Word)"
    by (simp add: newPage_def go_slice_def be_bytes_0 min_def)
  then show ?thesis by (simp add: page_word_def)
qed

lemma page_word_Ok [simp]: "page_word (p\<lparr>Ok := b\<rparr>) i = page_word p i"
  by (simp add: page_word_def)

lemma SetWord_existing_page_at:
  assumes "mem_wf m" "map_of (pageTable m) (drop_bit 12 a) = Some r"
  shows "page_at (SetWord_existing m a v r) k =
    (if k = drop_bit 12 a then Some ((pageHeap m r)
        \<lparr>Ok := invalidate_loop (unat (drop_bit 6 (0x1000 OR (a AND PageAddrMask)))) (Ok (pageHeap m r)),
         Data := overwrite (Data (pageHeap m r)) (unat (a AND PageAddrMask)) (be_bytes 8 v)\<rparr>)
     else page_at m k)"
proof (cases "map_of (pageTable m) k")
  case None
  with assms(2) show ?thesis
    by (auto simp: page_at_def SetWord_existing_def Invalidate_def Let_def)
next
  case (Some r')
  then have "r' = r \<longleftrightarrow> k = drop_bit 12 a"
    using assms mem_wf_inj [OF assms(1), of k r "drop_bit 12 a"] by auto
  with Some assms(2) show ?thesis
    by (auto simp: page_at_def SetWord_existing_def Invalidate_def Let_def)
qed

lemma SetWord_fresh_page_at:
  assumes "mem_wf m"
  shows "page_at (SetWord_fresh m a v) k =
    (if k = drop_bit 12 a
     then Some (newPage\<lparr>Data := overwrite (Data newPage) (unat (a AND PageAddrMask)) (be_bytes 8 v)\<rparr>)
     else page_at m k)"
proof (cases "map_of (pageTable m) k")
  case None
  then show ?thesis by (simp add: page_at_def SetWord_fresh_def AddPage_def update_conv)
next
  case (Some r)
  with mem_wf_key_bound [OF assms Some] show ?thesis
    by (simp add: page_at_def SetWord_fresh_def AddPage_def update_conv)
qed

lemma word_at_page_update:
  assumes "page_at m' = (\<lambda>k. if k = drop_bit 12 a then Some p' else page_at m k)"
    and "drop_bit 12 b = drop_bit 12 a \<Longrightarrow> page_word p' (unat (b AND PageAddrMask)) =
      (if unat (a AND PageAddrMask) = unat (b AND PageAddrMask) then v
       else case page_at m (drop_bit 12 a) of None \<Rightarrow> 0 | Some p \<Rightarrow> page_word p (unat (b AND PageAddrMask)))"
  shows "word_at m' b = (if b = a then v else word_at m b)"
proof (cases "drop_bit 12 b = drop_bit 12 a")
  case True
  then have "unat (a AND PageAddrMask) = unat (b AND PageAddrMask) \<longleftrightarrow> b = a"
    using addr_eq_iff [of b a] by (auto simp flip: word_unat_eq_iff)
  with True assms show ?thesis by (simp add: word_at_def)
next
  case False
  with assms(1) show ?thesis by (auto simp: word_at_def)
qed

text \<open>A stored word is read back, and every other aligned word keeps its value.\<close>

lemma SetWord_correct:
  assumes "mem_wf m" "a AND ExtMask = 0"
  obtains m' where "SetWord m a v = Inr m'" "mem_wf m'"
    "\<And>b. b AND ExtMask = 0 \<Longrightarrow> word_at m' b = (if b = a then v else word_at m b)"
proof -
  obtain m1 where m1: "mem_wf m1" "same_pages m m1"
    and eq: "SetWord m a v = Inr (case map_of (pageTable m) (drop_bit 12 a) of
        None \<Rightarrow> SetWord_fresh m1 a v | Some r \<Rightarrow> SetWord_existing m1 a v r)"
    using SetWord_cases [OF assms] by metis
  note al = aligned_page_addr
  have pt: "pageTable m1 = pageTable m" "word_at m1 = word_at m"
    using m1(2) same_pages_word_at [OF m1(2)] by (auto simp: same_pages_def)
  show thesis
  proof (cases "map_of (pageTable m1) (drop_bit 12 a)")
    case None
    then have na: "page_at m1 (drop_bit 12 a) = None" by (simp add: page_at_def)
    have "word_at (SetWord_fresh m1 a v) b = (if b = a then v else word_at m1 b)" if "b AND ExtMask = 0" for b
      by (rule word_at_page_update)
        (use page_word_overwrite [OF newPage_wf al(1) [OF assms(2)] al(1) [OF that] al(2) [OF assms(2)] al(2) [OF that], of v]
           page_word_newPage [OF al(2) [OF that]]
         in \<open>auto simp: SetWord_fresh_page_at [OF m1(1)] fun_eq_iff na\<close>)
    with None eq m1(1) assms(2) pt that [of "SetWord_fresh m1 a v"] show thesis
      by (simp add: SetWord_fresh_wf)
  next
    case (Some r)
    then have pa: "page_at m1 (drop_bit 12 a) = Some (pageHeap m1 r)" by (simp add: page_at_def)
    have wf: "page_wf ((pageHeap m1 r)\<lparr>Ok := invalidate_loop k (Ok (pageHeap m1 r))\<rparr>)" for k
      using m1(1) by (auto intro: wf_intros mem_wf_page)
    have "word_at (SetWord_existing m1 a v r) b = (if b = a then v else word_at m1 b)" if "b AND ExtMask = 0" for b
      by (rule word_at_page_update)
        (use page_word_overwrite [OF wf [of "unat (drop_bit 6 (0x1000 OR (a AND PageAddrMask)))"]
             al(1) [OF assms(2)] al(1) [OF that] al(2) [OF assms(2)] al(2) [OF that], of v]
         in \<open>auto simp: SetWord_existing_page_at [OF m1(1) Some] fun_eq_iff pa\<close>)
    with Some eq m1(1) assms(2) pt that [of "SetWord_existing m1 a v r"] show thesis
      by (simp add: SetWord_existing_wf)
  qed
qed

section \<open>The interface of a word-addressed memory\<close>

text \<open>What the execution engine relies on: reads and writes at aligned addresses succeed, keep the
  representation invariant, and behave like an array of words.\<close>

locale word_memory =
  fixes get :: "'m \<Rightarrow> Word \<Rightarrow> fault + Word \<times> 'm"
    and set :: "'m \<Rightarrow> Word \<Rightarrow> Word \<Rightarrow> fault + 'm"
    and contents :: "'m \<Rightarrow> Word \<Rightarrow> Word"
    and inv :: "'m \<Rightarrow> bool"
  assumes get_ok: "inv m \<Longrightarrow> a AND ExtMask = 0 \<Longrightarrow>
      \<exists>m'. get m a = Inr (contents m a, m') \<and> inv m' \<and> (\<forall>b. contents m' b = contents m b)"
    and set_ok: "inv m \<Longrightarrow> a AND ExtMask = 0 \<Longrightarrow>
      \<exists>m'. set m a v = Inr m' \<and> inv m' \<and>
           (\<forall>b. b AND ExtMask = 0 \<longrightarrow> contents m' b = (if b = a then v else contents m b))"
    and unaligned_get: "a AND ExtMask \<noteq> 0 \<Longrightarrow> get m a = Inl (UnalignedAccess a)"
    and unaligned_set: "a AND ExtMask \<noteq> 0 \<Longrightarrow> set m a v = Inl (UnalignedAccess a)"
begin

lemma get_total: "inv m \<Longrightarrow> is_ok (get m a) \<longleftrightarrow> a AND ExtMask = 0"
  using get_ok [of m a] unaligned_get [of a m] by (cases "a AND ExtMask = 0") (auto simp: is_ok_iff)

lemma get_after_set:
  assumes "inv m" "set m a v = Inr m1" "get m1 b = Inr (w, m2)"
  shows "w = (if b = a then v else contents m b)" "inv m2"
proof -
  have al: "a AND ExtMask = 0" "b AND ExtMask = 0"
    using assms(2,3) unaligned_set [of a m v] unaligned_get [of b m1] by (metis Inl_Inr_False)+
  obtain m' where "set m a v = Inr m'" "inv m'"
    "\<forall>b. b AND ExtMask = 0 \<longrightarrow> contents m' b = (if b = a then v else contents m b)"
    using set_ok [OF assms(1) al(1)] by metis
  with get_ok [of m1 b] assms(2,3) al show "w = (if b = a then v else contents m b)" "inv m2" by auto
qed

lemma set_set:
  assumes "inv m" "set m a v = Inr m1" "set m1 a w = Inr m2" "b AND ExtMask = 0"
  shows "contents m2 b = (if b = a then w else contents m b)"
proof -
  have al: "a AND ExtMask = 0" using assms(2) unaligned_set [of a m v] by (metis Inl_Inr_False)
  from set_ok [OF assms(1) al, of v] assms(2) have m1: "inv m1"
    "\<forall>b. b AND ExtMask = 0 \<longrightarrow> contents m1 b = (if b = a then v else contents m b)" by auto
  from set_ok [OF m1(1) al, of w] assms(3,4) m1(2) show ?thesis by auto
qed

end

interpretation vmem: word_memory GetWord SetWord word_at mem_wf
proof unfold_locales
  show "\<exists>m'. GetWord m a = Inr (word_at m a, m') \<and> mem_wf m' \<and> (\<forall>b. word_at m' b = word_at m b)"
    if "mem_wf m" "a AND ExtMask = 0" for m a
    using GetWord_correct [OF that] same_pages_word_at by metis
  show "\<exists>m'. SetWord m a v = Inr m' \<and> mem_wf m' \<and>
      (\<forall>b. b AND ExtMask = 0 \<longrightarrow> word_at m' b = (if b = a then v else word_at m b))"
    if "mem_wf m" "a AND ExtMask = 0" for m a v
    using SetWord_correct [OF that] by metis
qed (simp_all add: GetWord_def SetWord_def)

section \<open>Properties\<close>

text \<open>C31: A word written with \<open>SetWord\<close> is what \<open>GetWord\<close> returns at that address, every other aligned
  address still reads what it read before the write, no call fails, and the representation invariant
  (page table, page sizes, the two-entry lookup cache) survives.\<close>

theorem mem_read_over_write:
  assumes "mem_wf m" "a AND ExtMask = 0" "b AND ExtMask = 0"
  shows "\<exists>w m0 m1 m2. GetWord m b = Inr (w, m0) \<and> SetWord m0 a v = Inr m1 \<and>
           GetWord m1 b = Inr (if a = b then v else w, m2) \<and> mem_wf m2"
proof -
  obtain m0 where m0: "GetWord m b = Inr (word_at m b, m0)" "mem_wf m0" "\<forall>c. word_at m0 c = word_at m c"
    using vmem.get_ok [OF assms(1,3)] by blast
  obtain m1 where m1: "SetWord m0 a v = Inr m1" "mem_wf m1"
      "\<forall>c. c AND ExtMask = 0 \<longrightarrow> word_at m1 c = (if c = a then v else word_at m0 c)"
    using vmem.set_ok [OF m0(2) assms(2), of v] by blast
  obtain m2 where m2: "GetWord m1 b = Inr (word_at m1 b, m2)" "mem_wf m2"
    using vmem.get_ok [OF m1(2) assms(3)] by blast
  have "word_at m1 b = (if a = b then v else word_at m b)" using m1(3) m0(3) assms(3) by auto
  with m0 m1 m2 show ?thesis by auto
qed

theorem mem_read_over_write_witness:
  "\<exists>w m0 m1 m2. GetWord NewMemory 4096 = Inr (w, m0) \<and> SetWord m0 4096 7 = Inr m1 \<and>
     GetWord m1 4096 = Inr (7, m2) \<and> mem_wf m2"
  using mem_read_over_write [of NewMemory 4096 4096 7] by (simp add: ExtMask_def)

text \<open>C32: The two-entry lookup cache is transparent: in every well-formed memory \<open>PageLookup\<close> answers
  exactly what the page table holds for every page index (other than the marker of an unused entry, which
  is no page index of a 64-bit address), leaves pages, table and tree index alone,
  and the cache it leaves behind is again consistent.\<close>

theorem PageLookup_transparent:
  assumes "mem_wf m" "k \<noteq> NOT 0"
  shows "fst (PageLookup m k) = (map_of (pageTable m) k, map_of (pageTable m) k \<noteq> None) \<and>
         same_pages m (snd (PageLookup m k)) \<and> mem_wf (snd (PageLookup m k))"
  using PageLookup_correct [OF assms] by (metis fst_conv snd_conv)

theorem PageLookup_transparent_witness:
  "let m = SetWord_fresh NewMemory 4096 7 in
   map_of (pageTable m) 1 \<noteq> None \<and> fst (PageLookup m 1) = (map_of (pageTable m) 1, True) \<and>
   fst (PageLookup (snd (PageLookup m 1)) 1) = (map_of (pageTable m) 1, True) \<and> fst (PageLookup m 2) = (None, False)"
proof -
  let ?m = "SetWord_fresh NewMemory 4096 7"
  have wf: "mem_wf ?m" by (rule SetWord_fresh_wf [OF mem_wf_NewMemory]) (simp_all add: ExtMask_def NewMemory_def)
  have t: "map_of (pageTable ?m) 1 \<noteq> None" "map_of (pageTable ?m) 2 = None" by (simp_all add: SetWord_fresh_def AddPage_def NewMemory_def Let_def)
  have "(1 :: Word) \<noteq> NOT 0" "(2 :: Word) \<noteq> NOT 0" by simp_all
  note r = PageLookup_transparent [OF wf this(1)] PageLookup_transparent [OF wf this(2)] and one = this(1)
  have "mem_wf (snd (PageLookup ?m 1))" "pageTable (snd (PageLookup ?m 1)) = pageTable ?m" using r(1) by (simp_all add: same_pages_def)
  then have "fst (PageLookup (snd (PageLookup ?m 1)) 1) = (map_of (pageTable ?m) 1, True)"
    using PageLookup_transparent [OF _ one, of "snd (PageLookup ?m 1)"] t(1) by simp
  then show ?thesis using r t by (simp add: Let_def)
qed

end
