(* ===== verification/CannonMerkle.thy ===== *)
theory CannonMerkle
  imports CannonMemory
begin

text \<open>
  Correctness of the Merkle index of \<^verbatim>\<open>cannon/mipsevm/memory\<close>: a reference definition of
  the root of a memory image (no caches, no invalidation), the invariant that relates the page
  caches and the node map to it, that every operation keeps the invariant, that
  \<^verbatim>\<open>MerkleizeSubtree\<close> computes the reference hash, and that the proofs of
  \<^verbatim>\<open>MerkleProof\<close> verify against the root.
\<close>

section \<open>Reference hashes\<close>

text \<open>The hash of the perfect binary tree of height \<open>h\<close> whose leftmost leaf is number
  \<open>i * 2 ^ h\<close>.\<close>

fun tree_hash :: "(bytes \<Rightarrow> bytes) \<Rightarrow> nat \<Rightarrow> (nat \<Rightarrow> bytes) \<Rightarrow> nat \<Rightarrow> bytes" where
  "tree_hash keccak 0 leaf i = leaf i"
| "tree_hash keccak (Suc h) leaf i =
     HashPair keccak (tree_hash keccak h leaf (2 * i)) (tree_hash keccak h leaf (2 * i + 1))"

text \<open>The hash of generalized index \<open>g\<close> in a tree with \<open>n\<close> levels.\<close>

definition gindex_hash :: "(bytes \<Rightarrow> bytes) \<Rightarrow> nat \<Rightarrow> (nat \<Rightarrow> bytes) \<Rightarrow> nat \<Rightarrow> bytes" where
  "gindex_hash keccak n leaf g = tree_hash keccak (n - bit_len g) leaf (g - 2 ^ (bit_len g - 1))"

definition page_leaf :: "bytes \<Rightarrow> nat \<Rightarrow> bytes" where
  "page_leaf d i = go_slice d (i * 32) (i * 32 + 32)"

definition page_hash :: "(bytes \<Rightarrow> bytes) \<Rightarrow> bytes \<Rightarrow> nat \<Rightarrow> bytes" where
  "page_hash keccak d g = gindex_hash keccak 8 (page_leaf d) g"

text \<open>Leaf \<open>i\<close> of the memory: the 32 bytes from address \<open>32 * i\<close>.\<close>

definition mem_leaf :: "Memory \<Rightarrow> nat \<Rightarrow> bytes" where
  "mem_leaf m i = (case page_at m (of_nat (i div 128)) of
      None \<Rightarrow> replicate 32 0 | Some p \<Rightarrow> page_leaf (Data p) (i mod 128))"

definition mem_hash :: "(bytes \<Rightarrow> bytes) \<Rightarrow> Memory \<Rightarrow> nat \<Rightarrow> bytes" where
  "mem_hash keccak m g = gindex_hash keccak 60 (mem_leaf m) g"

text \<open>Page \<open>k\<close> lies in the subtree of generalized index \<open>g\<close> (at most 53 bits long).\<close>

definition under :: "Word \<Rightarrow> nat \<Rightarrow> bool" where
  "under k g \<longleftrightarrow> (2 ^ 52 + unat k) div 2 ^ (53 - bit_len g) = g"

text \<open>Folding a proof from a leaf to the root, the sibling order given by the address bits.\<close>

fun fold_proof :: "(bytes \<Rightarrow> bytes) \<Rightarrow> Word \<Rightarrow> nat \<Rightarrow> bytes \<Rightarrow> bytes list \<Rightarrow> bytes" where
  "fold_proof keccak addr b node [] = node"
| "fold_proof keccak addr b node (s # ss) =
     fold_proof keccak addr (Suc b)
       (if bit addr b then HashPair keccak s node else HashPair keccak node s) ss"

section \<open>The cache invariant\<close>

definition page_cache_ok :: "(bytes \<Rightarrow> bytes) \<Rightarrow> CachedPage \<Rightarrow> bool" where
  "page_cache_ok keccak p \<longleftrightarrow>
     (\<forall>j. 0 < j \<longrightarrow> j < 128 \<longrightarrow> Ok p ! j \<longrightarrow> Cache p ! j = page_hash keccak (Data p) j)"

definition nodes_ok :: "(bytes \<Rightarrow> bytes) \<Rightarrow> Memory \<Rightarrow> bool" where
  "nodes_ok keccak m \<longleftrightarrow>
     (\<forall>g h. 0 < g \<longrightarrow> bit_len g \<le> 52 \<longrightarrow> nodes m g = Some (Some h) \<longrightarrow>
        h = mem_hash keccak m g \<and>
        (\<forall>k p. unat k < 2 ^ 52 \<longrightarrow> under k g \<longrightarrow> page_at m k = Some p \<longrightarrow> Ok p ! 1))"

definition pages_indexed :: "Memory \<Rightarrow> bool" where
  "pages_indexed m \<longleftrightarrow>
     (\<forall>k g. page_at m k \<noteq> None \<longrightarrow> 0 < g \<longrightarrow> bit_len g \<le> 52 \<longrightarrow> under k g \<longrightarrow> nodes m g \<noteq> None)"

definition merkle_wf :: "(bytes \<Rightarrow> bytes) \<Rightarrow> Memory \<Rightarrow> bool" where
  "merkle_wf keccak m \<longleftrightarrow> mem_wf m \<and>
     (\<forall>k p. page_at m k = Some p \<longrightarrow> page_cache_ok keccak p) \<and> nodes_ok keccak m \<and> pages_indexed m"

text \<open>A memory with the same bytes, the pages at least as much cached.\<close>

definition same_data :: "Memory \<Rightarrow> Memory \<Rightarrow> bool" where
  "same_data m m' \<longleftrightarrow> pageTable m' = pageTable m \<and> pageCounter m' = pageCounter m \<and>
     lastPageKeys m' = lastPageKeys m \<and> lastPage m' = lastPage m \<and>
     (\<forall>r. Data (pageHeap m' r) = Data (pageHeap m r) \<and> (Ok (pageHeap m r) ! 1 \<longrightarrow> Ok (pageHeap m' r) ! 1))"

section \<open>Lemmas on reference hashes\<close>

lemma tree_hash_cong:
  "(\<And>j. i * 2 ^ h \<le> j \<Longrightarrow> j < (i + 1) * 2 ^ h \<Longrightarrow> leaf j = leaf' j) \<Longrightarrow>
   tree_hash keccak h leaf i = tree_hash keccak h leaf' i"
proof (induction h arbitrary: i)
  case (Suc h)
  have "tree_hash keccak h leaf (2 * i) = tree_hash keccak h leaf' (2 * i)"
    "tree_hash keccak h leaf (2 * i + 1) = tree_hash keccak h leaf' (2 * i + 1)"
    by (rule Suc.IH, rule Suc.prems; simp add: algebra_simps)+
  then show ?case by simp
qed simp

lemma tree_hash_zero:
  "(\<And>j. i * 2 ^ h \<le> j \<Longrightarrow> j < (i + 1) * 2 ^ h \<Longrightarrow> leaf j = replicate 32 0) \<Longrightarrow>
   tree_hash keccak h leaf i = zeroHashes keccak h"
proof (induction h arbitrary: i)
  case (Suc h)
  have "tree_hash keccak h leaf (2 * i) = zeroHashes keccak h"
    "tree_hash keccak h leaf (2 * i + 1) = zeroHashes keccak h"
    by (rule Suc.IH, rule Suc.prems; simp add: algebra_simps)+
  then show ?case by simp
qed simp

lemma gindex_split:
  assumes "0 < g"
  shows "2 * g - 2 ^ bit_len g = 2 * (g - 2 ^ (bit_len g - 1))"
    "Suc (2 * g) - 2 ^ bit_len g = 2 * (g - 2 ^ (bit_len g - 1)) + 1"
proof -
  have "bit_len g = Suc (bit_len g - 1)" using assms by simp
  then have p: "(2::nat) ^ bit_len g = 2 * 2 ^ (bit_len g - 1)" by (metis power_Suc)
  have le: "2 ^ (bit_len g - 1) \<le> g" using bit_len_bounds [OF assms] by simp
  show "2 * g - 2 ^ bit_len g = 2 * (g - 2 ^ (bit_len g - 1))"
    using p le by (simp add: right_diff_distrib')
  show "Suc (2 * g) - 2 ^ bit_len g = 2 * (g - 2 ^ (bit_len g - 1)) + 1"
    using p le by (simp add: right_diff_distrib' Suc_diff_le)
qed

lemma gindex_hash_rec:
  assumes "0 < g" "bit_len g < n"
  shows "gindex_hash keccak n leaf g =
    HashPair keccak (gindex_hash keccak n leaf (2 * g)) (gindex_hash keccak n leaf (2 * g + 1))"
proof -
  obtain h where h: "n - bit_len g = Suc h" using assms(2) by (metis Suc_diff_Suc)
  then have "n - Suc (bit_len g) = h" by simp
  with h gindex_split [OF assms(1)] assms(1) show ?thesis
    by (simp add: gindex_hash_def bit_len_double bit_len_double_Suc)
qed

lemma gindex_hash_leaf:
  "0 < g \<Longrightarrow> bit_len g = n \<Longrightarrow> gindex_hash keccak n leaf g = leaf (g - 2 ^ (n - 1))"
  by (simp add: gindex_hash_def)

section \<open>Lemmas on the page cache\<close>

lemma page_hash_rec:
  assumes "0 < j" "j < 128"
  shows "page_hash keccak d j = HashPair keccak (page_hash keccak d (2 * j)) (page_hash keccak d (2 * j + 1))"
  unfolding page_hash_def
  by (rule gindex_hash_rec) (use assms bit_len_lt_pow [of j 7] in auto)

lemma page_hash_leaf:
  assumes "128 \<le> g" "g < 256"
  shows "page_hash keccak d g = page_leaf d (g - 128)"
proof -
  have "bit_len g = 8" using bit_len_unique [of 7 g] assms by simp
  then show ?thesis using gindex_hash_leaf [of g 8 keccak "page_leaf d"] assms by (simp add: page_hash_def)
qed

lemma page_hash_bottom:
  assumes "64 \<le> j" "j < 128" "length d = 4096"
  shows "page_hash keccak d j = keccak (go_slice d ((j - 64) * 64) ((j - 64) * 64 + 64))"
proof -
  have "page_leaf d (2 * j - 128) @ page_leaf d (2 * j + 1 - 128) = go_slice d ((j - 64) * 64) ((j - 64) * 64 + 64)"
  proof -
    have "(2 * j - 128) * 32 = (j - 64) * 64" "(2 * j + 1 - 128) * 32 = (j - 64) * 64 + 32"
      using assms(1) by (simp_all add: algebra_simps)
    then show ?thesis
      using go_slice_append [of "(j - 64) * 64" "(j - 64) * 64 + 32" "(j - 64) * 64 + 64" d]
      by (simp only: page_leaf_def) (simp add: add.assoc)
  qed
  with assms show ?thesis
    by (simp add: page_hash_rec page_hash_leaf HashPair_def)
qed

definition fills :: "(bytes \<Rightarrow> bytes) \<Rightarrow> CachedPage \<Rightarrow> CachedPage \<Rightarrow> bool" where
  "fills keccak p p' \<longleftrightarrow> page_wf p' \<and> page_cache_ok keccak p' \<and> Data p' = Data p \<and>
     (\<forall>j. Ok p ! j \<longrightarrow> Ok p' ! j)"

lemma fills_set:
  assumes "page_wf p" "page_cache_ok keccak p" "0 < j" "j < 128" "h = page_hash keccak (Data p) j"
  shows "fills keccak p (p\<lparr>Cache := (Cache p)[j := h], Ok := (Ok p)[j := True]\<rparr>)"
proof -
  have "page_wf (p\<lparr>Cache := (Cache p)[j := h], Ok := (Ok p)[j := True]\<rparr>)"
    using assms(1) by (auto intro!: wf_intros)
  moreover have "page_cache_ok keccak (p\<lparr>Cache := (Cache p)[j := h], Ok := (Ok p)[j := True]\<rparr>)"
    using assms by (auto simp: page_cache_ok_def nth_list_update page_wf_lengths)
  ultimately show ?thesis
    using assms by (auto simp: fills_def nth_list_update page_wf_lengths)
qed

lemma fills_trans: "fills keccak p q \<Longrightarrow> fills keccak q r \<Longrightarrow> fills keccak p r"
  by (simp add: fills_def)

lemma fills_refl: "page_wf p \<Longrightarrow> page_cache_ok keccak p \<Longrightarrow> fills keccak p p"
  by (simp add: fills_def)

lemma bottom_loop_correct:
  "page_wf p \<Longrightarrow> page_cache_ok keccak p \<Longrightarrow> i mod 64 = 0 \<Longrightarrow>
   fills keccak p (bottom_loop keccak i p) \<and>
   (\<forall>j. 64 + i div 64 \<le> j \<longrightarrow> j < 128 \<longrightarrow> Ok (bottom_loop keccak i p) ! j)"
proof (induction keccak i p rule: bottom_loop.induct)
  case (1 keccak i p)
  define j where "j = 64 + i div 64"
  define q where "q = (if Ok p ! j then p else
     p\<lparr>Cache := (Cache p)[j := keccak (go_slice (Data p) i (i + 64))], Ok := (Ok p)[j := True]\<rparr>)"
  show ?case
  proof (cases "i < 4096")
    case False
    with 1 show ?thesis by (auto simp: bottom_loop.simps [of keccak i] intro: fills_refl)
  next
    case True
    have j: "64 \<le> j" "j < 128" "(j - 64) * 64 = i" using True "1.prems"(3) by (auto simp: j_def)
    then have f: "fills keccak p q"
      using fills_set [OF "1.prems"(1,2), of j] fills_refl [OF "1.prems"(1,2)]
        page_hash_bottom [of j "Data p" keccak] "1.prems"(1)
      by (auto simp: q_def page_wf_lengths)
    have okj: "Ok q ! j" using j "1.prems"(1) by (auto simp: q_def page_wf_lengths)
    have eq: "bottom_loop keccak i p = bottom_loop keccak (i + 64) q"
      using True by (auto simp: bottom_loop.simps [of keccak i p] q_def j_def Let_def)
    have "fills keccak q (bottom_loop keccak (i + 64) q) \<and>
      (\<forall>j'. 64 + (i + 64) div 64 \<le> j' \<longrightarrow> j' < 128 \<longrightarrow> Ok (bottom_loop keccak (i + 64) q) ! j')"
      using True "1.prems"(3) f 1(1) [of j] 1(2) [of j]
      by (cases "Ok p ! j") (auto simp: q_def j_def fills_def)
    moreover have "j' = j \<or> 64 + (i + 64) div 64 \<le> j'" if "64 + i div 64 \<le> j'" for j'
      using that by (auto simp: j_def)
    ultimately show ?thesis
      using f okj unfolding eq by (fastforce simp: fills_def)
  qed
qed

lemma layer_loop_correct:
  "page_wf p \<Longrightarrow> page_cache_ok keccak p \<Longrightarrow> even i \<Longrightarrow> i \<le> 126 \<Longrightarrow>
   (\<forall>j. i div 2 < j \<longrightarrow> j < 128 \<longrightarrow> Ok p ! j) \<Longrightarrow>
   fills keccak p (layer_loop keccak i p) \<and> (\<forall>j. 0 < j \<longrightarrow> j < 128 \<longrightarrow> Ok (layer_loop keccak i p) ! j)"
proof (induction keccak i p rule: layer_loop.induct)
  case (1 keccak i p)
  define j where "j = i div 2"
  define q where "q = (if Ok p ! j then p else
     p\<lparr>Cache := (Cache p)[j := HashPair keccak (Cache p ! i) (Cache p ! (i + 1))], Ok := (Ok p)[j := True]\<rparr>)"
  show ?case
  proof (cases "0 < i")
    case False
    with 1 show ?thesis by (auto simp: layer_loop.simps [of keccak 0] intro: fills_refl)
  next
    case True
    have j: "0 < j" "j < 64" "2 * j = i" using True "1.prems"(3,4) by (auto simp: j_def)
    have ch: "Ok p ! (2 * j)" "Ok p ! (2 * j + 1)" using "1.prems"(4,5) j by auto
    then have "Cache p ! i = page_hash keccak (Data p) (2 * j)"
      "Cache p ! (i + 1) = page_hash keccak (Data p) (2 * j + 1)"
      using "1.prems"(2) j unfolding page_cache_ok_def j(3) [symmetric] by auto
    then have f: "fills keccak p q"
      using fills_set [OF "1.prems"(1,2), of j] fills_refl [OF "1.prems"(1,2)] page_hash_rec [of j keccak "Data p"] j
      by (auto simp: q_def)
    have okj: "Ok q ! j" using j "1.prems"(1) by (auto simp: q_def page_wf_lengths)
    have eq: "layer_loop keccak i p = layer_loop keccak (i - 2) q"
      using True by (auto simp: layer_loop.simps [of keccak i p] q_def j_def Let_def)
    have "j' = j \<or> j < j'" if "(i - 2) div 2 < j'" for j' using that j True by (auto simp: j_def)
    then have pre: "\<forall>j'. (i - 2) div 2 < j' \<longrightarrow> j' < 128 \<longrightarrow> Ok q ! j'"
      using "1.prems"(5) okj f by (auto simp: fills_def j_def)
    have "fills keccak q (layer_loop keccak (i - 2) q) \<and>
      (\<forall>j. 0 < j \<longrightarrow> j < 128 \<longrightarrow> Ok (layer_loop keccak (i - 2) q) ! j)"
      using True "1.prems"(3,4) f pre 1(1) [of j] 1(2) [of j]
      by (cases "Ok p ! j") (auto simp: q_def j_def fills_def)
    with f show ?thesis unfolding eq by (blast intro: fills_trans)
  qed
qed

text \<open>Filling the cache of a page leaves every node valid and the data untouched.\<close>

lemma CachedPage_fill_correct:
  assumes "page_wf p" "page_cache_ok keccak p"
  shows "fills keccak p (CachedPage_fill keccak p)"
    and "0 < j \<Longrightarrow> j < 128 \<Longrightarrow> Ok (CachedPage_fill keccak p) ! j"
    and "0 < j \<Longrightarrow> j < 128 \<Longrightarrow> Cache (CachedPage_fill keccak p) ! j = page_hash keccak (Data p) j"
proof -
  note b = bottom_loop_correct [OF assms, of 0, simplified]
  then have "fills keccak (bottom_loop keccak 0 p) (CachedPage_fill keccak p) \<and>
      (\<forall>j. 0 < j \<longrightarrow> j < 128 \<longrightarrow> Ok (CachedPage_fill keccak p) ! j)"
    unfolding CachedPage_fill_def using layer_loop_correct [of "bottom_loop keccak 0 p" keccak 126]
    by (auto simp: fills_def)
  with b show f: "fills keccak p (CachedPage_fill keccak p)"
    and o: "0 < j \<Longrightarrow> j < 128 \<Longrightarrow> Ok (CachedPage_fill keccak p) ! j"
    by (auto intro: fills_trans)
  then show "0 < j \<Longrightarrow> j < 128 \<Longrightarrow> Cache (CachedPage_fill keccak p) ! j = page_hash keccak (Data p) j"
    by (auto simp: fills_def page_cache_ok_def)
qed

lemma CachedPage_MerkleizeSubtree_correct:
  assumes "page_wf p" "page_cache_ok keccak p" "0 < g" "g < 256"
  shows "CachedPage_MerkleizeSubtree keccak p g = Inr (page_hash keccak (Data p) g, CachedPage_fill keccak p)"
proof -
  have d: "Data (CachedPage_fill keccak p) = Data p"
    using CachedPage_fill_correct(1) [OF assms(1,2)] by (simp add: fills_def)
  show ?thesis
  proof (cases "128 \<le> g")
    case True
    then have "g mod 128 = g - 128" using assms(4) by (simp add: le_mod_geq)
    with True assms d page_hash_leaf [of g keccak "Data p"] show ?thesis
      by (simp add: CachedPage_MerkleizeSubtree_def CachedPage_MerkleRoot_def Let_def page_leaf_def)
  next
    case False
    with assms CachedPage_fill_correct(3) [OF assms(1,2), of g] show ?thesis
      by (simp add: CachedPage_MerkleizeSubtree_def CachedPage_MerkleRoot_def Let_def)
  qed
qed

section \<open>Invalidation of a page path\<close>

lemma half_path_iff:
  "(\<exists>n. 0 < j \<and> j = k div 2 ^ n) \<longleftrightarrow> (0 < j \<and> j = k) \<or> (\<exists>n. 0 < j \<and> j = k div 2 div 2 ^ n)"
  for j k :: nat
proof -
  have "k div 2 ^ n = j \<Longrightarrow> j = k \<or> (\<exists>n. j = k div 2 div 2 ^ n)" for n
    by (cases n) (auto simp: div_mult2_eq)
  moreover have "k div 2 div 2 ^ n = k div 2 ^ Suc n" for n by (simp add: div_mult2_eq)
  moreover have "k = k div 2 ^ 0" by simp
  ultimately show ?thesis by metis
qed

lemma nth_invalidate_loop:
  "j < length ok \<Longrightarrow> invalidate_loop k ok ! j = (if \<exists>n. 0 < j \<and> j = k div 2 ^ n then False else ok ! j)"
proof (induction k ok rule: invalidate_loop.induct)
  case (1 k ok)
  show ?case
  proof (cases "0 < k")
    case False
    then show ?thesis by (auto simp: invalidate_loop.simps [of 0])
  next
    case True
    have ex: "(\<exists>n. 0 < j \<and> j = k div 2 ^ n) \<longleftrightarrow> (0 < j \<and> j = k) \<or> (\<exists>n. 0 < j \<and> j = k div 2 div 2 ^ n)"
      by (rule half_path_iff)
    have "invalidate_loop k ok = invalidate_loop (k div 2) (ok[k := False])"
      using True by (simp add: invalidate_loop.simps [of k])
    then have "invalidate_loop k ok ! j =
        (if \<exists>n. 0 < j \<and> j = k div 2 div 2 ^ n then False else ok[k := False] ! j)"
      using "1.IH" [OF True] "1.prems" by simp
    then show ?thesis using ex True "1.prems" by (auto simp: nth_list_update)
  qed
qed

lemma clear_path_eq:
  "clear_path k ns g = (if \<exists>n. 0 < g \<and> g = k div 2 ^ n then Some None else ns g)"
proof (induction k ns rule: clear_path.induct)
  case (1 k ns)
  show ?case
  proof (cases "0 < k")
    case False
    then show ?thesis by (auto simp: clear_path.simps [of 0])
  next
    case True
    have ex: "(\<exists>n. 0 < g \<and> g = k div 2 ^ n) \<longleftrightarrow> (0 < g \<and> g = k) \<or> (\<exists>n. 0 < g \<and> g = k div 2 div 2 ^ n)"
      by (rule half_path_iff)
    have "clear_path k ns g = clear_path (k div 2) (ns(k \<mapsto> None)) g"
      using True by (simp add: clear_path.simps [of k])
    also have "\<dots> = (if \<exists>n. 0 < g \<and> g = k div 2 div 2 ^ n then Some None else (ns(k \<mapsto> None)) g)"
      by (rule "1.IH" [OF True])
    finally show ?thesis using ex True by auto
  qed
qed

section \<open>Pages and generalized indices\<close>

lemma unat_or_pow:
  fixes k :: Word
  assumes "unat k < 2 ^ n" "n < 64"
  shows "unat (push_bit n 1 OR k) = 2 ^ n + unat k"
proof -
  have "push_bit n 1 AND k = 0"
  proof (rule bit_word_eqI)
    fix i assume "i < LENGTH(64)"
    have "k = take_bit n k"
      using assms by (simp add: word_unat_eq_iff take_bit_eq_mod unat_mod unat_exp)
    then have "bit k i \<Longrightarrow> i < n" by (metis bit_take_bit_iff)
    moreover have "\<not> bit (push_bit n 1 :: Word) i" if "i < n"
      unfolding bit_push_bit_iff using that by simp
    ultimately show "bit (push_bit n 1 AND k) i = bit (0::Word) i"
      by (auto simp only: bit_and_iff bit_0_eq)
  qed
  then have "push_bit n 1 OR k = push_bit n 1 + k"
    by (simp add: disjunctive_add_eq_or)
  moreover have p: "unat (2 ^ n :: Word) = 2 ^ n"
    using assms(2) by (simp add: unat_exp)
  moreover have "(2::nat) ^ n + unat k < 2 ^ 64"
  proof -
    have "(2::nat) ^ Suc n \<le> 2 ^ 64" using assms(2) by (intro power_increasing) simp_all
    then show ?thesis using assms(1) by simp
  qed
  then have "unat (2 ^ n + k) = 2 ^ n + unat k"
    using p by (subst unat_add_lem [THEN iffD1]) simp_all
  ultimately show ?thesis by simp
qed

lemma bit_len_div: "bit_len (n div 2 ^ k) = bit_len n - k"
proof (induction k arbitrary: n)
  case (Suc k)
  have "bit_len (n div 2) = bit_len n - 1" by (subst (2) bit_len.simps) simp
  with Suc [of "n div 2"] show ?case by (simp add: div_mult2_eq)
qed simp

lemma bit_len_page_key: "unat k < 2 ^ 52 \<Longrightarrow> bit_len (2 ^ 52 + unat k) = 53"
  using bit_len_unique [of 52 "2 ^ 52 + unat k"] by simp

lemma path_iff_under:
  assumes "unat k < 2 ^ 52"
  shows "(\<exists>n. 0 < g \<and> g = (2 ^ 52 + unat k) div 2 ^ n) \<longleftrightarrow> 0 < g \<and> bit_len g \<le> 53 \<and> under k g"
proof
  assume "\<exists>n. 0 < g \<and> g = (2 ^ 52 + unat k) div 2 ^ n"
  then obtain n where n: "0 < g" "g = (2 ^ 52 + unat k) div 2 ^ n" by blast
  then have "bit_len g = 53 - n" using bit_len_div bit_len_page_key [OF assms] by metis
  moreover from this n(1) have "n < 53" by (metis bit_len_pos zero_less_diff)
  ultimately show "0 < g \<and> bit_len g \<le> 53 \<and> under k g" using n by (simp add: under_def)
next
  assume "0 < g \<and> bit_len g \<le> 53 \<and> under k g"
  then show "\<exists>n. 0 < g \<and> g = (2 ^ 52 + unat k) div 2 ^ n"
    unfolding under_def by (intro exI [of _ "53 - bit_len g"]) simp
qed

lemma AddPage_nodes:
  "unat k < 2 ^ 52 \<Longrightarrow> nodes (AddPage m k) g =
     (if 0 < g \<and> bit_len g \<le> 53 \<and> under k g then Some None else nodes m g)"
  using path_iff_under [of k g] unat_or_pow [of k 52] by (simp add: AddPage_def clear_path_eq)

lemma Invalidate_nodes:
  "nodes (Invalidate m a) g =
     (if 0 < g \<and> bit_len g \<le> 53 \<and> under (drop_bit 12 a) g then Some None else nodes m g)"
  using path_iff_under [of "drop_bit 12 a" g] unat_or_pow [of "drop_bit 12 a" 52] page_index_bound [of a]
  by (simp add: Invalidate_def clear_path_eq)

lemma leaf_under:
  assumes "0 < g" "bit_len g \<le> 53"
    "(g - 2 ^ (bit_len g - 1)) * 2 ^ (60 - bit_len g) \<le> j"
    "j < (g - 2 ^ (bit_len g - 1) + 1) * 2 ^ (60 - bit_len g)"
  shows "j div 128 < 2 ^ 52" "under (of_nat (j div 128)) g"
proof -
  define l where "l = bit_len g"
  define i where "i = g - 2 ^ (l - 1)"
  have l: "0 < l" "l \<le> 53" using assms(1,2) by (auto simp: l_def)
  have g: "g = 2 ^ (l - 1) + i" "i < 2 ^ (l - 1)"
  proof -
    have "(2::nat) ^ l = 2 * 2 ^ (l - 1)" using l(1) by (cases l) simp_all
    then show "g = 2 ^ (l - 1) + i" "i < 2 ^ (l - 1)"
      using bit_len_bounds [OF assms(1)] by (auto simp: i_def simp flip: l_def)
  qed
  have ji: "j div 2 ^ (60 - l) = i"
    using assms(3,4) by (intro div_nat_eqI) (simp_all add: l_def i_def mult.commute)
  have "(2::nat) ^ (60 - l) = 128 * 2 ^ (53 - l)"
  proof -
    have "60 - l = 7 + (53 - l)" using l by simp
    then have "(2::nat) ^ (60 - l) = 2 ^ 7 * 2 ^ (53 - l)" by (metis power_add)
    then show ?thesis by simp
  qed
  then have k: "j div 128 div 2 ^ (53 - l) = i" using ji by (simp add: div_mult2_eq)
  have p: "(2::nat) ^ 52 = 2 ^ (l - 1) * 2 ^ (53 - l)" using l by (simp flip: power_add)
  show b: "j div 128 < 2 ^ 52"
  proof -
    have "j div 128 < (i + 1) * 2 ^ (53 - l)"
      using div_less_iff_less_mult [of "2 ^ (53 - l)" "j div 128" "i + 1"] k by simp
    also have "\<dots> \<le> 2 ^ (l - 1) * 2 ^ (53 - l)" using g(2) by (intro mult_le_mono1) simp
    finally show ?thesis by (simp only: p)
  qed
  have "unat (of_nat (j div 128) :: Word) = j div 128"
    using b by (simp add: unat_of_nat take_bit_eq_mod)
  moreover have "(2 ^ 52 + j div 128) div 2 ^ (53 - l) = g"
    unfolding p using k g(1) by (simp only: div_mult_self3) simp
  ultimately show "under (of_nat (j div 128)) g" by (simp add: under_def l_def)
qed

lemma mem_hash_cong:
  assumes "0 < g" "bit_len g \<le> 53"
    "\<And>k. unat k < 2 ^ 52 \<Longrightarrow> under k g \<Longrightarrow> map_option Data (page_at m k) = map_option Data (page_at m' k)"
  shows "mem_hash keccak m g = mem_hash keccak m' g"
  unfolding mem_hash_def gindex_hash_def
proof (rule tree_hash_cong)
  fix j
  assume j: "(g - 2 ^ (bit_len g - 1)) * 2 ^ (60 - bit_len g) \<le> j"
    "j < (g - 2 ^ (bit_len g - 1) + 1) * 2 ^ (60 - bit_len g)"
  note lu = leaf_under [OF assms(1,2) j]
  have "unat (of_nat (j div 128) :: Word) < 2 ^ 52"
    using lu(1) by (simp add: unat_of_nat take_bit_eq_mod)
  from assms(3) [OF this lu(2)] show "mem_leaf m j = mem_leaf m' j"
    by (auto simp: mem_leaf_def split: option.splits)
qed

lemma mem_hash_zero:
  assumes "0 < g" "bit_len g \<le> 53" "\<And>k. unat k < 2 ^ 52 \<Longrightarrow> under k g \<Longrightarrow> page_at m k = None"
  shows "mem_hash keccak m g = zeroHashes keccak (60 - bit_len g)"
  unfolding mem_hash_def gindex_hash_def
proof (rule tree_hash_zero)
  fix j
  assume j: "(g - 2 ^ (bit_len g - 1)) * 2 ^ (60 - bit_len g) \<le> j"
    "j < (g - 2 ^ (bit_len g - 1) + 1) * 2 ^ (60 - bit_len g)"
  note lu = leaf_under [OF assms(1,2) j]
  have "unat (of_nat (j div 128) :: Word) < 2 ^ 52"
    using lu(1) by (simp add: unat_of_nat take_bit_eq_mod)
  from assms(3) [OF this lu(2)] show "mem_leaf m j = replicate 32 0"
    by (simp add: mem_leaf_def)
qed

lemma mem_hash_rec:
  assumes "0 < g" "bit_len g < 60"
  shows "mem_hash keccak m g = HashPair keccak (mem_hash keccak m (2 * g)) (mem_hash keccak m (2 * g + 1))"
  unfolding mem_hash_def using assms by (rule gindex_hash_rec)

lemma tree_hash_shift:
  "(\<And>x. i * 2 ^ h \<le> x \<Longrightarrow> x < (i + 1) * 2 ^ h \<Longrightarrow> leaf (c * 2 ^ h + x) = leaf' x) \<Longrightarrow>
   tree_hash keccak h leaf (c + i) = tree_hash keccak h leaf' i"
proof (induction h arbitrary: c i)
  case (Suc h)
  have "tree_hash keccak h leaf (2 * c + 2 * i) = tree_hash keccak h leaf' (2 * i)"
    using Suc.prems by (intro Suc.IH) (simp add: algebra_simps)
  moreover have "tree_hash keccak h leaf (2 * c + (2 * i + 1)) = tree_hash keccak h leaf' (2 * i + 1)"
    using Suc.prems by (intro Suc.IH) (simp add: algebra_simps)
  ultimately show ?case by (simp add: algebra_simps)
qed simp

text \<open>Below a page root, the memory hash is the hash inside that page.\<close>

lemma mem_hash_page:
  assumes l: "53 \<le> bit_len g" "bit_len g \<le> 60" and d: "d = bit_len g - 53"
  shows "mem_hash keccak m g =
    (case page_at m (of_nat ((g div 2 ^ d) mod 2 ^ 52)) of
       None \<Rightarrow> zeroHashes keccak (60 - bit_len g)
     | Some p \<Rightarrow> page_hash keccak (Data p) (2 ^ d + g mod 2 ^ d))"
proof -
  define K where "K = (g div 2 ^ d) mod 2 ^ 52"
  define h where "h = 60 - bit_len g"
  have g0: "0 < g" using l by (metis bit_len_0 gr0I not_numeral_le_zero)
  have hd: "h + d = 7" "bit_len g = 53 + d" using l by (auto simp: h_def d)
  have gb: "2 ^ (52 + d) \<le> g" "g < 2 ^ (53 + d)" using bit_len_bounds [OF g0] hd(2) by auto
  have gd: "2 ^ 52 \<le> g div 2 ^ d" "g div 2 ^ d < 2 * 2 ^ 52"
    using gb by (simp_all add: power_add less_eq_div_iff_mult_less_eq div_less_iff_less_mult algebra_simps)
  then have K: "g div 2 ^ d = 2 ^ 52 + K" "K < 2 ^ 52"
    unfolding K_def by (simp_all add: le_mod_geq)
  have gi: "g - 2 ^ (bit_len g - 1) = K * 2 ^ d + g mod 2 ^ d"
  proof -
    have "g = g div 2 ^ d * 2 ^ d + g mod 2 ^ d" by (rule div_mult_mod_eq [symmetric])
    then have "g = 2 ^ 52 * 2 ^ d + K * 2 ^ d + g mod 2 ^ d" by (simp only: K(1) distrib_right)
    moreover have "(2::nat) ^ (bit_len g - 1) = 2 ^ 52 * 2 ^ d" using hd(2) by (simp add: power_add)
    ultimately show ?thesis by linarith
  qed
  have pw: "(2::nat) ^ d * 2 ^ h = 128" using hd(1) by (simp add: add.commute flip: power_add)
  have lt: "g mod 2 ^ d < 2 ^ d" by simp
  have shift: "tree_hash keccak h (mem_leaf m) (K * 2 ^ d + g mod 2 ^ d) = tree_hash keccak h leaf' (g mod 2 ^ d)"
    if leaf': "\<And>x. x < 128 \<Longrightarrow> mem_leaf m (K * 128 + x) = leaf' x" for leaf'
  proof (rule tree_hash_shift)
    fix x assume "g mod 2 ^ d * 2 ^ h \<le> x" "x < (g mod 2 ^ d + 1) * 2 ^ h"
    moreover have "(g mod 2 ^ d + 1) * 2 ^ h \<le> 2 ^ d * 2 ^ h"
      using mult_le_mono1 [OF Suc_leI [OF lt]] by (simp only: Suc_eq_plus1)
    ultimately have "x < 128" using pw by linarith
    then show "mem_leaf m (K * 2 ^ d * 2 ^ h + x) = leaf' x"
      using leaf' pw by (simp add: mult.assoc)
  qed
  have bl: "bit_len (2 ^ d + g mod 2 ^ d) = Suc d" using lt by (intro bit_len_unique) simp_all
  have main: "mem_hash keccak m g = tree_hash keccak h (mem_leaf m) (K * 2 ^ d + g mod 2 ^ d)"
    by (simp only: mem_hash_def gindex_hash_def gi h_def)
  show ?thesis
    unfolding K_def [symmetric] h_def [symmetric] main
  proof (cases "page_at m (of_nat K)")
    case None
    then have "tree_hash keccak h (mem_leaf m) (K * 2 ^ d + g mod 2 ^ d) = tree_hash keccak h (\<lambda>_. replicate 32 0) (g mod 2 ^ d)"
      by (intro shift) (simp add: mem_leaf_def)
    with None show "tree_hash keccak h (mem_leaf m) (K * 2 ^ d + g mod 2 ^ d) =
      (case page_at m (of_nat K) of None \<Rightarrow> zeroHashes keccak h
       | Some p \<Rightarrow> page_hash keccak (Data p) (2 ^ d + g mod 2 ^ d))"
      by (simp add: tree_hash_zero)
  next
    case (Some p)
    then have "tree_hash keccak h (mem_leaf m) (K * 2 ^ d + g mod 2 ^ d) = tree_hash keccak h (page_leaf (Data p)) (g mod 2 ^ d)"
      by (intro shift) (simp add: mem_leaf_def)
    moreover have "8 - Suc d = h" using hd(1) by simp
    ultimately show "tree_hash keccak h (mem_leaf m) (K * 2 ^ d + g mod 2 ^ d) =
      (case page_at m (of_nat K) of None \<Rightarrow> zeroHashes keccak h
       | Some p \<Rightarrow> page_hash keccak (Data p) (2 ^ d + g mod 2 ^ d))"
      using Some by (simp add: page_hash_def gindex_hash_def bl)
  qed
qed

section \<open>Writing a word keeps the cache invariant\<close>

lemma write_path_index:
  assumes "pageAddr < 4096"
  shows "unat (drop_bit 6 (0x1000 OR pageAddr) :: Word) = 64 + unat pageAddr div 64"
proof -
  have "unat pageAddr < 2 ^ 12" using assms by (simp add: word_less_nat_alt)
  then have "unat (0x1000 OR pageAddr) = 4096 + unat pageAddr" using unat_or_pow [of pageAddr 12] by simp
  moreover have "unat (drop_bit 6 (0x1000 OR pageAddr)) = unat (0x1000 OR pageAddr) div 64"
    by (simp only: drop_bit_eq_div unat_div) simp
  ultimately show ?thesis by simp
qed

lemma page_leaf_overwrite:
  assumes "length d = 4096" "a mod 8 = 0" "a + 8 \<le> 4096" "x \<noteq> a div 32" "x < 128"
  shows "page_leaf (overwrite d a (be_bytes 8 (v :: Word))) x = page_leaf d x"
proof -
  have "a mod 32 mod 8 = 0" using mod_mod_cancel [of 8 32 a] assms(2) by simp
  moreover have up: "r mod 8 = 0 \<Longrightarrow> r < 32 \<Longrightarrow> r + 8 \<le> 32" for r :: nat by presburger
  ultimately have "a mod 32 + 8 \<le> 32" by simp
  moreover have "a = a div 32 * 32 + a mod 32" by simp
  ultimately have "x * 32 + 32 \<le> a \<or> a + 8 \<le> x * 32"
    using assms(4) by (cases "x < a div 32") linarith+
  then show ?thesis
    unfolding page_leaf_def using assms by (intro go_slice_overwrite_disjoint) auto
qed

lemma page_hash_overwrite:
  assumes "length d = 4096" "a mod 8 = 0" "a + 8 \<le> 4096" "0 < j" "j < 128"
    and off: "\<forall>n. j \<noteq> (64 + a div 64) div 2 ^ n"
  shows "page_hash keccak (overwrite d a (be_bytes 8 (v :: Word))) j = page_hash keccak d j"
  unfolding page_hash_def gindex_hash_def
proof (rule tree_hash_cong)
  fix x
  define l where "l = bit_len j"
  assume x: "(j - 2 ^ (bit_len j - 1)) * 2 ^ (8 - bit_len j) \<le> x"
    "x < (j - 2 ^ (bit_len j - 1) + 1) * 2 ^ (8 - bit_len j)"
  have l: "0 < l" "l \<le> 7" using assms(4,5) bit_len_lt_pow [of j 7] by (auto simp: l_def)
  have xd: "x div 2 ^ (8 - l) = j - 2 ^ (l - 1)"
    using x by (intro div_nat_eqI) (simp_all add: l_def mult.commute)
  have jl: "2 ^ (l - 1) \<le> j" using bit_len_bounds [OF assms(4)] by (simp add: l_def)
  have p: "(2::nat) ^ (l - 1) * 2 ^ (8 - l) = 128"
  proof -
    have "l - 1 + (8 - l) = 7" using l by simp
    then have "(2::nat) ^ (l - 1 + (8 - l)) = 2 ^ 7" by (simp only:)
    then show ?thesis by (simp add: power_add)
  qed
  have "(2 ^ (l - 1) * 2 ^ (8 - l) + x) div 2 ^ (8 - l) = j"
    using xd jl by (subst div_mult_self3) simp_all
  then have jx: "(128 + x) div 2 ^ (8 - l) = j" unfolding p .
  have xb: "x < 128"
  proof -
    have "j < 2 * 2 ^ (l - 1)"
      using bit_len_bounds [OF assms(4)] l(1) by (cases l) (simp_all flip: l_def)
    then have "x div 2 ^ (8 - l) < 2 ^ (l - 1)" using xd jl by linarith
    then have "x < 2 ^ (l - 1) * 2 ^ (8 - l)" by (simp add: div_less_iff_less_mult)
    then show ?thesis using p by simp
  qed
  have "x \<noteq> a div 32"
  proof
    assume "x = a div 32"
    then have "j = (128 + a div 32) div 2 ^ (8 - l)" using jx by simp
    also have "(2::nat) ^ (8 - l) = 2 * 2 ^ (7 - l)" using l(2) by (simp add: Suc_diff_le flip: power_Suc)
    also have "(128 + a div 32) div (2 * 2 ^ (7 - l)) = (128 + a div 32) div 2 div 2 ^ (7 - l)"
      by (simp add: div_mult2_eq)
    also have "(128 + a div 32) div 2 = 64 + a div 64"
      by (simp add: div_mult2_eq [of a 32 2, simplified])
    finally show False using off by blast
  qed
  with assms xb show "page_leaf (overwrite d a (be_bytes 8 v)) x = page_leaf d x"
    by (intro page_leaf_overwrite) auto
qed

lemma page_cache_ok_write:
  assumes "page_wf p" "page_cache_ok keccak p" "a AND ExtMask = 0"
  shows "page_cache_ok keccak (p
      \<lparr>Ok := invalidate_loop (unat (drop_bit 6 (0x1000 OR (a AND PageAddrMask)))) (Ok p),
       Data := overwrite (Data p) (unat (a AND PageAddrMask)) (be_bytes 8 (v :: Word))\<rparr>)"
proof -
  define i where "i = unat (a AND PageAddrMask)"
  note al = aligned_page_addr [OF assms(3), folded i_def]
  have ix: "unat (drop_bit 6 (0x1000 OR (a AND PageAddrMask))) = 64 + i div 64"
    unfolding i_def by (rule write_path_index) simp
  show ?thesis
    unfolding page_cache_ok_def ix i_def [symmetric]
  proof (intro allI impI)
    fix j
    assume j: "0 < j" "j < 128" "Ok (p\<lparr>Ok := invalidate_loop (64 + i div 64) (Ok p),
        Data := overwrite (Data p) i (be_bytes 8 v)\<rparr>) ! j"
    then have "Ok p ! j" "\<forall>n. j \<noteq> (64 + i div 64) div 2 ^ n"
      using assms(1) by (auto simp: nth_invalidate_loop page_wf_lengths split: if_splits)
    with assms(2) j(1,2) page_hash_overwrite [OF page_wf_lengths(1) [OF assms(1)] al j(1,2)]
    show "Cache (p\<lparr>Ok := invalidate_loop (64 + i div 64) (Ok p),
        Data := overwrite (Data p) i (be_bytes 8 v)\<rparr>) ! j
      = page_hash keccak (Data (p\<lparr>Ok := invalidate_loop (64 + i div 64) (Ok p),
        Data := overwrite (Data p) i (be_bytes 8 v)\<rparr>)) j"
      by (simp add: page_cache_ok_def)
  qed
qed

lemma page_cache_ok_newPage [simp]: "page_cache_ok keccak (newPage\<lparr>Data := d\<rparr>)"
  by (simp add: page_cache_ok_def newPage_def)

lemma merkle_wf_mem: "merkle_wf keccak m \<Longrightarrow> mem_wf m"
  by (simp add: merkle_wf_def)

lemma merkle_wf_NewMemory [simp, wf_intros]: "merkle_wf keccak NewMemory"
  by (simp add: merkle_wf_def nodes_ok_def pages_indexed_def page_at_def)
    (simp add: NewMemory_def)

lemma same_pages_merkle_wf:
  assumes "same_pages m m'" "mem_wf m'" "merkle_wf keccak m"
  shows "merkle_wf keccak m'"
proof -
  have eq: "nodes m' = nodes m" "page_at m' = page_at m"
    using assms(1) by (auto simp: same_pages_def page_at_def intro!: ext)
  then have "mem_hash keccak m' = mem_hash keccak m"
    by (intro ext) (simp add: mem_hash_def gindex_hash_def mem_leaf_def [abs_def])
  with eq assms(2,3) show ?thesis
    by (simp add: merkle_wf_def nodes_ok_def pages_indexed_def)
qed

lemma SetWord_merkle_step:
  assumes wf: "merkle_wf keccak m" "mem_wf m'"
    and pages: "\<And>k. page_at m' k = (if k = key then Some p' else page_at m k)"
    and key: "unat key < 2 ^ 52" and p': "page_cache_ok keccak p'"
    and cleared: "\<And>g. 0 < g \<Longrightarrow> bit_len g \<le> 52 \<Longrightarrow> under key g \<Longrightarrow> nodes m' g = Some None"
    and others: "\<And>g. 0 < g \<Longrightarrow> bit_len g \<le> 52 \<Longrightarrow> \<not> under key g \<Longrightarrow> nodes m' g = nodes m g"
  shows "merkle_wf keccak m'"
proof -
  have hash: "mem_hash keccak m' g = mem_hash keccak m g" if "0 < g" "bit_len g \<le> 52" "\<not> under key g" for g
    using that pages by (intro mem_hash_cong) auto
  have "nodes_ok keccak m'"
    unfolding nodes_ok_def
  proof (intro allI impI)
    fix g h
    assume g: "0 < g" "bit_len g \<le> 52" "nodes m' g = Some (Some h)"
    then have nu: "\<not> under key g" using cleared by fastforce
    then have "nodes m g = Some (Some h)" using g others by simp
    then show "h = mem_hash keccak m' g \<and>
        (\<forall>k p. unat k < 2 ^ 52 \<longrightarrow> under k g \<longrightarrow> page_at m' k = Some p \<longrightarrow> Ok p ! 1)"
      using wf(1) g nu hash [OF g(1,2) nu] pages unfolding merkle_wf_def nodes_ok_def by auto
  qed
  moreover have "pages_indexed m'"
    unfolding pages_indexed_def
  proof (intro allI impI)
    fix k g
    assume kg: "page_at m' k \<noteq> None" "0 < g" "bit_len g \<le> 52" "under k g"
    show "nodes m' g \<noteq> None"
    proof (cases "under key g")
      case True
      with kg cleared show ?thesis by simp
    next
      case False
      with kg pages have "page_at m k \<noteq> None" by (auto split: if_splits)
      with kg wf(1) have "nodes m g \<noteq> None" unfolding merkle_wf_def pages_indexed_def by blast
      with False kg others show ?thesis by simp
    qed
  qed
  ultimately show ?thesis
    using wf pages p' by (auto simp: merkle_wf_def)
qed

lemma SetWord_merkle_wf:
  assumes "merkle_wf keccak m" "SetWord m a v = Inr m'"
  shows "merkle_wf keccak m'"
proof -
  have al: "a AND ExtMask = 0" using assms(2) vmem.unaligned_set [of a m v] by (metis Inl_Inr_False)
  obtain m1 where m1: "mem_wf m1" "same_pages m m1"
    and eq: "SetWord m a v = Inr (case map_of (pageTable m) (drop_bit 12 a) of
        None \<Rightarrow> SetWord_fresh m1 a v | Some r \<Rightarrow> SetWord_existing m1 a v r)"
    using SetWord_cases [OF merkle_wf_mem [OF assms(1)] al] by metis
  have wf1: "merkle_wf keccak m1" using same_pages_merkle_wf [OF m1(2,1) assms(1)] .
  have pt: "pageTable m = pageTable m1" using m1(2) by (simp add: same_pages_def)
  note kb = page_index_bound [of a]
  show ?thesis
  proof (cases "map_of (pageTable m1) (drop_bit 12 a)")
    case None
    then have m': "m' = SetWord_fresh m1 a v" using eq assms(2) pt by simp
    show ?thesis
      unfolding m'
      by (rule SetWord_merkle_step [OF wf1 SetWord_fresh_wf [OF m1(1) al None] SetWord_fresh_page_at [OF m1(1)] kb])
        (use AddPage_nodes [OF kb, of m1] in \<open>simp_all add: SetWord_fresh_def\<close>)
  next
    case (Some r)
    define pg where "pg = pageHeap m1 r"
    have m': "m' = SetWord_existing m1 a v r" using eq assms(2) pt Some by simp
    have pa: "page_at m1 (drop_bit 12 a) = Some pg" using Some by (simp add: page_at_def pg_def)
    have pok: "page_cache_ok keccak pg" using wf1 pa by (simp add: merkle_wf_def)
    have nodes': "nodes m' = (if Ok pg ! 1 then nodes (Invalidate m1 a) else nodes m1)"
      by (simp add: m' SetWord_existing_def Let_def pg_def)
    have stale: "nodes m1 g = Some None" if g: "0 < g" "bit_len g \<le> 52" "under (drop_bit 12 a) g" "\<not> Ok pg ! 1" for g
    proof -
      have "nodes m1 g \<noteq> None"
        using wf1 pa g unfolding merkle_wf_def pages_indexed_def by (metis option.distinct(1))
      moreover have "nodes m1 g \<noteq> Some (Some h)" for h
        using wf1 pa g kb unfolding merkle_wf_def nodes_ok_def by blast
      ultimately show ?thesis by (metis option.exhaust)
    qed
    show ?thesis
    proof (rule SetWord_merkle_step [OF wf1 _ _ kb])
      show "mem_wf m'" unfolding m' by (rule SetWord_existing_wf [OF m1(1) al])
      show "page_at m' k = (if k = drop_bit 12 a then Some (pg
          \<lparr>Ok := invalidate_loop (unat (drop_bit 6 (0x1000 OR (a AND PageAddrMask)))) (Ok pg),
           Data := overwrite (Data pg) (unat (a AND PageAddrMask)) (be_bytes 8 v)\<rparr>) else page_at m1 k)" for k
        unfolding m' pg_def by (rule SetWord_existing_page_at [OF m1(1) Some])
      show "page_cache_ok keccak (pg
          \<lparr>Ok := invalidate_loop (unat (drop_bit 6 (0x1000 OR (a AND PageAddrMask)))) (Ok pg),
           Data := overwrite (Data pg) (unat (a AND PageAddrMask)) (be_bytes 8 v)\<rparr>)"
        using page_cache_ok_write [OF _ pok al] mem_wf_page [OF m1(1)] by (simp add: pg_def)
    qed (auto simp: nodes' Invalidate_nodes stale)
  qed
qed

lemma GetWord_merkle_wf:
  assumes "merkle_wf keccak m" "GetWord m a = Inr (w, m')"
  shows "merkle_wf keccak m'"
proof -
  have al: "a AND ExtMask = 0" using assms(2) vmem.unaligned_get [of a m] by (metis Inl_Inr_False)
  from GetWord_correct [OF merkle_wf_mem [OF assms(1)] al] assms(2)
  have "mem_wf m'" "same_pages m m'" by (metis Inr_inject snd_conv)+
  then show ?thesis using assms(1) same_pages_merkle_wf by blast
qed

section \<open>The index computes the reference hash\<close>

lemma same_data_refl [simp]: "same_data m m"
  by (simp add: same_data_def)

lemma same_data_trans: "same_data m m' \<Longrightarrow> same_data m' m'' \<Longrightarrow> same_data m m''"
  by (simp add: same_data_def)

lemma same_data_page_data: "same_data m m' \<Longrightarrow> map_option Data (page_at m' k) = map_option Data (page_at m k)"
  by (cases "map_of (pageTable m) k") (simp_all add: same_data_def page_at_def)

lemma same_data_mem_leaf: "same_data m m' \<Longrightarrow> mem_leaf m' = mem_leaf m"
proof (rule ext)
  fix i
  assume "same_data m m'"
  from same_data_page_data [OF this, of "of_nat (i div 128)"]
  show "mem_leaf m' i = mem_leaf m i"
    by (auto simp: mem_leaf_def split: option.splits)
qed

lemma same_data_mem_hash: "same_data m m' \<Longrightarrow> mem_hash keccak m' g = mem_hash keccak m g"
  by (simp add: mem_hash_def same_data_mem_leaf)

lemma same_data_word_at: "same_data m m' \<Longrightarrow> word_at m' = word_at m"
proof (rule ext)
  fix a
  assume "same_data m m'"
  from same_data_page_data [OF this, of "drop_bit 12 a"]
  show "word_at m' a = word_at m a"
    by (auto simp: word_at_def page_word_def split: option.splits)
qed

text \<open>All pages below \<open>g\<close> have a valid root in their cache.\<close>

definition roots_valid :: "Memory \<Rightarrow> nat \<Rightarrow> bool" where
  "roots_valid m g \<longleftrightarrow> (\<forall>k p. unat k < 2 ^ 52 \<longrightarrow> under k g \<longrightarrow> page_at m k = Some p \<longrightarrow> Ok p ! 1)"

lemma roots_valid_mono:
  assumes "same_data m m'" "roots_valid m g"
  shows "roots_valid m' g"
  unfolding roots_valid_def
proof (intro allI impI)
  fix k p
  assume "unat k < 2 ^ 52" "under k g" "page_at m' k = Some p"
  with assms show "Ok p ! 1"
    by (auto simp: roots_valid_def same_data_def page_at_def)
qed

lemma under_children:
  assumes "0 < g" "bit_len g \<le> 52" "under k g"
  shows "under k (2 * g) \<or> under k (2 * g + 1)"
proof -
  define K where "K = 2 ^ 52 + unat k"
  define e where "e = 52 - bit_len g"
  have e: "53 - bit_len g = Suc e" "53 - Suc (bit_len g) = e" using assms(2) by (auto simp: e_def)
  have "g = K div 2 ^ e div 2"
    using assms(3) unfolding under_def e(1) K_def by (simp only: power_Suc2 div_mult2_eq)
  then have "K div 2 ^ e = 2 * g \<or> K div 2 ^ e = 2 * g + 1" by arith
  then show ?thesis
    using assms(1) e(2) by (auto simp: under_def K_def bit_len_double bit_len_double_Suc)
qed

lemma roots_valid_parent:
  "0 < g \<Longrightarrow> bit_len g \<le> 52 \<Longrightarrow> roots_valid m (2 * g) \<Longrightarrow> roots_valid m (2 * g + 1) \<Longrightarrow> roots_valid m g"
  using under_children unfolding roots_valid_def by blast

lemma set_page_fill:
  assumes "merkle_wf keccak m" "map_of (pageTable m) k = Some r"
  shows "merkle_wf keccak (m\<lparr>pageHeap := (pageHeap m)(r := CachedPage_fill keccak (pageHeap m r))\<rparr>)"
    "same_data m (m\<lparr>pageHeap := (pageHeap m)(r := CachedPage_fill keccak (pageHeap m r))\<rparr>)"
proof -
  define m' where "m' = m\<lparr>pageHeap := (pageHeap m)(r := CachedPage_fill keccak (pageHeap m r))\<rparr>"
  have wf: "mem_wf m" using assms(1) by (rule merkle_wf_mem)
  have "page_cache_ok keccak (pageHeap m r)"
    using assms by (auto simp: merkle_wf_def page_at_def)
  then have f: "fills keccak (pageHeap m r) (CachedPage_fill keccak (pageHeap m r))"
    using CachedPage_fill_correct(1) mem_wf_page [OF wf] by blast
  then show sd: "same_data m (m\<lparr>pageHeap := (pageHeap m)(r := CachedPage_fill keccak (pageHeap m r))\<rparr>)"
    by (auto simp: same_data_def fills_def)
  have "mem_wf m'" unfolding m'_def using f by (intro mem_wf_set_page [OF wf]) (simp add: fills_def)
  moreover have pc: "page_cache_ok keccak p" if "page_at m' k = Some p" for k p
    using that f assms(1) by (auto simp: merkle_wf_def page_at_def m'_def fills_def split: if_splits)
  moreover have "nodes_ok keccak m'"
  proof -
    have "roots_valid m g \<Longrightarrow> roots_valid m' g" for g
      using roots_valid_mono sd m'_def by blast
    moreover have "nodes m' = nodes m" by (simp add: m'_def)
    ultimately show ?thesis
      using assms(1) same_data_mem_hash [OF sd]
      unfolding merkle_wf_def nodes_ok_def roots_valid_def [symmetric] m'_def [symmetric] by simp
  qed
  moreover have "pages_indexed m'"
    using assms(1) by (auto simp: merkle_wf_def pages_indexed_def m'_def page_at_def)
  ultimately show "merkle_wf keccak (m\<lparr>pageHeap := (pageHeap m)(r := CachedPage_fill keccak (pageHeap m r))\<rparr>)"
    unfolding m'_def [symmetric] by (auto simp: merkle_wf_def)
qed

lemma set_node:
  assumes "merkle_wf keccak m" "0 < g" "bit_len g \<le> 52" "h = mem_hash keccak m g" "roots_valid m g"
  shows "merkle_wf keccak (m\<lparr>nodes := (nodes m)(g \<mapsto> Some h)\<rparr>)"
proof -
  define m' where "m' = m\<lparr>nodes := (nodes m)(g \<mapsto> Some h)\<rparr>"
  have pa: "page_at m' = page_at m" by (simp add: m'_def page_at_def fun_eq_iff)
  have "mem_leaf m' = mem_leaf m" by (intro ext) (simp add: mem_leaf_def pa)
  then have mh: "mem_hash keccak m' = mem_hash keccak m" by (intro ext) (simp add: mem_hash_def)
  have "nodes_ok keccak m'"
    using assms unfolding merkle_wf_def nodes_ok_def roots_valid_def mh pa by (auto simp: m'_def)
  moreover have "mem_wf m'" using assms(1) by (simp add: m'_def mem_wf_nodes merkle_wf_def)
  moreover have "pages_indexed m'"
    using assms(1) unfolding merkle_wf_def pages_indexed_def pa by (auto simp: m'_def)
  ultimately show ?thesis
    using assms(1) pa unfolding m'_def [symmetric] by (simp add: merkle_wf_def)
qed

lemma page_root_key:
  assumes "bit_len g = 53" "unat k < 2 ^ 52" "under k g"
  shows "k = of_nat (g mod 2 ^ 52)"
proof -
  have "g = 2 ^ 52 + unat k" using assms(1,3) by (simp add: under_def)
  then have "g mod 2 ^ 52 = unat k" using assms(2) by simp
  then show ?thesis by simp
qed

text \<open>With the invariant, \<^verbatim>\<open>MerkleizeSubtree\<close> never panics for an index of the tree,
  returns the reference hash, changes no data and keeps the invariant.\<close>

lemma MerkleizeSubtree_correct:
  "merkle_wf keccak m \<Longrightarrow> 0 < g \<Longrightarrow> bit_len g \<le> 60 \<Longrightarrow>
   \<exists>m'. MerkleizeSubtree keccak m g = Inr (mem_hash keccak m g, m') \<and> merkle_wf keccak m' \<and>
        same_data m m' \<and> (bit_len g \<le> 53 \<longrightarrow> roots_valid m' g)"
proof (induction keccak m g rule: MerkleizeSubtree.induct)
  case (1 keccak m g)
  note eq = MerkleizeSubtree.simps [of keccak m g, unfolded Let_def arch_consts]
  show ?case
  proof (cases "52 < bit_len g")
    case True
    define d where "d = bit_len g - 53"
    define key :: Word where "key = of_nat ((g div 2 ^ d) mod 2 ^ 52)"
    have hp: "mem_hash keccak m g = (case page_at m key of
       None \<Rightarrow> zeroHashes keccak (60 - bit_len g)
     | Some p \<Rightarrow> page_hash keccak (Data p) (2 ^ d + g mod 2 ^ d))"
      unfolding key_def using True "1.prems" by (intro mem_hash_page) (simp_all add: d_def)
    have keyd: "k = key" if "unat k < 2 ^ 52" "under k g" "bit_len g \<le> 53" for k
      using page_root_key [OF _ that(1,2)] that(3) True by (simp add: key_def d_def)
    have dd: "d = bit_len g - 1 - 52" by (simp add: d_def)
    have eqp: "MerkleizeSubtree keccak m g = (case map_of (pageTable m) key of
        Some r \<Rightarrow> rbind (CachedPage_MerkleizeSubtree keccak (pageHeap m r) (2 ^ d + g mod 2 ^ d))
                    (\<lambda>(h, pg). Inr (h, m\<lparr>pageHeap := (pageHeap m)(r := pg)\<rparr>))
      | None \<Rightarrow> Inr (zeroHashes keccak (60 - bit_len g), m))"
      unfolding key_def dd using True "1.prems"(3) by (simp only: eq not_less if_True if_False) simp
    show ?thesis
    proof (cases "map_of (pageTable m) key")
      case None
      then have "page_at m key = None" by (simp add: page_at_def)
      moreover from this have "bit_len g \<le> 53 \<longrightarrow> roots_valid m g"
        using keyd unfolding roots_valid_def by (metis option.distinct(1))
      ultimately show ?thesis
        using None "1.prems"(1) hp by (simp add: eqp)
    next
      case (Some r)
      define pg where "pg = pageHeap m r"
      define m' where "m' = m\<lparr>pageHeap := (pageHeap m)(r := CachedPage_fill keccak (pageHeap m r))\<rparr>"
      have pa: "page_at m key = Some pg" using Some by (simp add: page_at_def pg_def)
      have pw: "page_wf pg" "page_cache_ok keccak pg"
        using "1.prems"(1) pa mem_wf_page merkle_wf_mem by (auto simp: merkle_wf_def pg_def)
      have lt: "2 ^ d + g mod 2 ^ d < 256"
      proof -
        have "g mod 2 ^ d < 2 ^ d" by simp
        moreover have "(2::nat) ^ d \<le> 2 ^ 7" using "1.prems"(3) by (intro power_increasing) (auto simp: d_def)
        then have "(2::nat) ^ d \<le> 128" by simp
        ultimately show ?thesis by linarith
      qed
      have "CachedPage_MerkleizeSubtree keccak pg (2 ^ d + g mod 2 ^ d)
          = Inr (page_hash keccak (Data pg) (2 ^ d + g mod 2 ^ d), CachedPage_fill keccak pg)"
        using CachedPage_MerkleizeSubtree_correct [OF pw _ lt] by simp
      then have "MerkleizeSubtree keccak m g = Inr (mem_hash keccak m g, m')"
        using Some hp pa by (simp add: eqp m'_def pg_def)
      moreover have "roots_valid m' g" if "bit_len g \<le> 53"
        using keyd [OF _ _ that] Some CachedPage_fill_correct(2) [OF pw, of 1]
        by (auto simp: roots_valid_def m'_def page_at_def pg_def)
      ultimately show ?thesis
        using set_page_fill [OF "1.prems"(1) Some] by (auto simp: m'_def)
    qed
  next
    case False
    consider "nodes m g = None" | n where "nodes m g = Some (Some n)" | "nodes m g = Some None"
      by (metis option.exhaust)
    then show ?thesis
    proof cases
      case 1
      then have none: "page_at m k = None" if "under k g" for k
        using "1.prems"(1,2) that False unfolding merkle_wf_def pages_indexed_def by (metis not_less)
      then have "mem_hash keccak m g = zeroHashes keccak (60 - bit_len g)"
        using "1.prems" False by (intro mem_hash_zero) auto
      moreover have "roots_valid m g" using none by (auto simp: roots_valid_def)
      ultimately show ?thesis using 1 False "1.prems" by (simp add: eq)
    next
      case 2
      then have "n = mem_hash keccak m g" "roots_valid m g"
        using "1.prems" False unfolding merkle_wf_def nodes_ok_def roots_valid_def by (metis not_less)+
      with 2 False "1.prems" show ?thesis by (simp add: eq)
    next
      case 3
      have l: "\<not> 60 < bit_len g" "\<not> 52 < bit_len g" using False by auto
      have b2: "0 < 2 * g" "bit_len (2 * g) \<le> 53" "bit_len (2 * g + 1) \<le> 53"
        using "1.prems"(2) l by (auto simp: bit_len_double bit_len_double_Suc)
      obtain m1 where m1: "MerkleizeSubtree keccak m (2 * g) = Inr (mem_hash keccak m (2 * g), m1)"
        "merkle_wf keccak m1" "same_data m m1" "roots_valid m1 (2 * g)"
        using "1.IH"(1) [OF refl _ _ 3 refl] l "1.prems" b2 by auto
      obtain m2 where m2: "MerkleizeSubtree keccak m1 (2 * g + 1) = Inr (mem_hash keccak m1 (2 * g + 1), m2)"
        "merkle_wf keccak m2" "same_data m1 m2" "roots_valid m2 (2 * g + 1)"
        using "1.IH"(2) [OF refl _ _ 3 refl _ m1(1) refl] l "1.prems" b2 m1(2) by auto
      define r where "r = HashPair keccak (mem_hash keccak m (2 * g)) (mem_hash keccak m (2 * g + 1))"
      have sd: "same_data m m2" using same_data_trans [OF m1(3) m2(3)] .
      have r: "r = mem_hash keccak m g"
        using mem_hash_rec [OF "1.prems"(2), of keccak m] l by (simp add: r_def)
      have rv: "roots_valid m2 g"
        using roots_valid_parent [of g m2] roots_valid_mono [OF m2(3) m1(4)] m2(4) "1.prems"(2) l by simp
      have "MerkleizeSubtree keccak m g = Inr (r, m2\<lparr>nodes := (nodes m2)(g \<mapsto> Some r)\<rparr>)"
        using 3 l "1.prems"(2) m1(1) m2(1) same_data_mem_hash [OF m1(3)]
        by (simp add: eq r_def)
      moreover have "merkle_wf keccak (m2\<lparr>nodes := (nodes m2)(g \<mapsto> Some r)\<rparr>)"
        using set_node [OF m2(2) "1.prems"(2) _ _ rv, of r] l r same_data_mem_hash [OF sd] by simp
      moreover have "same_data m (m2\<lparr>nodes := (nodes m2)(g \<mapsto> Some r)\<rparr>)"
        using sd by (simp add: same_data_def)
      moreover have "roots_valid (m2\<lparr>nodes := (nodes m2)(g \<mapsto> Some r)\<rparr>) g"
        using rv by (simp add: roots_valid_def page_at_def)
      ultimately show ?thesis using r by blast
    qed
  qed
qed

section \<open>Merkle proofs verify\<close>

lemma fold_proof_snoc:
  "fold_proof keccak a b node (ss @ [s]) =
     (let n = fold_proof keccak a b node ss
      in if bit a (b + length ss) then HashPair keccak s n else HashPair keccak n s)"
  by (induction ss arbitrary: b node) (simp_all add: Let_def)

text \<open>The generalized index of the node at a depth on the path to an address.\<close>

definition path_node :: "Word \<Rightarrow> nat \<Rightarrow> nat" where
  "path_node a depth = (2 ^ 64 + unat a) div 2 ^ (64 - depth)"

lemma path_node_0: "path_node a 0 = 1"
proof -
  have "unat a < 2 ^ 64" using unsigned_less [of a, where ?'a = nat] by simp
  then show ?thesis by (simp add: path_node_def div_nat_eqI)
qed

lemma bit_len_path_node: "depth \<le> 64 \<Longrightarrow> bit_len (path_node a depth) = Suc depth"
proof -
  assume "depth \<le> 64"
  moreover have "bit_len (2 ^ 64 + unat a) = 65"
    using unsigned_less [of a] by (intro bit_len_unique [of 64, simplified]) simp_all
  ultimately show ?thesis unfolding path_node_def by (simp only: bit_len_div)
qed

lemma path_node_Suc:
  assumes "depth < 64"
  shows "path_node a (Suc depth) = (if bit a (63 - depth) then 2 * path_node a depth + 1 else 2 * path_node a depth)"
proof -
  define n where "n = 63 - depth"
  define x where "x = (2 ^ 64 + unat a) div 2 ^ n"
  have e: "64 - depth = Suc n" "64 - Suc depth = n" "n < 64" using assms by (auto simp: n_def)
  have half: "path_node a depth = x div 2"
    unfolding path_node_def e(1) x_def by (simp only: power_Suc2 div_mult2_eq)
  have "(2::nat) ^ 64 = 2 ^ (64 - n) * 2 ^ n" using e(3) by (simp flip: power_add)
  then have "x = 2 ^ (64 - n) + unat a div 2 ^ n" unfolding x_def
    by (simp only: div_mult_self3 power_not_zero [of "2::nat"] zero_neq_numeral [symmetric] not_False_eq_True)
  moreover have "even ((2::nat) ^ (64 - n))" using e(3) by simp
  ultimately have "odd x \<longleftrightarrow> bit (unat a) n" by (simp add: bit_iff_odd)
  also have "bit (unat a) n \<longleftrightarrow> bit a n" by (simp add: bit_unsigned_iff)
  finally have "odd x \<longleftrightarrow> bit a n" .
  moreover have "path_node a (Suc depth) = x" unfolding path_node_def e(2) x_def by (rule refl)
  ultimately show ?thesis unfolding half by (auto simp flip: n_def)
qed

lemma traverseBranch_correct:
  "merkle_wf keccak m \<Longrightarrow> parent = path_node a depth \<Longrightarrow> depth \<le> 59 \<Longrightarrow>
   \<exists>ss m'. traverseBranch keccak m parent a depth = Inr (mem_leaf m (unat a div 32) # ss, m') \<and>
     length ss = 59 - depth \<and> merkle_wf keccak m' \<and> same_data m m' \<and>
     fold_proof keccak a 5 (mem_leaf m (unat a div 32)) ss = mem_hash keccak m parent"
proof (induction keccak m parent a depth rule: traverseBranch.induct)
  case (1 keccak m parent a depth)
  note eq = traverseBranch.simps [of keccak m parent a depth, unfolded Let_def arch_consts]
  have bl: "bit_len parent = Suc depth" "0 < parent"
    using bit_len_path_node [of depth a] "1.prems"(2,3) by (auto intro: gr0I)
  show ?case
  proof (cases "depth = 59")
    case True
    obtain m' where m': "MerkleizeSubtree keccak m parent = Inr (mem_hash keccak m parent, m')"
      "merkle_wf keccak m'" "same_data m m'"
      using MerkleizeSubtree_correct [OF "1.prems"(1) bl(2)] bl(1) True by auto
    have "parent = 2 ^ 59 + unat a div 32"
      using "1.prems"(2) True by (simp add: path_node_def)
    then have "mem_hash keccak m parent = mem_leaf m (unat a div 32)"
      using gindex_hash_leaf [of parent 60 keccak "mem_leaf m"] bl True by (simp add: mem_hash_def)
    then have "traverseBranch keccak m parent a depth = Inr ([mem_leaf m (unat a div 32)], m')"
      using m'(1) True unfolding eq by simp
    then show ?thesis using m'(2,3) True \<open>mem_hash keccak m parent = _\<close> by simp
  next
    case False
    define self where "self = path_node a (Suc depth)"
    define sib where "sib = (if bit a (63 - depth) then 2 * parent else 2 * parent + 1)"
    have self: "self = (if bit a (63 - depth) then 2 * parent + 1 else 2 * parent)"
      unfolding self_def "1.prems"(2) using "1.prems"(3) by (intro path_node_Suc) simp
    have pair: "(self, sib) = (if bit a (63 - depth) then (2 * parent + 1, 2 * parent) else (2 * parent, 2 * parent + 1))"
      by (simp add: self sib_def)
    have eqs: "traverseBranch keccak m parent a depth =
        rbind (traverseBranch keccak m self a (depth + 1)) (\<lambda>(proof, m).
        rbind (MerkleizeSubtree keccak m sib) (\<lambda>(siblingNode, m). Inr (proof @ [siblingNode], m)))"
      using False "1.prems"(3) by (simp add: eq self sib_def)
    obtain ss m1 where ss: "traverseBranch keccak m self a (depth + 1) = Inr (mem_leaf m (unat a div 32) # ss, m1)"
      "length ss = 59 - Suc depth" "merkle_wf keccak m1" "same_data m m1"
      "fold_proof keccak a 5 (mem_leaf m (unat a div 32)) ss = mem_hash keccak m self"
      using "1.IH" [of "2 * parent" "2 * parent + 1" "(self, sib)" self sib] pair False "1.prems"(1,3)
      by (auto simp: self_def)
    have sb: "0 < sib" "bit_len sib \<le> 60"
      using bl "1.prems"(3) False by (auto simp: sib_def bit_len_double bit_len_double_Suc)
    obtain m2 where m2: "MerkleizeSubtree keccak m1 sib = Inr (mem_hash keccak m1 sib, m2)"
      "merkle_wf keccak m2" "same_data m1 m2"
      using MerkleizeSubtree_correct [OF ss(3) sb] by auto
    have "5 + length ss = 63 - depth" using ss(2) "1.prems"(3) False by simp
    then have "fold_proof keccak a 5 (mem_leaf m (unat a div 32)) (ss @ [mem_hash keccak m sib]) = mem_hash keccak m parent"
      using mem_hash_rec [of parent keccak m] bl "1.prems"(3) False self
      by (auto simp: fold_proof_snoc ss(5) sib_def)
    then show ?thesis
      using ss m2 same_data_mem_hash [OF ss(4)] same_data_trans [OF ss(4) m2(3)] "1.prems"(3) False
      by (simp add: eqs)
  qed
qed

lemma word_in_leaf:
  assumes "mem_wf m" "a AND ExtMask = 0"
  shows "be_word (go_slice (mem_leaf m (unat a div 32)) (unat a mod 32) (unat a mod 32 + 8)) = word_at m a"
proof -
  define i where "i = unat a div 32"
  define r where "r = unat a mod 32"
  have pi: "i div 128 = unat a div 4096" by (simp add: i_def flip: div_mult2_eq)
  have key: "of_nat (i div 128) = (drop_bit 12 a :: Word)"
    by (simp only: pi unat_page_index [symmetric]) simp
  have pa: "unat (a AND PageAddrMask) = (i mod 128) * 32 + r"
    unfolding and_PageAddrMask i_def r_def
    using mod_mult2_eq [of "unat a" 32 128] by simp
  have "r mod 8 = 0" using assms(2) mod_mod_cancel [of 8 32 "unat a"] by (simp add: aligned_iff r_def)
  moreover have "r < 32" by (simp add: r_def)
  moreover have up: "r mod 8 = 0 \<Longrightarrow> r < 32 \<Longrightarrow> r + 8 \<le> 32" for r :: nat by presburger
  ultimately have r: "r + 8 \<le> 32" by (intro up)
  show ?thesis
  proof (cases "page_at m (drop_bit 12 a)")
    case None
    then have "go_slice (mem_leaf m i) r (r + 8) = be_bytes 8 (0 :: Word)"
      using r key by (simp add: mem_leaf_def go_slice_def be_bytes_0 min_def)
    with None show ?thesis by (simp add: word_at_def flip: i_def r_def)
  next
    case (Some p)
    have "length (Data p) = 4096"
      using Some mem_wf_page [OF assms(1)] by (auto simp: page_at_def page_wf_def)
    moreover have "i mod 128 < 128" by simp
    ultimately have "go_slice (mem_leaf m i) r (r + 8) =
        go_slice (Data p) ((i mod 128) * 32 + r) ((i mod 128) * 32 + r + 8)"
      using Some key r
      by (intro nth_equalityI) (auto simp: mem_leaf_def page_leaf_def nth_go_slice add.assoc)
    with Some show ?thesis
      by (simp add: word_at_def page_word_def pa flip: i_def r_def)
  qed
qed

lemma MerkleProof_correct:
  assumes "merkle_wf keccak m"
  obtains ss m' where
    "MerkleProof keccak m a = Inr (concat (mem_leaf m (unat a div 32) # ss), m')"
    "length ss = 59" "merkle_wf keccak m'" "same_data m m'"
    "fold_proof keccak a 5 (mem_leaf m (unat a div 32)) ss = mem_hash keccak m 1"
proof -
  obtain ss m' where
    "traverseBranch keccak m 1 a 0 = Inr (mem_leaf m (unat a div 32) # ss, m')"
    "length ss = 59" "merkle_wf keccak m'" "same_data m m'"
    "fold_proof keccak a 5 (mem_leaf m (unat a div 32)) ss = mem_hash keccak m 1"
    using traverseBranch_correct [OF assms path_node_0 [symmetric], of a] by auto
  moreover from this have "MerkleProof keccak m a = Inr (concat (mem_leaf m (unat a div 32) # ss), m')"
    by (simp add: MerkleProof_def)
  ultimately show thesis using that by blast
qed

lemma length_mem_leaf: "mem_wf m \<Longrightarrow> length (mem_leaf m i) = 32"
proof -
  assume wf: "mem_wf m"
  have "i mod 128 * 32 + 32 \<le> 4096" using mod_less_divisor [of 128 i] by linarith
  then show ?thesis
    using mem_wf_page [OF wf] by (auto simp: mem_leaf_def page_leaf_def page_at_def page_wf_def split: option.splits)
qed

text \<open>A leaf is the four words at its addresses, so the tree is a function of the words alone.\<close>

lemma mem_leaf_words:
  assumes "mem_wf m" "i < 2 ^ 59"
  shows "mem_leaf m i = concat (map (\<lambda>j. be_bytes 8 (word_at m (of_nat (32 * i + 8 * j)))) [0..<4])"
proof -
  define l where "l = mem_leaf m i"
  have len: "length l = 32"
    unfolding l_def by (rule length_mem_leaf [OF assms(1)])
  have w: "be_word (go_slice l (8 * j) (8 * j + 8)) = word_at m (of_nat (32 * i + 8 * j))" if "j < 4" for j
  proof -
    define a :: Word where "a = of_nat (32 * i + 8 * j)"
    have u: "unat a = 32 * i + 8 * j"
      unfolding a_def using assms(2) that by (intro unat_of_nat_lt) simp
    have al: "a AND ExtMask = 0" unfolding aligned_iff u by presburger
    have "unat a div 32 = i" "unat a mod 32 = 8 * j" using u that by auto
    with word_in_leaf [OF assms(1) al] show ?thesis by (simp add: l_def a_def)
  qed
  have "be_bytes 8 (word_at m (of_nat (32 * i + 8 * j))) = go_slice l (8 * j) (8 * j + 8)" if "j < 4" for j
    unfolding w [OF that, symmetric]
    using be_bytes_be_word [of "go_slice l (8 * j) (8 * j + 8)", where ?'a = 64] that len by simp
  then have "concat (map (\<lambda>j. be_bytes 8 (word_at m (of_nat (32 * i + 8 * j)))) [0..<4])
      = concat (map (\<lambda>j. go_slice l (8 * j) (8 * j + 8)) [0..<4])"
    by (intro arg_cong [where f = concat] map_cong) auto
  also have "\<dots> = l" using len by (intro nth_equalityI) (auto simp: upt_conv_Cons go_slice_def nth_append)
  finally show ?thesis by (simp add: l_def)
qed

lemma bit_len_1: "bit_len (Suc 0) = Suc 0"
  using bit_len_unique [of 0 "Suc 0"] by simp

lemma mem_hash_root: "mem_hash keccak m 1 = tree_hash keccak 59 (mem_leaf m) 0"
  by (simp add: mem_hash_def gindex_hash_def bit_len_1)

lemma mem_hash_words:
  assumes "mem_wf m" "mem_wf m'" "\<And>a. a AND ExtMask = 0 \<Longrightarrow> word_at m a = word_at m' a"
  shows "mem_hash keccak m 1 = mem_hash keccak m' 1"
proof -
  have "mem_leaf m i = mem_leaf m' i" if i: "i < 2 ^ 59" for i
  proof -
    have "(of_nat (32 * i + 8 * j) :: Word) AND ExtMask = 0" if "j < 4" for j
    proof -
      have "unat (of_nat (32 * i + 8 * j) :: Word) = 32 * i + 8 * j"
        using i that by (intro unat_of_nat_lt) simp
      then show ?thesis unfolding aligned_iff by presburger
    qed
    then show ?thesis unfolding mem_leaf_words [OF assms(1) i] mem_leaf_words [OF assms(2) i]
      by (intro arg_cong [where f = concat] map_cong refl) (simp add: assms(3) del: of_nat_add of_nat_mult)
  qed
  then show ?thesis
    unfolding mem_hash_root by (intro tree_hash_cong) simp
qed

lemma MerkleRoot_correct:
  assumes "merkle_wf keccak m"
  obtains m' where "MerkleRoot keccak m = Inr (mem_hash keccak m 1, m')" "merkle_wf keccak m'" "same_data m m'"
  using MerkleizeSubtree_correct [OF assms, of 1] by (auto simp: MerkleRoot_def bit_len_1)

section \<open>Properties\<close>

text \<open>C6: Whatever caches and tree nodes have been filled or invalidated before, \<open>MerkleRoot\<close> returns the
  root of the plain binary hash tree over the 2^59 leaves of the address space; computing it changes
  no word of memory and keeps the cache invariant.\<close>

theorem MerkleRoot_reference:
  assumes "merkle_wf keccak m"
  shows "\<exists>m'. MerkleRoot keccak m = Inr (tree_hash keccak 59 (mem_leaf m) 0, m') \<and>
           merkle_wf keccak m' \<and> word_at m' = word_at m"
proof -
  obtain m' where m': "MerkleRoot keccak m = Inr (mem_hash keccak m 1, m')" "merkle_wf keccak m'" "same_data m m'"
    by (rule MerkleRoot_correct [OF assms])
  then show ?thesis unfolding mem_hash_root using same_data_word_at [OF m'(3)] by blast
qed

theorem MerkleRoot_reference_witness:
  "\<exists>m'. MerkleRoot (\<lambda>b. rev (take 32 b)) NewMemory =
          Inr (tree_hash (\<lambda>b. rev (take 32 b)) 59 (mem_leaf NewMemory) 0, m')"
  using MerkleRoot_reference [OF merkle_wf_NewMemory, of "\<lambda>b. rev (take 32 b)"] by blast

text \<open>The root is a function of the contents: two well-formed memories in which every aligned address
  reads the same word have the same Merkle root, whatever pages they have allocated (also all-zero
  ones), in whatever order, and whatever their caches hold.\<close>

theorem MerkleRoot_contents:
  assumes "merkle_wf keccak m" "merkle_wf keccak m'"
    "\<And>a. a AND ExtMask = 0 \<Longrightarrow> word_at m a = word_at m' a"
  shows "map_sum id fst (MerkleRoot keccak m) = map_sum id fst (MerkleRoot keccak m')"
proof -
  have "mem_hash keccak m 1 = mem_hash keccak m' 1"
    using assms by (intro mem_hash_words merkle_wf_mem)
  moreover obtain n n' where "MerkleRoot keccak m = Inr (mem_hash keccak m 1, n)"
    "MerkleRoot keccak m' = Inr (mem_hash keccak m' 1, n')"
    using MerkleRoot_correct [OF assms(1)] MerkleRoot_correct [OF assms(2)] by metis
  ultimately show ?thesis by simp
qed

theorem MerkleRoot_contents_witness:
  "map_sum id fst (MerkleRoot (\<lambda>b. take 32 b) NewMemory) =
   map_sum id fst (MerkleRoot (\<lambda>b. take 32 b) (snd (PageLookup NewMemory 5)))"
proof -
  have "snd (PageLookup NewMemory 5) = NewMemory" by (simp add: PageLookup_def NewMemory_def)
  then show ?thesis using MerkleRoot_contents [OF merkle_wf_NewMemory merkle_wf_NewMemory, of "\<lambda>b. take 32 b"] by simp
qed

text \<open>C7: \<open>SetWord\<close>'s incremental invalidation is enough: after any successful word write the caches and the
  tree index describe the new contents, so the next root is the reference root of the written memory.\<close>

theorem SetWord_root_fresh:
  assumes "merkle_wf keccak m" "a AND ExtMask = 0"
  shows "\<exists>m1 m2. SetWord m a v = Inr m1 \<and> merkle_wf keccak m1 \<and>
           MerkleRoot keccak m1 = Inr (tree_hash keccak 59 (mem_leaf m1) 0, m2) \<and> word_at m1 a = v"
proof -
  obtain m1 where m1: "SetWord m a v = Inr m1" "word_at m1 a = v"
    using SetWord_correct [OF merkle_wf_mem [OF assms(1)] assms(2), of v] assms(2) by metis
  have wf: "merkle_wf keccak m1" using SetWord_merkle_wf [OF assms(1) m1(1)] .
  obtain m2 where "MerkleRoot keccak m1 = Inr (mem_hash keccak m1 1, m2)"
    by (rule MerkleRoot_correct [OF wf])
  with m1 wf show ?thesis unfolding mem_hash_root by blast
qed

theorem SetWord_root_fresh_witness:
  "\<exists>m1 m2. SetWord NewMemory 64 9 = Inr m1 \<and> merkle_wf (\<lambda>b. take 32 b) m1 \<and>
     MerkleRoot (\<lambda>b. take 32 b) m1 = Inr (tree_hash (\<lambda>b. take 32 b) 59 (mem_leaf m1) 0, m2) \<and> word_at m1 64 = 9"
  by (rule SetWord_root_fresh [OF merkle_wf_NewMemory]) (simp add: ExtMask_def)

text \<open>C8: The proof returned by \<open>MerkleProof\<close> for an aligned address is a leaf and 59 siblings; the leaf
  contains the word \<open>GetWord\<close> reads at the address, and hashing it with the siblings in the order given
  by the address bits yields exactly the root \<open>MerkleRoot\<close> returns.\<close>

theorem MerkleProof_verifies:
  assumes "merkle_wf keccak m" "a AND ExtMask = 0"
  shows "\<exists>leaf ss m1 root m2 m3. MerkleProof keccak m a = Inr (concat (leaf # ss), m1) \<and> length ss = 59 \<and>
           MerkleRoot keccak m1 = Inr (root, m2) \<and> fold_proof keccak a 5 leaf ss = root \<and>
           GetWord m2 a = Inr (be_word (go_slice leaf (unat a mod 32) (unat a mod 32 + 8)), m3)"
proof -
  define leaf where "leaf = mem_leaf m (unat a div 32)"
  obtain ss m1 where m1: "MerkleProof keccak m a = Inr (concat (leaf # ss), m1)" "length ss = 59"
    "merkle_wf keccak m1" "same_data m m1" "fold_proof keccak a 5 leaf ss = mem_hash keccak m 1"
    unfolding leaf_def by (rule MerkleProof_correct [OF assms(1), of a])
  obtain m2 where m2: "MerkleRoot keccak m1 = Inr (mem_hash keccak m1 1, m2)" "merkle_wf keccak m2" "same_data m1 m2"
    by (rule MerkleRoot_correct [OF m1(3)])
  obtain m3 where "GetWord m2 a = Inr (word_at m2 a, m3)"
    using GetWord_correct [OF merkle_wf_mem [OF m2(2)] assms(2)] by metis
  moreover have "word_at m2 = word_at m" "mem_hash keccak m1 1 = mem_hash keccak m 1"
    using same_data_word_at [OF m2(3)] same_data_word_at [OF m1(4)] same_data_mem_hash [OF m1(4)] by auto
  moreover have "word_at m a = be_word (go_slice leaf (unat a mod 32) (unat a mod 32 + 8))"
    using word_in_leaf [OF merkle_wf_mem [OF assms(1)] assms(2)] by (simp add: leaf_def)
  ultimately show ?thesis using m1(1,2,5) m2(1) by metis
qed

theorem MerkleProof_verifies_witness:
  "\<exists>leaf ss m1 root m2 m3. MerkleProof (\<lambda>b. take 32 b) NewMemory 40 = Inr (concat (leaf # ss), m1) \<and>
     length ss = 59 \<and> MerkleRoot (\<lambda>b. take 32 b) m1 = Inr (root, m2) \<and>
     fold_proof (\<lambda>b. take 32 b) 40 5 leaf ss = root \<and>
     GetWord m2 40 = Inr (be_word (go_slice leaf (unat (40 :: Word) mod 32) (unat (40 :: Word) mod 32 + 8)), m3)"
  by (rule MerkleProof_verifies [OF merkle_wf_NewMemory]) (simp add: ExtMask_def)

end
