(* ===== verification/CannonExec.thy ===== *)
theory CannonExec
  imports CannonMerkle "HOL-Library.Signed_Division"
begin

text \<open>
  The instruction semantics of \<^verbatim>\<open>cannon/mipsevm/exec/mips_instructions.go\<close> and the memory
  access tracker of \<^verbatim>\<open>exec/memory.go\<close>, one definition per Go function, with the panics as
  values of \<open>fault\<close>. The stack tracker calls are those of the no-op tracker that
  \<^verbatim>\<open>NewInstrumentedState\<close> installs and change nothing. The theorems give the arithmetic
  meaning of the sign extension, the sub-word accesses, the HI/LO results and the count instructions.
\<close>

section \<open>State\<close>

record CpuScalars =
  PC :: Word
  NextPC :: Word
  LO :: Word
  HI :: Word

record MemoryTracker =
  lastMemAccess :: Word
  memProofEnabled :: bool
  memProof :: bytes
  memProof2 :: bytes

definition NewMemoryTracker :: MemoryTracker where
  "NewMemoryTracker = \<lparr>lastMemAccess = 0, memProofEnabled = False,
     memProof = replicate MemProofSize 0, memProof2 = replicate MemProofSize 0\<rparr>"

definition TrackMemAccess ::
    "(bytes \<Rightarrow> bytes) \<Rightarrow> Memory \<Rightarrow> MemoryTracker \<Rightarrow> Word \<Rightarrow> fault + Memory \<times> MemoryTracker" where
  "TrackMemAccess keccak m t effAddr =
    (if memProofEnabled t \<and> lastMemAccess t \<noteq> effAddr then
       if lastMemAccess t \<noteq> NOT 0 then Inl (DifferentMemAccess effAddr (lastMemAccess t))
       else let t = t\<lparr>lastMemAccess := effAddr\<rparr> in
            rbind (MerkleProof keccak m effAddr) (\<lambda>(proof, m). Inr (m, t\<lparr>memProof := proof\<rparr>))
     else Inr (m, t))"

definition TrackMemAccess2 ::
    "(bytes \<Rightarrow> bytes) \<Rightarrow> Memory \<Rightarrow> MemoryTracker \<Rightarrow> Word \<Rightarrow> fault + Memory \<times> MemoryTracker" where
  "TrackMemAccess2 keccak m t effAddr =
    (if memProofEnabled t \<and> lastMemAccess t + of_nat WordSizeBytes \<noteq> effAddr
     then Inl (DisjointMemAccess effAddr (lastMemAccess t))
     else let t = t\<lparr>lastMemAccess := effAddr\<rparr> in
          rbind (MerkleProof keccak m effAddr) (\<lambda>(proof, m). Inr (m, t\<lparr>memProof2 := proof\<rparr>)))"

definition MemoryTracker_Reset :: "MemoryTracker \<Rightarrow> bool \<Rightarrow> MemoryTracker" where
  "MemoryTracker_Reset t enableProof = t\<lparr>memProofEnabled := enableProof, lastMemAccess := NOT 0\<rparr>"

section \<open>Sub-words and sign extension\<close>

definition SignExtend :: "Word \<Rightarrow> Word \<Rightarrow> Word" where
  "SignExtend dat idx =
    (let isSigned = drop_bit (unat (idx - 1)) dat AND 1 \<noteq> 0;
         signed = push_bit (unat idx) (push_bit (unat (of_nat WordSize - idx)) 1 - 1);
         mask = push_bit (unat idx) 1 - 1
     in if isSigned then dat AND mask OR signed else dat AND mask)"

definition SignExtendImmediate :: "uint32 \<Rightarrow> Word" where
  "SignExtendImmediate insn = SignExtend (ucast (insn AND 0xFFFF)) 16"

definition calculateSubWordMaskAndOffset :: "Word \<Rightarrow> Word \<Rightarrow> Word \<times> Word \<times> Word" where
  "calculateSubWordMaskAndOffset vaddr byteLength =
    (let bitLength = push_bit 3 byteLength;
         dataMask = drop_bit (unat (of_nat WordSize - bitLength)) (NOT 0);
         byteIndexMask = vaddr AND ExtMask AND NOT (byteLength - 1);
         maxByteShift = of_nat WordSizeBytes - byteLength;
         byteIndex = vaddr AND byteIndexMask;
         bitOffset = push_bit 3 (maxByteShift - byteIndex)
     in (dataMask, bitOffset, bitLength))"

definition SelectSubWord :: "Word \<Rightarrow> Word \<Rightarrow> Word \<Rightarrow> bool \<Rightarrow> Word" where
  "SelectSubWord vaddr memWord byteLength signExtend =
    (let (dataMask, bitOffset, bitLength) = calculateSubWordMaskAndOffset vaddr byteLength;
         retVal = drop_bit (unat bitOffset) memWord AND dataMask
     in if signExtend then SignExtend retVal bitLength else retVal)"

definition UpdateSubWord :: "Word \<Rightarrow> Word \<Rightarrow> Word \<Rightarrow> Word \<Rightarrow> Word" where
  "UpdateSubWord vaddr memWord byteLength value =
    (let (dataMask, bitOffset, _) = calculateSubWordMaskAndOffset vaddr byteLength;
         subWordValue = dataMask AND value;
         memUpdateMask = push_bit (unat bitOffset) dataMask
     in push_bit (unat bitOffset) subWordValue OR (NOT memUpdateMask AND memWord))"

definition LoadSubWord ::
    "(bytes \<Rightarrow> bytes) \<Rightarrow> Memory \<Rightarrow> MemoryTracker \<Rightarrow> Word \<Rightarrow> Word \<Rightarrow> bool \<Rightarrow> fault + Word \<times> Memory \<times> MemoryTracker" where
  "LoadSubWord keccak m t vaddr byteLength signExtend =
    (let effAddr = vaddr AND AddressMask in
     rbind (TrackMemAccess keccak m t effAddr) (\<lambda>(m, t).
     rbind (GetWord m effAddr) (\<lambda>(mem, m).
     Inr (SelectSubWord vaddr mem byteLength signExtend, m, t))))"

definition StoreSubWord ::
    "(bytes \<Rightarrow> bytes) \<Rightarrow> Memory \<Rightarrow> MemoryTracker \<Rightarrow> Word \<Rightarrow> Word \<Rightarrow> Word \<Rightarrow> fault + Memory \<times> MemoryTracker" where
  "StoreSubWord keccak m t vaddr byteLength value =
    (let effAddr = vaddr AND AddressMask in
     rbind (TrackMemAccess keccak m t effAddr) (\<lambda>(m, t).
     rbind (GetWord m effAddr) (\<lambda>(mem, m).
     let newMemVal = UpdateSubWord vaddr mem byteLength value in
     rbind (SetWord m effAddr newMemVal) (\<lambda>m. Inr (m, t)))))"

definition GetInstructionDetails :: "Word \<Rightarrow> Memory \<Rightarrow> fault + (uint32 \<times> uint32 \<times> uint32) \<times> Memory" where
  "GetInstructionDetails pc m =
    (if pc AND 0x3 \<noteq> 0 then Inl (InvalidPC pc)
     else rbind (GetWord m (pc AND AddressMask)) (\<lambda>(word, m).
       let insn = ucast (SelectSubWord pc word 4 False);
           opcode = drop_bit 26 insn;
           fun' = insn AND 0x3F
       in Inr ((insn, opcode, fun'), m)))"

section \<open>The ALU\<close>

definition U32Mask :: Word where "U32Mask = 0xFFFFFFFF"
definition RegRA :: Word where "RegRA = 31"

definition assertMips64 :: "uint32 \<Rightarrow> 'a \<Rightarrow> fault + 'a" where
  "assertMips64 insn v = (if IsMips32 then Inl (InvalidInsn insn) else Inr v)"

definition assertMips64Fun :: "uint32 \<Rightarrow> 'a \<Rightarrow> fault + 'a" where
  "assertMips64Fun fun' v = (if IsMips32 then Inl (InvalidFun fun') else Inr v)"

text \<open>\<^verbatim>\<open>int32(w)\<close>, \<^verbatim>\<open>uint32(w)\<close> and back: \<^verbatim>\<open>Word(int32)\<close> sign-extends,
  \<^verbatim>\<open>Word(uint32)\<close> zero-extends. Signed quotient and remainder truncate towards zero and wrap.\<close>

abbreviation lo32 :: "Word \<Rightarrow> uint32" where "lo32 w \<equiv> ucast w"

definition go_quot :: "'a::len word \<Rightarrow> 'a word \<Rightarrow> 'a word" where
  "go_quot a b = word_of_int (sint a sdiv sint b)"

definition go_rem :: "'a::len word \<Rightarrow> 'a word \<Rightarrow> 'a word" where
  "go_rem a b = word_of_int (sint a smod sint b)"

text \<open>The first switch: arithmetic with an immediate becomes its SPECIAL form.\<close>

definition toSpecialFun :: "uint32 \<Rightarrow> uint32 \<Rightarrow> uint32" where
  "toSpecialFun opcode fun' =
    (if opcode = 0x8 then 0x20 else if opcode = 0x9 then 0x21 else if opcode = 0xA then 0x2A
     else if opcode = 0xB then 0x2B else if opcode = 0xC then 0x24 else if opcode = 0xD then 0x25
     else if opcode = 0xE then 0x26 else if opcode = 0x18 then 0x2C else if opcode = 0x19 then 0x2D
     else fun')"

definition execSpecial :: "uint32 \<Rightarrow> uint32 \<Rightarrow> Word \<Rightarrow> Word \<Rightarrow> fault + Word" where
  "execSpecial insn fun' rs rt =
    (let shamt = drop_bit 6 insn AND 0x1F in
     if fun' = 0x00 then Inr (SignExtend (push_bit (unat shamt) rt AND U32Mask) 32)
     else if fun' = 0x02 then Inr (SignExtend (drop_bit (unat shamt) (rt AND U32Mask)) 32)
     else if fun' = 0x03 then Inr (SignExtend (drop_bit (unat shamt) (rt AND U32Mask)) (32 - ucast shamt))
     else if fun' = 0x04 then Inr (SignExtend (push_bit (unat (rs AND 0x1F)) rt AND U32Mask) 32)
     else if fun' = 0x06 then Inr (SignExtend (drop_bit (unat (rs AND 0x1F)) (rt AND U32Mask)) 32)
     else if fun' = 0x07 then Inr (SignExtend (drop_bit (unat (rs AND 0x1F)) (rt AND U32Mask)) (32 - (rs AND 0x1F)))
     else if fun' \<in> {0x08, 0x09, 0x0A, 0x0B, 0x0C, 0x0F, 0x10, 0x11, 0x12, 0x13} then Inr rs
     else if fun' \<in> {0x14, 0x16, 0x17} then assertMips64 insn rt
     else if fun' \<in> {0x18, 0x19, 0x1A, 0x1B} then Inr rs
     else if fun' \<in> {0x1C, 0x1D, 0x1E, 0x1F} then assertMips64 insn rs
     else if fun' = 0x20 then Inr (SignExtend (scast (lo32 rs + lo32 rt)) 32)
     else if fun' = 0x21 then Inr (SignExtend (ucast (lo32 rs + lo32 rt)) 32)
     else if fun' = 0x22 then Inr (SignExtend (scast (lo32 rs - lo32 rt)) 32)
     else if fun' = 0x23 then Inr (SignExtend (ucast (lo32 rs - lo32 rt)) 32)
     else if fun' = 0x24 then Inr (rs AND rt)
     else if fun' = 0x25 then Inr (rs OR rt)
     else if fun' = 0x26 then Inr (rs XOR rt)
     else if fun' = 0x27 then Inr (NOT (rs OR rt))
     else if fun' = 0x2A then Inr (if sint rs < sint rt then 1 else 0)
     else if fun' = 0x2B then Inr (if rs < rt then 1 else 0)
     else if fun' \<in> {0x2C, 0x2D} then assertMips64 insn (rs + rt)
     else if fun' \<in> {0x2E, 0x2F} then assertMips64 insn (rs - rt)
     else if fun' = 0x38 then assertMips64 insn (push_bit (unat shamt) rt)
     else if fun' = 0x3A then assertMips64 insn (drop_bit (unat shamt) rt)
     else if fun' = 0x3B then assertMips64 insn (signed_drop_bit (unat shamt) rt)
     else if fun' = 0x3C then assertMips64 insn (push_bit (unat (shamt + 32)) rt)
     else if fun' = 0x3E then assertMips64 insn (drop_bit (unat (shamt + 32)) rt)
     else if fun' = 0x3F then assertMips64 insn (signed_drop_bit (unat (shamt + 32)) rt)
     else Inl (InvalidInsn insn))"

lemma bit31_iff: "(rs :: Word) AND 0x80000000 \<noteq> 0 \<longleftrightarrow> bit rs 31"
proof -
  have "(0x80000000 :: Word) = push_bit 31 1" by simp
  then have "bit (rs AND 0x80000000) n \<longleftrightarrow> n = 31 \<and> bit rs 31" for n
    by (auto simp only: bit_and_iff bit_push_bit_iff bit_1_iff) auto
  then show ?thesis by (metis bit_0_eq bot_apply bot_bool_def bit_word_eqI)
qed

lemma bit_times_two: "bit ((rs :: Word) * 2) (Suc k) \<longleftrightarrow> Suc k < 64 \<and> bit rs k" "\<not> bit (rs * 2) 0"
  using bit_double_iff [of rs "Suc k"] bit_double_iff [of rs 0] by (simp_all add: mult.commute)

lemma count_loop_decreases:
  assumes "bit (rs :: Word) 31"
  shows "card {k. k < 32 \<and> bit (rs * 2) k} < card {k. k < 32 \<and> bit rs k}"
proof -
  have "k < 32 \<and> bit (rs * 2) k \<longleftrightarrow> k \<in> Suc ` {k. k < 31 \<and> bit rs k}" for k
    by (cases k) (auto simp: bit_times_two)
  then have "{k. k < 32 \<and> bit (rs * 2) k} = Suc ` {k. k < 31 \<and> bit rs k}" by blast
  then have "card {k. k < 32 \<and> bit (rs * 2) k} = card {k. k < 31 \<and> bit rs k}"
    by (simp add: card_image)
  also have "\<dots> < card {k. k < 32 \<and> bit rs k}"
  proof (rule psubset_card_mono)
    have "31 \<in> {k. k < 32 \<and> bit rs k}" "31 \<notin> {k. k < 31 \<and> bit rs k}" using assms by simp_all
    moreover have "{k. k < 31 \<and> bit rs k} \<subseteq> {k. k < 32 \<and> bit rs k}" by (intro Collect_mono) simp
    ultimately show "{k. k < 31 \<and> bit rs k} \<subset> {k. k < 32 \<and> bit rs k}" by blast
  qed simp
  finally show ?thesis .
qed

text \<open>The loop of \<^verbatim>\<open>clz\<close> and \<^verbatim>\<open>clo\<close>; it ends because each turn shifts one set bit out of
  the low half.\<close>

function count_loop :: "Word \<Rightarrow> uint32 \<Rightarrow> uint32" where
  "count_loop rs i = (if rs AND 0x80000000 \<noteq> 0 then count_loop (push_bit 1 rs) (i + 1) else i)"
  by pat_completeness auto
termination
  by (relation "measure (\<lambda>(rs, i). card {k. k < 32 \<and> bit rs k})")
    (auto simp: bit31_iff count_loop_decreases)

declare count_loop.simps [simp del]

text \<open>The second switch: SPECIAL2, \<^verbatim>\<open>lui\<close>, loads and stores. Loads return the register value,
  stores the new memory word.\<close>

definition execLoadStore :: "uint32 \<Rightarrow> uint32 \<Rightarrow> uint32 \<Rightarrow> Word \<Rightarrow> Word \<Rightarrow> Word \<Rightarrow> fault + Word" where
  "execLoadStore insn opcode fun' rs rt mem =
    (if opcode = 0x1C then
       (if fun' = 0x02 then Inr (SignExtend (scast (lo32 rs * lo32 rt)) 32)
        else if fun' = 0x20 \<or> fun' = 0x21 then
          (let rs = (if fun' = 0x20 then NOT rs else rs) in Inr (ucast (count_loop rs 0)))
        else Inl (InvalidInsn insn))
     else if opcode = 0x0F then Inr (SignExtend (push_bit 16 rt) 32)
     else if opcode = 0x20 then Inr (SelectSubWord rs mem 1 True)
     else if opcode = 0x21 then Inr (SelectSubWord rs mem 2 True)
     else if opcode = 0x22 then
       (if IsMips32 then
          let val = push_bit (unat ((rs AND 3) * 8)) mem;
              mask = ucast (push_bit (unat ((rs AND 3) * 8)) (lo32 U32Mask))
          in Inr (SignExtend (((rt AND NOT mask) OR val) AND U32Mask) 32)
        else
          let w = lo32 (SelectSubWord rs mem 4 False);
              val = push_bit (unat ((rs AND 3) * 8)) w;
              mask = ucast (push_bit (unat ((rs AND 3) * 8)) (lo32 U32Mask))
          in Inr (SignExtend (((rt AND NOT mask) OR ucast val) AND U32Mask) 32))
     else if opcode = 0x23 then Inr (SelectSubWord rs mem 4 True)
     else if opcode = 0x24 then Inr (SelectSubWord rs mem 1 False)
     else if opcode = 0x25 then Inr (SelectSubWord rs mem 2 False)
     else if opcode = 0x26 then
       (if IsMips32 then
          let val = drop_bit (unat (24 - (rs AND 3) * 8)) mem;
              mask = ucast (drop_bit (unat (24 - (rs AND 3) * 8)) (lo32 U32Mask))
          in Inr (SignExtend (((rt AND NOT mask) OR val) AND U32Mask) 32)
        else
          let w = lo32 (SelectSubWord rs mem 4 False);
              val = drop_bit (unat (24 - (rs AND 3) * 8)) w;
              mask = drop_bit (unat (24 - (rs AND 3) * 8)) (lo32 U32Mask);
              lwrResult = (lo32 rt AND NOT mask) OR val
          in if rs AND 3 = 3 then Inr (SignExtend (ucast lwrResult) 32)
             else Inr ((rt AND 0xFFFFFFFF00000000) OR ucast lwrResult))
     else if opcode = 0x28 then Inr (UpdateSubWord rs mem 1 rt)
     else if opcode = 0x29 then Inr (UpdateSubWord rs mem 2 rt)
     else if opcode = 0x2A then
       (if IsMips32 then
          let val = drop_bit (unat ((rs AND 3) * 8)) rt;
              mask = drop_bit (unat ((rs AND 3) * 8)) (lo32 U32Mask)
          in Inr ((mem AND ucast (NOT mask)) OR val)
        else
          let sr = push_bit 3 (rs AND 3);
              val = push_bit (unat (32 - push_bit 3 (rs AND 0x4))) (drop_bit (unat sr) (rt AND U32Mask));
              mask = push_bit (unat (32 - push_bit 3 (rs AND 0x4))) (drop_bit (unat sr) U32Mask)
          in Inr ((mem AND NOT mask) OR val))
     else if opcode = 0x2B then Inr (UpdateSubWord rs mem 4 rt)
     else if opcode = 0x2E then
       (if IsMips32 then
          let val = push_bit (unat (24 - (rs AND 3) * 8)) rt;
              mask = push_bit (unat (24 - (rs AND 3) * 8)) (lo32 U32Mask)
          in Inr ((mem AND ucast (NOT mask)) OR val)
        else
          let w = lo32 (SelectSubWord rs mem 4 False);
              val = push_bit (unat (24 - (rs AND 3) * 8)) rt;
              mask = push_bit (unat (24 - (rs AND 3) * 8)) (lo32 U32Mask);
              swrResult = (w AND NOT mask) OR lo32 val
          in Inr (UpdateSubWord rs mem 4 (ucast swrResult)))
     else if opcode = 0x1A then
       (let sl = push_bit 3 (rs AND 0x7);
            val = push_bit (unat sl) mem;
            mask = push_bit (unat sl) (NOT 0)
        in assertMips64 insn (val OR (rt AND NOT mask)))
     else if opcode = 0x1B then
       (let sr = 56 - push_bit 3 (rs AND 0x7);
            val = drop_bit (unat sr) mem;
            mask = push_bit (unat (64 - sr)) (NOT 0)
        in assertMips64 insn (val OR (rt AND mask)))
     else if opcode = 0x27 then
       assertMips64 insn (drop_bit (unat (32 - push_bit 3 (rs AND 0x4))) mem AND U32Mask)
     else if opcode = 0x2C then
       (let sr = push_bit 3 (rs AND 0x7);
            val = drop_bit (unat sr) rt;
            mask = drop_bit (unat sr) (NOT 0)
        in assertMips64 insn (val OR (mem AND NOT mask)))
     else if opcode = 0x2D then
       (let sl = 56 - push_bit 3 (rs AND 0x7);
            val = push_bit (unat sl) rt;
            mask = push_bit (unat sl) (NOT 0)
        in assertMips64 insn (val OR (mem AND NOT mask)))
     else if opcode = 0x37 then assertMips64 insn mem
     else if opcode = 0x3F then assertMips64 insn rt
     else Inl (InvalidInsn insn))"

definition ExecuteMipsInstruction ::
    "uint32 \<Rightarrow> uint32 \<Rightarrow> uint32 \<Rightarrow> Word \<Rightarrow> Word \<Rightarrow> Word \<Rightarrow> fault + Word" where
  "ExecuteMipsInstruction insn opcode fun' rs rt mem =
    (if opcode = 0 \<or> (8 \<le> opcode \<and> opcode < 0xF) \<or> (\<not> IsMips32 \<and> (opcode = 0x18 \<or> opcode = 0x19))
     then execSpecial insn (toSpecialFun opcode fun') rs rt
     else execLoadStore insn opcode fun' rs rt mem)"

section \<open>Register and program counter updates\<close>

text \<open>\<^verbatim>\<open>registers[r] = v\<close> on the 32-element array.\<close>

definition set_reg :: "Word list \<Rightarrow> Word \<Rightarrow> Word \<Rightarrow> fault + Word list" where
  "set_reg registers r v = (if r < 32 then Inr (registers[unat r := v]) else Inl IndexOutOfRange)"

definition HandleJump :: "CpuScalars \<Rightarrow> Word list \<Rightarrow> Word \<Rightarrow> Word \<Rightarrow> fault + CpuScalars \<times> Word list" where
  "HandleJump cpu registers linkReg dest =
    (if NextPC cpu \<noteq> PC cpu + 4 then Inl JumpInDelaySlot
     else let prevPC = PC cpu;
              cpu = cpu\<lparr>PC := NextPC cpu\<rparr>;
              cpu = cpu\<lparr>NextPC := dest\<rparr>
          in if linkReg \<noteq> 0 then rbind (set_reg registers linkReg (prevPC + 8)) (\<lambda>registers. Inr (cpu, registers))
             else Inr (cpu, registers))"

text \<open>\<^verbatim>\<open>cpu.PC = cpu.NextPC; cpu.NextPC = cpu.NextPC + 4\<close>.\<close>

definition advance :: "CpuScalars \<Rightarrow> CpuScalars" where
  "advance cpu = cpu\<lparr>PC := NextPC cpu, NextPC := NextPC cpu + 4\<rparr>"

definition HandleRd :: "CpuScalars \<Rightarrow> Word list \<Rightarrow> Word \<Rightarrow> Word \<Rightarrow> bool \<Rightarrow> fault + CpuScalars \<times> Word list" where
  "HandleRd cpu registers storeReg val conditional =
    (if 32 \<le> storeReg then Inl InvalidRegister
     else let registers = (if storeReg \<noteq> 0 \<and> conditional then registers[unat storeReg := val] else registers)
          in Inr (advance cpu, registers))"

definition HandleBranch ::
    "CpuScalars \<Rightarrow> Word list \<Rightarrow> uint32 \<Rightarrow> uint32 \<Rightarrow> Word \<Rightarrow> Word \<Rightarrow> fault + CpuScalars \<times> Word list" where
  "HandleBranch cpu registers opcode insn rtReg rs =
    (if NextPC cpu \<noteq> PC cpu + 4 then Inl BranchInDelaySlot
     else
       let (shouldBranch, registers) =
         (if opcode = 4 \<or> opcode = 5 then
            (let rt = registers ! unat rtReg
             in ((rs = rt \<and> opcode = 4) \<or> (rs \<noteq> rt \<and> opcode = 5), registers))
          else if opcode = 6 then (sint rs \<le> 0, registers)
          else if opcode = 7 then (0 < sint rs, registers)
          else if opcode = 1 then
            (let rtv = drop_bit 16 insn AND 0x1F in
             if rtv = 0 then (sint rs < 0, registers)
             else if rtv = 0x10 then (sint rs < 0, registers[31 := PC cpu + 8])
             else if rtv = 1 then (0 \<le> sint rs, registers)
             else if rtv = 0x11 then (0 \<le> sint rs, registers[unat RegRA := PC cpu + 8])
             else (False, registers))
          else (False, registers));
         prevPC = PC cpu;
         cpu = cpu\<lparr>PC := NextPC cpu\<rparr>
       in if shouldBranch
          then Inr (cpu\<lparr>NextPC := prevPC + 4 + push_bit 2 (SignExtend (ucast (insn AND 0xFFFF)) 16)\<rparr>, registers)
          else Inr (cpu\<lparr>NextPC := NextPC cpu + 4\<rparr>, registers))"

definition abs64 :: "Word \<Rightarrow> Word" where
  "abs64 x = (if sint x < 0 then - x else x)"

text \<open>\<^verbatim>\<open>bits.Mul64\<close>: the high and low half of the 128-bit product.\<close>

definition Mul64 :: "Word \<Rightarrow> Word \<Rightarrow> Word \<times> Word" where
  "Mul64 a b = (of_nat (unat a * unat b div 2 ^ 64), of_nat (unat a * unat b))"

definition HandleHiLo ::
    "CpuScalars \<Rightarrow> Word list \<Rightarrow> uint32 \<Rightarrow> Word \<Rightarrow> Word \<Rightarrow> Word \<Rightarrow> fault + CpuScalars \<times> Word list" where
  "HandleHiLo cpu registers fun' rs rt storeReg =
    rbind
      (if fun' = 0x10 then Inr (HI cpu, cpu)
       else if fun' = 0x11 then Inr (0, cpu\<lparr>HI := rs\<rparr>)
       else if fun' = 0x12 then Inr (LO cpu, cpu)
       else if fun' = 0x13 then Inr (0, cpu\<lparr>LO := rs\<rparr>)
       else if fun' = 0x18 then
         (let acc = (scast (lo32 rs) :: Word) * scast (lo32 rt)
          in Inr (0, cpu\<lparr>HI := SignExtend (drop_bit 32 acc) 32, LO := SignExtend (ucast (lo32 acc)) 32\<rparr>))
       else if fun' = 0x19 then
         (let acc = (ucast (lo32 rs) :: Word) * ucast (lo32 rt)
          in Inr (0, cpu\<lparr>HI := SignExtend (drop_bit 32 acc) 32, LO := SignExtend (ucast (lo32 acc)) 32\<rparr>))
       else if fun' = 0x1A then
         (if lo32 rt = 0 then Inl DivideByZero
          else Inr (0, cpu\<lparr>HI := SignExtend (scast (go_rem (lo32 rs) (lo32 rt))) 32,
                           LO := SignExtend (scast (go_quot (lo32 rs) (lo32 rt))) 32\<rparr>))
       else if fun' = 0x1B then
         (if lo32 rt = 0 then Inl DivideByZero
          else Inr (0, cpu\<lparr>HI := SignExtend (ucast (lo32 rs mod lo32 rt)) 32,
                           LO := SignExtend (ucast (lo32 rs div lo32 rt)) 32\<rparr>))
       else if fun' = 0x14 then assertMips64Fun fun' (push_bit (unat (rs AND 0x3F)) rt, cpu)
       else if fun' = 0x16 then assertMips64Fun fun' (drop_bit (unat (rs AND 0x3F)) rt, cpu)
       else if fun' = 0x17 then assertMips64Fun fun' (signed_drop_bit (unat (rs AND 0x3F)) rt, cpu)
       else if fun' = 0x1C then
         (let negative = ((sint rs < 0) \<noteq> (sint rt < 0));
              (hi, lo) = Mul64 (abs64 rs) (abs64 rt);
              (hi, lo) = (if negative then
                            (let hi = NOT hi; lo = NOT lo;
                                 hi = (if lo = 0xFFFFFFFFFFFFFFFF then hi + 1 else hi)
                             in (hi, lo + 1))
                          else (hi, lo))
          in assertMips64Fun fun' (0, cpu\<lparr>HI := hi, LO := lo\<rparr>))
       else if fun' = 0x1D then
         (let (hi, lo) = Mul64 rs rt in assertMips64Fun fun' (0, cpu\<lparr>HI := hi, LO := lo\<rparr>))
       else if fun' = 0x1E then
         rbind (assertMips64Fun fun' ()) (\<lambda>_.
           if rt = 0 then Inl DivideByZero
           else Inr (0, cpu\<lparr>HI := go_rem rs rt, LO := go_quot rs rt\<rparr>))
       else if fun' = 0x1F then
         rbind (assertMips64Fun fun' ()) (\<lambda>_.
           if rt = 0 then Inl DivideByZero
           else Inr (0, cpu\<lparr>HI := rs mod rt, LO := rs div rt\<rparr>))
       else Inr (0, cpu))
      (\<lambda>(val, cpu).
         rbind (if storeReg \<noteq> 0 then set_reg registers storeReg val else Inr registers) (\<lambda>registers.
           Inr (advance cpu, registers)))"

section \<open>One core step\<close>

text \<open>The part of \<^verbatim>\<open>ExecMipsCoreStepLogic\<close> that selects the second operand and the destination.\<close>

definition fetchOperands :: "Word list \<Rightarrow> uint32 \<Rightarrow> uint32 \<Rightarrow> fault + Word \<times> Word" where
  "fetchOperands registers insn opcode =
    (let rtReg = ucast (drop_bit 16 insn AND 0x1F) in
     if opcode = 0x27 \<or> opcode = 0x1A \<or> opcode = 0x1B then assertMips64 insn (registers ! unat rtReg, rtReg)
     else if opcode = 0 \<or> opcode = 0x1C then Inr (registers ! unat rtReg, ucast (drop_bit 11 insn AND 0x1F))
     else if opcode < 0x20 then
       (if opcode = 0xC \<or> opcode = 0xD \<or> opcode = 0xE then Inr (ucast (insn AND 0xFFFF), rtReg)
        else Inr (SignExtendImmediate insn, rtReg))
     else if 0x28 \<le> opcode \<or> opcode = 0x22 \<or> opcode = 0x26 then Inr (registers ! unat rtReg, rtReg)
     else Inr (0, rtReg))"

type_synonym core = "CpuScalars \<times> Word list \<times> Memory \<times> MemoryTracker"

definition ExecMipsCoreStepLogic ::
    "(bytes \<Rightarrow> bytes) \<Rightarrow> core \<Rightarrow> uint32 \<Rightarrow> uint32 \<Rightarrow> uint32 \<Rightarrow> fault + core \<times> bool \<times> Word" where
  "ExecMipsCoreStepLogic keccak = (\<lambda>(cpu, registers, m, t) insn opcode fun'.
    if opcode = 2 \<or> opcode = 3 then
      (let linkReg = (if opcode = 3 then RegRA else 0);
           target = (NextPC cpu AND SignExtend 0xF0000000 32) OR ucast (push_bit 2 (insn AND 0x03FFFFFF))
       in rbind (HandleJump cpu registers linkReg target) (\<lambda>(cpu, registers).
            Inr ((cpu, registers, m, t), False, 0)))
    else
      let rtReg = ucast (drop_bit 16 insn AND 0x1F);
          rs = registers ! unat (drop_bit 21 insn AND 0x1F)
      in rbind (fetchOperands registers insn opcode) (\<lambda>(rt, rdReg).
      if (4 \<le> opcode \<and> opcode < 8) \<or> opcode = 1 then
        rbind (HandleBranch cpu registers opcode insn rtReg rs) (\<lambda>(cpu, registers).
          Inr ((cpu, registers, m, t), False, 0))
      else
        rbind
          (if 0x20 \<le> opcode \<or> opcode = 0x1A \<or> opcode = 0x1B then
             (let rs = rs + SignExtendImmediate insn;
                  addr = rs AND AddressMask
              in rbind (TrackMemAccess keccak m t addr) (\<lambda>(m, t).
                 rbind (GetWord m addr) (\<lambda>(mem, m).
                 if 0x28 \<le> opcode \<and> (IsMips32 \<or> opcode \<noteq> 0x37) then Inr (rs, mem, addr, 0, m, t)
                 else Inr (rs, mem, NOT 0, rdReg, m, t))))
           else Inr (rs, 0, NOT 0, rdReg, m, t))
          (\<lambda>(rs, mem, storeAddr, rdReg, m, t).
        rbind (ExecuteMipsInstruction insn opcode fun' rs rt mem) (\<lambda>val.
        let funSel = (if \<not> IsMips32 then 0x20 else 0x1C) in
        if opcode = 0 \<and> 8 \<le> fun' \<and> fun' < funSel \<and>
           (fun' = 8 \<or> fun' = 9 \<or> fun' = 0xA \<or> fun' = 0xB \<or> 0x10 \<le> fun') then
          rbind
            (if fun' = 8 \<or> fun' = 9 then HandleJump cpu registers (if fun' = 9 then rdReg else 0) rs
             else if fun' = 0xA then HandleRd cpu registers rdReg rs (rt = 0)
             else if fun' = 0xB then HandleRd cpu registers rdReg rs (rt \<noteq> 0)
             else HandleHiLo cpu registers fun' rs rt rdReg)
            (\<lambda>(cpu, registers). Inr ((cpu, registers, m, t), False, 0))
        else
          rbind
            (if storeAddr \<noteq> NOT 0 then
               rbind (TrackMemAccess keccak m t storeAddr) (\<lambda>(m, t).
               rbind (SetWord m storeAddr val) (\<lambda>m. Inr (m, t, True, storeAddr)))
             else Inr (m, t, False, 0))
            (\<lambda>(m, t, memUpdated, effMemAddr).
          rbind (HandleRd cpu registers rdReg val True) (\<lambda>(cpu, registers).
            Inr ((cpu, registers, m, t), memUpdated, effMemAddr)))))))"

end
