(* ===== verification/CannonAlu.thy ===== *)
theory CannonAlu
  imports CannonExec
begin

text \<open>
  The arithmetic meaning of the instruction helpers of \<open>CannonExec\<close>: sign extension, the
  big-endian sub-word accesses at byte level, HI/LO results of the multiply and divide instructions,
  and the count instructions.
\<close>

section \<open>Sign extension\<close>

lemma SignExtend_signed:
  assumes "0 < n" "n \<le> 64"
  shows "SignExtend dat (of_nat n) = signed_take_bit (n - 1) dat"
proof -
  have u: "unat (of_nat n :: Word) = n" using assms by (intro unat_of_nat_lt) (simp add: le_less_trans)
  have u1: "unat (of_nat n - 1 :: Word) = n - 1"
    using assms unat_of_nat_lt [of "n - 1", where ?'a = 64] by (simp add: of_nat_diff)
  have u2: "unat (of_nat 64 - of_nat n :: Word) = 64 - n"
    using assms unat_of_nat_lt [of "64 - n", where ?'a = 64] by (simp add: of_nat_diff)
  have s: "drop_bit (n - 1) dat AND 1 \<noteq> 0 \<longleftrightarrow> bit dat (n - 1)"
    by (simp add: and_one_eq bit_iff_odd_drop_bit odd_iff_mod_2_eq_one)
  have m: "push_bit k (1 :: Word) - 1 = mask k" for k
    by (simp add: mask_eq_exp_minus_1 push_bit_eq_mult)
  show ?thesis
    unfolding SignExtend_def Let_def arch_consts u u1 u2 s m
  proof (rule bit_word_eqI)
    fix i assume i: "i < LENGTH(64)"
    have p: "bit (push_bit n (mask (64 - n)) :: Word) i \<longleftrightarrow> n \<le> i"
      using i assms by (auto simp: bit_simps)
    have st: "bit (signed_take_bit (n - 1) dat) i \<longleftrightarrow> bit dat (if i < n then i else n - 1)"
    proof -
      have "min i (n - 1) = (if i < n then i else n - 1)" using assms(1) by auto
      then show ?thesis using i by (simp add: bit_signed_take_bit_iff)
    qed
    show "bit (if bit dat (n - 1) then dat AND mask n OR push_bit n (mask (64 - n)) else dat AND mask n) i =
          bit (signed_take_bit (n - 1) dat) i"
      unfolding st using i assms(1) by (auto simp: bit_and_iff bit_or_iff p bit_mask_iff)
  qed
qed

lemma SignExtend_32: "SignExtend w 32 = scast (ucast w :: uint32)"
proof -
  have "SignExtend w 32 = signed_take_bit 31 w" using SignExtend_signed [of 32 w] by simp
  also have "\<dots> = scast (ucast w :: uint32)"
    by (rule bit_word_eqI) (auto simp: bit_simps min_def)
  finally show ?thesis .
qed

section \<open>Sub-words\<close>

text \<open>The index, in the eight big-endian bytes of a memory word, of the naturally aligned sub-word a
  virtual address selects.\<close>

definition sub_index :: "Word \<Rightarrow> nat \<Rightarrow> nat" where
  "sub_index vaddr k = unat vaddr mod 8 div k * k"

lemma calc_sub_word:
  assumes "k \<in> {1, 2, 4, 8}"
  shows "calculateSubWordMaskAndOffset vaddr (of_nat k) =
    (mask (8 * k), of_nat (8 * (8 - k - sub_index vaddr k)), of_nat (8 * k))"
proof -
  have "unat (vaddr AND ExtMask) = unat vaddr mod 8"
    by (simp add: and_ExtMask take_bit_eq_mod unat_mod)
  then have v: "vaddr AND ExtMask = of_nat (unat vaddr mod 8)" by (metis ucast_id of_nat_unat)
  have mid: "vaddr AND (vaddr AND ExtMask AND NOT z) = of_nat (unat vaddr mod 8) AND NOT z" for z
  proof -
    have "vaddr AND (vaddr AND ExtMask AND NOT z) = (vaddr AND ExtMask) AND NOT z"
      by (simp flip: and.assoc)
    then show ?thesis by (simp only: v)
  qed
  have "unat vaddr mod 8 \<in> {0, 1, 2, 3, 4, 5, 6, 7}" by auto
  then show ?thesis
    unfolding calculateSubWordMaskAndOffset_def Let_def mid sub_index_def
    using assms by (elim insertE emptyE) (simp_all add: mask_eq_exp_minus_1)
qed

lemma unat_sub_offset:
  assumes "k \<in> {1, 2, 4, 8}"
  shows "unat (of_nat (8 * (8 - k - sub_index vaddr k)) :: Word) = 8 * (8 - k - sub_index vaddr k)"
  by (intro unat_of_nat_lt) (simp add: le_less_trans [of _ 64])

lemma sub_index_fits:
  assumes "k \<in> {1, 2, 4, 8}"
  shows "sub_index vaddr k + k \<le> 8" "k dvd sub_index vaddr k"
proof -
  have "unat vaddr mod 8 \<in> {0, 1, 2, 3, 4, 5, 6, 7}" by auto
  then show "sub_index vaddr k + k \<le> 8" unfolding sub_index_def
    using assms by (elim insertE emptyE) simp_all
qed (simp add: sub_index_def)

lemma SelectSubWord_take:
  assumes "k \<in> {1, 2, 4, 8}"
  shows "SelectSubWord vaddr w (of_nat k) False = take_bit (8 * k) (drop_bit (8 * (8 - sub_index vaddr k - k)) w)"
proof -
  have "8 - k - sub_index vaddr k = 8 - sub_index vaddr k - k" by simp
  then show ?thesis
    unfolding SelectSubWord_def calc_sub_word [OF assms] Let_def split_conv
    using unat_sub_offset [OF assms, of vaddr] by (simp only: take_bit_eq_mask if_False)
qed

lemma SelectSubWord_bytes:
  assumes "k \<in> {1, 2, 4, 8}"
  shows "SelectSubWord vaddr w (of_nat k) False =
    be_word (go_slice (be_bytes 8 w) (sub_index vaddr k) (sub_index vaddr k + k))"
  unfolding SelectSubWord_take [OF assms] go_slice_be_bytes [OF sub_index_fits(1) [OF assms]]
  by (simp add: be_word_be_bytes_take)

lemma SelectSubWord_signed:
  assumes "k \<in> {1, 2, 4, 8}"
  shows "SelectSubWord vaddr w (of_nat k) True = signed_take_bit (8 * k - 1) (SelectSubWord vaddr w (of_nat k) False)"
proof -
  have "0 < 8 * k" "8 * k \<le> 64" using assms by auto
  then show ?thesis
    unfolding SelectSubWord_def calc_sub_word [OF assms] Let_def split_conv
    by (simp only: if_True if_False SignExtend_signed)
qed

lemma UpdateSubWord_bytes:
  assumes "k \<in> {1, 2, 4, 8}"
  shows "be_bytes 8 (UpdateSubWord vaddr w (of_nat k) v) = overwrite (be_bytes 8 w) (sub_index vaddr k) (be_bytes k v)"
proof -
  define o' where "o' = sub_index vaddr k"
  define s where "s = 8 * (8 - o' - k)"
  define u where "u = push_bit s (mask (8 * k) AND v) OR (NOT (push_bit s (mask (8 * k))) AND w)"
  have fit: "o' + k \<le> 8" unfolding o'_def by (rule sub_index_fits [OF assms])
  have "8 - k - o' = 8 - o' - k" by simp
  then have u: "UpdateSubWord vaddr w (of_nat k) v = u"
    unfolding UpdateSubWord_def calc_sub_word [OF assms] Let_def split_conv u_def s_def o'_def
    using unat_sub_offset [OF assms, of vaddr] by (simp only:)
  have a: "drop_bit (8 * (8 - o')) u = drop_bit (8 * (8 - o')) w"
    using fit by (intro bit_word_eqI) (auto simp: u_def s_def bit_simps dest: bit_imp_le_length)
  have b: "take_bit (8 * k) (drop_bit s u) = take_bit (8 * k) v"
    using fit by (intro bit_word_eqI) (auto simp: u_def s_def bit_simps)
  have c: "take_bit s u = take_bit s w"
    by (rule bit_word_eqI) (auto simp: u_def bit_simps)
  have "be_bytes 8 u = be_bytes o' (drop_bit (8 * (8 - o')) u) @ be_bytes (8 - o') u"
    using fit by (intro be_bytes_split) simp
  also have "be_bytes (8 - o') u = be_bytes k (drop_bit s u) @ be_bytes (8 - o' - k) u"
    using fit unfolding s_def by (intro be_bytes_split) simp
  also have "be_bytes k (drop_bit s u) = be_bytes k v" by (rule be_bytes_cong [OF b])
  also have "be_bytes (8 - o' - k) u = be_bytes (8 - o' - k) w" by (rule be_bytes_cong) (use c s_def in simp)
  finally show ?thesis
    using fit unfolding u a overwrite_def o'_def [symmetric] by (simp add: take_be_bytes drop_be_bytes)
qed

section \<open>Counting leading bits\<close>

lemma bit31_unat: "bit (x :: uint32) 31 \<longleftrightarrow> 2 ^ 31 \<le> unat x"
proof -
  have lt: "unat x < 2 ^ 32" using unsigned_less [of x, where ?'a = nat] by simp
  have "bit x 31 \<longleftrightarrow> bit (unat x) 31" by (simp add: bit_unsigned_iff)
  also have "\<dots> \<longleftrightarrow> odd (unat x div 2 ^ 31)" by (simp add: bit_iff_odd)
  also have "\<dots> \<longleftrightarrow> 2 ^ 31 \<le> unat x"
  proof (cases "2 ^ 31 \<le> unat x")
    case True
    then have "unat x div 2 ^ 31 = 1" using lt by (intro div_nat_eqI) simp_all
    with True show ?thesis by simp
  qed simp
  finally show ?thesis .
qed

lemma lo32_mult: "lo32 (a * b) = lo32 a * lo32 b"
proof transfer
  fix a b :: int
  have "take_bit 32 (take_bit 64 a * take_bit 64 b) = take_bit 32 (take_bit 32 (take_bit 64 a) * take_bit 32 (take_bit 64 b))"
    by (simp only: take_bit_mult)
  also have "\<dots> = take_bit 32 (a * b)" by (simp add: take_bit_take_bit take_bit_mult)
  finally show "take_bit LENGTH(32) (take_bit LENGTH(64) (a * b)) = take_bit LENGTH(32) (take_bit LENGTH(64) a * take_bit LENGTH(64) b)"
    by (simp add: take_bit_take_bit)
qed

lemma not_shift:
  assumes "\<not> bit (x :: uint32) 31"
  shows "unat (NOT (NOT x * 2)) = Suc (2 * unat x)"
proof -
  have lt: "unat x < 2 ^ 31" using assms by (simp add: bit31_unat)
  have "NOT (NOT x * 2) = 2 * x + 1" by (simp add: not_eq_complement)
  also have "\<dots> = of_nat (Suc (2 * unat x))" by simp
  also have "unat (of_nat (Suc (2 * unat x)) :: uint32) = Suc (2 * unat x)"
    using lt by (intro unat_of_nat_lt) simp
  finally show ?thesis .
qed

lemma count_loop_eq: "count_loop rs i = i + of_nat (32 - bit_len (unat (NOT (lo32 rs))))"
proof (induction rs i rule: count_loop.induct)
  case (1 rs i)
  define x where "x = NOT (lo32 rs)"
  show ?case
  proof (cases "bit rs 31")
    case True
    then have b: "\<not> bit x 31" by (simp add: x_def bit_simps)
    have x2: "unat (NOT (lo32 (rs * 2))) = Suc (2 * unat x)"
      using not_shift [OF b] by (simp add: x_def lo32_mult)
    have "unat x < 2 ^ 31" using b by (simp add: bit31_unat)
    then have "bit_len (unat x) \<le> 31" using bit_len_lt_pow [of "unat x" 31] by (cases "unat x = 0") auto
    then have "32 - bit_len (unat x) = Suc (32 - bit_len (Suc (2 * unat x)))" by (simp add: bit_len_double_Suc)
    moreover have "count_loop rs i = count_loop (rs * 2) (i + 1)"
      using True by (simp add: count_loop.simps [of rs] bit31_iff)
    moreover have "count_loop (rs * 2) (i + 1) = i + 1 + of_nat (32 - bit_len (Suc (2 * unat x)))"
      using 1 True x2 by (simp add: bit31_iff)
    ultimately show ?thesis by (simp add: x_def)
  next
    case False
    then have "bit x 31" by (simp add: x_def bit_simps)
    then have "2 ^ 31 \<le> unat x" by (simp only: bit31_unat)
    moreover have "unat x < 2 ^ 32" using unsigned_less [of x, where ?'a = nat] by simp
    ultimately have "bit_len (unat x) = 32" using bit_len_unique [of 31 "unat x"] by simp
    with False show ?thesis by (simp add: count_loop.simps [of rs] bit31_iff x_def)
  qed
qed

section \<open>HI and LO\<close>

lemma sint_halves: "sint (ucast (drop_bit 32 a) :: uint32) * 2 ^ 32 + uint (lo32 a) = sint (a :: Word)"
proof -
  have "sint (ucast (drop_bit 32 a) :: uint32) = drop_bit 32 (sint a)"
    by (rule bit_eqI) (auto simp: bit_simps min_def)
  moreover have "uint (lo32 a) = take_bit 32 (sint a)"
    by (rule bit_eqI) (auto simp: bit_simps min_def)
  ultimately show ?thesis
    using bits_ident [of 32 "sint a"] by (simp add: push_bit_eq_mult)
qed

lemma uint_halves: "uint (ucast (drop_bit 32 a) :: uint32) * 2 ^ 32 + uint (lo32 a) = uint (a :: Word)"
proof -
  have "uint (ucast (drop_bit 32 a) :: uint32) = drop_bit 32 (uint a)"
    by (rule bit_eqI) (auto simp: bit_simps dest: bit_imp_le_length)
  moreover have "uint (lo32 a) = take_bit 32 (uint a)"
    by (rule bit_eqI) (auto simp: bit_simps)
  ultimately show ?thesis
    using bits_ident [of 32 "uint a"] by (simp add: push_bit_eq_mult)
qed

lemma sint_range64: "- (2 ^ 63) \<le> sint (a :: Word)" "sint a < 2 ^ 63"
  using sint_ge [of a] sint_less [of a] by simp_all

lemma sint_range32: "- (2 ^ 31) \<le> sint (a :: uint32)" "sint a < 2 ^ 31"
  using sint_ge [of a] sint_less [of a] by simp_all

lemma sint_of_int: "- (2 ^ 63) \<le> i \<Longrightarrow> i < 2 ^ 63 \<Longrightarrow> sint (word_of_int i :: Word) = i"
  by (simp add: sint_sbintrunc' signed_take_bit_int_eq_self)

lemma sint_mult32: "sint ((scast x :: Word) * scast y) = sint (x :: uint32) * sint (y :: uint32)"
proof -
  have "\<bar>sint x\<bar> \<le> 2 ^ 31" "\<bar>sint y\<bar> \<le> 2 ^ 31" using sint_range32 [of x] sint_range32 [of y] by auto
  then have "\<bar>sint x\<bar> * \<bar>sint y\<bar> \<le> 2 ^ 31 * 2 ^ 31" by (intro mult_mono) auto
  then have "\<bar>sint x * sint y\<bar> \<le> 2 ^ 62" by (simp add: abs_mult)
  moreover have "- (2 ^ 63) \<le> p" "p < 2 ^ 63" if "\<bar>p\<bar> \<le> 2 ^ 62" for p :: int using that by auto
  ultimately have "sint (word_of_int (sint x * sint y) :: Word) = sint x * sint y"
    by (intro sint_of_int)
  then show ?thesis by (simp only: of_int_mult of_int_sint)
qed

lemma uint_mult32: "uint ((ucast x :: Word) * ucast y) = uint (x :: uint32) * uint (y :: uint32)"
proof -
  have b: "0 \<le> uint x" "uint x < 2 ^ 32" "0 \<le> uint y" "uint y < 2 ^ 32"
    using uint_bounded [of x] uint_bounded [of y] by simp_all
  then have "uint x * uint y < 2 ^ 32 * 2 ^ 32" by (intro mult_strict_mono') auto
  then have "(uint x * uint y) mod 2 ^ 64 = uint x * uint y" using b by simp
  then have "uint (word_of_int (uint x * uint y) :: Word) = uint x * uint y"
    by (simp only: uint_word_of_int len_num1 len_num0 len_bit0) simp
  then show ?thesis by (simp only: of_int_mult of_int_uint)
qed

lemma lo32_scast [simp]: "lo32 (scast (x :: uint32)) = x"
proof (rule bit_word_eqI)
  fix n assume "n < LENGTH(32)"
  then have "min n 31 = n" by simp
  then show "bit (lo32 (scast x)) n = bit x n" using \<open>n < _\<close> by (simp add: bit_unsigned_iff bit_signed_iff)
qed

lemma uint_of_sint: "uint (a :: Word) = (if sint a < 0 then sint a + 2 ^ 64 else sint a)"
proof -
  have "uint a = sint a mod 2 ^ 64" using uint_word_of_int [of "sint a", where ?'a = 64] by simp
  also have "\<dots> = (if sint a < 0 then sint a + 2 ^ 64 else sint a)"
  proof (cases "sint a < 0")
    case True
    have "(sint a + 2 ^ 64) mod 2 ^ 64 = sint a + 2 ^ 64"
      using True sint_range64 [of a] by (intro mod_pos_pos_trivial) auto
    with True show ?thesis by simp
  next
    case False
    have "sint a mod 2 ^ 64 = sint a" using False sint_range64 [of a] by (intro mod_pos_pos_trivial) auto
    with False show ?thesis by simp
  qed
  finally show ?thesis .
qed

lemma unat_abs64: "int (unat (abs64 a)) = \<bar>sint a\<bar>"
proof (cases "sint a < 0")
  case True
  have "uint (- a) = (- uint a) mod 2 ^ 64" by (simp add: uint_word_ariths)
  also have "\<dots> = (2 ^ 64 - uint a) mod 2 ^ 64" by simp
  also have "\<dots> = - sint a"
    unfolding uint_of_sint using True sint_range64 [of a] by (simp add: mod_pos_pos_trivial)
  finally show ?thesis using True by (simp add: abs64_def)
next
  case False
  then show ?thesis using uint_of_sint [of a] by (simp add: abs64_def)
qed

lemma uint_le_of_unat: "unat (w :: Word) \<le> n \<Longrightarrow> uint w \<le> int n"
  using of_nat_mono [of "unat w" n, where ?'a = int] by simp

lemma sint_small: "unat (w :: Word) < 2 ^ 63 \<Longrightarrow> sint w = int (unat w)"
  using uint_of_sint [of w] sint_range64 [of w] uint_le_of_unat [of w "2 ^ 63 - 1"] by (simp split: if_splits)

lemma sint_uminus_small: "unat (w :: Word) \<le> 2 ^ 63 \<Longrightarrow> sint (- w) = - int (unat w)"
proof -
  assume "unat w \<le> 2 ^ 63"
  from uint_le_of_unat [OF this] have "- (2 ^ 63) \<le> - uint w" by simp
  moreover have "- uint w < 2 ^ 63" by (rule le_less_trans [of _ 0]) simp_all
  ultimately have "sint (word_of_int (- uint w) :: Word) = - uint w" by (rule sint_of_int)
  then show ?thesis by simp
qed

text \<open>The two's complement negation of a 128-bit product in two words.\<close>

lemma negate_128:
  fixes hi lo :: Word
  assumes "unat hi < 2 ^ 62 \<or> (unat hi = 2 ^ 62 \<and> lo = 0)"
  defines "hi' \<equiv> if NOT lo = 0xFFFFFFFFFFFFFFFF then NOT hi + 1 else NOT hi"
  shows "sint hi' * 2 ^ 64 + uint (NOT lo + 1) = - (int (unat hi) * 2 ^ 64 + int (unat lo))"
proof -
  have neg: "NOT lo + 1 = - lo" "NOT hi + 1 = - hi" "NOT hi = - (hi + 1)" by (simp_all add: not_eq_complement)
  have all1: "NOT lo = 0xFFFFFFFFFFFFFFFF \<longleftrightarrow> lo = 0"
  proof -
    have "(0xFFFFFFFFFFFFFFFF :: Word) = NOT 0" by simp
    then show ?thesis by (metis bit.compl_eq_compl_iff)
  qed
  show ?thesis
  proof (cases "lo = 0")
    case True
    moreover from assms(1) have "unat hi \<le> 2 ^ 63" by auto
    ultimately show ?thesis using sint_uminus_small [of hi] all1 by (simp add: hi'_def neg)
  next
    case False
    then have "unat hi < 2 ^ 62" using assms(1) by simp
    moreover from this have "unat (hi + 1) = unat hi + 1"
    proof -
      assume "unat hi < 2 ^ 62"
      then have "unat (of_nat (unat hi + 1) :: Word) = unat hi + 1" by (intro unat_of_nat_lt) simp
      then show ?thesis by (simp only: of_nat_add of_nat_1 of_nat_unat ucast_id)
    qed
    ultimately have "sint (- (hi + 1)) = - (int (unat hi) + 1)" using sint_uminus_small [of "hi + 1"] by simp
    moreover have "uint (- lo) = 2 ^ 64 - uint lo"
    proof -
      have "0 < uint lo" using False by (metis uint_0_iff uint_ge_0 order_neq_le_trans)
      moreover have "uint lo < 2 ^ 64" using uint_bounded [of lo] by simp
      ultimately have "(2 ^ 64 - uint lo) mod 2 ^ 64 = 2 ^ 64 - uint lo" by (intro mod_pos_pos_trivial) simp_all
      then show ?thesis by (simp add: uint_word_ariths)
    qed
    ultimately show ?thesis using False all1 by (simp add: hi'_def neg)
  qed
qed

lemma unat_lt64: "unat (a :: Word) < 2 ^ 64"
  using unsigned_less [of a, where ?'a = nat] by simp

lemma Mul64_value: "Mul64 a b = (hi, lo) \<Longrightarrow> unat hi * 2 ^ 64 + unat lo = unat a * unat b"
proof -
  assume m: "Mul64 a b = (hi, lo)"
  have "unat a < 2 ^ 64" "unat b < 2 ^ 64" by (rule unat_lt64)+
  then have "unat a * unat b < 2 ^ 64 * 2 ^ 64" by (intro mult_strict_mono') simp_all
  then have "unat a * unat b div 2 ^ 64 < 2 ^ 64" by (simp add: less_mult_imp_div_less)
  then have "unat hi = unat a * unat b div 2 ^ 64"
    using m unat_of_nat_lt [of "unat a * unat b div 2 ^ 64", where ?'a = 64] by (auto simp: Mul64_def)
  moreover have "unat lo = unat a * unat b mod 2 ^ 64"
    using m by (auto simp: Mul64_def unat_word_ariths)
  ultimately show ?thesis by (simp add: div_mult_mod_eq)
qed

lemma dmult_value:
  fixes rs rt :: Word
  defines "P \<equiv> Mul64 (abs64 rs) (abs64 rt)"
  defines "hi \<equiv> fst P" and "lo \<equiv> snd P"
  shows "\<not> ((sint rs < 0) \<noteq> (sint rt < 0)) \<Longrightarrow> sint hi * 2 ^ 64 + uint lo = sint rs * sint rt"
    and "(sint rs < 0) \<noteq> (sint rt < 0) \<Longrightarrow>
      sint (if NOT lo = 0xFFFFFFFFFFFFFFFF then NOT hi + 1 else NOT hi) * 2 ^ 64 + uint (NOT lo + 1) = sint rs * sint rt"
proof -
  define a b where "a = \<bar>sint rs\<bar>" and "b = \<bar>sint rt\<bar>"
  have "int (unat hi * 2 ^ 64 + unat lo) = int (unat (abs64 rs) * unat (abs64 rt))"
    using Mul64_value [of "abs64 rs" "abs64 rt" hi lo] by (simp add: P_def hi_def lo_def)
  then have v: "int (unat hi) * 2 ^ 64 + int (unat lo) = a * b"
    by (simp only: of_nat_add of_nat_mult unat_abs64 a_def b_def) simp
  have ab: "0 \<le> a" "a \<le> 2 ^ 63" "0 \<le> b" "b \<le> 2 ^ 63"
    using sint_range64 [of rs] sint_range64 [of rt] by (auto simp: a_def b_def)
  then have "a * b \<le> 2 ^ 63 * 2 ^ 63" by (intro mult_mono) auto
  with v have le: "uint hi * 2 ^ 64 + uint lo \<le> 2 ^ 62 * 2 ^ 64" by simp
  have small: "unat hi < 2 ^ 62 \<or> (unat hi = 2 ^ 62 \<and> lo = 0)"
  proof -
    have "h \<le> 2 ^ 62" if "h * 2 ^ 64 + l \<le> 2 ^ 62 * 2 ^ 64" "0 \<le> l" for h l :: int using that by simp
    from this [OF le] have "uint hi \<le> 2 ^ 62" by simp
    then have "int (unat hi) \<le> int (2 ^ 62)" by simp
    then have "unat hi \<le> 2 ^ 62" by (simp only: of_nat_le_iff)
    moreover have "lo = 0" if "unat hi = 2 ^ 62"
    proof -
      have "uint hi = 2 ^ 62" using that of_nat_unat [of hi, where ?'a = int] by simp
      then have "uint lo = 0" using le uint_ge_0 [of lo] by (simp add: order_antisym_conv)
      then show ?thesis by (simp only: uint_0_iff)
    qed
    ultimately show ?thesis by fastforce
  qed
  show "sint hi * 2 ^ 64 + uint lo = sint rs * sint rt" if "\<not> ((sint rs < 0) \<noteq> (sint rt < 0))"
  proof -
    have "sint hi = uint hi" using small sint_small [of hi] by auto
    moreover have "a * b = sint rs * sint rt"
      using that by (cases "sint rs < 0") (auto simp: a_def b_def)
    ultimately show ?thesis using v by simp
  qed
  show "sint (if NOT lo = 0xFFFFFFFFFFFFFFFF then NOT hi + 1 else NOT hi) * 2 ^ 64 + uint (NOT lo + 1) = sint rs * sint rt"
    if "(sint rs < 0) \<noteq> (sint rt < 0)"
  proof -
    have "- (a * b) = sint rs * sint rt"
      using that by (cases "sint rs < 0") (auto simp: a_def b_def)
    then show ?thesis using negate_128 [OF small] v by simp
  qed
qed

lemma be_word_append:
  "(be_word (xs @ ys) :: 'a::len word) = push_bit (8 * length ys) (be_word xs) OR be_word ys"
proof (induction ys rule: rev_induct)
  case (snoc y ys)
  have "(be_word (xs @ ys @ [y]) :: 'a word) = push_bit 8 (be_word (xs @ ys)) OR ucast y"
    using be_word_snoc [of "xs @ ys" y] by simp
  also have "\<dots> = push_bit 8 (push_bit (8 * length ys) (be_word xs) OR be_word ys) OR ucast y" by (simp only: snoc)
  finally show ?case by (simp add: push_bit_or or.assoc add.commute)
qed simp

lemma lo32_ucast [simp]: "lo32 (ucast (x :: uint32)) = x"
  by (rule bit_word_eqI) (auto simp: bit_simps)

lemma smod_props:
  fixes a b :: int
  assumes "b \<noteq> 0"
  shows "\<bar>a smod b\<bar> < \<bar>b\<bar>" "a smod b = 0 \<or> sgn (a smod b) = sgn a"
proof -
  have m: "0 \<le> \<bar>a\<bar> mod \<bar>b\<bar>" "\<bar>a\<bar> mod \<bar>b\<bar> < \<bar>b\<bar>" using assms by simp_all
  have "\<bar>sgn a\<bar> \<le> 1" by (simp add: sgn_if)
  then have "\<bar>sgn a\<bar> * (\<bar>a\<bar> mod \<bar>b\<bar>) \<le> 1 * (\<bar>a\<bar> mod \<bar>b\<bar>)" using m(1) by (rule mult_right_mono)
  with m show "\<bar>a smod b\<bar> < \<bar>b\<bar>" by (simp add: signed_modulo_int_def abs_mult)
  show "a smod b = 0 \<or> sgn (a smod b) = sgn a"
    using m(1) by (auto simp: signed_modulo_int_def sgn_mult sgn_if)
qed

lemma sdiv_range:
  fixes a b n :: int
  assumes "b \<noteq> 0" "- n \<le> a" "a < n" "\<not> (a = - n \<and> b = - 1)"
  shows "- n \<le> a sdiv b" "a sdiv b < n"
proof -
  define d where "d = \<bar>a\<bar> div \<bar>b\<bar>"
  have lt: "d < \<bar>a\<bar>" if "b \<noteq> 1" "b \<noteq> - 1" "a \<noteq> 0"
    unfolding d_def using that assms(1) by (intro int_div_less_self) auto
  have d: "0 \<le> d" unfolding d_def using assms(1) by (simp add: pos_imp_zdiv_nonneg_iff)
  have eq: "a sdiv b = sgn a * sgn b * d" by (simp add: signed_divide_int_def d_def)
  consider "a = 0" | "b = 1" | "b = - 1" | "a \<noteq> 0" "b \<noteq> 1" "b \<noteq> - 1" by blast
  then have "- n \<le> a sdiv b \<and> a sdiv b < n"
  proof cases
    case 4
    with lt have "d < \<bar>a\<bar>" by blast
    then have "- \<bar>a\<bar> < a sdiv b" "a sdiv b < \<bar>a\<bar>" using d by (auto simp: eq sgn_if)
    then show ?thesis using assms by auto
  qed (use assms in auto)
  then show "- n \<le> a sdiv b" "a sdiv b < n" by auto
qed

section \<open>Properties\<close>

text \<open>C20: \<open>SignExtend\<close> is sign extension: for every width from 1 to 64 bits its result is the two's
  complement value of the low bits of the argument.\<close>

theorem SignExtend_correct:
  assumes "0 < n" "n \<le> 64"
  shows "sint (SignExtend dat (of_nat n)) = signed_take_bit (n - 1) (uint dat)"
proof -
  have "sint (signed_take_bit (n - 1) dat) = signed_take_bit (n - 1) (uint dat)"
    by (rule bit_eqI) (use assms in \<open>auto simp: bit_simps min_def\<close>)
  then show ?thesis by (simp add: SignExtend_signed [OF assms])
qed

theorem SignExtend_correct_witness: "sint (SignExtend 0xFF 8) = - 1"
  using SignExtend_correct [of 8 "0xFF"] by simp

text \<open>Sub-word loads and stores act on the big-endian bytes of the memory word: a load of 1, 2, 4 or 8
  bytes reads the naturally aligned bytes the address selects, a store replaces exactly those bytes by
  the low bytes of the value, and a load after a store returns the stored low bytes.\<close>

theorem sub_word_bytes:
  assumes "k \<in> {1, 2, 4, 8}"
  shows "SelectSubWord vaddr w (of_nat k) False =
           be_word (go_slice (be_bytes 8 w) (sub_index vaddr k) (sub_index vaddr k + k)) \<and>
         be_bytes 8 (UpdateSubWord vaddr w (of_nat k) v) =
           overwrite (be_bytes 8 w) (sub_index vaddr k) (be_bytes k v) \<and>
         SelectSubWord vaddr (UpdateSubWord vaddr w (of_nat k) v) (of_nat k) False = take_bit (8 * k) v"
proof -
  have "go_slice (overwrite (be_bytes 8 w) (sub_index vaddr k) (be_bytes k v)) (sub_index vaddr k) (sub_index vaddr k + k)
      = be_bytes k v"
    using go_slice_overwrite_same [of "sub_index vaddr k" "be_bytes k v" "be_bytes 8 w"] sub_index_fits(1) [OF assms]
    by simp
  then show ?thesis
    by (simp add: SelectSubWord_bytes [OF assms] UpdateSubWord_bytes [OF assms] be_word_be_bytes_take)
qed

theorem sub_word_bytes_witness:
  "SelectSubWord 6 (UpdateSubWord 6 0x1122334455667788 2 0xABCD) 2 False = 0xABCD"
  using sub_word_bytes [of 2 6 "0x1122334455667788" "0xABCD"] by (simp add: take_bit_eq_mod)

text \<open>The 32-bit multiplications: HI and LO hold the upper and lower half of the full 64-bit signed
  (mult) or unsigned (multu) product of the low register halves, both in sign-extended form.\<close>

theorem mult_correct:
  "(\<exists>cpu'. HandleHiLo cpu registers 0x18 rs rt 0 = Inr (cpu', registers) \<and>
     sint (lo32 (HI cpu')) * 2 ^ 32 + uint (lo32 (LO cpu')) = sint (lo32 rs) * sint (lo32 rt) \<and>
     HI cpu' = scast (lo32 (HI cpu')) \<and> LO cpu' = scast (lo32 (LO cpu'))) \<and>
   (\<exists>cpu'. HandleHiLo cpu registers 0x19 rs rt 0 = Inr (cpu', registers) \<and>
     uint (lo32 (HI cpu')) * 2 ^ 32 + uint (lo32 (LO cpu')) = uint (lo32 rs) * uint (lo32 rt) \<and>
     HI cpu' = scast (lo32 (HI cpu')) \<and> LO cpu' = scast (lo32 (LO cpu')))"
proof
  show "\<exists>cpu'. HandleHiLo cpu registers 0x18 rs rt 0 = Inr (cpu', registers) \<and>
     sint (lo32 (HI cpu')) * 2 ^ 32 + uint (lo32 (LO cpu')) = sint (lo32 rs) * sint (lo32 rt) \<and>
     HI cpu' = scast (lo32 (HI cpu')) \<and> LO cpu' = scast (lo32 (LO cpu'))"
    using sint_halves [of "scast (lo32 rs) * scast (lo32 rt)"] sint_mult32 [of "lo32 rs" "lo32 rt"]
    by (simp add: HandleHiLo_def Let_def advance_def SignExtend_32)
  show "\<exists>cpu'. HandleHiLo cpu registers 0x19 rs rt 0 = Inr (cpu', registers) \<and>
     uint (lo32 (HI cpu')) * 2 ^ 32 + uint (lo32 (LO cpu')) = uint (lo32 rs) * uint (lo32 rt) \<and>
     HI cpu' = scast (lo32 (HI cpu')) \<and> LO cpu' = scast (lo32 (LO cpu'))"
    using uint_halves [of "ucast (lo32 rs) * ucast (lo32 rt)"] uint_mult32 [of "lo32 rs" "lo32 rt"]
    by (simp add: HandleHiLo_def Let_def advance_def SignExtend_32)
qed

text \<open>The 64-bit multiplications: HI and LO together hold the full 128-bit product, signed for dmult
  (the sign handling by absolute values and two-word negation included, the most negative value too)
  and unsigned for dmultu.\<close>

theorem dmult_correct:
  "(\<exists>cpu'. HandleHiLo cpu registers 0x1C rs rt 0 = Inr (cpu', registers) \<and>
     sint (HI cpu') * 2 ^ 64 + uint (LO cpu') = sint rs * sint rt) \<and>
   (\<exists>cpu'. HandleHiLo cpu registers 0x1D rs rt 0 = Inr (cpu', registers) \<and>
     uint (HI cpu') * 2 ^ 64 + uint (LO cpu') = uint rs * uint rt)"
proof
  obtain hi lo where m: "Mul64 (abs64 rs) (abs64 rt) = (hi, lo)" by fastforce
  show "\<exists>cpu'. HandleHiLo cpu registers 0x1C rs rt 0 = Inr (cpu', registers) \<and>
     sint (HI cpu') * 2 ^ 64 + uint (LO cpu') = sint rs * sint rt"
    using dmult_value [of rs rt, unfolded m fst_conv snd_conv]
    by (cases "(sint rs < 0) \<noteq> (sint rt < 0)")
      (simp_all add: HandleHiLo_def m Let_def assertMips64Fun_def advance_def)
  obtain hi' lo' where m': "Mul64 rs rt = (hi', lo')" by fastforce
  have "int (unat hi' * 2 ^ 64 + unat lo') = int (unat rs * unat rt)"
    using Mul64_value [OF m'] by simp
  then have "uint hi' * 2 ^ 64 + uint lo' = uint rs * uint rt"
    by (simp only: of_nat_add of_nat_mult) simp
  then show "\<exists>cpu'. HandleHiLo cpu registers 0x1D rs rt 0 = Inr (cpu', registers) \<and>
     uint (HI cpu') * 2 ^ 64 + uint (LO cpu') = uint rs * uint rt"
    by (simp add: HandleHiLo_def m' Let_def assertMips64Fun_def advance_def)
qed

text \<open>The 64-bit signed division truncates towards zero: with a non-zero divisor, and unless the most
  negative value is divided by -1, LO is the quotient and HI a remainder smaller than the divisor in
  magnitude with the sign of the dividend; dividing by zero panics.\<close>

theorem ddiv_correct:
  assumes "rt \<noteq> 0" "\<not> (sint rs = - (2 ^ 63) \<and> sint rt = - 1)"
  shows "\<exists>cpu'. HandleHiLo cpu registers 0x1E rs rt 0 = Inr (cpu', registers) \<and>
    sint (LO cpu') * sint rt + sint (HI cpu') = sint rs \<and> \<bar>sint (HI cpu')\<bar> < \<bar>sint rt\<bar> \<and>
    (sint (HI cpu') = 0 \<or> sgn (sint (HI cpu')) = sgn (sint rs)) \<and>
    HandleHiLo cpu registers 0x1E rs 0 0 = Inl DivideByZero"
proof -
  have rt: "sint rt \<noteq> 0" using assms(1) by (metis of_int_0 of_int_sint scast_id)
  define q r where "q = sint rs sdiv sint rt" and "r = sint rs smod sint rt"
  have id: "q * sint rt + r = sint rs" unfolding q_def r_def by (rule sdiv_mult_smod_eq)
  have r: "\<bar>r\<bar> < \<bar>sint rt\<bar>" "r = 0 \<or> sgn r = sgn (sint rs)"
    using smod_props [OF rt, of "sint rs"] by (auto simp: r_def)
  have q: "- (2 ^ 63) \<le> q" "q < 2 ^ 63"
    using sdiv_range [OF rt sint_range64 assms(2)] by (simp_all only: q_def)
  have "sint (go_quot rs rt) = q" unfolding go_quot_def q_def [symmetric] using q by (rule sint_of_int)
  moreover have "sint (go_rem rs rt) = r" unfolding go_rem_def r_def [symmetric]
    using r(1) sint_range64 [of rt] by (intro sint_of_int) auto
  ultimately show ?thesis
    using assms(1) id r by (simp add: HandleHiLo_def assertMips64Fun_def advance_def)
qed

theorem ddiv_correct_witness:
  "\<exists>cpu'. HandleHiLo \<lparr>PC = 0, NextPC = 4, LO = 0, HI = 0\<rparr> (replicate 32 0) 0x1E (- 7) 2 0
     = Inr (cpu', replicate 32 0) \<and> sint (LO cpu') * 2 + sint (HI cpu') = - 7 \<and> \<bar>sint (HI cpu')\<bar> < 2"
  using ddiv_correct [of 2 "- 7" "\<lparr>PC = 0, NextPC = 4, LO = 0, HI = 0\<rparr>" "replicate 32 0"] by auto

text \<open>clz and clo terminate on every register value and return the number of leading zeros (ones) of its
  low 32 bits: 32 minus the position of the highest set (clear) bit.\<close>

theorem count_leading_bits:
  "ExecuteMipsInstruction insn 0x1C 0x20 rs rt mem = Inr (of_nat (32 - bit_len (unat (lo32 rs)))) \<and>
   ExecuteMipsInstruction insn 0x1C 0x21 rs rt mem = Inr (of_nat (32 - bit_len (unat (NOT (lo32 rs)))))"
proof -
  have u: "(ucast (of_nat (32 - n) :: uint32) :: Word) = of_nat (32 - n)" for n
  proof -
    have "unat (of_nat (32 - n) :: uint32) = 32 - n" by (intro unat_of_nat_lt) (simp add: le_less_trans [of _ 32])
    then show ?thesis by (metis of_nat_unat)
  qed
  have "NOT (lo32 (NOT rs)) = lo32 rs" by (rule bit_word_eqI) (auto simp: bit_simps)
  then show ?thesis
    by (simp add: ExecuteMipsInstruction_def execLoadStore_def count_loop_eq u del: of_nat_diff)
qed

text \<open>The pair ldl/ldr performs an unaligned 64-bit load: ldl at an unaligned address and then ldr at the
  address plus seven leave in the register the eight bytes from that address on, whatever the register
  held before.\<close>

theorem unaligned_load:
  assumes "unat a mod 8 = k" "0 < k"
  shows "\<exists>x. ExecuteMipsInstruction i1 0x1A f1 a rt w0 = Inr x \<and>
    ExecuteMipsInstruction i2 0x1B f2 (a + 7) x w1 =
      Inr (be_word (drop k (be_bytes 8 w0) @ take k (be_bytes 8 w1)))"
proof -
  have low3: "x AND 7 = of_nat (unat x mod 8)" for x :: Word
  proof -
    have "unat (x AND 7) = unat x mod 8" using and_ExtMask [of x] by (simp add: ExtMask_def take_bit_eq_mod unat_mod)
    then show ?thesis by (metis ucast_id of_nat_unat)
  qed
  have "unat (a + 7) mod 8 = (unat a + 7) mod 8"
    by (simp add: unat_word_ariths mod_mod_cancel)
  also have "\<dots> = (k + 7) mod 8" using assms(1) by (metis mod_add_left_eq)
  finally have a7: "(a + 7) AND 7 = of_nat ((k + 7) mod 8)" by (simp only: low3)
  have k: "a AND 7 = of_nat k" by (simp only: low3 assms(1))
  have v: "be_word (drop k (be_bytes 8 w0) @ take k (be_bytes 8 w1)) =
      push_bit (8 * k) (take_bit (8 * (8 - k)) w0) OR take_bit (8 * k) (drop_bit (8 * (8 - k)) w1)"
    using assms by (simp add: be_word_append drop_be_bytes take_be_bytes be_word_be_bytes_take)
  have "k \<in> {1, 2, 3, 4, 5, 6, 7}" using assms by auto
  then show ?thesis
    unfolding v ExecuteMipsInstruction_def execLoadStore_def Let_def k a7 assertMips64_def
    by (elim insertE emptyE; simp; intro bit_word_eqI; auto simp: bit_simps dest: bit_imp_le_length)
qed

theorem unaligned_load_witness:
  "\<exists>x. ExecuteMipsInstruction 0 0x1A 0 0x1003 0 0x0011223344556677 = Inr x \<and>
     ExecuteMipsInstruction 0 0x1B 0 (0x1003 + 7) x 0x8899AABBCCDDEEFF =
       Inr (be_word (drop 3 (be_bytes 8 (0x0011223344556677 :: Word)) @ take 3 (be_bytes 8 (0x8899AABBCCDDEEFF :: Word))))"
  by (rule unaligned_load) simp_all

end
