(* ===== verification/CannonSyscalls.thy ===== *)
theory CannonSyscalls
  imports CannonExec
begin

text \<open>
  The system call helpers of \<^verbatim>\<open>cannon/mipsevm/exec/mips_syscalls.go\<close>, the preimage reader of
  \<^verbatim>\<open>exec/preimage.go\<close> and the memory reader of \<^verbatim>\<open>memory/memory.go\<close> they use. The oracle's
  answers are a parameter \<open>getPreimage\<close>; hints sent to it and bytes written to the standard streams
  are collected in order. \<^verbatim>\<open>io.ReadAll\<close> and \<^verbatim>\<open>io.Copy\<close> call \<^verbatim>\<open>Read\<close> with non-empty
  buffers whose sizes are the library's business: they are a parameter \<open>bufs\<close> (call number to
  buffer size minus one), and the theorems hold for every choice.
\<close>

section \<open>Constants\<close>

definition FdStdin :: Word where "FdStdin = 0"
definition FdStdout :: Word where "FdStdout = 1"
definition FdStderr :: Word where "FdStderr = 2"
definition FdHintRead :: Word where "FdHintRead = 3"
definition FdHintWrite :: Word where "FdHintWrite = 4"
definition FdPreimageRead :: Word where "FdPreimageRead = 5"
definition FdPreimageWrite :: Word where "FdPreimageWrite = 6"

definition SysErrorSignal :: Word where "SysErrorSignal = NOT 0"
definition MipsEBADF :: Word where "MipsEBADF = 0x9"
definition MipsEINVAL :: Word where "MipsEINVAL = 0x16"
definition MipsEAGAIN :: Word where "MipsEAGAIN = 0xB"

definition FutexWaitPrivate :: Word where "FutexWaitPrivate = 128"
definition FutexWakePrivate :: Word where "FutexWakePrivate = 129"

definition ValidCloneFlags :: Word where
  "ValidCloneFlags = 0x100 OR 0x200 OR 0x400 OR 0x800 OR 0x40000 OR 0x10000"

definition SchedQuantum :: uint64 where "SchedQuantum = 100000"
definition HZ :: uint64 where "HZ = 10000000"
definition ClockGettimeRealtimeFlag :: Word where "ClockGettimeRealtimeFlag = 0"
definition ClockGettimeMonotonicFlag :: Word where "ClockGettimeMonotonicFlag = 1"

lemmas fd_defs = FdStdin_def FdStdout_def FdStderr_def FdHintRead_def FdHintWrite_def
  FdPreimageRead_def FdPreimageWrite_def

section \<open>Arguments and results\<close>

definition GetSyscallArgs :: "Word list \<Rightarrow> Word \<times> Word \<times> Word \<times> Word" where
  "GetSyscallArgs registers =
    (registers ! RegSyscallNum, registers ! RegSyscallParam1, registers ! RegSyscallParam2, registers ! RegSyscallParam3)"

definition HandleSyscallUpdates :: "CpuScalars \<Rightarrow> Word list \<Rightarrow> Word \<Rightarrow> Word \<Rightarrow> CpuScalars \<times> Word list" where
  "HandleSyscallUpdates cpu registers v0 v1 =
    (advance cpu, registers[RegSyscallRet1 := v0, RegSyscallErrno := v1])"

definition HandleSysMmap :: "Word \<Rightarrow> Word \<Rightarrow> Word \<Rightarrow> Word \<times> Word \<times> Word" where
  "HandleSysMmap a0 a1 heap =
    (let sz = (if a1 AND PageAddrMask \<noteq> 0 then a1 + (of_nat PageSize - (a1 AND PageAddrMask)) else a1)
     in if a0 = 0 then
          (let newHeap = heap + sz
           in if HeapEnd < newHeap \<or> newHeap < heap \<or> sz < a1 then (SysErrorSignal, MipsEINVAL, heap)
              else (heap, 0, newHeap))
        else (a0, 0, heap))"

definition HandleSysFcntl :: "Word \<Rightarrow> Word \<Rightarrow> Word \<times> Word" where
  "HandleSysFcntl a0 a1 =
    (if a1 = 1 then
       (if a0 \<in> {FdStdin, FdStdout, FdStderr, FdPreimageRead, FdHintRead, FdPreimageWrite, FdHintWrite} then (0, 0)
        else (NOT 0, MipsEBADF))
     else if a1 = 3 then
       (if a0 \<in> {FdStdin, FdPreimageRead, FdHintRead} then (0, 0)
        else if a0 \<in> {FdStdout, FdStderr, FdPreimageWrite, FdHintWrite} then (1, 0)
        else (NOT 0, MipsEBADF))
     else (NOT 0, MipsEINVAL))"

section \<open>The preimage reader\<close>

record PreimageReader =
  totalPreimageSize :: nat
  numPreimageRequests :: nat
  lastPreimage :: bytes
  lastPreimageKey :: bytes
  lastPreimageOffset :: Word
  hints :: "bytes list"

definition NewTrackingPreimageOracleReader :: PreimageReader where
  "NewTrackingPreimageOracleReader =
    \<lparr>totalPreimageSize = 0, numPreimageRequests = 0, lastPreimage = [], lastPreimageKey = replicate 32 0,
     lastPreimageOffset = 0, hints = []\<rparr>"

definition PreimageReader_Reset :: "PreimageReader \<Rightarrow> PreimageReader" where
  "PreimageReader_Reset p = p\<lparr>lastPreimageOffset := NOT 0\<rparr>"

definition Hint :: "PreimageReader \<Rightarrow> bytes \<Rightarrow> PreimageReader" where
  "Hint p v = p\<lparr>hints := hints p @ [v]\<rparr>"

definition GetPreimage :: "(bytes \<Rightarrow> bytes) \<Rightarrow> PreimageReader \<Rightarrow> bytes \<Rightarrow> bytes \<times> PreimageReader" where
  "GetPreimage getPreimage p k =
    (let p = p\<lparr>numPreimageRequests := numPreimageRequests p + 1\<rparr>;
         preimage = getPreimage k
     in (preimage, p\<lparr>totalPreimageSize := totalPreimageSize p + length preimage\<rparr>))"

definition ReadPreimage ::
    "(bytes \<Rightarrow> bytes) \<Rightarrow> PreimageReader \<Rightarrow> bytes \<Rightarrow> Word \<Rightarrow> fault + (bytes \<times> Word) \<times> PreimageReader" where
  "ReadPreimage getPreimage p key offset =
    (let (preimage, p) =
       (if key \<noteq> lastPreimageKey p then
          (let p = p\<lparr>lastPreimageKey := key\<rparr>;
               (data, p) = GetPreimage getPreimage p key;
               preimage = be_bytes 8 (of_nat (length data) :: uint64) @ data
           in (preimage, p\<lparr>lastPreimage := preimage\<rparr>))
        else (lastPreimage p, p));
       p = p\<lparr>lastPreimageOffset := offset\<rparr>
     in if of_nat (length preimage) \<le> offset then Inl PreimageOffsetOutOfBounds
        else let src = take 32 (drop (unat offset) preimage)
             in Inr ((overwrite (replicate 32 0) 0 src, of_nat (length src)), p))"

section \<open>Reading memory ranges\<close>

text \<open>\<^verbatim>\<open>memReader.Read\<close> into a buffer of the given length: the bytes copied and the reader's new
  position and remaining count; \<open>None\<close> is \<^verbatim>\<open>io.EOF\<close>. A slice whose end lies before its start
  panics, as does the allocation of a buffer of the wrapped length.\<close>

definition read_end :: "Word \<Rightarrow> Word \<Rightarrow> Word" where
  "read_end addr count =
    (let endAddr = addr + count in
     if drop_bit PageAddrSize addr = drop_bit PageAddrSize endAddr then endAddr AND PageAddrMask else of_nat PageSize)"

definition memReader_Read ::
    "Memory \<Rightarrow> Word \<Rightarrow> Word \<Rightarrow> nat \<Rightarrow> fault + (bytes \<times> Word \<times> Word) option \<times> Memory" where
  "memReader_Read m addr count destLen =
    (if count = 0 then Inr (None, m)
     else
       let pageIndex = drop_bit PageAddrSize addr;
           start = addr AND PageAddrMask;
           end = read_end addr count;
           ((p, ok), m) = PageLookup m pageIndex
       in if end < start then Inl SliceOutOfRange
          else rbind
            (if ok then rbind (deref p) (\<lambda>r. Inr (take destLen (go_slice (Data (pageHeap m r)) (unat start) (unat end))))
             else Inr (take destLen (replicate (unat (end - start)) 0)))
            (\<lambda>chunk. let n = of_nat (length chunk) in Inr (Some (chunk, addr + n, count - n), m)))"

lemma unat_plus_cases:
  "unat (a + b :: Word) = unat a + unat b \<or> (2 ^ 64 \<le> unat a + unat b \<and> unat (a + b) = unat a + unat b - 2 ^ 64)"
proof (cases "unat a + unat b < 2 ^ 64")
  case True
  then show ?thesis by (simp add: unat_word_ariths)
next
  case False
  have lt: "unat a + unat b < 2 ^ 64 + 2 ^ 64"
    using unsigned_less [of a, where ?'a = nat] unsigned_less [of b, where ?'a = nat] by simp
  have "unat (a + b) = (unat a + unat b) mod 2 ^ 64" by (simp add: unat_word_ariths)
  also have "\<dots> = (unat a + unat b - 2 ^ 64) mod 2 ^ 64" using False by (simp add: le_mod_geq)
  also have "\<dots> = unat a + unat b - 2 ^ 64" using lt False by simp
  finally show ?thesis using False by simp
qed

text \<open>The stretch one \<^verbatim>\<open>Read\<close> may cover never exceeds the remaining count.\<close>

lemma same_page_span:
  fixes a c e :: nat
  assumes "e = a + c \<or> (2 ^ 64 \<le> a + c \<and> e = a + c - 2 ^ 64)" "e div 4096 = a div 4096"
    "a mod 4096 \<le> e mod 4096" "c < 2 ^ 64"
  shows "e = a + c" "e mod 4096 - a mod 4096 = c"
proof -
  have ae: "a = a div 4096 * 4096 + a mod 4096" "e = e div 4096 * 4096 + e mod 4096" by simp_all
  then have "a \<le> e" using assms(2,3) by linarith
  then show e: "e = a + c" using assms(1,4) by linarith
  show "e mod 4096 - a mod 4096 = c" using ae assms(2,3) e by linarith
qed

lemma other_page_span:
  fixes a c e :: nat
  assumes "e = a + c \<or> (2 ^ 64 \<le> a + c \<and> e = a + c - 2 ^ 64)" "e div 4096 \<noteq> a div 4096" "a < 2 ^ 64"
  shows "4096 - a mod 4096 \<le> c"
proof (rule ccontr)
  assume "\<not> 4096 - a mod 4096 \<le> c"
  then have c: "a mod 4096 + c < 4096" by simp
  have ae: "a = a div 4096 * 4096 + a mod 4096" by simp
  have "a div 4096 < 2 ^ 52" using assms(3) by (simp add: less_mult_imp_div_less)
  then have "a div 4096 * 4096 + 4096 \<le> 2 ^ 64" by simp
  with c ae have "a + c < 2 ^ 64" by linarith
  with assms(1) have "e = a + c" by linarith
  then have "e = a div 4096 * 4096 + (a mod 4096 + c)" using ae by simp
  with c have "e div 4096 = a div 4096" by (metis div_mult_self3 div_less add.commute add_0 zero_neq_numeral)
  with assms(2) show False ..
qed

lemma memReader_Read_bound:
  assumes "memReader_Read m addr count n = Inr (Some (chunk, addr', count'), m')"
  shows "length chunk \<le> unat count" "addr' = addr + of_nat (length chunk)" "count' = count - of_nat (length chunk)"
    "count \<noteq> 0"
proof -
  have u: "unat (x AND PageAddrMask) = unat x mod 4096" "unat (drop_bit 12 x) = unat x div 4096" for x
    by (rule and_PageAddrMask unat_page_index)+
  show "count \<noteq> 0" "addr' = addr + of_nat (length chunk)" "count' = count - of_nat (length chunk)"
    using assms by (auto simp: memReader_Read_def Let_def rbind_Inr_iff split: prod.splits if_splits)
  define e where "e = read_end addr count"
  have "length chunk \<le> unat e - unat (addr AND PageAddrMask) \<and> addr AND PageAddrMask \<le> e"
    using assms unat_sub [of "addr AND PageAddrMask" e]
    by (auto simp: memReader_Read_def Let_def rbind_Inr_iff e_def not_less split: prod.splits if_splits)
  then have le: "length chunk \<le> unat e - unat addr mod 4096" "unat addr mod 4096 \<le> unat e"
    by (simp_all only: word_le_nat_alt u)
  note pc = unat_plus_cases [of addr count]
  note lt = unsigned_less [of addr, where ?'a = nat, simplified] unsigned_less [of count, where ?'a = nat, simplified]
  have eq: "drop_bit 12 addr = drop_bit 12 (addr + count) \<longleftrightarrow> unat (addr + count) div 4096 = unat addr div 4096"
    unfolding word_unat_eq_iff u by auto
  show "length chunk \<le> unat count"
  proof (cases "drop_bit 12 addr = drop_bit 12 (addr + count)")
    case True
    then have "unat e = unat (addr + count) mod 4096" by (simp add: e_def read_end_def u)
    with same_page_span(2) [OF pc] le lt True eq show ?thesis by simp
  next
    case False
    then have "unat e = 4096" by (simp add: e_def read_end_def)
    with other_page_span [OF pc] le(1) lt(1) False eq show ?thesis by simp
  qed
qed


lemma count_decreases:
  assumes "memReader_Read m addr count n = Inr (Some (chunk, addr', count'), m')" "chunk \<noteq> []"
  shows "unat count' = unat count - length chunk" "unat count' < unat count"
proof -
  note b = memReader_Read_bound [OF assms(1)]
  have "unat (of_nat (length chunk) :: Word) = length chunk"
    using b(1) unsigned_less [of count, where ?'a = nat] by (intro unat_of_nat_lt) simp
  moreover from this b(1) have "of_nat (length chunk) \<le> count" by (simp add: word_le_nat_alt)
  ultimately show "unat count' = unat count - length chunk" by (simp add: b(3) unat_sub)
  moreover have "0 < length chunk" using assms(2) by simp
  ultimately show "unat count' < unat count" using b(1) by linarith
qed

text \<open>\<^verbatim>\<open>io.ReadAll\<close>. A reader that returned no byte and no error would make it spin; that
  outcome is \<open>NoProgress\<close>.\<close>

function io_ReadAll :: "(nat \<Rightarrow> nat) \<Rightarrow> nat \<Rightarrow> Memory \<Rightarrow> Word \<Rightarrow> Word \<Rightarrow> fault + bytes \<times> Memory" where
  "io_ReadAll bufs i m addr count =
    rbind (memReader_Read m addr count (Suc (bufs i))) (\<lambda>(r, m).
      case r of None \<Rightarrow> Inr ([], m)
      | Some (chunk, addr', count') \<Rightarrow>
          if chunk = [] then Inl NoProgress
          else rbind (io_ReadAll bufs (Suc i) m addr' count') (\<lambda>(rest, m). Inr (chunk @ rest, m)))"
  by pat_completeness auto
termination
  by (relation "measure (\<lambda>(bufs, i, m, addr, count). unat count)") (auto simp: count_decreases(2))

declare io_ReadAll.simps [simp del]

section \<open>Hints\<close>

lemma word_add4_pos: "\<not> (4 + (n :: uint32) < 4) \<Longrightarrow> 0 < unat (4 + n)"
  by (simp add: word_less_nat_alt)

text \<open>The loop of the hint write: while the buffer holds a complete length-prefixed hint, send it.
  The length is a \<^verbatim>\<open>uint32\<close>, and so is the slice bound \<^verbatim>\<open>4+hintLen\<close>.\<close>

function process_hints :: "PreimageReader \<Rightarrow> bytes \<Rightarrow> fault + bytes \<times> PreimageReader" where
  "process_hints oracle lastHint =
    (if 4 \<le> length lastHint then
       let hintLen = (be_word (take 4 lastHint) :: uint32) in
       if hintLen \<le> of_nat (length (drop 4 lastHint)) then
         (if 4 + hintLen < 4 then Inl SliceOutOfRange
          else let hint = go_slice lastHint 4 (unat (4 + hintLen))
               in process_hints (Hint oracle hint) (drop (unat (4 + hintLen)) lastHint))
       else Inr (lastHint, oracle)
     else Inr (lastHint, oracle))"
  by pat_completeness auto
termination
proof (relation "measure (\<lambda>(oracle, h). length h)", goal_cases)
  case (2 po lastHint hintLen hint)
  then show ?case using word_add4_pos [of hintLen] by (simp add: diff_less)
qed simp

declare process_hints.simps [simp del]

section \<open>Read and write\<close>

definition HandleSysRead ::
    "(bytes \<Rightarrow> bytes) \<Rightarrow> (bytes \<Rightarrow> bytes) \<Rightarrow> Word \<Rightarrow> Word \<Rightarrow> Word \<Rightarrow> bytes \<Rightarrow> Word \<Rightarrow>
     PreimageReader \<Rightarrow> Memory \<Rightarrow> MemoryTracker \<Rightarrow>
     fault + (Word \<times> Word \<times> Word \<times> bool \<times> Word) \<times> PreimageReader \<times> Memory \<times> MemoryTracker" where
  "HandleSysRead keccak getPreimage a0 a1 a2 preimageKey preimageOffset reader m t =
    (if a0 = FdStdin then Inr ((0, 0, preimageOffset, False, 0), reader, m, t)
     else if a0 = FdPreimageRead then
       (let effAddr = a1 AND AddressMask in
        rbind (TrackMemAccess keccak m t effAddr) (\<lambda>(m, t).
        rbind (GetWord m effAddr) (\<lambda>(mem, m).
        rbind (ReadPreimage getPreimage reader preimageKey preimageOffset) (\<lambda>((dat, datLen), reader).
        let alignment = a1 AND ExtMask;
            space = of_nat WordSizeBytes - alignment;
            datLen = (if space < datLen then space else datLen);
            datLen = (if a2 < datLen then a2 else datLen);
            outMem = overwrite (be_bytes WordSizeBytes mem) (unat alignment) (take (unat datLen) dat)
        in rbind (SetWord m effAddr (be_word outMem)) (\<lambda>m.
           Inr ((datLen, 0, preimageOffset + datLen, True, effAddr), reader, m, t))))))
     else if a0 = FdHintRead then Inr ((a2, 0, preimageOffset, False, 0), reader, m, t)
     else Inr ((NOT 0, MipsEBADF, preimageOffset, False, 0), reader, m, t))"

text \<open>The standard streams collect what is written to them. \<^verbatim>\<open>copy(key[:], key[a2:])\<close> moves the
  tail to the front and leaves the rest, then the new bytes overwrite the end.\<close>

definition HandleSysWrite ::
    "(bytes \<Rightarrow> bytes) \<Rightarrow> (nat \<Rightarrow> nat) \<Rightarrow> Word \<Rightarrow> Word \<Rightarrow> Word \<Rightarrow> bytes \<Rightarrow> bytes \<Rightarrow> Word \<Rightarrow>
     PreimageReader \<Rightarrow> Memory \<Rightarrow> MemoryTracker \<Rightarrow> bytes \<Rightarrow> bytes \<Rightarrow>
     fault + (Word \<times> Word \<times> bytes \<times> bytes \<times> Word) \<times> PreimageReader \<times> Memory \<times> MemoryTracker \<times> bytes \<times> bytes" where
  "HandleSysWrite keccak bufs a0 a1 a2 lastHint preimageKey preimageOffset reader m t stdOut stdErr =
    (if a0 = FdStdout then
       rbind (io_ReadAll bufs 0 m a1 a2) (\<lambda>(data, m).
         Inr ((a2, 0, lastHint, preimageKey, preimageOffset), reader, m, t, stdOut @ data, stdErr))
     else if a0 = FdStderr then
       rbind (io_ReadAll bufs 0 m a1 a2) (\<lambda>(data, m).
         Inr ((a2, 0, lastHint, preimageKey, preimageOffset), reader, m, t, stdOut, stdErr @ data))
     else if a0 = FdHintWrite then
       rbind (io_ReadAll bufs 0 m a1 a2) (\<lambda>(hintData, m).
       rbind (process_hints reader (lastHint @ hintData)) (\<lambda>(lastHint, reader).
         Inr ((a2, 0, lastHint, preimageKey, preimageOffset), reader, m, t, stdOut, stdErr)))
     else if a0 = FdPreimageWrite then
       (let effAddr = a1 AND AddressMask in
        rbind (TrackMemAccess keccak m t effAddr) (\<lambda>(m, t).
        rbind (GetWord m effAddr) (\<lambda>(mem, m).
        let alignment = a1 AND ExtMask;
            space = of_nat WordSizeBytes - alignment;
            a2 = (if space < a2 then space else a2);
            key = overwrite preimageKey 0 (drop (unat a2) preimageKey);
            tmp = be_bytes WordSizeBytes mem;
            key = overwrite key (32 - unat a2) (take (unat a2) (drop (unat alignment) tmp))
        in Inr ((a2, 0, lastHint, key, 0), reader, m, t, stdOut, stdErr))))
     else Inr ((NOT 0, MipsEBADF, lastHint, preimageKey, preimageOffset), reader, m, t, stdOut, stdErr))"

section \<open>Bytes of memory\<close>

definition byte_at :: "Memory \<Rightarrow> Word \<Rightarrow> byte" where
  "byte_at m a = (case page_at m (drop_bit 12 a) of None \<Rightarrow> 0 | Some p \<Rightarrow> Data p ! unat (a AND PageAddrMask))"

definition mem_bytes :: "Memory \<Rightarrow> Word \<Rightarrow> nat \<Rightarrow> bytes" where
  "mem_bytes m a n = map (\<lambda>i. byte_at m (a + of_nat i)) [0..<n]"

lemma mem_bytes_append:
  "mem_bytes m a (n + k) = mem_bytes m a n @ mem_bytes m (a + of_nat n) k"
proof -
  have "map (\<lambda>i. byte_at m (a + of_nat i)) [n..<n + k] = map (\<lambda>i. byte_at m (a + of_nat n + of_nat i)) [0..<k]"
    by (rule nth_equalityI) (simp_all add: add.assoc)
  then show ?thesis by (simp add: mem_bytes_def upt_add_eq_append [of 0 n k])
qed

lemma same_pages_byte_at: "same_pages m m' \<Longrightarrow> byte_at m' = byte_at m"
  by (rule ext) (simp add: byte_at_def page_at_def same_pages_def)

lemma same_pages_trans: "same_pages m m' \<Longrightarrow> same_pages m' m'' \<Longrightarrow> same_pages m m''"
  by (simp add: same_pages_def)

text \<open>Within one page, the bytes from an address on are a slice of the page.\<close>

lemma byte_in_page:
  assumes "unat a mod 4096 + i < 4096"
  shows "drop_bit 12 (a + of_nat i) = drop_bit 12 a" "unat ((a + of_nat i) AND PageAddrMask) = unat a mod 4096 + i"
proof -
  define x where "x = unat a"
  have lt: "x < 2 ^ 64" unfolding x_def using unsigned_less [of a, where ?'a = nat] by simp
  have split: "x = x div 4096 * 4096 + x mod 4096" by simp
  have "x div 4096 < 2 ^ 52" using lt by (simp add: less_mult_imp_div_less)
  then have "x div 4096 * 4096 + 4096 \<le> 2 ^ 64" by simp
  with assms split have sm: "x + i < 2 ^ 64" unfolding x_def by linarith
  have "a + of_nat i = of_nat (x + i)" by (simp add: x_def)
  then have u: "unat (a + of_nat i) = x + i" using unat_of_nat_lt [of "x + i", where ?'a = 64] sm by simp
  have e: "x + i = x div 4096 * 4096 + (x mod 4096 + i)" using split by simp
  have d: "(x + i) div 4096 = x div 4096" "(x + i) mod 4096 = x mod 4096 + i"
  proof -
    have qr: "(q * 4096 + r) div 4096 = q" "(q * 4096 + r) mod 4096 = r" if "r < 4096" for q r :: nat
      using that by simp_all
    show "(x + i) div 4096 = x div 4096" "(x + i) mod 4096 = x mod 4096 + i"
      using qr [of "x mod 4096 + i" "x div 4096"] assms e by (simp_all only: x_def)
  qed
  show "drop_bit 12 (a + of_nat i) = drop_bit 12 a"
    unfolding word_unat_eq_iff unat_page_index u using d(1) by (simp add: x_def)
  show "unat ((a + of_nat i) AND PageAddrMask) = unat a mod 4096 + i"
    unfolding and_PageAddrMask u using d(2) by (simp add: x_def)
qed

lemma mem_bytes_page:
  assumes "mem_wf m" "unat a mod 4096 + n \<le> 4096"
  shows "mem_bytes m a n = (case map_of (pageTable m) (drop_bit 12 a) of
      None \<Rightarrow> replicate n 0
    | Some r \<Rightarrow> go_slice (Data (pageHeap m r)) (unat a mod 4096) (unat a mod 4096 + n))"
proof (rule nth_equalityI)
  show "length (mem_bytes m a n) = length (case map_of (pageTable m) (drop_bit 12 a) of
      None \<Rightarrow> replicate n 0
    | Some r \<Rightarrow> go_slice (Data (pageHeap m r)) (unat a mod 4096) (unat a mod 4096 + n))"
    using assms mem_wf_page [OF assms(1)] by (auto simp: mem_bytes_def page_wf_def split: option.splits)
  fix i assume "i < length (mem_bytes m a n)"
  then have i: "i < n" by (simp add: mem_bytes_def)
  then have b: "unat a mod 4096 + i < 4096" using assms(2) by simp
  show "mem_bytes m a n ! i = (case map_of (pageTable m) (drop_bit 12 a) of
      None \<Rightarrow> replicate n 0
    | Some r \<Rightarrow> go_slice (Data (pageHeap m r)) (unat a mod 4096) (unat a mod 4096 + n)) ! i"
    using i b mem_wf_page [OF assms(1)] byte_in_page [OF b]
    by (auto simp: mem_bytes_def byte_at_def page_at_def nth_go_slice page_wf_def split: option.splits)
qed

text \<open>The slice is well-formed unless the range wraps around into its own first page.\<close>

definition range_ok :: "Word \<Rightarrow> Word \<Rightarrow> bool" where
  "range_ok addr count \<longleftrightarrow> \<not> read_end addr count < addr AND PageAddrMask"

lemma range_ok_small:
  assumes "unat count + 4096 \<le> 2 ^ 64"
  shows "range_ok addr count"
proof -
  define a e where "a = unat addr" and "e = unat (addr + count)"
  note pc = unat_plus_cases [of addr count, folded a_def e_def]
  have eq: "drop_bit 12 addr = drop_bit 12 (addr + count) \<longleftrightarrow> a div 4096 = e div 4096"
    unfolding word_unat_eq_iff unat_page_index a_def e_def by auto
  have "a mod 4096 \<le> e mod 4096" if "a div 4096 = e div 4096"
  proof -
    have ae: "a = a div 4096 * 4096 + a mod 4096" "e = e div 4096 * 4096 + e mod 4096" "a mod 4096 < 4096" by simp_all
    have "\<not> e + 4096 \<le> a" using ae that by linarith
    then have "a \<le> e" using pc assms by linarith
    with ae that show ?thesis by linarith
  qed
  then show ?thesis using eq
    by (auto simp: range_ok_def read_end_def word_less_nat_alt and_PageAddrMask a_def e_def less_imp_le)
qed

lemma read_end_bounds:
  assumes "count \<noteq> 0" "range_ok addr count"
  shows "unat addr mod 4096 < unat (read_end addr count)" "unat (read_end addr count) \<le> 4096"
proof -
  define a e where "a = unat addr" and "e = unat (addr + count)"
  note pc = unat_plus_cases [of addr count, folded a_def e_def]
  have c: "0 < unat count" using assms(1) by (simp add: unat_gt_0)
  have lt: "unat count < 2 ^ 64" using unsigned_less [of count, where ?'a = nat] by simp
  have eq: "drop_bit 12 addr = drop_bit 12 (addr + count) \<longleftrightarrow> a div 4096 = e div 4096"
    unfolding word_unat_eq_iff unat_page_index a_def e_def by auto
  have "a mod 4096 < e mod 4096" if "a div 4096 = e div 4096"
  proof -
    have le: "a mod 4096 \<le> e mod 4096"
      using assms(2) that eq by (simp add: range_ok_def read_end_def word_less_nat_alt and_PageAddrMask a_def e_def)
    have ae: "a = a div 4096 * 4096 + a mod 4096" "e = e div 4096 * 4096 + e mod 4096" by simp_all
    have "e \<noteq> a" using pc c lt by linarith
    with ae that le show ?thesis by (metis le_neq_implies_less)
  qed
  then show "unat addr mod 4096 < unat (read_end addr count)" "unat (read_end addr count) \<le> 4096"
    using eq by (auto simp: read_end_def and_PageAddrMask a_def [symmetric] e_def [symmetric] less_imp_le)
qed

lemma memReader_Read_correct:
  assumes "mem_wf m" "count \<noteq> 0" "range_ok addr count"
  obtains n m' where
    "memReader_Read m addr count (Suc k) = Inr (Some (mem_bytes m addr n, addr + of_nat n, count - of_nat n), m')"
    "0 < n" "n \<le> unat count" "mem_wf m'" "same_pages m m'"
    "n = min (Suc k) (unat (read_end addr count) - unat addr mod 4096)"
proof -
  note re = read_end_bounds [OF assms(2,3)]
  define s e where "s = unat addr mod 4096" and "e = unat (read_end addr count)"
  obtain m' where lk: "PageLookup m (drop_bit 12 addr) =
      ((map_of (pageTable m) (drop_bit 12 addr), map_of (pageTable m) (drop_bit 12 addr) \<noteq> None), m')"
    and m': "mem_wf m'" "same_pages m m'"
    using PageLookup_correct [OF assms(1) page_index_not_max] by metis
  have nl: "\<not> read_end addr count < addr AND PageAddrMask"
    using re(1) by (simp add: word_less_nat_alt and_PageAddrMask)
  define n where "n = min (Suc k) (e - s)"
  have n: "0 < n" "s + n \<le> 4096" using re by (auto simp: n_def s_def e_def)
  have us: "unat (read_end addr count - (addr AND PageAddrMask)) = e - s"
    using nl by (simp add: unat_sub not_less and_PageAddrMask e_def s_def)
  define chunk where "chunk = take (Suc k) (case map_of (pageTable m) (drop_bit 12 addr) of
      None \<Rightarrow> replicate (e - s) 0 | Some r \<Rightarrow> go_slice (Data (pageHeap m r)) s e)"
  have "chunk = mem_bytes m addr n"
    unfolding mem_bytes_page [OF assms(1) n(2) [unfolded s_def]] s_def [symmetric] chunk_def
    by (auto simp: go_slice_def n_def min_def split: option.splits)
  moreover have "memReader_Read m addr count (Suc k) =
      Inr (Some (chunk, addr + of_nat (length chunk), count - of_nat (length chunk)), m')"
    using assms(2) nl lk m'(2) us
    by (auto simp: memReader_Read_def Let_def deref_def and_PageAddrMask s_def e_def same_pages_def chunk_def
        min.commute split: option.splits)
  ultimately have "memReader_Read m addr count (Suc k) =
      Inr (Some (mem_bytes m addr n, addr + of_nat n, count - of_nat n), m')"
    by (simp add: mem_bytes_def)
  moreover from this have "n \<le> unat count"
    using memReader_Read_bound(1) by (fastforce simp: mem_bytes_def)
  ultimately show thesis using that n(1) m' n_def s_def e_def by blast
qed

lemma io_ReadAll_correct:
  assumes "mem_wf m" "unat count + 4096 \<le> 2 ^ 64"
  shows "\<exists>m'. io_ReadAll bufs i m addr count = Inr (mem_bytes m addr (unat count), m') \<and> mem_wf m' \<and> same_pages m m'"
  using assms
proof (induction bufs i m addr count rule: io_ReadAll.induct)
  case (1 bufs i m addr count)
  note eq = io_ReadAll.simps [of bufs i m addr count]
  show ?case
  proof (cases "count = 0")
    case True
    then show ?thesis unfolding eq using "1.prems" by (simp add: memReader_Read_def mem_bytes_def)
  next
    case False
    obtain n m1 where r: "memReader_Read m addr count (Suc (bufs i)) =
        Inr (Some (mem_bytes m addr n, addr + of_nat n, count - of_nat n), m1)"
      and n: "0 < n" "n \<le> unat count" and m1: "mem_wf m1" "same_pages m m1"
      using memReader_Read_correct [OF "1.prems"(1) False range_ok_small [OF "1.prems"(2)]] by metis
    have ne: "mem_bytes m addr n \<noteq> []" using n by (simp add: mem_bytes_def)
    have c: "unat (count - of_nat n) = unat count - n"
      using count_decreases(1) [OF r ne] by (simp add: mem_bytes_def)
    obtain m2 where m2: "io_ReadAll bufs (Suc i) m1 (addr + of_nat n) (count - of_nat n) =
        Inr (mem_bytes m1 (addr + of_nat n) (unat count - n), m2)" "mem_wf m2" "same_pages m1 m2"
    proof -
      have "unat (count - of_nat n) + 4096 \<le> 2 ^ 64" using c "1.prems"(2) by linarith
      from "1.IH" [OF r refl refl refl refl ne m1(1) this] show thesis using that unfolding c by blast
    qed
    have "mem_bytes m addr n @ mem_bytes m1 (addr + of_nat n) (unat count - n) = mem_bytes m addr (unat count)"
      using mem_bytes_append [of m addr n "unat count - n"] n(2) same_pages_byte_at [OF m1(2)]
      by (simp add: mem_bytes_def)
    then show ?thesis using r ne m2 same_pages_trans [OF m1(2) m2(3)] by (simp add: eq)
  qed
qed

section \<open>Heap growth\<close>

definition mmap_size :: "Word \<Rightarrow> Word" where
  "mmap_size a1 = (if a1 AND PageAddrMask \<noteq> 0 then a1 + (of_nat PageSize - (a1 AND PageAddrMask)) else a1)"

lemma no_wrap: "\<not> (a + b :: Word) < a \<Longrightarrow> unat (a + b) = unat a + unat b"
  using unat_plus_cases [of a b] unsigned_less [of b, where ?'a = nat] by (auto simp: word_less_nat_alt)

lemma mmap_size_bounds:
  assumes "\<not> mmap_size a1 < a1"
  shows "unat a1 \<le> unat (mmap_size a1)" "unat (mmap_size a1) < unat a1 + 4096" "unat (mmap_size a1) mod 4096 = 0"
proof -
  define x where "x = unat a1"
  show "unat a1 \<le> unat (mmap_size a1)" using assms by (simp add: word_less_nat_alt)
  have "x \<le> unat (mmap_size a1) \<and> unat (mmap_size a1) < x + 4096 \<and> unat (mmap_size a1) mod 4096 = 0"
  proof (cases "a1 AND PageAddrMask = 0")
    case True
    then have "x mod 4096 = 0" using and_PageAddrMask [of a1] by (simp add: x_def)
    with True show ?thesis by (simp add: mmap_size_def x_def)
  next
    case False
    have "a1 AND PageAddrMask \<le> 4096" using page_addr_lt [of a1] by (rule less_imp_le)
    then have d: "unat (4096 - (a1 AND PageAddrMask)) = 4096 - x mod 4096"
      by (simp add: unat_sub and_PageAddrMask x_def)
    have "unat (mmap_size a1) = x + (4096 - x mod 4096)"
      using assms False no_wrap [of a1 "4096 - (a1 AND PageAddrMask)"] by (simp add: mmap_size_def d x_def)
    moreover have "0 < x mod 4096"
      using False and_PageAddrMask [of a1] by (metis gr0I unat_eq_zero x_def)
    moreover have key: "x \<le> x + (4096 - r) \<and> x + (4096 - r) < x + 4096 \<and> (x + (4096 - r)) mod 4096 = 0"
      if "x = q * 4096 + r" "r < 4096" "0 < r" for q r :: nat
    proof -
      have "x + (4096 - r) = (q + 1) * 4096" using that by simp
      then show ?thesis using that by simp
    qed
    ultimately show ?thesis using key [OF div_mult_mod_eq [of x 4096, symmetric]] by simp
  qed
  then show "unat (mmap_size a1) < unat a1 + 4096" "unat (mmap_size a1) mod 4096 = 0" by (auto simp: x_def)
qed

section \<open>Hint framing\<close>

text \<open>One hint as the guest writes it: a 4-byte big-endian length, then the bytes.\<close>

definition frame_hint :: "bytes \<Rightarrow> bytes" where
  "frame_hint h = be_bytes 4 (of_nat (length h) :: uint32) @ h"

definition incomplete :: "bytes \<Rightarrow> bool" where
  "incomplete b \<longleftrightarrow> length b < 4 \<or> length b - 4 < unat (be_word (take 4 b) :: uint32)"

lemma process_incomplete:
  assumes "incomplete b" "length b < 2 ^ 32"
  shows "process_hints po b = Inr (b, po)"
proof (cases "4 \<le> length b")
  case True
  then have "unat (of_nat (length b - 4) :: uint32) = length b - 4" using assms(2) by (intro unat_of_nat_lt) simp
  with True assms(1) have "\<not> (be_word (take 4 b) :: uint32) \<le> of_nat (length b - 4)"
    by (simp add: incomplete_def word_le_nat_alt)
  with True show ?thesis by (subst process_hints.simps) (simp only: Let_def length_drop if_False if_True)
qed (simp add: process_hints.simps)

lemma process_frame:
  assumes "length h + length rest + 4 < 2 ^ 32"
  shows "process_hints po (frame_hint h @ rest) = process_hints (Hint po h) rest"
proof -
  define n where "n = length h"
  have n: "n + length rest + 4 < 2 ^ 32" using assms by (simp add: n_def)
  have u: "unat (of_nat n :: uint32) = n" "unat (of_nat (n + length rest) :: uint32) = n + length rest"
    "unat (of_nat (4 + n) :: uint32) = 4 + n"
    using n by (simp_all add: unat_of_nat_lt del: of_nat_add)
  have len: "be_word (take 4 (frame_hint h @ rest)) = (of_nat n :: uint32)"
    by (simp add: frame_hint_def n_def)
  have d: "length (drop 4 (frame_hint h @ rest)) = n + length rest" by (simp add: frame_hint_def n_def)
  have le: "(of_nat n :: uint32) \<le> of_nat (n + length rest)" using u by (simp only: word_le_nat_alt)
  have add: "(4 :: uint32) + of_nat n = of_nat (4 + n)" by simp
  have nw: "\<not> (of_nat (4 + n) :: uint32) < 4" using u(3) by (simp only: word_less_nat_alt) simp
  have "go_slice (frame_hint h @ rest) 4 (4 + n) = h" "drop (4 + n) (frame_hint h @ rest) = rest"
    by (simp_all add: go_slice_def frame_hint_def n_def)
  moreover have "4 \<le> length (frame_hint h @ rest)" by (simp add: frame_hint_def)
  ultimately show ?thesis
    by (subst process_hints.simps) (simp only: Let_def len d le add nw u(3) if_True if_False)
qed

lemma hints_Hint: "hints (Hint po h) = hints po @ [h]"
  by (simp add: Hint_def)

lemma process_frames:
  "sum_list (map (\<lambda>h. length h + 4) hs) + length rest < 2 ^ 32 \<Longrightarrow>
   process_hints po (concat (map frame_hint hs) @ rest) = process_hints (foldl Hint po hs) rest"
proof (induction hs arbitrary: po)
  case (Cons h hs)
  have l: "length (concat (map frame_hint hs)) = sum_list (map (\<lambda>h. length h + 4) hs)" for hs
    by (induction hs) (simp_all add: frame_hint_def)
  have "process_hints po (frame_hint h @ (concat (map frame_hint hs) @ rest)) =
      process_hints (Hint po h) (concat (map frame_hint hs) @ rest)"
    using Cons.prems by (intro process_frame) (simp add: l)
  with Cons show ?case by simp
qed simp

lemma foldl_Hint: "foldl Hint po hs = po\<lparr>hints := hints po @ hs\<rparr>"
  by (induction hs arbitrary: po) (simp_all add: Hint_def)

section \<open>Properties\<close>

text \<open>Reading a range of guest memory (for standard output, standard error and hints) returns exactly the
  bytes of the range, across page boundaries, unallocated pages and the wrap-around of the address space,
  for every sequence of buffer sizes the reader is called with; it leaves the memory contents alone.\<close>

theorem ReadMemoryRange_exact:
  assumes "mem_wf m" "unat count + 4096 \<le> 2 ^ 64"
  shows "\<exists>m'. io_ReadAll bufs i m addr count = Inr (map (\<lambda>k. byte_at m (addr + of_nat k)) [0..<unat count], m') \<and>
    mem_wf m' \<and> byte_at m' = byte_at m"
  using io_ReadAll_correct [OF assms, of bufs i addr] same_pages_byte_at unfolding mem_bytes_def by blast

theorem ReadMemoryRange_exact_witness:
  "\<exists>m'. io_ReadAll (\<lambda>_. 511) 0 NewMemory 0xFFFFFFFFFFFFFFFE 6 =
     Inr (map (\<lambda>k. byte_at NewMemory (0xFFFFFFFFFFFFFFFE + of_nat k)) [0..<unat (6 :: Word)], m') \<and>
     mem_wf m' \<and> byte_at m' = byte_at NewMemory"
  by (rule ReadMemoryRange_exact [OF mem_wf_NewMemory]) simp

text \<open>A read of a range that wraps around the whole address space back into its first page panics: with
  the end of the range before its start inside one page, the slice bounds are inverted, although the
  reader's comment says that ranges may wrap.\<close>

theorem memReader_wrap_panics:
  assumes "count \<noteq> 0" "drop_bit 12 addr = drop_bit 12 (addr + count)" "addr + count < addr"
  shows "memReader_Read m addr count n = Inl SliceOutOfRange"
proof -
  have "unat (addr + count) = unat (addr + count) div 4096 * 4096 + unat (addr + count) mod 4096"
    "unat addr = unat addr div 4096 * 4096 + unat addr mod 4096" by simp_all
  moreover have "unat (addr + count) div 4096 = unat addr div 4096"
    using arg_cong [OF assms(2), of unat] by (simp add: unat_page_index)
  ultimately have "unat (addr + count) mod 4096 < unat addr mod 4096"
    using assms(3) unfolding word_less_nat_alt by linarith
  then have "read_end addr count < addr AND PageAddrMask"
    using assms(2) by (simp add: read_end_def word_less_nat_alt and_PageAddrMask)
  with assms(1) show ?thesis by (simp add: memReader_Read_def Let_def split: prod.split)
qed

theorem memReader_wrap_panics_witness:
  "memReader_Read NewMemory 0x1008 (- 8) 512 = Inl SliceOutOfRange"
  by (rule memReader_wrap_panics) simp_all

text \<open>Hints survive fragmentation: when the guest has written any sequence of length-prefixed hints
  followed by an incomplete one, the oracle has received exactly the complete hints, in order, and the
  incomplete rest is what stays buffered for the next write.\<close>

theorem hint_framing:
  assumes "sum_list (map (\<lambda>h. length h + 4) hs) + length rest < 2 ^ 32" "incomplete rest"
  shows "process_hints po (concat (map frame_hint hs) @ rest) = Inr (rest, po\<lparr>hints := hints po @ hs\<rparr>)"
  using process_frames [OF assms(1)] process_incomplete [OF assms(2)] assms(1) by (simp add: foldl_Hint)

theorem hint_framing_witness:
  "process_hints NewTrackingPreimageOracleReader (concat (map frame_hint [[1, 2, 3], []]) @ [0, 0]) =
   Inr ([0, 0], NewTrackingPreimageOracleReader\<lparr>hints := [[1, 2, 3], []]\<rparr>)"
  using hint_framing [of "[[1, 2, 3], []]" "[0, 0]" NewTrackingPreimageOracleReader]
  by (simp add: incomplete_def NewTrackingPreimageOracleReader_def)

text \<open>The size that mmap reserves, as a number: the request rounded up to whole pages; the 64-bit computation wraps exactly when this number does not fit.\<close>

lemma round_up_eq:
  assumes "x mod 4096 \<noteq> (0 :: nat)"
  shows "x + (4096 - x mod 4096) = (x + 4095) div 4096 * 4096"
proof -
  obtain q r where x: "x = q * 4096 + r" "r = x mod 4096" "r < 4096" using div_mult_mod_eq [of x 4096] by (metis mod_less_divisor zero_less_numeral)
  then have r: "0 < r" using assms by simp
  have "(x + 4095) div 4096 = Suc q" using x(1,3) r by (intro div_nat_eqI) simp_all
  then show ?thesis unfolding x(2) [symmetric] using x(1,3) by simp
qed

lemma mmap_size_pages:
  "if mmap_size a1 < a1 then 2 ^ 64 \<le> (unat a1 + 4095) div 4096 * 4096 else unat (mmap_size a1) = (unat a1 + 4095) div 4096 * 4096"
proof (cases "mmap_size a1 < a1")
  case True
  then have nz: "a1 AND PageAddrMask \<noteq> 0" "a1 + (4096 - (a1 AND PageAddrMask)) < a1" by (auto simp: mmap_size_def split: if_splits)
  have "unat (4096 - (a1 AND PageAddrMask)) = 4096 - unat a1 mod 4096"
    using page_addr_lt [of a1] by (simp add: unat_sub and_PageAddrMask less_imp_le)
  then have w: "2 ^ 64 \<le> unat a1 + (4096 - unat a1 mod 4096)"
    using nz(2) unat_add_lem [of a1 "4096 - (a1 AND PageAddrMask)"] by (auto simp: word_less_nat_alt)
  have "unat a1 mod 4096 \<noteq> 0" using nz(1) and_PageAddrMask [of a1] by (metis unat_eq_zero)
  then have "unat a1 + (4096 - unat a1 mod 4096) = (unat a1 + 4095) div 4096 * 4096"
    by (rule round_up_eq)
  then show ?thesis using True w by simp
next
  case False
  note b = mmap_size_bounds [OF False]
  obtain q where q: "unat (mmap_size a1) = q * 4096" using b(3) by (auto simp: mod_eq_0_iff_dvd elim: dvdE)
  have "(unat a1 + 4095) div 4096 = q" using b(1,2) unfolding q by (intro div_nat_eqI) simp_all
  then show ?thesis using False q by simp
qed

text \<open>C35: What mmap does, for every request and in exact numbers. A mapping at a fixed address returns that address and leaves the heap alone. An anonymous
  mapping whose size, rounded up to whole pages, fits below the heap limit returns the old heap pointer and moves the heap pointer up by exactly this size; any other one, also when
  the 64-bit sums of the code wrap around, fails with EINVAL and leaves the heap alone.\<close>

theorem mmap_bounds:
  assumes "HandleSysMmap a0 a1 heap = (v0, v1, newHeap)" and "sz = (unat a1 + 4095) div 4096 * 4096"
  shows "if a0 \<noteq> 0 then v0 = a0 \<and> v1 = 0 \<and> newHeap = heap
    else if unat heap + sz \<le> unat HeapEnd then v0 = heap \<and> v1 = 0 \<and> unat newHeap = unat heap + sz
    else v0 = NOT 0 \<and> v1 = MipsEINVAL \<and> newHeap = heap"
proof (cases "a0 = 0")
  case True
  let ?fail = "HeapEnd < heap + mmap_size a1 \<or> heap + mmap_size a1 < heap \<or> mmap_size a1 < a1"
  have run: "(v0, v1, newHeap) = (if ?fail then (SysErrorSignal, MipsEINVAL, heap) else (heap, 0, heap + mmap_size a1))"
    using assms(1) True unfolding HandleSysMmap_def Let_def mmap_size_def [symmetric] by simp
  have "unat HeapEnd < 2 ^ 64" using unsigned_less [of HeapEnd, where ?'a = nat] by simp
  then have "?fail \<longleftrightarrow> \<not> unat heap + sz \<le> unat HeapEnd" and ok: "\<not> ?fail \<Longrightarrow> unat (heap + mmap_size a1) = unat heap + sz"
    using mmap_size_pages [of a1] no_wrap [of heap "mmap_size a1"] unat_add_lem [of heap "mmap_size a1"] unfolding assms(2) [symmetric]
    by (auto simp: word_less_nat_alt not_less split: if_splits)
  then show ?thesis using run True by (auto simp: SysErrorSignal_def split: if_splits)
next
  case False
  then show ?thesis using assms(1) by (simp add: HandleSysMmap_def Let_def)
qed

theorem mmap_bounds_witness:
  "HandleSysMmap 0 5000 HeapStart = (HeapStart, 0, HeapStart + 8192) \<and> unat (HeapStart + 8192) = unat HeapStart + 8192"
proof -
  have e: "HandleSysMmap 0 5000 HeapStart = (HeapStart, 0, HeapStart + 8192)"
    by (simp add: HandleSysMmap_def HeapStart_def HeapEnd_def PageAddrMask_def)
  then show ?thesis using mmap_bounds [OF e refl] by (simp add: HeapStart_def HeapEnd_def)
qed

end
