(* ===== verification/CannonState.thy ===== *)
theory CannonState
  imports CannonSyscalls
begin

text \<open>
  The state of the multithreaded VM (\<^verbatim>\<open>cannon/mipsevm/multithreaded/state.go\<close>,
  \<^verbatim>\<open>thread.go\<close>), its witness encoding and state hash (\<^verbatim>\<open>mipsevm/state.go\<close>,
  \<^verbatim>\<open>mipsevm/witness.go\<close>), and its binary serialization with the readers and writers of
  \<^verbatim>\<open>op-service/serialize\<close>. Every thread object sits in exactly one of the two stacks, so stacks are
  lists of thread values and writing through a thread pointer replaces the top of the active stack.
  Writers never fail in the model; a reader is the list of bytes still to come.
\<close>

section \<open>Records\<close>

record ThreadState =
  ThreadId :: Word
  tExitCode :: byte
  tExited :: bool
  Cpu :: CpuScalars
  Registers :: "Word list"

definition LLStatusNone :: byte where "LLStatusNone = 0"
definition LLStatusActive32bit :: byte where "LLStatusActive32bit = 1"
definition LLStatusActive64bit :: byte where "LLStatusActive64bit = 2"

lemmas LLStatus_defs = LLStatusNone_def LLStatusActive32bit_def LLStatusActive64bit_def

record State =
  Mem :: Memory
  PreimageKey :: bytes
  PreimageOffset :: Word
  Heap :: Word
  LLReservationStatus :: byte
  LLAddress :: Word
  LLOwnerThread :: Word
  ExitCode :: byte
  Exited :: bool
  Step :: uint64
  StepsSinceLastContextSwitch :: uint64
  TraverseRight :: bool
  LeftThreadStack :: "ThreadState list"
  RightThreadStack :: "ThreadState list"
  NextThreadId :: Word
  LastHint :: bytes

definition CreateEmptyThread :: ThreadState where
  "CreateEmptyThread =
    \<lparr>ThreadId = 0, tExitCode = 0, tExited = False, Cpu = \<lparr>PC = 0, NextPC = 4, LO = 0, HI = 0\<rparr>,
     Registers = replicate 32 0\<rparr>"

definition CreateEmptyState :: State where
  "CreateEmptyState =
    \<lparr>Mem = NewMemory, PreimageKey = replicate 32 0, PreimageOffset = 0, Heap = 0,
     LLReservationStatus = LLStatusNone, LLAddress = 0, LLOwnerThread = 0, ExitCode = 0, Exited = False,
     Step = 0, StepsSinceLastContextSwitch = 0, TraverseRight = False,
     LeftThreadStack = [CreateEmptyThread], RightThreadStack = [],
     NextThreadId = ThreadId CreateEmptyThread + 1, LastHint = []\<rparr>"

section \<open>The active thread\<close>

definition getActiveThreadStack :: "State \<Rightarrow> ThreadState list" where
  "getActiveThreadStack s = (if TraverseRight s then RightThreadStack s else LeftThreadStack s)"

definition GetCurrentThread :: "State \<Rightarrow> fault + ThreadState" where
  "GetCurrentThread s =
    (let activeStack = getActiveThreadStack s
     in if activeStack = [] then Inl EmptyThreadStack else Inr (last activeStack))"

text \<open>Writing through the pointer \<open>GetCurrentThread\<close> returns.\<close>

definition setCurrentThread :: "State \<Rightarrow> ThreadState \<Rightarrow> State" where
  "setCurrentThread s thread =
    (if TraverseRight s then s\<lparr>RightThreadStack := butlast (RightThreadStack s) @ [thread]\<rparr>
     else s\<lparr>LeftThreadStack := butlast (LeftThreadStack s) @ [thread]\<rparr>)"

definition CreateInitialState :: "Word \<Rightarrow> Word \<Rightarrow> fault + State" where
  "CreateInitialState pc heapStart =
    (let state = CreateEmptyState in
     rbind (GetCurrentThread state) (\<lambda>currentThread.
       let currentThread = currentThread\<lparr>Cpu := (Cpu currentThread)\<lparr>PC := pc, NextPC := pc + 4\<rparr>\<rparr>;
           state = setCurrentThread state currentThread
       in Inr (state\<lparr>Heap := heapStart\<rparr>)))"

definition GetPC :: "State \<Rightarrow> fault + Word" where
  "GetPC s = rbind (GetCurrentThread s) (\<lambda>activeThread. Inr (PC (Cpu activeThread)))"

definition ThreadCount :: "State \<Rightarrow> nat" where
  "ThreadCount s = length (LeftThreadStack s) + length (RightThreadStack s)"

section \<open>Witness encoding\<close>

definition VMStatusValid :: byte where "VMStatusValid = 0"
definition VMStatusInvalid :: byte where "VMStatusInvalid = 1"
definition VMStatusPanic :: byte where "VMStatusPanic = 2"
definition VMStatusUnfinished :: byte where "VMStatusUnfinished = 3"

definition VmStatus :: "bool \<Rightarrow> byte \<Rightarrow> byte" where
  "VmStatus exited exitCode =
    (if \<not> exited then VMStatusUnfinished
     else if exitCode = 0 then VMStatusValid
     else if exitCode = 1 then VMStatusInvalid
     else VMStatusPanic)"

definition AppendBoolToWitness :: "bytes \<Rightarrow> bool \<Rightarrow> bytes" where
  "AppendBoolToWitness witnessData boolVal = (if boolVal then witnessData @ [1] else witnessData @ [0])"

definition AppendWord :: "bytes \<Rightarrow> Word \<Rightarrow> bytes" where
  "AppendWord b v = b @ be_bytes 8 v"

definition serializeThread :: "ThreadState \<Rightarrow> bytes" where
  "serializeThread t =
    (let out = [];
         out = AppendWord out (ThreadId t);
         out = out @ [tExitCode t];
         out = AppendBoolToWitness out (tExited t);
         out = AppendWord out (PC (Cpu t));
         out = AppendWord out (NextPC (Cpu t));
         out = AppendWord out (LO (Cpu t));
         out = AppendWord out (HI (Cpu t))
     in foldl AppendWord out (Registers t))"

definition computeThreadRoot :: "(bytes \<Rightarrow> bytes) \<Rightarrow> bytes \<Rightarrow> ThreadState \<Rightarrow> bytes" where
  "computeThreadRoot keccak prevStackRoot threadToPush =
    (let hashedThread = keccak (serializeThread threadToPush)
     in keccak (prevStackRoot @ hashedThread))"

definition EmptyThreadsRoot :: bytes where
  "EmptyThreadsRoot = be_bytes 32
     (0xad3228b676f7d3cd4284a5443f17f1962b36e491b30a40b2405849e597ba5fb5 :: 256 word)"

definition calculateThreadStackRoot :: "(bytes \<Rightarrow> bytes) \<Rightarrow> ThreadState list \<Rightarrow> bytes" where
  "calculateThreadStackRoot keccak stack = foldl (computeThreadRoot keccak) EmptyThreadsRoot stack"

definition STATE_WITNESS_SIZE :: nat where
  "STATE_WITNESS_SIZE = 32 + 32 + 8 + 8 + 1 + 8 + 8 + 1 + 1 + 8 + 8 + 1 + 32 + 32 + 8"

definition EXITCODE_WITNESS_OFFSET :: nat where
  "EXITCODE_WITNESS_OFFSET = 32 + 32 + 8 + 8 + 1 + 8 + 8"

definition EXITED_WITNESS_OFFSET :: nat where
  "EXITED_WITNESS_OFFSET = EXITCODE_WITNESS_OFFSET + 1"

definition stateHashFromWitness :: "(bytes \<Rightarrow> bytes) \<Rightarrow> bytes \<Rightarrow> fault + bytes" where
  "stateHashFromWitness keccak sw =
    (if length sw \<noteq> STATE_WITNESS_SIZE then Inl (InvalidWitnessLength (length sw))
     else let hash = keccak sw;
              exitCode = sw ! EXITCODE_WITNESS_OFFSET;
              exited = sw ! EXITED_WITNESS_OFFSET;
              status = VmStatus (exited = 1) exitCode
          in Inr (hash[0 := status]))"

definition EncodeWitness :: "(bytes \<Rightarrow> bytes) \<Rightarrow> State \<Rightarrow> fault + (bytes \<times> bytes) \<times> State" where
  "EncodeWitness keccak s =
    rbind (MerkleRoot keccak (Mem s)) (\<lambda>(memRoot, m).
      let s = s\<lparr>Mem := m\<rparr>;
          out = [] @ memRoot;
          out = out @ PreimageKey s;
          out = AppendWord out (PreimageOffset s);
          out = AppendWord out (Heap s);
          out = out @ [LLReservationStatus s];
          out = AppendWord out (LLAddress s);
          out = AppendWord out (LLOwnerThread s);
          out = out @ [ExitCode s];
          out = AppendBoolToWitness out (Exited s);
          out = out @ be_bytes 8 (Step s);
          out = out @ be_bytes 8 (StepsSinceLastContextSwitch s);
          leftStackRoot = calculateThreadStackRoot keccak (LeftThreadStack s);
          rightStackRoot = calculateThreadStackRoot keccak (RightThreadStack s);
          out = AppendBoolToWitness out (TraverseRight s);
          out = out @ leftStackRoot;
          out = out @ rightStackRoot;
          out = AppendWord out (NextThreadId s)
      in rbind (stateHashFromWitness keccak out) (\<lambda>hash. Inr ((out, hash), s)))"

definition EncodeThreadProof :: "(bytes \<Rightarrow> bytes) \<Rightarrow> State \<Rightarrow> fault + bytes" where
  "EncodeThreadProof keccak s =
    (let activeStack = getActiveThreadStack s;
         threadCount = length activeStack
     in if threadCount = 0 then Inl EmptyThreadStack
        else let activeThread = activeStack ! (threadCount - 1);
                 otherThreads = take (threadCount - 1) activeStack;
                 threadBytes = serializeThread activeThread;
                 otherThreadsWitness = calculateThreadStackRoot keccak otherThreads
             in Inr (threadBytes @ otherThreadsWitness))"

section \<open>Serialization\<close>

text \<open>\<^verbatim>\<open>binary.Read\<close> and \<^verbatim>\<open>io.ReadFull\<close>: end of input with nothing read is EOF, in the
  middle of an item it is an unexpected EOF.\<close>

definition ReadFull :: "nat \<Rightarrow> bytes \<Rightarrow> fault + bytes \<times> bytes" where
  "ReadFull n inp =
    (if n \<le> length inp then Inr (take n inp, drop n inp)
     else if inp = [] then Inl ErrEOF else Inl ErrUnexpectedEOF)"

definition ReadWord :: "bytes \<Rightarrow> fault + Word \<times> bytes" where
  "ReadWord inp = rbind (ReadFull 8 inp) (\<lambda>(b, inp). Inr (be_word b, inp))"

definition ReadUInt32 :: "bytes \<Rightarrow> fault + uint32 \<times> bytes" where
  "ReadUInt32 inp = rbind (ReadFull 4 inp) (\<lambda>(b, inp). Inr (be_word b, inp))"

definition ReadUInt8 :: "bytes \<Rightarrow> fault + byte \<times> bytes" where
  "ReadUInt8 inp = rbind (ReadFull 1 inp) (\<lambda>(b, inp). Inr (be_word b, inp))"

definition ReadBool :: "bytes \<Rightarrow> fault + bool \<times> bytes" where
  "ReadBool inp = rbind (ReadUInt8 inp) (\<lambda>(v, inp).
     if v = 0 then Inr (False, inp) else if v = 1 then Inr (True, inp) else Inl (ErrInvalidBool v))"

definition ReadBytes :: "bytes \<Rightarrow> fault + bytes \<times> bytes" where
  "ReadBytes inp = rbind (ReadUInt32 inp) (\<lambda>(size, inp).
     if size = 0 then Inr ([], inp) else ReadFull (unat size) inp)"

definition WriteBool :: "bool \<Rightarrow> bytes" where
  "WriteBool v = (if v then [1] else [0])"

definition WriteBytes :: "bytes \<Rightarrow> bytes" where
  "WriteBytes v = be_bytes 4 (of_nat (length v) :: uint32) @ v"

definition Memory_Serialize :: "Memory \<Rightarrow> bytes" where
  "Memory_Serialize m =
    be_bytes 8 (of_nat (PageCount m) :: Word) @
    concat (map (\<lambda>pageIndex. be_bytes 8 pageIndex @
                   (case map_of (pageTable m) pageIndex of None \<Rightarrow> [] | Some r \<Rightarrow> Data (pageHeap m r)))
              (sort (map fst (pageTable m))))"

fun deserialize_pages :: "nat \<Rightarrow> Memory \<Rightarrow> bytes \<Rightarrow> fault + Memory \<times> bytes" where
  "deserialize_pages 0 m inp = Inr (m, inp)"
| "deserialize_pages (Suc n) m inp =
    rbind (ReadWord inp) (\<lambda>(pageIndex, inp).
      let (p, m) = AllocPage m pageIndex in
      rbind (ReadFull PageSize inp) (\<lambda>(d, inp).
        deserialize_pages n (m\<lparr>pageHeap := (pageHeap m)(p := (pageHeap m p)\<lparr>Data := d\<rparr>)\<rparr>) inp))"

definition Memory_Deserialize :: "Memory \<Rightarrow> bytes \<Rightarrow> fault + Memory \<times> bytes" where
  "Memory_Deserialize m inp =
    rbind (ReadWord inp) (\<lambda>(pageCount, inp). deserialize_pages (unat pageCount) m inp)"

fun read_words :: "nat \<Rightarrow> bytes \<Rightarrow> fault + Word list \<times> bytes" where
  "read_words 0 inp = Inr ([], inp)"
| "read_words (Suc n) inp =
    rbind (ReadWord inp) (\<lambda>(w, inp). rbind (read_words n inp) (\<lambda>(ws, inp). Inr (w # ws, inp)))"

definition ThreadState_Deserialize :: "bytes \<Rightarrow> fault + ThreadState \<times> bytes" where
  "ThreadState_Deserialize inp =
    rbind (ReadWord inp) (\<lambda>(threadId, inp).
    rbind (ReadUInt8 inp) (\<lambda>(exitCode, inp).
    rbind (ReadUInt8 inp) (\<lambda>(exited, inp).
    rbind (ReadWord inp) (\<lambda>(pc, inp).
    rbind (ReadWord inp) (\<lambda>(nextPC, inp).
    rbind (ReadWord inp) (\<lambda>(lo, inp).
    rbind (ReadWord inp) (\<lambda>(hi, inp).
    rbind (read_words 32 inp) (\<lambda>(regs, inp).
      Inr (\<lparr>ThreadId = threadId, tExitCode = exitCode, tExited = (exited \<noteq> 0),
            Cpu = \<lparr>PC = pc, NextPC = nextPC, LO = lo, HI = hi\<rparr>, Registers = regs\<rparr>, inp)))))))))"

fun read_threads :: "nat \<Rightarrow> bytes \<Rightarrow> fault + ThreadState list \<times> bytes" where
  "read_threads 0 inp = Inr ([], inp)"
| "read_threads (Suc n) inp =
    rbind (ThreadState_Deserialize inp) (\<lambda>(t, inp). rbind (read_threads n inp) (\<lambda>(ts, inp). Inr (t # ts, inp)))"

definition State_Serialize :: "State \<Rightarrow> bytes" where
  "State_Serialize s =
    Memory_Serialize (Mem s) @ PreimageKey s @ be_bytes 8 (PreimageOffset s) @ be_bytes 8 (Heap s) @
    be_bytes 1 (LLReservationStatus s) @ be_bytes 8 (LLAddress s) @ be_bytes 8 (LLOwnerThread s) @
    be_bytes 1 (ExitCode s) @ WriteBool (Exited s) @ be_bytes 8 (Step s) @
    be_bytes 8 (StepsSinceLastContextSwitch s) @ WriteBool (TraverseRight s) @ be_bytes 8 (NextThreadId s) @
    be_bytes 8 (of_nat (length (LeftThreadStack s)) :: Word) @ concat (map serializeThread (LeftThreadStack s)) @
    be_bytes 8 (of_nat (length (RightThreadStack s)) :: Word) @ concat (map serializeThread (RightThreadStack s)) @
    WriteBytes (LastHint s)"

text \<open>The allocation of the two stacks, which Go sizes by the number read, always succeeds here; for a number of threads that the input does not hold the reader fails at
  the first missing thread.\<close>

definition State_Deserialize :: "bytes \<Rightarrow> fault + State \<times> bytes" where
  "State_Deserialize inp =
    rbind (Memory_Deserialize NewMemory inp) (\<lambda>(m, inp).
    rbind (ReadFull 32 inp) (\<lambda>(preimageKey, inp).
    rbind (ReadWord inp) (\<lambda>(preimageOffset, inp).
    rbind (ReadWord inp) (\<lambda>(heap, inp).
    rbind (ReadUInt8 inp) (\<lambda>(llStatus, inp).
    rbind (ReadWord inp) (\<lambda>(llAddress, inp).
    rbind (ReadWord inp) (\<lambda>(llOwner, inp).
    rbind (ReadUInt8 inp) (\<lambda>(exitCode, inp).
    rbind (ReadBool inp) (\<lambda>(exited, inp).
    rbind (ReadWord inp) (\<lambda>(step, inp).
    rbind (ReadWord inp) (\<lambda>(steps, inp).
    rbind (ReadBool inp) (\<lambda>(traverseRight, inp).
    rbind (ReadWord inp) (\<lambda>(nextThreadId, inp).
    rbind (ReadWord inp) (\<lambda>(leftSize, inp).
    rbind (read_threads (unat leftSize) inp) (\<lambda>(left, inp).
    rbind (ReadWord inp) (\<lambda>(rightSize, inp).
    rbind (read_threads (unat rightSize) inp) (\<lambda>(right, inp).
    rbind (ReadBytes inp) (\<lambda>(lastHint, inp).
      Inr (\<lparr>Mem = m, PreimageKey = preimageKey, PreimageOffset = preimageOffset, Heap = heap,
            LLReservationStatus = llStatus, LLAddress = llAddress, LLOwnerThread = llOwner, ExitCode = exitCode,
            Exited = exited, Step = step, StepsSinceLastContextSwitch = steps, TraverseRight = traverseRight,
            LeftThreadStack = left, RightThreadStack = right, NextThreadId = nextThreadId,
            LastHint = lastHint\<rparr>, inp)))))))))))))))))))"

end
