(* ===== verification/CannonVM.thy ===== *)
theory CannonVM
  imports CannonState CannonAlu "HOL-Library.Multiset"
begin

text \<open>
  The multithreaded VM: \<^verbatim>\<open>multithreaded/mips.go\<close> (system calls, scheduling, LL/SC, the step)
  and \<^verbatim>\<open>multithreaded/instrumented.go\<close> (the step with proof generation), with the no-op stack and
  statistics trackers that \<^verbatim>\<open>NewInstrumentedState\<close> installs. The host of the machine is a record of
  parameters: the hash function, the preimage oracle's answers, and the buffer sizes of the readers.
\<close>

record Host =
  hKeccak :: "bytes \<Rightarrow> bytes"
  hPreimage :: "bytes \<Rightarrow> bytes"
  hBufs :: "nat \<Rightarrow> nat"

record InstrumentedState =
  state :: State
  stdOut :: bytes
  stdErr :: bytes
  memoryTracker :: MemoryTracker
  preimageOracle :: PreimageReader

definition NewInstrumentedState :: "State \<Rightarrow> InstrumentedState" where
  "NewInstrumentedState s =
    \<lparr>state = s, stdOut = [], stdErr = [], memoryTracker = NewMemoryTracker,
     preimageOracle = NewTrackingPreimageOracleReader\<rparr>"

section \<open>Threads\<close>

definition preemptThread :: "InstrumentedState \<Rightarrow> ThreadState \<Rightarrow> fault + bool \<times> InstrumentedState" where
  "preemptThread m thread =
    rbind
      (if TraverseRight (state m) then
         (let rtThreadCnt = length (RightThreadStack (state m)) in
          if rtThreadCnt = 0 then Inl EmptyThreadStack
          else let s = (state m)\<lparr>RightThreadStack := take (rtThreadCnt - 1) (RightThreadStack (state m))\<rparr>
               in Inr (s\<lparr>LeftThreadStack := LeftThreadStack s @ [thread]\<rparr>))
       else
         (let lftThreadCnt = length (LeftThreadStack (state m)) in
          if lftThreadCnt = 0 then Inl EmptyThreadStack
          else let s = (state m)\<lparr>LeftThreadStack := take (lftThreadCnt - 1) (LeftThreadStack (state m))\<rparr>
               in Inr (s\<lparr>RightThreadStack := RightThreadStack s @ [thread]\<rparr>)))
      (\<lambda>s.
        let current = getActiveThreadStack s;
            (changeDirections, s) = (if length current = 0 then (True, s\<lparr>TraverseRight := \<not> TraverseRight s\<rparr>)
                                     else (False, s));
            s = s\<lparr>StepsSinceLastContextSwitch := 0\<rparr>
        in rbind (GetCurrentThread s) (\<lambda>_. Inr (changeDirections, m\<lparr>state := s\<rparr>)))"

definition pushThread :: "InstrumentedState \<Rightarrow> ThreadState \<Rightarrow> InstrumentedState" where
  "pushThread m thread =
    (let s = state m;
         s = (if TraverseRight s then s\<lparr>RightThreadStack := RightThreadStack s @ [thread]\<rparr>
              else s\<lparr>LeftThreadStack := LeftThreadStack s @ [thread]\<rparr>)
     in m\<lparr>state := s\<lparr>StepsSinceLastContextSwitch := 0\<rparr>\<rparr>)"

definition popThread :: "InstrumentedState \<Rightarrow> fault + InstrumentedState" where
  "popThread m =
    (let s = state m in
     rbind
       (if TraverseRight s then
          (if RightThreadStack s = [] then Inl SliceOutOfRange
           else Inr (s\<lparr>RightThreadStack := take (length (RightThreadStack s) - 1) (RightThreadStack s)\<rparr>))
        else
          (if LeftThreadStack s = [] then Inl SliceOutOfRange
           else Inr (s\<lparr>LeftThreadStack := take (length (LeftThreadStack s) - 1) (LeftThreadStack s)\<rparr>)))
       (\<lambda>s. let current = getActiveThreadStack s;
                s = (if length current = 0 then s\<lparr>TraverseRight := \<not> TraverseRight s\<rparr> else s)
            in Inr (m\<lparr>state := s\<lparr>StepsSinceLastContextSwitch := 0\<rparr>\<rparr>)))"

definition lastThreadRemaining :: "InstrumentedState \<Rightarrow> bool" where
  "lastThreadRemaining m = (ThreadCount (state m) = 1)"

section \<open>LL/SC reservations\<close>

definition clearLLMemoryReservation :: "InstrumentedState \<Rightarrow> InstrumentedState" where
  "clearLLMemoryReservation m =
    m\<lparr>state := (state m)\<lparr>LLReservationStatus := LLStatusNone, LLAddress := 0, LLOwnerThread := 0\<rparr>\<rparr>"

definition handleMemoryUpdate :: "InstrumentedState \<Rightarrow> Word \<Rightarrow> InstrumentedState" where
  "handleMemoryUpdate m effMemAddr =
    (if effMemAddr = AddressMask AND LLAddress (state m) then clearLLMemoryReservation m else m)"

text \<open>Storing a memory and tracker that an operation of \<open>exec\<close> returned.\<close>

definition putMem :: "InstrumentedState \<Rightarrow> Memory \<Rightarrow> MemoryTracker \<Rightarrow> InstrumentedState" where
  "putMem m mem t = m\<lparr>state := (state m)\<lparr>Mem := mem\<rparr>, memoryTracker := t\<rparr>"

definition putCore :: "InstrumentedState \<Rightarrow> ThreadState \<Rightarrow> CpuScalars \<times> Word list \<Rightarrow> InstrumentedState" where
  "putCore m thread = (\<lambda>(cpu, regs).
    m\<lparr>state := setCurrentThread (state m) (thread\<lparr>Cpu := cpu, Registers := regs\<rparr>)\<rparr>)"

definition OpLoadLinked :: uint32 where "OpLoadLinked = 0x30"
definition OpStoreConditional :: uint32 where "OpStoreConditional = 0x38"
definition OpLoadLinked64 :: uint32 where "OpLoadLinked64 = 0x34"
definition OpStoreConditional64 :: uint32 where "OpStoreConditional64 = 0x3C"

lemmas Op_defs = OpLoadLinked_def OpStoreConditional_def OpLoadLinked64_def OpStoreConditional64_def

definition handleRMWOps :: "Host \<Rightarrow> InstrumentedState \<Rightarrow> uint32 \<Rightarrow> uint32 \<Rightarrow> fault + InstrumentedState" where
  "handleRMWOps h m insn opcode =
    rbind (GetCurrentThread (state m)) (\<lambda>thread.
    let baseReg = drop_bit 21 insn AND 0x1F;
        base = Registers thread ! unat baseReg;
        rtReg = ucast (drop_bit 16 insn AND 0x1F);
        offset = SignExtendImmediate insn;
        addr = base + offset;
        (targetStatus, byteLength) =
          (if opcode = OpLoadLinked64 \<or> opcode = OpStoreConditional64 then (LLStatusActive64bit, 8)
           else (LLStatusActive32bit, 4));
        threadId = ThreadId thread
    in rbind
        (if opcode = OpLoadLinked \<or> opcode = OpLoadLinked64 then
           rbind (LoadSubWord (hKeccak h) (Mem (state m)) (memoryTracker m) addr byteLength True) (\<lambda>(retVal, mem, t).
             let m = putMem m mem t
             in Inr (retVal, m\<lparr>state := (state m)\<lparr>LLReservationStatus := targetStatus, LLAddress := addr,
                                                  LLOwnerThread := threadId\<rparr>\<rparr>))
         else if opcode = OpStoreConditional \<or> opcode = OpStoreConditional64 then
           (if LLReservationStatus (state m) = targetStatus \<and> LLOwnerThread (state m) = threadId \<and>
               LLAddress (state m) = addr then
              (let m = clearLLMemoryReservation m;
                   val = Registers thread ! unat rtReg
               in rbind (StoreSubWord (hKeccak h) (Mem (state m)) (memoryTracker m) addr byteLength val) (\<lambda>(mem, t).
                    Inr (1, putMem m mem t)))
            else Inr (0, m))
         else Inl (InvalidRMWOpcode opcode))
        (\<lambda>(retVal, m).
          rbind (HandleRd (Cpu thread) (Registers thread) rtReg retVal True) (\<lambda>core. Inr (putCore m thread core))))"

section \<open>System calls\<close>

definition finishSyscall :: "InstrumentedState \<Rightarrow> ThreadState \<Rightarrow> Word \<Rightarrow> Word \<Rightarrow> InstrumentedState" where
  "finishSyscall m thread v0 v1 = putCore m thread (HandleSyscallUpdates (Cpu thread) (Registers thread) v0 v1)"

definition syscallYield :: "InstrumentedState \<Rightarrow> ThreadState \<Rightarrow> fault + InstrumentedState" where
  "syscallYield m thread =
    (let (cpu, regs) = HandleSyscallUpdates (Cpu thread) (Registers thread) 0 0;
         thread = thread\<lparr>Cpu := cpu, Registers := regs\<rparr>;
         m = m\<lparr>state := setCurrentThread (state m) thread\<rparr>
     in rbind (preemptThread m thread) (\<lambda>(_, m). Inr m))"

definition getFutexValue :: "Host \<Rightarrow> InstrumentedState \<Rightarrow> Word \<Rightarrow> fault + uint32 \<times> InstrumentedState" where
  "getFutexValue h m vAddr =
    rbind (LoadSubWord (hKeccak h) (Mem (state m)) (memoryTracker m) vAddr 4 False) (\<lambda>(subword, mem, t).
      Inr (ucast subword, putMem m mem t))"

definition sysClone :: "InstrumentedState \<Rightarrow> ThreadState \<Rightarrow> Word \<Rightarrow> Word \<Rightarrow> InstrumentedState" where
  "sysClone m thread a0 a1 =
    (if ValidCloneFlags \<noteq> a0 then m\<lparr>state := (state m)\<lparr>Exited := True, ExitCode := VMStatusPanic\<rparr>\<rparr>
     else
       let v0 = NextThreadId (state m);
           v1 = 0;
           newThread = \<lparr>ThreadId = NextThreadId (state m), tExitCode = 0, tExited = False,
             Cpu = \<lparr>PC = NextPC (Cpu thread), NextPC = NextPC (Cpu thread) + 4, LO = LO (Cpu thread), HI = HI (Cpu thread)\<rparr>,
             Registers = (Registers thread)[RegSP := a1, RegSyscallRet1 := 0, RegSyscallErrno := 0]\<rparr>;
           m = m\<lparr>state := (state m)\<lparr>NextThreadId := NextThreadId (state m) + 1\<rparr>\<rparr>;
           m = finishSyscall m thread v0 v1
       in pushThread m newThread)"

definition sysExit :: "InstrumentedState \<Rightarrow> ThreadState \<Rightarrow> Word \<Rightarrow> InstrumentedState" where
  "sysExit m thread a0 =
    (let thread = thread\<lparr>tExited := True, tExitCode := ucast a0\<rparr>;
         m = m\<lparr>state := setCurrentThread (state m) thread\<rparr>
     in if lastThreadRemaining m then m\<lparr>state := (state m)\<lparr>Exited := True, ExitCode := ucast a0\<rparr>\<rparr> else m)"

definition sysFutex :: "Host \<Rightarrow> InstrumentedState \<Rightarrow> ThreadState \<Rightarrow> Word \<Rightarrow> Word \<Rightarrow> Word \<Rightarrow> fault + InstrumentedState" where
  "sysFutex h m thread a0 a1 a2 =
    (let effFutexAddr = a0 AND NOT 0x3 in
     if a1 = FutexWaitPrivate then
       rbind (getFutexValue h m effFutexAddr) (\<lambda>(futexVal, m).
         let targetVal = ucast a2 in
         if futexVal \<noteq> targetVal then Inr (finishSyscall m thread SysErrorSignal MipsEAGAIN)
         else syscallYield m thread)
     else if a1 = FutexWakePrivate then syscallYield m thread
     else Inr (finishSyscall m thread SysErrorSignal MipsEINVAL))"

definition sysClockGetTime :: "Host \<Rightarrow> InstrumentedState \<Rightarrow> ThreadState \<Rightarrow> Word \<Rightarrow> Word \<Rightarrow> fault + InstrumentedState" where
  "sysClockGetTime h m thread a0 a1 =
    (if a0 = ClockGettimeRealtimeFlag \<or> a0 = ClockGettimeMonotonicFlag then
       (let (secs, nsecs) =
              (if a0 = ClockGettimeMonotonicFlag
               then (Step (state m) div HZ, (Step (state m) mod HZ) * (1000000000 div HZ)) else (0, 0));
            effAddr = a1 AND AddressMask
        in rbind (TrackMemAccess (hKeccak h) (Mem (state m)) (memoryTracker m) effAddr) (\<lambda>(mem, t).
           rbind (SetWord mem effAddr secs) (\<lambda>mem.
           let m = handleMemoryUpdate (putMem m mem t) effAddr in
           rbind (TrackMemAccess2 (hKeccak h) (Mem (state m)) (memoryTracker m) (effAddr + of_nat WordSizeBytes)) (\<lambda>(mem, t).
           rbind (SetWord mem (effAddr + of_nat WordSizeBytes) nsecs) (\<lambda>mem.
           let m = handleMemoryUpdate (putMem m mem t) (effAddr + of_nat WordSizeBytes)
           in Inr (finishSyscall m thread 0 0))))))
     else Inr (finishSyscall m thread SysErrorSignal MipsEINVAL))"

definition sysRead :: "Host \<Rightarrow> InstrumentedState \<Rightarrow> ThreadState \<Rightarrow> Word \<Rightarrow> Word \<Rightarrow> Word \<Rightarrow> fault + InstrumentedState" where
  "sysRead h m thread a0 a1 a2 =
    rbind (HandleSysRead (hKeccak h) (hPreimage h) a0 a1 a2 (PreimageKey (state m)) (PreimageOffset (state m))
             (preimageOracle m) (Mem (state m)) (memoryTracker m))
      (\<lambda>((v0, v1, newPreimageOffset, memUpdated, memAddr), po, mem, t).
        let m = (putMem m mem t)\<lparr>preimageOracle := po\<rparr>;
            m = m\<lparr>state := (state m)\<lparr>PreimageOffset := newPreimageOffset\<rparr>\<rparr>;
            m = (if memUpdated then handleMemoryUpdate m memAddr else m)
        in Inr (finishSyscall m thread v0 v1))"

definition sysWrite :: "Host \<Rightarrow> InstrumentedState \<Rightarrow> ThreadState \<Rightarrow> Word \<Rightarrow> Word \<Rightarrow> Word \<Rightarrow> fault + InstrumentedState" where
  "sysWrite h m thread a0 a1 a2 =
    rbind (HandleSysWrite (hKeccak h) (hBufs h) a0 a1 a2 (LastHint (state m)) (PreimageKey (state m))
             (PreimageOffset (state m)) (preimageOracle m) (Mem (state m)) (memoryTracker m) (stdOut m) (stdErr m))
      (\<lambda>((v0, v1, newLastHint, newPreimageKey, newPreimageOffset), po, mem, t, out, err).
        let m = (putMem m mem t)\<lparr>preimageOracle := po, stdOut := out, stdErr := err\<rparr>;
            m = m\<lparr>state := (state m)\<lparr>LastHint := newLastHint, PreimageKey := newPreimageKey,
                                    PreimageOffset := newPreimageOffset\<rparr>\<rparr>
        in Inr (finishSyscall m thread v0 v1))"

definition handleSyscall :: "Host \<Rightarrow> InstrumentedState \<Rightarrow> fault + InstrumentedState" where
  "handleSyscall h m =
    rbind (GetCurrentThread (state m)) (\<lambda>thread.
    let (syscallNum, a0, a1, a2) = GetSyscallArgs (Registers thread) in
    if syscallNum = SysMmap then
      (let (v0, v1, newHeap) = HandleSysMmap a0 a1 (Heap (state m));
           m = m\<lparr>state := (state m)\<lparr>Heap := newHeap\<rparr>\<rparr>
       in Inr (finishSyscall m thread v0 v1))
    else if syscallNum = SysBrk then Inr (finishSyscall m thread ProgramBreak 0)
    else if syscallNum = SysClone then Inr (sysClone m thread a0 a1)
    else if syscallNum = SysExitGroup then Inr (m\<lparr>state := (state m)\<lparr>Exited := True, ExitCode := ucast a0\<rparr>\<rparr>)
    else if syscallNum = SysRead then sysRead h m thread a0 a1 a2
    else if syscallNum = SysWrite then sysWrite h m thread a0 a1 a2
    else if syscallNum = SysFcntl then
      (let (v0, v1) = HandleSysFcntl a0 a1 in Inr (finishSyscall m thread v0 v1))
    else if syscallNum = SysGetTID then Inr (finishSyscall m thread (ThreadId thread) 0)
    else if syscallNum = SysExit then Inr (sysExit m thread a0)
    else if syscallNum = SysFutex then sysFutex h m thread a0 a1 a2
    else if syscallNum = SysSchedYield \<or> syscallNum = SysNanosleep then syscallYield m thread
    else if syscallNum = SysOpen then Inr (finishSyscall m thread SysErrorSignal MipsEBADF)
    else if syscallNum = SysClockGetTime then sysClockGetTime h m thread a0 a1
    else if syscallNum = SysGetpid then Inr (finishSyscall m thread 0 0)
    else if syscallNum \<in> set NoopSyscalls then Inr (finishSyscall m thread 0 0)
    else if IsMips32 \<and> (syscallNum = SysFstat64 \<or> syscallNum = SysStat64 \<or> syscallNum = SysLlseek)
    then Inr (finishSyscall m thread 0 0)
    else Inl (UnrecognizedSyscall syscallNum))"

section \<open>The step\<close>

definition execCore :: "Host \<Rightarrow> InstrumentedState \<Rightarrow> uint32 \<Rightarrow> uint32 \<Rightarrow> uint32 \<Rightarrow> fault + InstrumentedState" where
  "execCore h m insn opcode fun' =
    rbind (GetCurrentThread (state m)) (\<lambda>thread.
    rbind (ExecMipsCoreStepLogic (hKeccak h) (Cpu thread, Registers thread, Mem (state m), memoryTracker m) insn opcode fun')
      (\<lambda>((cpu, regs, mem, t), memUpdated, effMemAddr).
        let m = putCore (putMem m mem t) thread (cpu, regs)
        in Inr (if memUpdated then handleMemoryUpdate m effMemAddr else m)))"

text \<open>The rest of \<^verbatim>\<open>doMipsStep\<close> once the current thread may run: fetch, decode and dispatch.\<close>

definition execInstruction :: "Host \<Rightarrow> InstrumentedState \<Rightarrow> fault + InstrumentedState" where
  "execInstruction h m =
    rbind (GetPC (state m)) (\<lambda>pc.
    rbind (GetInstructionDetails pc (Mem (state m))) (\<lambda>((insn, opcode, fun'), mem).
    let m = m\<lparr>state := (state m)\<lparr>Mem := mem\<rparr>\<rparr> in
    if opcode = 0 \<and> fun' = 0xC then handleSyscall h m
    else if opcode = OpLoadLinked \<or> opcode = OpStoreConditional then handleRMWOps h m insn opcode
    else if opcode = OpLoadLinked64 \<or> opcode = OpStoreConditional64 then
      (if IsMips32 then Inl (InvalidInsn insn) else handleRMWOps h m insn opcode)
    else execCore h m insn opcode fun'))"

definition doMipsStep :: "Host \<Rightarrow> InstrumentedState \<Rightarrow> fault + InstrumentedState" where
  "doMipsStep h m =
    (if Exited (state m) then Inr m
     else
       let m = m\<lparr>state := (state m)\<lparr>Step := Step (state m) + 1\<rparr>\<rparr> in
       rbind (GetCurrentThread (state m)) (\<lambda>thread.
       if tExited thread then popThread m
       else if SchedQuantum \<le> StepsSinceLastContextSwitch (state m) then
         rbind (preemptThread m thread) (\<lambda>(_, m). Inr m)
       else
         execInstruction h (m\<lparr>state := (state m)\<lparr>StepsSinceLastContextSwitch := StepsSinceLastContextSwitch (state m) + 1\<rparr>\<rparr>)))"

definition mipsStep :: "Host \<Rightarrow> InstrumentedState \<Rightarrow> fault + InstrumentedState" where
  "mipsStep h m =
    rbind (doMipsStep h m) (\<lambda>m.
      if getActiveThreadStack (state m) = [] then Inl EmptyPostStateStack else Inr m)"

record StepWitness =
  wState :: bytes
  wStateHash :: bytes
  wProofData :: bytes
  wPreimageKey :: bytes
  wPreimageValue :: bytes
  wPreimageOffset :: Word

definition InstrumentedState_Step ::
    "Host \<Rightarrow> InstrumentedState \<Rightarrow> bool \<Rightarrow> fault + StepWitness option \<times> InstrumentedState" where
  "InstrumentedState_Step h m proof =
    (let m = m\<lparr>preimageOracle := PreimageReader_Reset (preimageOracle m),
               memoryTracker := MemoryTracker_Reset (memoryTracker m) proof\<rparr>
     in if proof then
          rbind (EncodeThreadProof (hKeccak h) (state m)) (\<lambda>threadProof.
          rbind (GetPC (state m)) (\<lambda>pc.
          rbind (MerkleProof (hKeccak h) (Mem (state m)) pc) (\<lambda>(insnProof, mem).
          let m = m\<lparr>state := (state m)\<lparr>Mem := mem\<rparr>\<rparr> in
          rbind (EncodeWitness (hKeccak h) (state m)) (\<lambda>((encodedWitness, stateHash), s).
          rbind (mipsStep h (m\<lparr>state := s\<rparr>)) (\<lambda>m.
          let wit = \<lparr>wState = encodedWitness, wStateHash = stateHash,
                     wProofData = threadProof @ insnProof @ memProof (memoryTracker m) @ memProof2 (memoryTracker m),
                     wPreimageKey = replicate 32 0, wPreimageValue = [], wPreimageOffset = 0\<rparr>;
              wit = (if lastPreimageOffset (preimageOracle m) \<noteq> NOT 0 then
                       wit\<lparr>wPreimageOffset := lastPreimageOffset (preimageOracle m),
                           wPreimageKey := lastPreimageKey (preimageOracle m),
                           wPreimageValue := lastPreimage (preimageOracle m)\<rparr>
                     else wit)
          in Inr (Some wit, m))))))
        else rbind (mipsStep h m) (\<lambda>m. Inr (None, m)))"

end
