(* ===== verification/CannonRel.thy ===== *)
theory CannonRel
  imports CannonVM
begin

text \<open>
  Two runs of the machine side by side. Their memories hold the same words but may differ in caches,
  tree nodes and page allocation; their access trackers may differ, in particular one run may be
  generating proofs. Every operation takes related states to related states, or both runs panic with
  the same guest error. Taking the two runs equal gives the invariant of the machine; taking one with
  and one without proof generation shows that generating proofs does not change the execution.
\<close>

section \<open>Related results\<close>

text \<open>The panics a guest program can cause; the others would be faults of the machine itself.\<close>

fun guest_fault :: "fault \<Rightarrow> bool" where
  "guest_fault (InvalidPC _) = True"
| "guest_fault (InvalidInsn _) = True"
| "guest_fault BranchInDelaySlot = True"
| "guest_fault JumpInDelaySlot = True"
| "guest_fault DivideByZero = True"
| "guest_fault PreimageOffsetOutOfBounds = True"
| "guest_fault (UnrecognizedSyscall _) = True"
| "guest_fault SliceOutOfRange = True"
| "guest_fault _ = False"

definition rel_res :: "('a \<Rightarrow> 'b \<Rightarrow> bool) \<Rightarrow> fault + 'a \<Rightarrow> fault + 'b \<Rightarrow> bool" where
  "rel_res R a b \<longleftrightarrow> (case (a, b) of
      (Inl e, Inl e') \<Rightarrow> e = e' \<and> guest_fault e | (Inr x, Inr y) \<Rightarrow> R x y | _ \<Rightarrow> False)"

named_theorems rel_rules \<open>operations take related states to related results\<close>

lemma rel_res_simps [simp]:
  "rel_res R (Inr x) (Inr y) = R x y"
  "rel_res R (Inl e) (Inl e') \<longleftrightarrow> e = e' \<and> guest_fault e"
  "\<not> rel_res R (Inl e) (Inr y)"
  "\<not> rel_res R (Inr x) (Inl e)"
  by (simp_all add: rel_res_def)

lemma rel_rbind:
  assumes "rel_res R a b" "\<And>x y. R x y \<Longrightarrow> rel_res S (f x) (g y)"
  shows "rel_res S (rbind a f) (rbind b g)"
  using assms by (cases a; cases b) simp_all

lemma rel_res_mono: "rel_res R a b \<Longrightarrow> (\<And>x y. R x y \<Longrightarrow> S x y) \<Longrightarrow> rel_res S a b"
  by (cases a; cases b) simp_all

lemma rel_res_refl: "(\<And>x. a = Inr x \<Longrightarrow> R x x) \<Longrightarrow> (\<And>e. a = Inl e \<Longrightarrow> guest_fault e) \<Longrightarrow> rel_res R a a"
  by (cases a) simp_all

section \<open>Memory\<close>

definition mem_rel :: "(bytes \<Rightarrow> bytes) \<Rightarrow> Memory \<Rightarrow> Memory \<Rightarrow> bool" where
  "mem_rel keccak m m' \<longleftrightarrow> merkle_wf keccak m \<and> merkle_wf keccak m' \<and>
     (\<forall>a. a AND ExtMask = 0 \<longrightarrow> word_at m a = word_at m' a)"

lemma mem_rel_refl: "merkle_wf keccak m \<Longrightarrow> mem_rel keccak m m"
  by (simp add: mem_rel_def)

lemma mem_relD:
  assumes "mem_rel keccak m m'"
  shows "merkle_wf keccak m" "merkle_wf keccak m'" "mem_wf m" "mem_wf m'"
    "a AND ExtMask = 0 \<Longrightarrow> word_at m a = word_at m' a"
  using assms merkle_wf_mem by (auto simp: mem_rel_def)

lemma GetWord_rel [rel_rules]:
  assumes "mem_rel keccak m m'" "a AND ExtMask = 0"
  shows "rel_res (\<lambda>(w, n) (w', n'). w = w' \<and> mem_rel keccak n n') (GetWord m a) (GetWord m' a)"
proof -
  note d = mem_relD [OF assms(1)]
  obtain n n' where g: "GetWord m a = Inr (word_at m a, n)" "same_pages m n"
    "GetWord m' a = Inr (word_at m' a, n')" "same_pages m' n'"
    using GetWord_correct [OF d(3) assms(2)] GetWord_correct [OF d(4) assms(2)] by metis
  moreover have "mem_rel keccak n n'"
    using d(5) GetWord_merkle_wf [OF d(1) g(1)] GetWord_merkle_wf [OF d(2) g(3)]
      same_pages_word_at [OF g(2)] same_pages_word_at [OF g(4)] by (simp add: mem_rel_def)
  ultimately show ?thesis using d(5) [OF assms(2)] by simp
qed

lemma SetWord_rel [rel_rules]:
  assumes "mem_rel keccak m m'" "a AND ExtMask = 0"
  shows "rel_res (mem_rel keccak) (SetWord m a v) (SetWord m' a v)"
proof -
  note d = mem_relD [OF assms(1)]
  obtain n where n: "SetWord m a v = Inr n"
    "\<And>b. b AND ExtMask = 0 \<Longrightarrow> word_at n b = (if b = a then v else word_at m b)"
    using SetWord_correct [OF d(3) assms(2), of v] by metis
  obtain n' where n': "SetWord m' a v = Inr n'"
    "\<And>b. b AND ExtMask = 0 \<Longrightarrow> word_at n' b = (if b = a then v else word_at m' b)"
    using SetWord_correct [OF d(4) assms(2), of v] by metis
  have "mem_rel keccak n n'"
    using d(5) n(2) n'(2) SetWord_merkle_wf [OF d(1) n(1)] SetWord_merkle_wf [OF d(2) n'(1)]
    by (simp add: mem_rel_def)
  with n n' show ?thesis by simp
qed

lemma MerkleProof_rel:
  assumes "merkle_wf keccak m"
  obtains pf n where "MerkleProof keccak m a = Inr (pf, n)" "merkle_wf keccak n" "word_at n = word_at m"
  using MerkleProof_correct [OF assms, of a] same_data_word_at by metis

text \<open>A tracker that will accept an access to an address.\<close>

definition tracks :: "MemoryTracker \<Rightarrow> Word \<Rightarrow> bool" where
  "tracks t a \<longleftrightarrow> \<not> memProofEnabled t \<or> lastMemAccess t = NOT 0 \<or> lastMemAccess t = a"

definition fresh :: "MemoryTracker \<Rightarrow> bool" where
  "fresh t \<longleftrightarrow> \<not> memProofEnabled t \<or> lastMemAccess t = NOT 0"

lemma fresh_tracks: "fresh t \<Longrightarrow> tracks t a"
  by (auto simp: fresh_def tracks_def)

definition tracked :: "MemoryTracker \<Rightarrow> Word \<Rightarrow> bool" where
  "tracked t a \<longleftrightarrow> \<not> memProofEnabled t \<or> lastMemAccess t = a"

lemma tracked_tracks: "tracked t a \<Longrightarrow> tracks t a"
  by (auto simp: tracked_def tracks_def)

lemma TrackMemAccess_ok:
  assumes "merkle_wf keccak m" "tracks t a"
  obtains n t' where "TrackMemAccess keccak m t a = Inr (n, t')" "merkle_wf keccak n" "word_at n = word_at m"
    "tracked t' a"
proof -
  obtain pf n where p: "MerkleProof keccak m a = Inr (pf, n)" "merkle_wf keccak n" "word_at n = word_at m"
    by (rule MerkleProof_rel [OF assms(1)])
  show thesis
  proof (cases "memProofEnabled t \<and> lastMemAccess t \<noteq> a")
    case True
    with assms(2) p that [of n "t\<lparr>lastMemAccess := a, memProof := pf\<rparr>"] show thesis
      by (auto simp: TrackMemAccess_def tracks_def tracked_def)
  next
    case False
    with assms(1) that [of m t] show thesis by (auto simp: TrackMemAccess_def tracked_def)
  qed
qed

lemma TrackMemAccess2_ok:
  assumes "merkle_wf keccak m" "tracked t a"
  obtains n t' where "TrackMemAccess2 keccak m t (a + 8) = Inr (n, t')" "merkle_wf keccak n" "word_at n = word_at m"
proof -
  obtain pf n where p: "MerkleProof keccak m (a + 8) = Inr (pf, n)" "merkle_wf keccak n" "word_at n = word_at m"
    by (rule MerkleProof_rel [OF assms(1)])
  with assms(2) that [of n "t\<lparr>lastMemAccess := a + 8, memProof2 := pf\<rparr>"] show thesis
    by (auto simp: TrackMemAccess2_def tracked_def Let_def)
qed

lemma TrackMemAccess_rel [rel_rules]:
  assumes "mem_rel keccak m m'" "tracks t a" "tracks t' a"
  shows "rel_res (\<lambda>(n, u) (n', u'). mem_rel keccak n n' \<and> tracked u a \<and> tracked u' a)
    (TrackMemAccess keccak m t a) (TrackMemAccess keccak m' t' a)"
proof -
  note d = mem_relD [OF assms(1)]
  obtain n u where "TrackMemAccess keccak m t a = Inr (n, u)" "merkle_wf keccak n" "word_at n = word_at m" "tracked u a"
    by (rule TrackMemAccess_ok [OF d(1) assms(2)])
  moreover obtain n' u' where "TrackMemAccess keccak m' t' a = Inr (n', u')" "merkle_wf keccak n'"
    "word_at n' = word_at m'" "tracked u' a"
    by (rule TrackMemAccess_ok [OF d(2) assms(3)])
  ultimately show ?thesis using d(5) by (simp add: mem_rel_def)
qed

lemma TrackMemAccess2_rel [rel_rules]:
  assumes "mem_rel keccak m m'" "tracked t a" "tracked t' a"
  shows "rel_res (\<lambda>(n, u) (n', u'). mem_rel keccak n n')
    (TrackMemAccess2 keccak m t (a + 8)) (TrackMemAccess2 keccak m' t' (a + 8))"
proof -
  note d = mem_relD [OF assms(1)]
  obtain n u where "TrackMemAccess2 keccak m t (a + 8) = Inr (n, u)" "merkle_wf keccak n" "word_at n = word_at m"
    by (rule TrackMemAccess2_ok [OF d(1) assms(2)])
  moreover obtain n' u' where "TrackMemAccess2 keccak m' t' (a + 8) = Inr (n', u')" "merkle_wf keccak n'"
    "word_at n' = word_at m'"
    by (rule TrackMemAccess2_ok [OF d(2) assms(3)])
  ultimately show ?thesis using d(5) by (simp add: mem_rel_def)
qed

section \<open>Sub-words\<close>

lemma LoadSubWord_rel [rel_rules]:
  assumes "mem_rel keccak m m'" "fresh t" "fresh t'"
  shows "rel_res (\<lambda>(w, n, u) (w', n', u'). w = w' \<and> mem_rel keccak n n')
    (LoadSubWord keccak m t a k b) (LoadSubWord keccak m' t' a k b)"
  unfolding LoadSubWord_def Let_def
  by (rule rel_rbind [OF TrackMemAccess_rel [OF assms(1) fresh_tracks [OF assms(2)] fresh_tracks [OF assms(3)]]],
      clarsimp, rule rel_rbind [OF GetWord_rel], assumption, simp, clarsimp)

lemma StoreSubWord_rel [rel_rules]:
  assumes "mem_rel keccak m m'" "fresh t" "fresh t'"
  shows "rel_res (\<lambda>(n, u) (n', u'). mem_rel keccak n n')
    (StoreSubWord keccak m t a k v) (StoreSubWord keccak m' t' a k v)"
  unfolding StoreSubWord_def Let_def
  by (rule rel_rbind [OF TrackMemAccess_rel [OF assms(1) fresh_tracks [OF assms(2)] fresh_tracks [OF assms(3)]]],
      clarsimp, rule rel_rbind [OF GetWord_rel], assumption, simp, clarsimp,
      rule rel_rbind [OF SetWord_rel], assumption, simp, clarsimp)

lemma GetInstructionDetails_rel [rel_rules]:
  assumes "mem_rel keccak m m'"
  shows "rel_res (\<lambda>(i, n) (i', n'). i = i' \<and> mem_rel keccak n n')
    (GetInstructionDetails pc m) (GetInstructionDetails pc m')"
  unfolding GetInstructionDetails_def
  by (simp, intro impI, rule rel_rbind [OF GetWord_rel [OF assms]], simp, clarsimp simp: Let_def)

section \<open>The core step\<close>

definition res_ok :: "('a \<Rightarrow> bool) \<Rightarrow> fault + 'a \<Rightarrow> bool" where
  "res_ok P a \<longleftrightarrow> (case a of Inl e \<Rightarrow> guest_fault e | Inr x \<Rightarrow> P x)"

lemma res_ok_simps [simp]: "res_ok P (Inr x) = P x" "res_ok P (Inl e) = guest_fault e"
  by (simp_all add: res_ok_def)

lemma rel_of_ok: "res_ok P a \<Longrightarrow> rel_res (\<lambda>x y. x = y \<and> P x) a a"
  by (cases a) simp_all

lemma res_ok_rbind: "res_ok Q a \<Longrightarrow> (\<And>x. Q x \<Longrightarrow> res_ok P (f x)) \<Longrightarrow> res_ok P (rbind a f)"
  by (cases a) simp_all

text \<open>The register file: 32 words, the first always zero.\<close>

definition regs_ok :: "Word list \<Rightarrow> bool" where
  "regs_ok regs \<longleftrightarrow> length regs = 32 \<and> regs ! 0 = 0"

lemma regs_ok_update: "regs_ok regs \<Longrightarrow> 0 < i \<Longrightarrow> regs_ok (regs[i := v])"
  by (simp add: regs_ok_def)

lemma reg_index_lt: "ucast (x AND 0x1F :: uint32) < (32 :: Word)"
proof -
  have "x AND 0x1F = take_bit 5 x" by (simp add: take_bit_eq_mask mask_eq_exp_minus_1)
  then have "unat (x AND 0x1F) = unat x mod 32" by (simp add: take_bit_eq_mod unat_mod)
  then have "unat (ucast (x AND 0x1F) :: Word) < 32"
    by (simp add: unsigned_ucast_eq le_less_trans [OF take_bit_nat_less_eq_self])
  then show ?thesis by (simp add: word_less_nat_alt)
qed

lemma HandleJump_ok: "regs_ok regs \<Longrightarrow> r < 32 \<Longrightarrow> res_ok (\<lambda>(c, rs). regs_ok rs) (HandleJump cpu regs r d)"
  by (auto simp: HandleJump_def Let_def set_reg_def unat_gt_0 regs_ok_update)

lemma HandleRd_ok: "regs_ok regs \<Longrightarrow> r < 32 \<Longrightarrow> res_ok (\<lambda>(c, rs). regs_ok rs) (HandleRd cpu regs r v b)"
  by (auto simp: HandleRd_def Let_def unat_gt_0 regs_ok_update not_le)

lemma HandleBranch_ok: "regs_ok regs \<Longrightarrow> res_ok (\<lambda>(c, rs). regs_ok rs) (HandleBranch cpu regs opcode insn rt rs')"
  by (auto simp: HandleBranch_def Let_def regs_ok_update RegRA_def)

lemma HandleHiLo_ok:
  assumes "regs_ok regs" "r < 32"
  shows "res_ok (\<lambda>(c, rs). regs_ok rs) (HandleHiLo cpu regs f rs rt r)"
  unfolding HandleHiLo_def
proof (rule res_ok_rbind [where Q = "\<lambda>_. True"], goal_cases)
  case 1
  show ?case by (auto simp: assertMips64Fun_def Let_def split: prod.split)
next
  case (2 x)
  show ?case using assms by (auto simp: set_reg_def unat_gt_0 regs_ok_update split: prod.split)
qed

lemmas res_if = if_distrib [where f = "res_ok (\<lambda>_. True)"]

lemma execSpecial_ok: "res_ok (\<lambda>_. True) (execSpecial insn f rs rt)"
  unfolding execSpecial_def Let_def
  by (simp only: res_if res_ok_simps assertMips64_def arch_consts if_False guest_fault.simps if_cancel cong: if_cong)

lemma execLoadStore_ok: "res_ok (\<lambda>_. True) (execLoadStore insn opcode f rs rt mem)"
  unfolding execLoadStore_def Let_def
  by (simp only: res_if res_ok_simps assertMips64_def arch_consts if_False guest_fault.simps if_cancel cong: if_cong)

lemma ExecuteMipsInstruction_ok: "res_ok (\<lambda>_. True) (ExecuteMipsInstruction insn opcode f rs rt mem)"
  by (simp add: ExecuteMipsInstruction_def execSpecial_ok execLoadStore_ok)

lemma fetchOperands_ok: "res_ok (\<lambda>(rt, rd). rd < 32) (fetchOperands regs insn opcode)"
  by (auto simp: fetchOperands_def Let_def assertMips64_def reg_index_lt)

definition core_rel :: "(bytes \<Rightarrow> bytes) \<Rightarrow> core \<times> bool \<times> Word \<Rightarrow> core \<times> bool \<times> Word \<Rightarrow> bool" where
  "core_rel keccak = (\<lambda>((c, r, n, u), upd, addr) ((c', r', n', u'), upd', addr').
     c = c' \<and> r = r' \<and> regs_ok r \<and> mem_rel keccak n n' \<and> upd = upd' \<and> addr = addr')"

text \<open>The memory access at the start of a load or store, and the one that completes a store.\<close>

lemma core_fetch_rel:
  assumes "mem_rel keccak m m'" "fresh t" "fresh t'" "(rd :: Word) < 32"
  shows "rel_res (\<lambda>(rs, mem, sa, rd, n, u) (rs', mem', sa', rd', n', u').
      rs = rs' \<and> mem = mem' \<and> sa = sa' \<and> rd = rd' \<and> rd < 32 \<and> mem_rel keccak n n' \<and>
      (sa = NOT 0 \<or> (sa AND ExtMask = 0 \<and> tracks u sa \<and> tracks u' sa)))
    (if b then rbind (TrackMemAccess keccak m t (rs AND AddressMask)) (\<lambda>(m, t).
       rbind (GetWord m (rs AND AddressMask)) (\<lambda>(mem, m).
       if c then Inr (rs, mem, rs AND AddressMask, 0, m, t) else Inr (rs, mem, NOT 0, rd, m, t)))
     else Inr (rs0, 0, NOT 0, rd, m, t))
    (if b then rbind (TrackMemAccess keccak m' t' (rs AND AddressMask)) (\<lambda>(m, t).
       rbind (GetWord m (rs AND AddressMask)) (\<lambda>(mem, m).
       if c then Inr (rs, mem, rs AND AddressMask, 0, m, t) else Inr (rs, mem, NOT 0, rd, m, t)))
     else Inr (rs0, 0, NOT 0, rd, m', t'))"
proof (cases b)
  case True
  show ?thesis
    unfolding if_P [OF True]
    by (rule rel_rbind [OF TrackMemAccess_rel [OF assms(1) fresh_tracks [OF assms(2)] fresh_tracks [OF assms(3)]]],
        clarsimp, rule rel_rbind [OF GetWord_rel], assumption, simp)
      (auto simp: tracked_tracks assms(4))
qed (use assms in auto)

lemma core_store_rel:
  assumes "mem_rel keccak n n'" "sa = NOT 0 \<or> (sa AND ExtMask = 0 \<and> tracks u sa \<and> tracks u' sa)"
  shows "rel_res (\<lambda>(n, u, upd, addr) (n', u', upd', addr'). mem_rel keccak n n' \<and> upd = upd' \<and> addr = addr')
    (if sa \<noteq> NOT 0 then rbind (TrackMemAccess keccak n u sa) (\<lambda>(m, t).
       rbind (SetWord m sa val) (\<lambda>m. Inr (m, t, True, sa))) else Inr (n, u, False, 0))
    (if sa \<noteq> NOT 0 then rbind (TrackMemAccess keccak n' u' sa) (\<lambda>(m, t).
       rbind (SetWord m sa val) (\<lambda>m. Inr (m, t, True, sa))) else Inr (n', u', False, 0))"
proof (cases "sa = NOT 0")
  case False
  with assms(2) have sa: "sa AND ExtMask = 0" "tracks u sa" "tracks u' sa" by auto
  show ?thesis
    unfolding if_P [OF False]
    by (rule rel_rbind [OF TrackMemAccess_rel [OF assms(1) sa(2,3)]], clarsimp,
        rule rel_rbind [OF SetWord_rel [OF _ sa(1)]], assumption, simp)
qed (use assms in auto)

lemma core_special_ok:
  assumes "regs_ok regs" "rd < 32"
  shows "res_ok (\<lambda>(c, rs). regs_ok rs)
    (if f = 8 \<or> f = 9 then HandleJump cpu regs (if f = 9 then rd else 0) rs
     else if f = 0xA then HandleRd cpu regs rd rs (rt = 0)
     else if f = 0xB then HandleRd cpu regs rd rs (rt \<noteq> 0)
     else HandleHiLo cpu regs f rs rt rd)"
  using HandleJump_ok [OF assms(1), of "if f = 9 then rd else 0" cpu rs] HandleRd_ok [OF assms, of cpu rs]
    HandleHiLo_ok [OF assms, of cpu f rs rt] assms(2)
  by (simp split: if_split)

lemma core_finish_rel:
  assumes "regs_ok regs" "rd < 32" "mem_rel keccak n n'"
    "sa = NOT 0 \<or> (sa AND ExtMask = 0 \<and> tracks u sa \<and> tracks u' sa)"
  shows "rel_res (core_rel keccak)
    (if b then rbind (if f = 8 \<or> f = 9 then HandleJump cpu regs (if f = 9 then rd else 0) rs
       else if f = 0xA then HandleRd cpu regs rd rs (rt = 0)
       else if f = 0xB then HandleRd cpu regs rd rs (rt \<noteq> 0)
       else HandleHiLo cpu regs f rs rt rd)
       (\<lambda>(cpu, registers). Inr ((cpu, registers, n, u), False, 0))
     else rbind (if sa \<noteq> NOT 0 then rbind (TrackMemAccess keccak n u sa) (\<lambda>(m, t).
         rbind (SetWord m sa val) (\<lambda>m. Inr (m, t, True, sa))) else Inr (n, u, False, 0))
       (\<lambda>(m, t, memUpdated, effMemAddr). rbind (HandleRd cpu regs rd val True) (\<lambda>(cpu, registers).
          Inr ((cpu, registers, m, t), memUpdated, effMemAddr))))
    (if b then rbind (if f = 8 \<or> f = 9 then HandleJump cpu regs (if f = 9 then rd else 0) rs
       else if f = 0xA then HandleRd cpu regs rd rs (rt = 0)
       else if f = 0xB then HandleRd cpu regs rd rs (rt \<noteq> 0)
       else HandleHiLo cpu regs f rs rt rd)
       (\<lambda>(cpu, registers). Inr ((cpu, registers, n', u'), False, 0))
     else rbind (if sa \<noteq> NOT 0 then rbind (TrackMemAccess keccak n' u' sa) (\<lambda>(m, t).
         rbind (SetWord m sa val) (\<lambda>m. Inr (m, t, True, sa))) else Inr (n', u', False, 0))
       (\<lambda>(m, t, memUpdated, effMemAddr). rbind (HandleRd cpu regs rd val True) (\<lambda>(cpu, registers).
          Inr ((cpu, registers, m, t), memUpdated, effMemAddr))))"
proof (cases b)
  case True
  show ?thesis
    unfolding if_P [OF True]
    by (rule rel_rbind [OF rel_of_ok [OF core_special_ok [OF assms(1,2)]]]) (auto simp: core_rel_def assms(3))
next
  case False
  show ?thesis
    unfolding if_not_P [OF False]
    by (rule rel_rbind [OF core_store_rel [OF assms(3,4)]], clarify,
        rule rel_rbind [OF rel_of_ok [OF HandleRd_ok [OF assms(1,2)]]]) (auto simp: core_rel_def)
qed

lemma ExecMipsCoreStepLogic_rel [rel_rules]:
  assumes "mem_rel keccak m m'" "fresh t" "fresh t'" "regs_ok regs"
  shows "rel_res (core_rel keccak)
    (ExecMipsCoreStepLogic keccak (cpu, regs, m, t) insn opcode f)
    (ExecMipsCoreStepLogic keccak (cpu, regs, m', t') insn opcode f)"
proof (cases "opcode = 2 \<or> opcode = 3")
  case True
  have "rel_res (\<lambda>x y. x = y \<and> (\<lambda>(c, rs). regs_ok rs) x) (HandleJump cpu regs (if opcode = 3 then RegRA else 0) d)
      (HandleJump cpu regs (if opcode = 3 then RegRA else 0) d)" for d
    by (rule rel_of_ok [OF HandleJump_ok [OF assms(4)]]) (simp add: RegRA_def)
  with True assms show ?thesis
    unfolding ExecMipsCoreStepLogic_def split_conv Let_def
    by (simp only: if_True) (rule rel_rbind, assumption, auto simp: core_rel_def)
next
  case False
  show ?thesis
    unfolding ExecMipsCoreStepLogic_def split_conv Let_def if_not_P [OF False]
  proof (rule rel_rbind [OF rel_of_ok [OF fetchOperands_ok]], clarify, goal_cases)
    case (1 _ _ rt rd)
    show ?case
    proof (cases "(4 \<le> opcode \<and> opcode < 8) \<or> opcode = 1")
      case True
      then show ?thesis
        unfolding if_P [OF True]
        by (intro rel_rbind [OF rel_of_ok [OF HandleBranch_ok [OF assms(4)]]]) (auto simp: core_rel_def assms(1))
    next
      case False
      show ?thesis
        unfolding if_not_P [OF False]
      proof (rule rel_rbind [OF core_fetch_rel [OF assms(1-3)]], goal_cases)
        case 1
        then show ?case using \<open>rd < 32\<close> .
      next
        case (2 x y)
        obtain rs mem sa rd n u n' u' where xy: "x = (rs, mem, sa, rd, n, u)" "y = (rs, mem, sa, rd, n', u')" "rd < 32"
          "mem_rel keccak n n'" "sa = NOT 0 \<or> (sa AND ExtMask = 0 \<and> tracks u sa \<and> tracks u' sa)"
          using 2 by (cases x; cases y) auto
        show ?case
          unfolding xy(1,2) split_conv
          by (rule rel_rbind [OF rel_of_ok [OF ExecuteMipsInstruction_ok]], clarify)
            (rule core_finish_rel [OF assms(4) xy(3-5)])
      qed
    qed
  qed
qed

end
