(* ===== verification/CannonStepRel.thy ===== *)
theory CannonStepRel
  imports CannonRel
begin

text \<open>
  The two-run argument of \<open>CannonRel\<close> for the system calls, the scheduler and the whole step.
\<close>

section \<open>Reading memory ranges\<close>

lemma unat_AddressMask: "unat (a AND AddressMask) = unat a div 8 * 8"
proof -
  have am: "AddressMask = NOT (mask 3)" by (simp add: AddressMask_def mask_eq_exp_minus_1)
  have "unat (a AND AddressMask) = push_bit 3 (drop_bit 3 (unat a))"
    by (rule bit_eqI) (auto simp: am bit_simps dest: bit_imp_le_length)
  then show ?thesis by (simp add: push_bit_eq_mult drop_bit_eq_div)
qed

lemma word_in_page:
  fixes x :: nat
  shows "x div 8 * 8 div 4096 = x div 4096" "x div 8 * 8 mod 4096 + x mod 8 = x mod 4096"
    "x div 8 * 8 mod 4096 + 8 \<le> 4096"
proof -
  have "x div 8 * 8 div (8 * 512) = x div 8 div 512" by (simp only: div_mult2_eq)
  also have "\<dots> = x div 4096" by (simp flip: div_mult2_eq)
  finally show "x div 8 * 8 div 4096 = x div 4096" by simp
  have "x div 8 * 8 mod (8 * 512) = x div 8 mod 512 * 8" by (metis mult.commute mult_mod_right)
  then have a: "x div 8 * 8 mod 4096 = x div 8 mod 512 * 8" by simp
  have "x mod (8 * 512) = 8 * (x div 8 mod 512) + x mod 8" by (rule mod_mult2_eq)
  then show "x div 8 * 8 mod 4096 + x mod 8 = x mod 4096" using a by simp
  have "x div 8 mod 512 < 512" by simp
  then show "x div 8 * 8 mod 4096 + 8 \<le> 4096" using a by linarith
qed

lemma byte_at_word:
  assumes "mem_wf m"
  shows "byte_at m a = be_bytes 8 (word_at m (a AND AddressMask)) ! (unat a mod 8)"
proof -
  define b where "b = a AND AddressMask"
  define x where "x = unat a"
  have ub: "unat b = x div 8 * 8" by (simp add: b_def x_def unat_AddressMask)
  note page = word_in_page [of x]
  have dp: "drop_bit 12 b = drop_bit 12 a"
    unfolding word_unat_eq_iff unat_page_index ub using page(1) by (simp add: x_def)
  show ?thesis
  proof (cases "page_at m (drop_bit 12 a)")
    case None
    then show ?thesis by (simp add: byte_at_def word_at_def dp be_bytes_0 flip: b_def)
  next
    case (Some p)
    have len: "length (Data p) = 4096"
      using Some mem_wf_page [OF assms] by (auto simp: page_at_def page_wf_def)
    have "be_bytes 8 (page_word p (x div 8 * 8 mod 4096)) = go_slice (Data p) (x div 8 * 8 mod 4096) (x div 8 * 8 mod 4096 + 8)"
      using be_bytes_be_word [of "go_slice (Data p) (x div 8 * 8 mod 4096) (x div 8 * 8 mod 4096 + 8)", where ?'a = 64] page(3) len
      by (simp add: page_word_def)
    then show ?thesis using Some page(2,3) len
      by (simp add: byte_at_def word_at_def dp and_PageAddrMask ub nth_go_slice flip: b_def x_def)
  qed
qed

lemma mem_rel_byte_at: "mem_rel keccak m m' \<Longrightarrow> byte_at m = byte_at m'"
  by (rule ext) (simp add: byte_at_word mem_relD(3,4) mem_relD(5) [where a = "_ AND AddressMask"])

lemma mem_rel_same_pages:
  assumes "mem_rel keccak m m'" "mem_wf n" "same_pages m n" "mem_wf n'" "same_pages m' n'"
  shows "mem_rel keccak n n'"
proof -
  note d = mem_relD [OF assms(1)]
  have "merkle_wf keccak n" "merkle_wf keccak n'"
    using same_pages_merkle_wf [OF assms(3,2) d(1)] same_pages_merkle_wf [OF assms(5,4) d(2)] .
  then show ?thesis
    using d(5) same_pages_word_at [OF assms(3)] same_pages_word_at [OF assms(5)] by (simp add: mem_rel_def)
qed

lemma memReader_Read_rel:
  assumes "mem_rel keccak m m'"
  shows "rel_res (\<lambda>(r, n) (r', n'). r = r' \<and> mem_rel keccak n n' \<and> (\<forall>c a k. r = Some (c, a, k) \<longrightarrow> c \<noteq> []))
    (memReader_Read m a c (Suc k)) (memReader_Read m' a c (Suc k))"
proof -
  note d = mem_relD [OF assms]
  consider "c = 0" | "c \<noteq> 0" "range_ok a c" | "c \<noteq> 0" "\<not> range_ok a c" by blast
  then show ?thesis
  proof cases
    case 1
    then show ?thesis using assms by (simp add: memReader_Read_def)
  next
    case 2
    obtain n p where n: "memReader_Read m a c (Suc k) = Inr (Some (mem_bytes m a n, a + of_nat n, c - of_nat n), p)"
      "0 < n" "n \<le> unat c" "mem_wf p" "same_pages m p"
      "n = min (Suc k) (unat (read_end a c) - unat a mod 4096)" by (rule memReader_Read_correct [OF d(3) 2])
    obtain n' p' where n': "memReader_Read m' a c (Suc k) = Inr (Some (mem_bytes m' a n', a + of_nat n', c - of_nat n'), p')"
      "0 < n'" "n' \<le> unat c" "mem_wf p'" "same_pages m' p'"
      "n' = min (Suc k) (unat (read_end a c) - unat a mod 4096)" by (rule memReader_Read_correct [OF d(4) 2])
    have nn: "n' = n" using n(6) n'(6) by (simp only:)
    have eq: "mem_bytes m' a n = mem_bytes m a n" using mem_rel_byte_at [OF assms] by (simp add: mem_bytes_def)
    have "mem_bytes m a n \<noteq> []" using n(2) by (simp add: mem_bytes_def)
    then show ?thesis
      unfolding n(1) n'(1) nn eq using mem_rel_same_pages [OF assms n(4,5) n'(4,5)] by simp
  next
    case 3
    then show ?thesis by (simp add: memReader_Read_def range_ok_def Let_def split: prod.split)
  qed
qed

lemma io_ReadAll_rel [rel_rules]:
  assumes "mem_rel keccak m m'"
  shows "rel_res (\<lambda>(d, n) (d', n'). d = d' \<and> mem_rel keccak n n') (io_ReadAll bufs i m a c) (io_ReadAll bufs i m' a c)"
  using assms
proof (induction bufs i m a c arbitrary: m' rule: io_ReadAll.induct)
  case (1 bufs i m a c)
  show ?case
    unfolding io_ReadAll.simps [of bufs i m a c] io_ReadAll.simps [of bufs i m' a c]
  proof (cases "memReader_Read m a c (Suc (bufs i))")
    case (Inl e)
    with memReader_Read_rel [OF "1.prems", of a c "bufs i"]
    show "rel_res (\<lambda>(d, n) (d', n'). d = d' \<and> mem_rel keccak n n')
       (rbind (memReader_Read m a c (Suc (bufs i))) (\<lambda>(r, m). case r of None \<Rightarrow> Inr ([], m)
          | Some (chunk, addr', count') \<Rightarrow> if chunk = [] then Inl NoProgress
            else rbind (io_ReadAll bufs (Suc i) m addr' count') (\<lambda>(rest, m). Inr (chunk @ rest, m))))
       (rbind (memReader_Read m' a c (Suc (bufs i))) (\<lambda>(r, m). case r of None \<Rightarrow> Inr ([], m)
          | Some (chunk, addr', count') \<Rightarrow> if chunk = [] then Inl NoProgress
            else rbind (io_ReadAll bufs (Suc i) m addr' count') (\<lambda>(rest, m). Inr (chunk @ rest, m))))"
      by (cases "memReader_Read m' a c (Suc (bufs i))") simp_all
  next
    case (Inr x)
    obtain r n where x: "x = (r, n)" by fastforce
    from memReader_Read_rel [OF "1.prems", of a c "bufs i"] Inr x obtain n'
      where n': "memReader_Read m' a c (Suc (bufs i)) = Inr (r, n')" "mem_rel keccak n n'"
        "\<And>c a k. r = Some (c, a, k) \<Longrightarrow> c \<noteq> []"
      by (cases "memReader_Read m' a c (Suc (bufs i))") auto
    have ih: "rel_res (\<lambda>(d, n) (d', n'). d = d' \<and> mem_rel keccak n n')
        (io_ReadAll bufs (Suc i) n a' c') (io_ReadAll bufs (Suc i) n' a' c')" if "r = Some (ch, a', c')" for ch a' c'
      using "1.IH" [OF Inr x [symmetric] that refl refl n'(3) [OF that] n'(2)] .
    show "rel_res (\<lambda>(d, n) (d', n'). d = d' \<and> mem_rel keccak n n')
       (rbind (memReader_Read m a c (Suc (bufs i))) (\<lambda>(r, m). case r of None \<Rightarrow> Inr ([], m)
          | Some (chunk, addr', count') \<Rightarrow> if chunk = [] then Inl NoProgress
            else rbind (io_ReadAll bufs (Suc i) m addr' count') (\<lambda>(rest, m). Inr (chunk @ rest, m))))
       (rbind (memReader_Read m' a c (Suc (bufs i))) (\<lambda>(r, m). case r of None \<Rightarrow> Inr ([], m)
          | Some (chunk, addr', count') \<Rightarrow> if chunk = [] then Inl NoProgress
            else rbind (io_ReadAll bufs (Suc i) m addr' count') (\<lambda>(rest, m). Inr (chunk @ rest, m))))"
    proof (cases r)
      case None
      with Inr x n' show ?thesis by simp
    next
      case (Some y)
      obtain ch a' c' where y: "y = (ch, a', c')" by (cases y) auto
      have "rel_res (\<lambda>(d, n) (d', n'). d = d' \<and> mem_rel keccak n n')
         (rbind (io_ReadAll bufs (Suc i) n a' c') (\<lambda>(rest, m). Inr (ch @ rest, m)))
         (rbind (io_ReadAll bufs (Suc i) n' a' c') (\<lambda>(rest, m). Inr (ch @ rest, m)))"
        by (rule rel_rbind [OF ih [OF Some [unfolded y]]]) auto
      then show ?thesis using Inr x n'(1) n'(3) [OF Some [unfolded y]] Some y by simp
    qed
  qed
qed

section \<open>Preimages and hints\<close>

lemma process_hints_ok: "res_ok (\<lambda>_. True) (process_hints po b)"
proof (induction po b rule: process_hints.induct)
  case (1 po b)
  then show ?case by (subst process_hints.simps) (simp add: Let_def)
qed

lemma ReadPreimage_ok: "res_ok (\<lambda>_. True) (ReadPreimage getPreimage p k off)"
  by (simp add: ReadPreimage_def Let_def split: prod.split)

lemma key_update_length:
  assumes "length key = 32" "n \<le> 8 - al" "al < 8"
  shows "length (overwrite (overwrite key 0 (drop n key)) (32 - n) (take n (drop al (be_bytes 8 (w :: Word))))) = 32"
  using assms by simp

lemma HandleSysRead_rel [rel_rules]:
  assumes "mem_rel keccak m m'" "fresh t" "fresh t'"
  shows "rel_res (\<lambda>((r :: Word \<times> Word \<times> Word \<times> bool \<times> Word), po, n, u) (r', po', n', u').
      r = r' \<and> po = po' \<and> mem_rel keccak n n')
    (HandleSysRead keccak gp a0 a1 a2 key off p m t) (HandleSysRead keccak gp a0 a1 a2 key off p m' t')"
proof (cases "a0 = FdPreimageRead")
  case True
  then have ne: "a0 \<noteq> FdStdin" by (simp add: fd_defs)
  show ?thesis
    unfolding HandleSysRead_def Let_def if_not_P [OF ne] if_P [OF True]
    by (rule rel_rbind [OF TrackMemAccess_rel [OF assms(1) fresh_tracks [OF assms(2)] fresh_tracks [OF assms(3)]]],
        clarify, rule rel_rbind [OF GetWord_rel], assumption, rule aligned_AddressMask, clarify,
        rule rel_rbind [OF rel_of_ok [OF ReadPreimage_ok]], clarify,
        rule rel_rbind [OF SetWord_rel], assumption, rule aligned_AddressMask) simp
qed (simp add: HandleSysRead_def assms)

lemma HandleSysWrite_rel [rel_rules]:
  assumes "mem_rel keccak m m'" "fresh t" "fresh t'" "length key = 32"
  shows "rel_res (\<lambda>((v0 :: Word, v1 :: Word, lh, k, off :: Word), po, n, u, out, err) (r', po', n', u', out', err').
      (v0, v1, lh, k, off) = r' \<and> length k = 32 \<and> po = po' \<and> mem_rel keccak n n' \<and> out = out' \<and> err = err')
    (HandleSysWrite keccak bufs a0 a1 a2 lh key off p m t out err)
    (HandleSysWrite keccak bufs a0 a1 a2 lh key off p m' t' out err)"
proof -
  consider "a0 = FdStdout" | "a0 = FdStderr" | "a0 = FdHintWrite" | "a0 = FdPreimageWrite"
    | "a0 \<notin> {FdStdout, FdStderr, FdHintWrite, FdPreimageWrite}" by blast
  then show ?thesis
  proof cases
    case 1
    then show ?thesis unfolding HandleSysWrite_def if_P [OF 1]
      by (intro rel_rbind [OF io_ReadAll_rel [OF assms(1)]]) (auto simp: assms(4))
  next
    case 2
    then have "a0 \<noteq> FdStdout" by (simp add: fd_defs)
    then show ?thesis unfolding HandleSysWrite_def if_not_P [OF \<open>a0 \<noteq> FdStdout\<close>] if_P [OF 2]
      by (intro rel_rbind [OF io_ReadAll_rel [OF assms(1)]]) (auto simp: assms(4))
  next
    case 3
    then have ne: "a0 \<noteq> FdStdout" "a0 \<noteq> FdStderr" by (simp_all add: fd_defs)
    show ?thesis unfolding HandleSysWrite_def if_not_P [OF ne(1)] if_not_P [OF ne(2)] if_P [OF 3]
      by (intro rel_rbind [OF io_ReadAll_rel [OF assms(1)]], clarsimp,
          intro rel_rbind [OF rel_of_ok [OF process_hints_ok]]) (auto simp: assms(4))
  next
    case 4
    then have ne: "a0 \<noteq> FdStdout" "a0 \<noteq> FdStderr" "a0 \<noteq> FdHintWrite" by (simp_all add: fd_defs)
    define al where "al = unat (a1 AND ExtMask)"
    have al: "al < 8" by (simp add: al_def and_ExtMask take_bit_eq_mod unat_mod)
    have sp: "unat (8 - (a1 AND ExtMask)) = 8 - al"
      using al by (subst unat_sub) (simp_all add: word_le_nat_alt al_def less_imp_le)
    have "unat a2 \<le> 8 - al" if "\<not> 8 - (a1 AND ExtMask) < a2"
      using that unfolding not_less word_le_nat_alt sp .
    note kl = key_update_length [OF assms(4) eq_refl [OF sp] al, unfolded al_def]
      key_update_length [OF assms(4) this al, unfolded al_def]
    show ?thesis
      unfolding HandleSysWrite_def Let_def if_not_P [OF ne(1)] if_not_P [OF ne(2)] if_not_P [OF ne(3)] if_P [OF 4]
      by (rule rel_rbind [OF TrackMemAccess_rel [OF assms(1) fresh_tracks [OF assms(2)] fresh_tracks [OF assms(3)]]],
          clarify, rule rel_rbind [OF GetWord_rel], assumption, rule aligned_AddressMask, clarsimp simp: kl)
  next
    case 5
    then show ?thesis by (simp add: HandleSysWrite_def assms)
  qed
qed

section \<open>The invariant of the machine state\<close>

definition all_threads :: "State \<Rightarrow> ThreadState list" where
  "all_threads s = LeftThreadStack s @ RightThreadStack s"

text \<open>A state in which no thread has exited: what the instruction handlers start from.\<close>

definition st_live :: "State \<Rightarrow> bool" where
  "st_live s \<longleftrightarrow> getActiveThreadStack s \<noteq> [] \<and>
     (\<forall>t \<in> set (all_threads s). regs_ok (Registers t) \<and> \<not> tExited t) \<and>
     length (PreimageKey s) = 32 \<and> StepsSinceLastContextSwitch s \<le> SchedQuantum"

text \<open>The invariant between steps: only the current thread may have exited, and then the machine has
  exited too or another thread remains.\<close>

definition st_wf :: "State \<Rightarrow> bool" where
  "st_wf s \<longleftrightarrow> getActiveThreadStack s \<noteq> [] \<and>
     (\<forall>t \<in> set (all_threads s). regs_ok (Registers t)) \<and>
     (\<forall>t \<in> set (butlast (getActiveThreadStack s) @ (if TraverseRight s then LeftThreadStack s else RightThreadStack s)). \<not> tExited t) \<and>
     (tExited (last (getActiveThreadStack s)) \<longrightarrow> Exited s \<or> 2 \<le> ThreadCount s) \<and>
     length (PreimageKey s) = 32 \<and> StepsSinceLastContextSwitch s \<le> SchedQuantum"

lemma live_wf: "st_live s \<Longrightarrow> st_wf s"
  by (auto simp: st_live_def st_wf_def all_threads_def getActiveThreadStack_def dest: in_set_butlastD)

lemma wf_live:
  assumes "st_wf s" "\<not> tExited (last (getActiveThreadStack s))"
  shows "st_live s"
proof -
  have "set (getActiveThreadStack s) \<subseteq> insert (last (getActiveThreadStack s)) (set (butlast (getActiveThreadStack s)))"
    using assms(1) unfolding st_wf_def by (metis append_butlast_last_id list.simps(15) rotate1.simps(2) set_rotate1 subset_refl)
  with assms show ?thesis
    by (auto simp: st_wf_def st_live_def all_threads_def getActiveThreadStack_def split: if_splits)
qed

lemma live_current:
  assumes "st_live s"
  shows "GetCurrentThread s = Inr (last (getActiveThreadStack s))"
    "regs_ok (Registers (last (getActiveThreadStack s)))" "\<not> tExited (last (getActiveThreadStack s))"
  using assms by (auto simp: st_live_def GetCurrentThread_def getActiveThreadStack_def all_threads_def split: if_splits)

lemma live_set_current:
  "st_live s \<Longrightarrow> regs_ok (Registers th) \<Longrightarrow> \<not> tExited th \<Longrightarrow> st_live (setCurrentThread s th)"
  by (auto simp: st_live_def setCurrentThread_def all_threads_def getActiveThreadStack_def dest: in_set_butlastD)

text \<open>Fields the invariant does not look at.\<close>

lemma live_frame [simp]:
  "st_live (s\<lparr>Mem := x\<rparr>) = st_live s"
  "st_live (s\<lparr>Heap := w\<rparr>) = st_live s"
  "st_live (s\<lparr>PreimageOffset := w\<rparr>) = st_live s"
  "st_live (s\<lparr>LLReservationStatus := b\<rparr>) = st_live s"
  "st_live (s\<lparr>LLAddress := w\<rparr>) = st_live s"
  "st_live (s\<lparr>LLOwnerThread := w\<rparr>) = st_live s"
  "st_live (s\<lparr>Step := w\<rparr>) = st_live s"
  "st_live (s\<lparr>Exited := c\<rparr>) = st_live s"
  "st_live (s\<lparr>ExitCode := b\<rparr>) = st_live s"
  "st_live (s\<lparr>NextThreadId := w\<rparr>) = st_live s"
  "st_live (s\<lparr>LastHint := h\<rparr>) = st_live s"
  by (simp_all add: st_live_def all_threads_def getActiveThreadStack_def)

lemma wf_frame [simp]:
  "st_wf (s\<lparr>Mem := x\<rparr>) = st_wf s"
  "st_wf (s\<lparr>Step := w\<rparr>) = st_wf s"
  by (simp_all add: st_wf_def all_threads_def getActiveThreadStack_def ThreadCount_def)

lemma active_Mem [simp]:
  "getActiveThreadStack (s\<lparr>Mem := x\<rparr>) = getActiveThreadStack s"
  "GetCurrentThread (s\<lparr>Mem := x\<rparr>) = GetCurrentThread s"
  "setCurrentThread (s\<lparr>Mem := x\<rparr>) th = (setCurrentThread s th)\<lparr>Mem := x\<rparr>"
  "ThreadCount (s\<lparr>Mem := x\<rparr>) = ThreadCount s"
  by (simp_all add: getActiveThreadStack_def GetCurrentThread_def setCurrentThread_def ThreadCount_def)

section \<open>Related machines\<close>

definition vm_rel :: "(bytes \<Rightarrow> bytes) \<Rightarrow> InstrumentedState \<Rightarrow> InstrumentedState \<Rightarrow> bool" where
  "vm_rel keccak m m' \<longleftrightarrow> mem_rel keccak (Mem (state m)) (Mem (state m')) \<and>
     m' = putMem m (Mem (state m')) (memoryTracker m')"

definition step_rel :: "(bytes \<Rightarrow> bytes) \<Rightarrow> InstrumentedState \<Rightarrow> InstrumentedState \<Rightarrow> bool" where
  "step_rel keccak m m' \<longleftrightarrow> vm_rel keccak m m' \<and> st_wf (state m)"

lemma putMem_simps [simp]:
  "state (putMem m x t) = (state m)\<lparr>Mem := x\<rparr>"
  "memoryTracker (putMem m x t) = t"
  "preimageOracle (putMem m x t) = preimageOracle m"
  "stdOut (putMem m x t) = stdOut m"
  "stdErr (putMem m x t) = stdErr m"
  "putMem (putMem m x t) y u = putMem m y u"
  by (simp_all add: putMem_def)

lemma putMem_self: "putMem m (Mem (state m)) (memoryTracker m) = m"
  by (simp add: putMem_def)

lemma vm_rel_put: "mem_rel keccak (Mem (state m)) x \<Longrightarrow> vm_rel keccak m (putMem m x t)"
  by (simp add: vm_rel_def)

lemma vm_rel_puts: "mem_rel keccak x y \<Longrightarrow> vm_rel keccak (putMem m x t) (putMem m y u)"
  by (simp add: vm_rel_def)

text \<open>Operations that do not read memory or tracker commute with replacing them.\<close>

lemma putMem_putCore [simp]: "putCore (putMem m x t) th c = putMem (putCore m th c) x t"
  by (cases c) (simp add: putCore_def putMem_def)

lemma putMem_finishSyscall [simp]: "finishSyscall (putMem m x t) th v0 v1 = putMem (finishSyscall m th v0 v1) x t"
  by (simp add: finishSyscall_def)

lemma putMem_LL [simp]:
  "clearLLMemoryReservation (putMem m x t) = putMem (clearLLMemoryReservation m) x t"
  "handleMemoryUpdate (putMem m x t) a = putMem (handleMemoryUpdate m a) x t"
  by (simp_all add: handleMemoryUpdate_def clearLLMemoryReservation_def putMem_def)

lemma putMem_threads [simp]:
  "pushThread (putMem m x t) th = putMem (pushThread m th) x t"
  "lastThreadRemaining (putMem m x t) = lastThreadRemaining m"
  by (simp_all add: pushThread_def Let_def putMem_def lastThreadRemaining_def)

lemma putMem_state_update:
  "(putMem m x t)\<lparr>state := s\<lparr>Mem := y\<rparr>\<rparr> = putMem (m\<lparr>state := s\<rparr>) y t"
  by (simp add: putMem_def)

lemma putMem_sysClone [simp]: "sysClone (putMem m x t) th a0 a1 = putMem (sysClone m th a0 a1) x t"
  by (simp add: sysClone_def Let_def finishSyscall_def putCore_def pushThread_def putMem_def HandleSyscallUpdates_def
      setCurrentThread_def)

lemma putMem_sysExit [simp]: "sysExit (putMem m x t) th a0 = putMem (sysExit m th a0) x t"
  by (simp add: sysExit_def Let_def lastThreadRemaining_def putMem_def)

lemma Mem_frames [simp]:
  "Mem (setCurrentThread s th) = Mem s"
  "Mem (state (putCore m th c)) = Mem (state m)"
  "Mem (state (finishSyscall m th v0 v1)) = Mem (state m)"
  "Mem (state (clearLLMemoryReservation m)) = Mem (state m)"
  "Mem (state (handleMemoryUpdate m a)) = Mem (state m)"
  "Mem (state (pushThread m th)) = Mem (state m)"
  "Mem (state (sysClone m th a0 a1)) = Mem (state m)"
  "Mem (state (sysExit m th a0)) = Mem (state m)"
  by (simp_all add: setCurrentThread_def putCore_def finishSyscall_def clearLLMemoryReservation_def
      handleMemoryUpdate_def pushThread_def sysClone_def sysExit_def Let_def split: prod.splits)

section \<open>Handlers keep the invariant\<close>

lemma live_putCore:
  "st_live (state m) \<Longrightarrow> regs_ok regs \<Longrightarrow> \<not> tExited th \<Longrightarrow> st_live (state (putCore m th (cpu, regs)))"
  by (simp add: putCore_def live_set_current)

lemma live_finish:
  "st_live (state m) \<Longrightarrow> regs_ok (Registers th) \<Longrightarrow> \<not> tExited th \<Longrightarrow> st_live (state (finishSyscall m th v0 v1))"
  by (simp add: finishSyscall_def HandleSyscallUpdates_def live_putCore regs_ok_update arch_defs)

lemma live_LL:
  "st_live (state m) \<Longrightarrow> st_live (state (clearLLMemoryReservation m))"
  "st_live (state m) \<Longrightarrow> st_live (state (handleMemoryUpdate m a))"
  by (simp_all add: clearLLMemoryReservation_def handleMemoryUpdate_def)

lemma live_push:
  "st_live (state m) \<Longrightarrow> regs_ok (Registers th) \<Longrightarrow> \<not> tExited th \<Longrightarrow> st_live (state (pushThread m th))"
  by (auto simp: st_live_def pushThread_def Let_def all_threads_def getActiveThreadStack_def)

lemma live_clone:
  assumes "st_live (state m)" "regs_ok (Registers th)" "\<not> tExited th"
  shows "st_live (state (sysClone m th a0 a1))"
  unfolding sysClone_def Let_def using assms
  by (auto intro!: live_push live_finish simp: regs_ok_update arch_defs)

lemma wf_exit:
  assumes "st_live (state m)" "regs_ok (Registers th)"
  shows "st_wf (state (sysExit m th a0))"
  using assms
  by (auto simp: sysExit_def Let_def lastThreadRemaining_def st_live_def st_wf_def setCurrentThread_def all_threads_def
      getActiveThreadStack_def ThreadCount_def Suc_le_eq dest: in_set_butlastD)

lemma neq_Nil_snoc: "xs \<noteq> [] \<longleftrightarrow> (\<exists>ys y. xs = ys @ [y])"
  by (cases xs rule: rev_cases) auto

text \<open>The outcome of a preemption in closed form: the thread changes stacks, and the direction turns when
  its old stack has run empty.\<close>

definition preempted :: "State \<Rightarrow> ThreadState \<Rightarrow> State" where
  "preempted s th =
    (if TraverseRight s
     then s\<lparr>RightThreadStack := butlast (RightThreadStack s), LeftThreadStack := LeftThreadStack s @ [th],
            TraverseRight := (butlast (RightThreadStack s) \<noteq> []), StepsSinceLastContextSwitch := 0\<rparr>
     else s\<lparr>LeftThreadStack := butlast (LeftThreadStack s), RightThreadStack := RightThreadStack s @ [th],
            TraverseRight := (butlast (LeftThreadStack s) = []), StepsSinceLastContextSwitch := 0\<rparr>)"

lemma preemptThread_eq:
  assumes "getActiveThreadStack (state m) \<noteq> []"
  shows "preemptThread m th = Inr (TraverseRight (preempted (state m) th) \<noteq> TraverseRight (state m),
           m\<lparr>state := preempted (state m) th\<rparr>)"
proof (cases "TraverseRight (state m)")
  case True
  then obtain xs y where "RightThreadStack (state m) = xs @ [y]"
    using assms by (auto simp: getActiveThreadStack_def neq_Nil_snoc)
  with True show ?thesis
    by (cases "state m", cases "xs = []")
      (simp_all add: preemptThread_def preempted_def getActiveThreadStack_def GetCurrentThread_def)
next
  case False
  then obtain xs y where "LeftThreadStack (state m) = xs @ [y]"
    using assms by (auto simp: getActiveThreadStack_def neq_Nil_snoc)
  with False show ?thesis
    by (cases "state m", cases "xs = []")
      (simp_all add: preemptThread_def preempted_def getActiveThreadStack_def GetCurrentThread_def)
qed

lemma preempted_Mem [simp]:
  "preempted (s\<lparr>Mem := x\<rparr>) th = (preempted s th)\<lparr>Mem := x\<rparr>" "Mem (preempted s th) = Mem s"
  by (simp_all add: preempted_def)

lemma live_preempted:
  "st_live s \<Longrightarrow> regs_ok (Registers th) \<Longrightarrow> \<not> tExited th \<Longrightarrow> st_live (preempted s th)"
  by (auto simp: st_live_def preempted_def all_threads_def getActiveThreadStack_def SchedQuantum_def dest: in_set_butlastD)

lemma preempt_rel:
  assumes "mem_rel keccak (Mem (state m)) x" "st_live (state m)" "regs_ok (Registers th)" "\<not> tExited th"
  shows "rel_res (\<lambda>(c, m) (c', m'). step_rel keccak m m') (preemptThread m th) (preemptThread (putMem m x t) th)"
proof -
  have a: "getActiveThreadStack (state m) \<noteq> []" using assms(2) by (simp add: st_live_def)
  show ?thesis
    using a live_wf [OF live_preempted [OF assms(2-4)]] assms(1)
    by (simp add: preemptThread_eq step_rel_def vm_rel_def putMem_state_update)
qed

section \<open>Every system call\<close>

lemma step_relI:
  "mem_rel keccak (Mem (state m)) x \<Longrightarrow> st_live (state m) \<Longrightarrow> step_rel keccak m (putMem m x t)"
  by (simp add: step_rel_def vm_rel_put live_wf)

lemma step_rel_puts:
  "mem_rel keccak x y \<Longrightarrow> st_live (state m) \<Longrightarrow> step_rel keccak (putMem m x t) (putMem m y u)"
  by (simp add: step_rel_def vm_rel_puts live_wf)

lemma syscallYield_rel:
  assumes "mem_rel keccak (Mem (state m)) x" "st_live (state m)" "regs_ok (Registers th)" "\<not> tExited th"
  shows "rel_res (step_rel keccak) (syscallYield m th) (syscallYield (putMem m x t) th)"
proof -
  let ?th = "th\<lparr>Cpu := advance (Cpu th), Registers := (Registers th)[RegSyscallRet1 := 0, RegSyscallErrno := 0]\<rparr>"
  have r: "regs_ok (Registers ?th)" "\<not> tExited ?th" using assms(3,4) by (simp_all add: regs_ok_update arch_defs)
  show ?thesis
    unfolding syscallYield_def HandleSyscallUpdates_def Let_def split_conv putMem_simps active_Mem putMem_state_update
    by (rule rel_rbind [OF preempt_rel]) (use assms r in \<open>auto intro: live_set_current\<close>)
qed

lemma sysFutex_rel:
  assumes "mem_rel keccak (Mem (state m)) x" "st_live (state m)" "regs_ok (Registers th)" "\<not> tExited th"
    "fresh (memoryTracker m)" "fresh t" "hKeccak h = keccak"
  shows "rel_res (step_rel keccak) (sysFutex h m th a0 a1 a2) (sysFutex h (putMem m x t) th a0 a1 a2)"
proof -
  have w: "rel_res (step_rel keccak)
      (rbind (getFutexValue h m a) (\<lambda>(v, m). if v \<noteq> ucast a2 then Inr (finishSyscall m th SysErrorSignal MipsEAGAIN)
         else syscallYield m th))
      (rbind (getFutexValue h (putMem m x t) a) (\<lambda>(v, m). if v \<noteq> ucast a2
         then Inr (finishSyscall m th SysErrorSignal MipsEAGAIN) else syscallYield m th))" for a
    unfolding getFutexValue_def rbind_assoc putMem_simps
  proof (rule rel_rbind [OF LoadSubWord_rel], goal_cases)
    case (4 p q)
    then obtain w n u n' u' where pq: "p = (w, n, u)" "q = (w, n', u')" "mem_rel keccak n n'"
      by (cases p; cases q) (auto simp: assms(7))
    have "rel_res (step_rel keccak) (syscallYield (putMem m n u) th) (syscallYield (putMem (putMem m n u) n' u') th)"
      by (rule syscallYield_rel) (use pq(3) assms in simp_all)
    then show ?case using assms pq(3) by (simp add: pq(1,2) step_rel_puts live_finish)
  qed (use assms in simp_all)
  show ?thesis
    unfolding sysFutex_def Let_def
    using w syscallYield_rel [OF assms(1-4), of t] step_relI [OF _ live_finish [OF assms(2-4)]] assms(1) by simp
qed

lemma Mem_sel:
  "PreimageKey (s\<lparr>Mem := x\<rparr>) = PreimageKey s" "PreimageOffset (s\<lparr>Mem := x\<rparr>) = PreimageOffset s"
  "LastHint (s\<lparr>Mem := x\<rparr>) = LastHint s" "Mem (s\<lparr>Mem := x\<rparr>) = x" "Step (s\<lparr>Mem := x\<rparr>) = Step s"
  "Heap (s\<lparr>Mem := x\<rparr>) = Heap s"
  by simp_all

lemma live_read_update:
  "st_live (state m) \<Longrightarrow> st_live (state (if b then handleMemoryUpdate m a else m))"
  by (simp add: live_LL)

lemma sysRead_rel:
  assumes "mem_rel keccak (Mem (state m)) x" "st_live (state m)" "regs_ok (Registers th)" "\<not> tExited th"
    "fresh (memoryTracker m)" "fresh t" "hKeccak h = keccak"
  shows "rel_res (step_rel keccak) (sysRead h m th a0 a1 a2) (sysRead h (putMem m x t) th a0 a1 a2)"
  unfolding sysRead_def putMem_simps Mem_sel assms(7)
proof (rule rel_rbind [OF HandleSysRead_rel [OF assms(1,5,6)]], goal_cases)
  case (1 p q)
  then obtain v0 v1 off b a po n u n' u' where pq: "p = ((v0, v1, off, b, a), po, n, u)"
      "q = ((v0, v1, off, b, a), po, n', u')" "mem_rel keccak n n'"
    by (cases p; cases q; cases "fst p") auto
  let ?m = "m\<lparr>preimageOracle := po, state := (state m)\<lparr>PreimageOffset := off\<rparr>\<rparr>"
  have e: "(putMem m z u)\<lparr>preimageOracle := po, state := (state ((putMem m z u)\<lparr>preimageOracle := po\<rparr>))\<lparr>PreimageOffset := off\<rparr>\<rparr>
      = putMem ?m z u" for z u by (simp add: putMem_def)
  have "st_live (state ?m)" using assms(2) by simp
  then have "st_live (state (if b then handleMemoryUpdate ?m a else ?m))" by (rule live_read_update)
  then have "st_live (state (finishSyscall (if b then handleMemoryUpdate ?m a else ?m) th v0 v1))"
    using assms(3,4) by (rule live_finish)
  then show ?case
    unfolding pq(1,2) split_conv Let_def e putMem_simps
    by (cases b) (simp_all add: step_rel_puts pq(3))
qed

lemma sysWrite_rel:
  assumes "mem_rel keccak (Mem (state m)) x" "st_live (state m)" "regs_ok (Registers th)" "\<not> tExited th"
    "fresh (memoryTracker m)" "fresh t" "hKeccak h = keccak"
  shows "rel_res (step_rel keccak) (sysWrite h m th a0 a1 a2) (sysWrite h (putMem m x t) th a0 a1 a2)"
  unfolding sysWrite_def putMem_simps Mem_sel assms(7)
proof (rule rel_rbind [OF HandleSysWrite_rel [OF assms(1,5,6)]], goal_cases)
  case 1
  show ?case using assms(2) by (simp add: st_live_def)
next
  case (2 p q)
  then obtain v0 v1 lh k off po n u out err n' u' where pq: "p = ((v0, v1, lh, k, off), po, n, u, out, err)"
      "q = ((v0, v1, lh, k, off), po, n', u', out, err)" "mem_rel keccak n n'" "length k = 32"
    by (cases p; cases q; cases "fst p") auto
  let ?m = "m\<lparr>preimageOracle := po, stdOut := out, stdErr := err,
    state := (state m)\<lparr>LastHint := lh, PreimageKey := k, PreimageOffset := off\<rparr>\<rparr>"
  have "st_live (state ?m)" using assms(2) pq(4) by (simp add: st_live_def all_threads_def getActiveThreadStack_def split: if_splits)
  then have l: "st_live (state (finishSyscall ?m th v0 v1))" using assms(3,4) by (rule live_finish)
  have e: "(putMem m z w)\<lparr>preimageOracle := po, stdOut := out, stdErr := err,
      state := (state ((putMem m z w)\<lparr>preimageOracle := po, stdOut := out, stdErr := err\<rparr>))
        \<lparr>LastHint := lh, PreimageKey := k, PreimageOffset := off\<rparr>\<rparr> = putMem ?m z w" for z w
    by (simp add: putMem_def)
  show ?case
    unfolding pq(1,2) split_conv Let_def e putMem_finishSyscall
    using step_rel_puts [OF pq(3) l] by simp
qed

lemma aligned_next: "(a AND AddressMask) + 8 AND ExtMask = 0"
proof -
  have "unat (a AND AddressMask) mod 8 = 0" by (simp add: unat_AddressMask)
  moreover have "unat ((a AND AddressMask) + 8) mod 8 = (unat (a AND AddressMask) + 8) mod 8"
    by (simp add: unat_word_ariths mod_mod_cancel)
  ultimately show ?thesis by (simp add: aligned_iff mod_add_right_eq)
qed

lemma sysClockGetTime_rel:
  assumes "mem_rel keccak (Mem (state m)) x" "st_live (state m)" "regs_ok (Registers th)" "\<not> tExited th"
    "fresh (memoryTracker m)" "fresh t" "hKeccak h = keccak"
  shows "rel_res (step_rel keccak) (sysClockGetTime h m th a0 a1) (sysClockGetTime h (putMem m x t) th a0 a1)"
proof (cases "a0 = ClockGettimeRealtimeFlag \<or> a0 = ClockGettimeMonotonicFlag")
  case False
  then show ?thesis
    using step_relI [OF _ live_finish [OF assms(2-4)]] assms(1) by (simp add: sysClockGetTime_def)
next
  case True
  define e where "e = a1 AND AddressMask"
  have al: "e AND ExtMask = 0" "e + 8 AND ExtMask = 0" by (simp_all add: e_def aligned_next)
  have w: "of_nat WordSizeBytes = (8 :: Word)" by (simp add: arch_defs)
  obtain secs nsecs where sn: "(if a0 = ClockGettimeMonotonicFlag
      then (Step (state m) div HZ, (Step (state m) mod HZ) * (1000000000 div HZ)) else (0, 0)) = (secs, nsecs)"
    by fastforce
  let ?m = "handleMemoryUpdate (handleMemoryUpdate m e) (e + 8)"
  have l: "st_live (state (finishSyscall ?m th 0 0))"
    by (rule live_finish) (simp_all add: live_LL assms(2-4))
  show ?thesis
    unfolding sysClockGetTime_def if_P [OF True] putMem_simps Mem_sel assms(7) sn split_conv w
    unfolding Let_def e_def [symmetric] split_conv
    by (rule rel_rbind [OF TrackMemAccess_rel [OF assms(1) fresh_tracks [OF assms(5)] fresh_tracks [OF assms(6)]]],
        clarify, rule rel_rbind [OF SetWord_rel], assumption, rule al, 
        simp, rule rel_rbind [OF TrackMemAccess2_rel], assumption, assumption, assumption,
        clarify, rule rel_rbind [OF SetWord_rel], assumption, rule al, simp add: step_rel_puts l)
qed
lemma putMem_fields:
  "(putMem m x t)\<lparr>state := (state (putMem m x t))\<lparr>Heap := w\<rparr>\<rparr> = putMem (m\<lparr>state := (state m)\<lparr>Heap := w\<rparr>\<rparr>) x t"
  "(putMem m x t)\<lparr>state := (state (putMem m x t))\<lparr>Exited := b, ExitCode := c\<rparr>\<rparr>
     = putMem (m\<lparr>state := (state m)\<lparr>Exited := b, ExitCode := c\<rparr>\<rparr>) x t"
  "(putMem m x t)\<lparr>state := (state (putMem m x t))\<lparr>Step := u\<rparr>\<rparr> = putMem (m\<lparr>state := (state m)\<lparr>Step := u\<rparr>\<rparr>) x t"
  "(putMem m x t)\<lparr>state := (state (putMem m x t))\<lparr>StepsSinceLastContextSwitch := u\<rparr>\<rparr>
     = putMem (m\<lparr>state := (state m)\<lparr>StepsSinceLastContextSwitch := u\<rparr>\<rparr>) x t"
  "(putMem m x t)\<lparr>state := (state (putMem m x t))\<lparr>Mem := y\<rparr>\<rparr> = putMem m y t"
  by (simp_all add: putMem_def)

lemma handleSyscall_rel:
  assumes "mem_rel keccak (Mem (state m)) x" "st_live (state m)" "fresh (memoryTracker m)" "fresh t" "hKeccak h = keccak"
  shows "rel_res (step_rel keccak) (handleSyscall h m) (handleSyscall h (putMem m x t))"
proof -
  define th where "th = last (getActiveThreadStack (state m))"
  note c = live_current [OF assms(2), folded th_def]
  obtain n a0 a1 a2 where args: "GetSyscallArgs (Registers th) = (n, a0, a1, a2)" by (cases "GetSyscallArgs (Registers th)")
  have fin: "step_rel keccak (finishSyscall m th v0 v1) (putMem (finishSyscall m th v0 v1) x t)" for v0 v1
    using assms(1) live_finish [OF assms(2) c(2,3)] by (intro step_relI) simp_all
  have mmap: "step_rel keccak (finishSyscall (m\<lparr>state := (state m)\<lparr>Heap := w\<rparr>\<rparr>) th v0 v1)
      (putMem (finishSyscall (m\<lparr>state := (state m)\<lparr>Heap := w\<rparr>\<rparr>) th v0 v1) x t)" for v0 v1 w
    using assms(1) by (intro step_relI live_finish c) (simp_all add: assms(2))
  have exitg: "step_rel keccak (m\<lparr>state := (state m)\<lparr>Exited := True, ExitCode := w\<rparr>\<rparr>)
      (putMem (m\<lparr>state := (state m)\<lparr>Exited := True, ExitCode := w\<rparr>\<rparr>) x t)" for w
    using assms(1) by (intro step_relI) (simp_all add: assms(2))
  have clone: "step_rel keccak (sysClone m th a0 a1) (putMem (sysClone m th a0 a1) x t)"
    using assms(1) live_clone [OF assms(2) c(2,3)] by (intro step_relI) simp_all
  have exit: "step_rel keccak (sysExit m th a0) (putMem (sysExit m th a0) x t)"
    using assms(1) wf_exit [OF assms(2) c(2)] by (simp add: step_rel_def vm_rel_def)
  note calls = sysRead_rel [OF assms(1,2) c(2,3) assms(3,4,5)] sysWrite_rel [OF assms(1,2) c(2,3) assms(3,4,5)]
    sysFutex_rel [OF assms(1,2) c(2,3) assms(3,4,5)] sysClockGetTime_rel [OF assms(1,2) c(2,3) assms(3,4,5)]
    syscallYield_rel [OF assms(1,2) c(2,3)]
  have heap: "Heap (state (putMem m x t)) = Heap (state m)" by simp
  have cur: "GetCurrentThread (state (putMem m x t)) = Inr th" using c(1) by simp
  show ?thesis
    unfolding handleSyscall_def c(1) cur rbind_simps args Let_def split_conv putMem_fields putMem_finishSyscall
      putMem_sysClone putMem_sysExit heap
    by (cases "HandleSysMmap a0 a1 (Heap (state m))"; cases "HandleSysFcntl a0 a1")
      (simp add: fin mmap exitg clone exit calls)
qed

end
