(* ===== verification/CannonMachine.thy ===== *)
theory CannonMachine
  imports CannonStepRel
begin

text \<open>
  The whole step of the multithreaded VM: the two-run argument is completed for read-modify-write
  instructions, core instructions and the scheduler, lifted to \<open>Step\<close> with and without proofs and to
  runs of many steps. From it follow the invariant of the machine, the absence of internal panics and
  the independence of an execution from the steps at which proofs were generated.
\<close>

section \<open>Read-modify-write, core instructions and the scheduler\<close>

lemma reg_index_nat: "unat (x AND 0x1F :: uint32) < 32"
proof -
  have "x AND 0x1F = take_bit 5 x" by (simp add: take_bit_eq_mask mask_eq_exp_minus_1)
  then show ?thesis by (simp add: take_bit_eq_mod unat_mod)
qed

lemma putMem_reservation:
  "(putMem m x t)\<lparr>state := (state (putMem m x t))\<lparr>LLReservationStatus := b, LLAddress := a, LLOwnerThread := c\<rparr>\<rparr>
   = putMem (m\<lparr>state := (state m)\<lparr>LLReservationStatus := b, LLAddress := a, LLOwnerThread := c\<rparr>\<rparr>) x t"
  by (simp add: putMem_def)

lemma putMem_LL_sel:
  "LLReservationStatus (state (putMem m x t)) = LLReservationStatus (state m)"
  "LLOwnerThread (state (putMem m x t)) = LLOwnerThread (state m)"
  "LLAddress (state (putMem m x t)) = LLAddress (state m)"
  "Mem (state (putMem m x t)) = x"
  "memoryTracker (clearLLMemoryReservation m) = memoryTracker m"
  by (simp_all add: clearLLMemoryReservation_def)

lemma putCore_rel:
  assumes "mem_rel keccak n n'" "st_live (state m)" "regs_ok regs" "\<not> tExited th"
  shows "step_rel keccak (putCore (putMem m n u) th (cpu, regs)) (putCore (putMem m n' u') th (cpu, regs))"
  using assms by (simp add: step_rel_puts live_putCore)

definition rmw_rel :: "(bytes \<Rightarrow> bytes) \<Rightarrow> Word \<times> InstrumentedState \<Rightarrow> Word \<times> InstrumentedState \<Rightarrow> bool" where
  "rmw_rel keccak = (\<lambda>(v, m) (v', m'). v = v' \<and> st_live (state m) \<and> vm_rel keccak m m')"

lemma rmw_relI:
  "mem_rel keccak n n' \<Longrightarrow> st_live (state m) \<Longrightarrow> rmw_rel keccak (v, putMem m n u) (v, putMem m n' u')"
  by (simp add: rmw_rel_def vm_rel_puts)

lemma handleRMWOps_rel:
  assumes "mem_rel keccak (Mem (state m)) x" "st_live (state m)" "fresh (memoryTracker m)" "fresh t" "hKeccak h = keccak"
    "opcode \<in> {OpLoadLinked, OpLoadLinked64, OpStoreConditional, OpStoreConditional64}"
  shows "rel_res (step_rel keccak) (handleRMWOps h m insn opcode) (handleRMWOps h (putMem m x t) insn opcode)"
proof -
  define th where "th = last (getActiveThreadStack (state m))"
  note c = live_current [OF assms(2), folded th_def]
  have cur: "GetCurrentThread (state (putMem m x t)) = Inr th" using c(1) by simp
  obtain st :: byte and len :: Word where sl: "(if opcode = OpLoadLinked64 \<or> opcode = OpStoreConditional64
      then (LLStatusActive64bit, 8) else (LLStatusActive32bit, 4)) = (st, len)" by fastforce
  have fin: "rel_res (step_rel keccak)
      (rbind (HandleRd (Cpu th) (Registers th) (ucast (drop_bit 16 insn AND 0x1F)) v True) (\<lambda>core. Inr (putCore m1 th core)))
      (rbind (HandleRd (Cpu th) (Registers th) (ucast (drop_bit 16 insn AND 0x1F)) v True) (\<lambda>core. Inr (putCore m2 th core)))"
    if "rmw_rel keccak (v, m1) (v, m2)" for v m1 m2
  proof (rule rel_rbind [OF rel_of_ok [OF HandleRd_ok [OF c(2) reg_index_lt]]], clarsimp)
    fix cpu regs assume r: "regs_ok regs"
    have "putMem m1 (Mem (state m1)) (memoryTracker m1) = m1" "putMem m1 (Mem (state m2)) (memoryTracker m2) = m2"
      using that by (simp_all add: putMem_self rmw_rel_def vm_rel_def)
    with putCore_rel [OF _ _ r c(3), of keccak "Mem (state m1)" "Mem (state m2)" m1 "memoryTracker m1" cpu "memoryTracker m2"] that
    show "step_rel keccak (putCore m1 th (cpu, regs)) (putCore m2 th (cpu, regs))"
      by (simp add: rmw_rel_def vm_rel_def)
  qed
  show ?thesis
    unfolding handleRMWOps_def c(1) cur rbind_simps Let_def sl split_conv putMem_reservation putMem_LL_sel putMem_LL
      putMem_simps(2,6) assms(5)
  proof (rule rel_rbind [where R = "rmw_rel keccak"], goal_cases)
    case 1
    let ?a = "Registers th ! unat (drop_bit 21 insn AND 0x1F) + SignExtendImmediate insn"
    have ll: "rel_res (rmw_rel keccak)
       (rbind (LoadSubWord keccak (Mem (state m)) (memoryTracker m) a len True)
          (\<lambda>(v, mem, t). Inr (v, putMem m1 mem t)))
       (rbind (LoadSubWord keccak x t a len True) (\<lambda>(v, mem, t). Inr (v, putMem m1 mem t)))"
      if "st_live (state m1)" for a m1
      by (rule rel_rbind [OF LoadSubWord_rel [OF assms(1,3,4)]]) (clarsimp simp: rmw_relI that)
    have sc: "rel_res (rmw_rel keccak)
       (rbind (StoreSubWord keccak (Mem (state m)) (memoryTracker m) a len w)
          (\<lambda>(mem, t). Inr (1, putMem m1 mem t)))
       (rbind (StoreSubWord keccak x t a len w) (\<lambda>(mem, t). Inr (1, putMem m1 mem t)))"
      if "st_live (state m1)" for a w m1
      by (rule rel_rbind [OF StoreSubWord_rel [OF assms(1,3,4)]]) (clarsimp simp: rmw_relI that)
    have no: "rmw_rel keccak (0, m) (0, putMem m x t)"
      using assms(1,2) by (simp add: rmw_rel_def vm_rel_put)
    show ?case using assms(2,6) by (auto simp: ll sc no live_LL)
  next
    case (2 p q)
    then show ?case using fin by (auto simp: rmw_rel_def)
  qed
qed

lemma execCore_rel:
  assumes "mem_rel keccak (Mem (state m)) x" "st_live (state m)" "fresh (memoryTracker m)" "fresh t" "hKeccak h = keccak"
  shows "rel_res (step_rel keccak) (execCore h m insn opcode f) (execCore h (putMem m x t) insn opcode f)"
proof -
  define th where "th = last (getActiveThreadStack (state m))"
  note c = live_current [OF assms(2), folded th_def]
  have cur: "GetCurrentThread (state (putMem m x t)) = Inr th" using c(1) by simp
  show ?thesis
    unfolding execCore_def c(1) cur rbind_simps putMem_LL_sel putMem_simps(2) assms(5)
  proof (rule rel_rbind [OF ExecMipsCoreStepLogic_rel [OF assms(1,3,4) c(2)]], goal_cases)
    case (1 p q)
    then obtain cpu regs n u b a n' u' where pq: "p = ((cpu, regs, n, u), b, a)" "q = ((cpu, regs, n', u'), b, a)"
      "regs_ok regs" "mem_rel keccak n n'"
      by (cases p; cases q; cases "fst p"; cases "fst q") (auto simp: core_rel_def)
    have "st_live (state (if b then handleMemoryUpdate (putCore m th (cpu, regs)) a else putCore m th (cpu, regs)))"
      by (rule live_read_update [OF live_putCore [OF assms(2) pq(3) c(3)]])
    then show ?case using pq(4) by (cases b) (simp_all add: pq(1,2) Let_def step_rel_puts)
  qed
qed

definition popped :: "State \<Rightarrow> State" where
  "popped s =
    (if TraverseRight s
     then s\<lparr>RightThreadStack := butlast (RightThreadStack s), TraverseRight := (butlast (RightThreadStack s) \<noteq> []),
            StepsSinceLastContextSwitch := 0\<rparr>
     else s\<lparr>LeftThreadStack := butlast (LeftThreadStack s), TraverseRight := (butlast (LeftThreadStack s) = []),
            StepsSinceLastContextSwitch := 0\<rparr>)"

lemma popThread_eq:
  assumes "getActiveThreadStack (state m) \<noteq> []"
  shows "popThread m = Inr (m\<lparr>state := popped (state m)\<rparr>)"
  using assms
  by (cases "state m"; cases "TraverseRight (state m)")
    (simp_all add: popThread_def popped_def getActiveThreadStack_def butlast_conv_take)

lemma live_popped:
  assumes "st_wf s" "2 \<le> ThreadCount s"
  shows "st_live (popped s)"
proof (cases "TraverseRight s")
  case True
  then obtain xs y where r: "RightThreadStack s = xs @ [y]"
    using assms(1) by (auto simp: st_wf_def getActiveThreadStack_def neq_Nil_snoc)
  with True assms show ?thesis
    by (auto simp: st_wf_def st_live_def popped_def getActiveThreadStack_def all_threads_def ThreadCount_def SchedQuantum_def)
next
  case False
  then obtain xs y where r: "LeftThreadStack s = xs @ [y]"
    using assms(1) by (auto simp: st_wf_def getActiveThreadStack_def neq_Nil_snoc)
  with False assms show ?thesis
    by (auto simp: st_wf_def st_live_def popped_def getActiveThreadStack_def all_threads_def ThreadCount_def SchedQuantum_def)
qed

lemma popped_Mem [simp]: "popped (s\<lparr>Mem := x\<rparr>) = (popped s)\<lparr>Mem := x\<rparr>" "Mem (popped s) = Mem s"
  by (simp_all add: popped_def)

lemma reset_Steps:
  "st_live s \<Longrightarrow> StepsSinceLastContextSwitch s < SchedQuantum \<Longrightarrow>
   st_live (s\<lparr>StepsSinceLastContextSwitch := StepsSinceLastContextSwitch s + 1\<rparr>)"
  by (simp add: st_live_def all_threads_def getActiveThreadStack_def inc_le split: if_splits)

lemma wf_current:
  "st_wf s \<Longrightarrow> GetCurrentThread s = Inr (last (getActiveThreadStack s))"
  by (simp add: st_wf_def GetCurrentThread_def)

lemma execInstruction_rel:
  assumes "mem_rel keccak (Mem (state m)) x" "st_live (state m)" "fresh (memoryTracker m)" "fresh t" "hKeccak h = keccak"
  shows "rel_res (step_rel keccak) (execInstruction h m) (execInstruction h (putMem m x t))"
proof -
  note c = live_current(1) [OF assms(2)]
  have cur: "GetCurrentThread (state (putMem m x t)) = GetCurrentThread (state m)" by simp
  have put: "m\<lparr>state := (state m)\<lparr>Mem := n\<rparr>\<rparr> = putMem m n (memoryTracker m)" for n by (simp add: putMem_def)
  show ?thesis
    unfolding execInstruction_def GetPC_def cur c rbind_simps putMem_LL_sel(4) putMem_fields(5) put
  proof (rule rel_rbind [OF GetInstructionDetails_rel [OF assms(1)]], goal_cases)
    case (1 p q)
    then obtain insn opcode f n n' where pq: "p = ((insn, opcode, f), n)" "q = ((insn, opcode, f), n')" "mem_rel keccak n n'"
      by (cases p; cases q; cases "fst p") auto
    let ?m = "putMem m n (memoryTracker m)"
    have m: "mem_rel keccak (Mem (state ?m)) n'" "st_live (state ?m)" "fresh (memoryTracker ?m)"
      using pq(3) assms(2,3) by simp_all
    note r = handleSyscall_rel [OF m assms(4,5)] execCore_rel [OF m assms(4,5)] handleRMWOps_rel [OF m assms(4,5)]
    show ?case unfolding pq(1,2) split_conv Let_def
      using r by (simp add: arch_consts)
  qed
qed

lemma doMipsStep_rel:
  assumes "mem_rel keccak (Mem (state m)) x" "st_wf (state m)" "fresh (memoryTracker m)" "fresh t" "hKeccak h = keccak"
  shows "rel_res (step_rel keccak) (doMipsStep h m) (doMipsStep h (putMem m x t))"
proof (cases "Exited (state m)")
  case True
  then show ?thesis using assms by (simp add: doMipsStep_def step_rel_def vm_rel_put)
next
  case False
  define m1 where "m1 = m\<lparr>state := (state m)\<lparr>Step := Step (state m) + 1\<rparr>\<rparr>"
  define th where "th = last (getActiveThreadStack (state m1))"
  have m1: "mem_rel keccak (Mem (state m1)) x" "st_wf (state m1)" "fresh (memoryTracker m1)"
    using assms(1-3) by (simp_all add: m1_def)
  have ne: "getActiveThreadStack (state m1) \<noteq> []" using m1(2) by (simp add: st_wf_def)
  have e: "\<not> Exited (state (putMem m x t))" "Step (state (putMem m x t)) = Step (state m)" using False by simp_all
  have cur: "GetCurrentThread (state m1) = Inr th" "GetCurrentThread (state (putMem m1 x t)) = Inr th"
    using wf_current [OF m1(2)] by (simp_all add: th_def)
  have st: "StepsSinceLastContextSwitch (state (putMem m1 x t)) = StepsSinceLastContextSwitch (state m1)" by simp
  have pop: "rel_res (step_rel keccak) (popThread m1) (popThread (putMem m1 x t))" if "tExited th"
  proof -
    have "2 \<le> ThreadCount (state m1)"
      using that m1(2) False by (auto simp: st_wf_def th_def m1_def)
    then have "st_live (popped (state m1))" by (rule live_popped [OF m1(2)])
    then show ?thesis using m1(1) ne
      by (simp add: popThread_eq putMem_state_update step_rel_def vm_rel_def live_wf)
  qed
  have live: "st_live (state m1)" "regs_ok (Registers th)" if "\<not> tExited th"
    using wf_live [OF m1(2)] that live_current(2) by (simp_all add: th_def)
  let ?m2 = "m1\<lparr>state := (state m1)\<lparr>StepsSinceLastContextSwitch := StepsSinceLastContextSwitch (state m1) + 1\<rparr>\<rparr>"
  have exec: "rel_res (step_rel keccak) (execInstruction h ?m2) (execInstruction h (putMem ?m2 x t))"
    if "\<not> tExited th" "\<not> SchedQuantum \<le> StepsSinceLastContextSwitch (state m1)"
    by (rule execInstruction_rel) (use m1 reset_Steps [OF live(1) [OF that(1)]] that(2) [unfolded not_le] assms(4,5) in simp_all)
  have pre: "rel_res (step_rel keccak) (rbind (preemptThread m1 th) (\<lambda>(_, m). Inr m))
      (rbind (preemptThread (putMem m1 x t) th) (\<lambda>(_, m). Inr m))" if "\<not> tExited th"
    by (rule rel_rbind [OF preempt_rel [OF m1(1) live [OF that] that]]) auto
  show ?thesis
    unfolding doMipsStep_def if_not_P [OF False] if_not_P [OF e(1)] e(2) putMem_fields Let_def
      m1_def [symmetric] cur rbind_simps st
    using pop exec pre
    by (cases "tExited th"; cases "SchedQuantum \<le> StepsSinceLastContextSwitch (state m1)") simp_all
qed

lemma mipsStep_rel:
  assumes "mem_rel keccak (Mem (state m)) x" "st_wf (state m)" "fresh (memoryTracker m)" "fresh t" "hKeccak h = keccak"
  shows "rel_res (step_rel keccak) (mipsStep h m) (mipsStep h (putMem m x t))"
  unfolding mipsStep_def
proof (rule rel_rbind [OF doMipsStep_rel [OF assms]], goal_cases)
  case (1 p q)
  then have "getActiveThreadStack (state p) \<noteq> []" "getActiveThreadStack (state q) = getActiveThreadStack (state p)"
    by (auto simp: step_rel_def st_wf_def vm_rel_def) (metis active_Mem(1) putMem_simps(1))+
  with 1 show ?case by simp
qed

section \<open>The witness\<close>

definition hash32 :: "(bytes \<Rightarrow> bytes) \<Rightarrow> bool" where
  "hash32 keccak \<longleftrightarrow> (\<forall>b. length (keccak b) = 32)"

lemma length_tree_hash: "hash32 keccak \<Longrightarrow> 0 < k \<Longrightarrow> length (tree_hash keccak k leaf i) = 32"
  by (cases k) (simp_all add: HashPair_def hash32_def)

lemma length_mem_hash_root: "hash32 keccak \<Longrightarrow> length (mem_hash keccak m 1) = 32"
  unfolding mem_hash_root by (simp add: length_tree_hash)

lemma length_EmptyThreadsRoot: "length EmptyThreadsRoot = 32"
  by (simp add: EmptyThreadsRoot_def)

lemma length_stack_root: "hash32 keccak \<Longrightarrow> length (calculateThreadStackRoot keccak ts) = 32"
  by (induction ts rule: rev_induct)
    (simp_all add: calculateThreadStackRoot_def length_EmptyThreadsRoot computeThreadRoot_def Let_def hash32_def)

lemma AppendBool_eq: "AppendBoolToWitness w b = w @ [if b then 1 else 0]"
  by (simp add: AppendBoolToWitness_def)

lemma EncodeWitness_correct:
  assumes "merkle_wf keccak (Mem s)" "hash32 keccak" "length (PreimageKey s) = 32"
  obtains n out where "EncodeWitness keccak s = Inr ((out, (keccak out)[0 := VmStatus (Exited s) (ExitCode s)]), s\<lparr>Mem := n\<rparr>)"
    "length out = 188" "merkle_wf keccak n" "word_at n = word_at (Mem s)"
    "out = mem_hash keccak (Mem s) 1 @ PreimageKey s @ be_bytes 8 (PreimageOffset s) @ be_bytes 8 (Heap s) @
       [LLReservationStatus s] @ be_bytes 8 (LLAddress s) @ be_bytes 8 (LLOwnerThread s) @ [ExitCode s] @
       [if Exited s then 1 else 0] @ be_bytes 8 (Step s) @ be_bytes 8 (StepsSinceLastContextSwitch s) @
       [if TraverseRight s then 1 else 0] @ calculateThreadStackRoot keccak (LeftThreadStack s) @
       calculateThreadStackRoot keccak (RightThreadStack s) @ be_bytes 8 (NextThreadId s)"
proof -
  obtain n where n: "MerkleRoot keccak (Mem s) = Inr (mem_hash keccak (Mem s) 1, n)" "merkle_wf keccak n" "same_data (Mem s) n"
    by (rule MerkleRoot_correct [OF assms(1)])
  let ?pre = "mem_hash keccak (Mem s) 1 @ PreimageKey s @ be_bytes 8 (PreimageOffset s) @ be_bytes 8 (Heap s) @
       [LLReservationStatus s] @ be_bytes 8 (LLAddress s) @ be_bytes 8 (LLOwnerThread s)"
  let ?post = "be_bytes 8 (Step s) @ be_bytes 8 (StepsSinceLastContextSwitch s) @
       [if TraverseRight s then 1 else 0] @ calculateThreadStackRoot keccak (LeftThreadStack s) @
       calculateThreadStackRoot keccak (RightThreadStack s) @ be_bytes 8 (NextThreadId s)"
  let ?out = "?pre @ [ExitCode s] @ [if Exited s then 1 else 0] @ ?post"
  note lens = length_mem_hash_root [OF assms(2)] length_stack_root [OF assms(2)] assms(3) length_be_bytes
  have pre: "length ?pre = 97" by (simp add: lens del: One_nat_def)
  have len: "length ?out = 188" by (simp add: lens del: One_nat_def)
  have "?out ! 97 = ExitCode s" "?out ! 98 = (if Exited s then 1 else 0)"
    using nth_append_right [of ?pre 97] nth_append_right [of ?pre 98] pre by simp_all
  then have "stateHashFromWitness keccak ?out = Inr ((keccak ?out)[0 := VmStatus (Exited s) (ExitCode s)])"
    using len by (simp add: stateHashFromWitness_def STATE_WITNESS_SIZE_def EXITED_WITNESS_OFFSET_def
        EXITCODE_WITNESS_OFFSET_def Let_def)
  then have "EncodeWitness keccak s = Inr ((?out, (keccak ?out)[0 := VmStatus (Exited s) (ExitCode s)]), s\<lparr>Mem := n\<rparr>)"
    by (simp add: EncodeWitness_def n(1) Let_def AppendWord_def AppendBool_eq)
  with that n(2) same_data_word_at [OF n(3)] len show thesis by simp
qed

lemma EncodeWitness_contents:
  assumes "vm_rel keccak m m'" "st_wf (state m)" "hash32 keccak"
  shows "map_sum id fst (EncodeWitness keccak (state m)) = map_sum id fst (EncodeWitness keccak (state m'))"
proof -
  define s x where "s = state m" and "x = Mem (state m')"
  have s': "state m' = s\<lparr>Mem := x\<rparr>"
    using assms(1) by (metis putMem_simps(1) s_def vm_rel_def x_def)
  have mr: "mem_rel keccak (Mem s) x" using assms(1) by (simp add: vm_rel_def s_def x_def)
  have k: "length (PreimageKey s) = 32" using assms(2) by (simp add: st_wf_def s_def)
  have h: "mem_hash keccak (Mem s) 1 = mem_hash keccak x 1"
    by (rule mem_hash_words) (use mem_relD [OF mr] in blast)+
  obtain n out where "EncodeWitness keccak s = Inr ((out, (keccak out)[0 := VmStatus (Exited s) (ExitCode s)]), s\<lparr>Mem := n\<rparr>)"
    and o: "out = mem_hash keccak (Mem s) 1 @ PreimageKey s @ be_bytes 8 (PreimageOffset s) @ be_bytes 8 (Heap s) @
       [LLReservationStatus s] @ be_bytes 8 (LLAddress s) @ be_bytes 8 (LLOwnerThread s) @ [ExitCode s] @
       [if Exited s then 1 else 0] @ be_bytes 8 (Step s) @ be_bytes 8 (StepsSinceLastContextSwitch s) @
       [if TraverseRight s then 1 else 0] @ calculateThreadStackRoot keccak (LeftThreadStack s) @
       calculateThreadStackRoot keccak (RightThreadStack s) @ be_bytes 8 (NextThreadId s)"
    by (rule EncodeWitness_correct [OF mem_relD(1) [OF mr] assms(3) k])
  moreover obtain n' out' where "EncodeWitness keccak (s\<lparr>Mem := x\<rparr>) = Inr ((out', (keccak out')
        [0 := VmStatus (Exited (s\<lparr>Mem := x\<rparr>)) (ExitCode (s\<lparr>Mem := x\<rparr>))]), (s\<lparr>Mem := x\<rparr>)\<lparr>Mem := n'\<rparr>)"
    and "out' = out"
    by (rule EncodeWitness_correct [of keccak "s\<lparr>Mem := x\<rparr>"])
      (use mem_relD(2) [OF mr] assms(3) k in \<open>simp_all add: o h del: One_nat_def\<close>)
  ultimately show ?thesis unfolding s_def [symmetric] s' by simp
qed

section \<open>Steps and runs\<close>

lemma fresh_reset: "fresh (MemoryTracker_Reset t b)"
  by (simp add: fresh_def MemoryTracker_Reset_def)

lemma EncodeThreadProof_ok: "st_wf s \<Longrightarrow> \<exists>p. EncodeThreadProof keccak s = Inr p"
  by (simp add: EncodeThreadProof_def st_wf_def Let_def)

text \<open>A step is \<open>mipsStep\<close> after the reset, on a memory with the same words; with proofs it returns a
  witness of the pre-state.\<close>

lemma Step_unfold:
  assumes "merkle_wf (hKeccak h) (Mem (state m))" "st_wf (state m)" "hash32 (hKeccak h)"
  obtains n t where "mem_rel (hKeccak h) (Mem (state m)) n" "fresh t"
    "map_sum id snd (InstrumentedState_Step h m b) =
       mipsStep h (putMem (m\<lparr>preimageOracle := PreimageReader_Reset (preimageOracle m)\<rparr>) n t)"
proof (cases b)
  case False
  show thesis
  proof (rule that [of "Mem (state m)" "MemoryTracker_Reset (memoryTracker m) False"])
    show "mem_rel (hKeccak h) (Mem (state m)) (Mem (state m))" by (rule mem_rel_refl [OF assms(1)])
    let ?m = "putMem (m\<lparr>preimageOracle := PreimageReader_Reset (preimageOracle m)\<rparr>) (Mem (state m)) (MemoryTracker_Reset (memoryTracker m) False)"
    have e: "m\<lparr>preimageOracle := PreimageReader_Reset (preimageOracle m), memoryTracker := MemoryTracker_Reset (memoryTracker m) False\<rparr> = ?m"
      by (simp add: putMem_def)
    have "InstrumentedState_Step h m False = rbind (mipsStep h ?m) (\<lambda>m. Inr (None, m))"
      unfolding InstrumentedState_Step_def Let_def e by simp
    then show "map_sum id snd (InstrumentedState_Step h m b) = mipsStep h ?m"
      using False by (cases "mipsStep h ?m") simp_all
  qed (rule fresh_reset)
next
  case True
  let ?k = "hKeccak h"
  obtain tp where tp: "EncodeThreadProof ?k (state m) = Inr tp" using EncodeThreadProof_ok [OF assms(2)] by blast
  have pc: "GetPC (state m) = Inr (PC (Cpu (last (getActiveThreadStack (state m)))))"
    using wf_current [OF assms(2)] by (simp add: GetPC_def)
  obtain pf n where p: "MerkleProof ?k (Mem (state m)) (PC (Cpu (last (getActiveThreadStack (state m))))) = Inr (pf, n)"
      "merkle_wf ?k n" "word_at n = word_at (Mem (state m))" by (rule MerkleProof_rel [OF assms(1)])
  obtain n2 out where w: "EncodeWitness ?k ((state m)\<lparr>Mem := n\<rparr>) = Inr ((out, (?k out)
       [0 := VmStatus (Exited ((state m)\<lparr>Mem := n\<rparr>)) (ExitCode ((state m)\<lparr>Mem := n\<rparr>))]), ((state m)\<lparr>Mem := n\<rparr>)\<lparr>Mem := n2\<rparr>)"
    "merkle_wf ?k n2" "word_at n2 = word_at n"
    by (rule EncodeWitness_correct [of ?k "(state m)\<lparr>Mem := n\<rparr>"])
      (use p(2) assms(2,3) in \<open>simp_all add: st_wf_def\<close>)
  let ?m = "putMem (m\<lparr>preimageOracle := PreimageReader_Reset (preimageOracle m)\<rparr>) n2 (MemoryTracker_Reset (memoryTracker m) True)"
  have e: "m\<lparr>preimageOracle := PreimageReader_Reset (preimageOracle m), memoryTracker := MemoryTracker_Reset (memoryTracker m) True,
      state := (state m)\<lparr>Mem := n2\<rparr>\<rparr> = ?m" by (simp add: putMem_def)
  show thesis
  proof (rule that [of n2 "MemoryTracker_Reset (memoryTracker m) True"])
    show "mem_rel ?k (Mem (state m)) n2" using assms(1) w(2,3) p(3) by (simp add: mem_rel_def)
    show "map_sum id snd (InstrumentedState_Step h m b) = mipsStep h ?m"
      using True w(1) by (cases "mipsStep h ?m") (simp_all add: InstrumentedState_Step_def Let_def tp pc p(1) e)
  qed (rule fresh_reset)
qed

lemma vm_rel_wf: "vm_rel keccak m m' \<Longrightarrow> st_wf (state m') = st_wf (state m)"
  by (metis putMem_simps(1) vm_rel_def wf_frame(1))

lemma vm_rel_trans: "vm_rel keccak a b \<Longrightarrow> vm_rel keccak b c \<Longrightarrow> vm_rel keccak a c"
  unfolding vm_rel_def mem_rel_def by (metis putMem_simps(6))

lemma vm_rel_sym: "vm_rel keccak a b \<Longrightarrow> vm_rel keccak b a"
  unfolding vm_rel_def mem_rel_def by (metis putMem_self putMem_simps(6))

text \<open>Two machines that differ in their caches and trackers only stay so, whichever of the two runs
  the step with proofs.\<close>

lemma Step_rel:
  assumes "vm_rel (hKeccak h) m m'" "st_wf (state m)" "hash32 (hKeccak h)"
  shows "rel_res (step_rel (hKeccak h)) (map_sum id snd (InstrumentedState_Step h m b))
    (map_sum id snd (InstrumentedState_Step h m' b'))"
proof -
  let ?k = "hKeccak h"
  let ?r = "\<lambda>m. m\<lparr>preimageOracle := PreimageReader_Reset (preimageOracle m)\<rparr>"
  have mw: "merkle_wf ?k (Mem (state m))" "merkle_wf ?k (Mem (state m'))" "mem_rel ?k (Mem (state m)) (Mem (state m'))"
    using assms(1) mem_relD by (auto simp: vm_rel_def)
  have wf': "st_wf (state m')" using vm_rel_wf [OF assms(1)] assms(2) by simp
  obtain n t where 1: "mem_rel ?k (Mem (state m)) n" "fresh t"
    "map_sum id snd (InstrumentedState_Step h m b) = mipsStep h (putMem (?r m) n t)"
    by (rule Step_unfold [OF mw(1) assms(2,3)])
  obtain n' t' where 2: "mem_rel ?k (Mem (state m')) n'" "fresh t'"
    "map_sum id snd (InstrumentedState_Step h m' b') = mipsStep h (putMem (?r m') n' t')"
    by (rule Step_unfold [OF mw(2) wf' assms(3)])
  obtain y u where m': "m' = putMem m y u" using assms(1) unfolding vm_rel_def by blast
  have "?r (putMem m y u) = putMem (?r m) y u" by (simp add: putMem_def)
  then have e: "putMem (?r m') n' t' = putMem (putMem (?r m) n t) n' t'" unfolding m' by simp
  have "mem_rel ?k n n'" using 1(1) 2(1) mw(3) unfolding mem_rel_def by metis
  then show ?thesis unfolding 1(3) 2(3) e
    by (intro mipsStep_rel) (use assms(2) 1(2) 2(2) in simp_all)
qed

text \<open>A run: one step per entry, the entry saying whether that step generates a proof.\<close>

fun vm_run :: "Host \<Rightarrow> InstrumentedState \<Rightarrow> bool list \<Rightarrow> fault + InstrumentedState" where
  "vm_run h m [] = Inr m"
| "vm_run h m (b # bs) = rbind (InstrumentedState_Step h m b) (\<lambda>(_, m). vm_run h m bs)"

lemma vm_run_rel:
  assumes "vm_rel (hKeccak h) m m'" "st_wf (state m)" "hash32 (hKeccak h)" "length bs = length bs'"
  shows "rel_res (step_rel (hKeccak h)) (vm_run h m bs) (vm_run h m' bs')"
  using assms(4,1,2)
proof (induction bs bs' arbitrary: m m' rule: list_induct2)
  case Nil
  then show ?case by (simp add: step_rel_def)
next
  case (Cons b bs b' bs')
  have e: "rbind (InstrumentedState_Step h m b) (\<lambda>(_, m). vm_run h m bs)
      = rbind (map_sum id snd (InstrumentedState_Step h m b)) (\<lambda>m. vm_run h m bs)" for m b bs
    by (cases "InstrumentedState_Step h m b") (simp_all add: split_def)
  show ?case unfolding vm_run.simps e
    by (rule rel_rbind [OF Step_rel [OF Cons.prems assms(3)]]) (use Cons.IH in \<open>simp add: step_rel_def\<close>)
qed

lemma wf_vm_rel: "merkle_wf keccak (Mem (state m)) \<Longrightarrow> vm_rel keccak m m"
  by (simp add: vm_rel_def mem_rel_refl putMem_self)

lemma vm_run_inv:
  assumes "merkle_wf (hKeccak h) (Mem (state m))" "st_wf (state m)" "hash32 (hKeccak h)"
  shows "res_ok (\<lambda>m'. st_wf (state m') \<and> merkle_wf (hKeccak h) (Mem (state m'))) (vm_run h m bs)"
  using vm_run_rel [OF wf_vm_rel [OF assms(1)] assms(2,3) refl, of bs]
  by (cases "vm_run h m bs") (auto simp: step_rel_def vm_rel_def mem_rel_def)

section \<open>Properties\<close>

text \<open>C1: The machine never breaks its own invariant and never panics on its own account. From every
  well-formed machine (a non-empty active stack, register files of 32 words with register 0 zero,
  only the current thread possibly exited, valid Merkle caches, a 32-byte pre-image key, the quantum not exceeded),
  any number of steps, each with or without proof generation, ends in a well-formed machine or in one
  of the panics a guest program provokes (invalid instruction or PC, division by zero, unknown
  system call, ...). The panics on empty thread stacks, conflicting memory accesses, unaligned
  accesses, bad witness lengths and tree depth never occur. The hash is only assumed to return 32 bytes.\<close>

theorem vm_safety:
  assumes "merkle_wf (hKeccak h) (Mem (state m))" "st_wf (state m)" "hash32 (hKeccak h)"
  shows "case vm_run h m bs of Inl e \<Rightarrow> guest_fault e
         | Inr m' \<Rightarrow> st_wf (state m') \<and> merkle_wf (hKeccak h) (Mem (state m'))"
  using vm_run_inv [OF assms, of bs] by (simp add: res_ok_def)

text \<open>The hash and host used by the witnesses.\<close>

definition toy_host :: Host where
  "toy_host = \<lparr>hKeccak = (\<lambda>b. take 32 (rev b @ replicate 32 1)), hPreimage = (\<lambda>k. []), hBufs = (\<lambda>n. n)\<rparr>"

lemma toy_hash32: "hash32 (hKeccak toy_host)"
  by (auto simp: hash32_def toy_host_def min_def)

lemma empty_state_wf: "st_wf CreateEmptyState" "merkle_wf keccak (Mem CreateEmptyState)"
  by (simp_all add: CreateEmptyState_def CreateEmptyThread_def st_wf_def all_threads_def getActiveThreadStack_def
      ThreadCount_def regs_ok_def SchedQuantum_def merkle_wf_NewMemory Let_def)

theorem vm_safety_witness:
  "case vm_run toy_host (NewInstrumentedState CreateEmptyState) [False, True] of Inl e \<Rightarrow> guest_fault e
   | Inr m' \<Rightarrow> st_wf (state m') \<and> merkle_wf (hKeccak toy_host) (Mem (state m'))"
  by (rule vm_safety) (simp_all add: NewInstrumentedState_def empty_state_wf toy_hash32)

text \<open>C5: Generating proofs does not influence the execution: from one well-formed machine, two runs of
  the same number of steps that generate proofs at different steps panic with the same panic or end in
  machines that differ only in memory caches and tracker, with the same witness and state hash.\<close>

theorem vm_proof_independent:
  assumes "merkle_wf (hKeccak h) (Mem (state m))" "st_wf (state m)" "hash32 (hKeccak h)" "length bs = length bs'"
  shows "rel_res (\<lambda>m1 m2. state m2 = (state m1)\<lparr>Mem := Mem (state m2)\<rparr> \<and>
            (\<forall>a. a AND ExtMask = 0 \<longrightarrow> word_at (Mem (state m1)) a = word_at (Mem (state m2)) a) \<and>
            stdOut m1 = stdOut m2 \<and> stdErr m1 = stdErr m2 \<and> preimageOracle m1 = preimageOracle m2 \<and>
            map_sum id fst (EncodeWitness (hKeccak h) (state m1)) = map_sum id fst (EncodeWitness (hKeccak h) (state m2)))
          (vm_run h m bs) (vm_run h m bs')"
proof (rule rel_res_mono [OF vm_run_rel [OF wf_vm_rel [OF assms(1)] assms(2-4)]], goal_cases)
  case (1 m1 m2)
  then have r: "vm_rel (hKeccak h) m1 m2" "st_wf (state m1)" by (simp_all add: step_rel_def)
  obtain y u where m2: "m2 = putMem m1 y u" using r(1) unfolding vm_rel_def by blast
  show ?case using EncodeWitness_contents [OF r assms(3)] r(1) by (simp add: m2 vm_rel_def mem_rel_def)
qed

theorem vm_proof_independent_witness:
  "rel_res (\<lambda>m1 m2. stdOut m1 = stdOut m2)
     (vm_run toy_host (NewInstrumentedState CreateEmptyState) [False, False])
     (vm_run toy_host (NewInstrumentedState CreateEmptyState) [False, True])"
  by (rule rel_res_mono [OF vm_proof_independent])
    (simp_all add: NewInstrumentedState_def empty_state_wf toy_hash32)

text \<open>C34: The state commitment: on a well-formed state \<open>EncodeWitness\<close> succeeds with the 188 bytes of the documented
  layout, its first field being the root of the full memory tree, and the state hash is the keccak hash of it with
  the first byte replaced by the VM status of the exit flag and exit code read back from the witness.\<close>

theorem witness_layout:
  assumes "merkle_wf keccak (Mem s)" "hash32 keccak" "length (PreimageKey s) = 32"
  shows "\<exists>out s'. EncodeWitness keccak s = Inr ((out, (keccak out)[0 := VmStatus (Exited s) (ExitCode s)]), s') \<and>
    length out = STATE_WITNESS_SIZE \<and>
    out = tree_hash keccak 59 (mem_leaf (Mem s)) 0 @ PreimageKey s @ be_bytes 8 (PreimageOffset s) @ be_bytes 8 (Heap s) @
       [LLReservationStatus s] @ be_bytes 8 (LLAddress s) @ be_bytes 8 (LLOwnerThread s) @ [ExitCode s] @
       [if Exited s then 1 else 0] @ be_bytes 8 (Step s) @ be_bytes 8 (StepsSinceLastContextSwitch s) @
       [if TraverseRight s then 1 else 0] @ calculateThreadStackRoot keccak (LeftThreadStack s) @
       calculateThreadStackRoot keccak (RightThreadStack s) @ be_bytes 8 (NextThreadId s)"
  by (rule EncodeWitness_correct [OF assms, unfolded mem_hash_root]) (simp add: STATE_WITNESS_SIZE_def)

theorem witness_layout_witness:
  "\<exists>out h s'. EncodeWitness (hKeccak toy_host) (CreateEmptyState\<lparr>Exited := True, ExitCode := 1\<rparr>) = Inr ((out, h), s') \<and>
     length out = 188 \<and> h ! 0 = VMStatusInvalid"
proof -
  have "length (hKeccak toy_host out) = 32" for out using toy_hash32 by (simp add: hash32_def)
  then show ?thesis
    using witness_layout [of "hKeccak toy_host" "CreateEmptyState\<lparr>Exited := True, ExitCode := 1\<rparr>"] empty_state_wf toy_hash32
    by (auto simp: STATE_WITNESS_SIZE_def VmStatus_def st_wf_def)
qed

lemma mipsStep_exited: "Exited (state m) \<Longrightarrow> st_wf (state m) \<Longrightarrow> mipsStep h m = Inr m"
  by (simp add: mipsStep_def doMipsStep_def st_wf_def)

lemma vm_run_exited:
  assumes "merkle_wf (hKeccak h) (Mem (state m))" "st_wf (state m)" "hash32 (hKeccak h)" "Exited (state m)"
  shows "\<exists>n t. vm_run h m bs = Inr (putMem (m\<lparr>preimageOracle := if bs = [] then preimageOracle m
                 else PreimageReader_Reset (preimageOracle m)\<rparr>) n t) \<and> mem_rel (hKeccak h) (Mem (state m)) n"
  using assms
proof (induction bs arbitrary: m)
  case Nil
  then show ?case
    using mem_rel_refl putMem_self by (intro exI [of _ "Mem (state m)"] exI [of _ "memoryTracker m"]) simp
next
  case (Cons b bs)
  let ?r = "\<lambda>m. m\<lparr>preimageOracle := PreimageReader_Reset (preimageOracle m)\<rparr>"
  obtain n t where n: "mem_rel (hKeccak h) (Mem (state m)) n"
    "map_sum id snd (InstrumentedState_Step h m b) = mipsStep h (putMem (?r m) n t)"
    by (rule Step_unfold [OF Cons.prems(1-3)])
  have "mipsStep h (putMem (?r m) n t) = Inr (putMem (?r m) n t)"
    by (rule mipsStep_exited) (use Cons.prems in simp_all)
  with n(2) obtain w where w: "InstrumentedState_Step h m b = Inr (w, putMem (?r m) n t)"
    by (cases "InstrumentedState_Step h m b") auto
  obtain n' t' where "vm_run h (putMem (?r m) n t) bs = Inr (putMem ((putMem (?r m) n t)\<lparr>preimageOracle := if bs = [] then preimageOracle (putMem (?r m) n t)
                 else PreimageReader_Reset (preimageOracle (putMem (?r m) n t))\<rparr>) n' t')" "mem_rel (hKeccak h) n n'"
    using Cons.IH [of "putMem (?r m) n t"] Cons.prems n(1) mem_relD(2) by auto
  moreover have "PreimageReader_Reset (PreimageReader_Reset p) = PreimageReader_Reset p" for p
    by (simp add: PreimageReader_Reset_def)
  ultimately have "vm_run h m (b # bs) = Inr (putMem (?r m) n' t')" by (simp add: w putMem_def)
  moreover have "mem_rel (hKeccak h) (Mem (state m)) n'"
    using n(1) \<open>mem_rel (hKeccak h) n n'\<close> unfolding mem_rel_def by metis
  ultimately show ?case by (intro exI [of _ n'] exI [of _ t']) simp
qed

text \<open>Exiting is final: once the machine has exited, any number of further steps, with or without proofs,
  succeeds and leaves the witness and the state hash as they are, so that the claims of a dispute game
  beyond the end of the execution all repeat the final state.\<close>

theorem exit_stable:
  assumes "merkle_wf (hKeccak h) (Mem (state m))" "st_wf (state m)" "hash32 (hKeccak h)" "Exited (state m)"
  shows "\<exists>m'. vm_run h m bs = Inr m' \<and> Exited (state m') \<and> Step (state m') = Step (state m) \<and>
    map_sum id fst (EncodeWitness (hKeccak h) (state m')) = map_sum id fst (EncodeWitness (hKeccak h) (state m))"
proof -
  obtain p n t where r: "vm_run h m bs = Inr (putMem (m\<lparr>preimageOracle := p\<rparr>) n t)" "mem_rel (hKeccak h) (Mem (state m)) n"
    using vm_run_exited [OF assms, of bs] by blast
  have "vm_rel (hKeccak h) m (putMem m n t)" using r(2) by (rule vm_rel_put)
  from EncodeWitness_contents [OF this assms(2,3)] r(1) assms(4) show ?thesis by simp
qed

theorem exit_stable_witness:
  "\<exists>m'. vm_run toy_host (NewInstrumentedState (CreateEmptyState\<lparr>Exited := True\<rparr>)) [True, False, True] = Inr m' \<and>
        Exited (state m')"
proof -
  have "st_wf (CreateEmptyState\<lparr>Exited := True\<rparr>)" using empty_state_wf(1)
    by (auto simp: st_wf_def all_threads_def getActiveThreadStack_def ThreadCount_def split: if_splits)
  then show ?thesis
    using exit_stable [of toy_host "NewInstrumentedState (CreateEmptyState\<lparr>Exited := True\<rparr>)" "[True, False, True]"]
      empty_state_wf(2) toy_hash32 by (auto simp: NewInstrumentedState_def)
qed

end
