(* ===== verification/CannonScheduler.thy ===== *)
theory CannonScheduler
  imports CannonStepRel
begin

text \<open>
  Fairness of the thread scheduler. The two thread stacks are a zipper over one sequence of threads;
  a preemption moves the cursor one place, bouncing at both ends.
\<close>

section \<open>Bouncing schedules\<close>

text \<open>What a scheduler promises: a preemption keeps the sequence of threads and advances a phase that
  runs through every position forwards and then backwards.\<close>

locale bouncing_scheduler =
  fixes tick :: "'s \<Rightarrow> 's" and threads :: "'s \<Rightarrow> 't list" and phase :: "'s \<Rightarrow> nat" and current :: "'s \<Rightarrow> 't"
    and ok :: "'s \<Rightarrow> bool"
  assumes ok_tick: "ok s \<Longrightarrow> ok (tick s)"
    and threads_tick: "ok s \<Longrightarrow> threads (tick s) = threads s"
    and phase_bound: "ok s \<Longrightarrow> phase s < 2 * length (threads s)"
    and phase_tick: "ok s \<Longrightarrow> phase (tick s) = Suc (phase s) mod (2 * length (threads s))"
    and current_phase: "ok s \<Longrightarrow> current s = threads s ! (if phase s < length (threads s) then phase s
                                           else 2 * length (threads s) - 1 - phase s)"
begin

lemma iterate: "ok s \<Longrightarrow> ok ((tick ^^ k) s) \<and> threads ((tick ^^ k) s) = threads s \<and>
    phase ((tick ^^ k) s) = (phase s + k) mod (2 * length (threads s))"
  by (induction k) (auto simp: ok_tick threads_tick phase_tick phase_bound mod_Suc_eq)

lemma fair:
  assumes "ok s" "t \<in> set (threads s)"
  obtains k where "k < 2 * length (threads s)" "current ((tick ^^ k) s) = t"
proof -
  obtain i where i: "i < length (threads s)" "threads s ! i = t" using assms(2) by (metis in_set_conv_nth)
  let ?n = "2 * length (threads s)"
  let ?k = "(?n + i - phase s) mod ?n"
  have "(phase s + ?k) mod ?n = (phase s + (?n + i - phase s)) mod ?n" by (rule mod_add_right_eq)
  also have "\<dots> = i" using phase_bound [OF assms(1)] i(1) by simp
  finally have "phase ((tick ^^ ?k) s) = i" using iterate [OF assms(1), of ?k] by simp
  then have "current ((tick ^^ ?k) s) = t"
    using iterate [OF assms(1), of ?k] current_phase [of "(tick ^^ ?k) s"] i by simp
  moreover have "?k < ?n" using i(1) by (intro mod_less_divisor) linarith
  ultimately show thesis by (rule that [rotated])
qed

end

section \<open>The two stacks as a zipper\<close>

definition preempt_current :: "State \<Rightarrow> State" where
  "preempt_current s = preempted s (last (getActiveThreadStack s))"

definition thread_seq :: "State \<Rightarrow> ThreadState list" where
  "thread_seq s = LeftThreadStack s @ rev (RightThreadStack s)"

definition sched_phase :: "State \<Rightarrow> nat" where
  "sched_phase s = (if TraverseRight s then length (LeftThreadStack s)
                    else 2 * length (thread_seq s) - length (LeftThreadStack s))"

definition runnable :: "State \<Rightarrow> bool" where
  "runnable s \<longleftrightarrow> getActiveThreadStack s \<noteq> []"

lemma preempt_zipper:
  assumes "runnable s"
  shows "runnable (preempt_current s) \<and> thread_seq (preempt_current s) = thread_seq s \<and>
    sched_phase (preempt_current s) = Suc (sched_phase s) mod (2 * length (thread_seq s))"
proof (cases "TraverseRight s")
  case True
  then obtain xs y where r: "RightThreadStack s = xs @ [y]"
    using assms by (auto simp: runnable_def getActiveThreadStack_def neq_Nil_snoc)
  with True show ?thesis
    by (simp add: runnable_def preempt_current_def preempted_def getActiveThreadStack_def thread_seq_def sched_phase_def)
next
  case False
  then obtain xs y where r: "LeftThreadStack s = xs @ [y]"
    using assms by (auto simp: runnable_def getActiveThreadStack_def neq_Nil_snoc)
  with False show ?thesis
    by (cases "xs = []")
     (simp_all add: runnable_def preempt_current_def preempted_def getActiveThreadStack_def thread_seq_def sched_phase_def Suc_diff_le)
qed

interpretation sched: bouncing_scheduler preempt_current thread_seq sched_phase "\<lambda>s. last (getActiveThreadStack s)" runnable
proof (unfold_locales, goal_cases)
  case (4 s)
  then show ?case using preempt_zipper by blast
next
  case (3 s)
  then show ?case
    by (auto simp: runnable_def getActiveThreadStack_def sched_phase_def thread_seq_def)
next
  case (5 s)
  then show ?case
    by (cases "RightThreadStack s" rule: rev_cases; cases "LeftThreadStack s" rule: rev_cases)
      (auto simp: runnable_def getActiveThreadStack_def sched_phase_def thread_seq_def nth_append split: if_splits)
qed (use preempt_zipper in blast)+

section \<open>Properties\<close>

text \<open>Repeated preemption of whatever thread is current.\<close>

fun preempts :: "nat \<Rightarrow> InstrumentedState \<Rightarrow> fault + InstrumentedState" where
  "preempts 0 m = Inr m"
| "preempts (Suc k) m =
    rbind (GetCurrentThread (state m)) (\<lambda>th. rbind (preemptThread m th) (\<lambda>(_, m). preempts k m))"

lemma preempts_eq: "runnable (state m) \<Longrightarrow> preempts k m = Inr (m\<lparr>state := (preempt_current ^^ k) (state m)\<rparr>)"
proof (induction k arbitrary: m)
  case (Suc k)
  have "GetCurrentThread (state m) = Inr (last (getActiveThreadStack (state m)))"
    using Suc.prems by (simp add: runnable_def GetCurrentThread_def)
  moreover have "runnable (preempt_current (state m))" using preempt_zipper [OF Suc.prems] by blast
  ultimately show ?case
    using Suc.prems Suc.IH [of "m\<lparr>state := preempt_current (state m)\<rparr>"]
    by (simp add: preemptThread_eq runnable_def flip: preempt_current_def) (simp add: funpow_swap1)
qed simp

text \<open>C34: Scheduling is fair: whatever the stacks and the direction, every thread of the machine becomes the
  current thread within fewer than twice as many preemptions as there are threads, no preemption
  panics, and the sequence of threads is the same before and after.\<close>

theorem preempt_fair:
  assumes "getActiveThreadStack (state m) \<noteq> []" "th \<in> set (LeftThreadStack (state m)) \<union> set (RightThreadStack (state m))"
  shows "\<exists>k m'. k < 2 * ThreadCount (state m) \<and> preempts k m = Inr m' \<and> GetCurrentThread (state m') = Inr th \<and>
           thread_seq (state m') = thread_seq (state m)"
proof -
  have r: "runnable (state m)" using assms(1) by (simp add: runnable_def)
  have "th \<in> set (thread_seq (state m))" using assms(2) by (simp add: thread_seq_def)
  then obtain k where k: "k < 2 * length (thread_seq (state m))"
    "last (getActiveThreadStack ((preempt_current ^^ k) (state m))) = th"
    by (rule sched.fair [OF r])
  have "runnable ((preempt_current ^^ k) (state m)) \<and> thread_seq ((preempt_current ^^ k) (state m)) = thread_seq (state m)"
    using sched.iterate [OF r, of k] by blast
  moreover have "length (thread_seq (state m)) = ThreadCount (state m)"
    by (simp add: thread_seq_def ThreadCount_def)
  ultimately show ?thesis
    using k preempts_eq [OF r, of k] by (intro exI [of _ k]) (simp add: runnable_def GetCurrentThread_def)
qed

theorem preempt_fair_witness:
  "\<exists>k m'. k < 4 \<and>
     preempts k (NewInstrumentedState (CreateEmptyState\<lparr>RightThreadStack := [CreateEmptyThread\<lparr>ThreadId := 1\<rparr>]\<rparr>)) = Inr m' \<and>
     GetCurrentThread (state m') = Inr (CreateEmptyThread\<lparr>ThreadId := 1\<rparr>)"
  using preempt_fair [of "NewInstrumentedState (CreateEmptyState\<lparr>RightThreadStack := [CreateEmptyThread\<lparr>ThreadId := 1\<rparr>]\<rparr>)"
    "CreateEmptyThread\<lparr>ThreadId := 1\<rparr>"]
  by (auto simp: NewInstrumentedState_def CreateEmptyState_def getActiveThreadStack_def ThreadCount_def Let_def numeral_eq_Suc)

end
