(* ===== verification/CannonCodec.thy ===== *)
theory CannonCodec
  imports CannonMachine
begin

text \<open>
  Round trips of the binary state format. The reader and the writer of each kind of item are a
  codec: what was written, followed by anything, is read back exactly, and the reader stops where the
  item ends. Codecs for lists follow once for all items; memory is read back up to its caches.
\<close>

section \<open>Codecs\<close>

lemma ReadFull_append: "length b = n \<Longrightarrow> ReadFull n (b @ rest) = Inr (b, rest)"
  by (simp add: ReadFull_def)

interpretation word_codec: codec "be_bytes 8" ReadWord "\<lambda>_. True"
  by unfold_locales (simp add: ReadWord_def ReadFull_append be_word_be_bytes)

interpretation u32_codec: codec "be_bytes 4" ReadUInt32 "\<lambda>_. True"
  by unfold_locales (simp add: ReadUInt32_def ReadFull_append be_word_be_bytes)

lemma be_bytes_1: "be_bytes 1 (b :: byte) = [b]"
  by simp

lemma be_word_1: "be_word [b] = (b :: byte)"
  using be_word_be_bytes [of 1 b] by simp

interpretation u8_codec: codec "be_bytes 1" ReadUInt8 "\<lambda>_. True"
  by unfold_locales (simp add: ReadUInt8_def ReadFull_def be_word_1)

interpretation bool_codec: codec WriteBool ReadBool "\<lambda>_. True"
  using u8_codec.dec_enc [of 1] u8_codec.dec_enc [of 0]
  by unfold_locales (simp add: WriteBool_def ReadBool_def be_bytes_1 del: One_nat_def)

interpretation bytes_codec: codec WriteBytes ReadBytes "\<lambda>b. length b < 2 ^ 32"
proof (unfold_locales, goal_cases)
  case (1 x rest)
  then have "unat (of_nat (length x) :: uint32) = length x" by (intro unat_of_nat_lt) simp
  then show ?case
    using u32_codec.dec_enc [of "of_nat (length x)" "x @ rest"] ReadFull_append [of x "length x" rest]
    by (auto simp: WriteBytes_def ReadBytes_def)
qed

section \<open>Threads\<close>

lemma foldl_AppendWord: "foldl AppendWord out ws = out @ concat (map (be_bytes 8) ws)"
  by (induction ws arbitrary: out) (simp_all add: AppendWord_def)

lemma serializeThread_eq:
  "serializeThread t = be_bytes 8 (ThreadId t) @ be_bytes 1 (tExitCode t) @
     be_bytes 1 (if tExited t then 1 else 0 :: byte) @ be_bytes 8 (PC (Cpu t)) @ be_bytes 8 (NextPC (Cpu t)) @
     be_bytes 8 (LO (Cpu t)) @ be_bytes 8 (HI (Cpu t)) @ concat (map (be_bytes 8) (Registers t))"
  by (simp add: serializeThread_def foldl_AppendWord AppendWord_def AppendBool_eq be_bytes_1 Let_def del: One_nat_def)

lemma read_words_append: "length ws = 32 \<Longrightarrow> read_words 32 (concat (map (be_bytes 8) ws) @ rest) = Inr (ws, rest)"
  using word_codec.dec_many [of read_words ws rest] by (simp add: list_all_iff)

interpretation thread_codec: codec serializeThread ThreadState_Deserialize "\<lambda>t. length (Registers t) = 32"
proof (unfold_locales, goal_cases)
  case (1 t rest)
  then show ?case
    unfolding serializeThread_eq append_assoc ThreadState_Deserialize_def
    by (simp only: word_codec.dec_enc u8_codec.dec_enc read_words_append rbind_simps split_conv)
      (simp split: if_splits)
qed

lemma read_threads_append:
  assumes "length ts < 2 ^ 64" "list_all (\<lambda>t. length (Registers t) = 32) ts"
  shows "read_threads (unat (of_nat (length ts) :: Word)) (concat (map serializeThread ts) @ rest) = Inr (ts, rest)"
proof -
  have "unat (of_nat (length ts) :: Word) = length ts" using assms(1) by (intro unat_of_nat_lt) simp
  then show ?thesis using thread_codec.dec_many [of read_threads ts rest, OF _ _ assms(2)] by simp
qed

section \<open>Memory\<close>

text \<open>One page read back: a fresh page under a key that was not there.\<close>

definition loaded_page :: "Memory \<Rightarrow> Word \<Rightarrow> bytes \<Rightarrow> Memory" where
  "loaded_page m key d = (let (p, m) = AllocPage m key in m\<lparr>pageHeap := (pageHeap m)(p := (pageHeap m p)\<lparr>Data := d\<rparr>)\<rparr>)"

lemma loaded_page_correct:
  assumes "merkle_wf keccak m" "map_of (pageTable m) key = None" "unat key < 2 ^ 52" "length d = 4096"
  shows "merkle_wf keccak (loaded_page m key d)"
    "page_at (loaded_page m key d) k = (if k = key then Some (newPage\<lparr>Data := d\<rparr>) else page_at m k)"
proof -
  let ?n = "m\<lparr>pageHeap := (pageHeap m)(pageCounter m := newPage\<lparr>Data := d\<rparr>), pageCounter := Suc (pageCounter m),
     pageTable := AList.update key (pageCounter m) (pageTable m)\<rparr>"
  have e: "loaded_page m key d = AddPage ?n key"
    by (simp add: loaded_page_def AllocPage_eq AddPage_def Let_def)
  have pw: "page_wf (newPage\<lparr>Data := d\<rparr>)" using assms(4) newPage_wf by (simp add: page_wf_def)
  have b: "map_of (pageTable m) k = Some r \<Longrightarrow> r < pageCounter m" for k r
    using mem_wf_key_bound [OF merkle_wf_mem [OF assms(1)]] by blast
  have at: "page_at (loaded_page m key d) k = (if k = key then Some (newPage\<lparr>Data := d\<rparr>) else page_at m k)" for k
    by (auto simp: e page_at_def AddPage_def update_conv map_option_case dest!: b split: option.split)
  then show "page_at (loaded_page m key d) k = (if k = key then Some (newPage\<lparr>Data := d\<rparr>) else page_at m k)" .
  have "mem_wf (loaded_page m key d)"
    unfolding e AddPage_def
    using mem_wf_alloc [OF merkle_wf_mem [OF assms(1)] assms(2,3) pw] by (simp add: mem_wf_def cache_entry_ok_def)
  then show "merkle_wf keccak (loaded_page m key d)"
    by (rule SetWord_merkle_step [OF assms(1) _ at assms(3)])
      (simp_all add: e AddPage_nodes [OF assms(3)] del: bit_len_pos)
qed

lemma deserialize_pages_append:
  assumes "merkle_wf keccak m" "distinct ks" "\<forall>k \<in> set ks. page_at m k = None \<and> unat k < 2 ^ 52 \<and> length (f k) = 4096"
  shows "\<exists>n. deserialize_pages (length ks) m (concat (map (\<lambda>k. be_bytes 8 k @ f k) ks) @ rest) = Inr (n, rest) \<and>
     merkle_wf keccak n \<and> (\<forall>k. page_at n k = (if k \<in> set ks then Some (newPage\<lparr>Data := f k\<rparr>) else page_at m k))"
  using assms
proof (induction ks arbitrary: m)
  case (Cons a ks)
  have a: "map_of (pageTable m) a = None" "unat a < 2 ^ 52" "length (f a) = 4096"
    using Cons.prems(3) by (auto simp: page_at_def)
  note l = loaded_page_correct [OF Cons.prems(1) a]
  have "\<exists>n. deserialize_pages (length ks) (loaded_page m a (f a)) (concat (map (\<lambda>k. be_bytes 8 k @ f k) ks) @ rest) = Inr (n, rest) \<and>
     merkle_wf keccak n \<and> (\<forall>k. page_at n k = (if k \<in> set ks then Some (newPage\<lparr>Data := f k\<rparr>) else page_at (loaded_page m a (f a)) k))"
    by (rule Cons.IH [OF l(1)]) (use Cons.prems(2,3) l(2) in auto)
  moreover have "deserialize_pages (length (a # ks)) m (concat (map (\<lambda>k. be_bytes 8 k @ f k) (a # ks)) @ rest) =
     deserialize_pages (length ks) (loaded_page m a (f a)) (concat (map (\<lambda>k. be_bytes 8 k @ f k) ks) @ rest)"
    using a(3) by (simp add: word_codec.dec_enc ReadFull_append loaded_page_def AllocPage_eq Let_def)
  ultimately show ?case using l(2) Cons.prems(2) by (auto split: if_splits)
qed simp

lemma Memory_round_trip:
  assumes "merkle_wf keccak m"
  obtains n where "Memory_Deserialize NewMemory (Memory_Serialize m @ rest) = Inr (n, rest)" "merkle_wf keccak n"
    "\<And>k. page_at n k = map_option (\<lambda>p. newPage\<lparr>Data := Data p\<rparr>) (page_at m k)"
proof -
  let ?ks = "sort (map fst (pageTable m))"
  let ?f = "\<lambda>k. case map_of (pageTable m) k of None \<Rightarrow> [] | Some r \<Rightarrow> Data (pageHeap m r)"
  have mw: "mem_wf m" using assms by (rule merkle_wf_mem)
  have d: "distinct (map fst (pageTable m))" using mw by (simp add: mem_wf_def)
  have ex: "k \<in> set ?ks \<longleftrightarrow> (\<exists>r. map_of (pageTable m) k = Some r)" for k
    by (metis map_of_eq_None_iff not_None_eq set_map set_sort)
  have key: "page_at NewMemory k = None \<and> unat k < 2 ^ 52 \<and> length (?f k) = 4096" if "k \<in> set ?ks" for k
    using that mem_wf_key_bound [OF mw] mem_wf_page [OF mw] unfolding ex
    by (auto simp: page_at_def NewMemory_def page_wf_def)
  obtain n where n: "deserialize_pages (length ?ks) NewMemory (concat (map (\<lambda>k. be_bytes 8 k @ ?f k) ?ks) @ rest) = Inr (n, rest)"
    "merkle_wf keccak n" "\<And>k. page_at n k = (if k \<in> set ?ks then Some (newPage\<lparr>Data := ?f k\<rparr>) else page_at NewMemory k)"
    using deserialize_pages_append [of keccak NewMemory ?ks ?f rest] d key by (auto simp: merkle_wf_NewMemory)
  have "(\<lambda>k :: Word. unat k) ` set (map fst (pageTable m)) \<subseteq> {..<2 ^ 52}"
    using key by auto
  then have "card ((\<lambda>k :: Word. unat k) ` set (map fst (pageTable m))) \<le> 2 ^ 52"
    using card_mono [of "{..<2 ^ 52 :: nat}"] by fastforce
  then have "card (set (map fst (pageTable m))) \<le> 2 ^ 52"
    by (subst (asm) card_image) (simp_all add: inj_on_def word_unat_eq_iff)
  then have "PageCount m < 2 ^ 64" using distinct_card [OF d] by (simp add: PageCount_def)
  then have "unat (of_nat (PageCount m) :: Word) = PageCount m" by (intro unat_of_nat_lt) simp
  then have "Memory_Deserialize NewMemory (Memory_Serialize m @ rest) = Inr (n, rest)"
    using n(1) by (simp add: Memory_Deserialize_def Memory_Serialize_def word_codec.dec_enc PageCount_def)
  moreover have "page_at n k = map_option (\<lambda>p. newPage\<lparr>Data := Data p\<rparr>) (page_at m k)" for k
    unfolding n(3) ex by (auto simp: page_at_def NewMemory_def)
  ultimately show thesis using that n(2) by blast
qed

lemma same_Data_word_at:
  "(\<And>k. map_option Data (page_at n k) = map_option Data (page_at m k)) \<Longrightarrow> word_at n a = word_at m a"
  unfolding word_at_def page_word_def by (metis (no_types, lifting) None_eq_map_option_iff option.case_eq_if option.map_sel)

section \<open>Properties\<close>

text \<open>The states the format can hold: 32-byte pre-image key, 32 registers per thread, and lengths that
  fit their prefixes.\<close>

definition serializable :: "State \<Rightarrow> bool" where
  "serializable s \<longleftrightarrow> length (PreimageKey s) = 32 \<and> list_all (\<lambda>t. length (Registers t) = 32) (LeftThreadStack s @ RightThreadStack s) \<and>
     length (LeftThreadStack s) < 2 ^ 64 \<and> length (RightThreadStack s) < 2 ^ 64 \<and> length (LastHint s) < 2 ^ 32"

text \<open>C33: The binary state format round-trips: reading back what \<open>Serialize\<close> wrote, whatever follows it in the
  stream, succeeds, stops exactly at the end of the state and returns the same state, with a memory
  that has the same word at every aligned address, valid caches, and hence the same witness and state hash.\<close>

theorem state_round_trip:
  assumes "merkle_wf keccak (Mem s)" "serializable s"
  shows "\<exists>n. State_Deserialize (State_Serialize s @ rest) = Inr (s\<lparr>Mem := n\<rparr>, rest) \<and> merkle_wf keccak n \<and>
    (\<forall>a. a AND ExtMask = 0 \<longrightarrow> word_at n a = word_at (Mem s) a) \<and>
    map_sum id fst (MerkleRoot keccak n) = map_sum id fst (MerkleRoot keccak (Mem s))"
proof -
  define r where "r = PreimageKey s @ be_bytes 8 (PreimageOffset s) @ be_bytes 8 (Heap s) @
    be_bytes 1 (LLReservationStatus s) @ be_bytes 8 (LLAddress s) @ be_bytes 8 (LLOwnerThread s) @
    be_bytes 1 (ExitCode s) @ WriteBool (Exited s) @ be_bytes 8 (Step s) @
    be_bytes 8 (StepsSinceLastContextSwitch s) @ WriteBool (TraverseRight s) @ be_bytes 8 (NextThreadId s) @
    be_bytes 8 (of_nat (length (LeftThreadStack s)) :: Word) @ concat (map serializeThread (LeftThreadStack s)) @
    be_bytes 8 (of_nat (length (RightThreadStack s)) :: Word) @ concat (map serializeThread (RightThreadStack s)) @
    WriteBytes (LastHint s) @ rest"
  obtain n where n: "Memory_Deserialize NewMemory (Memory_Serialize (Mem s) @ r) = Inr (n, r)" "merkle_wf keccak n"
    "\<And>k. page_at n k = map_option (\<lambda>p. newPage\<lparr>Data := Data p\<rparr>) (page_at (Mem s) k)"
    using Memory_round_trip [OF assms(1), where rest = r] by blast
  have w: "word_at n a = word_at (Mem s) a" for a
    by (rule same_Data_word_at) (simp add: n(3) option.map_comp comp_def)
  have e: "State_Serialize s @ rest = Memory_Serialize (Mem s) @ r" by (simp add: State_Serialize_def r_def)
  have z: "length (PreimageKey s) = 32" "length (LeftThreadStack s) < 2 ^ 64" "length (RightThreadStack s) < 2 ^ 64"
    "list_all (\<lambda>t. length (Registers t) = 32) (LeftThreadStack s)" "list_all (\<lambda>t. length (Registers t) = 32) (RightThreadStack s)"
    "length (LastHint s) < 2 ^ 32"
    using assms(2) by (simp_all add: serializable_def)
  have "State_Deserialize (State_Serialize s @ rest) = Inr (s\<lparr>Mem := n\<rparr>, rest)"
    unfolding State_Deserialize_def e n(1) rbind_simps split_conv
    unfolding r_def by (simp only: z ReadFull_append word_codec.dec_enc u8_codec.dec_enc bool_codec.dec_enc bytes_codec.dec_enc
        read_threads_append rbind_simps split_conv) simp
  moreover have "map_sum id fst (MerkleRoot keccak n) = map_sum id fst (MerkleRoot keccak (Mem s))"
    using MerkleRoot_correct [OF n(2)] MerkleRoot_correct [OF assms(1)]
      mem_hash_words [OF merkle_wf_mem [OF n(2)] merkle_wf_mem [OF assms(1)] w] by (metis map_sum.simps(2) fst_conv)
  ultimately show ?thesis using n(2) w by blast
qed

theorem state_round_trip_witness:
  "\<exists>n. State_Deserialize (State_Serialize (CreateEmptyState\<lparr>Heap := 7\<rparr>) @ [1, 2]) = Inr (CreateEmptyState\<lparr>Heap := 7, Mem := n\<rparr>, [1, 2])"
  using state_round_trip [of "\<lambda>b. b" "CreateEmptyState\<lparr>Heap := 7\<rparr>" "[1, 2]"] empty_state_wf(2)
  by (simp add: serializable_def CreateEmptyState_def CreateEmptyThread_def) blast

end
