(* ===== verification/GamePosition.thy ===== *)
theory GamePosition
  imports Prelude
begin

text \<open>
  Positions in the dispute game tree (\<^verbatim>\<open>op-challenger/game/fault/types/position.go\<close>). A depth is a
  64-bit word, an index a \<^verbatim>\<open>*big.Int\<close>: an integer, or \<^verbatim>\<open>nil\<close> in the zero value.
\<close>

section \<open>Errors of the dispute game packages\<close>

text \<open>The error values the packages return and the panics they can raise; the errors of a trace
  provider are its own.\<close>

datatype game_error =
    ErrPositionDepthTooSmall
  | ErrClaimNotFound
  | ErrGameDepthReached
  | ErrStepNonLeafNode
  | ErrL2BlockNumberValid
  | ProviderError string
  | PanicMaxDepth
  | PanicDivisionByZero
  | PanicIndexOutOfRange
  | RuleViolated string

section \<open>Operations\<close>

type_synonym Depth = uint64

record Position =
  depth :: Depth
  indexAtDepth :: "int option"

definition NewPosition :: "Depth \<Rightarrow> int \<Rightarrow> Position" where
  "NewPosition d i = \<lparr>depth = d, indexAtDepth = Some i\<rparr>"

definition IndexAtDepth :: "Position \<Rightarrow> int" where
  "IndexAtDepth p = (case indexAtDepth p of None \<Rightarrow> 0 | Some i \<Rightarrow> i)"

text \<open>The index of the most significant bit; \<^verbatim>\<open>BitLen\<close> is that of the absolute value.\<close>

definition bigMSB :: "int \<Rightarrow> Depth" where
  "bigMSB x = (if x = 0 then 0 else of_nat (bit_len (nat \<bar>x\<bar>) - 1))"

definition NewPositionFromGIndex :: "int \<Rightarrow> Position" where
  "NewPositionFromGIndex x =
    (let d = bigMSB x;
         withoutMSB = NOT (push_bit (unat d) 1);
         i = x AND withoutMSB
     in NewPosition d i)"

definition RootPosition :: Position where
  "RootPosition = NewPositionFromGIndex 1"

definition MoveRight :: "Position \<Rightarrow> Position" where
  "MoveRight p = \<lparr>depth = depth p, indexAtDepth = Some (IndexAtDepth p + 1)\<rparr>"

text \<open>\<^verbatim>\<open>1 << newPosDepth\<close> is a 64-bit \<^verbatim>\<open>int\<close>: zero from depth 64 on, and then \<^verbatim>\<open>big.Int.Mod\<close>
  panics. \<^verbatim>\<open>Mod\<close> is the Euclidean remainder, by the absolute value of the modulus.\<close>

definition RelativeToAncestorAtDepth :: "Position \<Rightarrow> Depth \<Rightarrow> game_error + Position" where
  "RelativeToAncestorAtDepth p ancestor =
    (if ancestor > depth p then Inl ErrPositionDepthTooSmall
     else let newPosDepth = depth p - ancestor;
              nodesAtDepth = sint (push_bit (unat newPosDepth) 1 :: uint64)
          in if nodesAtDepth = 0 then Inl PanicDivisionByZero
             else Inr (NewPosition newPosDepth (IndexAtDepth p mod \<bar>nodesAtDepth\<bar>)))"

definition IsRootPosition :: "Position \<Rightarrow> bool" where
  "IsRootPosition p \<longleftrightarrow> depth p = 0 \<and> 0 = IndexAtDepth p"

definition lshIndex :: "Position \<Rightarrow> Depth \<Rightarrow> int" where
  "lshIndex p amount = push_bit (unat amount) (IndexAtDepth p)"

definition TraceIndex :: "Position \<Rightarrow> Depth \<Rightarrow> game_error + int" where
  "TraceIndex p maxDepth =
    (if maxDepth < depth p then Inl PanicMaxDepth
     else let rd = maxDepth - depth p;
              rhs = push_bit (unat rd) 1 - 1
          in Inr (lshIndex p rd OR rhs))"

definition boolToInt :: "bool \<Rightarrow> int" where
  "boolToInt b = (if b then 1 else 0)"

definition move :: "Position \<Rightarrow> bool \<Rightarrow> Position" where
  "move p right = \<lparr>depth = depth p + 1, indexAtDepth = Some (lshIndex p 1 OR boolToInt right)\<rparr>"

definition parentIndexAtDepth :: "Position \<Rightarrow> int" where
  "parentIndexAtDepth p = IndexAtDepth p div 2"

definition RightOf :: "Position \<Rightarrow> Position \<Rightarrow> bool" where
  "RightOf p parent \<longleftrightarrow> parentIndexAtDepth p \<noteq> IndexAtDepth parent"

definition position_parent :: "Position \<Rightarrow> Position" where
  "position_parent p = \<lparr>depth = depth p - 1, indexAtDepth = Some (parentIndexAtDepth p)\<rparr>"

definition Attack :: "Position \<Rightarrow> Position" where
  "Attack p = move p False"

definition Defend :: "Position \<Rightarrow> Position" where
  "Defend p = move (move (position_parent p) True) False"

definition ToGIndex :: "Position \<Rightarrow> int" where
  "ToGIndex p = push_bit (unat (depth p)) 1 OR IndexAtDepth p"

section \<open>Arithmetic of positions\<close>

lemma or_mask_int: "push_bit n i OR (2 ^ n - 1) = (i + 1) * 2 ^ n - (1 :: int)"
proof -
  have "push_bit n i AND mask n = 0" by (rule bit_eqI) (auto simp: bit_simps)
  then have "push_bit n i OR mask n = push_bit n i + mask n" using plus_and_or [of "push_bit n i" "mask n"] by simp
  then show ?thesis by (simp add: mask_eq_exp_minus_1 push_bit_eq_mult algebra_simps)
qed

lemma TraceIndex_eq:
  "depth p \<le> maxDepth \<Longrightarrow> TraceIndex p maxDepth = Inr ((IndexAtDepth p + 1) * 2 ^ (unat maxDepth - unat (depth p)) - 1)"
  by (simp add: TraceIndex_def Let_def lshIndex_def push_bit_eq_mult [of _ 1] or_mask_int unat_sub)

lemma move_eq: "move p b = \<lparr>depth = depth p + 1, indexAtDepth = Some (2 * IndexAtDepth p + of_bool b)\<rparr>"
proof -
  have "push_bit 1 i OR (2 ^ 1 - 1) = (i + 1) * 2 ^ 1 - 1" for i :: int by (rule or_mask_int)
  then have "push_bit 1 i OR 1 = 2 * i + 1" for i :: int by (simp del: push_bit_Suc)
  then show ?thesis by (simp add: move_def lshIndex_def boolToInt_def push_bit_eq_mult [of _ "IndexAtDepth p"])
qed

lemma IndexAtDepth_simps [simp]:
  "IndexAtDepth \<lparr>depth = d, indexAtDepth = Some i\<rparr> = i" "IndexAtDepth (NewPosition d i) = i"
  by (simp_all add: IndexAtDepth_def NewPosition_def)

lemma Attack_eq: "Attack p = NewPosition (depth p + 1) (2 * IndexAtDepth p)"
  by (simp add: Attack_def move_eq NewPosition_def)

lemma Defend_eq: "Defend p = NewPosition (depth p + 1) (4 * (IndexAtDepth p div 2) + 2)"
  by (simp add: Defend_def move_eq NewPosition_def position_parent_def parentIndexAtDepth_def)

lemma Defend_even: "even (IndexAtDepth p) \<Longrightarrow> Defend p = NewPosition (depth p + 1) (2 * IndexAtDepth p + 2)"
  by (auto simp: Defend_eq elim!: evenE)

lemma RightOf_moves:
  "\<not> RightOf (Attack p) p" "even (IndexAtDepth p) \<Longrightarrow> RightOf (Defend p) p"
  by (simp_all add: RightOf_def parentIndexAtDepth_def Attack_eq Defend_even)

text \<open>Positions of the tree: an index that fits the depth.\<close>

definition position_ok :: "Position \<Rightarrow> bool" where
  "position_ok p \<longleftrightarrow> (\<exists>i. indexAtDepth p = Some i \<and> 0 \<le> i \<and> i < 2 ^ unat (depth p))"

lemma bit_below: "0 \<le> i \<Longrightarrow> i < 2 ^ d \<Longrightarrow> bit (i :: int) n \<Longrightarrow> n < d"
  by (metis bit_take_bit_iff take_bit_int_eq_self)

lemma ToGIndex_eq: "position_ok p \<Longrightarrow> ToGIndex p = 2 ^ unat (depth p) + IndexAtDepth p"
proof -
  assume "position_ok p"
  then obtain i where i: "indexAtDepth p = Some i" "0 \<le> i" "i < 2 ^ unat (depth p)" by (auto simp: position_ok_def)
  have "push_bit (unat (depth p)) 1 AND i = 0"
    using bit_below [OF i(2,3)] by (intro bit_eqI) (auto simp: bit_simps)
  then show ?thesis
    using plus_and_or [of "push_bit (unat (depth p)) 1" i] i(1) by (simp add: ToGIndex_def IndexAtDepth_def push_bit_eq_mult)
qed

lemma bigMSB_eq:
  assumes "0 \<le> i" "i < 2 ^ d" "d < 2 ^ 64"
  shows "unat (bigMSB (2 ^ d + i)) = d" "2 ^ d + i AND NOT (push_bit d 1) = i"
proof -
  have "2 ^ d \<le> nat (2 ^ d + i)" "nat (2 ^ d + i) < 2 ^ Suc d" using assms(1,2) by (simp_all add: nat_le_iff nat_less_iff le_nat_iff)
  then have "bit_len (nat (2 ^ d + i)) = Suc d" by (rule bit_len_unique)
  then show "unat (bigMSB (2 ^ d + i)) = d"
    using assms by (simp add: bigMSB_def unat_of_nat_lt add_nonneg_eq_0_iff)
  have "push_bit d 1 AND i = 0" using bit_below [OF assms(1,2)] by (intro bit_eqI) (auto simp: bit_simps)
  then have "2 ^ d + i = push_bit d 1 OR i" using plus_and_or [of "push_bit d 1" i] by (simp add: push_bit_eq_mult)
  then show "2 ^ d + i AND NOT (push_bit d 1) = i"
    using bit_below [OF assms(1,2)] by (simp only:) (rule bit_eqI, auto simp: bit_simps)
qed

lemma abs_nodesAtDepth: "n < 64 \<Longrightarrow> \<bar>sint (push_bit n 1 :: uint64)\<bar> = 2 ^ n"
proof -
  assume n: "n < 64"
  have u: "uint (push_bit n 1 :: uint64) = 2 ^ n"
    using n unat_exp [of n, where ?'a = 64] by (simp add: push_bit_eq_mult uint_nat)
  show ?thesis
  proof (cases "n = 63")
    case True
    then show ?thesis by simp
  next
    case False
    with n have "(2 :: int) ^ n \<le> 2 ^ 62" by (intro power_increasing) simp_all
    then have "signed_take_bit 63 (2 ^ n :: int) = 2 ^ n"
    proof (intro signed_take_bit_int_eq_self)
      show "- (2 ^ 63) \<le> (2 :: int) ^ n" by (rule order_trans [of _ 0]) simp_all
    qed simp
    then have "sint (push_bit n 1 :: uint64) = 2 ^ n" using u by (simp add: sint_uint)
    then show ?thesis by simp
  qed
qed

lemma trace_index_mod:
  fixes i :: int
  shows "((i mod 2 ^ k) + 1) * 2 ^ r - 1 = ((i + 1) * 2 ^ r - 1) mod 2 ^ (k + r)"
proof -
  let ?m = "i mod 2 ^ k"
  have m: "0 < ?m + 1" "?m + 1 \<le> 2 ^ k" by (simp_all add: add1_zle_eq add_nonneg_pos)
  have "0 < (?m + 1) * 2 ^ r" using m(1) by simp
  moreover have "(?m + 1) * 2 ^ r \<le> 2 ^ k * 2 ^ r" using m(2) by (rule mult_right_mono) simp
  ultimately have b: "((?m + 1) * 2 ^ r - 1) mod 2 ^ (k + r) = (?m + 1) * 2 ^ r - 1"
    unfolding power_add by (intro mod_pos_pos_trivial) linarith+
  have "(q * 2 ^ k + m + 1) * 2 ^ r - 1 = (m + 1) * 2 ^ r - 1 + q * 2 ^ (k + r)" for q m :: int
    by (simp add: power_add algebra_simps)
  from this [of "i div 2 ^ k" ?m] have "(i + 1) * 2 ^ r - 1 = (?m + 1) * 2 ^ r - 1 + (i div 2 ^ k) * 2 ^ (k + r)"
    by (simp only: div_mult_mod_eq)
  then show ?thesis using b by (simp only: mod_mult_self1)
qed

section \<open>Properties\<close>

text \<open>Generalized indices and positions are in bijection: converting a position of the tree to its generalized
  index and back is the identity, and so is the converse for every positive index whose depth fits 64 bits.\<close>

theorem gindex_round_trip:
  assumes "position_ok p" "0 < x" "bit_len (nat x) \<le> 2 ^ 64"
  shows "NewPositionFromGIndex (ToGIndex p) = p \<and> ToGIndex (NewPositionFromGIndex x) = x \<and>
    position_ok (NewPositionFromGIndex x)"
proof (intro conjI)
  obtain i where i: "indexAtDepth p = Some i" "0 \<le> i" "i < 2 ^ unat (depth p)" using assms(1) by (auto simp: position_ok_def)
  have "unat (depth p) < 2 ^ 64" using unsigned_less [of "depth p", where ?'a = nat] by simp
  note m = bigMSB_eq [OF i(2,3) this]
  show "NewPositionFromGIndex (ToGIndex p) = p"
    unfolding ToGIndex_eq [OF assms(1)] using m i(1)
    by (simp add: NewPositionFromGIndex_def Let_def IndexAtDepth_def NewPosition_def word_unat_eq_iff)
  define d where "d = bit_len (nat x) - 1"
  have sd: "bit_len (nat x) = Suc d" using assms(2) by (simp add: d_def)
  then have bb: "2 ^ d \<le> nat x" "nat x < 2 * 2 ^ d"
    using bit_len_bounds [of "nat x"] assms(2) by simp_all
  then have "int (2 ^ d) \<le> x" "x < int (2 * 2 ^ d)" using assms(2) by linarith+
  then have j: "0 \<le> x - 2 ^ d" "x - 2 ^ d < 2 ^ d" by simp_all
  have "0 < bit_len (nat x)" using assms(2) by simp
  then have "d < 2 ^ 64" using assms(3) unfolding d_def by linarith
  from bigMSB_eq [OF j this] have n: "unat (bigMSB x) = d" "x AND NOT (push_bit d 1) = x - 2 ^ d" by simp_all
  have e: "NewPositionFromGIndex x = NewPosition (bigMSB x) (x - 2 ^ d)"
    unfolding NewPositionFromGIndex_def Let_def n ..
  show ok: "position_ok (NewPositionFromGIndex x)" using j n(1) by (simp add: e position_ok_def NewPosition_def)
  show "ToGIndex (NewPositionFromGIndex x) = x" unfolding ToGIndex_eq [OF ok] by (simp add: e NewPosition_def n(1))
qed

theorem gindex_round_trip_witness:
  "NewPositionFromGIndex (ToGIndex (NewPosition 3 6)) = NewPosition 3 6 \<and> ToGIndex (NewPositionFromGIndex 14) = 14"
proof -
  have "bit_len 14 = Suc 3" by (rule bit_len_unique) simp_all
  then show ?thesis
    using gindex_round_trip [of "NewPosition 3 6" 14] by (simp add: position_ok_def NewPosition_def)
qed

text \<open>Attacking and defending bisect the trace: at a position above the maximal depth whose index is even (as every
  position reached by moves is), an attack lands half a step left of the claim's trace index and a
  defence half a step right of it, both stay in the tree of the next depth with an even index, and neither panics.\<close>

theorem moves_bisect:
  assumes "depth p < maxDepth" "even (IndexAtDepth p)"
  shows "TraceIndex (Attack p) maxDepth = map_sum id (\<lambda>t. t - 2 ^ (unat maxDepth - unat (depth p) - 1)) (TraceIndex p maxDepth) \<and>
    TraceIndex (Defend p) maxDepth = map_sum id (\<lambda>t. t + 2 ^ (unat maxDepth - unat (depth p) - 1)) (TraceIndex p maxDepth) \<and>
    is_ok (TraceIndex p maxDepth) \<and>
    depth (Attack p) = depth p + 1 \<and> depth (Defend p) = depth p + 1 \<and>
    even (IndexAtDepth (Attack p)) \<and> even (IndexAtDepth (Defend p))"
proof -
  have "unat (depth p) < unat maxDepth" using assms(1) by (simp add: word_less_nat_alt)
  then obtain k where k: "unat maxDepth = Suc (unat (depth p) + k)" using less_imp_Suc_add by blast
  have u: "unat (depth p + 1) = Suc (unat (depth p))"
    using k unsigned_less [of maxDepth, where ?'a = nat] by (simp add: unat_word_ariths)
  have le: "depth p + 1 \<le> maxDepth" using assms(1) by (rule inc_le)
  have "TraceIndex p maxDepth = Inr ((IndexAtDepth p + 1) * 2 ^ Suc k - 1)"
    using assms(1) by (simp add: TraceIndex_eq k)
  moreover have "TraceIndex (Attack p) maxDepth = Inr ((2 * IndexAtDepth p + 1) * 2 ^ k - 1)"
    using le by (simp add: TraceIndex_eq Attack_eq k u NewPosition_def)
  moreover have "TraceIndex (Defend p) maxDepth = Inr ((2 * IndexAtDepth p + 3) * 2 ^ k - 1)"
    using le by (simp add: TraceIndex_eq Defend_even [OF assms(2)] k u NewPosition_def)
  ultimately show ?thesis using assms(2)
    by (simp add: k algebra_simps) (simp add: Attack_eq Defend_even NewPosition_def)
qed

theorem moves_bisect_witness:
  "TraceIndex (Attack (NewPosition 1 0)) 4 = Inr 3 \<and> TraceIndex (Defend (NewPosition 1 0)) 4 = Inr 11"
proof -
  have "TraceIndex (NewPosition 1 0) 4 = Inr 7" by (simp add: TraceIndex_eq NewPosition_def)
  then show ?thesis using moves_bisect [of "NewPosition 1 0" 4] by (simp add: NewPosition_def)
qed

text \<open>C28: Translating a position into a subtree keeps the trace: below the root of a subtree at depth \<open>ancestor\<close>, the trace
  index of the translated position in the subtree is the remainder of the original trace index by the number of
  leaves of the subtree. A position above that depth is an error, and one 64 or more levels below it panics, because
  the number of nodes is computed as a 64-bit integer.\<close>

theorem relative_trace_index:
  assumes "unat (depth p) + unat rd < 2 ^ 64"
  shows "(if depth p < ancestor then RelativeToAncestorAtDepth p ancestor = Inl ErrPositionDepthTooSmall
    else if 64 \<le> unat (depth p) - unat ancestor then RelativeToAncestorAtDepth p ancestor = Inl PanicDivisionByZero
    else rbind (RelativeToAncestorAtDepth p ancestor) (\<lambda>q. TraceIndex q (depth p + rd - ancestor)) =
         Inr (((IndexAtDepth p + 1) * 2 ^ unat rd - 1) mod 2 ^ (unat (depth p) - unat ancestor + unat rd)))"
proof (cases "ancestor \<le> depth p")
  case True
  then have a: "unat (depth p - ancestor) = unat (depth p) - unat ancestor" "unat ancestor \<le> unat (depth p)"
    by (simp_all add: unat_sub word_le_nat_alt)
  have s: "unat (depth p + rd) = unat (depth p) + unat rd" using assms by (simp add: unat_word_ariths)
  then have t: "unat (depth p + rd - ancestor) = unat (depth p) - unat ancestor + unat rd"
    using a(2) by (simp add: unat_sub word_le_nat_alt)
  show ?thesis
  proof (cases "64 \<le> unat (depth p) - unat ancestor")
    case True
    then have "(push_bit (unat (depth p) - unat ancestor) 1 :: uint64) = 0"
      by (intro bit_word_eqI) (auto simp: bit_simps)
    then have "sint (push_bit (unat (depth p) - unat ancestor) 1 :: uint64) = 0" by (simp only: signed_0)
    then show ?thesis using \<open>ancestor \<le> depth p\<close> True a by (simp add: RelativeToAncestorAtDepth_def Let_def not_less)
  next
    case False
    then have n: "\<bar>sint (push_bit (unat (depth p) - unat ancestor) 1 :: uint64)\<bar> = 2 ^ (unat (depth p) - unat ancestor)"
      by (intro abs_nodesAtDepth) simp
    then have "RelativeToAncestorAtDepth p ancestor =
        Inr (NewPosition (depth p - ancestor) (IndexAtDepth p mod 2 ^ (unat (depth p) - unat ancestor)))"
      using \<open>ancestor \<le> depth p\<close> a(1) by (auto simp: RelativeToAncestorAtDepth_def Let_def)
    moreover have "depth p - ancestor \<le> depth p + rd - ancestor" by (simp add: word_le_nat_alt a t)
    ultimately have "rbind (RelativeToAncestorAtDepth p ancestor) (\<lambda>q. TraceIndex q (depth p + rd - ancestor)) =
       Inr ((IndexAtDepth p mod 2 ^ (unat (depth p) - unat ancestor) + 1) * 2 ^ unat rd - 1)"
      by (simp add: TraceIndex_eq NewPosition_def a t)
    moreover have "\<not> depth p < ancestor" using \<open>ancestor \<le> depth p\<close> by simp
    ultimately show ?thesis using False by (simp add: trace_index_mod)
  qed
qed (auto simp: RelativeToAncestorAtDepth_def not_le)

theorem relative_trace_index_witness:
  "rbind (RelativeToAncestorAtDepth (NewPosition 5 13) 2) (\<lambda>q. TraceIndex q 6) = Inr (111 mod 64)"
  using relative_trace_index [of "NewPosition 5 13" 3 2] by (simp add: NewPosition_def)

end
