(* ===== verification/GameTypes.thy ===== *)
theory GameTypes
  imports GamePosition
begin

text \<open>
  Claims, the game state and actions of the dispute game
  (\<^verbatim>\<open>op-challenger/game/fault/types/{types,game,actions}.go\<close>), and the trace providers and accessors
  (\<^verbatim>\<open>trace/{access,translate}.go\<close>). Hashes and addresses are byte lists; the hash function is a parameter.
\<close>

section \<open>Game and trace types\<close>

type_synonym GameType = uint32

definition CannonGameType :: GameType where "CannonGameType = 0"
definition PermissionedGameType :: GameType where "PermissionedGameType = 1"
definition AsteriscGameType :: GameType where "AsteriscGameType = 2"
definition AsteriscKonaGameType :: GameType where "AsteriscKonaGameType = 3"
definition SuperCannonGameType :: GameType where "SuperCannonGameType = 4"
definition SuperPermissionedGameType :: GameType where "SuperPermissionedGameType = 5"
definition OPSuccinctGameType :: GameType where "OPSuccinctGameType = 6"
definition FastGameType :: GameType where "FastGameType = 254"
definition AlphabetGameType :: GameType where "AlphabetGameType = 255"
definition KailuaGameType :: GameType where "KailuaGameType = 1337"
definition UnknownGameType :: GameType where "UnknownGameType = 0xFFFFFFFF"

lemmas GameType_defs = CannonGameType_def PermissionedGameType_def AsteriscGameType_def AsteriscKonaGameType_def
  SuperCannonGameType_def SuperPermissionedGameType_def OPSuccinctGameType_def FastGameType_def AlphabetGameType_def
  KailuaGameType_def UnknownGameType_def

text \<open>The name of a game type; an unknown one is shown through \<open>dec\<close>, the decimal rendering of \<^verbatim>\<open>fmt\<close>.\<close>

definition GameType_String :: "(GameType \<Rightarrow> string) \<Rightarrow> GameType \<Rightarrow> string" where
  "GameType_String dec t =
    (if t = CannonGameType then ''cannon''
     else if t = PermissionedGameType then ''permissioned''
     else if t = AsteriscGameType then ''asterisc''
     else if t = AsteriscKonaGameType then ''asterisc-kona''
     else if t = SuperCannonGameType then ''super-cannon''
     else if t = SuperPermissionedGameType then ''super-permissioned''
     else if t = OPSuccinctGameType then ''op-succinct''
     else if t = FastGameType then ''fast''
     else if t = AlphabetGameType then ''alphabet''
     else if t = KailuaGameType then ''kailua''
     else ''<invalid: '' @ dec t @ ''>'')"

type_synonym TraceType = string

definition TraceTypes :: "TraceType list" where
  "TraceTypes = [''alphabet'', ''cannon'', ''permissioned'', ''asterisc'', ''asterisc-kona'', ''fast'',
                 ''super-cannon'', ''super-permissioned'']"

definition ValidTraceType :: "TraceType \<Rightarrow> bool" where
  "ValidTraceType value \<longleftrightarrow> (\<exists>t \<in> set TraceTypes. t = value)"

definition TraceType_GameType :: "TraceType \<Rightarrow> GameType" where
  "TraceType_GameType t =
    (if t = ''cannon'' then CannonGameType
     else if t = ''permissioned'' then PermissionedGameType
     else if t = ''asterisc'' then AsteriscGameType
     else if t = ''asterisc-kona'' then AsteriscKonaGameType
     else if t = ''fast'' then FastGameType
     else if t = ''alphabet'' then AlphabetGameType
     else if t = ''super-cannon'' then SuperCannonGameType
     else if t = ''super-permissioned'' then SuperPermissionedGameType
     else UnknownGameType)"

section \<open>Pre-image data\<close>

record PreimageOracleData =
  IsLocal :: bool
  OracleKey :: bytes
  oracleData :: bytes
  OracleOffset :: uint32
  ZPoint :: bytes
  BlobCommitment :: bytes
  BlobProof :: bytes

definition LocalKeyType :: byte where "LocalKeyType = 1"

definition NewPreimageOracleData :: "bytes \<Rightarrow> bytes \<Rightarrow> uint32 \<Rightarrow> PreimageOracleData" where
  "NewPreimageOracleData key data off =
    \<lparr>IsLocal = (0 < length key \<and> key ! 0 = LocalKeyType), OracleKey = key, oracleData = data, OracleOffset = off,
     ZPoint = replicate 32 0, BlobCommitment = [], BlobProof = []\<rparr>"

definition NewPreimageOracleBlobData :: "bytes \<Rightarrow> bytes \<Rightarrow> uint32 \<Rightarrow> bytes \<Rightarrow> bytes \<Rightarrow> bytes \<Rightarrow> PreimageOracleData" where
  "NewPreimageOracleBlobData key data off zPoint commitment proof =
    \<lparr>IsLocal = False, OracleKey = key, oracleData = data, OracleOffset = off,
     ZPoint = zPoint, BlobCommitment = commitment, BlobProof = proof\<rparr>"

text \<open>Slicing beyond the end of the data panics.\<close>

definition slice_from :: "nat \<Rightarrow> bytes \<Rightarrow> game_error + bytes" where
  "slice_from n b = (if n \<le> length b then Inr (drop n b) else Inl PanicIndexOutOfRange)"

definition GetPreimageWithoutSize :: "PreimageOracleData \<Rightarrow> game_error + bytes" where
  "GetPreimageWithoutSize p = slice_from 8 (oracleData p)"

definition GetPreimageWithSize :: "PreimageOracleData \<Rightarrow> bytes" where
  "GetPreimageWithSize p = oracleData p"

definition GetPrecompileAddress :: "PreimageOracleData \<Rightarrow> game_error + bytes" where
  "GetPrecompileAddress p =
    (if 28 \<le> length (oracleData p) then Inr (go_slice (oracleData p) 8 28) else Inl PanicIndexOutOfRange)"

definition GetPrecompileRequiredGas :: "PreimageOracleData \<Rightarrow> game_error + uint64" where
  "GetPrecompileRequiredGas p =
    (if 36 \<le> length (oracleData p) then Inr (be_word (go_slice (oracleData p) 28 36)) else Inl PanicIndexOutOfRange)"

definition GetPrecompileInput :: "PreimageOracleData \<Rightarrow> game_error + bytes" where
  "GetPrecompileInput p = slice_from 36 (oracleData p)"

section \<open>Claims\<close>

text \<open>A time is the number of nanoseconds since the zero time, a duration an \<^verbatim>\<open>int64\<close>.\<close>

record Clock =
  Duration :: "64 word"
  Timestamp :: int

record Claim =
  Value :: bytes
  Bond :: "int option"
  cPosition :: Position
  CounteredBy :: bytes
  Claimant :: bytes
  cClock :: Clock
  ContractIndex :: int
  ParentContractIndex :: int

definition zeroHash :: bytes where "zeroHash = replicate 32 0"
definition zeroAddress :: bytes where "zeroAddress = replicate 20 0"

text \<open>The zero value \<^verbatim>\<open>Claim{}\<close>; its pointers are \<^verbatim>\<open>nil\<close>.\<close>

definition zeroClaim :: Claim where
  "zeroClaim = \<lparr>Value = zeroHash, Bond = None, cPosition = \<lparr>depth = 0, indexAtDepth = None\<rparr>,
     CounteredBy = zeroAddress, Claimant = zeroAddress, cClock = \<lparr>Duration = 0, Timestamp = 0\<rparr>,
     ContractIndex = 0, ParentContractIndex = 0\<rparr>"

text \<open>\<^verbatim>\<open>big.Int.Bytes\<close>: the absolute value, big-endian, without leading zeros.\<close>

fun nat_Bytes :: "nat \<Rightarrow> bytes" where
  "nat_Bytes n = (if n = 0 then [] else nat_Bytes (n div 256) @ [of_nat (n mod 256)])"

declare nat_Bytes.simps [simp del]

definition big_Bytes :: "int \<Rightarrow> bytes" where
  "big_Bytes x = nat_Bytes (nat \<bar>x\<bar>)"

definition Claim_ID :: "(bytes \<Rightarrow> bytes) \<Rightarrow> Claim \<Rightarrow> bytes" where
  "Claim_ID keccak c = keccak (big_Bytes (ToGIndex (cPosition c)) @ Value c @ big_Bytes (ParentContractIndex c))"

definition IsRoot :: "Claim \<Rightarrow> bool" where
  "IsRoot c = IsRootPosition (cPosition c)"

definition NewClock :: "64 word \<Rightarrow> int \<Rightarrow> Clock" where
  "NewClock d t = \<lparr>Duration = d, Timestamp = t\<rparr>"

section \<open>The game state\<close>

record gameState =
  claims :: "Claim list"
  claimIDs :: "bytes \<Rightarrow> bool option"
  gDepth :: Depth

definition NewGameState :: "(bytes \<Rightarrow> bytes) \<Rightarrow> Claim list \<Rightarrow> Depth \<Rightarrow> gameState" where
  "NewGameState keccak cs d =
    \<lparr>claims = cs, claimIDs = foldl (\<lambda>m c. m(Claim_ID keccak c \<mapsto> True)) Map.empty cs, gDepth = d\<rparr>"

definition AgreeWithClaimLevel :: "Claim \<Rightarrow> bool \<Rightarrow> bool" where
  "AgreeWithClaimLevel claim agreeWithRootClaim =
    (let isOddLevel = (depth (cPosition claim) mod 2 = 1)
     in if agreeWithRootClaim then \<not> isOddLevel else isOddLevel)"

definition IsDuplicate :: "(bytes \<Rightarrow> bytes) \<Rightarrow> gameState \<Rightarrow> Claim \<Rightarrow> bool" where
  "IsDuplicate keccak g claim = (claimIDs g (Claim_ID keccak claim) = Some True)"

definition getParent :: "gameState \<Rightarrow> Claim \<Rightarrow> Claim option" where
  "getParent g claim =
    (if IsRoot claim then None
     else if int (length (claims g)) \<le> ParentContractIndex claim \<or> ParentContractIndex claim < 0 then None
     else Some (claims g ! nat (ParentContractIndex claim)))"

definition GetParent :: "gameState \<Rightarrow> Claim \<Rightarrow> game_error + Claim" where
  "GetParent g claim = (case getParent g claim of None \<Rightarrow> Inl ErrClaimNotFound | Some p \<Rightarrow> Inr p)"

definition DefendsParent :: "gameState \<Rightarrow> Claim \<Rightarrow> bool" where
  "DefendsParent g claim = (case getParent g claim of None \<Rightarrow> False
     | Some parent \<Rightarrow> RightOf (cPosition claim) (cPosition parent))"

text \<open>\<^verbatim>\<open>Time.Sub\<close> saturates; adding durations wraps.\<close>

definition time_Sub :: "int \<Rightarrow> int \<Rightarrow> 64 word" where
  "time_Sub t u = of_int (max (- (2 ^ 63)) (min (2 ^ 63 - 1) (t - u)))"

definition ChessClock :: "int \<Rightarrow> Claim \<Rightarrow> Claim \<Rightarrow> 64 word" where
  "ChessClock now claim parent =
    (let duration = time_Sub now (Timestamp (cClock claim))
     in if parent \<noteq> zeroClaim then Duration (cClock parent) + duration else duration)"

definition gameState_ChessClock :: "gameState \<Rightarrow> int \<Rightarrow> Claim \<Rightarrow> 64 word" where
  "gameState_ChessClock g now claim =
    ChessClock now claim (case getParent g claim of None \<Rightarrow> zeroClaim | Some p \<Rightarrow> p)"

text \<open>The walk towards the root. Parent links may form a cycle in an arbitrary list of claims, so the walk
  may not return (\<open>None\<close>); a returned value is a panic, no such ancestor, or the ancestor.\<close>

partial_function (option) AncestorWithTraceIndex ::
    "gameState \<Rightarrow> int \<Rightarrow> Claim \<Rightarrow> (game_error + Claim option) option" where
  "AncestorWithTraceIndex g idx claim =
    (case TraceIndex (cPosition claim) (gDepth g) of
       Inl e \<Rightarrow> Some (Inl e)
     | Inr t \<Rightarrow>
        if t = idx then Some (Inr (Some claim))
        else if IsRoot claim then Some (Inr None)
        else case getParent g claim of
            None \<Rightarrow> Some (Inr None)
          | Some next \<Rightarrow> AncestorWithTraceIndex g idx next)"

declare AncestorWithTraceIndex.simps [code]

section \<open>Actions\<close>

datatype ActionType = ActionTypeMove | ActionTypeStep | ActionTypeChallengeL2BlockNumber

record 'x Action =
  aType :: ActionType
  ParentClaim :: Claim
  IsAttack :: bool
  aValue :: bytes
  PreState :: bytes
  ProofData :: bytes
  OracleData :: "PreimageOracleData option"
  L2Challenge :: "'x option"

section \<open>Trace providers and accessors\<close>

text \<open>The interface \<^verbatim>\<open>TraceProvider\<close>; the L2 block number challenge is opaque.\<close>

record 'x TraceProvider =
  tpAbsolutePreStateCommitment :: "game_error + bytes"
  tpGet :: "Position \<Rightarrow> game_error + bytes"
  tpGetStepData :: "Position \<Rightarrow> game_error + (bytes \<times> bytes \<times> PreimageOracleData option)"
  tpGetL2BlockNumberChallenge :: "game_error + 'x"

record 'x TraceAccessor =
  taGet :: "gameState \<Rightarrow> Claim \<Rightarrow> Position \<Rightarrow> game_error + bytes"
  taGetStepData :: "gameState \<Rightarrow> Claim \<Rightarrow> Position \<Rightarrow> game_error + (bytes \<times> bytes \<times> PreimageOracleData option)"
  taGetL2BlockNumberChallenge :: "gameState \<Rightarrow> game_error + 'x"

type_synonym 'x ProviderSelector = "gameState \<Rightarrow> Claim \<Rightarrow> Position \<Rightarrow> game_error + 'x TraceProvider"

definition nth_claim :: "gameState \<Rightarrow> int \<Rightarrow> game_error + Claim" where
  "nth_claim g i = (if 0 \<le> i \<and> i < int (length (claims g)) then Inr (claims g ! nat i) else Inl PanicIndexOutOfRange)"

definition Accessor :: "'x ProviderSelector \<Rightarrow> 'x TraceAccessor" where
  "Accessor selector =
    \<lparr>taGet = (\<lambda>g ref pos. rbind (selector g ref pos) (\<lambda>provider. tpGet provider pos)),
     taGetStepData = (\<lambda>g ref pos. rbind (selector g ref pos) (\<lambda>provider. tpGetStepData provider pos)),
     taGetL2BlockNumberChallenge = (\<lambda>g.
        rbind (nth_claim g 0) (\<lambda>root.
        rbind (selector g root RootPosition) (\<lambda>provider. tpGetL2BlockNumberChallenge provider)))\<rparr>"

definition NewSimpleTraceAccessor :: "'x TraceProvider \<Rightarrow> 'x TraceAccessor" where
  "NewSimpleTraceAccessor trace = Accessor (\<lambda>_ _ _. Inr trace)"

definition Translate :: "'x TraceProvider \<Rightarrow> Depth \<Rightarrow> 'x TraceProvider" where
  "Translate provider rootDepth =
    \<lparr>tpAbsolutePreStateCommitment = tpAbsolutePreStateCommitment provider,
     tpGet = (\<lambda>pos. rbind (RelativeToAncestorAtDepth pos rootDepth) (tpGet provider)),
     tpGetStepData = (\<lambda>pos. rbind (RelativeToAncestorAtDepth pos rootDepth) (tpGetStepData provider)),
     tpGetL2BlockNumberChallenge = tpGetL2BlockNumberChallenge provider\<rparr>"

end
