(* ===== verification/GameSolver.thy ===== *)
theory GameSolver
  imports GameTypes
begin

text \<open>
  The solver of the honest challenger (\<^verbatim>\<open>op-challenger/game/fault/solver/{honest_claims,solver,game_solver}.go\<close>):
  which claims to counter, with which move or step, and the rules an action must obey
  (\<^verbatim>\<open>solver/rules.go\<close>).
\<close>

section \<open>Honest claims\<close>

record honestClaimTracker =
  agreed :: "bytes \<Rightarrow> bool option"
  counters :: "bytes \<Rightarrow> Claim option"

definition newHonestClaimTracker :: honestClaimTracker where
  "newHonestClaimTracker = \<lparr>agreed = Map.empty, counters = Map.empty\<rparr>"

definition AddHonestClaim :: "(bytes \<Rightarrow> bytes) \<Rightarrow> honestClaimTracker \<Rightarrow> Claim \<Rightarrow> Claim \<Rightarrow> honestClaimTracker" where
  "AddHonestClaim keccak a parent claim =
    (let a = a\<lparr>agreed := (agreed a)(Claim_ID keccak claim \<mapsto> True)\<rparr>
     in if parent \<noteq> zeroClaim then a\<lparr>counters := (counters a)(Claim_ID keccak parent \<mapsto> claim)\<rparr> else a)"

definition IsHonest :: "(bytes \<Rightarrow> bytes) \<Rightarrow> honestClaimTracker \<Rightarrow> Claim \<Rightarrow> bool" where
  "IsHonest keccak a claim = (agreed a (Claim_ID keccak claim) = Some True)"

definition HonestCounter :: "(bytes \<Rightarrow> bytes) \<Rightarrow> honestClaimTracker \<Rightarrow> Claim \<Rightarrow> Claim option" where
  "HonestCounter keccak a parent = counters a (Claim_ID keccak parent)"

section \<open>The claim solver\<close>

record 'x claimSolver =
  trace :: "'x TraceAccessor"
  gameDepth :: Depth

definition newClaimSolver :: "Depth \<Rightarrow> 'x TraceAccessor \<Rightarrow> 'x claimSolver" where
  "newClaimSolver d tr = \<lparr>trace = tr, gameDepth = d\<rparr>"

definition shouldCounter :: "(bytes \<Rightarrow> bytes) \<Rightarrow> gameState \<Rightarrow> Claim \<Rightarrow> honestClaimTracker \<Rightarrow> game_error + bool" where
  "shouldCounter keccak game claim honestClaims =
    (if IsHonest keccak honestClaims claim then Inr False
     else if IsRoot claim then Inr True
     else rbind (GetParent game claim) (\<lambda>parent.
       if IsHonest keccak honestClaims parent then Inr True
       else case HonestCounter keccak honestClaims parent of
          None \<Rightarrow> Inr False
        | Some counter \<Rightarrow>
            rbind (TraceIndex (cPosition counter) (gDepth game)) (\<lambda>honestIdx.
            rbind (TraceIndex (cPosition claim) (gDepth game)) (\<lambda>claimIdx.
            Inr (claimIdx \<le> honestIdx)))))"

definition agreeWithClaim :: "'x claimSolver \<Rightarrow> gameState \<Rightarrow> Claim \<Rightarrow> game_error + bool" where
  "agreeWithClaim s game claim =
    rbind (taGet (trace s) game claim (cPosition claim)) (\<lambda>ourValue. Inr (ourValue = Value claim))"

text \<open>The claim of a move: value, position and parent; everything else has its zero value.\<close>

definition move_claim :: "bytes \<Rightarrow> Position \<Rightarrow> int \<Rightarrow> Claim" where
  "move_claim value position parent = zeroClaim\<lparr>Value := value, cPosition := position, ParentContractIndex := parent\<rparr>"

definition attack :: "'x claimSolver \<Rightarrow> gameState \<Rightarrow> Claim \<Rightarrow> game_error + Claim option" where
  "attack s game claim =
    (let position = Attack (cPosition claim)
     in rbind (taGet (trace s) game claim position) (\<lambda>value.
          Inr (Some (move_claim value position (ContractIndex claim)))))"

definition defend :: "'x claimSolver \<Rightarrow> gameState \<Rightarrow> Claim \<Rightarrow> game_error + Claim option" where
  "defend s game claim =
    (if IsRoot claim then Inr None
     else let position = Defend (cPosition claim)
          in rbind (taGet (trace s) game claim position) (\<lambda>value.
               Inr (Some (move_claim value position (ContractIndex claim)))))"

definition NextMove ::
    "(bytes \<Rightarrow> bytes) \<Rightarrow> 'x claimSolver \<Rightarrow> Claim \<Rightarrow> gameState \<Rightarrow> honestClaimTracker \<Rightarrow> game_error + Claim option" where
  "NextMove keccak s claim game honestClaims =
    (if depth (cPosition claim) = gameDepth s then Inl ErrGameDepthReached
     else rbind (shouldCounter keccak game claim honestClaims) (\<lambda>counter.
       if \<not> counter then Inr None
       else rbind (agreeWithClaim s game claim) (\<lambda>agree.
         if agree then defend s game claim else attack s game claim)))"

record StepData =
  LeafClaim :: Claim
  sIsAttack :: bool
  sPreState :: bytes
  sProofData :: bytes
  sOracleData :: "PreimageOracleData option"

definition AttemptStep ::
    "(bytes \<Rightarrow> bytes) \<Rightarrow> 'x claimSolver \<Rightarrow> gameState \<Rightarrow> Claim \<Rightarrow> honestClaimTracker \<Rightarrow> game_error + StepData option" where
  "AttemptStep keccak s game claim honestClaims =
    (if depth (cPosition claim) \<noteq> gameDepth s then Inl ErrStepNonLeafNode
     else rbind (shouldCounter keccak game claim honestClaims) (\<lambda>counter.
       if \<not> counter then Inr None
       else rbind (agreeWithClaim s game claim) (\<lambda>claimCorrect.
         let position = (if \<not> claimCorrect then cPosition claim else MoveRight (cPosition claim))
         in rbind (taGetStepData (trace s) game claim position) (\<lambda>(preState, proofData, oracle).
              Inr (Some \<lparr>LeafClaim = claim, sIsAttack = (\<not> claimCorrect), sPreState = preState,
                         sProofData = proofData, sOracleData = oracle\<rparr>)))))"

section \<open>The game solver\<close>

definition calculateStep ::
    "(bytes \<Rightarrow> bytes) \<Rightarrow> 'x claimSolver \<Rightarrow> gameState \<Rightarrow> Claim \<Rightarrow> honestClaimTracker \<Rightarrow> game_error + 'x Action option" where
  "calculateStep keccak s game claim agreedClaims =
    (if CounteredBy claim \<noteq> zeroAddress then Inr None
     else rbind (AttemptStep keccak s game claim agreedClaims) (\<lambda>step.
       case step of None \<Rightarrow> Inr None
       | Some step \<Rightarrow> Inr (Some \<lparr>aType = ActionTypeStep, ParentClaim = LeafClaim step, IsAttack = sIsAttack step,
            aValue = zeroHash, PreState = sPreState step, ProofData = sProofData step, OracleData = sOracleData step,
            L2Challenge = None\<rparr>)))"

definition calculateMove ::
    "(bytes \<Rightarrow> bytes) \<Rightarrow> 'x claimSolver \<Rightarrow> gameState \<Rightarrow> Claim \<Rightarrow> honestClaimTracker \<Rightarrow>
     game_error + 'x Action option \<times> honestClaimTracker" where
  "calculateMove keccak s game claim honestClaims =
    rbind (NextMove keccak s claim game honestClaims) (\<lambda>mv.
      case mv of None \<Rightarrow> Inr (None, honestClaims)
      | Some mv \<Rightarrow>
          let honestClaims = AddHonestClaim keccak honestClaims claim mv in
          if IsDuplicate keccak game mv then Inr (None, honestClaims)
          else rbind (nth_claim game (ParentContractIndex mv)) (\<lambda>parent.
            Inr (Some \<lparr>aType = ActionTypeMove, ParentClaim = parent, IsAttack = (\<not> DefendsParent game mv),
                       aValue = Value mv, PreState = [], ProofData = [], OracleData = None, L2Challenge = None\<rparr>,
                 honestClaims)))"

definition AgreeWithRootClaim :: "'x claimSolver \<Rightarrow> gameState \<Rightarrow> game_error + bool" where
  "AgreeWithRootClaim s game = rbind (nth_claim game 0) (agreeWithClaim s game)"

text \<open>A panic unwinds the call, an error value is returned with the actions found so far.\<close>

fun is_panic :: "game_error \<Rightarrow> bool" where
  "is_panic PanicMaxDepth = True"
| "is_panic PanicDivisionByZero = True"
| "is_panic PanicIndexOutOfRange = True"
| "is_panic _ = False"

definition claim_action ::
    "(bytes \<Rightarrow> bytes) \<Rightarrow> 'x claimSolver \<Rightarrow> gameState \<Rightarrow> Claim \<Rightarrow> honestClaimTracker \<Rightarrow>
     game_error + 'x Action option \<times> honestClaimTracker" where
  "claim_action keccak s game claim agreedClaims =
    (if depth (cPosition claim) = gDepth game
     then rbind (calculateStep keccak s game claim agreedClaims) (\<lambda>a. Inr (a, agreedClaims))
     else calculateMove keccak s game claim agreedClaims)"

fun actions_loop ::
    "(bytes \<Rightarrow> bytes) \<Rightarrow> 'x claimSolver \<Rightarrow> gameState \<Rightarrow> Claim list \<Rightarrow> 'x Action list \<Rightarrow> honestClaimTracker \<Rightarrow>
     game_error + 'x Action list \<times> game_error option" where
  "actions_loop keccak s game [] actions agreedClaims = Inr (actions, None)"
| "actions_loop keccak s game (claim # rest) actions agreedClaims =
    (case claim_action keccak s game claim agreedClaims of
       Inl e \<Rightarrow> if is_panic e then Inl e else Inr (actions, Some e)
     | Inr (None, agreedClaims) \<Rightarrow> actions_loop keccak s game rest actions agreedClaims
     | Inr (Some action, agreedClaims) \<Rightarrow> actions_loop keccak s game rest (actions @ [action]) agreedClaims)"

definition initial_tracker :: "(bytes \<Rightarrow> bytes) \<Rightarrow> bool \<Rightarrow> Claim \<Rightarrow> honestClaimTracker" where
  "initial_tracker keccak agreeWithRootClaim root =
    (if agreeWithRootClaim then AddHonestClaim keccak newHonestClaimTracker zeroClaim root else newHonestClaimTracker)"

definition CalculateNextActions ::
    "(bytes \<Rightarrow> bytes) \<Rightarrow> 'x claimSolver \<Rightarrow> gameState \<Rightarrow> game_error + 'x Action list \<times> game_error option" where
  "CalculateNextActions keccak s game =
    (case AgreeWithRootClaim s game of
       Inl e \<Rightarrow> if is_panic e then Inl e else Inr ([], Some e)
     | Inr agreeWithRootClaim \<Rightarrow>
        let run = (\<lambda>_. rbind (nth_claim game 0) (\<lambda>root.
                    actions_loop keccak s game (claims game) [] (initial_tracker keccak agreeWithRootClaim root)))
        in if agreeWithRootClaim then
             (case taGetL2BlockNumberChallenge (trace s) game of
                Inl ErrL2BlockNumberValid \<Rightarrow> run ()
              | Inl e \<Rightarrow> if is_panic e then Inl e else Inr ([], Some e)
              | Inr challenge \<Rightarrow>
                  Inr ([\<lparr>aType = ActionTypeChallengeL2BlockNumber, ParentClaim = zeroClaim, IsAttack = False,
                         aValue = zeroHash, PreState = [], ProofData = [], OracleData = None,
                         L2Challenge = Some challenge\<rparr>], None))
           else run ())"

section \<open>The rules\<close>

text \<open>The outcome of a rule: a panic, no error (\<open>Inr None\<close>) or an error. The two walks up the tree may not
  return, so those rules have an outer option.\<close>

type_synonym rule_outcome = "game_error + game_error option"

definition challengerAddr :: bytes where "challengerAddr = replicate 20 0xAA"

definition violated :: "string \<Rightarrow> rule_outcome" where "violated s = Inr (Some (RuleViolated s))"

definition parentMustExist :: "gameState \<Rightarrow> 'x Action \<Rightarrow> rule_outcome" where
  "parentMustExist game action =
    (if int (length (claims game)) \<le> ContractIndex (ParentClaim action) \<or> ContractIndex (ParentClaim action) < 0
     then violated ''parent claim does not exist'' else Inr None)"

definition onlyStepAtMaxDepth :: "gameState \<Rightarrow> 'x Action \<Rightarrow> rule_outcome" where
  "onlyStepAtMaxDepth game action =
    (if aType action = ActionTypeStep then Inr None
     else rbind (nth_claim game (ContractIndex (ParentClaim action))) (\<lambda>p.
       if gDepth game \<le> depth (cPosition p) then violated ''parent at max depth'' else Inr None))"

definition onlyMoveBeforeMaxDepth :: "gameState \<Rightarrow> 'x Action \<Rightarrow> rule_outcome" where
  "onlyMoveBeforeMaxDepth game action =
    (if aType action = ActionTypeMove then Inr None
     else rbind (nth_claim game (ContractIndex (ParentClaim action))) (\<lambda>p.
       if depth (cPosition p) < gDepth game then violated ''parent not at max depth'' else Inr None))"

definition resultingPosition :: "gameState \<Rightarrow> 'x Action \<Rightarrow> game_error + Position" where
  "resultingPosition game action =
    rbind (nth_claim game (ContractIndex (ParentClaim action))) (\<lambda>p.
      let parentPos = cPosition p in
      if aType action = ActionTypeStep then Inr parentPos
      else if IsAttack action then Inr (Attack parentPos) else Inr (Defend parentPos))"

definition doNotDuplicateExistingMoves :: "(bytes \<Rightarrow> bytes) \<Rightarrow> gameState \<Rightarrow> 'x Action \<Rightarrow> rule_outcome" where
  "doNotDuplicateExistingMoves keccak game action =
    rbind (resultingPosition game action) (\<lambda>pos.
      if IsDuplicate keccak game (move_claim (aValue action) pos (ContractIndex (ParentClaim action)))
      then violated ''creating duplicate claim'' else Inr None)"

definition doNotStepAlreadyCounteredClaims :: "gameState \<Rightarrow> 'x Action \<Rightarrow> rule_outcome" where
  "doNotStepAlreadyCounteredClaims game action =
    rbind (nth_claim game (ContractIndex (ParentClaim action))) (\<lambda>claim.
      if CounteredBy claim \<noteq> zeroAddress then violated ''step on countered claim'' else Inr None)"

definition doNotDefendRootClaim :: "gameState \<Rightarrow> 'x Action \<Rightarrow> rule_outcome" where
  "doNotDefendRootClaim game action =
    rbind (nth_claim game (ContractIndex (ParentClaim action))) (\<lambda>claim.
      if IsRootPosition (cPosition claim) \<and> \<not> IsAttack action then violated ''defending the root claim'' else Inr None)"

definition doNotCounterSelf :: "gameState \<Rightarrow> 'x Action \<Rightarrow> rule_outcome" where
  "doNotCounterSelf game action =
    rbind (nth_claim game (ContractIndex (ParentClaim action))) (\<lambda>claim.
      if Claimant claim = challengerAddr then violated ''countering own claim'' else Inr None)"

text \<open>The walk of \<^verbatim>\<open>avoidPoisonedPrestate\<close>: the ancestor with the highest trace index left of the move.\<close>

partial_function (option) poisoned_walk ::
    "gameState \<Rightarrow> int \<Rightarrow> Claim \<Rightarrow> Claim \<Rightarrow> (game_error + Claim) option" where
  "poisoned_walk game honestTraceIndex preStateClaim claim =
    (case TraceIndex (cPosition claim) (gDepth game) of
       Inl e \<Rightarrow> Some (Inl e)
     | Inr claimTraceIdx \<Rightarrow>
       (case (if claimTraceIdx < honestTraceIndex then
                (if preStateClaim = zeroClaim then Inr claim
                 else case TraceIndex (cPosition preStateClaim) (gDepth game) of
                     Inl e \<Rightarrow> Inl e
                   | Inr t \<Rightarrow> Inr (if t < claimTraceIdx then claim else preStateClaim))
              else Inr preStateClaim) of
          Inl e \<Rightarrow> Some (Inl e)
        | Inr pre \<Rightarrow>
          if IsRoot claim then Some (Inr pre)
          else case GetParent game claim of
              Inl e \<Rightarrow> Some (Inl e)
            | Inr parent \<Rightarrow> poisoned_walk game honestTraceIndex pre parent))"

text \<open>An error inside a rule is its result, a panic aborts it.\<close>

definition as_rule_error :: "game_error \<Rightarrow> rule_outcome" where
  "as_rule_error e = (if is_panic e then Inl e else Inr (Some e))"

definition avoidPoisonedPrestate :: "gameState \<Rightarrow> 'x Action \<Rightarrow> 'x TraceProvider \<Rightarrow> rule_outcome option" where
  "avoidPoisonedPrestate game action correctTrace =
    (if aType action = ActionTypeStep then Some (Inr None)
     else case rbind (resultingPosition game action) (\<lambda>movePosition.
                 rbind (TraceIndex movePosition (gDepth game)) (\<lambda>honestTraceIndex.
                 rbind (nth_claim game (ContractIndex (ParentClaim action))) (\<lambda>claim. Inr (honestTraceIndex, claim)))) of
         Inl e \<Rightarrow> Some (as_rule_error e)
       | Inr (honestTraceIndex, claim) \<Rightarrow>
          (case poisoned_walk game honestTraceIndex zeroClaim claim of
             None \<Rightarrow> None
           | Some (Inl e) \<Rightarrow> Some (as_rule_error e)
           | Some (Inr preStateClaim) \<Rightarrow>
              Some (if preStateClaim = zeroClaim then Inr None
                    else case tpGet correctTrace (cPosition preStateClaim) of
                        Inl e \<Rightarrow> as_rule_error e
                      | Inr correctValue \<Rightarrow>
                          if correctValue \<noteq> Value preStateClaim then violated ''prestate poisoned'' else Inr None)))"

definition detectFailedStep :: "gameState \<Rightarrow> 'x Action \<Rightarrow> 'x TraceProvider \<Rightarrow> rule_outcome option" where
  "detectFailedStep game action correctTrace =
    (if aType action \<noteq> ActionTypeStep then Some (Inr None)
     else case rbind (resultingPosition game action) (\<lambda>position.
                 rbind (nth_claim game (ContractIndex (ParentClaim action))) (\<lambda>claim. Inr (position, claim))) of
         Inl e \<Rightarrow> Some (as_rule_error e)
       | Inr (position, claim) \<Rightarrow>
          if depth position \<noteq> gDepth game then Some (Inr None)
          else case TraceIndex position (gDepth game) of
              Inl e \<Rightarrow> Some (as_rule_error e)
            | Inr honestTraceIndex \<Rightarrow>
               let poststateIndex = (if IsAttack action then honestTraceIndex else honestTraceIndex + 1) in
               (case AncestorWithTraceIndex game poststateIndex claim of
                  None \<Rightarrow> None
                | Some (Inl e) \<Rightarrow> Some (as_rule_error e)
                | Some (Inr None) \<Rightarrow> Some (violated ''did not find required poststate'')
                | Some (Inr (Some poststateClaim)) \<Rightarrow>
                   Some (case tpGet correctTrace (cPosition poststateClaim) of
                       Inl e \<Rightarrow> as_rule_error e
                     | Inr correctValue \<Rightarrow>
                        let validStep = (correctValue = Value poststateClaim);
                            parentPostAgree = ((depth (cPosition claim) - depth (cPosition poststateClaim)) mod 2 = 0)
                        in if parentPostAgree = validStep then violated ''failed step'' else Inr None)))"

definition detectPoisonedStepPrestate ::
    "(bytes \<Rightarrow> bytes) \<Rightarrow> gameState \<Rightarrow> 'x Action \<Rightarrow> 'x TraceProvider \<Rightarrow> rule_outcome option" where
  "detectPoisonedStepPrestate keccak game action correctTrace =
    (case rbind (resultingPosition game action) (\<lambda>position.
            rbind (nth_claim game (ContractIndex (ParentClaim action))) (\<lambda>claim. Inr (position, claim))) of
       Inl e \<Rightarrow> Some (as_rule_error e)
     | Inr (position, claim) \<Rightarrow>
        if depth position \<noteq> gDepth game then Some (Inr None)
        else case TraceIndex position (gDepth game) of
            Inl e \<Rightarrow> Some (as_rule_error e)
          | Inr honestTraceIndex \<Rightarrow>
             let prestateIndex = (if IsAttack action \<or> aType action = ActionTypeMove then honestTraceIndex - 1
                                  else honestTraceIndex) in
             if prestateIndex < 0 then Some (Inr None)
             else case AncestorWithTraceIndex game prestateIndex claim of
                None \<Rightarrow> None
              | Some (Inl e) \<Rightarrow> Some (as_rule_error e)
              | Some (Inr None) \<Rightarrow> Some (violated ''no prestate available'')
              | Some (Inr (Some preStateClaim)) \<Rightarrow>
                 Some (case tpGet correctTrace (cPosition preStateClaim) of
                     Inl e \<Rightarrow> as_rule_error e
                   | Inr correctValue \<Rightarrow>
                      if correctValue \<noteq> Value preStateClaim then violated ''poisoned prestate''
                      else if aType action = ActionTypeStep \<and>
                              drop 1 (keccak (PreState action)) \<noteq> drop 1 (Value preStateClaim)
                      then violated ''prestate hash does not match'' else Inr None))"

text \<open>All rules are checked; the joined error is empty when none of them reports one.\<close>

definition rule_results :: "(bytes \<Rightarrow> bytes) \<Rightarrow> gameState \<Rightarrow> 'x Action \<Rightarrow> 'x TraceProvider \<Rightarrow> rule_outcome option list" where
  "rule_results keccak game action correctTrace =
    [Some (parentMustExist game action),
     Some (onlyStepAtMaxDepth game action),
     Some (onlyMoveBeforeMaxDepth game action),
     Some (doNotDuplicateExistingMoves keccak game action),
     Some (doNotStepAlreadyCounteredClaims game action),
     Some (doNotDefendRootClaim game action),
     avoidPoisonedPrestate game action correctTrace,
     detectPoisonedStepPrestate keccak game action correctTrace,
     detectFailedStep game action correctTrace,
     Some (doNotCounterSelf game action)]"

fun join_errors :: "rule_outcome option list \<Rightarrow> (game_error + game_error list) option" where
  "join_errors [] = Some (Inr [])"
| "join_errors (None # rs) = None"
| "join_errors (Some (Inl e) # rs) = Some (Inl e)"
| "join_errors (Some (Inr r) # rs) =
    (case join_errors rs of None \<Rightarrow> None | Some (Inl e) \<Rightarrow> Some (Inl e)
     | Some (Inr es) \<Rightarrow> Some (Inr (case r of None \<Rightarrow> es | Some e \<Rightarrow> e # es)))"

definition checkRules :: "(bytes \<Rightarrow> bytes) \<Rightarrow> gameState \<Rightarrow> 'x Action \<Rightarrow> 'x TraceProvider \<Rightarrow> (game_error + game_error list) option" where
  "checkRules keccak game action correctTrace = join_errors (rule_results keccak game action correctTrace)"

end
