(* ===== verification/GameTree.thy ===== *)
theory GameTree
  imports Main
begin

text \<open>
  The combinatorics of the bisection game, independent of how claims are represented: a tree of
  claims in which every child lies half a gap left (attack) or right (defence) of its parent, and an
  honest player on it. The two locales are the interfaces between this argument and the solver.
\<close>

section \<open>Bisection trees\<close>

text \<open>Claims are numbered in the order they were made, 0 is the root. \<open>tix\<close> is the trace index a claim
  commits to, \<open>gap\<close> the distance to the neighbours of its depth.\<close>

locale bisection_tree =
  fixes ok :: "'g \<Rightarrow> bool" and size :: "'g \<Rightarrow> nat" and par :: "'g \<Rightarrow> nat \<Rightarrow> nat"
    and tix :: "'g \<Rightarrow> nat \<Rightarrow> int" and gap :: "'g \<Rightarrow> nat \<Rightarrow> int" and dep :: "'g \<Rightarrow> nat \<Rightarrow> nat"
  assumes par_less: "ok g \<Longrightarrow> 0 < i \<Longrightarrow> i < size g \<Longrightarrow> par g i < i"
    and gap_pos: "ok g \<Longrightarrow> i < size g \<Longrightarrow> 0 < gap g i"
    and gap_par: "ok g \<Longrightarrow> 0 < i \<Longrightarrow> i < size g \<Longrightarrow> gap g (par g i) = 2 * gap g i"
    and dep_par: "ok g \<Longrightarrow> 0 < i \<Longrightarrow> i < size g \<Longrightarrow> dep g i = Suc (dep g (par g i))"
    and tix_root: "ok g \<Longrightarrow> tix g 0 = gap g 0 - 1"
    and tix_child: "ok g \<Longrightarrow> 0 < i \<Longrightarrow> i < size g \<Longrightarrow>
       tix g i = tix g (par g i) - gap g i \<or> (par g i \<noteq> 0 \<and> tix g i = tix g (par g i) + gap g i)"
begin

text \<open>\<open>anc g i l\<close>: claim \<open>l\<close> is claim \<open>i\<close> or one of its ancestors.\<close>

inductive anc :: "'g \<Rightarrow> nat \<Rightarrow> nat \<Rightarrow> bool" for g where
  anc_refl: "anc g i i"
| anc_par: "0 < i \<Longrightarrow> anc g (par g i) l \<Longrightarrow> anc g i l"

definition defends :: "'g \<Rightarrow> nat \<Rightarrow> bool" where
  "defends g i \<longleftrightarrow> tix g i = tix g (par g i) + gap g i"

lemma anc_iff: "anc g i l \<longleftrightarrow> l = i \<or> (0 < i \<and> anc g (par g i) l)"
  by (subst anc.simps) auto

lemma par_size: "ok g \<Longrightarrow> 0 < i \<Longrightarrow> i < size g \<Longrightarrow> par g i < size g"
  using par_less less_trans by blast

lemma claim_cases [consumes 3, case_names attack defend]:
  assumes "ok g" "0 < i" "i < size g"
  obtains "\<not> defends g i" "tix g i = tix g (par g i) - gap g i"
  | "defends g i" "tix g i = tix g (par g i) + gap g i" "par g i \<noteq> 0"
  using tix_child [OF assms] gap_pos [OF assms(1,3)] by (auto simp: defends_def)

lemma anc_size: "anc g i l \<Longrightarrow> ok g \<Longrightarrow> i < size g \<Longrightarrow> l < size g \<and> l \<le> i"
proof (induction rule: anc.induct)
  case (anc_par i l)
  then show ?case using par_less [of g i] by force
qed simp

lemma dep_anc: "anc g i l \<Longrightarrow> ok g \<Longrightarrow> i < size g \<Longrightarrow> dep g l \<le> dep g i"
proof (induction rule: anc.induct)
  case (anc_par i l)
  then show ?case using dep_par [of g i] par_size [of g i] by fastforce
qed simp

text \<open>Ancestors are separated: at least the gap of the descendant away, and within that of the ancestor.\<close>

lemma separated:
  assumes "anc g i l" "ok g" "i < size g" "l \<noteq> i"
  shows "gap g i \<le> \<bar>tix g i - tix g l\<bar> \<and> \<bar>tix g i - tix g l\<bar> + gap g i \<le> gap g l"
  using assms
proof (induction rule: anc.induct)
  case (anc_par i l)
  note g = gap_pos [OF anc_par.prems(1,2)] gap_par [OF anc_par.prems(1) anc_par.hyps(1) anc_par.prems(2)]
  have c: "\<bar>tix g i - tix g (par g i)\<bar> = gap g i"
    using tix_child [OF anc_par.prems(1) anc_par.hyps(1) anc_par.prems(2)] g(1) by auto
  show ?case
  proof (cases "l = par g i")
    case True
    then show ?thesis using c g by simp
  next
    case False
    then have "gap g (par g i) \<le> \<bar>tix g (par g i) - tix g l\<bar> \<and> \<bar>tix g (par g i) - tix g l\<bar> + gap g (par g i) \<le> gap g l"
      using anc_par.IH anc_par.prems par_size [OF _ anc_par.hyps(1)] by blast
    then show ?thesis using c g by linarith
  qed
qed simp

lemma tix_unique: "anc g i l \<Longrightarrow> ok g \<Longrightarrow> i < size g \<Longrightarrow> tix g l = tix g i \<Longrightarrow> l = i"
  using separated [of g i l] gap_pos [of g i] by fastforce

lemma tix_lower: "ok g \<Longrightarrow> i < size g \<Longrightarrow> gap g i - 1 \<le> tix g i"
proof (induction i rule: less_induct)
  case (less i)
  show ?case
  proof (cases "i = 0")
    case False
    then have "gap g (par g i) - 1 \<le> tix g (par g i)" using less par_less par_size by simp
    then show ?thesis
      using tix_child [of g i] gap_par [of g i] gap_pos [of g i] less.prems False by (auto simp: neq0_conv)
  qed (simp add: tix_root less.prems)
qed

text \<open>The neighbours of a claim's gap are ancestors, where they exist.\<close>

lemma left_neighbour:
  "ok g \<Longrightarrow> i < size g \<Longrightarrow> tix g i = gap g i - 1 \<or> (\<exists>l. anc g i l \<and> l \<noteq> i \<and> tix g l = tix g i - gap g i)"
proof (induction i rule: less_induct)
  case (less i)
  show ?case
  proof (cases "i = 0")
    case False
    then have i: "0 < i" by simp
    note lt = par_less [OF less.prems(1) i less.prems(2)]
    note gp = gap_par [OF less.prems(1) i less.prems(2)]
    show ?thesis
    proof (cases rule: claim_cases [OF less.prems(1) i less.prems(2)])
      case 1
      from less.IH [OF lt less.prems(1) par_size [OF less.prems(1) i less.prems(2)]] show ?thesis
      proof
        assume "\<exists>l. anc g (par g i) l \<and> l \<noteq> par g i \<and> tix g l = tix g (par g i) - gap g (par g i)"
        then obtain l where l: "anc g (par g i) l" "tix g l = tix g (par g i) - gap g (par g i)" by blast
        then have "anc g i l" "l \<noteq> i" using i anc_par anc_size [OF l(1) less.prems(1)] lt less.prems(2) by auto
        then show ?thesis using l(2) gp 1(2) by auto
      qed (use 1(2) gp in simp)
    next
      case 2
      then show ?thesis using lt i anc.intros by (intro disjI2 exI [of _ "par g i"]) auto
    qed
  qed (simp add: tix_root less.prems)
qed

lemma right_neighbour:
  "ok g \<Longrightarrow> i < size g \<Longrightarrow> 0 < i \<Longrightarrow> \<exists>r. anc g i r \<and> r \<noteq> i \<and> tix g r = tix g i + gap g i"
proof (induction i rule: less_induct)
  case (less i)
  note lt = par_less [OF less.prems(1,3,2)]
  note gp = gap_par [OF less.prems(1,3,2)]
  show ?case
  proof (cases rule: claim_cases [OF less.prems(1,3,2)])
    case 1
    then show ?thesis using lt less.prems(3) anc.intros by (intro exI [of _ "par g i"]) auto
  next
    case 2
    then obtain r where r: "anc g (par g i) r" "tix g r = tix g (par g i) + gap g (par g i)"
      using less.IH [OF lt less.prems(1) par_size [OF less.prems(1,3,2)]] by auto
    then have "anc g i r" "r \<noteq> i" using less.prems anc_par anc_size [OF r(1) less.prems(1)] lt by auto
    then show ?thesis using r(2) gp 2(2) by auto
  qed
qed

end

section \<open>The honest player\<close>

text \<open>What the solver promises: the claims it counts as honest are correct and are exactly its own answers;
  it counters with a defence when it agrees and with an attack otherwise; it counters the answers to
  honest claims, and other answers to a countered claim only when they do not lie right of its own.\<close>

locale honest_play = bisection_tree +
  fixes correct honest should :: "'a \<Rightarrow> nat \<Rightarrow> bool" and answered :: "'a \<Rightarrow> nat \<Rightarrow> bool"
  assumes honest_correct: "ok g \<Longrightarrow> i < size g \<Longrightarrow> honest g i \<Longrightarrow> correct g i"
    and answered_should: "ok g \<Longrightarrow> i < size g \<Longrightarrow> answered g i \<Longrightarrow> should g i"
    and should_dishonest: "ok g \<Longrightarrow> i < size g \<Longrightarrow> should g i \<Longrightarrow> \<not> honest g i"
    and honest_answer: "ok g \<Longrightarrow> 0 < i \<Longrightarrow> i < size g \<Longrightarrow> honest g i \<Longrightarrow>
       answered g (par g i) \<and> (tix g i = tix g (par g i) + gap g i \<longleftrightarrow> correct g (par g i))"
    and should_parent: "ok g \<Longrightarrow> 0 < i \<Longrightarrow> i < size g \<Longrightarrow> should g i \<Longrightarrow>
       honest g (par g i) \<or> (answered g (par g i) \<and> (tix g i = tix g (par g i) + gap g i \<longrightarrow> correct g (par g i)))"
    and answer_honest: "ok g \<Longrightarrow> 0 < i \<Longrightarrow> i < size g \<Longrightarrow> answered g (par g i) \<Longrightarrow>
       (tix g i = tix g (par g i) + gap g i \<longleftrightarrow> correct g (par g i)) \<Longrightarrow> correct g i \<Longrightarrow> honest g i"
begin

definition relevant :: "'a \<Rightarrow> nat \<Rightarrow> bool" where
  "relevant g i \<longleftrightarrow> honest g i \<or> should g i"

lemma relevant_parent:
  assumes "ok g" "0 < i" "i < size g" "relevant g i"
  shows "relevant g (par g i)"
  using assms honest_answer [OF assms(1-3)] should_parent [OF assms(1-3)]
    answered_should [OF assms(1) par_size [OF assms(1-3)]] by (auto simp: relevant_def)

lemma defence_of_correct:
  assumes "ok g" "0 < i" "i < size g" "relevant g i" "defends g i"
  shows "correct g (par g i)"
  using assms honest_answer [OF assms(1-3)] should_parent [OF assms(1-3)]
    honest_correct [OF assms(1) par_size [OF assms(1-3)]] by (auto simp: relevant_def defends_def)

text \<open>The claim just left of a relevant claim is correct: its pre-state is not poisoned.\<close>

lemma left_correct:
  "ok g \<Longrightarrow> i < size g \<Longrightarrow> relevant g i \<Longrightarrow> anc g i l \<Longrightarrow> tix g l = tix g i - gap g i \<Longrightarrow> correct g l"
proof (induction i rule: less_induct)
  case (less i)
  have "l \<noteq> i" using less.prems(5) gap_pos [OF less.prems(1,2)] by auto
  with less.prems(4) have i: "0 < i" and al: "anc g (par g i) l" by (auto simp: anc_iff [of g i])
  note ps = par_size [OF less.prems(1) i less.prems(2)]
  note gp = gap_par [OF less.prems(1) i less.prems(2)]
  show ?case
  proof (cases rule: claim_cases [OF less.prems(1) i less.prems(2)])
    case 1
    show ?thesis
      by (rule less.IH [OF par_less [OF less.prems(1) i less.prems(2)] less.prems(1) ps _ al])
        (use relevant_parent [OF less.prems(1) i less.prems(2,3)] less.prems(5) 1(2) gp in simp_all)
  next
    case 2
    then have "tix g l = tix g (par g i)" using less.prems(5) by simp
    then have "l = par g i" by (rule tix_unique [OF al less.prems(1) ps])
    then show ?thesis using defence_of_correct [OF less.prems(1) i less.prems(2,3) 2(1)] by simp
  qed
qed

text \<open>The claim just right of a correct claim alternates: seen from an honest claim, an even distance means
  correct; seen from a correct claim that is to be countered, an odd distance does.\<close>

lemma countered_parent:
  assumes "ok g" "0 < i" "i < size g" "should g i" "correct g i"
  shows "if defends g i then honest g (par g i) else correct g (par g i)"
  using should_parent [OF assms(1-4)] answer_honest [OF assms(1-3)] should_dishonest [OF assms(1,3,4)] assms(5)
    honest_correct [OF assms(1) par_size [OF assms(1-3)]] by (auto simp: defends_def)

lemma right_alternates:
  "ok g \<Longrightarrow> i < size g \<Longrightarrow> 0 < i \<Longrightarrow> anc g i r \<Longrightarrow> tix g r = tix g i + gap g i \<Longrightarrow>
   (honest g i \<longrightarrow> (correct g r \<longleftrightarrow> even (dep g i - dep g r))) \<and>
   (should g i \<and> correct g i \<longrightarrow> (correct g r \<longleftrightarrow> odd (dep g i - dep g r)))"
proof (induction i rule: less_induct)
  case (less i)
  have "r \<noteq> i" using less.prems(5) gap_pos [OF less.prems(1,2)] by auto
  with less.prems(4) have ar: "anc g (par g i) r" by (auto simp: anc_iff [of g i])
  note ps = par_size [OF less.prems(1,3,2)]
  note gp = gap_par [OF less.prems(1,3,2)]
  note dp = dep_par [OF less.prems(1,3,2)]
  show ?case
  proof (cases rule: claim_cases [OF less.prems(1,3,2)])
    case 1
    then have "tix g r = tix g (par g i)" using less.prems(5) by simp
    then have "r = par g i" by (rule tix_unique [OF ar less.prems(1) ps])
    then show ?thesis
      using dp 1 honest_answer [OF less.prems(1,3,2)] countered_parent [OF less.prems(1,3,2)] by (auto simp: defends_def)
  next
    case 2
    then have t: "tix g r = tix g (par g i) + gap g (par g i)" using less.prems(5) gp by simp
    have ih: "(honest g (par g i) \<longrightarrow> (correct g r \<longleftrightarrow> even (dep g (par g i) - dep g r))) \<and>
       (should g (par g i) \<and> correct g (par g i) \<longrightarrow> (correct g r \<longleftrightarrow> odd (dep g (par g i) - dep g r)))"
      by (rule less.IH [OF par_less [OF less.prems(1,3,2)] less.prems(1) ps _ ar t]) (use 2(3) in simp)
    have "dep g r \<le> dep g (par g i)" by (rule dep_anc [OF ar less.prems(1) ps])
    then have p: "even (dep g i - dep g r) \<longleftrightarrow> odd (dep g (par g i) - dep g r)" using dp by (simp add: Suc_diff_le)
    show ?thesis
      using ih p 2 honest_answer [OF less.prems(1,3,2)] countered_parent [OF less.prems(1,3,2)]
        answered_should [OF less.prems(1) ps] by (auto simp: defends_def)
  qed
qed

end

end
