(* ===== verification/GameHonest.thy ===== *)
theory GameHonest
  imports GameSolver GameTree
begin

text \<open>
  The solver of the honest challenger plays \<open>honest_play\<close>: the setting of the theorems, the state of the
  solver's tracker after each claim, and the interpretation of the two interfaces on the solver's own definitions.
\<close>

section \<open>Games, traces and plays\<close>

definition claim_key :: "Claim \<Rightarrow> Position \<times> bytes \<times> int" where
  "claim_key c = (cPosition c, Value c, ParentContractIndex c)"

text \<open>The shape the contract enforces: claims are numbered by position in the list, the first one is the root, every
  other one attacks or defends an earlier claim above the maximal depth, the root is not defended, and no two
  claims are the same. Any claim may have been countered, a leaf by a step and the others by the resolution of their subgames.\<close>

definition game_shape :: "Claim list \<Rightarrow> Depth \<Rightarrow> bool" where
  "game_shape cs D \<longleftrightarrow> 0 < D \<and> cs \<noteq> [] \<and> cPosition (cs ! 0) = NewPosition 0 0 \<and> distinct (map claim_key cs) \<and>
     list_all (\<lambda>i. ContractIndex (cs ! i) = int i) [0..<length cs] \<and>
     list_all (\<lambda>i. 0 \<le> ParentContractIndex (cs ! i) \<and> ParentContractIndex (cs ! i) < int i \<and>
                   (let j = nat (ParentContractIndex (cs ! i)) in depth (cPosition (cs ! j)) < D \<and>
                     (cPosition (cs ! i) = Attack (cPosition (cs ! j)) \<or>
                      (j \<noteq> 0 \<and> cPosition (cs ! i) = Defend (cPosition (cs ! j)))))) [1..<length cs]"

text \<open>The trace the honest player knows, as the provider interface documents it: the value at a position depends on
  its trace index only, and the pre-state of a step is the pre-image of the value before it (up to the status byte).\<close>

definition correct_trace :: "(bytes \<Rightarrow> bytes) \<Rightarrow> 'x TraceProvider \<Rightarrow> Depth \<Rightarrow> bool" where
  "correct_trace keccak ct D \<longleftrightarrow> (\<exists>V. (\<forall>p t. TraceIndex p D = Inr t \<longrightarrow> tpGet ct p = Inr (V t)) \<and>
     (\<forall>p t pre pf od. TraceIndex p D = Inr t \<longrightarrow> tpGetStepData ct p = Inr (pre, pf, od) \<longrightarrow> 0 < t \<longrightarrow>
        drop 1 (keccak pre) = drop 1 (V (t - 1))))"

text \<open>The accessor of the solver may fail, but what it returns is what the trace says.\<close>

definition faithful_accessor :: "'x TraceAccessor \<Rightarrow> 'x TraceProvider \<Rightarrow> bool" where
  "faithful_accessor ta ct \<longleftrightarrow>
     (\<forall>g c p v. taGet ta g c p = Inr v \<longrightarrow> tpGet ct p = Inr v) \<and>
     (\<forall>g c p d. taGetStepData ta g c p = Inr d \<longrightarrow> tpGetStepData ct p = Inr d)"

lemma simple_accessor_faithful: "faithful_accessor (NewSimpleTraceAccessor ct) ct"
  by (simp add: faithful_accessor_def NewSimpleTraceAccessor_def Accessor_def)

text \<open>The claims whose identifiers the solver compares: those of the game, its possible moves, and the claims the rules
  build; their identifiers do not collide.\<close>

definition compared_claims :: "'x TraceProvider \<Rightarrow> Claim list \<Rightarrow> Claim set" where
  "compared_claims ct cs = set cs \<union>
     {move_claim v q (int i) | v q i. i < length cs \<and> q \<in> {Attack (cPosition (cs ! i)), Defend (cPosition (cs ! i))} \<and>
        tpGet ct q = Inr v} \<union>
     {move_claim zeroHash (cPosition (cs ! i)) (int i) | i. i < length cs}"

definition no_id_collision :: "(bytes \<Rightarrow> bytes) \<Rightarrow> 'x TraceProvider \<Rightarrow> Claim list \<Rightarrow> bool" where
  "no_id_collision keccak ct cs \<longleftrightarrow> (\<forall>c \<in> compared_claims ct cs. \<forall>c' \<in> compared_claims ct cs.
     Claim_ID keccak c = Claim_ID keccak c' \<longrightarrow> claim_key c = claim_key c')"

text \<open>A play: the solver on a game, after it has handled the first \<open>pDone\<close> claims without error.\<close>

record 'x play =
  pKeccak :: "bytes \<Rightarrow> bytes"
  pSolver :: "'x claimSolver"
  pTrace :: "'x TraceProvider"
  pClaims :: "Claim list"
  pDepth :: Depth
  pDone :: nat

definition pGame :: "'x play \<Rightarrow> gameState" where
  "pGame P = NewGameState (pKeccak P) (pClaims P) (pDepth P)"

definition agree_root :: "'x play \<Rightarrow> bool" where
  "agree_root P \<longleftrightarrow> tpGet (pTrace P) (cPosition (pClaims P ! 0)) = Inr (Value (pClaims P ! 0))"

fun tracker_at :: "'x play \<Rightarrow> nat \<Rightarrow> honestClaimTracker" where
  "tracker_at P 0 = initial_tracker (pKeccak P) (agree_root P) (pClaims P ! 0)"
| "tracker_at P (Suc i) =
    (case claim_action (pKeccak P) (pSolver P) (pGame P) (pClaims P ! i) (tracker_at P i) of
       Inl _ \<Rightarrow> tracker_at P i | Inr (_, a) \<Rightarrow> a)"

definition play_ok :: "'x play \<Rightarrow> bool" where
  "play_ok P \<longleftrightarrow> game_shape (pClaims P) (pDepth P) \<and> correct_trace (pKeccak P) (pTrace P) (pDepth P) \<and>
     faithful_accessor (trace (pSolver P)) (pTrace P) \<and> no_id_collision (pKeccak P) (pTrace P) (pClaims P) \<and>
     gameDepth (pSolver P) = pDepth P \<and> pDone P \<le> length (pClaims P) \<and>
     (\<forall>j < pDone P. is_ok (claim_action (pKeccak P) (pSolver P) (pGame P) (pClaims P ! j) (tracker_at P j)))"

section \<open>Positions of a game\<close>

abbreviation cpos :: "Claim list \<Rightarrow> nat \<Rightarrow> Position" where
  "cpos cs i \<equiv> cPosition (cs ! i)"

definition parent_of :: "Claim list \<Rightarrow> nat \<Rightarrow> nat" where
  "parent_of cs i = nat (ParentContractIndex (cs ! i))"

lemma shape_index: "game_shape cs D \<Longrightarrow> i < length cs \<Longrightarrow> ContractIndex (cs ! i) = int i"
  by (simp add: game_shape_def list_all_iff)

lemma shape_root: "game_shape cs D \<Longrightarrow> 0 < D \<and> cs \<noteq> [] \<and> cpos cs 0 = NewPosition 0 0"
  by (simp add: game_shape_def)

lemma shape_child:
  assumes "game_shape cs D" "0 < i" "i < length cs"
  shows "parent_of cs i < i" "ParentContractIndex (cs ! i) = int (parent_of cs i)" "depth (cpos cs (parent_of cs i)) < D"
    "cpos cs i = Attack (cpos cs (parent_of cs i)) \<or> (parent_of cs i \<noteq> 0 \<and> cpos cs i = Defend (cpos cs (parent_of cs i)))"
proof -
  have "i \<in> set [1..<length cs]" using assms(2,3) by simp
  with assms(1) have "0 \<le> ParentContractIndex (cs ! i) \<and> ParentContractIndex (cs ! i) < int i \<and>
     depth (cpos cs (parent_of cs i)) < D \<and> (cpos cs i = Attack (cpos cs (parent_of cs i)) \<or>
     (parent_of cs i \<noteq> 0 \<and> cpos cs i = Defend (cpos cs (parent_of cs i))))"
    unfolding game_shape_def list_all_iff Let_def parent_of_def by blast
  then show "parent_of cs i < i" "ParentContractIndex (cs ! i) = int (parent_of cs i)" "depth (cpos cs (parent_of cs i)) < D"
    "cpos cs i = Attack (cpos cs (parent_of cs i)) \<or> (parent_of cs i \<noteq> 0 \<and> cpos cs i = Defend (cpos cs (parent_of cs i)))"
    by (auto simp: parent_of_def)
qed

lemma unat_Suc_depth: "d < D \<Longrightarrow> unat ((d :: Depth) + 1) = Suc (unat d)"
  using unsigned_less [of D, where ?'a = nat] by (simp add: unat_word_ariths word_less_nat_alt)

lemma shape_pos:
  assumes "game_shape cs D" "i < length cs"
  shows "depth (cpos cs i) \<le> D \<and> even (IndexAtDepth (cpos cs i)) \<and> indexAtDepth (cpos cs i) \<noteq> None \<and>
    (IsRootPosition (cpos cs i) \<longleftrightarrow> i = 0)"
  using assms(2)
proof (induction i rule: less_induct)
  case (less i)
  show ?case
  proof (cases "i = 0")
    case True
    then show ?thesis using assms(1) by (simp add: game_shape_def NewPosition_def IsRootPosition_def)
  next
    case False
    then have i: "0 < i" by simp
    note c = shape_child [OF assms(1) i less.prems]
    have p: "even (IndexAtDepth (cpos cs (parent_of cs i)))" using less.IH [OF c(1)] c(1) less.prems by simp
    have "depth (cpos cs (parent_of cs i)) + 1 \<le> D" "unat (depth (cpos cs (parent_of cs i)) + 1) \<noteq> 0"
      using inc_le [OF c(3)] unat_Suc_depth [OF c(3)] by simp_all
    then have "depth (cpos cs (parent_of cs i)) + 1 \<le> D" "depth (cpos cs (parent_of cs i)) + 1 \<noteq> 0"
      by (auto simp del: unat_eq_0 simp: unat_0)
    then show ?thesis using c(4) p False
      by (auto simp: Attack_eq Defend_even NewPosition_def IsRootPosition_def)
  qed
qed

definition claim_gap :: "Claim list \<Rightarrow> Depth \<Rightarrow> nat \<Rightarrow> int" where
  "claim_gap cs D i = 2 ^ (unat D - unat (depth (cpos cs i)))"

definition claim_tix :: "Claim list \<Rightarrow> Depth \<Rightarrow> nat \<Rightarrow> int" where
  "claim_tix cs D i = (IndexAtDepth (cpos cs i) + 1) * claim_gap cs D i - 1"

lemma TraceIndex_claim:
  "game_shape cs D \<Longrightarrow> i < length cs \<Longrightarrow> TraceIndex (cpos cs i) D = Inr (claim_tix cs D i)"
  using shape_pos by (simp add: TraceIndex_eq claim_tix_def claim_gap_def)

lemma gap_half:
  assumes "(d :: Depth) < D"
  shows "(2 :: int) ^ (unat D - unat d) = 2 * 2 ^ (unat D - unat (d + 1))"
proof -
  have "unat D - unat d = Suc (unat D - unat (d + 1))"
    using assms unat_Suc_depth [OF assms] by (simp add: word_less_nat_alt Suc_diff_Suc)
  then show ?thesis by simp
qed

text \<open>The trace indices of the two moves against a claim.\<close>

lemma TraceIndex_move:
  assumes "game_shape cs D" "i < length cs" "depth (cpos cs i) < D"
  shows "TraceIndex (Attack (cpos cs i)) D = Inr (claim_tix cs D i - claim_gap cs D i div 2)"
    "TraceIndex (Defend (cpos cs i)) D = Inr (claim_tix cs D i + claim_gap cs D i div 2)"
proof -
  have le: "depth (cpos cs i) + 1 \<le> D" using assms(3) by (rule inc_le)
  have h: "claim_gap cs D i = 2 * 2 ^ (unat D - unat (depth (cpos cs i) + 1))"
    using gap_half [OF assms(3)] by (simp add: claim_gap_def)
  have ev: "even (IndexAtDepth (cpos cs i))" using shape_pos [OF assms(1,2)] by simp
  show "TraceIndex (Attack (cpos cs i)) D = Inr (claim_tix cs D i - claim_gap cs D i div 2)"
    using le by (simp add: Attack_eq TraceIndex_eq NewPosition_def claim_tix_def h algebra_simps)
  show "TraceIndex (Defend (cpos cs i)) D = Inr (claim_tix cs D i + claim_gap cs D i div 2)"
    using le by (simp add: Defend_even [OF ev] TraceIndex_eq NewPosition_def claim_tix_def h algebra_simps)
qed

lemma child_tix:
  assumes "game_shape cs D" "0 < i" "i < length cs"
  defines "j \<equiv> parent_of cs i"
  shows "claim_gap cs D j = 2 * claim_gap cs D i" "unat (depth (cpos cs i)) = Suc (unat (depth (cpos cs j)))"
    "cpos cs i = Attack (cpos cs j) \<longleftrightarrow> claim_tix cs D i = claim_tix cs D j - claim_gap cs D i"
    "cpos cs i = Defend (cpos cs j) \<longleftrightarrow> claim_tix cs D i = claim_tix cs D j + claim_gap cs D i"
    "j = 0 \<Longrightarrow> cpos cs i = Attack (cpos cs j)"
proof -
  note c = shape_child [OF assms(1-3), folded j_def]
  have j: "j < length cs" using c(1) assms(3) by simp
  have d: "depth (cpos cs i) = depth (cpos cs j) + 1" using c(4) by (auto simp: Attack_eq Defend_eq NewPosition_def)
  show gap: "claim_gap cs D j = 2 * claim_gap cs D i" using gap_half [OF c(3)] by (simp add: claim_gap_def d)
  show "unat (depth (cpos cs i)) = Suc (unat (depth (cpos cs j)))" using unat_Suc_depth [OF c(3)] by (simp add: d)
  have pos: "0 < claim_gap cs D i" by (simp add: claim_gap_def)
  have a: "cpos cs i = Attack (cpos cs j) \<Longrightarrow> claim_tix cs D i = claim_tix cs D j - claim_gap cs D i"
    using TraceIndex_move(1) [OF assms(1) j c(3)] TraceIndex_claim [OF assms(1,3)] gap by simp
  have b: "cpos cs i = Defend (cpos cs j) \<Longrightarrow> claim_tix cs D i = claim_tix cs D j + claim_gap cs D i"
    using TraceIndex_move(2) [OF assms(1) j c(3)] TraceIndex_claim [OF assms(1,3)] gap by simp
  show "cpos cs i = Attack (cpos cs j) \<longleftrightarrow> claim_tix cs D i = claim_tix cs D j - claim_gap cs D i"
    using a b c(4) pos by auto
  show "cpos cs i = Defend (cpos cs j) \<longleftrightarrow> claim_tix cs D i = claim_tix cs D j + claim_gap cs D i"
    using a b c(4) pos by auto
  show "j = 0 \<Longrightarrow> cpos cs i = Attack (cpos cs j)" using c(4) by auto
qed

section \<open>What the solver does to one claim\<close>

definition move_at :: "'x play \<Rightarrow> nat \<Rightarrow> Claim option" where
  "move_at P i = (if depth (cpos (pClaims P) i) = pDepth P then None
     else case NextMove (pKeccak P) (pSolver P) (pClaims P ! i) (pGame P) (tracker_at P i) of Inl _ \<Rightarrow> None | Inr m \<Rightarrow> m)"

definition is_correct :: "'x play \<Rightarrow> nat \<Rightarrow> bool" where
  "is_correct P i \<longleftrightarrow> tpGet (pTrace P) (cpos (pClaims P) i) = Inr (Value (pClaims P ! i))"

definition is_honest :: "'x play \<Rightarrow> nat \<Rightarrow> bool" where
  "is_honest P i \<longleftrightarrow> IsHonest (pKeccak P) (tracker_at P i) (pClaims P ! i)"

definition to_counter :: "'x play \<Rightarrow> nat \<Rightarrow> bool" where
  "to_counter P i \<longleftrightarrow> shouldCounter (pKeccak P) (pGame P) (pClaims P ! i) (tracker_at P i) = Inr True"

lemma play_okD:
  assumes "play_ok P"
  shows "game_shape (pClaims P) (pDepth P)" "correct_trace (pKeccak P) (pTrace P) (pDepth P)"
    "faithful_accessor (trace (pSolver P)) (pTrace P)" "no_id_collision (pKeccak P) (pTrace P) (pClaims P)"
    "gameDepth (pSolver P) = pDepth P" "pDone P \<le> length (pClaims P)"
    "j < pDone P \<Longrightarrow> \<exists>a. claim_action (pKeccak P) (pSolver P) (pGame P) (pClaims P ! j) (tracker_at P j) = Inr a"
  using assms unfolding play_ok_def is_ok_iff by blast+

lemma pGame_sel [simp]: "claims (pGame P) = pClaims P" "gDepth (pGame P) = pDepth P"
  by (simp_all add: pGame_def NewGameState_def)

lemma agreeWithClaim_correct:
  assumes "play_ok P" "agreeWithClaim (pSolver P) g (pClaims P ! i) = Inr b"
  shows "b \<longleftrightarrow> is_correct P i"
  using assms(2) play_okD(3) [OF assms(1)]
  by (auto simp: agreeWithClaim_def rbind_Inr_iff faithful_accessor_def is_correct_def)

lemma move_atD:
  assumes "play_ok P" "move_at P i = Some m" "i < length (pClaims P)"
  shows "to_counter P i" "depth (cpos (pClaims P) i) < pDepth P"
    "cPosition m = (if is_correct P i then Defend (cpos (pClaims P) i) else Attack (cpos (pClaims P) i))"
    "m = move_claim (Value m) (cPosition m) (int i)" "tpGet (pTrace P) (cPosition m) = Inr (Value m)"
    "is_correct P i \<Longrightarrow> i \<noteq> 0"
proof -
  note sh = play_okD(1) [OF assms(1)]
  note sp = shape_pos [OF sh assms(3)]
  note ix = shape_index [OF sh assms(3)]
  from assms(2) have nl: "depth (cpos (pClaims P) i) \<noteq> pDepth P"
    and nm: "NextMove (pKeccak P) (pSolver P) (pClaims P ! i) (pGame P) (tracker_at P i) = Inr (Some m)"
    by (auto simp: move_at_def split: if_splits sum.splits)
  then show "depth (cpos (pClaims P) i) < pDepth P" using sp by (simp add: order_less_le)
  from nm obtain b where sc: "shouldCounter (pKeccak P) (pGame P) (pClaims P ! i) (tracker_at P i) = Inr True"
    and ag: "agreeWithClaim (pSolver P) (pGame P) (pClaims P ! i) = Inr b"
    and mv: "(if b then defend (pSolver P) (pGame P) (pClaims P ! i) else attack (pSolver P) (pGame P) (pClaims P ! i)) = Inr (Some m)"
    by (auto simp: NextMove_def rbind_Inr_iff split: if_splits)
  have b: "b \<longleftrightarrow> is_correct P i" by (rule agreeWithClaim_correct [OF assms(1) ag])
  show "to_counter P i" using sc by (simp add: to_counter_def)
  have "m = move_claim (Value m) (cPosition m) (int i) \<and> tpGet (pTrace P) (cPosition m) = Inr (Value m) \<and>
     cPosition m = (if b then Defend (cpos (pClaims P) i) else Attack (cpos (pClaims P) i)) \<and> (b \<longrightarrow> i \<noteq> 0)"
    using mv play_okD(3) [OF assms(1)] sp
    by (cases b) (auto simp: defend_def attack_def Let_def rbind_Inr_iff move_claim_def ix faithful_accessor_def IsRoot_def split: if_splits)
  then show "cPosition m = (if is_correct P i then Defend (cpos (pClaims P) i) else Attack (cpos (pClaims P) i))"
    "m = move_claim (Value m) (cPosition m) (int i)" "tpGet (pTrace P) (cPosition m) = Inr (Value m)"
    "is_correct P i \<Longrightarrow> i \<noteq> 0" unfolding b by blast+
qed

lemma game_claim_nonzero: "game_shape cs D \<Longrightarrow> i < length cs \<Longrightarrow> cs ! i \<noteq> zeroClaim"
  using shape_pos [of cs D i] by (auto simp: zeroClaim_def)

text \<open>The tracker after a claim.\<close>

lemma tracker_Suc:
  assumes "play_ok P" "i < pDone P"
  shows "tracker_at P (Suc i) = (case move_at P i of None \<Rightarrow> tracker_at P i
     | Some m \<Rightarrow> AddHonestClaim (pKeccak P) (tracker_at P i) (pClaims P ! i) m)"
proof -
  obtain a where a: "claim_action (pKeccak P) (pSolver P) (pGame P) (pClaims P ! i) (tracker_at P i) = Inr a"
    using play_okD(7) [OF assms] by blast
  show ?thesis
  proof (cases "depth (cpos (pClaims P) i) = pDepth P")
    case True
    with a show ?thesis by (auto simp: claim_action_def move_at_def rbind_Inr_iff)
  next
    case False
    with a show ?thesis
      by (auto simp: claim_action_def move_at_def calculateMove_def rbind_Inr_iff Let_def split: option.splits if_splits)
  qed
qed

section \<open>What the tracker knows\<close>

text \<open>After \<open>i\<close> claims the honest identifiers are those of an agreed root and of the moves against the first \<open>i\<close> claims,
  and the counters are those moves.\<close>

lemma tracker_agreed:
  assumes "play_ok P" "i \<le> pDone P"
  shows "agreed (tracker_at P i) cid = Some True \<longleftrightarrow>
     (is_correct P 0 \<and> cid = Claim_ID (pKeccak P) (pClaims P ! 0)) \<or>
     (\<exists>j < i. \<exists>m. move_at P j = Some m \<and> cid = Claim_ID (pKeccak P) m)"
  using assms(2)
proof (induction i)
  case 0
  then show ?case
    by (auto simp: initial_tracker_def AddHonestClaim_def newHonestClaimTracker_def agree_root_def is_correct_def)
next
  case (Suc i)
  then show ?case
    unfolding tracker_Suc [OF assms(1) Suc_le_lessD [OF Suc.prems]]
    by (cases "move_at P i") (auto simp: AddHonestClaim_def Let_def less_Suc_eq)
qed

lemma compared_game: "i < length cs \<Longrightarrow> cs ! i \<in> compared_claims ct cs"
  by (simp add: compared_claims_def)

lemma compared_move:
  assumes "play_ok P" "move_at P i = Some m" "i < length (pClaims P)"
  shows "m \<in> compared_claims (pTrace P) (pClaims P)"
proof -
  note d = move_atD [OF assms]
  have "\<exists>v q k. m = move_claim v q (int k) \<and> k < length (pClaims P) \<and>
      q \<in> {Attack (cpos (pClaims P) k), Defend (cpos (pClaims P) k)} \<and> tpGet (pTrace P) q = Inr v"
    using d(3,4,5) assms(3) by (intro exI [of _ "Value m"] exI [of _ "cPosition m"] exI [of _ i]) simp
  then show ?thesis unfolding compared_claims_def by blast
qed

lemma same_id:
  assumes "play_ok P" "c \<in> compared_claims (pTrace P) (pClaims P)" "c' \<in> compared_claims (pTrace P) (pClaims P)"
  shows "Claim_ID (pKeccak P) c = Claim_ID (pKeccak P) c' \<longleftrightarrow> claim_key c = claim_key c'"
  using play_okD(4) [OF assms(1)] assms(2,3) unfolding no_id_collision_def
  by (auto simp: claim_key_def Claim_ID_def)

lemma same_claim:
  assumes "play_ok P" "i < length (pClaims P)" "j < length (pClaims P)"
    "Claim_ID (pKeccak P) (pClaims P ! i) = Claim_ID (pKeccak P) (pClaims P ! j)"
  shows "i = j"
proof -
  have "claim_key (pClaims P ! i) = claim_key (pClaims P ! j)"
    using same_id [OF assms(1) compared_game [OF assms(2)] compared_game [OF assms(3)]] assms(4) by simp
  moreover have "distinct (map claim_key (pClaims P))" using play_okD(1) [OF assms(1)] by (simp add: game_shape_def)
  ultimately show ?thesis using assms(2,3) by (metis length_map nth_eq_iff_index_eq nth_map)
qed

lemma tracker_counters:
  assumes "play_ok P" "i \<le> pDone P" "k < length (pClaims P)"
  shows "counters (tracker_at P i) (Claim_ID (pKeccak P) (pClaims P ! k)) = (if k < i then move_at P k else None)"
  using assms(2)
proof (induction i)
  case 0
  then show ?case
    by (simp add: initial_tracker_def AddHonestClaim_def newHonestClaimTracker_def)
next
  case (Suc i)
  have i: "i < length (pClaims P)" using Suc.prems play_okD(6) [OF assms(1)] by simp
  have "pClaims P ! i \<noteq> zeroClaim" by (rule game_claim_nonzero [OF play_okD(1) [OF assms(1)] i])
  then show ?case
    unfolding tracker_Suc [OF assms(1) Suc_le_lessD [OF Suc.prems]]
    using Suc same_claim [OF assms(1) assms(3) i]
    by (cases "move_at P i") (auto simp: AddHonestClaim_def Let_def less_Suc_eq)
qed

text \<open>A claim of the game is an answer of the solver exactly when it is its move against the claim's parent.\<close>

lemma claim_is_move:
  assumes "play_ok P" "i < length (pClaims P)" "move_at P j = Some m" "j < length (pClaims P)"
  shows "Claim_ID (pKeccak P) (pClaims P ! i) = Claim_ID (pKeccak P) m \<longleftrightarrow>
     0 < i \<and> j = parent_of (pClaims P) i \<and> cPosition m = cpos (pClaims P) i \<and> Value m = Value (pClaims P ! i)"
proof -
  note sh = play_okD(1) [OF assms(1)]
  note d = move_atD [OF assms(1,3,4)]
  have pm: "ParentContractIndex m = int j" using d(4) by (metis Claim.select_convs(8) Claim.surjective Claim.update_convs(8) move_claim_def)
  have "depth (cPosition m) \<noteq> 0"
    using d(3) unat_Suc_depth [OF d(2)] by (auto simp: Attack_eq Defend_eq NewPosition_def simp del: unat_eq_0)
  then have root: "i = 0 \<Longrightarrow> cPosition m \<noteq> cpos (pClaims P) i"
    using sh by (auto simp: game_shape_def NewPosition_def)
  have key: "claim_key (pClaims P ! i) = claim_key m \<longleftrightarrow>
      cpos (pClaims P) i = cPosition m \<and> Value (pClaims P ! i) = Value m \<and> ParentContractIndex (pClaims P ! i) = int j"
    by (simp add: claim_key_def pm)
  show ?thesis
    unfolding same_id [OF assms(1) compared_game [OF assms(2)] compared_move [OF assms(1,3,4)]] key
    using root shape_child(2) [OF sh _ assms(2)] by (cases "i = 0") auto
qed

lemma honest_iff:
  assumes "play_ok P" "i \<le> pDone P" "k < length (pClaims P)" "k \<le> i"
  shows "IsHonest (pKeccak P) (tracker_at P i) (pClaims P ! k) \<longleftrightarrow>
     (if k = 0 then is_correct P 0 else
      (\<exists>m. move_at P (parent_of (pClaims P) k) = Some m \<and> cPosition m = cpos (pClaims P) k \<and> Value m = Value (pClaims P ! k)))"
proof -
  note sh = play_okD(1) [OF assms(1)]
  have len: "j < i \<Longrightarrow> j < length (pClaims P)" for j using assms(2) play_okD(6) [OF assms(1)] by simp
  have zero: "0 < length (pClaims P)" using assms(3) by linarith
  have "IsHonest (pKeccak P) (tracker_at P i) (pClaims P ! k) \<longleftrightarrow>
     (is_correct P 0 \<and> k = 0) \<or> (\<exists>j < i. \<exists>m. move_at P j = Some m \<and>
        0 < k \<and> j = parent_of (pClaims P) k \<and> cPosition m = cpos (pClaims P) k \<and> Value m = Value (pClaims P ! k))"
    unfolding IsHonest_def tracker_agreed [OF assms(1,2)]
    using claim_is_move [OF assms(1,3)] len same_claim [OF assms(1,3) zero] by blast
  moreover have "0 < k \<Longrightarrow> parent_of (pClaims P) k < i"
    using shape_child(1) [OF sh _ assms(3)] assms(4) by simp
  ultimately show ?thesis by auto
qed

section \<open>The solver plays honestly\<close>

lemma tree_laws:
  assumes "play_ok P" "0 < i" "i < pDone P"
  shows "parent_of (pClaims P) i < i" "i < length (pClaims P)" "parent_of (pClaims P) i < length (pClaims P)"
    "parent_of (pClaims P) i < pDone P"
  using shape_child(1) [OF play_okD(1) [OF assms(1)] assms(2)] assms(3) play_okD(6) [OF assms(1)] by simp_all

interpretation btree: bisection_tree play_ok pDone "\<lambda>P. parent_of (pClaims P)" "\<lambda>P. claim_tix (pClaims P) (pDepth P)"
  "\<lambda>P. claim_gap (pClaims P) (pDepth P)" "\<lambda>P i. unat (depth (cpos (pClaims P) i))"
proof (unfold_locales, goal_cases)
  case (1 P i)
  then show ?case by (rule tree_laws)
next
  case (2 P i)
  then show ?case by (simp add: claim_gap_def)
next
  case (3 P i)
  then show ?case using child_tix(1) [OF play_okD(1)] tree_laws(2) by blast
next
  case (4 P i)
  then show ?case using child_tix(2) [OF play_okD(1)] tree_laws(2) by blast
next
  case (5 P)
  then have "cpos (pClaims P) 0 = NewPosition 0 0" using shape_root [OF play_okD(1)] by blast
  then show ?case by (simp add: claim_tix_def)
next
  case (6 P i)
  note c = child_tix [OF play_okD(1) [OF 6(1)] 6(2) tree_laws(2) [OF 6]]
  show ?case using shape_child(4) [OF play_okD(1) [OF 6(1)] 6(2) tree_laws(2) [OF 6]] c(3,4) by auto
qed

text \<open>The decision of \<open>shouldCounter\<close> on a claim of the game.\<close>

lemma to_counter_iff:
  assumes "play_ok P" "0 < i" "i < pDone P"
  defines "j \<equiv> parent_of (pClaims P) i"
  shows "to_counter P i \<longleftrightarrow> \<not> is_honest P i \<and> (is_honest P j \<or>
     (\<exists>m t. move_at P j = Some m \<and> TraceIndex (cPosition m) (pDepth P) = Inr t \<and> claim_tix (pClaims P) (pDepth P) i \<le> t))"
proof -
  note sh = play_okD(1) [OF assms(1)]
  note l = tree_laws [OF assms(1-3), folded j_def]
  have nr: "\<not> IsRoot (pClaims P ! i)" using shape_pos [OF sh l(2)] assms(2) by (simp add: IsRoot_def)
  have "getParent (pGame P) (pClaims P ! i) = Some (pClaims P ! j)"
    using nr shape_child(2) [OF sh assms(2) l(2)] l(3) by (simp add: getParent_def j_def)
  then have gp: "GetParent (pGame P) (pClaims P ! i) = Inr (pClaims P ! j)" by (simp add: GetParent_def)
  have hj: "IsHonest (pKeccak P) (tracker_at P i) (pClaims P ! j) \<longleftrightarrow> is_honest P j"
    unfolding is_honest_def using honest_iff [OF assms(1) _ l(3)] l assms(3) by simp
  have cj: "HonestCounter (pKeccak P) (tracker_at P i) (pClaims P ! j) = move_at P j"
    using tracker_counters [OF assms(1) less_imp_le [OF assms(3)] l(3)] l(1) by (simp add: HonestCounter_def)
  have ti: "TraceIndex (cpos (pClaims P) i) (pDepth P) = Inr (claim_tix (pClaims P) (pDepth P) i)"
    by (rule TraceIndex_claim [OF sh l(2)])
  show ?thesis
    using nr by (auto simp: to_counter_def shouldCounter_def gp hj cj ti is_honest_def rbind_Inr_iff split: option.split)
qed

lemma honest_parent:
  assumes "play_ok P" "0 < i" "i < pDone P"
  defines "j \<equiv> parent_of (pClaims P) i"
  shows "is_honest P i \<longleftrightarrow> (\<exists>m. move_at P j = Some m \<and> cPosition m = cpos (pClaims P) i \<and> Value m = Value (pClaims P ! i))"
  unfolding is_honest_def j_def using honest_iff [OF assms(1) _ tree_laws(2) [OF assms(1-3)]] assms(2,3) by simp

lemma answer_position:
  assumes "play_ok P" "0 < i" "i < pDone P" "move_at P (parent_of (pClaims P) i) = Some m"
  defines "j \<equiv> parent_of (pClaims P) i"
  shows "cPosition m = cpos (pClaims P) i \<longleftrightarrow>
     (claim_tix (pClaims P) (pDepth P) i = claim_tix (pClaims P) (pDepth P) j + claim_gap (pClaims P) (pDepth P) i \<longleftrightarrow> is_correct P j)"
proof -
  note sh = play_okD(1) [OF assms(1)]
  note l = tree_laws [OF assms(1-3), folded j_def]
  note c = child_tix [OF sh assms(2) l(2), folded j_def]
  note d = move_atD [OF assms(1) assms(4) [folded j_def] l(3)]
  have "0 < claim_gap (pClaims P) (pDepth P) i" by (simp add: claim_gap_def)
  then have ne: "Attack (cpos (pClaims P) j) \<noteq> Defend (cpos (pClaims P) j)"
    using TraceIndex_move [OF sh l(3) d(2)] c(1) by force
  have aux: "x = A \<or> x = B \<Longrightarrow> A \<noteq> B \<Longrightarrow> (if b then B else A) = x \<longleftrightarrow> (x = B \<longleftrightarrow> b)" for x A B :: Position and b by auto
  show ?thesis
    unfolding c(4) [symmetric] d(3)
    by (rule aux [OF _ ne]) (use shape_child(4) [OF sh assms(2) l(2), folded j_def] in blast)
qed

interpretation honest: honest_play play_ok pDone "\<lambda>P. parent_of (pClaims P)" "\<lambda>P. claim_tix (pClaims P) (pDepth P)"
  "\<lambda>P. claim_gap (pClaims P) (pDepth P)" "\<lambda>P i. unat (depth (cpos (pClaims P) i))"
  is_correct is_honest to_counter "\<lambda>P i. move_at P i \<noteq> None"
proof (unfold_locales, goal_cases)
  case (1 P i)
  show ?case
  proof (cases "i = 0")
    case True
    then show ?thesis using 1 honest_iff [OF 1(1), of 0 0] shape_root [OF play_okD(1) [OF 1(1)]] by (simp add: is_honest_def)
  next
    case False
    then obtain m where m: "move_at P (parent_of (pClaims P) i) = Some m" "cPosition m = cpos (pClaims P) i" "Value m = Value (pClaims P ! i)"
      using 1 honest_parent [OF 1(1) _ 1(2)] by auto
    have "tpGet (pTrace P) (cPosition m) = Inr (Value m)"
      using False by (intro move_atD(5) [OF 1(1) m(1)] tree_laws(3) [OF 1(1) _ 1(2)]) simp
    then show ?thesis using m(2,3) by (simp add: is_correct_def)
  qed
next
  case (2 P i)
  then show ?case using move_atD(1) [OF 2(1)] play_okD(6) [OF 2(1)] by auto
next
  case (3 P i)
  then show ?case by (auto simp: to_counter_def shouldCounter_def is_honest_def)
next
  case (4 P i)
  then show ?case using honest_parent [OF 4(1-3)] answer_position [OF 4(1-3)] by auto
next
  case (5 P i)
  let ?j = "parent_of (pClaims P) i"
  from to_counter_iff [OF 5(1-3)] 5(4) consider "is_honest P ?j"
    | m t where "move_at P ?j = Some m" "TraceIndex (cPosition m) (pDepth P) = Inr t" "claim_tix (pClaims P) (pDepth P) i \<le> t"
    by blast
  then show ?case
  proof cases
    case 2
    note l = tree_laws [OF 5(1-3)]
    note c = child_tix [OF play_okD(1) [OF 5(1)] 5(2) l(2)]
    note d = move_atD [OF 5(1) 2(1) l(3)]
    have "0 < claim_gap (pClaims P) (pDepth P) i" by (simp add: claim_gap_def)
    then show ?thesis
      using 2 d(3) TraceIndex_move(1) [OF play_okD(1) [OF 5(1)] l(3) d(2)] c(1) by auto
  qed simp
next
  case (6 P i)
  then obtain m where m: "move_at P (parent_of (pClaims P) i) = Some m" by auto
  then have p: "cPosition m = cpos (pClaims P) i" using answer_position [OF 6(1-3) m] 6(5) by simp
  then have "Value m = Value (pClaims P ! i)"
    using move_atD(5) [OF 6(1) m tree_laws(3) [OF 6(1-3)]] 6(6) by (simp add: is_correct_def)
  with m p show ?case using honest_parent [OF 6(1-3)] by blast
qed

end
