(* ===== verification/GameRules.thy ===== *)
theory GameRules
  imports GameHonest
begin

text \<open>
  The actions of the solver against the rules of \<^verbatim>\<open>solver/rules.go\<close>: the only rule that an action can break is the one
  about countered claims, which a move breaks exactly when its parent has been resolved as countered.
\<close>

section \<open>The actions against one claim\<close>

lemma claim_action_cases:
  assumes "play_ok P" "i < pDone P"
    "claim_action (pKeccak P) (pSolver P) (pGame P) (pClaims P ! i) (tracker_at P i) = Inr (Some a, tr)"
  obtains (move) m where "depth (cpos (pClaims P) i) < pDepth P" "move_at P i = Some m" "aType a = ActionTypeMove"
      "ParentClaim a = pClaims P ! i" "IsAttack a \<longleftrightarrow> \<not> is_correct P i" "aValue a = Value m" "\<not> IsDuplicate (pKeccak P) (pGame P) m"
    | (step) pf od where "depth (cpos (pClaims P) i) = pDepth P" "to_counter P i" "CounteredBy (pClaims P ! i) = zeroAddress"
      "aType a = ActionTypeStep" "ParentClaim a = pClaims P ! i" "IsAttack a \<longleftrightarrow> \<not> is_correct P i" "aValue a = zeroHash"
      "tpGetStepData (pTrace P) (if is_correct P i then MoveRight (cpos (pClaims P) i) else cpos (pClaims P) i) = Inr (PreState a, pf, od)"
proof -
  note sh = play_okD(1) [OF assms(1)]
  have len: "i < length (pClaims P)" using assms(2) play_okD(6) [OF assms(1)] by simp
  show thesis
  proof (cases "depth (cpos (pClaims P) i) = pDepth P")
    case True
    from assms(3) True obtain st where cs: "CounteredBy (pClaims P ! i) = zeroAddress"
      "AttemptStep (pKeccak P) (pSolver P) (pGame P) (pClaims P ! i) (tracker_at P i) = Inr (Some st)"
      "a = \<lparr>aType = ActionTypeStep, ParentClaim = LeafClaim st, IsAttack = sIsAttack st,
            aValue = zeroHash, PreState = sPreState st, ProofData = sProofData st, OracleData = sOracleData st, L2Challenge = None\<rparr>"
      by (auto simp: claim_action_def calculateStep_def rbind_Inr_iff split: if_splits option.splits)
    from cs(2) obtain b where b: "shouldCounter (pKeccak P) (pGame P) (pClaims P ! i) (tracker_at P i) = Inr True"
      "agreeWithClaim (pSolver P) (pGame P) (pClaims P ! i) = Inr b" "LeafClaim st = pClaims P ! i" "sIsAttack st = (\<not> b)"
      "taGetStepData (trace (pSolver P)) (pGame P) (pClaims P ! i) (if b then MoveRight (cpos (pClaims P) i) else cpos (pClaims P) i)
         = Inr (sPreState st, sProofData st, sOracleData st)"
      by (auto simp: AttemptStep_def rbind_Inr_iff Let_def split: if_splits)
    have "b \<longleftrightarrow> is_correct P i" by (rule agreeWithClaim_correct [OF assms(1) b(2)])
    then show thesis
      using step [of "sProofData st" "sOracleData st"] True cs(1,3) b play_okD(3) [OF assms(1)]
      by (auto simp: to_counter_def faithful_accessor_def)
  next
    case False
    from assms(3) False obtain m where nm: "NextMove (pKeccak P) (pSolver P) (pClaims P ! i) (pGame P) (tracker_at P i) = Inr (Some m)"
      "\<not> IsDuplicate (pKeccak P) (pGame P) m"
      and pa: "rbind (nth_claim (pGame P) (ParentContractIndex m)) (\<lambda>parent.
            Inr (Some \<lparr>aType = ActionTypeMove, ParentClaim = parent, IsAttack = (\<not> DefendsParent (pGame P) m),
                       aValue = Value m, PreState = [], ProofData = [], OracleData = None, L2Challenge = None\<rparr>,
                 AddHonestClaim (pKeccak P) (tracker_at P i) (pClaims P ! i) m)) = Inr (Some a, tr)"
      by (auto simp: claim_action_def calculateMove_def Let_def rbind_Inr_iff [of "NextMove _ _ _ _ _"] split: if_splits option.splits)
    have mv: "move_at P i = Some m" using nm(1) False by (simp add: move_at_def)
    note d = move_atD [OF assms(1) mv len]
    have pm: "ParentContractIndex m = int i" using d(4) by (metis Claim.select_convs(8) Claim.surjective Claim.update_convs(8) move_claim_def)
    have "depth (cPosition m) \<noteq> 0"
      using d(3) unat_Suc_depth [OF d(2)] by (auto simp: Attack_eq Defend_eq NewPosition_def simp del: unat_eq_0)
    then have "getParent (pGame P) m = Some (pClaims P ! i)"
      using len by (simp add: getParent_def IsRoot_def IsRootPosition_def pm)
    then have df: "DefendsParent (pGame P) m \<longleftrightarrow> is_correct P i"
      using RightOf_moves [of "cpos (pClaims P) i"] shape_pos [OF sh len] by (simp add: DefendsParent_def d(3))
    show thesis
      by (rule move [OF d(2) mv _ _ _ _ nm(2)]) (use pa len df in \<open>auto simp: nth_claim_def pm\<close>)
  qed
qed

lemma nth_claim_i:
  "play_ok P \<Longrightarrow> i < pDone P \<Longrightarrow> nth_claim (pGame P) (ContractIndex (pClaims P ! i)) = Inr (pClaims P ! i)"
  using shape_index [OF play_okD(1), of P i] play_okD(6) [of P] by (simp add: nth_claim_def)

section \<open>Walking up the tree\<close>

lemma parent_lookup:
  assumes "play_ok P" "0 < i" "i < pDone P"
  shows "getParent (pGame P) (pClaims P ! i) = Some (pClaims P ! parent_of (pClaims P) i)"
    "\<not> IsRoot (pClaims P ! i)"
  using shape_pos [OF play_okD(1) [OF assms(1)] tree_laws(2) [OF assms]] tree_laws [OF assms]
    shape_child(2) [OF play_okD(1) [OF assms(1)] assms(2) tree_laws(2) [OF assms]] assms(2)
  by (simp_all add: getParent_def IsRoot_def)

lemma ancestor_found:
  assumes "play_ok P" "i < pDone P" "btree.anc P i l" "claim_tix (pClaims P) (pDepth P) l = x"
  shows "\<exists>k. btree.anc P i k \<and> claim_tix (pClaims P) (pDepth P) k = x \<and>
     AncestorWithTraceIndex (pGame P) x (pClaims P ! i) = Some (Inr (Some (pClaims P ! k)))"
  using assms(3,2,4)
proof (induction rule: btree.anc.induct)
  case (anc_refl i)
  have "i < length (pClaims P)" using anc_refl.prems(1) play_okD(6) [OF assms(1)] by simp
  from TraceIndex_claim [OF play_okD(1) [OF assms(1)] this] anc_refl show ?case
    by (subst AncestorWithTraceIndex.simps) (auto intro: btree.anc.anc_refl)
next
  case (anc_par i l)
  note l = tree_laws [OF assms(1) anc_par.hyps(1) anc_par.prems(1)]
  note ti = TraceIndex_claim [OF play_okD(1) [OF assms(1)] l(2)]
  note pl = parent_lookup [OF assms(1) anc_par.hyps(1) anc_par.prems(1)]
  obtain k where "btree.anc P (parent_of (pClaims P) i) k" "claim_tix (pClaims P) (pDepth P) k = x"
     "AncestorWithTraceIndex (pGame P) x (pClaims P ! parent_of (pClaims P) i) = Some (Inr (Some (pClaims P ! k)))"
    using anc_par.IH [OF l(4) anc_par.prems(2)] by blast
  then show ?case
    using ti pl anc_par.hyps(1)
    by (cases "claim_tix (pClaims P) (pDepth P) i = x"; subst AncestorWithTraceIndex.simps) (auto intro: btree.anc.intros)
qed

text \<open>The walk of \<open>avoidPoisonedPrestate\<close> returns the ancestor with the greatest trace index below the move's.\<close>

definition pick :: "'x play \<Rightarrow> nat option \<Rightarrow> Claim" where
  "pick P k = (case k of None \<Rightarrow> zeroClaim | Some x \<Rightarrow> pClaims P ! x)"

definition better :: "'x play \<Rightarrow> int \<Rightarrow> nat option \<Rightarrow> nat \<Rightarrow> nat option" where
  "better P h k i = (if claim_tix (pClaims P) (pDepth P) i < h
     then (case k of None \<Rightarrow> Some i
           | Some x \<Rightarrow> if claim_tix (pClaims P) (pDepth P) x < claim_tix (pClaims P) (pDepth P) i then Some i else Some x)
     else k)"

lemma poisoned_walk_step:
  assumes "play_ok P" "i < pDone P" "\<And>x. k = Some x \<Longrightarrow> x < pDone P"
  shows "poisoned_walk (pGame P) h (pick P k) (pClaims P ! i) =
     (if i = 0 then Some (Inr (pick P (better P h k i)))
      else poisoned_walk (pGame P) h (pick P (better P h k i)) (pClaims P ! parent_of (pClaims P) i))"
proof -
  note sh = play_okD(1) [OF assms(1)]
  have len: "j < pDone P \<Longrightarrow> j < length (pClaims P)" for j using play_okD(6) [OF assms(1)] by simp
  have ti: "j < pDone P \<Longrightarrow> TraceIndex (cpos (pClaims P) j) (pDepth P) = Inr (claim_tix (pClaims P) (pDepth P) j)" for j
    by (rule TraceIndex_claim [OF sh len])
  have nz: "j < pDone P \<Longrightarrow> pClaims P ! j \<noteq> zeroClaim" for j by (rule game_claim_nonzero [OF sh len])
  have root: "IsRoot (pClaims P ! i) \<longleftrightarrow> i = 0" using shape_pos [OF sh len [OF assms(2)]] by (simp add: IsRoot_def)
  have gp: "i \<noteq> 0 \<Longrightarrow> GetParent (pGame P) (pClaims P ! i) = Inr (pClaims P ! parent_of (pClaims P) i)"
    using parent_lookup(1) [OF assms(1) _ assms(2)] by (simp add: GetParent_def)
  show ?thesis
    using assms(3) nz ti [OF assms(2)] root gp
    by (subst poisoned_walk.simps) (cases k; auto simp: pick_def better_def ti)
qed

lemma poisoned_walk_spec:
  assumes "play_ok P" "i < pDone P" "\<And>x. k = Some x \<Longrightarrow> x < pDone P \<and> claim_tix (pClaims P) (pDepth P) x < h"
  shows "\<exists>k'. poisoned_walk (pGame P) h (pick P k) (pClaims P ! i) = Some (Inr (pick P k')) \<and>
     (\<forall>x. k' = Some x \<longrightarrow> (k = Some x \<or> btree.anc P i x) \<and> x < pDone P \<and> claim_tix (pClaims P) (pDepth P) x < h) \<and>
     (\<forall>j. (btree.anc P i j \<and> claim_tix (pClaims P) (pDepth P) j < h) \<or> k = Some j \<longrightarrow>
        (\<exists>x. k' = Some x \<and> claim_tix (pClaims P) (pDepth P) j \<le> claim_tix (pClaims P) (pDepth P) x))"
  using assms(2,3)
proof (induction i arbitrary: k rule: less_induct)
  case (less i)
  let ?t = "claim_tix (pClaims P) (pDepth P)" and ?k = "better P h k i"
  note w = poisoned_walk_step [OF assms(1) less.prems(1), of k h]
  have b: "\<And>x. ?k = Some x \<Longrightarrow> (k = Some x \<or> x = i) \<and> x < pDone P \<and> ?t x < h"
    using less.prems by (auto simp: better_def split: if_splits option.splits)
  have m: "\<And>j. (j = i \<and> ?t j < h) \<or> k = Some j \<Longrightarrow> \<exists>x. ?k = Some x \<and> ?t j \<le> ?t x"
    using less.prems(2) by (auto simp: better_def split: option.splits)
  show ?case
  proof (cases "i = 0")
    case True
    have z: "btree.anc P i j \<longleftrightarrow> j = i" for j using True by (subst btree.anc_iff) simp
    have "poisoned_walk (pGame P) h (pick P k) (pClaims P ! i) = Some (Inr (pick P ?k))"
      using w less.prems(2) True by simp
    moreover have "\<forall>x. ?k = Some x \<longrightarrow> (k = Some x \<or> btree.anc P i x) \<and> x < pDone P \<and> ?t x < h"
      unfolding z by (intro allI impI) (rule b)
    moreover have "\<forall>j. (btree.anc P i j \<and> ?t j < h) \<or> k = Some j \<longrightarrow> (\<exists>x. ?k = Some x \<and> ?t j \<le> ?t x)"
      unfolding z by (intro allI impI) (rule m)
    ultimately show ?thesis by (intro exI [of _ ?k] conjI)
  next
    case False
    then have i: "0 < i" by simp
    note l = tree_laws [OF assms(1) i less.prems(1)]
    obtain k' where k': "poisoned_walk (pGame P) h (pick P ?k) (pClaims P ! parent_of (pClaims P) i) = Some (Inr (pick P k'))"
      "\<forall>x. k' = Some x \<longrightarrow> (?k = Some x \<or> btree.anc P (parent_of (pClaims P) i) x) \<and> x < pDone P \<and> ?t x < h"
      "\<forall>j. (btree.anc P (parent_of (pClaims P) i) j \<and> ?t j < h) \<or> ?k = Some j \<longrightarrow> (\<exists>x. k' = Some x \<and> ?t j \<le> ?t x)"
      by (atomize_elim, rule less.IH [OF l(1,4)]) (use b in blast)
    have "\<exists>x. k' = Some x \<and> ?t j \<le> ?t x" if j: "(btree.anc P i j \<and> ?t j < h) \<or> k = Some j" for j
    proof (cases "btree.anc P (parent_of (pClaims P) i) j \<and> ?t j < h")
      case True
      then show ?thesis using k'(3) by blast
    next
      case False
      then have "(j = i \<and> ?t j < h) \<or> k = Some j" using j by (auto simp: btree.anc_iff [of P i])
      from m [OF this] obtain x where x: "?k = Some x" "?t j \<le> ?t x" by blast
      then obtain y where "k' = Some y" "?t x \<le> ?t y" using k'(3) by blast
      with x(2) show ?thesis by (intro exI [of _ y]) simp
    qed
    moreover have "k' = Some x \<Longrightarrow> (k = Some x \<or> btree.anc P i x) \<and> x < pDone P \<and> ?t x < h" for x
      using k'(2) b [of x] i unfolding btree.anc_iff [of P i x] by blast
    moreover have "poisoned_walk (pGame P) h (pick P k) (pClaims P ! i) = Some (Inr (pick P k'))"
      using w less.prems(2) k'(1) False by simp
    ultimately show ?thesis by (intro exI [of _ k'] conjI allI impI) blast+
  qed
qed

section \<open>The rules about neighbours\<close>

lemma leaf_gap: "play_ok P \<Longrightarrow> depth (cpos (pClaims P) i) = pDepth P \<Longrightarrow> claim_gap (pClaims P) (pDepth P) i = 1"
  by (simp add: claim_gap_def)

lemma ancestor_correct_value:
  "is_correct P k \<Longrightarrow> tpGet (pTrace P) (cpos (pClaims P) k) = Inr (Value (pClaims P ! k))"
  by (simp add: is_correct_def)

text \<open>The ancestor just left of a claim the solver counters, looked up by its trace index.\<close>

lemma left_lookup_relevant:
  assumes "play_ok P" "i < pDone P" "honest.relevant P i" "0 \<le> claim_tix (pClaims P) (pDepth P) i - claim_gap (pClaims P) (pDepth P) i"
  shows "\<exists>k. is_correct P k \<and> k < pDone P \<and>
     claim_tix (pClaims P) (pDepth P) k = claim_tix (pClaims P) (pDepth P) i - claim_gap (pClaims P) (pDepth P) i \<and>
     AncestorWithTraceIndex (pGame P) (claim_tix (pClaims P) (pDepth P) i - claim_gap (pClaims P) (pDepth P) i) (pClaims P ! i)
       = Some (Inr (Some (pClaims P ! k)))"
proof -
  obtain l where "btree.anc P i l" "claim_tix (pClaims P) (pDepth P) l = claim_tix (pClaims P) (pDepth P) i - claim_gap (pClaims P) (pDepth P) i"
    using btree.left_neighbour [OF assms(1,2)] assms(4) by auto
  from ancestor_found [OF assms(1,2) this] obtain k where k: "btree.anc P i k"
    "claim_tix (pClaims P) (pDepth P) k = claim_tix (pClaims P) (pDepth P) i - claim_gap (pClaims P) (pDepth P) i"
    "AncestorWithTraceIndex (pGame P) (claim_tix (pClaims P) (pDepth P) i - claim_gap (pClaims P) (pDepth P) i) (pClaims P ! i)
       = Some (Inr (Some (pClaims P ! k)))" by blast
  have "is_correct P k"
    by (rule honest.left_correct [OF assms(1,2,3) k(1,2)])
  then show ?thesis using k btree.anc_size [OF k(1) assms(1,2)] by blast
qed

lemmas left_lookup = left_lookup_relevant [OF _ _ honest.relevant_def [THEN iffD2, OF disjI2]]

lemma self_lookup:
  assumes "play_ok P" "i < pDone P"
  shows "AncestorWithTraceIndex (pGame P) (claim_tix (pClaims P) (pDepth P) i) (pClaims P ! i) = Some (Inr (Some (pClaims P ! i)))"
proof -
  have "i < length (pClaims P)" using assms(2) play_okD(6) [OF assms(1)] by simp
  from TraceIndex_claim [OF play_okD(1) [OF assms(1)] this] show ?thesis
    by (subst AncestorWithTraceIndex.simps) simp
qed

text \<open>The claim a move would be attacked from is correct.\<close>

lemma move_not_poisoned:
  assumes "play_ok P" "i < pDone P" "move_at P i = Some m" "TraceIndex (cPosition m) (pDepth P) = Inr h"
    "poisoned_walk (pGame P) h zeroClaim (pClaims P ! i) = Some (Inr w)" "w \<noteq> zeroClaim"
  shows "tpGet (pTrace P) (cPosition w) = Inr (Value w)"
proof -
  let ?t = "claim_tix (pClaims P) (pDepth P)" and ?g = "claim_gap (pClaims P) (pDepth P)"
  have len: "i < length (pClaims P)" using assms(2) play_okD(6) [OF assms(1)] by simp
  note d = move_atD [OF assms(1,3) len]
  have "?g i = 2 * 2 ^ (unat (pDepth P) - unat (depth (cpos (pClaims P) i) + 1))"
    using gap_half [OF d(2)] by (simp add: claim_gap_def)
  then have half: "0 < ?g i div 2" "?g i = 2 * (?g i div 2)" by simp_all
  have h: "h = (if is_correct P i then ?t i + ?g i div 2 else ?t i - ?g i div 2)"
    using assms(4) TraceIndex_move [OF play_okD(1) [OF assms(1)] len d(2)] by (simp add: d(3) split: if_splits)
  obtain k' where k': "poisoned_walk (pGame P) h (pick P None) (pClaims P ! i) = Some (Inr (pick P k'))"
     "\<forall>x. k' = Some x \<longrightarrow> btree.anc P i x \<and> x < pDone P \<and> ?t x < h"
     "\<forall>j. btree.anc P i j \<and> ?t j < h \<longrightarrow> (\<exists>x. k' = Some x \<and> ?t j \<le> ?t x)"
    using poisoned_walk_spec [OF assms(1,2), of None h] by auto
  then obtain x where x: "k' = Some x" "w = pClaims P ! x" "btree.anc P i x" "x < pDone P" "?t x < h"
    using assms(5,6) by (cases k') (auto simp: pick_def)
  have sep: "x \<noteq> i \<Longrightarrow> ?g i \<le> \<bar>?t i - ?t x\<bar>" using btree.separated [OF x(3) assms(1,2)] by blast
  have "is_correct P x"
  proof (cases "is_correct P i")
    case True
    then have "?t i < h" using h half(1) by simp
    then have "?t i \<le> ?t x" using k'(3) x(1) btree.anc.anc_refl by force
    then have "x = i" using sep x(5) h True half by (cases "x = i") auto
    then show ?thesis using True by simp
  next
    case False
    then have lt: "?t x < ?t i" "x \<noteq> i" using x(5) h half(1) by auto
    then have le: "?t x \<le> ?t i - ?g i" using sep by simp
    have "0 \<le> ?t x" using btree.tix_lower [OF assms(1) x(4)] btree.gap_pos [OF assms(1) x(4)] by simp
    then obtain l where l: "btree.anc P i l" "?t l = ?t i - ?g i"
      using btree.left_neighbour [OF assms(1,2)] le by auto
    then have "?t l < h" using h False half by simp
    then have "?t l \<le> ?t x" using k'(3) x(1) l(1) by force
    then have "?t x = ?t i - ?g i" using le l(2) by simp
    then show ?thesis
      by (intro honest.left_correct [OF assms(1,2) _ x(3)]) (simp_all add: honest.relevant_def d(1))
  qed
  then show ?thesis by (simp add: is_correct_def x(2))
qed

section \<open>Rule by rule\<close>

lemma IsDuplicate_iff:
  "IsDuplicate keccak (NewGameState keccak cs D) c \<longleftrightarrow> (\<exists>c' \<in> set cs. Claim_ID keccak c' = Claim_ID keccak c)"
proof -
  have "foldl (\<lambda>m c. m(Claim_ID keccak c \<mapsto> True)) m0 cs x = Some True \<longleftrightarrow>
      m0 x = Some True \<or> (\<exists>c' \<in> set cs. Claim_ID keccak c' = x)" for m0 x
    by (induction cs arbitrary: m0) auto
  then show ?thesis by (simp add: IsDuplicate_def NewGameState_def)
qed

lemma step_no_duplicate:
  assumes "play_ok P" "i < pDone P" "depth (cpos (pClaims P) i) = pDepth P"
  shows "\<not> IsDuplicate (pKeccak P) (pGame P) (move_claim zeroHash (cpos (pClaims P) i) (int i))"
proof
  note sh = play_okD(1) [OF assms(1)]
  have len: "i < length (pClaims P)" using assms(2) play_okD(6) [OF assms(1)] by simp
  let ?c = "move_claim zeroHash (cpos (pClaims P) i) (int i)"
  have mem: "?c \<in> compared_claims (pTrace P) (pClaims P)" using len unfolding compared_claims_def by blast
  assume "IsDuplicate (pKeccak P) (pGame P) ?c"
  then obtain k where k: "k < length (pClaims P)" "Claim_ID (pKeccak P) (pClaims P ! k) = Claim_ID (pKeccak P) ?c"
    by (auto simp: pGame_def IsDuplicate_iff in_set_conv_nth)
  then have key: "claim_key (pClaims P ! k) = claim_key ?c" using same_id [OF assms(1) compared_game [OF k(1)] mem] by simp
  show False
  proof (cases "k = 0")
    case True
    then have "cpos (pClaims P) i = NewPosition 0 0"
      using key shape_root [OF sh] by (simp add: claim_key_def move_claim_def)
    then show False using assms(3) shape_root [OF sh] by (simp add: NewPosition_def)
  next
    case False
    then have "parent_of (pClaims P) k = i" using key by (simp add: claim_key_def move_claim_def parent_of_def)
    then show False using shape_child(3) [OF sh _ k(1)] False assms(3) by simp
  qed
qed

lemma depth_parity:
  assumes "(b :: Depth) \<le> a"
  shows "(a - b) mod 2 = 0 \<longleftrightarrow> even (unat a - unat b)"
proof -
  have "(a - b) mod 2 = 0 \<longleftrightarrow> unat ((a - b) mod 2) = 0" by (simp only: word_unat_eq_iff unat_0)
  also have "\<dots> \<longleftrightarrow> (unat a - unat b) mod 2 = 0" using assms by (simp only: unat_mod unat_sub) simp
  finally show ?thesis by (simp add: even_iff_mod_2_eq_zero)
qed

lemma to_counter_root: "play_ok P \<Longrightarrow> 0 < pDone P \<Longrightarrow> to_counter P 0 \<Longrightarrow> \<not> is_correct P 0"
  using honest.should_dishonest [of P 0] honest_iff [of P 0 0] shape_root [OF play_okD(1), of P]
  by (auto simp: is_honest_def)

lemma trace_values:
  assumes "play_ok P"
  obtains V where "\<And>p t. TraceIndex p (pDepth P) = Inr t \<Longrightarrow> tpGet (pTrace P) p = Inr (V t)"
    "\<And>p t pre pf od. TraceIndex p (pDepth P) = Inr t \<Longrightarrow> tpGetStepData (pTrace P) p = Inr (pre, pf, od) \<Longrightarrow> 0 < t \<Longrightarrow>
        drop 1 (pKeccak P pre) = drop 1 (V (t - 1))"
  using play_okD(2) [OF assms] unfolding correct_trace_def by blast

lemma trace_value:
  assumes "play_ok P"
  shows "\<exists>V. \<forall>p t. TraceIndex p (pDepth P) = Inr t \<longrightarrow> tpGet (pTrace P) p = Inr (V t)"
  using play_okD(2) [OF assms] unfolding correct_trace_def by blast

text \<open>The pre-state of a step is the pre-image of the claim before it.\<close>

lemma step_prestate:
  assumes "play_ok P" "TraceIndex p (pDepth P) = Inr t" "0 < t" "tpGetStepData (pTrace P) p = Inr (pre, pf, od)"
    "is_correct P k" "k < pDone P" "claim_tix (pClaims P) (pDepth P) k = t - 1"
  shows "drop 1 (pKeccak P pre) = drop 1 (Value (pClaims P ! k))"
proof -
  obtain V where V: "\<And>p t. TraceIndex p (pDepth P) = Inr t \<Longrightarrow> tpGet (pTrace P) p = Inr (V t)"
    "\<And>p t pre pf od. TraceIndex p (pDepth P) = Inr t \<Longrightarrow> tpGetStepData (pTrace P) p = Inr (pre, pf, od) \<Longrightarrow> 0 < t \<Longrightarrow>
        drop 1 (pKeccak P pre) = drop 1 (V (t - 1))" using trace_values [OF assms(1)] by blast
  have len: "k < length (pClaims P)" using assms(6) play_okD(6) [OF assms(1)] by simp
  have "V (t - 1) = Value (pClaims P ! k)"
    using V(1) [OF TraceIndex_claim [OF play_okD(1) [OF assms(1)] len]] assms(5,7) by (simp add: is_correct_def)
  then show ?thesis using V(2) [OF assms(2,4,3)] by simp
qed

lemma step_MoveRight:
  assumes "play_ok P" "i < pDone P" "depth (cpos (pClaims P) i) = pDepth P"
  shows "TraceIndex (MoveRight (cpos (pClaims P) i)) (pDepth P) = Inr (claim_tix (pClaims P) (pDepth P) i + 1)"
  using assms(3) by (simp add: MoveRight_def TraceIndex_eq claim_tix_def claim_gap_def)

lemma rule_detectFailedStep:
  assumes "play_ok P" "i < pDone P" "depth (cpos (pClaims P) i) = pDepth P" "to_counter P i"
    "ParentClaim a = pClaims P ! i" "IsAttack a \<longleftrightarrow> \<not> is_correct P i" "aType a = ActionTypeStep"
  shows "detectFailedStep (pGame P) a (pTrace P) = Some (Inr None)"
proof -
  have len: "i < length (pClaims P)" using assms(2) play_okD(6) [OF assms(1)] by simp
  note n = nth_claim_i [OF assms(1,2)]
  note ti = TraceIndex_claim [OF play_okD(1) [OF assms(1)] len]
  obtain V where "\<forall>p t. TraceIndex p (pDepth P) = Inr t \<longrightarrow> tpGet (pTrace P) p = Inr (V t)"
    using trace_value [OF assms(1)] by (rule exE)
  then have V: "TraceIndex p (pDepth P) = Inr t \<Longrightarrow> tpGet (pTrace P) p = Inr (V t)" for p t by simp
  have rp: "resultingPosition (pGame P) a = Inr (cpos (pClaims P) i)"
    by (simp add: resultingPosition_def assms(5,7) n)
  show ?thesis
  proof (cases "is_correct P i")
    case False
    then have "V (claim_tix (pClaims P) (pDepth P) i) \<noteq> Value (pClaims P ! i)"
      using V [OF ti] by (simp add: is_correct_def)
    then show ?thesis
      using False self_lookup [OF assms(1,2)] V [OF ti]
      by (simp add: detectFailedStep_def assms(3,5,6,7) rp n ti)
  next
    case True
    have i: "0 < i" using to_counter_root [OF assms(1)] assms(2,4) True by (cases "i = 0") auto
    obtain r0 where "btree.anc P i r0" "claim_tix (pClaims P) (pDepth P) r0 = claim_tix (pClaims P) (pDepth P) i + 1"
      using btree.right_neighbour [OF assms(1,2) i] leaf_gap [OF assms(1,3)] by auto
    from ancestor_found [OF assms(1,2) this] obtain r where r: "btree.anc P i r"
      "claim_tix (pClaims P) (pDepth P) r = claim_tix (pClaims P) (pDepth P) i + 1"
      "AncestorWithTraceIndex (pGame P) (claim_tix (pClaims P) (pDepth P) i + 1) (pClaims P ! i) = Some (Inr (Some (pClaims P ! r)))"
      by blast
    have alt: "is_correct P r \<longleftrightarrow> odd (unat (depth (cpos (pClaims P) i)) - unat (depth (cpos (pClaims P) r)))"
      using honest.right_alternates [OF assms(1,2) i r(1)] r(2) leaf_gap [OF assms(1,3)] assms(4) True by simp
    have rl: "r < length (pClaims P)" using btree.anc_size [OF r(1) assms(1,2)] play_okD(6) [OF assms(1)] by simp
    note tr = V [OF TraceIndex_claim [OF play_okD(1) [OF assms(1)] rl]]
    have le: "depth (cpos (pClaims P) r) \<le> depth (cpos (pClaims P) i)"
      using btree.dep_anc [OF r(1) assms(1,2)] by (simp add: word_le_nat_alt)
    have "(depth (cpos (pClaims P) i) - depth (cpos (pClaims P) r)) mod 2 = 0 \<longleftrightarrow>
        V (claim_tix (pClaims P) (pDepth P) r) \<noteq> Value (pClaims P ! r)"
      unfolding depth_parity [OF le] using alt tr by (simp add: is_correct_def)
    then show ?thesis
      using True r(3) tr assms(3) by (simp add: detectFailedStep_def assms(5,6,7) rp n ti Let_def)
  qed
qed

lemma rule_prestate_step:
  assumes "play_ok P" "i < pDone P" "depth (cpos (pClaims P) i) = pDepth P" "to_counter P i"
    "ParentClaim a = pClaims P ! i" "IsAttack a \<longleftrightarrow> \<not> is_correct P i" "aType a = ActionTypeStep"
    "tpGetStepData (pTrace P) (if is_correct P i then MoveRight (cpos (pClaims P) i) else cpos (pClaims P) i) = Inr (PreState a, pf, od)"
  shows "detectPoisonedStepPrestate (pKeccak P) (pGame P) a (pTrace P) = Some (Inr None)"
proof -
  let ?t = "claim_tix (pClaims P) (pDepth P)"
  have len: "i < length (pClaims P)" using assms(2) play_okD(6) [OF assms(1)] by simp
  note n = nth_claim_i [OF assms(1,2)]
  note ti = TraceIndex_claim [OF play_okD(1) [OF assms(1)] len]
  have rp: "resultingPosition (pGame P) a = Inr (cpos (pClaims P) i)" by (simp add: resultingPosition_def assms(5,7) n)
  have nonneg: "0 \<le> ?t i" using btree.tix_lower [OF assms(1,2)] btree.gap_pos [OF assms(1,2)] by simp
  show ?thesis
  proof (cases "is_correct P i")
    case True
    have "drop 1 (pKeccak P (PreState a)) = drop 1 (Value (pClaims P ! i))"
      by (rule step_prestate [OF assms(1) step_MoveRight [OF assms(1-3)] _ _ True assms(2)]) (use assms(8) True nonneg in auto)
    then show ?thesis
      using True self_lookup [OF assms(1,2)] nonneg
      by (simp add: detectPoisonedStepPrestate_def assms(3,5,6,7) rp n ti ancestor_correct_value)
  next
    case False
    show ?thesis
    proof (cases "?t i - 1 < 0")
      case True
      then show ?thesis using False by (simp add: detectPoisonedStepPrestate_def assms(3,5,6,7) rp n ti)
    next
      case nn: False
      obtain k where k: "is_correct P k" "k < pDone P" "?t k = ?t i - 1"
        "AncestorWithTraceIndex (pGame P) (?t i - 1) (pClaims P ! i) = Some (Inr (Some (pClaims P ! k)))"
        using left_lookup [OF assms(1,2,4)] leaf_gap [OF assms(1,3)] nn by auto
      have "drop 1 (pKeccak P (PreState a)) = drop 1 (Value (pClaims P ! k))"
        by (rule step_prestate [OF assms(1) ti _ _ k(1,2,3)]) (use assms(8) False nn in auto)
      then show ?thesis
        using False nn k(4) by (simp add: detectPoisonedStepPrestate_def assms(3,5,6,7) rp n ti ancestor_correct_value [OF k(1)])
    qed
  qed
qed

lemma rule_prestate_move:
  assumes "play_ok P" "i < pDone P" "move_at P i = Some m"
    "ParentClaim a = pClaims P ! i" "IsAttack a \<longleftrightarrow> \<not> is_correct P i" "aType a = ActionTypeMove"
  shows "detectPoisonedStepPrestate (pKeccak P) (pGame P) a (pTrace P) = Some (Inr None)"
    "avoidPoisonedPrestate (pGame P) a (pTrace P) = Some (Inr None)"
    "resultingPosition (pGame P) a = Inr (cPosition m)"
proof -
  let ?t = "claim_tix (pClaims P) (pDepth P)" and ?g = "claim_gap (pClaims P) (pDepth P)"
  have len: "i < length (pClaims P)" using assms(2) play_okD(6) [OF assms(1)] by simp
  note n = nth_claim_i [OF assms(1,2)]
  note d = move_atD [OF assms(1,3) len]
  note tm = TraceIndex_move [OF play_okD(1) [OF assms(1)] len d(2)]
  show rp: "resultingPosition (pGame P) a = Inr (cPosition m)"
    using d(3) by (simp add: resultingPosition_def assms(4-6) n)
  obtain h where h: "TraceIndex (cPosition m) (pDepth P) = Inr h"
    "h = (if is_correct P i then ?t i + ?g i div 2 else ?t i - ?g i div 2)" using tm by (simp add: d(3))
  obtain k' where w: "poisoned_walk (pGame P) h zeroClaim (pClaims P ! i) = Some (Inr (pick P k'))"
    using poisoned_walk_spec [OF assms(1,2), of None h] by (auto simp: pick_def)
  show "avoidPoisonedPrestate (pGame P) a (pTrace P) = Some (Inr None)"
    using move_not_poisoned [OF assms(1-3) h(1) w]
    by (auto simp: avoidPoisonedPrestate_def assms(4-6) rp h(1) n w)
  show "detectPoisonedStepPrestate (pKeccak P) (pGame P) a (pTrace P) = Some (Inr None)"
  proof (cases "depth (cPosition m) = pDepth P \<and> 0 \<le> h - 1")
    case False
    then show ?thesis by (auto simp: detectPoisonedStepPrestate_def assms(4-6) rp h(1) n)
  next
    case True
    then have "depth (cpos (pClaims P) i) + 1 = pDepth P"
      using d(3) by (auto simp: Attack_eq Defend_eq NewPosition_def split: if_splits)
    then have g2: "?g i = 2" using gap_half [OF d(2)] by (simp add: claim_gap_def)
    obtain k where k: "is_correct P k" "AncestorWithTraceIndex (pGame P) (h - 1) (pClaims P ! i) = Some (Inr (Some (pClaims P ! k)))"
    proof (cases "is_correct P i")
      case True
      then show thesis using that [OF True] self_lookup [OF assms(1,2)] h(2) g2 by simp
    next
      case False
      then have e: "h - 1 = ?t i - ?g i" using h(2) g2 by simp
      then show thesis using left_lookup [OF assms(1,2) d(1)] True that by auto
    qed
    then show ?thesis
      using True by (simp add: detectPoisonedStepPrestate_def assms(4-6) rp h(1) n ancestor_correct_value)
  qed
qed

lemma join_all_nil: "list_all (\<lambda>r. r = Some (Inr None)) rs \<Longrightarrow> join_errors rs = Some (Inr [])"
  by (induction rs) auto

text \<open>What the rules report on an action: a move against a claim that is marked as countered, nothing else.\<close>

definition countered_report :: "'x Action \<Rightarrow> game_error list" where
  "countered_report a =
    (if aType a = ActionTypeMove \<and> CounteredBy (ParentClaim a) \<noteq> zeroAddress then [RuleViolated ''step on countered claim''] else [])"

lemma checkRules_one:
  assumes "list_all (\<lambda>r. r = Some (Inr None))
    [Some (parentMustExist g a), Some (onlyStepAtMaxDepth g a), Some (onlyMoveBeforeMaxDepth g a), Some (doNotDuplicateExistingMoves keccak g a),
     Some (doNotDefendRootClaim g a), avoidPoisonedPrestate g a ct, detectPoisonedStepPrestate keccak g a ct, detectFailedStep g a ct, Some (doNotCounterSelf g a)]"
    and "doNotStepAlreadyCounteredClaims g a = Inr e"
  shows "checkRules keccak g a ct = Some (Inr (case e of None \<Rightarrow> [] | Some x \<Rightarrow> [x]))"
  using assms by (simp add: checkRules_def rule_results_def)

lemma action_rules:
  assumes "play_ok P" "i < pDone P" "Claimant (pClaims P ! i) \<noteq> challengerAddr \<or> is_honest P i"
    "claim_action (pKeccak P) (pSolver P) (pGame P) (pClaims P ! i) (tracker_at P i) = Inr (Some a, tr)"
  shows "checkRules (pKeccak P) (pGame P) a (pTrace P) = Some (Inr (countered_report a))"
proof -
  note sh = play_okD(1) [OF assms(1)]
  have len: "i < length (pClaims P)" using assms(2) play_okD(6) [OF assms(1)] by simp
  note ix = shape_index [OF sh len]
  note n = nth_claim_i [OF assms(1,2)]
  have root: "IsRootPosition (cpos (pClaims P) i) \<longleftrightarrow> i = 0" using shape_pos [OF sh len] by blast
  from assms(1,2,4) show ?thesis
  proof (cases rule: claim_action_cases)
    case (move m)
    note d = move_atD [OF assms(1) move(2) len]
    note r = rule_prestate_move [OF assms(1,2) move(2,4,5,3)]
    have own: "Claimant (pClaims P ! i) \<noteq> challengerAddr"
      using assms(3) honest.should_dishonest [OF assms(1,2) d(1)] by blast
    have "move_claim (Value m) (cPosition m) (int i) = m" using d(4) by simp
    then have "checkRules (pKeccak P) (pGame P) a (pTrace P) =
        Some (Inr (case if CounteredBy (pClaims P ! i) \<noteq> zeroAddress then Some (RuleViolated ''step on countered claim'') else None of None \<Rightarrow> [] | Some x \<Rightarrow> [x]))"
      by (intro checkRules_one)
        (use move len ix n root r d(6) own in
          \<open>auto simp: parentMustExist_def onlyStepAtMaxDepth_def onlyMoveBeforeMaxDepth_def not_le violated_def
             doNotDuplicateExistingMoves_def doNotStepAlreadyCounteredClaims_def doNotDefendRootClaim_def
             doNotCounterSelf_def detectFailedStep_def\<close>)
    then show ?thesis using move(3,4) by (simp add: countered_report_def)
  next
    case (step pf od)
    note r = rule_prestate_step [OF assms(1,2) step(1,2,5,6,4,8)] rule_detectFailedStep [OF assms(1,2) step(1,2,5,6,4)]
    have own: "Claimant (pClaims P ! i) \<noteq> challengerAddr"
      using assms(3) honest.should_dishonest [OF assms(1,2) step(2)] by blast
    have rt: "i = 0 \<Longrightarrow> \<not> is_correct P i" using to_counter_root [OF assms(1)] assms(2) step(2) by simp
    have rp: "resultingPosition (pGame P) a = Inr (cpos (pClaims P) i)" by (simp add: resultingPosition_def step n)
    have "countered_report a = []" using step(4) by (simp add: countered_report_def)
    then show ?thesis
      unfolding checkRules_def
      by (simp, intro join_all_nil)
        (use step len ix n root r rt own step_no_duplicate [OF assms(1,2) step(1)] in
          \<open>auto simp: rule_results_def parentMustExist_def onlyStepAtMaxDepth_def onlyMoveBeforeMaxDepth_def rp
             doNotDuplicateExistingMoves_def doNotStepAlreadyCounteredClaims_def doNotDefendRootClaim_def
             doNotCounterSelf_def avoidPoisonedPrestate_def\<close>)
  qed
qed

section \<open>The actions of a run\<close>

lemma tracker_at_done [simp]: "tracker_at (P\<lparr>pDone := n\<rparr>) i = tracker_at P i" "pGame (P\<lparr>pDone := n\<rparr>) = pGame P"
  by (induction i) (simp_all add: pGame_def agree_root_def split: sum.split)

text \<open>The loop handles the claims in order until one of them fails, and collects their actions.\<close>

lemma actions_loop_result:
  assumes "actions_loop (pKeccak P) (pSolver P) (pGame P) (drop i (pClaims P)) acts (tracker_at P i) = Inr (actions, err)"
    "i \<le> length (pClaims P)"
  shows "\<exists>n \<le> length (pClaims P). i \<le> n \<and> (err = None \<longrightarrow> n = length (pClaims P)) \<and>
    (\<forall>j < n. i \<le> j \<longrightarrow> is_ok (claim_action (pKeccak P) (pSolver P) (pGame P) (pClaims P ! j) (tracker_at P j))) \<and>
    set actions = set acts \<union> {a. \<exists>j < n. i \<le> j \<and>
      (\<exists>tr. claim_action (pKeccak P) (pSolver P) (pGame P) (pClaims P ! j) (tracker_at P j) = Inr (Some a, tr))}"
  (is "\<exists>n \<le> ?L. ?R i acts n")
  using assms
proof (induction "?L - i" arbitrary: i acts)
  case 0
  then show ?case by (intro exI [of _ ?L]) auto
next
  case (Suc d)
  let ?ca = "claim_action (pKeccak P) (pSolver P) (pGame P) (pClaims P ! i) (tracker_at P i)"
  have i: "i < ?L" using Suc.hyps(2) by simp
  have dr: "drop i (pClaims P) = pClaims P ! i # drop (Suc i) (pClaims P)" using i by (simp add: Cons_nth_drop_Suc)
  show ?case
  proof (cases ?ca)
    case (Inl e)
    then show ?thesis using Suc.prems i by (intro exI [of _ i]) (auto simp: dr split: if_splits)
  next
    case (Inr r)
    obtain oa tr where r: "r = (oa, tr)" by (cases r)
    have tr: "tracker_at P (Suc i) = tr" using Inr by (simp add: r)
    have ok: "is_ok ?ca" using Inr by (auto simp: is_ok_iff)
    have "actions_loop (pKeccak P) (pSolver P) (pGame P) (drop (Suc i) (pClaims P))
        (acts @ (case oa of None \<Rightarrow> [] | Some a \<Rightarrow> [a])) (tracker_at P (Suc i)) = Inr (actions, err)"
      unfolding tr using Suc.prems(1) by (cases oa) (simp_all add: dr Inr r)
    from Suc.hyps(1) [OF _ this] Suc.hyps(2) i obtain n where n: "n \<le> ?L"
      "?R (Suc i) (acts @ (case oa of None \<Rightarrow> [] | Some a \<Rightarrow> [a])) n" by fastforce
    have ij: "j < n \<and> i \<le> j \<longleftrightarrow> j = i \<or> (j < n \<and> Suc i \<le> j)" for j using n(2) by auto
    have split: "(\<exists>j < n. i \<le> j \<and> Q j) \<longleftrightarrow> Q i \<or> (\<exists>j < n. Suc i \<le> j \<and> Q j)" for Q :: "nat \<Rightarrow> bool"
      using ij by metis
    have "set (case oa of None \<Rightarrow> [] | Some a \<Rightarrow> [a]) = {a. \<exists>tr. ?ca = Inr (Some a, tr)}"
      using Inr r by (cases oa) auto
    moreover have "is_ok (claim_action (pKeccak P) (pSolver P) (pGame P) (pClaims P ! j) (tracker_at P j))" if "j < n" "i \<le> j" for j
      using that n(2) ok by (cases "j = i") auto
    ultimately show ?thesis
      using n by (intro exI [of _ n] conjI) (simp_all only: split Collect_disj_eq set_append Un_assoc, simp_all)
  qed
qed


definition solver_setting ::
    "(bytes \<Rightarrow> bytes) \<Rightarrow> 'x claimSolver \<Rightarrow> 'x TraceProvider \<Rightarrow> Claim list \<Rightarrow> Depth \<Rightarrow> bool" where
  "solver_setting keccak s ct cs D \<longleftrightarrow> game_shape cs D \<and> correct_trace keccak ct D \<and> faithful_accessor (trace s) ct \<and>
     no_id_collision keccak ct cs \<and> gameDepth s = D"

abbreviation the_play :: "(bytes \<Rightarrow> bytes) \<Rightarrow> 'x claimSolver \<Rightarrow> 'x TraceProvider \<Rightarrow> Claim list \<Rightarrow> Depth \<Rightarrow> nat \<Rightarrow> 'x play" where
  "the_play keccak s ct cs D n \<equiv> \<lparr>pKeccak = keccak, pSolver = s, pTrace = ct, pClaims = cs, pDepth = D, pDone = n\<rparr>"

lemma run_play:
  assumes "solver_setting keccak s ct cs D"
    "CalculateNextActions keccak s (NewGameState keccak cs D) = Inr (actions, err)"
    "actions = [] \<or> (\<exists>a \<in> set actions. aType a \<noteq> ActionTypeChallengeL2BlockNumber)"
  shows "\<exists>n. play_ok (the_play keccak s ct cs D n) \<and> (err = None \<longrightarrow> n = length cs) \<and>
    set actions = {a. \<exists>j < n. \<exists>tr. claim_action keccak s (NewGameState keccak cs D) (cs ! j)
      (tracker_at (the_play keccak s ct cs D 0) j) = Inr (Some a, tr)}"
proof -
  let ?g = "NewGameState keccak cs D" and ?P = "the_play keccak s ct cs D 0"
  have sh: "game_shape cs D" and fa: "faithful_accessor (trace s) ct" using assms(1) by (simp_all add: solver_setting_def)
  have ne: "0 < length cs" using shape_root [OF sh] by simp
  have g [simp]: "pGame ?P = ?g" by (simp add: pGame_def)
  have ok0: "play_ok (?P\<lparr>pDone := n\<rparr>) \<longleftrightarrow> n \<le> length cs \<and> (\<forall>j < n. is_ok (claim_action keccak s ?g (cs ! j) (tracker_at ?P j)))" for n
    using assms(1) unfolding play_ok_def tracker_at_done by (simp add: solver_setting_def)
  have root: "nth_claim ?g 0 = Inr (cs ! 0)" using ne by (simp add: nth_claim_def NewGameState_def)
  have cl: "claims ?g = cs" by (simp add: NewGameState_def)
  consider (err) "actions = []" "err \<noteq> None"
    | (run) b where "AgreeWithRootClaim s ?g = Inr b"
        "actions_loop keccak s ?g cs [] (initial_tracker keccak b (cs ! 0)) = Inr (actions, err)"
    using assms(2,3) unfolding CalculateNextActions_def
    by (auto simp: root cl Let_def split: sum.splits if_splits game_error.splits)
  then show ?thesis
  proof cases
    case err
    then show ?thesis using ok0 [of 0] by (intro exI [of _ 0]) auto
  next
    case (run b)
    have "b \<longleftrightarrow> agree_root ?P"
      using run(1) fa by (auto simp: AgreeWithRootClaim_def agreeWithClaim_def root rbind_Inr_iff faithful_accessor_def agree_root_def)
    then have "actions_loop (pKeccak ?P) (pSolver ?P) (pGame ?P) (drop 0 (pClaims ?P)) [] (tracker_at ?P 0) = Inr (actions, err)"
      using run(2) by simp
    from actions_loop_result [OF this] show ?thesis using ok0 by (simp only: g) auto
  qed
qed


section \<open>Moves made on an earlier state of the game\<close>

lemma faithful_unique:
  assumes "faithful_accessor ta ct" "taGet ta g c p = Inr v" "taGet ta g' c p = Inr w"
  shows "v = w"
proof -
  have "tpGet ct p = Inr v" "tpGet ct p = Inr w" using assms unfolding faithful_accessor_def by blast+
  then show ?thesis by simp
qed

lemma NextMove_unique:
  assumes "faithful_accessor (trace s) ct" "GetParent g c = GetParent g' c" "gDepth g = gDepth g'"
    "NextMove keccak s c g tr = Inr m" "NextMove keccak s c g' tr = Inr m'"
  shows "m = m'"
proof -
  have sc: "shouldCounter keccak g' c tr = shouldCounter keccak g c tr"
    unfolding shouldCounter_def assms(2,3) by (rule refl)
  note u = faithful_unique [OF assms(1)]
  have ag: "b = b'" if "agreeWithClaim s g c = Inr b" "agreeWithClaim s g' c = Inr b'" for b b'
    using that u by (auto simp: agreeWithClaim_def rbind_Inr_iff)
  have "defend s g c = Inr m \<Longrightarrow> defend s g' c = Inr m' \<Longrightarrow> m = m'"
    "attack s g c = Inr m \<Longrightarrow> attack s g' c = Inr m' \<Longrightarrow> m = m'"
    by (auto simp: defend_def attack_def Let_def rbind_Inr_iff dest: u split: if_splits)
  then show ?thesis
    using assms(4,5) ag unfolding NextMove_def sc by (auto simp: rbind_Inr_iff split: if_splits)
qed

lemma prefix_parent:
  assumes "game_shape cs D" "j < l" "l \<le> length cs"
  shows "GetParent (NewGameState keccak (take l cs) D) (cs ! j) = GetParent (NewGameState keccak cs D) (cs ! j)"
proof (cases "j = 0")
  case True
  moreover have "IsRootPosition (cpos cs 0)" using shape_pos [OF assms(1), of 0] assms(2,3) by (cases cs) auto
  ultimately show ?thesis by (simp add: GetParent_def getParent_def IsRoot_def)
next
  case False
  then have "parent_of cs j < j" "ParentContractIndex (cs ! j) = int (parent_of cs j)"
    using shape_child [OF assms(1), of j] assms(2,3) by simp_all
  then show ?thesis using assms(2,3) by (simp add: GetParent_def getParent_def NewGameState_def)
qed

lemma claim_action_NextMove:
  assumes "claim_action keccak s g c tr = Inr r" "depth (cPosition c) \<noteq> gDepth g"
  shows "\<exists>m. NextMove keccak s c g tr = Inr m"
  using assms by (auto simp: claim_action_def calculateMove_def rbind_Inr_iff)

lemma prefix_moves:
  assumes "play_ok (the_play keccak s ct cs D n)" "play_ok (the_play keccak s ct (take l cs) D n')"
    "l \<le> length cs" "j \<le> n" "j \<le> n'" "0 < l"
  shows "tracker_at (the_play keccak s ct (take l cs) D n') j = tracker_at (the_play keccak s ct cs D n) j \<and>
    (j < n \<longrightarrow> j < n' \<longrightarrow> move_at (the_play keccak s ct (take l cs) D n') j = move_at (the_play keccak s ct cs D n) j)"
    (is "?T j \<and> (_ \<longrightarrow> _ \<longrightarrow> ?M j)")
proof -
  let ?P = "the_play keccak s ct cs D n" and ?Q = "the_play keccak s ct (take l cs) D n'"
  note sh = play_okD(1) [OF assms(1), simplified]
  have nl: "n' \<le> l" using play_okD(6) [OF assms(2)] by simp
  have M: "?M k" if T: "?T k" and k: "k < n" "k < n'" for k
  proof (cases "depth (cpos cs k) = D")
    case True
    then show ?thesis using k nl by (simp add: move_at_def)
  next
    case False
    have kl: "k < l" using k nl by simp
    obtain r where "claim_action keccak s (pGame ?P) (cs ! k) (tracker_at ?P k) = Inr r"
      using play_okD(7) [OF assms(1), of k] k by auto
    from claim_action_NextMove [OF this] False obtain m where m: "NextMove keccak s (cs ! k) (pGame ?P) (tracker_at ?P k) = Inr m"
      by auto
    obtain r where "claim_action keccak s (pGame ?Q) (cs ! k) (tracker_at ?Q k) = Inr r"
      using play_okD(7) [OF assms(2), of k] k kl by auto
    from claim_action_NextMove [OF this] False obtain m' where m': "NextMove keccak s (cs ! k) (pGame ?Q) (tracker_at ?P k) = Inr m'"
      by (auto simp: T)
    have "m = m'"
      by (rule NextMove_unique [OF _ _ _ m m', where ct = ct])
        (use play_okD(3) [OF assms(1)] prefix_parent [OF sh kl assms(3)] in \<open>simp_all add: pGame_def NewGameState_def\<close>)
    then show ?thesis using m m' T kl False by (simp add: move_at_def)
  qed
  have T: "?T k" if "k \<le> n" "k \<le> n'" for k
    using that
  proof (induction k)
    case 0
    then show ?case using assms(6) by (simp add: agree_root_def)
  next
    case (Suc k)
    then have IH: "?T k" and k: "k < n" "k < n'" "k < l" using nl by simp_all
    show ?case
      using tracker_Suc [OF assms(1), of k] tracker_Suc [OF assms(2), of k] k IH M [OF IH k(1,2)]
      by (simp del: tracker_at.simps cong: option.case_cong)
  qed
  show ?thesis using T M assms(4,5) by simp
qed


text \<open>A setting for the whole game is one for every non-empty prefix.\<close>

lemma setting_prefix:
  assumes "solver_setting keccak s ct cs D" "0 < l" "l \<le> length cs"
  shows "solver_setting keccak s ct (take l cs) D"
proof -
  have sh: "game_shape cs D" using assms(1) by (simp add: solver_setting_def)
  have c: "0 \<le> ParentContractIndex (cs ! i) \<and> nat (ParentContractIndex (cs ! i)) < l" if "i \<in> set [1..<l]" for i
  proof -
    have "parent_of cs i < i" "ParentContractIndex (cs ! i) = int (parent_of cs i)"
      using that shape_child(1,2) [OF sh, of i] assms(3) by simp_all
    then show ?thesis using that by simp
  qed
  have sub: "i \<in> set [a..<length cs]" if "i \<in> set [a..<l]" for i a using that assms(3) by simp
  have "\<forall>i \<in> set [1..<l]. 0 \<le> ParentContractIndex (take l cs ! i) \<and> ParentContractIndex (take l cs ! i) < int i \<and>
      (let j = nat (ParentContractIndex (take l cs ! i)) in depth (cpos (take l cs) j) < D \<and>
        (cpos (take l cs) i = Attack (cpos (take l cs) j) \<or> (j \<noteq> 0 \<and> cpos (take l cs) i = Defend (cpos (take l cs) j))))"
  proof
    fix i assume i: "i \<in> set [1..<l]"
    from sh sub [OF i] show "0 \<le> ParentContractIndex (take l cs ! i) \<and> ParentContractIndex (take l cs ! i) < int i \<and>
      (let j = nat (ParentContractIndex (take l cs ! i)) in depth (cpos (take l cs) j) < D \<and>
        (cpos (take l cs) i = Attack (cpos (take l cs) j) \<or> (j \<noteq> 0 \<and> cpos (take l cs) i = Defend (cpos (take l cs) j))))"
      using i c [OF i] unfolding game_shape_def list_all_iff Let_def by simp
  qed
  then have "game_shape (take l cs) D"
    using sh assms(2,3) sub unfolding game_shape_def list_all_iff
    by (simp add: take_map [symmetric] distinct_take)
  moreover have "compared_claims ct (take l cs) \<subseteq> compared_claims ct cs"
    using assms(3) unfolding compared_claims_def
    by (intro Un_mono subsetI) (fastforce dest: in_set_takeD)+
  then have "no_id_collision keccak ct (take l cs)"
    using assms(1) unfolding solver_setting_def no_id_collision_def by blast
  ultimately show ?thesis using assms(1) by (simp add: solver_setting_def)
qed

text \<open>The claims the challenger has made are moves its solver returned on an earlier state of the game
  (other claims may have been added before the move was).\<close>

definition is_move_of :: "'x Action \<Rightarrow> Claim \<Rightarrow> bool" where
  "is_move_of a c \<longleftrightarrow> aType a = ActionTypeMove \<and> ParentContractIndex c = ContractIndex (ParentClaim a) \<and> Value c = aValue a \<and>
     cPosition c = (if IsAttack a then Attack (cPosition (ParentClaim a)) else Defend (cPosition (ParentClaim a)))"

definition own_claims_played :: "(bytes \<Rightarrow> bytes) \<Rightarrow> 'x claimSolver \<Rightarrow> Claim list \<Rightarrow> Depth \<Rightarrow> bool" where
  "own_claims_played keccak s cs D \<longleftrightarrow> list_all (\<lambda>i. Claimant (cs ! i) = challengerAddr \<longrightarrow>
     list_ex (\<lambda>n. case CalculateNextActions keccak s (NewGameState keccak (take n cs) D) of
                     Inl _ \<Rightarrow> False | Inr (actions, _) \<Rightarrow> list_ex (\<lambda>a. is_move_of a (cs ! i)) actions) [1..<Suc i])
   [0..<length cs]"

lemma own_claim_honest:
  assumes "solver_setting keccak s ct cs D" "own_claims_played keccak s cs D"
    "play_ok (the_play keccak s ct cs D n)" "i < n" "Claimant (cs ! i) = challengerAddr"
  shows "is_honest (the_play keccak s ct cs D n) i"
proof -
  let ?P = "the_play keccak s ct cs D n"
  note sh = play_okD(1) [OF assms(3), simplified]
  have len: "i < length cs" using assms(4) play_okD(6) [OF assms(3)] by simp
  obtain l actions err a where l: "0 < l" "l \<le> i"
    and cna: "CalculateNextActions keccak s (NewGameState keccak (take l cs) D) = Inr (actions, err)"
    and a: "a \<in> set actions" "is_move_of a (cs ! i)"
  proof -
    have "i \<in> set [0..<length cs]" using len by simp
    with assms(2,5) obtain l where l: "l \<in> set [1..<Suc i]" and
      "case CalculateNextActions keccak s (NewGameState keccak (take l cs) D) of
         Inl _ \<Rightarrow> False | Inr (actions, _) \<Rightarrow> list_ex (\<lambda>a. is_move_of a (cs ! i)) actions"
      unfolding own_claims_played_def list_all_iff list_ex_iff by blast
    moreover have "0 < l" "l \<le> i" using l by auto
    ultimately show thesis using that by (auto simp: list_ex_iff split: sum.splits)
  qed
  have ll: "l \<le> length cs" using l len by simp
  have "aType a = ActionTypeMove" using a(2) by (simp add: is_move_of_def)
  then have "\<exists>a \<in> set actions. aType a \<noteq> ActionTypeChallengeL2BlockNumber" using a(1) by force
  with run_play [OF setting_prefix [OF assms(1) l(1) ll] cna] obtain n' where n':
    "play_ok (the_play keccak s ct (take l cs) D n')"
    "set actions = {a. \<exists>j < n'. \<exists>tr. claim_action keccak s (NewGameState keccak (take l cs) D) (take l cs ! j)
      (tracker_at (the_play keccak s ct (take l cs) D 0) j) = Inr (Some a, tr)}" by auto
  let ?Q = "the_play keccak s ct (take l cs) D n'"
  have Q0: "tracker_at (the_play keccak s ct (take l cs) D 0) j = tracker_at ?Q j" for j
    using tracker_at_done(1) [where P = ?Q and n = 0 and i = j] by simp
  have Qg: "pGame ?Q = NewGameState keccak (take l cs) D" by (simp add: pGame_def)
  from a(1) n'(2) obtain j tr where j: "j < pDone ?Q"
    "claim_action (pKeccak ?Q) (pSolver ?Q) (pGame ?Q) (pClaims ?Q ! j) (tracker_at ?Q j) = Inr (Some a, tr)"
    unfolding Q0 Qg by auto
  have jl: "j < l" using j(1) play_okD(6) [OF n'(1)] by simp
  then have jn: "j < n" "j \<le> n" "j \<le> n'" "j < length cs" using l assms(4) j(1) len by simp_all
  from n'(1) j show ?thesis
  proof (cases rule: claim_action_cases)
    case (move m)
    have mv: "move_at ?P j = Some m"
      using prefix_moves [OF assms(3) n'(1) ll jn(2,3) l(1)] move(2) jn(1) j(1) by simp
    note d = move_atD [OF assms(3) mv, simplified, OF jn(4)]
    have pa: "ParentClaim a = cs ! j" using move(4) jl by simp
    have dm: "cPosition m = (if IsAttack a then Attack (cpos cs j) else Defend (cpos cs j))"
      using move_atD(3) [OF n'(1) move(2)] move(5) jl ll by simp
    have i: "0 < i" using l by simp
    have pj: "parent_of cs i = j" using a(2) shape_index [OF sh jn(4)] by (simp add: parent_of_def is_move_of_def pa)
    have "cPosition m = cpos cs i" "Value m = Value (cs ! i)" using a(2) move(6) dm by (simp_all add: is_move_of_def pa)
    then show ?thesis using honest_parent [OF assms(3) i, simplified, OF assms(4)] mv by (simp add: pj)
  next
    case (step pf od)
    then show ?thesis using a(2) by (simp add: is_move_of_def)
  qed
qed

text \<open>C3: The honest challenger obeys its own rules, with one exception that is characterised exactly. Take a game whose claims form a tree as the contract builds
  it (resolved claims included), one correct trace, an accessor that returns only values of that trace (it may fail), claims whose identifiers do not collide, and let every
  claim of the challenger be a move that its solver returned on an earlier state of the game. Then for every move and step that
  \<^verbatim>\<open>GameSolver.CalculateNextActions\<close> returns, \<^verbatim>\<open>checkRules\<close> reports nothing (its parent exists, moves are made above and
  steps at the maximal depth, no existing move is repeated, no countered claim is stepped on, the root is not defended, no pre-state is poisoned, no step fails, the
  challenger never counters itself), unless it is a move against a claim that the contract has resolved as countered; for such a move
  it reports the rule about countered claims and no other.\<close>

theorem solver_obeys_rules:
  assumes "solver_setting keccak s ct cs D" "own_claims_played keccak s cs D"
    "CalculateNextActions keccak s (NewGameState keccak cs D) = Inr (actions, err)"
    "a \<in> set actions" "aType a \<noteq> ActionTypeChallengeL2BlockNumber"
  shows "checkRules keccak (NewGameState keccak cs D) a ct =
    Some (Inr (if aType a = ActionTypeMove \<and> CounteredBy (ParentClaim a) \<noteq> zeroAddress then [RuleViolated ''step on countered claim''] else []))"
proof -
  have "\<exists>a \<in> set actions. aType a \<noteq> ActionTypeChallengeL2BlockNumber" using assms(4,5) by blast
  with run_play [OF assms(1,3)] obtain n where n: "play_ok (the_play keccak s ct cs D n)"
    "set actions = {a. \<exists>j < n. \<exists>tr. claim_action keccak s (NewGameState keccak cs D) (cs ! j)
      (tracker_at (the_play keccak s ct cs D 0) j) = Inr (Some a, tr)}" by auto
  let ?P = "the_play keccak s ct cs D n"
  have P0: "tracker_at (the_play keccak s ct cs D 0) j = tracker_at ?P j" for j
    using tracker_at_done(1) [where P = ?P and n = 0 and i = j] by simp
  from assms(4) n(2) obtain j tr where j: "j < n"
    "claim_action keccak s (NewGameState keccak cs D) (cs ! j) (tracker_at ?P j) = Inr (Some a, tr)" unfolding P0 by auto
  have "Claimant (cs ! j) \<noteq> challengerAddr \<or> is_honest ?P j"
    using own_claim_honest [OF assms(1,2) n(1) j(1)] by blast
  then show ?thesis using action_rules [OF n(1), of j a tr] j by (simp add: pGame_def countered_report_def)
qed

text \<open>A small game: the root is wrong, the challenger has attacked it, its claim was attacked at the maximal depth, and
  two others attacked the root with wrong values, the second of which has been resolved as countered by an attack on it. The solver steps on the two leaves and attacks
  the two wrong claims.\<close>

definition toy_value :: "int \<Rightarrow> bytes" where "toy_value t = [0, of_int t]"

definition toy_provider :: "unit TraceProvider" where
  "toy_provider = \<lparr>tpAbsolutePreStateCommitment = Inr [],
     tpGet = (\<lambda>p. rbind (TraceIndex p 2) (\<lambda>t. Inr (toy_value t))),
     tpGetStepData = (\<lambda>p. rbind (TraceIndex p 2) (\<lambda>t. Inr (toy_value (t - 1), [], None))),
     tpGetL2BlockNumberChallenge = Inl ErrL2BlockNumberValid\<rparr>"

definition toy_solver :: "unit claimSolver" where
  "toy_solver = newClaimSolver 2 (NewSimpleTraceAccessor toy_provider)"

definition toy_claims :: "Claim list" where
  "toy_claims =
    [(move_claim [1, 9] RootPosition 5),
     (move_claim [0, 1] (Attack RootPosition) 0)\<lparr>ContractIndex := 1, Claimant := challengerAddr\<rparr>,
     (move_claim [7, 7] (Attack (Attack RootPosition)) 1)\<lparr>ContractIndex := 2\<rparr>,
     (move_claim [8, 8] (Attack RootPosition) 0)\<lparr>ContractIndex := 3\<rparr>,
     (move_claim [9, 9] (Attack RootPosition) 0)\<lparr>ContractIndex := 4, CounteredBy := replicate 20 6\<rparr>,
     (move_claim [5, 5] (Attack (Attack RootPosition)) 4)\<lparr>ContractIndex := 5, Claimant := replicate 20 6\<rparr>]"

lemma toy_trace: "correct_trace (\<lambda>x. x) toy_provider 2"
  unfolding correct_trace_def by (intro exI [of _ toy_value]) (auto simp: toy_provider_def rbind_Inr_iff)

lemma toy_shape: "game_shape toy_claims 2" by code_simp

lemma compared_claims_code:
  "compared_claims ct cs = set (cs @
     concat (map (\<lambda>i. concat (map (\<lambda>q. case tpGet ct q of Inl _ \<Rightarrow> [] | Inr v \<Rightarrow> [move_claim v q (int i)])
       [Attack (cPosition (cs ! i)), Defend (cPosition (cs ! i))])) [0..<length cs]) @
     map (\<lambda>i. move_claim zeroHash (cPosition (cs ! i)) (int i)) [0..<length cs])"
proof -
  have m: "{move_claim v q (int i) | v q i. i < length cs \<and> q \<in> Q i \<and> tpGet ct q = Inr v} =
      (\<Union>i \<in> {0..<length cs}. \<Union>q \<in> Q i. set (case tpGet ct q of Inl _ \<Rightarrow> [] | Inr v \<Rightarrow> [move_claim v q (int i)]))" for Q
    by (force split: sum.splits)
  have z: "{f i | i. i < length cs} = f ` {0..<length cs}" for f :: "nat \<Rightarrow> Claim" by auto
  show ?thesis unfolding compared_claims_def m z by (simp add: image_image Un_assoc)
qed

lemma no_id_collision_code:
  "no_id_collision keccak ct cs \<longleftrightarrow> (let xs = cs @
     concat (map (\<lambda>i. concat (map (\<lambda>q. case tpGet ct q of Inl _ \<Rightarrow> [] | Inr v \<Rightarrow> [move_claim v q (int i)])
       [Attack (cPosition (cs ! i)), Defend (cPosition (cs ! i))])) [0..<length cs]) @
     map (\<lambda>i. move_claim zeroHash (cPosition (cs ! i)) (int i)) [0..<length cs]
   in list_all (\<lambda>c. list_all (\<lambda>c'. Claim_ID keccak c = Claim_ID keccak c' \<longrightarrow> claim_key c = claim_key c') xs) xs)"
  unfolding no_id_collision_def compared_claims_code list_all_iff Let_def by (rule refl)

lemma toy_setting: "solver_setting (\<lambda>x. x) toy_solver toy_provider toy_claims 2"
proof -
  have "no_id_collision (\<lambda>x. x) toy_provider toy_claims" unfolding no_id_collision_code by code_simp
  then show ?thesis
    using toy_trace toy_shape simple_accessor_faithful [of toy_provider]
    by (simp add: solver_setting_def toy_solver_def newClaimSolver_def)
qed

definition toy_actions :: "unit Action list" where
  "toy_actions = (case CalculateNextActions (\<lambda>x. x) toy_solver (NewGameState (\<lambda>x. x) toy_claims 2) of
     Inl _ \<Rightarrow> [] | Inr (actions, _) \<Rightarrow> actions)"

lemma toy_run: "CalculateNextActions (\<lambda>x. x) toy_solver (NewGameState (\<lambda>x. x) toy_claims 2) = Inr (toy_actions, None)"
  by code_simp

lemma toy_actions_kinds:
  "map aType toy_actions = [ActionTypeStep, ActionTypeMove, ActionTypeMove, ActionTypeStep]"
  "map (\<lambda>a. CounteredBy (ParentClaim a) = zeroAddress) toy_actions = [True, True, False, True]"
  by code_simp+

theorem solver_obeys_rules_witness:
  "map aType toy_actions = [ActionTypeStep, ActionTypeMove, ActionTypeMove, ActionTypeStep] \<and>
   map (\<lambda>a. checkRules (\<lambda>x. x) (NewGameState (\<lambda>x. x) toy_claims 2) a toy_provider) toy_actions =
     [Some (Inr []), Some (Inr []), Some (Inr [RuleViolated ''step on countered claim'']), Some (Inr [])]"
proof -
  have own: "own_claims_played (\<lambda>x. x) toy_solver toy_claims 2" by code_simp
  obtain a b c d where l: "toy_actions = [a, b, c, d]" using toy_actions_kinds(1) by (auto simp: map_eq_Cons_conv)
  have k: "aType a = ActionTypeStep" "aType b = ActionTypeMove" "aType c = ActionTypeMove" "aType d = ActionTypeStep"
    "CounteredBy (ParentClaim b) = zeroAddress" "CounteredBy (ParentClaim c) \<noteq> zeroAddress"
    using toy_actions_kinds unfolding l by simp_all
  note r = solver_obeys_rules [OF toy_setting own toy_run]
  have "a \<in> set toy_actions" "b \<in> set toy_actions" "c \<in> set toy_actions" "d \<in> set toy_actions" unfolding l by simp_all
  then show ?thesis using r [of a] r [of b] r [of c] r [of d] k unfolding l by simp
qed

section \<open>Claim identifiers\<close>

lemma nat_Bytes_snoc: "0 < n \<or> 0 < b \<Longrightarrow> nat_Bytes (256 * n + unat (b :: byte)) = nat_Bytes n @ [b]"
  by (subst nat_Bytes.simps) (use unsigned_less [of b, where ?'a = nat] in \<open>auto simp: word_less_nat_alt\<close>)

lemma big_Bytes_snoc: "0 \<le> x \<Longrightarrow> 0 < x \<or> 0 < b \<Longrightarrow> big_Bytes (256 * x + uint (b :: byte)) = big_Bytes x @ [b]"
  using nat_Bytes_snoc [of "nat x" b] by (simp add: big_Bytes_def nat_add_distrib nat_mult_distrib)

lemma big_Bytes_byte: "0 < b \<Longrightarrow> big_Bytes (uint (b :: byte)) = [b]"
  using big_Bytes_snoc [of 0 b] by (simp add: big_Bytes_def nat_Bytes.simps)

text \<open>C39: \<^verbatim>\<open>Claim.ID\<close> is not injective, whatever the hash function: it concatenates the position and the
  parent index in their shortest form around the value, so a claim high in the tree whose parent index takes two bytes has
  the identifier of a claim eight levels below whose parent index takes one. The solver's duplicate and honesty checks compare
  these identifiers.\<close>

theorem claim_id_ambiguous:
  assumes "0 < ToGIndex p" "ToGIndex q = 256 * ToGIndex p + uint (b :: byte)" "0 < (r :: byte)" "0 < (t :: byte)"
  shows "p \<noteq> q \<and> length (b # w) = length (w @ [r]) \<and>
    Claim_ID keccak (move_claim (b # w) p (256 * uint r + uint t)) = Claim_ID keccak (move_claim (w @ [r]) q (uint t))"
proof -
  have "0 \<le> uint b" by simp
  then have "ToGIndex p \<noteq> ToGIndex q" using assms(1,2) by linarith
  then have "p \<noteq> q" by auto
  moreover have "0 < uint r" using assms(3) by (simp add: word_less_def)
  ultimately show ?thesis
    using assms(1,3,4) by (simp add: Claim_ID_def move_claim_def assms(2) big_Bytes_snoc big_Bytes_byte)
qed

theorem claim_id_ambiguous_witness:
  "Claim_ID (\<lambda>x. x) (move_claim (4 # replicate 31 9) (NewPosition 7 0) 258) =
   Claim_ID (\<lambda>x. x) (move_claim (replicate 31 9 @ [1]) (NewPosition 15 4) 2)"
  using claim_id_ambiguous [of "NewPosition 7 0" "NewPosition 15 4" 4 1 2 "replicate 31 9" "\<lambda>x. x"]
  by (simp add: ToGIndex_eq position_ok_def NewPosition_def)

end
