(* ===== verification/MonResolve.thy ===== *)
theory MonResolve
  imports GameTypes
begin

text \<open>
  The monitor of dispute games forecasts the winner of a game
  (\<^verbatim>\<open>op-dispute-mon/mon/{resolve,forecast}.go\<close>, \<^verbatim>\<open>transform/tree.go\<close>, \<^verbatim>\<open>types/types.go\<close>): the
  claims of the game are linked to their children and resolved from the last to the first. The objects of the tree are
  identified by their index, a child pointer is the index of the child.
\<close>

section \<open>Game data\<close>

datatype mon_panic = PanicNilDereference | PanicIndexRange

type_synonym GameStatus = byte

definition GameStatusInProgress :: GameStatus where "GameStatusInProgress = 0"
definition GameStatusChallengerWon :: GameStatus where "GameStatusChallengerWon = 1"
definition GameStatusDefenderWon :: GameStatus where "GameStatusDefenderWon = 2"

lemmas GameStatus_defs = GameStatusInProgress_def GameStatusChallengerWon_def GameStatusDefenderWon_def

record EnrichedClaim =
  ecClaim :: Claim
  Resolved :: bool

record WithdrawalRequest =
  wrAmount :: int
  wrTimestamp :: int

text \<open>The fields of \<^verbatim>\<open>EnrichedGameData\<close> the monitors read. The maps are keyed by address; \<open>Credits\<close> and
  \<open>WithdrawalRequests\<close> are iterated over, so they are association lists with distinct keys.\<close>

record EnrichedGameData =
  GameTypeOf :: uint32
  gTimestamp :: uint64
  Proxy :: bytes
  LastUpdateTime :: int
  L1HeadNum :: uint64
  L2BlockNumber :: uint64
  RootClaim :: bytes
  Status :: GameStatus
  MaxClockDuration :: uint64
  BlockNumberChallenged :: bool
  BlockNumberChallenger :: bytes
  Claims :: "EnrichedClaim list"
  AgreeWithClaim :: bool
  ExpectedRootClaim :: bytes
  Recipients :: "bytes list"
  Credits :: "(bytes \<times> int) list"
  BondDistributionMode :: byte
  WithdrawalRequests :: "(bytes \<times> WithdrawalRequest) list"
  WETHContract :: bytes
  WETHDelay :: "64 word"
  ETHCollateral :: int

section \<open>The tree of claims\<close>

record BidirectionalClaim =
  bcClaim :: Claim
  Children :: "nat list"

type_synonym BidirectionalTree = "BidirectionalClaim list"

text \<open>A child whose parent is not in the map is a dereference of a nil pointer.\<close>

definition tree_add :: "(int \<Rightarrow> nat option) \<times> BidirectionalTree \<Rightarrow> EnrichedClaim \<Rightarrow> mon_panic + (int \<Rightarrow> nat option) \<times> BidirectionalTree" where
  "tree_add st c =
    (let (claimMap, res) = st;
         n = length res;
         claimMap = claimMap(ContractIndex (ecClaim c) \<mapsto> n);
         res = res @ [\<lparr>bcClaim = ecClaim c, Children = []\<rparr>]
     in if \<not> IsRoot (ecClaim c) then
          (case claimMap (ParentContractIndex (ecClaim c)) of
             None \<Rightarrow> Inl PanicNilDereference
           | Some j \<Rightarrow> Inr (claimMap, res[j := (res ! j)\<lparr>Children := Children (res ! j) @ [n]\<rparr>]))
        else Inr (claimMap, res))"

fun tree_loop :: "EnrichedClaim list \<Rightarrow> (int \<Rightarrow> nat option) \<times> BidirectionalTree \<Rightarrow> mon_panic + BidirectionalTree" where
  "tree_loop [] st = Inr (snd st)"
| "tree_loop (c # cs) st = rbind (tree_add st c) (tree_loop cs)"

definition CreateBidirectionalTree :: "EnrichedClaim list \<Rightarrow> mon_panic + BidirectionalTree" where
  "CreateBidirectionalTree cs = tree_loop cs (Map.empty, [])"

section \<open>Resolution\<close>

fun children_loop :: "BidirectionalTree \<Rightarrow> nat list \<Rightarrow> bytes \<Rightarrow> int option \<Rightarrow> bytes" where
  "children_loop tree [] counterClaimant leftmostCounter = counterClaimant"
| "children_loop tree (c # cs) counterClaimant leftmostCounter =
    (let child = bcClaim (tree ! c) in
     if CounteredBy child \<noteq> zeroAddress then children_loop tree cs counterClaimant leftmostCounter
     else if leftmostCounter = None \<or> IndexAtDepth (cPosition child) < the leftmostCounter
     then children_loop tree cs (Claimant child) (Some (IndexAtDepth (cPosition child)))
     else children_loop tree cs counterClaimant leftmostCounter)"

definition resolve_claim :: "BidirectionalTree \<Rightarrow> nat \<Rightarrow> BidirectionalTree" where
  "resolve_claim tree i =
    (let c = tree ! i;
         counterClaimant = children_loop tree (Children c) (CounteredBy (bcClaim c)) None
     in tree[i := c\<lparr>bcClaim := (bcClaim c)\<lparr>CounteredBy := counterClaimant\<rparr>\<rparr>])"

fun resolve_loop :: "nat \<Rightarrow> BidirectionalTree \<Rightarrow> BidirectionalTree" where
  "resolve_loop 0 tree = tree"
| "resolve_loop (Suc i) tree = resolve_loop i (resolve_claim tree i)"

definition Resolve :: "BidirectionalTree \<Rightarrow> GameStatus" where
  "Resolve tree =
    (let tree = resolve_loop (length tree) tree
     in if length tree = 0 \<or> CounteredBy (bcClaim (tree ! 0)) = zeroAddress
        then GameStatusDefenderWon else GameStatusChallengerWon)"

section \<open>Forecast\<close>

record forecastBatch =
  AgreeDefenderAhead :: nat
  DisagreeDefenderAhead :: nat
  AgreeChallengerAhead :: nat
  DisagreeChallengerAhead :: nat
  AgreeDefenderWins :: nat
  DisagreeDefenderWins :: nat
  AgreeChallengerWins :: nat
  DisagreeChallengerWins :: nat
  LatestValidProposalL2Block :: uint64
  LatestInvalidProposal :: uint64
  LatestValidProposal :: uint64

definition zeroBatch :: forecastBatch where
  "zeroBatch = \<lparr>AgreeDefenderAhead = 0, DisagreeDefenderAhead = 0, AgreeChallengerAhead = 0, DisagreeChallengerAhead = 0,
     AgreeDefenderWins = 0, DisagreeDefenderWins = 0, AgreeChallengerWins = 0, DisagreeChallengerWins = 0,
     LatestValidProposalL2Block = 0, LatestInvalidProposal = 0, LatestValidProposal = 0\<rparr>"

text \<open>The latest proposals.\<close>

definition update_latest :: "EnrichedGameData \<Rightarrow> forecastBatch \<Rightarrow> forecastBatch" where
  "update_latest game metrics =
    (if \<not> AgreeWithClaim game then
       (if LatestInvalidProposal metrics < gTimestamp game
        then metrics\<lparr>LatestInvalidProposal := gTimestamp game\<rparr> else metrics)
     else
       (let metrics = (if LatestValidProposal metrics < gTimestamp game
                       then metrics\<lparr>LatestValidProposal := gTimestamp game\<rparr> else metrics)
        in if LatestValidProposalL2Block metrics < L2BlockNumber game
           then metrics\<lparr>LatestValidProposalL2Block := L2BlockNumber game\<rparr> else metrics))"

definition count_complete :: "EnrichedGameData \<Rightarrow> forecastBatch \<Rightarrow> forecastBatch" where
  "count_complete game metrics =
    (if Status game = GameStatusDefenderWon then
       (if AgreeWithClaim game then metrics\<lparr>AgreeDefenderWins := AgreeDefenderWins metrics + 1\<rparr>
        else metrics\<lparr>DisagreeDefenderWins := DisagreeDefenderWins metrics + 1\<rparr>)
     else if Status game = GameStatusChallengerWon then
       (if AgreeWithClaim game then metrics\<lparr>AgreeChallengerWins := AgreeChallengerWins metrics + 1\<rparr>
        else metrics\<lparr>DisagreeChallengerWins := DisagreeChallengerWins metrics + 1\<rparr>)
     else metrics)"

definition forecast_status :: "EnrichedGameData \<Rightarrow> mon_panic + GameStatus" where
  "forecast_status game =
    (if BlockNumberChallenged game then Inr GameStatusChallengerWon
     else rbind (CreateBidirectionalTree (Claims game)) (\<lambda>tree. Inr (Resolve tree)))"

definition count_ahead :: "EnrichedGameData \<Rightarrow> GameStatus \<Rightarrow> forecastBatch \<Rightarrow> forecastBatch" where
  "count_ahead game forecastStatus metrics =
    (if AgreeWithClaim game then
       (if forecastStatus = GameStatusChallengerWon
        then metrics\<lparr>AgreeChallengerAhead := AgreeChallengerAhead metrics + 1\<rparr>
        else metrics\<lparr>AgreeDefenderAhead := AgreeDefenderAhead metrics + 1\<rparr>)
     else
       (if forecastStatus = GameStatusDefenderWon
        then metrics\<lparr>DisagreeDefenderAhead := DisagreeDefenderAhead metrics + 1\<rparr>
        else metrics\<lparr>DisagreeChallengerAhead := DisagreeChallengerAhead metrics + 1\<rparr>))"

definition forecastGame :: "EnrichedGameData \<Rightarrow> forecastBatch \<Rightarrow> mon_panic + forecastBatch" where
  "forecastGame game metrics =
    (let metrics = update_latest game metrics in
     if Status game \<noteq> GameStatusInProgress then Inr (count_complete game metrics)
     else rbind (forecast_status game) (\<lambda>forecastStatus. Inr (count_ahead game forecastStatus metrics)))"

fun forecast_loop :: "EnrichedGameData list \<Rightarrow> forecastBatch \<Rightarrow> mon_panic + forecastBatch" where
  "forecast_loop [] batch = Inr batch"
| "forecast_loop (g # gs) batch = rbind (forecastGame g batch) (forecast_loop gs)"

definition Forecast :: "EnrichedGameData list \<Rightarrow> mon_panic + forecastBatch" where
  "Forecast games = forecast_loop games zeroBatch"


section \<open>The tree mirrors the parent links\<close>

definition child_indices :: "Claim list \<Rightarrow> nat \<Rightarrow> nat \<Rightarrow> nat list" where
  "child_indices cs n i = filter (\<lambda>j. \<not> IsRoot (cs ! j) \<and> ParentContractIndex (cs ! j) = int i) [0..<n]"

text \<open>The claims are numbered by position and every claim but the root has an earlier parent.\<close>

definition parents_ok :: "Claim list \<Rightarrow> bool" where
  "parents_ok cs \<longleftrightarrow> list_all (\<lambda>i. ContractIndex (cs ! i) = int i \<and>
     (\<not> IsRoot (cs ! i) \<longrightarrow> 0 \<le> ParentContractIndex (cs ! i) \<and> ParentContractIndex (cs ! i) < int i)) [0..<length cs]"

lemma parents_okD:
  assumes "parents_ok cs" "i < length cs"
  shows "ContractIndex (cs ! i) = int i"
    "\<not> IsRoot (cs ! i) \<Longrightarrow> 0 \<le> ParentContractIndex (cs ! i) \<and> ParentContractIndex (cs ! i) < int i"
  using assms by (auto simp: parents_ok_def list_all_iff)

definition linked :: "Claim list \<Rightarrow> nat \<Rightarrow> BidirectionalTree" where
  "linked cs n = map (\<lambda>i. \<lparr>bcClaim = cs ! i, Children = child_indices cs n i\<rparr>) [0..<n]"

lemma linked_sel [simp]: "length (linked cs n) = n"
  "i < n \<Longrightarrow> linked cs n ! i = \<lparr>bcClaim = cs ! i, Children = child_indices cs n i\<rparr>"
  by (simp_all add: linked_def)

lemma child_indices_Suc: "child_indices cs (Suc n) i = child_indices cs n i @
    (if \<not> IsRoot (cs ! n) \<and> ParentContractIndex (cs ! n) = int i then [n] else [])"
  by (simp add: child_indices_def)

lemma child_indices_new:
  assumes "parents_ok cs" "n < length cs" "m \<le> Suc n"
  shows "child_indices cs m n = []"
proof -
  have "ParentContractIndex (cs ! j) \<noteq> int n" if "j < m" "\<not> IsRoot (cs ! j)" for j
  proof -
    have "ParentContractIndex (cs ! j) < int j" using parents_okD(2) [OF assms(1), of j] that assms(2,3) by simp
    then show ?thesis using that assms(3) by simp
  qed
  then show ?thesis by (auto simp: child_indices_def filter_empty_conv)
qed

lemma tree_add_linked:
  assumes "parents_ok cs" "n < length cs" "ecClaim c = cs ! n"
  shows "tree_add (\<lambda>k. if 0 \<le> k \<and> k < int n then Some (nat k) else None, linked cs n) c =
    Inr (\<lambda>k. if 0 \<le> k \<and> k < int (Suc n) then Some (nat k) else None, linked cs (Suc n))"
proof -
  note d = parents_okD [OF assms(1,2)]
  have m: "(\<lambda>k. if 0 \<le> k \<and> k < int n then Some (nat k) else None)(int n \<mapsto> n) =
      (\<lambda>k. if 0 \<le> k \<and> k < int (Suc n) then Some (nat k) else None)" by (auto simp: fun_eq_iff)
  have old: "child_indices cs (Suc n) i = child_indices cs n i" if "\<not> (\<not> IsRoot (cs ! n) \<and> ParentContractIndex (cs ! n) = int i)" for i
    using that by (simp add: child_indices_Suc)
  show ?thesis
  proof (cases "IsRoot (cs ! n)")
    case True
    have "linked cs n @ [\<lparr>bcClaim = cs ! n, Children = []\<rparr>] = linked cs (Suc n)"
      by (rule nth_equalityI) (auto simp: nth_append old True less_Suc_eq child_indices_new [OF assms(1,2)])
    then show ?thesis using True by (simp add: tree_add_def Let_def assms(3) d(1) m)
  next
    case False
    define j where "j = nat (ParentContractIndex (cs ! n))"
    have j: "j < n" "ParentContractIndex (cs ! n) = int j" using d(2) [OF False] by (auto simp: j_def nat_less_iff)
    have "(linked cs n @ [\<lparr>bcClaim = cs ! n, Children = []\<rparr>])[j := (linked cs n ! j)\<lparr>Children := Children (linked cs n ! j) @ [n]\<rparr>] =
        linked cs (Suc n)"
      by (rule nth_equalityI)
        (use j False in \<open>auto simp: nth_append nth_list_update child_indices_Suc less_Suc_eq child_indices_new [OF assms(1,2)]\<close>)
    then show ?thesis using False j by (simp add: tree_add_def Let_def assms(3) d(1) m nth_append)
  qed
qed

lemma tree_loop_linked:
  assumes "parents_ok (map ecClaim es)" "n \<le> length es"
  shows "tree_loop (drop n es) (\<lambda>k. if 0 \<le> k \<and> k < int n then Some (nat k) else None, linked (map ecClaim es) n) =
    Inr (linked (map ecClaim es) (length es))"
  using assms(2)
proof (induction "length es - n" arbitrary: n)
  case 0
  then show ?case by simp
next
  case (Suc d)
  then have n: "n < length es" by simp
  then have "drop n es = es ! n # drop (Suc n) es" by (simp add: Cons_nth_drop_Suc)
  then show ?case using tree_add_linked [OF assms(1), of n "es ! n"] Suc.hyps(1) [of "Suc n"] Suc.hyps(2) n by simp
qed

lemma CreateBidirectionalTree_linked:
  assumes "parents_ok (map ecClaim es)"
  shows "CreateBidirectionalTree es = Inr (linked (map ecClaim es) (length es))"
proof -
  have "(\<lambda>k :: int. if 0 \<le> k \<and> k < int 0 then Some (nat k) else None) = Map.empty" by auto
  then show ?thesis using tree_loop_linked [OF assms, of 0] by (simp add: CreateBidirectionalTree_def linked_def)
qed

section \<open>What resolution computes\<close>

text \<open>The children that are not countered, and the first of the leftmost of them.\<close>

definition uncountered :: "BidirectionalTree \<Rightarrow> nat list \<Rightarrow> nat list" where
  "uncountered tree cs = filter (\<lambda>c. CounteredBy (bcClaim (tree ! c)) = zeroAddress) cs"

definition leftmost :: "(nat \<Rightarrow> Claim) \<Rightarrow> nat list \<Rightarrow> nat" where
  "leftmost f cs = hd (sort_key (\<lambda>c. IndexAtDepth (cPosition (f c))) cs)"

lemma insort_key_cong: "(\<And>y. y \<in> insert x (set xs) \<Longrightarrow> f y = g y) \<Longrightarrow> insort_key f x xs = insort_key g x xs"
  by (induction xs) auto

lemma sort_key_cong: "(\<And>y. y \<in> set xs \<Longrightarrow> f y = g y) \<Longrightarrow> sort_key f xs = sort_key g xs"
proof (induction xs)
  case (Cons x xs)
  then show ?case using insort_key_cong [of x "sort_key g xs" f g] by simp
qed simp

lemma sort_key_Nil_iff [simp]: "sort_key k xs = [] \<longleftrightarrow> xs = []"
  by (metis length_0_conv length_sort)

lemma leftmost_in: "cs \<noteq> [] \<Longrightarrow> leftmost f cs \<in> set cs"
  using hd_in_set [of "sort_key (\<lambda>c. IndexAtDepth (cPosition (f c))) cs"] by (simp add: leftmost_def)

lemma leftmost_Cons:
  "leftmost f (c # cs) = (if cs = [] \<or> IndexAtDepth (cPosition (f c)) \<le> IndexAtDepth (cPosition (f (leftmost f cs))) then c else leftmost f cs)"
proof -
  have "hd (insort_key k c (sort_key k cs)) = (if cs = [] \<or> k c \<le> k (hd (sort_key k cs)) then c else hd (sort_key k cs))"
    for k :: "nat \<Rightarrow> int"
  proof (cases "sort_key k cs")
    case Nil
    then show ?thesis by simp
  next
    case (Cons x xs)
    moreover have "cs \<noteq> []" using Cons by auto
    ultimately show ?thesis by simp
  qed
  then show ?thesis by (simp add: leftmost_def)
qed

abbreviation tclaim :: "BidirectionalTree \<Rightarrow> nat \<Rightarrow> Claim" where
  "tclaim tree \<equiv> \<lambda>c. bcClaim (tree ! c)"

lemma children_loop_leftmost:
  "children_loop tree cs cc lm =
    (case lm of
       None \<Rightarrow> if uncountered tree cs = [] then cc else Claimant (tclaim tree (leftmost (tclaim tree) (uncountered tree cs)))
     | Some l \<Rightarrow> if uncountered tree cs = [] \<or>
                    l \<le> IndexAtDepth (cPosition (tclaim tree (leftmost (tclaim tree) (uncountered tree cs)))) then cc
                else Claimant (tclaim tree (leftmost (tclaim tree) (uncountered tree cs))))"
proof (induction cs arbitrary: cc lm)
  case Nil
  then show ?case by (simp add: uncountered_def split: option.split)
next
  case (Cons c cs)
  let ?c = "bcClaim (tree ! c)"
  show ?case
  proof (cases "CounteredBy ?c = zeroAddress")
    case False
    then have "uncountered tree (c # cs) = uncountered tree cs" by (simp add: uncountered_def)
    then show ?thesis using False Cons.IH by (simp only: children_loop.simps Let_def if_True not_False_eq_True)
  next
    case True
    then have "uncountered tree (c # cs) = c # uncountered tree cs" by (simp add: uncountered_def)
    then show ?thesis using True Cons.IH by (auto simp: Let_def leftmost_Cons split: option.split)
  qed
qed

lemma resolve_claim_sel [simp]:
  "length (resolve_claim tree i) = length tree"
  "j \<noteq> i \<Longrightarrow> resolve_claim tree i ! j = tree ! j"
  "i < length tree \<Longrightarrow> resolve_claim tree i ! i = (tree ! i)\<lparr>bcClaim := (bcClaim (tree ! i))\<lparr>CounteredBy :=
     children_loop tree (Children (tree ! i)) (CounteredBy (bcClaim (tree ! i))) None\<rparr>\<rparr>"
  by (simp_all add: resolve_claim_def Let_def)

lemma resolve_loop_sel [simp]:
  "length (resolve_loop n tree) = length tree"
  "n \<le> j \<Longrightarrow> resolve_loop n tree ! j = tree ! j"
  by (induction n arbitrary: tree) simp_all

lemma resolve_loop_keeps:
  assumes "n \<le> length tree"
  shows "Children (resolve_loop n tree ! j) = Children (tree ! j) \<and>
    (\<exists>c. bcClaim (resolve_loop n tree ! j) = (bcClaim (tree ! j))\<lparr>CounteredBy := c\<rparr>)"
  using assms
proof (induction n arbitrary: tree)
  case 0
  have "bcClaim (tree ! j) = (bcClaim (tree ! j))\<lparr>CounteredBy := CounteredBy (bcClaim (tree ! j))\<rparr>" by simp
  then show ?case by (auto intro: exI [of _ "CounteredBy (bcClaim (tree ! j))"])
next
  case (Suc n)
  then have "n \<le> length (resolve_claim tree n)" by simp
  from Suc.IH [OF this] show ?case using Suc.prems by (cases "j = n") auto
qed

text \<open>Every child comes after its parent, so it has its final value when the parent is resolved.\<close>

definition children_later :: "BidirectionalTree \<Rightarrow> bool" where
  "children_later tree \<longleftrightarrow> (\<forall>i < length tree. \<forall>c \<in> set (Children (tree ! i)). i < c)"

lemma resolve_loop_correct:
  assumes "children_later tree" "n \<le> length tree" "i < n"
  shows "CounteredBy (tclaim (resolve_loop n tree) i) =
     (let us = uncountered (resolve_loop n tree) (Children (tree ! i))
      in if us = [] then CounteredBy (tclaim tree i) else Claimant (tclaim tree (leftmost (tclaim tree) us)))"
  using assms
proof (induction n arbitrary: tree)
  case (Suc n)
  let ?t = "resolve_claim tree n"
  have later: "children_later ?t"
    using Suc.prems(1,2) unfolding children_later_def by (auto simp: nth_list_update resolve_claim_def Let_def split: if_splits)
  have tc: "cPosition (tclaim ?t c) = cPosition (tclaim tree c)" "Claimant (tclaim ?t c) = Claimant (tclaim tree c)" for c
    using Suc.prems(2) by (cases "c = n"; simp)+
  have lm: "leftmost (tclaim ?t) us = leftmost (tclaim tree) us" for us by (simp only: leftmost_def tc)
  show ?case
  proof (cases "i = n")
    case False
    then have eq: "?t ! i = tree ! i" and i: "i < n" "n \<le> length ?t" using Suc.prems(2,3) by simp_all
    show ?thesis using Suc.IH [OF later i(2,1)] by (simp only: resolve_loop.simps eq lm tc)
  next
    case True
    have "uncountered (resolve_loop n ?t) (Children (tree ! n)) = uncountered tree (Children (tree ! n))"
      unfolding uncountered_def
    proof (rule filter_cong)
      fix c assume "c \<in> set (Children (tree ! n))"
      then have "n < c" using Suc.prems(1,2) by (auto simp: children_later_def)
      then show "CounteredBy (tclaim (resolve_loop n ?t) c) = zeroAddress \<longleftrightarrow> CounteredBy (tclaim tree c) = zeroAddress" by simp
    qed simp
    then show ?thesis using True Suc.prems(2) by (simp add: children_loop_leftmost Let_def)
  qed
qed simp

text \<open>The reference: who counters a claim, computed directly from the parent links.\<close>

function counter_of :: "Claim list \<Rightarrow> nat \<Rightarrow> bytes" where
  "counter_of cs i =
    (let us = filter (\<lambda>j. ParentContractIndex (cs ! j) = int i \<and> \<not> IsRoot (cs ! j) \<and> counter_of cs j = zeroAddress)
                [Suc i..<length cs]
     in if us = [] then CounteredBy (cs ! i) else Claimant (cs ! leftmost (nth cs) us))"
  by pat_completeness auto
termination by (relation "measure (\<lambda>(cs, i). length cs - i)") auto

declare counter_of.simps [simp del]

lemma child_indices_later:
  assumes "parents_ok cs" "j \<in> set (child_indices cs (length cs) i)"
  shows "i < j" "j < length cs"
  using assms(2) parents_okD(2) [OF assms(1), of j] by (auto simp: child_indices_def)

lemma child_indices_from:
  assumes "parents_ok cs" "i < length cs"
  shows "child_indices cs (length cs) i =
    filter (\<lambda>j. ParentContractIndex (cs ! j) = int i \<and> \<not> IsRoot (cs ! j)) [Suc i..<length cs]"
proof -
  have "[0..<length cs] = [0..<Suc i] @ [Suc i..<length cs]" 
    using upt_add_eq_append [of 0 "Suc i" "length cs - Suc i"] assms(2)
    by (simp only: le_add_diff_inverse Suc_leI le0)
  moreover have "filter (\<lambda>j. \<not> IsRoot (cs ! j) \<and> ParentContractIndex (cs ! j) = int i) [0..<Suc i] = []"
    using child_indices_new [OF assms, of "Suc i"] by (simp add: child_indices_def)
  ultimately show ?thesis by (simp add: child_indices_def conj_commute del: upt_Suc)
qed

lemma resolve_counter_of:
  assumes "parents_ok cs" "i < length cs"
  shows "CounteredBy (tclaim (resolve_loop (length cs) (linked cs (length cs))) i) = counter_of cs i"
  using assms(2)
proof (induction "length cs - i" arbitrary: i rule: less_induct)
  case less
  let ?t = "linked cs (length cs)" and ?n = "length cs"
  let ?us = "uncountered (resolve_loop ?n ?t) (child_indices cs ?n i)"
  have later: "children_later ?t" by (auto simp: children_later_def child_indices_later(1) [OF assms(1)])
  have us: "?us = filter (\<lambda>j. ParentContractIndex (cs ! j) = int i \<and> \<not> IsRoot (cs ! j) \<and> counter_of cs j = zeroAddress) [Suc i..<?n]"
    unfolding uncountered_def child_indices_from [OF assms(1) less.prems] filter_filter
    by (rule filter_cong) (use less.hyps in auto)
  have lt: "j < ?n" if "j \<in> set ?us" for j using that unfolding us by simp
  have "leftmost (tclaim ?t) ?us = leftmost (nth cs) ?us"
    unfolding leftmost_def by (rule arg_cong [where f = hd], rule sort_key_cong) (use lt in simp)
  moreover have "?us \<noteq> [] \<Longrightarrow> tclaim ?t (leftmost (nth cs) ?us) = cs ! leftmost (nth cs) ?us"
    using lt leftmost_in [of ?us] by simp
  ultimately show ?case
    unfolding counter_of.simps [of cs i] us [symmetric]
    using resolve_loop_correct [OF later _ less.prems] less.prems by (simp add: Let_def)
qed

lemma Resolve_reference_aux:
  assumes "parents_ok (map ecClaim es)"
  shows "rbind (CreateBidirectionalTree es) (\<lambda>tree. Inr (Resolve tree)) =
    Inr (if es = [] \<or> counter_of (map ecClaim es) 0 = zeroAddress then GameStatusDefenderWon else GameStatusChallengerWon)"
proof (cases "es = []")
  case True
  then show ?thesis by (simp add: CreateBidirectionalTree_def Resolve_def)
next
  case False
  let ?r = "resolve_loop (length es) (linked (map ecClaim es) (length es))"
  have "?r \<noteq> []" using False by (metis length_0_conv linked_sel(1) resolve_loop_sel(1))
  then show ?thesis
    using False resolve_counter_of [OF assms, of 0] by (simp add: CreateBidirectionalTree_linked [OF assms] Resolve_def Let_def)
qed

text \<open>C36: The forecast resolves a game as the rules of the game define it: a claim is countered by the claimant of the
  leftmost of its uncountered children (the first one posted among equals), or keeps the counter it has when all its
  children are countered, and the defender wins exactly when the root is not countered. Linking the claims into a tree never
  fails on claims whose parents come before them.\<close>

theorem Resolve_reference:
  assumes "parents_ok (map ecClaim es)"
  shows "rbind (CreateBidirectionalTree es) (\<lambda>tree. Inr (Resolve tree)) =
    Inr (if es = [] \<or> counter_of (map ecClaim es) 0 = zeroAddress then GameStatusDefenderWon else GameStatusChallengerWon)"
  by (rule Resolve_reference_aux [OF assms])

text \<open>A game with a root, two attacks on it and a counter to the first attack.\<close>

definition mon_claim :: "byte \<Rightarrow> Position \<Rightarrow> int \<Rightarrow> int \<Rightarrow> EnrichedClaim" where
  "mon_claim who pos parent idx =
    \<lparr>ecClaim = zeroClaim\<lparr>cPosition := pos, Claimant := replicate 20 who, ParentContractIndex := parent, ContractIndex := idx\<rparr>,
     Resolved = False\<rparr>"

definition mon_claims :: "EnrichedClaim list" where
  "mon_claims = [mon_claim 1 RootPosition 0 0, mon_claim 2 (Attack RootPosition) 0 1,
                 mon_claim 3 (Attack RootPosition) 0 2, mon_claim 1 (Attack (Attack RootPosition)) 1 3]"

theorem Resolve_reference_witness:
  "rbind (CreateBidirectionalTree mon_claims) (\<lambda>tree. Inr (Resolve tree)) = Inr GameStatusChallengerWon \<and>
   counter_of (map ecClaim mon_claims) 0 = replicate 20 3"
proof -
  have "parents_ok (map ecClaim mon_claims)" by code_simp
  from Resolve_reference [OF this] have r: "rbind (CreateBidirectionalTree mon_claims) (\<lambda>tree. Inr (Resolve tree)) =
    Inr (if mon_claims = [] \<or> counter_of (map ecClaim mon_claims) 0 = zeroAddress
         then GameStatusDefenderWon else GameStatusChallengerWon)" .
  have c: "counter_of (map ecClaim mon_claims) 0 = replicate 20 3" by code_simp
  have "mon_claims \<noteq> []" "replicate 20 (3 :: byte) \<noteq> zeroAddress" by (simp_all add: mon_claims_def zeroAddress_def)
  then show ?thesis unfolding r c by simp
qed

section \<open>Counting games\<close>

definition counted :: "forecastBatch \<Rightarrow> nat" where
  "counted b = AgreeDefenderAhead b + DisagreeDefenderAhead b + AgreeChallengerAhead b + DisagreeChallengerAhead b +
     AgreeDefenderWins b + DisagreeDefenderWins b + AgreeChallengerWins b + DisagreeChallengerWins b"

definition unexpected :: "forecastBatch \<Rightarrow> nat" where
  "unexpected b = DisagreeDefenderAhead b + AgreeChallengerAhead b + DisagreeDefenderWins b + AgreeChallengerWins b"

text \<open>What the forecast says of a game: its outcome and whether it contradicts the agreement with the root claim.\<close>

definition outcome :: "EnrichedGameData \<Rightarrow> GameStatus" where
  "outcome game =
    (if Status game \<noteq> GameStatusInProgress then Status game
     else if BlockNumberChallenged game \<or> (Claims game \<noteq> [] \<and> counter_of (map ecClaim (Claims game)) 0 \<noteq> zeroAddress)
     then GameStatusChallengerWon else GameStatusDefenderWon)"

definition well_formed_game :: "EnrichedGameData \<Rightarrow> bool" where
  "well_formed_game game \<longleftrightarrow> Status game \<in> {GameStatusInProgress, GameStatusChallengerWon, GameStatusDefenderWon} \<and>
     parents_ok (map ecClaim (Claims game))"

lemma update_latest_sel [simp]:
  "AgreeDefenderAhead (update_latest g b) = AgreeDefenderAhead b"
  "DisagreeDefenderAhead (update_latest g b) = DisagreeDefenderAhead b"
  "AgreeChallengerAhead (update_latest g b) = AgreeChallengerAhead b"
  "DisagreeChallengerAhead (update_latest g b) = DisagreeChallengerAhead b"
  "AgreeDefenderWins (update_latest g b) = AgreeDefenderWins b"
  "DisagreeDefenderWins (update_latest g b) = DisagreeDefenderWins b"
  "AgreeChallengerWins (update_latest g b) = AgreeChallengerWins b"
  "DisagreeChallengerWins (update_latest g b) = DisagreeChallengerWins b"
  by (simp_all add: update_latest_def Let_def)

lemma update_latest_max:
  "LatestInvalidProposal (update_latest g b) = (if AgreeWithClaim g then LatestInvalidProposal b else max (LatestInvalidProposal b) (gTimestamp g))"
  "LatestValidProposal (update_latest g b) = (if AgreeWithClaim g then max (LatestValidProposal b) (gTimestamp g) else LatestValidProposal b)"
  "LatestValidProposalL2Block (update_latest g b) =
     (if AgreeWithClaim g then max (LatestValidProposalL2Block b) (L2BlockNumber g) else LatestValidProposalL2Block b)"
  by (auto simp: update_latest_def Let_def max_def)

lemma forecastGame_counts:
  assumes "well_formed_game g"
  shows "\<exists>b'. forecastGame g b = Inr b' \<and> counted b' = Suc (counted b) \<and>
    unexpected b' = unexpected b + of_bool (outcome g = (if AgreeWithClaim g then GameStatusChallengerWon else GameStatusDefenderWon)) \<and>
    LatestInvalidProposal b' = LatestInvalidProposal (update_latest g b) \<and>
    LatestValidProposal b' = LatestValidProposal (update_latest g b) \<and>
    LatestValidProposalL2Block b' = LatestValidProposalL2Block (update_latest g b)"
proof (cases "Status g = GameStatusInProgress")
  case True
  let ?o = "outcome g"
  have p: "parents_ok (map ecClaim (Claims g))" using assms by (simp add: well_formed_game_def)
  have "length (Claims g) = 0 \<longleftrightarrow> Claims g = []" by simp
  then have "forecast_status g = Inr ?o"
    unfolding forecast_status_def using True Resolve_reference_aux [OF p] by (simp add: outcome_def)
  moreover have "?o \<in> {GameStatusChallengerWon, GameStatusDefenderWon}" using True by (simp add: outcome_def)
  ultimately show ?thesis
    using True by (auto simp: forecastGame_def Let_def count_ahead_def counted_def unexpected_def GameStatus_defs)
next
  case False
  then show ?thesis
    using assms by (auto simp: forecastGame_def Let_def count_complete_def counted_def unexpected_def well_formed_game_def outcome_def GameStatus_defs)
qed


definition surprising :: "EnrichedGameData \<Rightarrow> bool" where
  "surprising g \<longleftrightarrow> outcome g = (if AgreeWithClaim g then GameStatusChallengerWon else GameStatusDefenderWon)"

lemma forecast_loop_counts:
  assumes "list_all well_formed_game gs"
  shows "\<exists>b'. forecast_loop gs b = Inr b' \<and> counted b' = counted b + length gs \<and>
    unexpected b' = unexpected b + length (filter surprising gs) \<and>
    LatestValidProposal b' = foldl max (LatestValidProposal b) (map gTimestamp (filter AgreeWithClaim gs)) \<and>
    LatestInvalidProposal b' = foldl max (LatestInvalidProposal b) (map gTimestamp (filter (\<lambda>g. \<not> AgreeWithClaim g) gs)) \<and>
    LatestValidProposalL2Block b' = foldl max (LatestValidProposalL2Block b) (map L2BlockNumber (filter AgreeWithClaim gs))"
  using assms
proof (induction gs arbitrary: b)
  case (Cons g gs)
  then have "well_formed_game g" "list_all well_formed_game gs" by simp_all
  from forecastGame_counts [OF this(1), of b] obtain b1 where b1: "forecastGame g b = Inr b1" "counted b1 = Suc (counted b)"
    "unexpected b1 = unexpected b + of_bool (surprising g)"
    "LatestInvalidProposal b1 = LatestInvalidProposal (update_latest g b)"
    "LatestValidProposal b1 = LatestValidProposal (update_latest g b)"
    "LatestValidProposalL2Block b1 = LatestValidProposalL2Block (update_latest g b)" by (auto simp: surprising_def)
  from Cons.IH [OF \<open>list_all well_formed_game gs\<close>, of b1] show ?case
    using b1 by (auto simp: update_latest_max)
qed simp

text \<open>The forecast counts every game exactly once, reports as unexpected exactly the games whose (forecast) outcome
  contradicts the agreement with the root claim, and the latest valid and invalid proposals are the maxima over the games
  agreed and disagreed with. It never panics on games whose claims come after their parents.\<close>

theorem forecast_counts:
  assumes "list_all well_formed_game games"
  shows "\<exists>b. Forecast games = Inr b \<and> counted b = length games \<and> unexpected b = length (filter surprising games) \<and>
    LatestValidProposal b = foldl max 0 (map gTimestamp (filter AgreeWithClaim games)) \<and>
    LatestInvalidProposal b = foldl max 0 (map gTimestamp (filter (\<lambda>g. \<not> AgreeWithClaim g) games)) \<and>
    LatestValidProposalL2Block b = foldl max 0 (map L2BlockNumber (filter AgreeWithClaim games))"
  using forecast_loop_counts [OF assms, of zeroBatch]
  by (simp add: Forecast_def zeroBatch_def counted_def unexpected_def)

definition mon_game :: "GameStatus \<Rightarrow> bool \<Rightarrow> uint64 \<Rightarrow> EnrichedClaim list \<Rightarrow> EnrichedGameData" where
  "mon_game status agree t cs =
    \<lparr>GameTypeOf = 0, gTimestamp = t, Proxy = [], LastUpdateTime = 0, L1HeadNum = 0, L2BlockNumber = t, RootClaim = [],
     Status = status, MaxClockDuration = 100, BlockNumberChallenged = False, BlockNumberChallenger = zeroAddress,
     Claims = cs, AgreeWithClaim = agree, ExpectedRootClaim = [], Recipients = [], Credits = [], BondDistributionMode = 0,
     WithdrawalRequests = [], WETHContract = [], WETHDelay = 0, ETHCollateral = 0\<rparr>"

theorem forecast_counts_witness:
  "\<exists>b. Forecast [mon_game GameStatusInProgress True 5 mon_claims, mon_game GameStatusDefenderWon True 7 []] = Inr b \<and>
     counted b = 2 \<and> unexpected b = 1 \<and> LatestValidProposal b = 7"
proof -
  let ?gs = "[mon_game GameStatusInProgress True 5 mon_claims, mon_game GameStatusDefenderWon True 7 []]"
  have "list_all well_formed_game ?gs" by code_simp
  moreover have "length (filter surprising ?gs) = 1" by code_simp
  moreover have "foldl max 0 (map gTimestamp (filter AgreeWithClaim ?gs)) = 7" by code_simp
  ultimately show ?thesis using forecast_counts [of ?gs] by fastforce
qed

end
