(* ===== verification/MonHonest.thy ===== *)
theory MonHonest
  imports GameRules MonResolve
begin

text \<open>
  The challenger and the resolution of the game together: when the honest challenger has nothing left to do, the game
  resolves in favour of the truth. The argument is stated on an interface: who is countered in the end, and
  what an honest player leaves behind.
\<close>

section \<open>Resolution of a settled game\<close>

locale dispute_resolution =
  fixes settled :: "'g \<Rightarrow> bool" and number :: "'g \<Rightarrow> nat" and par :: "'g \<Rightarrow> nat \<Rightarrow> nat"
    and stepped countered :: "'g \<Rightarrow> nat \<Rightarrow> bool"
  assumes par_earlier: "settled g \<Longrightarrow> 0 < i \<Longrightarrow> i < number g \<Longrightarrow> par g i < i"
    and countered_iff: "settled g \<Longrightarrow> i < number g \<Longrightarrow>
       countered g i \<longleftrightarrow> stepped g i \<or> (\<exists>j < number g. 0 < j \<and> par g j = i \<and> \<not> countered g j)"

locale honest_resolution = dispute_resolution +
  fixes honest target :: "'a \<Rightarrow> nat \<Rightarrow> bool"
  assumes honest_stands: "settled g \<Longrightarrow> i < number g \<Longrightarrow> honest g i \<Longrightarrow> \<not> stepped g i"
    and honest_guards: "settled g \<Longrightarrow> 0 < i \<Longrightarrow> i < number g \<Longrightarrow> honest g (par g i) \<Longrightarrow> target g i"
    and target_answered: "settled g \<Longrightarrow> i < number g \<Longrightarrow> target g i \<Longrightarrow>
       stepped g i \<or> (\<exists>j < number g. 0 < j \<and> par g j = i \<and> honest g j)"
begin

text \<open>Honest claims stand and targets fall, from the leaves to the root.\<close>

lemma fate:
  assumes "settled g" "i < number g"
  shows "(honest g i \<longrightarrow> \<not> countered g i) \<and> (target g i \<longrightarrow> countered g i)"
  using assms(2)
proof (induction "number g - i" arbitrary: i rule: less_induct)
  case less
  have IH: "(honest g j \<longrightarrow> \<not> countered g j) \<and> (target g j \<longrightarrow> countered g j)" if "j < number g" "0 < j" "par g j = i" for j
    using less.hyps [of j] par_earlier [OF assms(1) that(2,1)] that less.prems by simp
  show ?case
    using IH countered_iff [OF assms(1) less.prems] honest_stands [OF assms(1) less.prems]
      honest_guards [OF assms(1)] target_answered [OF assms(1) less.prems] by blast
qed

end

section \<open>Steps the contract rejects\<close>

definition correct_claim :: "'x TraceProvider \<Rightarrow> Claim \<Rightarrow> bool" where
  "correct_claim ct c \<longleftrightarrow> tpGet ct (cPosition c) = Inr (Value c)"

definition lookup_ancestor :: "gameState \<Rightarrow> int \<Rightarrow> Claim \<Rightarrow> Claim option" where
  "lookup_ancestor g idx c = (case AncestorWithTraceIndex g idx c of Some (Inr r) \<Rightarrow> r | _ \<Rightarrow> None)"

text \<open>The contract compares the result of one VM step from the pre-state with the claim at the post-state. Starting from a
  correct pre-state the result is the correct value, so the step is rejected when the parity of the depths and the
  correctness of the post-state claim agree.\<close>

definition step_rejected :: "'x TraceProvider \<Rightarrow> gameState \<Rightarrow> Claim \<Rightarrow> bool \<Rightarrow> bool" where
  "step_rejected ct g c isAttack =
    (case TraceIndex (cPosition c) (gDepth g) of
       Inl _ \<Rightarrow> False
     | Inr t \<Rightarrow>
        (if isAttack
         then t = 0 \<or> (case lookup_ancestor g (t - 1) c of None \<Rightarrow> False | Some p \<Rightarrow> correct_claim ct p)
         else correct_claim ct c) \<and>
        (case lookup_ancestor g (if isAttack then t else t + 1) c of
           None \<Rightarrow> False
         | Some p \<Rightarrow> ((depth (cPosition c) - depth (cPosition p)) mod 2 = 0) = correct_claim ct p))"

definition steps_sound :: "'x TraceProvider \<Rightarrow> gameState \<Rightarrow> bool" where
  "steps_sound ct g \<longleftrightarrow> list_all (\<lambda>c. CounteredBy c \<noteq> zeroAddress \<and> depth (cPosition c) = gDepth g \<longrightarrow>
     \<not> (step_rejected ct g c True \<and> step_rejected ct g c False)) (claims g)"

text \<open>Above the maximal depth a claim is marked as countered only when its subgame is resolved: by a child that is resolved as uncountered, since all children of that
  child are countered.\<close>

definition resolved_soundly :: "Claim list \<Rightarrow> Depth \<Rightarrow> bool" where
  "resolved_soundly cs D \<longleftrightarrow> list_all (\<lambda>i. depth (cPosition (cs ! i)) < D \<and> CounteredBy (cs ! i) \<noteq> zeroAddress \<longrightarrow>
     list_ex (\<lambda>j. ParentContractIndex (cs ! j) = int i \<and> CounteredBy (cs ! j) = zeroAddress \<and>
       list_all (\<lambda>k. ParentContractIndex (cs ! k) = int j \<longrightarrow> CounteredBy (cs ! k) \<noteq> zeroAddress) [Suc j..<length cs]) [Suc i..<length cs]) [0..<length cs]"

lemma honest_leaf_safe:
  assumes "play_ok P" "i < pDone P" "0 < i" "depth (cpos (pClaims P) i) = pDepth P" "is_honest P i"
  shows "step_rejected (pTrace P) (pGame P) (pClaims P ! i) b"
proof -
  let ?t = "claim_tix (pClaims P) (pDepth P)"
  have len: "i < length (pClaims P)" using assms(2) play_okD(6) [OF assms(1)] by simp
  note ti = TraceIndex_claim [OF play_okD(1) [OF assms(1)] len]
  have g1: "claim_gap (pClaims P) (pDepth P) i = 1" by (rule leaf_gap [OF assms(1,4)])
  have ci: "is_correct P i" by (rule honest.honest_correct [OF assms(1,2,5)])
  have rel: "honest.relevant P i" using assms(5) by (simp add: honest.relevant_def)
  have nonneg: "0 \<le> ?t i" using btree.tix_lower [OF assms(1,2)] g1 by simp
  show ?thesis
  proof (cases b)
    case True
    have "?t i = 0 \<or> (\<exists>k. is_correct P k \<and> AncestorWithTraceIndex (pGame P) (?t i - 1) (pClaims P ! i) = Some (Inr (Some (pClaims P ! k))))"
    proof (cases "?t i = 0")
      case False
      then have "0 \<le> ?t i - claim_gap (pClaims P) (pDepth P) i" using nonneg g1 by simp
      from left_lookup_relevant [OF assms(1,2) rel this] show ?thesis unfolding g1 by blast
    qed simp
    then show ?thesis using True self_lookup [OF assms(1,2)] ti ci
      by (auto simp: step_rejected_def lookup_ancestor_def correct_claim_def is_correct_def)
  next
    case False
    obtain r0 where "btree.anc P i r0" "?t r0 = ?t i + 1"
      using btree.right_neighbour [OF assms(1,2,3)] g1 by auto
    from ancestor_found [OF assms(1,2) this] obtain r where r: "btree.anc P i r" "?t r = ?t i + 1"
      "AncestorWithTraceIndex (pGame P) (?t i + 1) (pClaims P ! i) = Some (Inr (Some (pClaims P ! r)))" by blast
    have alt: "is_correct P r \<longleftrightarrow> even (unat (depth (cpos (pClaims P) i)) - unat (depth (cpos (pClaims P) r)))"
      using honest.right_alternates [OF assms(1,2,3) r(1)] r(2) g1 assms(5) by simp
    have le: "depth (cpos (pClaims P) r) \<le> depth (cpos (pClaims P) i)"
      using btree.dep_anc [OF r(1) assms(1,2)] by (simp add: word_le_nat_alt)
    show ?thesis
      using False r(3) ti ci alt unfolding step_rejected_def
      by (simp add: lookup_ancestor_def correct_claim_def is_correct_def depth_parity [OF le])
  qed
qed

section \<open>The settled game of the challenger\<close>

definition play_settled :: "'x play \<Rightarrow> bool" where
  "play_settled P \<longleftrightarrow> play_ok P \<and> pDone P = length (pClaims P) \<and>
     (\<forall>j < length (pClaims P). \<exists>tr. claim_action (pKeccak P) (pSolver P) (pGame P) (pClaims P ! j) (tracker_at P j) = Inr (None, tr)) \<and>
     list_all (\<lambda>c. Claimant c \<noteq> zeroAddress) (pClaims P) \<and> steps_sound (pTrace P) (pGame P) \<and> resolved_soundly (pClaims P) (pDepth P)"

lemma settledD:
  assumes "play_settled P"
  shows "play_ok P" "pDone P = length (pClaims P)" "game_shape (pClaims P) (pDepth P)"
    "j < length (pClaims P) \<Longrightarrow> \<exists>tr. claim_action (pKeccak P) (pSolver P) (pGame P) (pClaims P ! j) (tracker_at P j) = Inr (None, tr)"
    "j < length (pClaims P) \<Longrightarrow> Claimant (pClaims P ! j) \<noteq> zeroAddress" "steps_sound (pTrace P) (pGame P)" "resolved_soundly (pClaims P) (pDepth P)"
  using assms play_okD(1) [of P] by (auto simp: play_settled_def list_all_length)

lemma shape_parents_ok:
  assumes "game_shape cs D"
  shows "parents_ok cs"
proof -
  have "0 \<le> ParentContractIndex (cs ! i) \<and> ParentContractIndex (cs ! i) < int i" if "i < length cs" "\<not> IsRoot (cs ! i)" for i
  proof -
    have "0 < i" using shape_pos [OF assms that(1)] that(2) by (cases i) (auto simp: IsRoot_def)
    from shape_child(1,2) [OF assms this that(1)] show ?thesis by simp
  qed
  then show ?thesis using shape_index [OF assms] by (simp add: parents_ok_def list_all_iff)
qed

lemma counter_of_iff:
  assumes "game_shape cs D" "\<And>j. j < length cs \<Longrightarrow> Claimant (cs ! j) \<noteq> zeroAddress" "i < length cs"
  shows "counter_of cs i \<noteq> zeroAddress \<longleftrightarrow> CounteredBy (cs ! i) \<noteq> zeroAddress \<or>
    (\<exists>j < length cs. 0 < j \<and> parent_of cs j = i \<and> \<not> counter_of cs j \<noteq> zeroAddress)"
proof -
  let ?us = "filter (\<lambda>j. ParentContractIndex (cs ! j) = int i \<and> \<not> IsRoot (cs ! j) \<and> counter_of cs j = zeroAddress) [Suc i..<length cs]"
  have us: "j \<in> set ?us \<longleftrightarrow> j < length cs \<and> 0 < j \<and> parent_of cs j = i \<and> counter_of cs j = zeroAddress" for j
  proof (cases "0 < j \<and> j < length cs")
    case True
    then have "parent_of cs j < j" "ParentContractIndex (cs ! j) = int (parent_of cs j)" "\<not> IsRoot (cs ! j)"
      using shape_child(1,2) [OF assms(1), of j] shape_pos [OF assms(1), of j] by (simp_all add: IsRoot_def)
    then show ?thesis using True by auto
  qed auto
  show ?thesis
  proof (cases "?us = []")
    case True
    then have "\<nexists>j. j \<in> set ?us" by simp
    then show ?thesis unfolding us using True by (subst counter_of.simps) (auto simp: Let_def)
  next
    case False
    then have "leftmost (nth cs) ?us \<in> set ?us" by (rule leftmost_in)
    moreover from this have "Claimant (cs ! leftmost (nth cs) ?us) \<noteq> zeroAddress" using assms(2) unfolding us by blast
    ultimately show ?thesis using False us by (subst counter_of.simps) (auto simp: Let_def)
  qed
qed

lemma resolved_child:
  assumes "game_shape cs D" "\<And>j. j < length cs \<Longrightarrow> Claimant (cs ! j) \<noteq> zeroAddress" "resolved_soundly cs D"
    "i < length cs" "depth (cpos cs i) < D" "CounteredBy (cs ! i) \<noteq> zeroAddress"
  shows "\<exists>j < length cs. 0 < j \<and> parent_of cs j = i \<and> counter_of cs j = zeroAddress"
proof -
  have "i \<in> set [0..<length cs]" using assms(4) by simp
  with assms(3) have "depth (cpos cs i) < D \<and> CounteredBy (cs ! i) \<noteq> zeroAddress \<longrightarrow>
     list_ex (\<lambda>j. ParentContractIndex (cs ! j) = int i \<and> CounteredBy (cs ! j) = zeroAddress \<and>
       list_all (\<lambda>k. ParentContractIndex (cs ! k) = int j \<longrightarrow> CounteredBy (cs ! k) \<noteq> zeroAddress) [Suc j..<length cs]) [Suc i..<length cs]"
    unfolding resolved_soundly_def by (subst (asm) list_all_iff) (erule bspec)
  with assms(5,6) have "\<exists>j. i < j \<and> j < length cs \<and> ParentContractIndex (cs ! j) = int i \<and> CounteredBy (cs ! j) = zeroAddress \<and>
      (\<forall>k. j < k \<longrightarrow> k < length cs \<longrightarrow> ParentContractIndex (cs ! k) = int j \<longrightarrow> CounteredBy (cs ! k) \<noteq> zeroAddress)"
    by (auto simp: list_ex_iff list_all_iff Suc_le_eq)
  then obtain j where j: "i < j" "j < length cs" "ParentContractIndex (cs ! j) = int i" "CounteredBy (cs ! j) = zeroAddress"
    and k: "\<And>k. j < k \<Longrightarrow> k < length cs \<Longrightarrow> ParentContractIndex (cs ! k) = int j \<Longrightarrow> CounteredBy (cs ! k) \<noteq> zeroAddress"
    by blast
  have "counter_of cs k \<noteq> zeroAddress" if "k < length cs" "0 < k" "parent_of cs k = j" for k
    using that k shape_child(1,2) [OF assms(1) that(2,1)] counter_of_iff [OF assms(1,2) that(1)] by auto
  then have "counter_of cs j = zeroAddress" using counter_of_iff [OF assms(1,2) j(2)] j(4) by blast
  then show ?thesis using j(1-3) by (intro exI [of _ j]) (auto simp: parent_of_def)
qed

text \<open>A target is stepped on or has been answered, since the solver has no action left.\<close>

lemma settled_target:
  assumes "play_settled P" "i < length (pClaims P)" "to_counter P i"
  shows "CounteredBy (pClaims P ! i) \<noteq> zeroAddress \<and> depth (cpos (pClaims P) i) = pDepth P \<or>
    (\<exists>j < length (pClaims P). 0 < j \<and> parent_of (pClaims P) j = i \<and> is_honest P j)"
proof -
  note ok = settledD(1) [OF assms(1)]
  have i: "i < pDone P" using assms(2) settledD(2) [OF assms(1)] by simp
  have sc: "shouldCounter (pKeccak P) (pGame P) (pClaims P ! i) (tracker_at P i) = Inr True"
    using assms(3) by (simp add: to_counter_def)
  obtain tr where ca: "claim_action (pKeccak P) (pSolver P) (pGame P) (pClaims P ! i) (tracker_at P i) = Inr (None, tr)"
    using settledD(4) [OF assms(1,2)] by blast
  show ?thesis
  proof (cases "depth (cpos (pClaims P) i) = pDepth P")
    case True
    then show ?thesis using ca sc
      by (auto simp: claim_action_def calculateStep_def AttemptStep_def rbind_Inr_iff Let_def split: if_splits option.splits)
  next
    case False
    have nr: "is_correct P i \<Longrightarrow> \<not> IsRoot (pClaims P ! i)"
      using to_counter_root [OF ok] assms(3) i shape_pos [OF settledD(3) [OF assms(1)] assms(2)]
      by (cases "i = 0") (auto simp: IsRoot_def)
    from ca False obtain mv where mv: "NextMove (pKeccak P) (pSolver P) (pClaims P ! i) (pGame P) (tracker_at P i) = Inr mv"
      "\<And>m. mv = Some m \<Longrightarrow> IsDuplicate (pKeccak P) (pGame P) m"
      by (auto simp: claim_action_def calculateMove_def Let_def rbind_Inr_iff split: if_splits option.splits)
    from mv(1) sc obtain b where b: "agreeWithClaim (pSolver P) (pGame P) (pClaims P ! i) = Inr b"
      "(if b then defend (pSolver P) (pGame P) (pClaims P ! i) else attack (pSolver P) (pGame P) (pClaims P ! i)) = Inr mv"
      by (auto simp: NextMove_def rbind_Inr_iff split: if_splits)
    have "b \<longleftrightarrow> is_correct P i" by (rule agreeWithClaim_correct [OF ok b(1)])
    then obtain m where m: "mv = Some m" using b(2) nr by (auto simp: defend_def attack_def Let_def rbind_Inr_iff split: if_splits)
    have ma: "move_at P i = Some m" using mv(1) m False by (simp add: move_at_def)
    from mv(2) [OF m] obtain k where k: "k < length (pClaims P)" "Claim_ID (pKeccak P) (pClaims P ! k) = Claim_ID (pKeccak P) m"
      by (auto simp: pGame_def IsDuplicate_iff in_set_conv_nth)
    then have kk: "0 < k" "i = parent_of (pClaims P) k" "cPosition m = cpos (pClaims P) k" "Value m = Value (pClaims P ! k)"
      using claim_is_move [OF ok k(1) ma assms(2)] by auto
    then have "is_honest P k" using honest_parent [OF ok kk(1)] k(1) ma settledD(2) [OF assms(1)] by simp
    then show ?thesis using k(1) kk by blast
  qed
qed

interpretation settled_game: honest_resolution play_settled "\<lambda>P. length (pClaims P)" "\<lambda>P. parent_of (pClaims P)"
  "\<lambda>P i. CounteredBy (pClaims P ! i) \<noteq> zeroAddress \<and> depth (cpos (pClaims P) i) = pDepth P" "\<lambda>P i. counter_of (pClaims P) i \<noteq> zeroAddress" is_honest to_counter
proof (unfold_locales, goal_cases)
  case (1 P i)
  then show ?case using shape_child(1) [OF settledD(3)] by blast
next
  case (2 P i)
  note sh = settledD(3) [OF 2(1)] and cl = settledD(5) [OF 2(1)]
  have "depth (cpos (pClaims P) i) = pDepth P \<or> depth (cpos (pClaims P) i) < pDepth P" using shape_pos [OF sh 2(2)] by (simp add: order_le_less disj_commute)
  then show ?case
    using counter_of_iff [OF sh cl 2(2)] resolved_child [OF sh cl settledD(7) [OF 2(1)] 2(2)] by blast
next
  case (3 P i)
  note ok = settledD(1) [OF 3(1)]
  have i: "i < pDone P" using 3 settledD(2) [OF 3(1)] by simp
  show ?case
  proof (cases "depth (cpos (pClaims P) i) = pDepth P \<and> 0 < i")
    case True
    then have "\<And>b. step_rejected (pTrace P) (pGame P) (pClaims P ! i) b" using honest_leaf_safe [OF ok i] 3(3) by blast
    then show ?thesis using settledD(6) [OF 3(1)] 3(2) by (auto simp: steps_sound_def list_all_length pGame_def NewGameState_def)
  next
    case False
    then show ?thesis
      using shape_root [OF settledD(3) [OF 3(1)]] by (cases "i = 0") (auto simp: NewPosition_def)
  qed
next
  case (4 P i)
  note ok = settledD(1) [OF 4(1)]
  have i: "i < pDone P" using 4 settledD(2) [OF 4(1)] by simp
  have "\<not> is_honest P i"
    using honest.honest_answer [OF ok 4(2) i] honest.answered_should [OF ok] honest.should_dishonest [OF ok] 4(4)
      tree_laws(4) [OF ok 4(2) i] by blast
  then show ?case using to_counter_iff [OF ok 4(2) i] 4(4) by simp
next
  case (5 P i)
  then show ?case by (rule settled_target)
qed


lemma root_fate:
  assumes "play_ok P" "0 < pDone P"
  shows "is_correct P 0 \<Longrightarrow> is_honest P 0" "\<not> is_correct P 0 \<Longrightarrow> to_counter P 0"
proof -
  have ne: "0 < length (pClaims P)" using assms(2) play_okD(6) [OF assms(1)] by linarith
  have h: "is_honest P 0 \<longleftrightarrow> is_correct P 0" using honest_iff [OF assms(1) _ ne, of 0] by (simp add: is_honest_def)
  show "is_correct P 0 \<Longrightarrow> is_honest P 0" using h by simp
  have "IsRoot (pClaims P ! 0)" using shape_pos [OF play_okD(1) [OF assms(1)] ne] by (simp add: IsRoot_def)
  then show "\<not> is_correct P 0 \<Longrightarrow> to_counter P 0" using h by (simp add: to_counter_def shouldCounter_def is_honest_def)
qed

text \<open>C4: The honest challenger wins. Whatever the other players did, as soon as \<^verbatim>\<open>CalculateNextActions\<close> has no
  action left, the resolution algorithm of the monitor decides the game for the truth: the defender wins exactly when the
  root claim is the value of the correct trace. The setting is that of the solver (a tree of claims as the contract builds it, one correct trace, a faithful accessor, no
  collision of claim identifiers) with non-zero claimants. Of the contract it is assumed that it rejects a step against a leaf when the
  step starts from a correct pre-state and its post-state comparison fails, and that it marks a claim above the maximal depth as countered only when
  it resolves its subgame: by an uncountered child all of whose children are countered.\<close>

theorem honest_challenger_wins:
  assumes "solver_setting keccak s ct (map ecClaim es) D"
    "CalculateNextActions keccak s (NewGameState keccak (map ecClaim es) D) = Inr ([], None)"
    "list_all (\<lambda>c. Claimant c \<noteq> zeroAddress) (map ecClaim es)" "steps_sound ct (NewGameState keccak (map ecClaim es) D)"
    "resolved_soundly (map ecClaim es) D"
  shows "rbind (CreateBidirectionalTree es) (\<lambda>tree. Inr (Resolve tree)) =
    Inr (if correct_claim ct (ecClaim (es ! 0)) then GameStatusDefenderWon else GameStatusChallengerWon)"
proof -
  let ?cs = "map ecClaim es"
  let ?P = "the_play keccak s ct ?cs D (length ?cs)"
  have sh: "game_shape ?cs D" using assms(1) by (simp add: solver_setting_def)
  have ne: "es \<noteq> []" using shape_root [OF sh] by simp
  from run_play [OF assms(1,2)] have ok: "play_ok ?P" and
    none: "{} = {a. \<exists>j < length ?cs. \<exists>tr. claim_action keccak s (NewGameState keccak ?cs D) (?cs ! j)
      (tracker_at (the_play keccak s ct ?cs D 0) j) = Inr (Some a, tr)}" by auto
  have P0: "tracker_at (the_play keccak s ct ?cs D 0) j = tracker_at ?P j" for j
    using tracker_at_done(1) [where P = ?P and n = 0 and i = j] by simp
  have g: "pGame ?P = NewGameState keccak ?cs D" by (simp add: pGame_def)
  have "\<exists>tr. claim_action keccak s (pGame ?P) (?cs ! j) (tracker_at ?P j) = Inr (None, tr)" if j: "j < length ?cs" for j
  proof -
    obtain r where r: "claim_action keccak s (pGame ?P) (?cs ! j) (tracker_at ?P j) = Inr r"
      using play_okD(7) [OF ok, of j] j by auto
    obtain oa tr where oa: "r = (oa, tr)" by (cases r)
    have "oa = None" using none j r unfolding P0 g oa by (cases oa) blast+
    then show ?thesis using r oa by simp
  qed
  then have st: "play_settled ?P" using ok assms(3-5) unfolding play_settled_def g by simp
  have "correct_claim ct (ecClaim (es ! 0)) \<longleftrightarrow> is_correct ?P 0" using ne by (simp add: correct_claim_def is_correct_def)
  moreover have "counter_of ?cs 0 = zeroAddress \<longleftrightarrow> is_correct ?P 0"
    using settled_game.fate [OF st, of 0] root_fate [OF ok] ne by auto
  ultimately show ?thesis using Resolve_reference_aux [OF shape_parents_ok [OF sh]] ne by simp
qed

text \<open>A finished game: a wrong root, the challenger's attack, and an attack on it that the challenger stepped on.\<close>

definition settled_claims :: "EnrichedClaim list" where
  "settled_claims = map (\<lambda>c. \<lparr>ecClaim = c, Resolved = False\<rparr>)
    [(move_claim [1, 9] RootPosition 5)\<lparr>Claimant := replicate 20 7\<rparr>,
     (move_claim [0, 1] (Attack RootPosition) 0)\<lparr>ContractIndex := 1, Claimant := challengerAddr\<rparr>,
     (move_claim [7, 7] (Attack (Attack RootPosition)) 1)\<lparr>ContractIndex := 2, Claimant := replicate 20 7, CounteredBy := challengerAddr\<rparr>]"

theorem honest_challenger_wins_witness:
  "rbind (CreateBidirectionalTree settled_claims) (\<lambda>tree. Inr (Resolve tree)) = Inr GameStatusChallengerWon \<and>
   \<not> correct_claim toy_provider (ecClaim (settled_claims ! 0))"
proof -
  let ?cs = "map ecClaim settled_claims"
  have "game_shape ?cs 2" by code_simp
  moreover have "no_id_collision (\<lambda>x. x) toy_provider ?cs" unfolding no_id_collision_code by code_simp
  ultimately have set: "solver_setting (\<lambda>x. x) toy_solver toy_provider ?cs 2"
    using toy_trace simple_accessor_faithful [of toy_provider]
    by (simp add: solver_setting_def toy_solver_def newClaimSolver_def)
  have run: "CalculateNextActions (\<lambda>x. x) toy_solver (NewGameState (\<lambda>x. x) ?cs 2) = Inr ([], None)" by code_simp
  have cl: "list_all (\<lambda>c. Claimant c \<noteq> zeroAddress) ?cs" by code_simp
  have ss: "steps_sound toy_provider (NewGameState (\<lambda>x. x) ?cs 2)" by code_simp
  have w: "\<not> correct_claim toy_provider (ecClaim (settled_claims ! 0))" by code_simp
  have rs: "resolved_soundly ?cs 2" by code_simp
  show ?thesis using honest_challenger_wins [OF set run cl ss rs] w by simp
qed

end
