(* ===== verification/MonBonds.thy ===== *)
theory MonBonds
  imports MonResolve "HOL-Library.AList"
begin

text \<open>
  The bond monitors (\<^verbatim>\<open>op-dispute-mon/mon/bonds/{collateral,monitor}.go\<close>,
  \<^verbatim>\<open>mon/withdrawals.go\<close>, \<^verbatim>\<open>mon/extract/recipient_enricher.go\<close>). Amounts are unbounded
  integers; a missing amount is a nil pointer and using it panics. The maps the code iterates over are association lists.
\<close>

section \<open>Collateral\<close>

record Collateral =
  Required :: int
  Actual :: int

definition deref_amount :: "int option \<Rightarrow> mon_panic + int" where
  "deref_amount x = (case x of None \<Rightarrow> Inl PanicNilDereference | Some v \<Rightarrow> Inr v)"

fun unresolved_loop :: "EnrichedClaim list \<Rightarrow> int \<Rightarrow> mon_panic + int" where
  "unresolved_loop [] required = Inr required"
| "unresolved_loop (c # cs) required =
    (if \<not> Resolved c then rbind (deref_amount (Bond (ecClaim c))) (\<lambda>b. unresolved_loop cs (required + b))
     else unresolved_loop cs required)"

definition requiredCollateralForGame :: "EnrichedGameData \<Rightarrow> mon_panic + int" where
  "requiredCollateralForGame game =
    rbind (unresolved_loop (Claims game) 0) (\<lambda>required.
      Inr (foldl (\<lambda>required (_, unclaimedCredit). required + unclaimedCredit) required (Credits game)))"

fun collateral_loop :: "EnrichedGameData list \<Rightarrow> (bytes \<Rightarrow> Collateral option) \<Rightarrow> mon_panic + (bytes \<Rightarrow> Collateral option)" where
  "collateral_loop [] result = Inr result"
| "collateral_loop (game # games) result =
    (let collateral = (case result (WETHContract game) of
           None \<Rightarrow> \<lparr>Required = 0, Actual = ETHCollateral game\<rparr> | Some c \<Rightarrow> c)
     in rbind (requiredCollateralForGame game) (\<lambda>gameRequired.
          collateral_loop games
            (result(WETHContract game \<mapsto> collateral\<lparr>Required := Required collateral + gameRequired\<rparr>))))"

definition CalculateRequiredCollateral :: "EnrichedGameData list \<Rightarrow> mon_panic + (bytes \<Rightarrow> Collateral option)" where
  "CalculateRequiredCollateral games = collateral_loop games Map.empty"

section \<open>Credits\<close>

datatype CreditExpectation =
    CreditBelowWithdrawable | CreditEqualWithdrawable | CreditAboveWithdrawable
  | CreditBelowNonWithdrawable | CreditEqualNonWithdrawable | CreditAboveNonWithdrawable

definition bond_recipient :: "EnrichedGameData \<Rightarrow> Claim \<Rightarrow> bytes" where
  "bond_recipient game claim =
    (if IsRoot claim \<and> BlockNumberChallenged game then BlockNumberChallenger game
     else if CounteredBy claim \<noteq> zeroAddress then CounteredBy claim
     else Claimant claim)"

text \<open>A missing entry counts as zero.\<close>

definition amount_of :: "(bytes \<times> int) list \<Rightarrow> bytes \<Rightarrow> int" where
  "amount_of m a = (case map_of m a of None \<Rightarrow> 0 | Some x \<Rightarrow> x)"

fun expected_loop :: "EnrichedGameData \<Rightarrow> EnrichedClaim list \<Rightarrow> (bytes \<times> int) list \<Rightarrow> mon_panic + (bytes \<times> int) list" where
  "expected_loop game [] expectedCredits = Inr expectedCredits"
| "expected_loop game (claim # cs) expectedCredits =
    (if \<not> Resolved claim then expected_loop game cs expectedCredits
     else let recipient = bond_recipient game (ecClaim claim);
              current = amount_of expectedCredits recipient
          in rbind (deref_amount (Bond (ecClaim claim))) (\<lambda>b.
               expected_loop game cs (AList.update recipient (current + b) expectedCredits)))"

definition allRecipients :: "(bytes \<times> int) list \<Rightarrow> (bytes \<times> int) list \<Rightarrow> bytes list" where
  "allRecipients expectedCredits credits = remdups (map fst expectedCredits @ map fst credits)"

definition credit_expectation :: "bool \<Rightarrow> int \<Rightarrow> int \<Rightarrow> CreditExpectation" where
  "credit_expectation maxDurationReached actual expected =
    (if maxDurationReached then
       (if expected < actual then CreditAboveWithdrawable
        else if actual = expected then CreditEqualWithdrawable else CreditBelowWithdrawable)
     else
       (if expected < actual then CreditAboveNonWithdrawable
        else if actual = expected then CreditEqualNonWithdrawable else CreditBelowNonWithdrawable))"

text \<open>\<open>seconds\<close> is the conversion of the withdrawal delay to whole seconds (through \<^verbatim>\<open>float64\<close>).\<close>

definition maxDurationReached :: "(64 word \<Rightarrow> uint64) \<Rightarrow> uint64 \<Rightarrow> EnrichedGameData \<Rightarrow> bool" where
  "maxDurationReached seconds now game =
    (let duration = now - gTimestamp game
     in MaxClockDuration game + seconds (WETHDelay game) \<le> duration)"

definition game_credits :: "(64 word \<Rightarrow> uint64) \<Rightarrow> uint64 \<Rightarrow> EnrichedGameData \<Rightarrow> (CreditExpectation \<Rightarrow> nat) \<Rightarrow> mon_panic + (CreditExpectation \<Rightarrow> nat)" where
  "game_credits seconds now game creditMetrics =
    rbind (expected_loop game (Claims game) []) (\<lambda>expectedCredits.
      Inr (foldl (\<lambda>m recipient.
             let e = credit_expectation (maxDurationReached seconds now game)
                       (amount_of (Credits game) recipient) (amount_of expectedCredits recipient)
             in m(e := m e + 1)) creditMetrics (allRecipients expectedCredits (Credits game))))"

fun credits_loop :: "(64 word \<Rightarrow> uint64) \<Rightarrow> uint64 \<Rightarrow> EnrichedGameData list \<Rightarrow> (CreditExpectation \<Rightarrow> nat) \<Rightarrow> mon_panic + (CreditExpectation \<Rightarrow> nat)" where
  "credits_loop seconds now [] creditMetrics = Inr creditMetrics"
| "credits_loop seconds now (game # games) creditMetrics =
    rbind (game_credits seconds now game creditMetrics) (credits_loop seconds now games)"

definition checkCredits :: "(64 word \<Rightarrow> uint64) \<Rightarrow> uint64 \<Rightarrow> EnrichedGameData list \<Rightarrow> mon_panic + (CreditExpectation \<Rightarrow> nat)" where
  "checkCredits seconds now games = credits_loop seconds now games (\<lambda>_. 0)"

definition RecipientEnricher_Enrich :: "EnrichedGameData \<Rightarrow> EnrichedGameData" where
  "RecipientEnricher_Enrich game =
    (let recipients = remdups (map (\<lambda>c. if CounteredBy (ecClaim c) \<noteq> zeroAddress then CounteredBy (ecClaim c)
                                        else Claimant (ecClaim c)) (Claims game));
         recipients = (if BlockNumberChallenger game \<noteq> zeroAddress then List.insert (BlockNumberChallenger game) recipients
                       else recipients)
     in game\<lparr>Recipients := recipients\<rparr>)"

section \<open>Withdrawals\<close>

definition UndecidedDistributionMode :: byte where "UndecidedDistributionMode = 0"
definition NormalDistributionMode :: byte where "NormalDistributionMode = 1"
definition RefundDistributionMode :: byte where "RefundDistributionMode = 2"
definition LegacyDistributionMode :: byte where "LegacyDistributionMode = 255"

lemmas DistributionMode_defs = UndecidedDistributionMode_def NormalDistributionMode_def RefundDistributionMode_def LegacyDistributionMode_def

text \<open>How one request is counted: matching, divergent or neither.\<close>

definition request_counts :: "EnrichedGameData \<Rightarrow> bytes \<Rightarrow> WithdrawalRequest \<Rightarrow> mon_panic + nat \<times> nat" where
  "request_counts game recipient w =
    (if BondDistributionMode game = LegacyDistributionMode then
       rbind (deref_amount (map_of (Credits game) recipient)) (\<lambda>credit.
         Inr (if wrAmount w = credit then (1, 0) else (0, 1)))
     else if BondDistributionMode game = UndecidedDistributionMode then
       Inr (if wrAmount w \<noteq> 0 then (0, 1) else (0, 0))
     else if BondDistributionMode game = NormalDistributionMode \<or> BondDistributionMode game = RefundDistributionMode then
       (if wrAmount w = 0 then Inr (1, 0)
        else rbind (deref_amount (map_of (Credits game) recipient)) (\<lambda>credit.
               Inr (if wrAmount w = credit then (1, 0) else (0, 1))))
     else Inr (0, 1))"

text \<open>The amounts an honest actor can withdraw. Times are nanoseconds since the zero time, which lies \<open>unixToInternal\<close> seconds
  before the Unix epoch; \<^verbatim>\<open>Timestamp.Int64()\<close> keeps the low 64 bits.\<close>

definition unixToInternal :: int where "unixToInternal = 62135596800"

definition withdrawable_after :: "WithdrawalRequest \<Rightarrow> 64 word \<Rightarrow> int" where
  "withdrawable_after w delay = sint (of_int (wrTimestamp w) + of_int unixToInternal :: 64 word) * 10 ^ 9 + sint delay"

definition honest_amount :: "(bytes \<Rightarrow> bool) \<Rightarrow> int \<Rightarrow> EnrichedGameData \<Rightarrow> bytes \<Rightarrow> WithdrawalRequest \<Rightarrow> (bytes \<Rightarrow> int) \<Rightarrow> mon_panic + (bytes \<Rightarrow> int)" where
  "honest_amount honestActors now game recipient w amounts =
    (if honestActors recipient then
       rbind
         (if BondDistributionMode game \<noteq> UndecidedDistributionMode \<and> wrAmount w = 0 then
            rbind (deref_amount (map_of (Credits game) recipient)) (\<lambda>credit.
              Inr (if credit \<noteq> 0 then amounts(recipient := amounts recipient + credit) else amounts))
          else Inr amounts)
         (\<lambda>amounts. Inr (if 0 < wrAmount w \<and> withdrawable_after w (WETHDelay game) < now
                         then amounts(recipient := amounts recipient + wrAmount w) else amounts))
     else Inr amounts)"

fun withdrawals_loop ::
    "(bytes \<Rightarrow> bool) \<Rightarrow> int \<Rightarrow> EnrichedGameData \<Rightarrow> (bytes \<times> WithdrawalRequest) list \<Rightarrow> nat \<times> nat \<Rightarrow> (bytes \<Rightarrow> int) \<Rightarrow>
     mon_panic + (nat \<times> nat) \<times> (bytes \<Rightarrow> int)" where
  "withdrawals_loop honestActors now game [] counts amounts = Inr (counts, amounts)"
| "withdrawals_loop honestActors now game ((recipient, w) # ws) (matching, divergent) amounts =
    rbind (request_counts game recipient w) (\<lambda>(m, d).
    rbind (honest_amount honestActors now game recipient w amounts) (\<lambda>amounts.
      withdrawals_loop honestActors now game ws (matching + m, divergent + d) amounts))"

definition validateGameWithdrawals ::
    "(bytes \<Rightarrow> bool) \<Rightarrow> EnrichedGameData \<Rightarrow> int \<Rightarrow> (bytes \<Rightarrow> int) \<Rightarrow> mon_panic + (nat \<times> nat) \<times> (bytes \<Rightarrow> int)" where
  "validateGameWithdrawals honestActors game now amounts =
    withdrawals_loop honestActors now game (WithdrawalRequests game) (0, 0) amounts"

fun check_withdrawals_loop ::
    "(bytes \<Rightarrow> bool) \<Rightarrow> int \<Rightarrow> EnrichedGameData list \<Rightarrow> (bytes \<Rightarrow> nat) \<times> (bytes \<Rightarrow> nat) \<times> (bytes \<Rightarrow> int) \<Rightarrow>
     mon_panic + (bytes \<Rightarrow> nat) \<times> (bytes \<Rightarrow> nat) \<times> (bytes \<Rightarrow> int)" where
  "check_withdrawals_loop honestActors now [] st = Inr st"
| "check_withdrawals_loop honestActors now (game # games) (matching, divergent, amounts) =
    rbind (validateGameWithdrawals honestActors game now amounts) (\<lambda>((matches, diverges), amounts).
      check_withdrawals_loop honestActors now games
        (matching(WETHContract game := matching (WETHContract game) + matches),
         divergent(WETHContract game := divergent (WETHContract game) + diverges), amounts))"

definition CheckWithdrawals ::
    "(bytes \<Rightarrow> bool) \<Rightarrow> int \<Rightarrow> EnrichedGameData list \<Rightarrow> mon_panic + (bytes \<Rightarrow> nat) \<times> (bytes \<Rightarrow> nat) \<times> (bytes \<Rightarrow> int)" where
  "CheckWithdrawals honestActors now games =
    check_withdrawals_loop honestActors now games (\<lambda>_. 0, \<lambda>_. 0, \<lambda>_. 0)"


section \<open>Collateral of a set of games\<close>

definition bonds_present :: "EnrichedGameData \<Rightarrow> bool" where
  "bonds_present game \<longleftrightarrow> list_all (\<lambda>c. Bond (ecClaim c) \<noteq> None) (Claims game)"

definition bond :: "EnrichedClaim \<Rightarrow> int" where
  "bond c = (case Bond (ecClaim c) of None \<Rightarrow> 0 | Some b \<Rightarrow> b)"

definition game_required :: "EnrichedGameData \<Rightarrow> int" where
  "game_required game = sum_list (map bond (filter (\<lambda>c. \<not> Resolved c) (Claims game))) + sum_list (map snd (Credits game))"

lemma deref_bond: "Bond (ecClaim c) \<noteq> None \<Longrightarrow> deref_amount (Bond (ecClaim c)) = Inr (bond c)"
  by (auto simp: deref_amount_def bond_def)

lemma unresolved_loop_sum:
  "list_all (\<lambda>c. Bond (ecClaim c) \<noteq> None) cs \<Longrightarrow>
   unresolved_loop cs r = Inr (r + sum_list (map bond (filter (\<lambda>c. \<not> Resolved c) cs)))"
  by (induction cs arbitrary: r) (auto simp: deref_bond)

lemma required_sum: "bonds_present game \<Longrightarrow> requiredCollateralForGame game = Inr (game_required game)"
proof -
  have "foldl (\<lambda>r (_, c). r + c) x m = x + sum_list (map snd m)" for x :: int and m :: "(bytes \<times> int) list"
    by (induction m arbitrary: x) (auto split: prod.splits)
  then show "bonds_present game \<Longrightarrow> ?thesis"
    by (simp add: requiredCollateralForGame_def bonds_present_def unresolved_loop_sum game_required_def)
qed

definition collateral_spec :: "EnrichedGameData list \<Rightarrow> bytes \<Rightarrow> Collateral option" where
  "collateral_spec games a =
    (case filter (\<lambda>g. WETHContract g = a) games of
       [] \<Rightarrow> None
     | g # gs \<Rightarrow> Some \<lparr>Required = sum_list (map game_required (g # gs)), Actual = ETHCollateral g\<rparr>)"

lemma collateral_loop_spec:
  assumes "list_all bonds_present games"
  shows "collateral_loop games (collateral_spec done) = Inr (collateral_spec (done @ games))"
  using assms
proof (induction games arbitrary: "done")
  case (Cons game games)
  have "(collateral_spec done)(WETHContract game \<mapsto>
      (case collateral_spec done (WETHContract game) of None \<Rightarrow> \<lparr>Required = 0, Actual = ETHCollateral game\<rparr> | Some c \<Rightarrow> c)
        \<lparr>Required := Required (case collateral_spec done (WETHContract game) of None \<Rightarrow> \<lparr>Required = 0, Actual = ETHCollateral game\<rparr> | Some c \<Rightarrow> c)
           + game_required game\<rparr>) = collateral_spec (done @ [game])"
    by (auto simp: collateral_spec_def fun_eq_iff split: list.splits)
  then show ?case using Cons.IH [of "done @ [game]"] Cons.prems by (simp add: required_sum Let_def)
qed simp

text \<open>C33: \<^verbatim>\<open>CalculateRequiredCollateral\<close> reports, for each DelayedWETH contract some game uses, the sum over exactly
  those games of the bonds of the unresolved claims and the unclaimed credits, with the balance of the contract, and nothing
  for other addresses.\<close>

theorem required_collateral:
  assumes "list_all bonds_present games"
  shows "\<exists>result. CalculateRequiredCollateral games = Inr result \<and>
    (\<forall>a. result a = (if a \<in> WETHContract ` set games
       then Some \<lparr>Required = sum_list (map game_required (filter (\<lambda>g. WETHContract g = a) games)),
                  Actual = ETHCollateral (hd (filter (\<lambda>g. WETHContract g = a) games))\<rparr> else None))"
proof -
  have e: "collateral_spec [] = Map.empty" by (auto simp: collateral_spec_def)
  have "collateral_spec games a = (if a \<in> WETHContract ` set games
       then Some \<lparr>Required = sum_list (map game_required (filter (\<lambda>g. WETHContract g = a) games)),
                  Actual = ETHCollateral (hd (filter (\<lambda>g. WETHContract g = a) games))\<rparr> else None)" for a
  proof (cases "filter (\<lambda>g. WETHContract g = a) games")
    case Nil
    then have "a \<notin> WETHContract ` set games" by (auto simp: filter_empty_conv)
    then show ?thesis using Nil by (simp add: collateral_spec_def)
  next
    case (Cons g gs)
    then have "g \<in> set (filter (\<lambda>g. WETHContract g = a) games)" by simp
    then have "a \<in> WETHContract ` set games" by auto
    then show ?thesis using Cons by (simp add: collateral_spec_def)
  qed
  then show ?thesis using collateral_loop_spec [OF assms, of "[]"] by (simp add: CalculateRequiredCollateral_def e)
qed

section \<open>Conservation of bonds\<close>

definition resolved_to :: "EnrichedGameData \<Rightarrow> EnrichedClaim list \<Rightarrow> bytes \<Rightarrow> int" where
  "resolved_to game cs a = sum_list (map bond (filter (\<lambda>c. Resolved c \<and> bond_recipient game (ecClaim c) = a) cs))"

lemma expected_loop_spec:
  assumes "list_all (\<lambda>c. Bond (ecClaim c) \<noteq> None) cs"
  shows "\<exists>ex'. expected_loop game cs ex = Inr ex' \<and> (distinct (map fst ex) \<longrightarrow> distinct (map fst ex')) \<and>
    (\<forall>a. amount_of ex' a = amount_of ex a + resolved_to game cs a)"
  using assms
proof (induction cs arbitrary: ex)
  case (Cons c cs)
  show ?case
  proof (cases "Resolved c")
    case False
    then show ?thesis using Cons by (simp add: resolved_to_def)
  next
    case True
    let ?r = "bond_recipient game (ecClaim c)"
    let ?ex = "AList.update ?r (amount_of ex ?r + bond c) ex"
    have u: "amount_of ?ex a = amount_of ex a + (if a = ?r then bond c else 0)" for a
      by (simp add: amount_of_def update_conv')
    obtain ex' where "expected_loop game cs ?ex = Inr ex'" "distinct (map fst ?ex) \<longrightarrow> distinct (map fst ex')"
      "\<forall>a. amount_of ex' a = amount_of ?ex a + resolved_to game cs a" using Cons by force
    then show ?thesis
      using True Cons.prems distinct_update [of ex ?r "amount_of ex ?r + bond c"]
      by (auto simp: Let_def deref_bond u resolved_to_def)
  qed
qed (simp add: resolved_to_def)

lemma amount_of_notin: "a \<notin> fst ` set m \<Longrightarrow> amount_of m a = 0"
  by (simp add: amount_of_def map_of_eq_None_iff [THEN iffD2])

text \<open>Summing over the recipients.\<close>

lemma sum_amounts:
  assumes "distinct (map fst m)" "fst ` set m \<subseteq> A" "finite A"
  shows "(\<Sum>a \<in> A. amount_of m a) = sum_list (map snd m)"
proof -
  have "(\<Sum>a \<in> A. amount_of m a) = (\<Sum>a \<in> fst ` set m. amount_of m a)"
    by (rule sum.mono_neutral_right) (use assms(2,3) in \<open>auto simp: amount_of_notin\<close>)
  also have "\<dots> = (\<Sum>p \<in> set m. snd p)"
    by (rule sum.reindex_cong [where l = fst]) (use assms(1) in \<open>auto simp: distinct_map amount_of_def\<close>)
  also have "\<dots> = sum_list (map snd m)" using assms(1) by (simp add: distinct_map sum_list_distinct_conv_sum_set)
  finally show ?thesis .
qed

lemma sum_resolved_to:
  assumes "finite A" "\<forall>c \<in> set cs. Resolved c \<longrightarrow> bond_recipient game (ecClaim c) \<in> A"
  shows "(\<Sum>a \<in> A. resolved_to game cs a) = sum_list (map bond (filter Resolved cs))"
  using assms(2)
proof (induction cs)
  case (Cons c cs)
  have "resolved_to game (c # cs) a = (if Resolved c \<and> a = bond_recipient game (ecClaim c) then bond c else 0) + resolved_to game cs a" for a
    by (simp add: resolved_to_def)
  then show ?case using Cons assms(1) by (auto simp: sum.distrib)
qed (simp add: resolved_to_def)

lemma metrics_fold:
  "foldl (\<lambda>m r. let e = f r in m(e := m e + (1 :: nat))) m rs e = m e + length (filter (\<lambda>r. f r = e) rs)"
  by (induction rs arbitrary: m) (auto simp: Let_def)

lemma split_resolved: "sum_list (map bond (filter Resolved cs)) + sum_list (map bond (filter (\<lambda>c. \<not> Resolved c) cs)) = sum_list (map bond cs)"
  by (induction cs) auto

lemma all_equal:
  assumes "credit_expectation b x y \<notin> {CreditBelowWithdrawable, CreditAboveWithdrawable, CreditBelowNonWithdrawable, CreditAboveNonWithdrawable}"
  shows "x = y"
  using assms by (auto simp: credit_expectation_def split: if_splits)

text \<open>C38: Bonds are conserved. When the credit check of a game reports no recipient above or below the expected amount, the
  collateral required for that game is exactly the sum of the bonds of all its claims, resolved or not: what resolved claims
  have freed is owed as credit, no more and no less, whoever the recipients are.\<close>

theorem bonds_conserved:
  assumes "bonds_present game" "distinct (map fst (Credits game))" "checkCredits seconds now [game] = Inr m"
    "m CreditBelowWithdrawable = 0" "m CreditAboveWithdrawable = 0" "m CreditBelowNonWithdrawable = 0" "m CreditAboveNonWithdrawable = 0"
  shows "requiredCollateralForGame game = Inr (sum_list (map bond (Claims game)))"
proof -
  obtain ex where ex: "expected_loop game (Claims game) [] = Inr ex" "distinct (map fst ex)"
    "\<And>a. amount_of ex a = resolved_to game (Claims game) a"
    using expected_loop_spec [of "Claims game" game "[]"] assms(1) by (auto simp: bonds_present_def amount_of_def)
  let ?A = "set (allRecipients ex (Credits game))"
  let ?f = "\<lambda>r. credit_expectation (maxDurationReached seconds now game) (amount_of (Credits game) r) (amount_of ex r)"
  have m: "m e = length (filter (\<lambda>r. ?f r = e) (allRecipients ex (Credits game)))" for e
    using assms(3) metrics_fold [of ?f "\<lambda>_. 0" "allRecipients ex (Credits game)" e]
    by (auto simp: checkCredits_def game_credits_def ex(1))
  have none: "?f r \<noteq> e" if "r \<in> ?A" "m e = 0" for r e using that m [of e] by (auto simp: filter_empty_conv)
  have eq: "amount_of (Credits game) r = amount_of ex r" if "r \<in> ?A" for r
    using none [OF that] assms(4-7) by (intro all_equal [of "maxDurationReached seconds now game"]) blast
  have A: "fst ` set ex \<subseteq> ?A" "fst ` set (Credits game) \<subseteq> ?A" by (auto simp: allRecipients_def)
  have rest: "amount_of ex a = 0" if "a \<notin> ?A" for a
    using that A(1) by (intro amount_of_notin) blast
  define B where "B = ?A \<union> (\<lambda>c. bond_recipient game (ecClaim c)) ` set (Claims game)"
  have fB: "finite B" "?A \<subseteq> B" by (auto simp: B_def)
  have "sum_list (map snd (Credits game)) = (\<Sum>a \<in> ?A. amount_of (Credits game) a)"
    using sum_amounts [OF assms(2) A(2)] by simp
  also have "\<dots> = (\<Sum>a \<in> ?A. amount_of ex a)" by (rule sum.cong) (use eq in auto)
  also have "\<dots> = (\<Sum>a \<in> B. resolved_to game (Claims game) a)"
    unfolding ex(3) [symmetric] by (rule sum.mono_neutral_left) (use fB rest in auto)
  also have "\<dots> = sum_list (map bond (filter Resolved (Claims game)))"
    by (rule sum_resolved_to) (auto simp: B_def)
  finally show ?thesis using required_sum [OF assms(1)] split_resolved [of "Claims game"] by (simp add: game_required_def)
qed


definition bond_game :: EnrichedGameData where
  "bond_game = (mon_game GameStatusInProgress True 5
     [(mon_claim 1 RootPosition 0 0)\<lparr>ecClaim := (ecClaim (mon_claim 1 RootPosition 0 0))\<lparr>Bond := Some 10\<rparr>\<rparr>,
      (mon_claim 2 (Attack RootPosition) 0 1)\<lparr>ecClaim := (ecClaim (mon_claim 2 (Attack RootPosition) 0 1))\<lparr>Bond := Some 7,
          CounteredBy := replicate 20 1\<rparr>, Resolved := True\<rparr>])\<lparr>Credits := [(replicate 20 1, 7)]\<rparr>"

theorem required_collateral_witness:
  "\<exists>result. CalculateRequiredCollateral [bond_game, bond_game\<lparr>WETHContract := [1]\<rparr>] = Inr result \<and>
     result [] = Some \<lparr>Required = 17, Actual = 0\<rparr> \<and> result [2] = None"
proof -
  have "list_all bonds_present [bond_game, bond_game\<lparr>WETHContract := [1]\<rparr>]" by code_simp
  from required_collateral [OF this] obtain result where
    "CalculateRequiredCollateral [bond_game, bond_game\<lparr>WETHContract := [1]\<rparr>] = Inr result" and
    r: "\<And>a. result a = (if a \<in> WETHContract ` set [bond_game, bond_game\<lparr>WETHContract := [1]\<rparr>]
       then Some \<lparr>Required = sum_list (map game_required (filter (\<lambda>g. WETHContract g = a) [bond_game, bond_game\<lparr>WETHContract := [1]\<rparr>])),
                  Actual = ETHCollateral (hd (filter (\<lambda>g. WETHContract g = a) [bond_game, bond_game\<lparr>WETHContract := [1]\<rparr>]))\<rparr> else None)"
    by blast
  moreover have "game_required bond_game = 17" by code_simp
  moreover have "WETHContract bond_game = []" "ETHCollateral bond_game = 0" by (simp_all add: bond_game_def mon_game_def)
  ultimately show ?thesis by (simp add: r [of "[]"] r [of "[2]"])
qed

theorem bonds_conserved_witness:
  "requiredCollateralForGame bond_game = Inr 17"
proof -
  let ?s = "\<lambda>_. 0 :: uint64"
  have p: "bonds_present bond_game" "distinct (map fst (Credits bond_game))" by code_simp+
  obtain m where m: "checkCredits ?s 1000 [bond_game] = Inr m" "m CreditBelowWithdrawable = 0" "m CreditAboveWithdrawable = 0"
    "m CreditBelowNonWithdrawable = 0" "m CreditAboveNonWithdrawable = 0"
  proof -
    have "case checkCredits ?s 1000 [bond_game] of Inl _ \<Rightarrow> False | Inr m \<Rightarrow> m CreditBelowWithdrawable = 0 \<and>
      m CreditAboveWithdrawable = 0 \<and> m CreditBelowNonWithdrawable = 0 \<and> m CreditAboveNonWithdrawable = 0" by code_simp
    then show thesis using that by (auto split: sum.splits)
  qed
  have "sum_list (map bond (Claims bond_game)) = 17" by code_simp
  then show ?thesis using bonds_conserved [OF p m] by simp
qed

end
