(* ===== verification/MonClaims.thy ===== *)
theory MonClaims
  imports MonHonest MonBonds
begin

text \<open>
  The claim monitor (\<^verbatim>\<open>op-dispute-mon/mon/claims.go\<close>) with the claim statuses of
  \<^verbatim>\<open>op-dispute-mon/metrics/metrics.go\<close>, and the monitors of \<^verbatim>\<open>resolutions.go\<close>, \<^verbatim>\<open>update_times.go\<close>
  and \<^verbatim>\<open>l2_challenges.go\<close>. Durations are 64-bit signed nanoseconds, times unbounded nanoseconds.
\<close>

section \<open>Claim statuses and honest actors\<close>

record ClaimStatus =
  csResolved :: bool
  csClockExpired :: bool
  csFirstHalf :: bool
  csResolvable :: bool

definition NewClaimStatus :: "bool \<Rightarrow> bool \<Rightarrow> bool \<Rightarrow> bool \<Rightarrow> ClaimStatus" where
  "NewClaimStatus firstHalf clockExpired resolvable resolved =
    \<lparr>csResolved = resolved, csClockExpired = clockExpired, csFirstHalf = firstHalf, csResolvable = resolvable\<rparr>"

definition RecordClaim :: "(ClaimStatus \<Rightarrow> nat) \<Rightarrow> bool \<Rightarrow> bool \<Rightarrow> bool \<Rightarrow> bool \<Rightarrow> ClaimStatus \<Rightarrow> nat" where
  "RecordClaim statuses firstHalf clockExpired resolvable resolved =
    (let s = NewClaimStatus firstHalf clockExpired resolvable resolved in statuses(s := statuses s + 1))"

record HonestActorData =
  PendingClaimCount :: nat
  ValidClaimCount :: nat
  InvalidClaimCount :: nat
  PendingBonds :: int
  LostBonds :: int
  WonBonds :: int

definition zeroActor :: HonestActorData where
  "zeroActor = \<lparr>PendingClaimCount = 0, ValidClaimCount = 0, InvalidClaimCount = 0, PendingBonds = 0, LostBonds = 0, WonBonds = 0\<rparr>"

text \<open>The actors the monitor was configured with all have an entry in \<open>honest\<close>.\<close>

definition checkUpdateHonestActorStats ::
    "(bytes \<Rightarrow> bool) \<Rightarrow> EnrichedClaim \<Rightarrow> (bytes \<Rightarrow> HonestActorData) \<Rightarrow> mon_panic + (bytes \<Rightarrow> HonestActorData)" where
  "checkUpdateHonestActorStats honestActors claim honest =
    (let actor = Claimant (ecClaim claim);
         counter = CounteredBy (ecClaim claim) in
     if \<not> Resolved claim then
       (if honestActors actor then
          rbind (deref_amount (Bond (ecClaim claim))) (\<lambda>b.
            Inr (honest(actor := (honest actor)\<lparr>PendingClaimCount := PendingClaimCount (honest actor) + 1,
                                                 PendingBonds := PendingBonds (honest actor) + b\<rparr>)))
        else Inr honest)
     else rbind
       (if honestActors actor then
          (if counter \<noteq> zeroAddress then
             rbind (deref_amount (Bond (ecClaim claim))) (\<lambda>b.
               Inr (honest(actor := (honest actor)\<lparr>InvalidClaimCount := InvalidClaimCount (honest actor) + 1,
                                                    LostBonds := LostBonds (honest actor) + b\<rparr>)))
           else Inr (honest(actor := (honest actor)\<lparr>ValidClaimCount := ValidClaimCount (honest actor) + 1\<rparr>)))
        else Inr honest)
       (\<lambda>honest.
         if honestActors counter then
           rbind (deref_amount (Bond (ecClaim claim))) (\<lambda>b.
             Inr (honest(counter := (honest counter)\<lparr>WonBonds := WonBonds (honest counter) + b\<rparr>)))
         else Inr honest))"

section \<open>Resolvability\<close>

record claim_check =
  ccStatuses :: "ClaimStatus \<Rightarrow> nat"
  ccHonest :: "bytes \<Rightarrow> HonestActorData"
  ccMinTime :: "int \<Rightarrow> 64 word option"

definition maxChessTime :: "EnrichedGameData \<Rightarrow> 64 word" where
  "maxChessTime game = MaxClockDuration game * 1000000000"

text \<open>The body of the loop over the claims, which runs from the last claim to the first.\<close>

definition check_claim ::
    "(bytes \<Rightarrow> bool) \<Rightarrow> int \<Rightarrow> bool \<Rightarrow> EnrichedGameData \<Rightarrow> EnrichedClaim \<Rightarrow> claim_check \<Rightarrow> mon_panic + claim_check" where
  "check_claim honestActors now firstHalf game claim st =
    (let c = ecClaim claim in
     rbind (checkUpdateHonestActorStats honestActors claim (ccHonest st)) (\<lambda>honest.
     rbind (if IsRoot c then Inr zeroClaim
            else if 0 \<le> ParentContractIndex c \<and> ParentContractIndex c < int (length (Claims game))
                 then Inr (ecClaim (Claims game ! nat (ParentContractIndex c))) else Inl PanicIndexRange) (\<lambda>parent.
     let accumulatedTime = ChessClock now c parent;
         minAccumulatedTime = (case ccMinTime st (ContractIndex c) of
            None \<Rightarrow> accumulatedTime
          | Some t \<Rightarrow> if accumulatedTime <s t then accumulatedTime else t);
         minTime = (case ccMinTime st (ParentContractIndex c) of
            None \<Rightarrow> (ccMinTime st)(ParentContractIndex c \<mapsto> minAccumulatedTime)
          | Some t \<Rightarrow> if minAccumulatedTime <s t
                         then (ccMinTime st)(ParentContractIndex c \<mapsto> minAccumulatedTime) else ccMinTime st);
         clockExpired = maxChessTime game \<le>s accumulatedTime;
         resolvable = maxChessTime game \<le>s minAccumulatedTime
     in Inr \<lparr>ccStatuses = RecordClaim (ccStatuses st) firstHalf clockExpired resolvable (Resolved claim),
             ccHonest = honest, ccMinTime = minTime\<rparr>)))"

fun claims_loop ::
    "(bytes \<Rightarrow> bool) \<Rightarrow> int \<Rightarrow> bool \<Rightarrow> EnrichedGameData \<Rightarrow> nat \<Rightarrow> claim_check \<Rightarrow> mon_panic + claim_check" where
  "claims_loop honestActors now firstHalf game 0 st = Inr st"
| "claims_loop honestActors now firstHalf game (Suc i) st =
    rbind (check_claim honestActors now firstHalf game (Claims game ! i) st) (claims_loop honestActors now firstHalf game i)"

definition unix :: "int \<Rightarrow> uint64" where
  "unix now = of_int (now div 1000000000 - unixToInternal)"

definition checkGameClaims ::
    "(bytes \<Rightarrow> bool) \<Rightarrow> int \<Rightarrow> EnrichedGameData \<Rightarrow> (ClaimStatus \<Rightarrow> nat) \<times> (bytes \<Rightarrow> HonestActorData) \<Rightarrow>
     mon_panic + (ClaimStatus \<Rightarrow> nat) \<times> (bytes \<Rightarrow> HonestActorData)" where
  "checkGameClaims honestActors now game st =
    (let duration = unix now - gTimestamp game;
         firstHalf = (duration \<le> MaxClockDuration game)
     in rbind (claims_loop honestActors now firstHalf game (length (Claims game))
                 \<lparr>ccStatuses = fst st, ccHonest = snd st, ccMinTime = Map.empty\<rparr>) (\<lambda>r.
          Inr (ccStatuses r, ccHonest r)))"

fun check_claims_loop ::
    "(bytes \<Rightarrow> bool) \<Rightarrow> int \<Rightarrow> EnrichedGameData list \<Rightarrow> (ClaimStatus \<Rightarrow> nat) \<times> (bytes \<Rightarrow> HonestActorData) \<Rightarrow>
     mon_panic + (ClaimStatus \<Rightarrow> nat) \<times> (bytes \<Rightarrow> HonestActorData)" where
  "check_claims_loop honestActors now [] st = Inr st"
| "check_claims_loop honestActors now (game # games) st =
    rbind (checkGameClaims honestActors now game st) (check_claims_loop honestActors now games)"

definition CheckClaims ::
    "(bytes \<Rightarrow> bool) \<Rightarrow> int \<Rightarrow> EnrichedGameData list \<Rightarrow> mon_panic + (ClaimStatus \<Rightarrow> nat) \<times> (bytes \<Rightarrow> HonestActorData)" where
  "CheckClaims honestActors now games = check_claims_loop honestActors now games (\<lambda>_. 0, \<lambda>_. zeroActor)"

section \<open>Resolution status, update times and block number challenges\<close>

datatype ResolutionStatus =
    CompleteMaxDuration | CompleteBeforeMaxDuration | ResolvableMaxDuration | ResolvableBeforeMaxDuration
  | InProgressMaxDuration | InProgressBeforeMaxDuration

definition resolution_status :: "uint64 \<Rightarrow> EnrichedGameData \<Rightarrow> ResolutionStatus" where
  "resolution_status now game =
    (let complete = (Status game \<noteq> GameStatusInProgress);
         duration = now - gTimestamp game;
         maxDuration = (2 * MaxClockDuration game \<le> duration);
         resolvable = foldl (\<lambda>r c. r \<and> Resolved c) True (Claims game)
     in if complete then (if maxDuration then CompleteMaxDuration else CompleteBeforeMaxDuration)
        else if resolvable then (if maxDuration then ResolvableMaxDuration else ResolvableBeforeMaxDuration)
        else (if maxDuration then InProgressMaxDuration else InProgressBeforeMaxDuration))"

definition CheckResolutions :: "uint64 \<Rightarrow> EnrichedGameData list \<Rightarrow> ResolutionStatus \<Rightarrow> nat" where
  "CheckResolutions now games =
    foldl (\<lambda>m game. let s = resolution_status now game in m(s := m s + 1)) (\<lambda>_. 0) games"

definition CheckUpdateTimes :: "int \<Rightarrow> EnrichedGameData list \<Rightarrow> int" where
  "CheckUpdateTimes now games =
    foldl (\<lambda>earliest game. if LastUpdateTime game < earliest then LastUpdateTime game else earliest) now games"

definition CheckL2Challenges :: "EnrichedGameData list \<Rightarrow> nat \<times> nat" where
  "CheckL2Challenges games =
    foldl (\<lambda>(agree, disagree) game.
      if BlockNumberChallenged game then (if AgreeWithClaim game then (agree + 1, disagree) else (agree, disagree + 1))
      else (agree, disagree)) (0, 0) games"


section \<open>A claim is resolvable when every clock below it has expired\<close>

function below :: "Claim list \<Rightarrow> nat \<Rightarrow> nat \<Rightarrow> bool" where
  "below cs d i =
    (if d = i then True
     else if \<not> IsRoot (cs ! d) \<and> nat (ParentContractIndex (cs ! d)) < d
     then below cs (nat (ParentContractIndex (cs ! d))) i else False)"
  by pat_completeness auto
termination by (relation "measure (\<lambda>(cs, d, i). d)") auto

declare below.simps [simp del]

definition acc_time :: "int \<Rightarrow> Claim list \<Rightarrow> nat \<Rightarrow> 64 word" where
  "acc_time now cs i = ChessClock now (cs ! i) (if IsRoot (cs ! i) then zeroClaim else cs ! nat (ParentContractIndex (cs ! i)))"

definition claim_status :: "int \<Rightarrow> bool \<Rightarrow> EnrichedGameData \<Rightarrow> nat \<Rightarrow> ClaimStatus" where
  "claim_status now firstHalf game i =
    (let cs = map ecClaim (Claims game) in
     NewClaimStatus firstHalf (maxChessTime game \<le>s acc_time now cs i)
       (list_all (\<lambda>d. below cs d i \<longrightarrow> maxChessTime game \<le>s acc_time now cs d) [0..<length cs])
       (Resolved (Claims game ! i)))"

definition one_root :: "Claim list \<Rightarrow> bool" where
  "one_root cs \<longleftrightarrow> list_all (\<lambda>i. IsRoot (cs ! i) \<longleftrightarrow> i = 0) [0..<length cs]"

lemma below_le: "below cs d i \<Longrightarrow> i \<le> d"
proof (induction d rule: less_induct)
  case (less d)
  then show ?case by (subst (asm) (2) below.simps) (force split: if_splits)
qed

lemma below_step:
  assumes "parents_ok cs" "d < length cs" "i < d"
  shows "below cs d i \<longleftrightarrow> (\<exists>c. c < length cs \<and> \<not> IsRoot (cs ! c) \<and> ParentContractIndex (cs ! c) = int i \<and> below cs d c)"
  using assms(2,3)
proof (induction d rule: less_induct)
  case (less d)
  let ?p = "nat (ParentContractIndex (cs ! d))"
  have p: "\<not> IsRoot (cs ! d) \<Longrightarrow> ?p < d \<and> int ?p = ParentContractIndex (cs ! d)"
    using parents_okD(2) [OF assms(1) less.prems(1)] by (auto simp: nat_less_iff)
  have up: "below cs d j \<longleftrightarrow> d = j \<or> (\<not> IsRoot (cs ! d) \<and> below cs ?p j)" for j
    using p by (subst below.simps) auto
  show ?case
  proof (cases "IsRoot (cs ! d)")
    case True
    then show ?thesis using up less.prems(2) by auto
  next
    case False
    show ?thesis
    proof (cases "?p = i")
      case True
      then show ?thesis using False up [of i] up [of d] p less.prems by (auto intro!: exI [of _ d] simp: below.simps [of cs i i])
    next
      case ne: False
      have "below cs d i \<longleftrightarrow> below cs ?p i" using up [of i] less.prems(2) False by auto
      also have "\<dots> \<longleftrightarrow> (\<exists>c. c < length cs \<and> \<not> IsRoot (cs ! c) \<and> ParentContractIndex (cs ! c) = int i \<and> below cs ?p c)"
      proof (cases "i < ?p")
        case True
        then show ?thesis using less.IH [of ?p] p [OF False] less.prems(1) by simp
      next
        case le: False
        then have "\<not> below cs ?p i" using ne below_le [of cs ?p i] by auto
        moreover have "i < c" if "c < length cs" "\<not> IsRoot (cs ! c)" "ParentContractIndex (cs ! c) = int i" for c
          using parents_okD(2) [OF assms(1) that(1,2)] that(3) by simp
        ultimately show ?thesis using le below_le [of cs ?p] ne by fastforce
      qed
      also have "\<dots> \<longleftrightarrow> (\<exists>c. c < length cs \<and> \<not> IsRoot (cs ! c) \<and> ParentContractIndex (cs ! c) = int i \<and> below cs d c)"
        using up p [OF False] ne False by (metis nat_int)
      finally show ?thesis .
    qed
  qed
qed


text \<open>The loop keeps, for every claim not yet visited, the least accumulated time below its visited children.\<close>

definition min_of :: "(nat \<Rightarrow> 64 word) \<Rightarrow> 64 word option \<Rightarrow> nat set \<Rightarrow> bool" where
  "min_of acc m S \<longleftrightarrow> (case m of None \<Rightarrow> S = {} | Some t \<Rightarrow> \<exists>d \<in> S. t = acc d \<and> (\<forall>e \<in> S. t \<le>s acc e))"

lemma min_of_union:
  assumes "min_of acc m S" "min_of acc (Some t) T"
  shows "min_of acc (Some (case m of None \<Rightarrow> t | Some c \<Rightarrow> if t <s c then t else c)) (S \<union> T)"
proof (cases m)
  case None
  then show ?thesis using assms by (simp add: min_of_def)
next
  case (Some c)
  from assms(1) Some obtain d where d: "d \<in> S" "c = acc d" "\<And>e. e \<in> S \<Longrightarrow> c \<le>s acc e" by (auto simp: min_of_def)
  from assms(2) obtain d' where d': "d' \<in> T" "t = acc d'" "\<And>e. e \<in> T \<Longrightarrow> t \<le>s acc e" by (auto simp: min_of_def)
  show ?thesis
  proof (cases "t <s c")
    case True
    have "t \<le>s acc e" if "e \<in> S \<union> T" for e
      using that d(3) [of e] d'(3) [of e] True by (auto simp: word_sle_eq word_sless_alt)
    then show ?thesis using True Some d' by (auto simp: min_of_def)
  next
    case False
    have "c \<le>s acc e" if "e \<in> S \<union> T" for e
      using that d(3) [of e] d'(3) [of e] False by (auto simp: word_sle_eq word_sless_alt)
    then show ?thesis using False Some d by (auto simp: min_of_def)
  qed
qed

lemma min_of_single: "min_of acc (Some (acc x)) {x}"
  by (simp add: min_of_def)

lemma min_of_all: "min_of acc (Some t) S \<Longrightarrow> L \<le>s t \<longleftrightarrow> (\<forall>d \<in> S. L \<le>s acc d)"
  by (force simp: min_of_def word_sle_eq)

definition pending :: "Claim list \<Rightarrow> nat \<Rightarrow> nat \<Rightarrow> nat set" where
  "pending cs k i = {d. d < length cs \<and>
     (\<exists>c. k \<le> c \<and> c < length cs \<and> \<not> IsRoot (cs ! c) \<and> ParentContractIndex (cs ! c) = int i \<and> below cs d c)}"

lemma pending_self:
  assumes "parents_ok cs" "k < length cs"
  shows "pending cs (Suc k) k \<union> {k} = {d. d < length cs \<and> below cs d k}"
proof -
  have c: "Suc k \<le> c" if "c < length cs" "\<not> IsRoot (cs ! c)" "ParentContractIndex (cs ! c) = int k" for c
    using parents_okD(2) [OF assms(1) that(1,2)] that(3) by simp
  have "d \<in> pending cs (Suc k) k \<union> {k} \<longleftrightarrow> below cs d k" if "d < length cs" for d
  proof (cases "d \<le> k")
    case True
    have "d \<notin> pending cs (Suc k) k" using True below_le [of cs d] by (force simp: pending_def)
    moreover have "below cs d k \<longleftrightarrow> d = k" using True below_le [of cs d k] by (auto simp: below.simps [of cs k k])
    ultimately show ?thesis by simp
  next
    case False
    then show ?thesis using below_step [OF assms(1) that, of k] c that by (auto simp: pending_def)
  qed
  moreover have "d < length cs" if "d \<in> pending cs (Suc k) k \<union> {k}" for d using that assms(2) by (auto simp: pending_def)
  ultimately show ?thesis by blast
qed

lemma pending_next:
  assumes "k < length cs"
  shows "pending cs k i = pending cs (Suc k) i \<union>
    (if \<not> IsRoot (cs ! k) \<and> ParentContractIndex (cs ! k) = int i then {d. d < length cs \<and> below cs d k} else {})"
proof -
  have "k \<le> c \<longleftrightarrow> c = k \<or> Suc k \<le> c" for c by auto
  then show ?thesis using assms by (auto simp: pending_def)
qed

definition min_inv :: "int \<Rightarrow> Claim list \<Rightarrow> nat \<Rightarrow> (int \<Rightarrow> 64 word option) \<Rightarrow> bool" where
  "min_inv now cs k m \<longleftrightarrow> (\<forall>i < k. min_of (acc_time now cs) (m (int i)) (pending cs k i))"

lemma min_inv_start: "min_inv now cs (length cs) Map.empty"
  by (auto simp: min_inv_def min_of_def pending_def)

lemma check_claim_result:
  assumes "parents_ok (map ecClaim (Claims game))" "one_root (map ecClaim (Claims game))" "k < length (Claims game)"
    "min_inv now (map ecClaim (Claims game)) (Suc k) (ccMinTime st)"
    "checkUpdateHonestActorStats honestActors (Claims game ! k) (ccHonest st) = Inr h"
  shows "\<exists>m. check_claim honestActors now firstHalf game (Claims game ! k) st =
      Inr \<lparr>ccStatuses = (ccStatuses st)(claim_status now firstHalf game k := ccStatuses st (claim_status now firstHalf game k) + 1),
           ccHonest = h, ccMinTime = m\<rparr> \<and> min_inv now (map ecClaim (Claims game)) k m"
proof -
  let ?cs = "map ecClaim (Claims game)"
  let ?c = "?cs ! k" and ?acc = "acc_time now ?cs"
  have c: "ecClaim (Claims game ! k) = ?c" using assms(3) by simp
  have root: "IsRoot ?c \<longleftrightarrow> k = 0" using assms(2,3) by (simp add: one_root_def list_all_iff)
  note po = parents_okD [OF assms(1), of k, simplified, OF assms(3)]
  have ci: "ContractIndex ?c = int k" using po(1) assms(3) by simp
  have par: "\<not> IsRoot ?c \<Longrightarrow> 0 \<le> ParentContractIndex ?c \<and> ParentContractIndex ?c < int k" using po(2) assms(3) by simp
  define t where "t = (case ccMinTime st (int k) of None \<Rightarrow> ?acc k | Some t \<Rightarrow> if ?acc k <s t then ?acc k else t)"
  have "min_of ?acc (ccMinTime st (int k)) (pending ?cs (Suc k) k)" using assms(4) by (simp add: min_inv_def)
  from min_of_union [OF this min_of_single [of _ k]] have mt: "min_of ?acc (Some t) {d. d < length ?cs \<and> below ?cs d k}"
    using pending_self [OF assms(1), of k] assms(3) unfolding t_def by simp
  define m where "m = (case ccMinTime st (ParentContractIndex ?c) of
      None \<Rightarrow> (ccMinTime st)(ParentContractIndex ?c \<mapsto> t)
    | Some u \<Rightarrow> if t <s u then (ccMinTime st)(ParentContractIndex ?c \<mapsto> t) else ccMinTime st)"
  have mi: "min_inv now ?cs k m"
    unfolding min_inv_def
  proof (intro allI impI)
    fix i assume i: "i < k"
    have old: "min_of ?acc (ccMinTime st (int i)) (pending ?cs (Suc k) i)" using assms(4) i by (simp add: min_inv_def)
    show "min_of ?acc (m (int i)) (pending ?cs k i)"
    proof (cases "ParentContractIndex ?c = int i")
      case True
      have "m (int i) = Some (case ccMinTime st (int i) of None \<Rightarrow> t | Some u \<Rightarrow> if t <s u then t else u)"
        by (auto simp: m_def True split: option.split)
      then show ?thesis
        using min_of_union [OF old mt] pending_next [of k ?cs i] True root i assms(3) by simp
    next
      case False
      then have "m (int i) = ccMinTime st (int i)" by (auto simp: m_def split: option.split)
      then show ?thesis using old pending_next [of k ?cs i] False assms(3) by simp
    qed
  qed
  have lk: "(if IsRoot ?c then Inr zeroClaim
      else if 0 \<le> ParentContractIndex ?c \<and> ParentContractIndex ?c < int (length (Claims game))
           then Inr (ecClaim (Claims game ! nat (ParentContractIndex ?c))) else Inl PanicIndexRange) =
     Inr (if IsRoot ?c then zeroClaim else ?cs ! nat (ParentContractIndex ?c))"
  proof (cases "IsRoot ?c")
    case False
    then have "0 \<le> ParentContractIndex ?c" "ParentContractIndex ?c < int (length (Claims game))" using par assms(3) by simp_all
    then show ?thesis using False by (simp add: nat_less_iff)
  qed simp
  have at: "ChessClock now ?c (if IsRoot ?c then zeroClaim else ?cs ! nat (ParentContractIndex ?c)) = ?acc k"
    by (simp add: acc_time_def)
  have st: "RecordClaim (ccStatuses st) firstHalf (maxChessTime game \<le>s ?acc k) (maxChessTime game \<le>s t) (Resolved (Claims game ! k)) =
     (ccStatuses st)(claim_status now firstHalf game k := ccStatuses st (claim_status now firstHalf game k) + 1)"
  proof -
    have "maxChessTime game \<le>s t \<longleftrightarrow>
        list_all (\<lambda>d. below ?cs d k \<longrightarrow> maxChessTime game \<le>s ?acc d) [0..<length ?cs]"
      using min_of_all [OF mt, of "maxChessTime game"] by (auto simp: list_all_iff)
    then show ?thesis by (simp only: RecordClaim_def claim_status_def Let_def)
  qed
  show ?thesis
    unfolding check_claim_def assms(5) Let_def c rbind_simps lk at ci
    unfolding t_def [symmetric] m_def [symmetric] st
    using mi by blast
qed


section \<open>The books of the honest actors\<close>

definition count_claims :: "(EnrichedClaim \<Rightarrow> bool) \<Rightarrow> EnrichedClaim list \<Rightarrow> nat" where
  "count_claims P cs = length (filter P cs)"

definition sum_bonds :: "(EnrichedClaim \<Rightarrow> bool) \<Rightarrow> EnrichedClaim list \<Rightarrow> int" where
  "sum_bonds P cs = sum_list (map bond (filter P cs))"

definition by_actor :: "bytes \<Rightarrow> EnrichedClaim \<Rightarrow> bool" where
  "by_actor a c \<longleftrightarrow> Claimant (ecClaim c) = a"

definition is_countered :: "EnrichedClaim \<Rightarrow> bool" where
  "is_countered c \<longleftrightarrow> CounteredBy (ecClaim c) \<noteq> zeroAddress"

text \<open>What the monitor should have recorded for an actor.\<close>

definition actor_books :: "bytes \<Rightarrow> EnrichedClaim list \<Rightarrow> HonestActorData" where
  "actor_books a cs =
    \<lparr>PendingClaimCount = count_claims (\<lambda>c. by_actor a c \<and> \<not> Resolved c) cs,
     ValidClaimCount = count_claims (\<lambda>c. by_actor a c \<and> Resolved c \<and> \<not> is_countered c) cs,
     InvalidClaimCount = count_claims (\<lambda>c. by_actor a c \<and> Resolved c \<and> is_countered c) cs,
     PendingBonds = sum_bonds (\<lambda>c. by_actor a c \<and> \<not> Resolved c) cs,
     LostBonds = sum_bonds (\<lambda>c. by_actor a c \<and> Resolved c \<and> is_countered c) cs,
     WonBonds = sum_bonds (\<lambda>c. Resolved c \<and> CounteredBy (ecClaim c) = a) cs\<rparr>"

definition add_books :: "HonestActorData \<Rightarrow> HonestActorData \<Rightarrow> HonestActorData" where
  "add_books x y = \<lparr>PendingClaimCount = PendingClaimCount x + PendingClaimCount y,
     ValidClaimCount = ValidClaimCount x + ValidClaimCount y, InvalidClaimCount = InvalidClaimCount x + InvalidClaimCount y,
     PendingBonds = PendingBonds x + PendingBonds y, LostBonds = LostBonds x + LostBonds y, WonBonds = WonBonds x + WonBonds y\<rparr>"

lemma update_stats:
  assumes "Bond (ecClaim c) \<noteq> None"
  shows "checkUpdateHonestActorStats honestActors c honest =
    Inr (\<lambda>a. if honestActors a then add_books (honest a) (actor_books a [c]) else honest a)"
  using assms
  by (auto simp: checkUpdateHonestActorStats_def deref_bond add_books_def actor_books_def count_claims_def sum_bonds_def
      by_actor_def is_countered_def Let_def fun_eq_iff)

lemma add_books_assoc: "add_books (add_books x y) z = add_books x (add_books y z)"
  by (simp add: add_books_def)

lemma actor_books_Cons: "actor_books a (c # cs) = add_books (actor_books a [c]) (actor_books a cs)"
  by (simp add: actor_books_def add_books_def count_claims_def sum_bonds_def)

lemma actor_books_snoc: "actor_books a (cs @ [c]) = add_books (actor_books a [c]) (actor_books a cs)"
  by (simp add: actor_books_def add_books_def count_claims_def sum_bonds_def)

lemma add_books_zero: "add_books x (actor_books a []) = x" "add_books zeroActor y = y"
  by (simp_all add: actor_books_def add_books_def count_claims_def sum_bonds_def zeroActor_def)

lemma claims_loop_result:
  assumes "parents_ok (map ecClaim (Claims game))" "one_root (map ecClaim (Claims game))" "bonds_present game"
    "k \<le> length (Claims game)" "min_inv now (map ecClaim (Claims game)) k (ccMinTime st)"
  shows "\<exists>r. claims_loop honestActors now firstHalf game k st = Inr r \<and>
    (\<forall>s. ccStatuses r s = ccStatuses st s + length (filter (\<lambda>i. claim_status now firstHalf game i = s) [0..<k])) \<and>
    (\<forall>a. honestActors a \<longrightarrow> ccHonest r a = add_books (ccHonest st a) (actor_books a (take k (Claims game))))"
  using assms(4,5)
proof (induction k arbitrary: st)
  case 0
  then show ?case by (simp add: add_books_zero)
next
  case (Suc k)
  then have k: "k < length (Claims game)" by simp
  have b: "Bond (ecClaim (Claims game ! k)) \<noteq> None" using assms(3) k by (auto simp: bonds_present_def list_all_length)
  from check_claim_result [OF assms(1,2) k Suc.prems(2) update_stats [OF b], of honestActors firstHalf] obtain m where
    m: "check_claim honestActors now firstHalf game (Claims game ! k) st =
      Inr \<lparr>ccStatuses = (ccStatuses st)(claim_status now firstHalf game k := ccStatuses st (claim_status now firstHalf game k) + 1),
           ccHonest = (\<lambda>a. if honestActors a then add_books (ccHonest st a) (actor_books a [Claims game ! k]) else ccHonest st a),
           ccMinTime = m\<rparr>" "min_inv now (map ecClaim (Claims game)) k m" by blast
  let ?st = "\<lparr>ccStatuses = (ccStatuses st)(claim_status now firstHalf game k := ccStatuses st (claim_status now firstHalf game k) + 1),
           ccHonest = (\<lambda>a. if honestActors a then add_books (ccHonest st a) (actor_books a [Claims game ! k]) else ccHonest st a),
           ccMinTime = m\<rparr>"
  have "min_inv now (map ecClaim (Claims game)) k (ccMinTime ?st)" "k \<le> length (Claims game)" using m(2) k by simp_all
  from Suc.IH [OF this(2,1)] obtain r where r: "claims_loop honestActors now firstHalf game k ?st = Inr r"
    "\<And>s. ccStatuses r s = ccStatuses ?st s + length (filter (\<lambda>i. claim_status now firstHalf game i = s) [0..<k])"
    "\<And>a. honestActors a \<Longrightarrow> ccHonest r a = add_books (ccHonest ?st a) (actor_books a (take k (Claims game)))" by blast
  then show ?case
    using m(1) by (auto simp: take_Suc_conv_app_nth [OF k] actor_books_snoc add_books_assoc)
qed

text \<open>C37: The claim monitor reports every claim of a game with the right status. A claim counts as resolvable exactly when
  its own clock and the clocks of all claims below it have run out, although the code visits every claim once and keeps only a
  running minimum per parent. The books of each honest actor are exact: claims pending, won and lost and the bonds of each
  kind. No claim is missed, and the check does not panic on claims that come after their parents.\<close>

theorem claim_monitor_exact:
  assumes "parents_ok (map ecClaim (Claims game))" "one_root (map ecClaim (Claims game))" "bonds_present game"
  shows "\<exists>statuses honest. CheckClaims honestActors now [game] = Inr (statuses, honest) \<and>
    (\<forall>s. statuses s = length (filter (\<lambda>i. claim_status now (unix now - gTimestamp game \<le> MaxClockDuration game) game i = s)
       [0..<length (Claims game)])) \<and>
    (\<forall>a. honestActors a \<longrightarrow> honest a = actor_books a (Claims game))"
  using claims_loop_result [OF assms order_refl, of now
    "\<lparr>ccStatuses = \<lambda>_. 0, ccHonest = \<lambda>_. zeroActor, ccMinTime = Map.empty\<rparr>" honestActors
    "unix now - gTimestamp game \<le> MaxClockDuration game"] min_inv_start [of now "map ecClaim (Claims game)"]
  by (auto simp: CheckClaims_def checkGameClaims_def Let_def add_books_zero)

theorem claim_monitor_exact_witness:
  "\<exists>statuses honest. CheckClaims (\<lambda>a. a = replicate 20 1) 0 [bond_game] = Inr (statuses, honest) \<and>
     WonBonds (honest (replicate 20 1)) = 7 \<and> PendingBonds (honest (replicate 20 1)) = 10"
proof -
  have "parents_ok (map ecClaim (Claims bond_game))" "one_root (map ecClaim (Claims bond_game))" "bonds_present bond_game"
    by code_simp+
  from claim_monitor_exact [OF this, of "\<lambda>a. a = replicate 20 1" 0] obtain statuses honest where
    "CheckClaims (\<lambda>a. a = replicate 20 1) 0 [bond_game] = Inr (statuses, honest)"
    "honest (replicate 20 1) = actor_books (replicate 20 1) (Claims bond_game)" by blast
  moreover have "WonBonds (actor_books (replicate 20 1) (Claims bond_game)) = 7"
    "PendingBonds (actor_books (replicate 20 1) (Claims bond_game)) = 10" by code_simp+
  ultimately show ?thesis by auto
qed

end
