(* ===== verification/RollupConfig.thy ===== *)
theory RollupConfig
  imports Prelude
begin

text \<open>
  The rollup configuration and the chain specification (\<^verbatim>\<open>op-node/rollup/{types,chain_spec}.go\<close>): the checks of a
  configuration, activation of hard forks by timestamp, the constants that depend on them, block numbers and
  timestamps. Of \<^verbatim>\<open>Config\<close> the field \<^verbatim>\<open>ChainOpConfig\<close>, of a type of go-ethereum that this code does not read, is left out.
\<close>

type_synonym Hash = "256 word"
type_synonym Address = "160 word"

section \<open>Block references and the configuration\<close>

record BlockID =
  bHash :: Hash
  bNumber :: uint64

record L1BlockRef =
  l1Hash :: Hash
  l1Number :: uint64
  l1ParentHash :: Hash
  l1Time :: uint64

record L2BlockRef =
  l2Hash :: Hash
  l2Number :: uint64
  l2ParentHash :: Hash
  l2Time :: uint64
  L1Origin :: BlockID
  SequenceNumber :: uint64

record SystemConfig =
  BatcherAddr :: Address
  Overhead :: Hash
  Scalar :: Hash
  GasLimit :: uint64
  EIP1559Params :: uint64
  OperatorFeeParams :: Hash
  MarshalPreHolocene :: bool

record Genesis =
  gL1 :: BlockID
  gL2 :: BlockID
  gL2Time :: uint64
  gSystemConfig :: SystemConfig

record AltDAConfig =
  DAChallengeAddress :: Address
  CommitmentType :: string
  DAChallengeWindow :: uint64
  DAResolveWindow :: uint64

record Config =
  cGenesis :: Genesis
  BlockTime :: uint64
  cMaxSequencerDrift :: uint64
  SeqWindowSize :: uint64
  ChannelTimeoutBedrock :: uint64
  L1ChainID :: "int option"
  L2ChainID :: "int option"
  RegolithTime :: "uint64 option"
  CanyonTime :: "uint64 option"
  DeltaTime :: "uint64 option"
  EcotoneTime :: "uint64 option"
  FjordTime :: "uint64 option"
  GraniteTime :: "uint64 option"
  HoloceneTime :: "uint64 option"
  IsthmusTime :: "uint64 option"
  JovianTime :: "uint64 option"
  InteropTime :: "uint64 option"
  BatchInboxAddress :: Address
  DepositContractAddress :: Address
  L1SystemConfigAddress :: Address
  ProtocolVersionsAddress :: Address
  cAltDAConfig :: "AltDAConfig option"
  PectraBlobScheduleTime :: "uint64 option"

text \<open>A fork name is a Go string; \<open>OtherFork s\<close> is any string that is not one of the constants, the zero value
  \<open>OtherFork ''''\<close> included.\<close>

datatype ForkName = Bedrock | Regolith | Canyon | Delta | Ecotone | Fjord | Granite | Holocene | Isthmus | Jovian | Interop
  | NoneFork | OtherFork string

datatype config_error =
    ErrBlockTimeZero | ErrMissingChannelTimeout | ErrInvalidSeqWindowSize | ErrInvalidMaxSeqDrift | ErrMissingGenesisL1Hash
  | ErrMissingGenesisL2Hash | ErrGenesisHashesSame | ErrMissingGenesisL2Time | ErrMissingBatcherAddr | ErrMissingScalar
  | ErrMissingGasLimit | ErrMissingBatchInboxAddress | ErrMissingDepositContractAddress | ErrMissingL1ChainID
  | ErrMissingL2ChainID | ErrChainIDsSame | ErrL1ChainIDNotPositive | ErrL2ChainIDNotPositive
  | InvalidCommitmentType string | MissingChallengeAddress | UnexpectedChallengeAddress
  | PriorForkMissing ForkName ForkName | PriorForkHigher ForkName ForkName
  | BeforeGenesis | DivideByZero | InvalidFork

section \<open>Checks of a configuration\<close>

definition KeccakCommitmentString :: string where "KeccakCommitmentString = ''KeccakCommitment''"
definition GenericCommitmentString :: string where "GenericCommitmentString = ''GenericCommitment''"

definition validateAltDAConfig :: "Config \<Rightarrow> config_error option" where
  "validateAltDAConfig cfg =
    (case cAltDAConfig cfg of
       None \<Rightarrow> None
     | Some da \<Rightarrow>
        if \<not> (CommitmentType da = KeccakCommitmentString \<or> CommitmentType da = GenericCommitmentString)
        then Some (InvalidCommitmentType (CommitmentType da))
        else if CommitmentType da = KeccakCommitmentString \<and> DAChallengeAddress da = 0 then Some MissingChallengeAddress
        else if CommitmentType da = GenericCommitmentString \<and> DAChallengeAddress da \<noteq> 0 then Some UnexpectedChallengeAddress
        else None)"

definition checkFork :: "uint64 option \<Rightarrow> uint64 option \<Rightarrow> ForkName \<Rightarrow> ForkName \<Rightarrow> config_error option" where
  "checkFork a b aName bName =
    (case (a, b) of
       (None, None) \<Rightarrow> None
     | (None, Some _) \<Rightarrow> Some (PriorForkMissing bName aName)
     | (Some _, None) \<Rightarrow> None
     | (Some a, Some b) \<Rightarrow> if b < a then Some (PriorForkHigher bName aName) else None)"

text \<open>The first error of a sequence of checks.\<close>

fun first_error :: "'e option list \<Rightarrow> 'e option" where
  "first_error [] = None"
| "first_error (None # es) = first_error es"
| "first_error (Some e # es) = Some e"

definition fails :: "bool \<Rightarrow> 'e \<Rightarrow> 'e option" where
  "fails b e = (if b then Some e else None)"

definition Check :: "Config \<Rightarrow> config_error option" where
  "Check cfg = first_error
    [fails (BlockTime cfg = 0) ErrBlockTimeZero,
     fails (ChannelTimeoutBedrock cfg = 0) ErrMissingChannelTimeout,
     fails (SeqWindowSize cfg < 2) ErrInvalidSeqWindowSize,
     fails (cMaxSequencerDrift cfg = 0) ErrInvalidMaxSeqDrift,
     fails (bHash (gL1 (cGenesis cfg)) = 0) ErrMissingGenesisL1Hash,
     fails (bHash (gL2 (cGenesis cfg)) = 0) ErrMissingGenesisL2Hash,
     fails (bHash (gL2 (cGenesis cfg)) = bHash (gL1 (cGenesis cfg))) ErrGenesisHashesSame,
     fails (gL2Time (cGenesis cfg) = 0) ErrMissingGenesisL2Time,
     fails (BatcherAddr (gSystemConfig (cGenesis cfg)) = 0) ErrMissingBatcherAddr,
     fails (Scalar (gSystemConfig (cGenesis cfg)) = 0) ErrMissingScalar,
     fails (GasLimit (gSystemConfig (cGenesis cfg)) = 0) ErrMissingGasLimit,
     fails (BatchInboxAddress cfg = 0) ErrMissingBatchInboxAddress,
     fails (DepositContractAddress cfg = 0) ErrMissingDepositContractAddress,
     fails (L1ChainID cfg = None) ErrMissingL1ChainID,
     fails (L2ChainID cfg = None) ErrMissingL2ChainID,
     fails (L1ChainID cfg = L2ChainID cfg) ErrChainIDsSame,
     fails (case L1ChainID cfg of None \<Rightarrow> False | Some i \<Rightarrow> i < 1) ErrL1ChainIDNotPositive,
     fails (case L2ChainID cfg of None \<Rightarrow> False | Some i \<Rightarrow> i < 1) ErrL2ChainIDNotPositive,
     validateAltDAConfig cfg,
     checkFork (RegolithTime cfg) (CanyonTime cfg) Regolith Canyon,
     checkFork (CanyonTime cfg) (DeltaTime cfg) Canyon Delta,
     checkFork (DeltaTime cfg) (EcotoneTime cfg) Delta Ecotone,
     checkFork (EcotoneTime cfg) (FjordTime cfg) Ecotone Fjord,
     checkFork (FjordTime cfg) (GraniteTime cfg) Fjord Granite,
     checkFork (GraniteTime cfg) (HoloceneTime cfg) Granite Holocene,
     checkFork (HoloceneTime cfg) (IsthmusTime cfg) Holocene Isthmus]"

section \<open>Fork activation\<close>

definition active_at :: "uint64 option \<Rightarrow> uint64 \<Rightarrow> bool" where
  "active_at forkTime timestamp = (case forkTime of None \<Rightarrow> False | Some t \<Rightarrow> t \<le> timestamp)"

definition IsRegolith :: "Config \<Rightarrow> uint64 \<Rightarrow> bool" where "IsRegolith c t = active_at (RegolithTime c) t"
definition IsCanyon :: "Config \<Rightarrow> uint64 \<Rightarrow> bool" where "IsCanyon c t = active_at (CanyonTime c) t"
definition IsDelta :: "Config \<Rightarrow> uint64 \<Rightarrow> bool" where "IsDelta c t = active_at (DeltaTime c) t"
definition IsEcotone :: "Config \<Rightarrow> uint64 \<Rightarrow> bool" where "IsEcotone c t = active_at (EcotoneTime c) t"
definition IsFjord :: "Config \<Rightarrow> uint64 \<Rightarrow> bool" where "IsFjord c t = active_at (FjordTime c) t"
definition IsGranite :: "Config \<Rightarrow> uint64 \<Rightarrow> bool" where "IsGranite c t = active_at (GraniteTime c) t"
definition IsHolocene :: "Config \<Rightarrow> uint64 \<Rightarrow> bool" where "IsHolocene c t = active_at (HoloceneTime c) t"
definition IsIsthmus :: "Config \<Rightarrow> uint64 \<Rightarrow> bool" where "IsIsthmus c t = active_at (IsthmusTime c) t"
definition IsJovian :: "Config \<Rightarrow> uint64 \<Rightarrow> bool" where "IsJovian c t = active_at (JovianTime c) t"
definition IsInterop :: "Config \<Rightarrow> uint64 \<Rightarrow> bool" where "IsInterop c t = active_at (InteropTime c) t"

text \<open>The ten functions \<^verbatim>\<open>Is...ActivationBlock\<close> have the same body over the fork's own check.\<close>

definition activation_block :: "(Config \<Rightarrow> uint64 \<Rightarrow> bool) \<Rightarrow> Config \<Rightarrow> uint64 \<Rightarrow> bool" where
  "activation_block isFork c l2BlockTime \<longleftrightarrow>
     isFork c l2BlockTime \<and> BlockTime c \<le> l2BlockTime \<and> \<not> isFork c (l2BlockTime - BlockTime c)"

definition IsRegolithActivationBlock where "IsRegolithActivationBlock = activation_block IsRegolith"
definition IsCanyonActivationBlock where "IsCanyonActivationBlock = activation_block IsCanyon"
definition IsDeltaActivationBlock where "IsDeltaActivationBlock = activation_block IsDelta"
definition IsEcotoneActivationBlock where "IsEcotoneActivationBlock = activation_block IsEcotone"
definition IsFjordActivationBlock where "IsFjordActivationBlock = activation_block IsFjord"
definition IsGraniteActivationBlock where "IsGraniteActivationBlock = activation_block IsGranite"
definition IsHoloceneActivationBlock where "IsHoloceneActivationBlock = activation_block IsHolocene"
definition IsIsthmusActivationBlock where "IsIsthmusActivationBlock = activation_block IsIsthmus"
definition IsJovianActivationBlock where "IsJovianActivationBlock = activation_block IsJovian"
definition IsInteropActivationBlock where "IsInteropActivationBlock = activation_block IsInterop"

definition IsActivationBlock :: "Config \<Rightarrow> uint64 \<Rightarrow> uint64 \<Rightarrow> ForkName" where
  "IsActivationBlock c oldTime newTime =
    (if IsHolocene c newTime \<and> \<not> IsHolocene c oldTime then Holocene else OtherFork '''')"

text \<open>\<^verbatim>\<open>fork_rank\<close> is the place of a fork in the cascade of \<^verbatim>\<open>ActivateAtGenesis\<close>, whose cases fall through from the
  newest fork to the oldest.\<close>

fun fork_rank :: "ForkName \<Rightarrow> nat" where
  "fork_rank Bedrock = 0" | "fork_rank Regolith = 1" | "fork_rank Canyon = 2" | "fork_rank Delta = 3" | "fork_rank Ecotone = 4"
| "fork_rank Fjord = 5" | "fork_rank Granite = 6" | "fork_rank Holocene = 7" | "fork_rank Isthmus = 8" | "fork_rank Jovian = 9"
| "fork_rank Interop = 10" | "fork_rank NoneFork = 0" | "fork_rank (OtherFork _) = 0"

function ActivateAtGenesis :: "ForkName \<Rightarrow> Config \<Rightarrow> Config" where
  "ActivateAtGenesis Interop c = ActivateAtGenesis Jovian (c\<lparr>InteropTime := Some 0\<rparr>)"
| "ActivateAtGenesis Jovian c = ActivateAtGenesis Isthmus (c\<lparr>JovianTime := Some 0\<rparr>)"
| "ActivateAtGenesis Isthmus c = ActivateAtGenesis Holocene (c\<lparr>IsthmusTime := Some 0\<rparr>)"
| "ActivateAtGenesis Holocene c = ActivateAtGenesis Granite (c\<lparr>HoloceneTime := Some 0\<rparr>)"
| "ActivateAtGenesis Granite c = ActivateAtGenesis Fjord (c\<lparr>GraniteTime := Some 0\<rparr>)"
| "ActivateAtGenesis Fjord c = ActivateAtGenesis Ecotone (c\<lparr>FjordTime := Some 0\<rparr>)"
| "ActivateAtGenesis Ecotone c = ActivateAtGenesis Delta (c\<lparr>EcotoneTime := Some 0\<rparr>)"
| "ActivateAtGenesis Delta c = ActivateAtGenesis Canyon (c\<lparr>DeltaTime := Some 0\<rparr>)"
| "ActivateAtGenesis Canyon c = ActivateAtGenesis Regolith (c\<lparr>CanyonTime := Some 0\<rparr>)"
| "ActivateAtGenesis Regolith c = ActivateAtGenesis Bedrock (c\<lparr>RegolithTime := Some 0\<rparr>)"
| "ActivateAtGenesis Bedrock c = c"
| "ActivateAtGenesis NoneFork c = c"
| "ActivateAtGenesis (OtherFork _) c = c"
  by pat_completeness auto
termination
  by (relation "measure (fork_rank \<circ> fst)") auto

section \<open>Engine API versions, timestamps and look-back\<close>

datatype EngineAPIMethod = FCUV1 | FCUV2 | FCUV3 | NewPayloadV2 | NewPayloadV3 | NewPayloadV4 | GetPayloadV2 | GetPayloadV3 | GetPayloadV4

text \<open>The argument of \<^verbatim>\<open>ForkchoiceUpdatedVersion\<close> is the timestamp of the payload attributes, if there are any.\<close>

definition ForkchoiceUpdatedVersion :: "Config \<Rightarrow> uint64 option \<Rightarrow> EngineAPIMethod" where
  "ForkchoiceUpdatedVersion c attr =
    (case attr of
       None \<Rightarrow> FCUV3
     | Some ts \<Rightarrow> if IsEcotone c ts then FCUV3 else if IsCanyon c ts then FCUV2 else FCUV1)"

definition NewPayloadVersion :: "Config \<Rightarrow> uint64 \<Rightarrow> EngineAPIMethod" where
  "NewPayloadVersion c timestamp = (if IsIsthmus c timestamp then NewPayloadV4 else if IsEcotone c timestamp then NewPayloadV3 else NewPayloadV2)"

definition GetPayloadVersion :: "Config \<Rightarrow> uint64 \<Rightarrow> EngineAPIMethod" where
  "GetPayloadVersion c timestamp = (if IsIsthmus c timestamp then GetPayloadV4 else if IsEcotone c timestamp then GetPayloadV3 else GetPayloadV2)"

definition TimestampForBlock :: "Config \<Rightarrow> uint64 \<Rightarrow> uint64" where
  "TimestampForBlock cfg blockNumber = gL2Time (cGenesis cfg) + (blockNumber - bNumber (gL2 (cGenesis cfg))) * BlockTime cfg"

definition TargetBlockNumber :: "Config \<Rightarrow> uint64 \<Rightarrow> config_error + uint64" where
  "TargetBlockNumber cfg timestamp =
    (let genesisTimestamp = gL2Time (cGenesis cfg) in
     if timestamp < genesisTimestamp then Inl BeforeGenesis
     else
       let wallClockGenesisDiff = timestamp - genesisTimestamp in
       if BlockTime cfg = 0 then Inl DivideByZero
       else
         let blocksSinceGenesis = wallClockGenesisDiff div BlockTime cfg in
         Inr (bNumber (gL2 (cGenesis cfg)) + blocksSinceGenesis))"

definition AltDAEnabled :: "Config \<Rightarrow> bool" where "AltDAEnabled c \<longleftrightarrow> cAltDAConfig c \<noteq> None"

definition SyncLookback :: "Config \<Rightarrow> uint64" where
  "SyncLookback c =
    (case cAltDAConfig c of
       Some da \<Rightarrow>
        let win = DAChallengeWindow da + DAResolveWindow da in
        if SeqWindowSize c < win then win else SeqWindowSize c
     | None \<Rightarrow> SeqWindowSize c)"

section \<open>The chain specification\<close>

definition AllForks :: "ForkName list" where
  "AllForks = [Bedrock, Regolith, Canyon, Delta, Ecotone, Fjord, Granite, Holocene, Isthmus, Jovian, Interop]"

fun forks_from :: "ForkName \<Rightarrow> ForkName list \<Rightarrow> config_error + ForkName list" where
  "forks_from fork [] = Inl InvalidFork"
| "forks_from fork (f # fs) = (if f = fork then Inr (f # fs) else forks_from fork fs)"

definition ForksFrom :: "ForkName \<Rightarrow> config_error + ForkName list" where
  "ForksFrom fork = forks_from fork AllForks"

text \<open>The package variable \<^verbatim>\<open>nextFork\<close>, built by its initializer; a missing key reads as the empty name.\<close>

fun next_loop :: "ForkName list \<Rightarrow> (ForkName \<rightharpoonup> ForkName) \<Rightarrow> (ForkName \<rightharpoonup> ForkName)" where
  "next_loop [] m = m"
| "next_loop [f] m = m(f \<mapsto> NoneFork)"
| "next_loop (f # g # fs) m = next_loop (g # fs) (m(f \<mapsto> g))"

definition nextFork :: "ForkName \<rightharpoonup> ForkName" where
  "nextFork = next_loop AllForks (\<lambda>_. None)"

definition IsValidFork :: "ForkName \<Rightarrow> bool" where "IsValidFork fork \<longleftrightarrow> nextFork fork \<noteq> None"

record ChainSpec =
  sConfig :: Config
  currentFork :: ForkName

definition NewChainSpec :: "Config \<Rightarrow> ChainSpec" where
  "NewChainSpec config = \<lparr>sConfig = config, currentFork = OtherFork ''''\<rparr>"

definition maxChannelBankSizeBedrock :: uint64 where "maxChannelBankSizeBedrock = 100000000"
definition maxChannelBankSizeFjord :: uint64 where "maxChannelBankSizeFjord = 1000000000"
definition maxRLPBytesPerChannelBedrock :: uint64 where "maxRLPBytesPerChannelBedrock = 10000000"
definition maxRLPBytesPerChannelFjord :: uint64 where "maxRLPBytesPerChannelFjord = 100000000"
definition maxSequencerDriftFjord :: uint64 where "maxSequencerDriftFjord = 1800"
definition ChannelTimeoutGranite :: uint64 where "ChannelTimeoutGranite = 50"

definition MaxChannelBankSize :: "ChainSpec \<Rightarrow> uint64 \<Rightarrow> uint64" where
  "MaxChannelBankSize s t = (if IsFjord (sConfig s) t then maxChannelBankSizeFjord else maxChannelBankSizeBedrock)"

definition ChannelTimeout :: "ChainSpec \<Rightarrow> uint64 \<Rightarrow> uint64" where
  "ChannelTimeout s t = (if IsGranite (sConfig s) t then ChannelTimeoutGranite else ChannelTimeoutBedrock (sConfig s))"

definition MaxRLPBytesPerChannel :: "ChainSpec \<Rightarrow> uint64 \<Rightarrow> uint64" where
  "MaxRLPBytesPerChannel s t = (if IsFjord (sConfig s) t then maxRLPBytesPerChannelFjord else maxRLPBytesPerChannelBedrock)"

definition IsFeatMaxSequencerDriftConstant :: "ChainSpec \<Rightarrow> uint64 \<Rightarrow> bool" where
  "IsFeatMaxSequencerDriftConstant s t = IsFjord (sConfig s) t"

definition MaxSequencerDrift :: "ChainSpec \<Rightarrow> uint64 \<Rightarrow> uint64" where
  "MaxSequencerDrift s t = (if IsFeatMaxSequencerDriftConstant s t then maxSequencerDriftFjord else cMaxSequencerDrift (sConfig s))"

text \<open>\<open>detect_fork\<close> is the initialization of the current fork, \<open>next_activates\<close> the switch over the next one.\<close>

definition detect_fork :: "Config \<Rightarrow> uint64 \<Rightarrow> ForkName" where
  "detect_fork c t =
    (let f = Bedrock;
         f = (if IsRegolith c t then Regolith else f);
         f = (if IsCanyon c t then Canyon else f);
         f = (if IsDelta c t then Delta else f);
         f = (if IsEcotone c t then Ecotone else f);
         f = (if IsFjord c t then Fjord else f);
         f = (if IsGranite c t then Granite else f);
         f = (if IsHolocene c t then Holocene else f);
         f = (if IsIsthmus c t then Isthmus else f);
         f = (if IsJovian c t then Jovian else f)
     in (if IsInterop c t then Interop else f))"

definition next_activates :: "Config \<Rightarrow> ForkName option \<Rightarrow> uint64 \<Rightarrow> bool" where
  "next_activates c next t =
    (case next of
       Some Regolith \<Rightarrow> IsRegolithActivationBlock c t
     | Some Canyon \<Rightarrow> IsCanyonActivationBlock c t
     | Some Delta \<Rightarrow> IsDeltaActivationBlock c t
     | Some Ecotone \<Rightarrow> IsEcotoneActivationBlock c t
     | Some Fjord \<Rightarrow> IsFjordActivationBlock c t
     | Some Granite \<Rightarrow> IsGraniteActivationBlock c t
     | Some Holocene \<Rightarrow> IsHoloceneActivationBlock c t
     | Some Isthmus \<Rightarrow> IsIsthmusActivationBlock c t
     | Some Jovian \<Rightarrow> IsJovianActivationBlock c t
     | Some Interop \<Rightarrow> IsInteropActivationBlock c t
     | _ \<Rightarrow> False)"

definition CheckForkActivation :: "uint64 \<Rightarrow> ChainSpec \<Rightarrow> ChainSpec" where
  "CheckForkActivation blockTime s =
    (if currentFork s = Interop then s
     else if currentFork s = OtherFork '''' then s\<lparr>currentFork := detect_fork (sConfig s) blockTime\<rparr>
     else if next_activates (sConfig s) (nextFork (currentFork s)) blockTime
     then s\<lparr>currentFork := (case nextFork (currentFork s) of Some f \<Rightarrow> f | None \<Rightarrow> OtherFork '''')\<rparr>
     else s)"


section \<open>Forks of a checked configuration\<close>

definition fork_checks :: "(Config \<Rightarrow> uint64 \<Rightarrow> bool) list" where
  "fork_checks = [IsRegolith, IsCanyon, IsDelta, IsEcotone, IsFjord, IsGranite, IsHolocene, IsIsthmus, IsJovian, IsInterop]"

lemmas is_fork_defs = IsRegolith_def IsCanyon_def IsDelta_def IsEcotone_def IsFjord_def IsGranite_def IsHolocene_def
  IsIsthmus_def IsJovian_def IsInterop_def

lemma first_error_None: "first_error es = None \<longleftrightarrow> (\<forall>e \<in> set es. e = None)"
  by (induction es rule: first_error.induct) auto

lemma fails_None [simp]: "fails b e = None \<longleftrightarrow> \<not> b"
  by (simp add: fails_def)

lemma checkFork_None:
  "checkFork a b m n = None \<Longrightarrow> active_at b t \<Longrightarrow> active_at a t"
  by (auto simp: checkFork_def active_at_def split: option.splits if_splits)

lemma active_mono: "active_at f t \<Longrightarrow> t \<le> t' \<Longrightarrow> active_at f t'"
  by (auto simp: active_at_def split: option.splits)

text \<open>A chain of implications between neighbours gives one between any two members.\<close>

lemma chain_imp:
  assumes "\<And>k. Suc k < n \<Longrightarrow> P (Suc k) \<Longrightarrow> P k" and "i \<le> j" and "j < n" and "P j"
  shows "P i"
  using assms(2-4)
proof (induction rule: dec_induct)
  case (step m)
  then show ?case using assms(1) [of m] by simp
qed

lemma less_8_cases:
  "k < (8::nat) \<longleftrightarrow> k = 0 \<or> k = 1 \<or> k = 2 \<or> k = 3 \<or> k = 4 \<or> k = 5 \<or> k = 6 \<or> k = 7"
  "Suc k < 8 \<longleftrightarrow> k = 0 \<or> k = 1 \<or> k = 2 \<or> k = 3 \<or> k = 4 \<or> k = 5 \<or> k = 6"
  by auto

lemma checked_cumulative:
  assumes "Check cfg = None" and "i \<le> j" and "j < 8" and "(fork_checks ! j) cfg t" and "t \<le> t'"
  shows "(fork_checks ! i) cfg t'"
proof -
  have c: "checkFork (RegolithTime cfg) (CanyonTime cfg) Regolith Canyon = None"
     "checkFork (CanyonTime cfg) (DeltaTime cfg) Canyon Delta = None"
     "checkFork (DeltaTime cfg) (EcotoneTime cfg) Delta Ecotone = None"
     "checkFork (EcotoneTime cfg) (FjordTime cfg) Ecotone Fjord = None"
     "checkFork (FjordTime cfg) (GraniteTime cfg) Fjord Granite = None"
     "checkFork (GraniteTime cfg) (HoloceneTime cfg) Granite Holocene = None"
     "checkFork (HoloceneTime cfg) (IsthmusTime cfg) Holocene Isthmus = None"
    using assms(1) by (simp_all add: Check_def first_error_None)
  have "(fork_checks ! k) cfg t'" if "Suc k < 8" "(fork_checks ! Suc k) cfg t'" for k
    using that checkFork_None [OF c(1)] checkFork_None [OF c(2)] checkFork_None [OF c(3)] checkFork_None [OF c(4)] checkFork_None [OF c(5)]
      checkFork_None [OF c(6)] checkFork_None [OF c(7)]
    unfolding less_8_cases by (auto simp: fork_checks_def is_fork_defs numeral_eq_Suc)
  moreover have "(fork_checks ! j) cfg t'"
    using assms(3-5) active_mono unfolding less_8_cases by (auto simp: fork_checks_def is_fork_defs numeral_eq_Suc)
  ultimately show "(fork_checks ! i) cfg t'" using chain_imp [of 8 "\<lambda>k. (fork_checks ! k) cfg t'" i j] assms(2,3) by blast
qed

text \<open>C30: In a configuration that passes \<^verbatim>\<open>Check\<close> the forks from Regolith to Isthmus are cumulative: when one is active at
  some timestamp, then every earlier one is active at that and at every later timestamp.\<close>

theorem checked_forks_cumulative:
  assumes "Check cfg = None" and "i \<le> j" and "j < 8" and "(fork_checks ! j) cfg t" and "t \<le> t'"
  shows "(fork_checks ! i) cfg t'"
  by (rule checked_cumulative [OF assms])

section \<open>Block numbers and timestamps\<close>

text \<open>Block numbers and timestamps are inverse: from genesis on and as long as the timestamp fits 64 bits, the number
  for the timestamp of a block is that block; and the block found for a timestamp is the last one that does not lie in
  the future.\<close>

theorem block_timestamps:
  assumes "Check cfg = None"
    and "bNumber (gL2 (cGenesis cfg)) \<le> n"
    and "unat (gL2Time (cGenesis cfg)) + (unat n - unat (bNumber (gL2 (cGenesis cfg)))) * unat (BlockTime cfg) < 2 ^ 64"
    and "TimestampForBlock cfg n \<le> t" and "unat t < unat (TimestampForBlock cfg n) + unat (BlockTime cfg)"
  shows "TargetBlockNumber cfg t = Inr n \<and>
    unat (TimestampForBlock cfg n) =
      unat (gL2Time (cGenesis cfg)) + (unat n - unat (bNumber (gL2 (cGenesis cfg)))) * unat (BlockTime cfg)"
proof -
  let ?g = "gL2Time (cGenesis cfg)" and ?b = "BlockTime cfg" and ?m = "n - bNumber (gL2 (cGenesis cfg))"
  have b: "?b \<noteq> 0" using assms(1) by (simp add: Check_def first_error_None)
  have m: "unat ?m = unat n - unat (bNumber (gL2 (cGenesis cfg)))" using assms(2) by (simp add: unat_sub)
  have prod: "unat (?m * ?b) = unat ?m * unat ?b" using assms(3) m by (intro unat_mult_lem [THEN iffD1]) simp
  have ts: "unat (TimestampForBlock cfg n) = unat ?g + unat ?m * unat ?b"
    using assms(3) m prod unat_add_lem [of ?g "?m * ?b"] by (simp add: TimestampForBlock_def)
  have le': "unat ?g \<le> unat t" using assms(4) ts by (simp add: word_le_nat_alt)
  then have le: "?g \<le> t" and d: "unat (t - ?g) = unat t - unat ?g" by (simp_all add: word_le_nat_alt unat_sub)
  have "(unat t - unat ?g) div unat ?b = unat ?m"
  proof (rule div_nat_eqI)
    show "unat ?b * unat ?m \<le> unat t - unat ?g" using assms(4) ts by (simp add: word_le_nat_alt mult.commute)
    show "unat t - unat ?g < unat ?b * Suc (unat ?m)" using assms(5) ts b by (simp add: mult.commute less_diff_conv2 le' )
  qed
  then have "(t - ?g) div ?b = ?m" using d by (simp add: word_unat_eq_iff unat_div_distrib)
  then show ?thesis using b le ts m by (simp add: TargetBlockNumber_def Let_def)
qed


section \<open>Tracking the current fork\<close>

text \<open>The number of forks that are active at a timestamp, and the fork names in their order.\<close>

definition fork_level :: "Config \<Rightarrow> uint64 \<Rightarrow> nat" where
  "fork_level c t = length (filter (\<lambda>isFork. isFork c t) fork_checks)"

definition forks_cumulative :: "Config \<Rightarrow> bool" where
  "forks_cumulative c \<longleftrightarrow> (\<forall>t k. Suc k < length fork_checks \<longrightarrow> (fork_checks ! Suc k) c t \<longrightarrow> (fork_checks ! k) c t)"

text \<open>The chain specification after a run of blocks.\<close>

definition track_forks :: "uint64 list \<Rightarrow> ChainSpec \<Rightarrow> ChainSpec" where
  "track_forks ts s = fold CheckForkActivation ts s"

lemma prefix_count:
  assumes "\<And>k. Suc k < length xs \<Longrightarrow> P (xs ! Suc k) \<Longrightarrow> P (xs ! k)" and "k < length xs"
  shows "P (xs ! k) \<longleftrightarrow> k < length (filter P xs)"
  using assms
proof (induction xs arbitrary: k)
  case (Cons x xs)
  show ?case
  proof (cases "P x")
    case True
    have "P (xs ! j) \<longleftrightarrow> j < length (filter P xs)" if "j < length xs" for j
      using Cons.IH [of j] Cons.prems(1) [of "Suc _"] that by simp
    then show ?thesis using True Cons.prems(2) by (cases k) auto
  next
    case False
    have none: "\<not> P ((x # xs) ! j)" if "j < length (x # xs)" for j
      using chain_imp [of "length (x # xs)" "\<lambda>k. P ((x # xs) ! k)" 0 j] Cons.prems(1) that False by auto
    have "\<not> P y" if "y \<in> set (x # xs)" for y using that none by (metis in_set_conv_nth)
    then have e: "filter P (x # xs) = []" unfolding filter_empty_conv by blast
    show ?thesis unfolding e using none [OF Cons.prems(2)] by simp
  qed
qed simp

lemma level_iff:
  "forks_cumulative c \<Longrightarrow> k < length fork_checks \<Longrightarrow> (fork_checks ! k) c t \<longleftrightarrow> k < fork_level c t"
  unfolding fork_level_def
  by (rule prefix_count [where P = "\<lambda>isFork. isFork c t"]) (auto simp: forks_cumulative_def)

lemma length_fork_checks: "length fork_checks = 10"
  by (simp add: fork_checks_def)

lemma level_le: "fork_level c t \<le> 10"
  using length_filter_le [of "\<lambda>isFork. isFork c t" fork_checks] by (simp add: fork_level_def length_fork_checks)

lemma less_10_cases:
  "k < (10::nat) \<longleftrightarrow> k = 0 \<or> k = 1 \<or> k = 2 \<or> k = 3 \<or> k = 4 \<or> k = 5 \<or> k = 6 \<or> k = 7 \<or> k = 8 \<or> k = 9"
  by auto

lemma detect_level:
  assumes "forks_cumulative c"
  shows "detect_fork c t = AllForks ! fork_level c t"
proof -
  have l: "(fork_checks ! k) c t \<longleftrightarrow> k < fork_level c t" if "k < 10" for k
    using level_iff [OF assms] that by (simp add: length_fork_checks)
  have f: "IsRegolith c t \<longleftrightarrow> 0 < fork_level c t" "IsCanyon c t \<longleftrightarrow> 1 < fork_level c t" "IsDelta c t \<longleftrightarrow> 2 < fork_level c t"
    "IsEcotone c t \<longleftrightarrow> 3 < fork_level c t" "IsFjord c t \<longleftrightarrow> 4 < fork_level c t" "IsGranite c t \<longleftrightarrow> 5 < fork_level c t"
    "IsHolocene c t \<longleftrightarrow> 6 < fork_level c t" "IsIsthmus c t \<longleftrightarrow> 7 < fork_level c t" "IsJovian c t \<longleftrightarrow> 8 < fork_level c t"
    "IsInterop c t \<longleftrightarrow> 9 < fork_level c t"
    using l [of 0] l [of 1] l [of 2] l [of 3] l [of 4] l [of 5] l [of 6] l [of 7] l [of 8] l [of 9]
    by (simp_all add: fork_checks_def)
  have "fork_level c t < 10 \<or> fork_level c t = 10" using level_le [of c t] by auto
  then show ?thesis unfolding detect_fork_def f Let_def less_10_cases by (elim disjE) (simp_all add: AllForks_def)
qed

lemma next_step:
  assumes "k < 10"
  shows "nextFork (AllForks ! k) = Some (AllForks ! Suc k) \<and> AllForks ! k \<noteq> Interop \<and> AllForks ! k \<noteq> OtherFork '''' \<and>
    (next_activates c (Some (AllForks ! Suc k)) t \<longleftrightarrow> activation_block (fork_checks ! k) c t)"
  using assms unfolding less_10_cases
  by (elim disjE) (simp_all add: nextFork_def AllForks_def next_activates_def fork_checks_def IsRegolithActivationBlock_def
      IsCanyonActivationBlock_def IsDeltaActivationBlock_def IsEcotoneActivationBlock_def IsFjordActivationBlock_def
      IsGraniteActivationBlock_def IsHoloceneActivationBlock_def IsIsthmusActivationBlock_def IsJovianActivationBlock_def
      IsInteropActivationBlock_def)

lemma CheckForkActivation_cases:
  assumes "currentFork s = AllForks ! k" and "k < 10"
  shows "CheckForkActivation t s = (if activation_block (fork_checks ! k) (sConfig s) t then s\<lparr>currentFork := AllForks ! Suc k\<rparr> else s)"
  using next_step [OF assms(2)] assms(1) by (simp add: CheckForkActivation_def)

lemma CheckForkActivation_config [simp]: "sConfig (CheckForkActivation t s) = sConfig s"
  by (simp add: CheckForkActivation_def)

text \<open>One block moves the tracked fork from the level before it to the level at it.\<close>

lemma CheckForkActivation_step:
  assumes "forks_cumulative (sConfig s)" and "BlockTime (sConfig s) \<le> t"
    and "currentFork s = AllForks ! fork_level (sConfig s) (t - BlockTime (sConfig s))"
    and "fork_level (sConfig s) (t - BlockTime (sConfig s)) \<le> fork_level (sConfig s) t"
    and "fork_level (sConfig s) t \<le> Suc (fork_level (sConfig s) (t - BlockTime (sConfig s)))"
  shows "currentFork (CheckForkActivation t s) = AllForks ! fork_level (sConfig s) t"
proof -
  let ?c = "sConfig s" and ?l = "fork_level (sConfig s) (t - BlockTime (sConfig s))"
  consider "?l = 10" | "?l < 10" using level_le [of ?c "t - BlockTime ?c"] by linarith
  then show ?thesis
  proof cases
    case 1
    then have "currentFork s = Interop" "fork_level ?c t = 10" using assms(3,4) level_le [of ?c t] by (simp_all add: AllForks_def)
    then show ?thesis by (simp add: CheckForkActivation_def AllForks_def)
  next
    case 2
    then have "activation_block (fork_checks ! ?l) ?c t \<longleftrightarrow> fork_level ?c t = Suc ?l"
      using assms(2,5) level_iff [OF assms(1), of ?l t] level_iff [OF assms(1), of ?l "t - BlockTime ?c"]
      by (simp add: activation_block_def length_fork_checks) linarith
    moreover have "fork_level ?c t = ?l" if "fork_level ?c t \<noteq> Suc ?l" using that assms(4,5) by linarith
    ultimately show ?thesis
      using CheckForkActivation_cases [OF assms(3) 2, of t] assms(3) by (cases "fork_level ?c t = Suc ?l") simp_all
  qed
qed

lemma filter_le_mono: "(\<And>x. x \<in> set xs \<Longrightarrow> P x \<Longrightarrow> Q x) \<Longrightarrow> length (filter P xs) \<le> length (filter Q xs)"
  by (induction xs) (auto simp: le_SucI)

lemma level_mono: "t \<le> t' \<Longrightarrow> fork_level c t \<le> fork_level c t'"
  unfolding fork_level_def
  by (rule filter_le_mono) (auto simp: fork_checks_def is_fork_defs active_mono)


definition block_times :: "Config \<Rightarrow> uint64 \<Rightarrow> nat \<Rightarrow> uint64 list" where
  "block_times c t0 n = map (\<lambda>k. t0 + of_nat k * BlockTime c) [0..<Suc n]"

text \<open>No block of the run activates two forks at once.\<close>

definition one_fork_per_block :: "Config \<Rightarrow> uint64 \<Rightarrow> nat \<Rightarrow> bool" where
  "one_fork_per_block c t0 n \<longleftrightarrow>
    (\<forall>k \<in> set [0..<n]. fork_level c (t0 + of_nat (Suc k) * BlockTime c) \<le> Suc (fork_level c (t0 + of_nat k * BlockTime c)))"

lemma track_config [simp]: "sConfig (track_forks ts s) = sConfig s"
  unfolding track_forks_def by (induction ts arbitrary: s) simp_all

lemma unat_block_time:
  "unat t0 + n * unat b < 2 ^ 64 \<Longrightarrow> k \<le> n \<Longrightarrow> unat (t0 + of_nat k * b :: uint64) = unat t0 + k * unat b"
proof -
  assume a: "unat t0 + n * unat b < 2 ^ 64" "k \<le> n"
  then have "unat t0 + k * unat b < 2 ^ 64" using mult_le_mono1 [of k n "unat b"] by linarith
  then have "unat (of_nat (unat t0 + k * unat b) :: uint64) = unat t0 + k * unat b" by (intro unat_of_nat_lt) simp
  then show ?thesis by simp
qed

text \<open>When the forks are cumulative and no block activates two of them, following the chain block by block detects the
  right fork: after every run of consecutive blocks the current fork is the one a fresh specification would detect
  at the last block, the newest active one.\<close>

theorem fork_tracking:
  assumes "forks_cumulative c" and "unat t0 + n * unat (BlockTime c) < 2 ^ 64" and "one_fork_per_block c t0 n"
  shows "currentFork (track_forks (block_times c t0 n) (NewChainSpec c)) = AllForks ! fork_level c (t0 + of_nat n * BlockTime c) \<and>
    detect_fork c (t0 + of_nat n * BlockTime c) = AllForks ! fork_level c (t0 + of_nat n * BlockTime c)"
proof
  show "currentFork (track_forks (block_times c t0 n) (NewChainSpec c)) = AllForks ! fork_level c (t0 + of_nat n * BlockTime c)"
    using assms(2,3)
  proof (induction n)
    case 0
    then show ?case
      by (simp add: block_times_def track_forks_def CheckForkActivation_def NewChainSpec_def detect_level [OF assms(1)])
  next
    case (Suc n)
    let ?s = "track_forks (block_times c t0 n) (NewChainSpec c)" and ?b = "BlockTime c"
    let ?t = "t0 + of_nat (Suc n) * ?b"
    have prev: "?t - ?b = t0 + of_nat n * ?b" by (simp add: algebra_simps)
    have c: "sConfig ?s = c" by (simp add: NewChainSpec_def)
    have bt: "?b \<le> ?t" and le: "t0 + of_nat n * ?b \<le> ?t"
      unfolding word_le_nat_alt unat_block_time [OF Suc.prems(1) order_refl] unat_block_time [OF Suc.prems(1) le_SucI [OF order_refl]]
      by simp_all
    have run: "track_forks (block_times c t0 (Suc n)) (NewChainSpec c) = CheckForkActivation ?t ?s"
      by (simp add: block_times_def track_forks_def)
    have IH: "currentFork ?s = AllForks ! fork_level c (t0 + of_nat n * ?b)"
      using Suc.IH Suc.prems by (simp add: one_fork_per_block_def)
    have "fork_level c ?t \<le> Suc (fork_level c (t0 + of_nat n * ?b))" using Suc.prems(2) by (simp add: one_fork_per_block_def)
    then show ?case
      unfolding run
      using CheckForkActivation_step [of ?s ?t, unfolded c prev, OF assms(1) bt IH level_mono [OF le]] by blast
  qed
qed (rule detect_level [OF assms(1)])

text \<open>A fork that has been active for a block without being picked up is never picked up.\<close>

lemma lag_is_kept:
  assumes "currentFork s = AllForks ! k" and "k < 10" and "(fork_checks ! k) (sConfig s) t" and
    "\<forall>t' \<in> set ts. t \<le> t' - BlockTime (sConfig s)"
  shows "currentFork (track_forks ts s) = AllForks ! k"
  using assms
proof (induction ts arbitrary: s)
  case (Cons t' ts)
  have "(fork_checks ! k) (sConfig s) (t' - BlockTime (sConfig s))"
    using Cons.prems(2-4) active_mono unfolding less_10_cases by (auto simp: fork_checks_def is_fork_defs)
  then have "CheckForkActivation t' s = s" using CheckForkActivation_cases [OF Cons.prems(1,2)] by (simp add: activation_block_def)
  then show ?case using Cons by (simp add: track_forks_def)
qed (simp add: track_forks_def)

lemma block_times_split:
  "m < n \<Longrightarrow> track_forks (block_times c t0 n) s =
    track_forks (map (\<lambda>k. t0 + of_nat k * BlockTime c) [Suc (Suc m)..<Suc n]) (CheckForkActivation (t0 + of_nat (Suc m) * BlockTime c) (track_forks (block_times c t0 m) s))"
proof -
  assume "m < n"
  then have "[0..<Suc n] = [0..<Suc m] @ Suc m # [Suc (Suc m)..<Suc n]"
    using upt_add_eq_append [of 0 "Suc m" "n - m"] by (simp add: upt_conv_Cons)
  then show ?thesis by (simp add: block_times_def track_forks_def del: upt_Suc)
qed

text \<open>C40: A block that activates two forks derails the tracking for good. Follow the consecutive blocks of a chain from its first tracked block, with forks that are
  cumulative, and let no block up to the block \<open>m\<close> activate two forks but the block after it activate two or more: then after that block and after every
  later one the tracked fork is the one right after the fork of block \<open>m\<close>, and never the fork that is active.\<close>

theorem fork_tracking_stuck:
  assumes "forks_cumulative c" and "unat t0 + n * unat (BlockTime c) < 2 ^ 64" and "m < n" and "one_fork_per_block c t0 m"
    and "Suc (fork_level c (t0 + of_nat m * BlockTime c)) < fork_level c (t0 + of_nat (Suc m) * BlockTime c)"
  shows "currentFork (track_forks (block_times c t0 n) (NewChainSpec c)) = AllForks ! Suc (fork_level c (t0 + of_nat m * BlockTime c)) \<and>
    currentFork (track_forks (block_times c t0 n) (NewChainSpec c)) \<noteq> detect_fork c (t0 + of_nat n * BlockTime c)"
proof -
  let ?t = "\<lambda>k. t0 + of_nat k * BlockTime c" and ?s = "track_forks (block_times c t0 m) (NewChainSpec c)"
  let ?l = "fork_level c (?t m)" and ?s' = "CheckForkActivation (?t (Suc m)) ?s"
  have u: "unat (?t k) = unat t0 + k * unat (BlockTime c)" if "k \<le> n" for k by (rule unat_block_time [OF assms(2) that])
  have mono: "?t j \<le> ?t k" if "j \<le> k" "k \<le> n" for j k using that u [of j] u [of k] by (simp add: word_le_nat_alt)
  have m: "unat t0 + m * unat (BlockTime c) < 2 ^ 64"
    using assms(2,3) mult_le_mono1 [of m n "unat (BlockTime c)"] by linarith
  have l: "Suc ?l < 10" using assms(5) level_le [of c "?t (Suc m)"] by linarith
  have cur: "currentFork ?s = AllForks ! ?l" "sConfig ?s = c" using fork_tracking [OF assms(1) m assms(4)] by (simp_all add: NewChainSpec_def)
  have b: "BlockTime c \<le> ?t (Suc m)" "?t (Suc m) - BlockTime c = ?t m"
    using u [of "Suc m"] assms(3) by (simp_all add: word_le_nat_alt algebra_simps)
  have act: "activation_block (fork_checks ! ?l) c (?t (Suc m))"
    unfolding activation_block_def b(2)
    using level_iff [OF assms(1), of ?l] l b(1) assms(5) by (simp add: length_fork_checks del: of_nat_Suc)
  have s': "currentFork ?s' = AllForks ! Suc ?l" "sConfig ?s' = c"
    using CheckForkActivation_cases [OF cur(1), of "?t (Suc m)"] act l cur(2) by (simp_all del: of_nat_Suc)
  have "(fork_checks ! Suc ?l) c (?t (Suc m))" using level_iff [OF assms(1), of "Suc ?l"] l assms(5) by (simp add: length_fork_checks del: of_nat_Suc)
  moreover have "?t (Suc m) \<le> ?t k - BlockTime c" if "k \<in> set [Suc (Suc m)..<Suc n]" for k
  proof -
    have "Suc (Suc m) \<le> k \<and> k < Suc n" using that by (simp only: set_upt atLeastLessThan_iff)
    then obtain j where j: "k = Suc j" "Suc m \<le> j" "j \<le> n" by (cases k) auto
    then have "?t k - BlockTime c = ?t j" by (simp add: algebra_simps)
    then show ?thesis using mono [OF j(2,3)] by (simp only:)
  qed
  ultimately have "currentFork (track_forks (block_times c t0 n) (NewChainSpec c)) = AllForks ! Suc ?l"
    unfolding block_times_split [OF assms(3)]
    by (intro lag_is_kept [where t = "?t (Suc m)"]) (use s' l in \<open>auto simp del: of_nat_Suc upt_Suc\<close>)
  moreover have "fork_level c (?t (Suc m)) \<le> fork_level c (?t n)" using mono [of "Suc m" n] assms(3) by (intro level_mono) simp
  then have "AllForks ! Suc ?l \<noteq> AllForks ! fork_level c (?t n)"
    using assms(5) l level_le [of c "?t n"] by (subst nth_eq_iff_index_eq) (auto simp: AllForks_def)
  ultimately show ?thesis unfolding detect_level [OF assms(1)] by simp
qed


section \<open>A sample configuration\<close>

text \<open>Block time 2 from timestamp 10 on; Regolith at genesis, the other forks up to Isthmus at the given times, one after
  the other when no times are given.\<close>

definition sample_config :: "uint64 \<Rightarrow> uint64 \<Rightarrow> Config" where
  "sample_config canyon delta =
    \<lparr>cGenesis = \<lparr>gL1 = \<lparr>bHash = 1, bNumber = 3\<rparr>, gL2 = \<lparr>bHash = 2, bNumber = 0\<rparr>, gL2Time = 10,
       gSystemConfig = \<lparr>BatcherAddr = 7, Overhead = 0, Scalar = 1, GasLimit = 30000000, EIP1559Params = 0,
          OperatorFeeParams = 0, MarshalPreHolocene = False\<rparr>\<rparr>,
     BlockTime = 2, cMaxSequencerDrift = 600, SeqWindowSize = 3600, ChannelTimeoutBedrock = 300,
     L1ChainID = Some 1, L2ChainID = Some 248,
     RegolithTime = Some 0, CanyonTime = Some canyon, DeltaTime = Some delta, EcotoneTime = Some 50, FjordTime = Some 60,
     GraniteTime = Some 70, HoloceneTime = Some 80, IsthmusTime = None, JovianTime = None, InteropTime = None,
     BatchInboxAddress = 9, DepositContractAddress = 10, L1SystemConfigAddress = 11, ProtocolVersionsAddress = 0,
     cAltDAConfig = None, PectraBlobScheduleTime = None\<rparr>"

lemma sample_checked: "Check (sample_config 12 14) = None"
  by code_simp

lemma sample_cumulative:
  assumes "canyon \<le> delta" and "delta \<le> 50"
  shows "forks_cumulative (sample_config canyon delta)"
proof -
  have "(fork_checks ! k) (sample_config canyon delta) t"
    if "k < 9" "(fork_checks ! Suc k) (sample_config canyon delta) t" for t k
  proof -
    consider "k = 0" | "k = 1" | "k = 2" | "k = 3" | "k = 4" | "k = 5" | "k = 6" | "k = 7" | "k = 8" using \<open>k < 9\<close> by linarith
    then show ?thesis
      using that(2) assms
      by cases (auto simp: fork_checks_def is_fork_defs active_at_def sample_config_def intro: order_trans elim: order_trans [rotated])
  qed
  then show ?thesis by (simp add: forks_cumulative_def length_fork_checks)
qed

lemma checked_forks_cumulative_witness:
  "Check (sample_config 12 14) = None \<and> (fork_checks ! 2) (sample_config 12 14) 15 \<and> (fork_checks ! 1) (sample_config 12 14) 20"
proof -
  have "(fork_checks ! 2) (sample_config 12 14) 15" by code_simp
  then show ?thesis
    using checked_forks_cumulative [OF sample_checked, of 1 2 15 20] sample_checked by simp
qed

lemma block_timestamps_witness:
  "TargetBlockNumber (sample_config 12 14) 17 = Inr 3 \<and> TimestampForBlock (sample_config 12 14) 3 = 16"
proof -
  have "TimestampForBlock (sample_config 12 14) 3 = 16" by code_simp
  then show ?thesis
    using block_timestamps [OF sample_checked, of 3 17] by (simp add: sample_config_def)
qed

lemma fork_tracking_witness:
  "currentFork (track_forks (block_times (sample_config 12 14) 10 3) (NewChainSpec (sample_config 12 14))) = Delta"
proof -
  have "one_fork_per_block (sample_config 12 14) 10 3" by code_simp
  moreover have "AllForks ! fork_level (sample_config 12 14) (10 + of_nat 3 * BlockTime (sample_config 12 14)) = Delta" by code_simp
  ultimately show ?thesis
    using fork_tracking [of "sample_config 12 14" 10 3] sample_cumulative [of 12 14] by (simp add: sample_config_def)
qed

lemma fork_tracking_stuck_witness:
  "Check (sample_config 12 12) = None \<and>
   currentFork (track_forks (block_times (sample_config 12 12) 10 4) (NewChainSpec (sample_config 12 12))) = Canyon \<and>
   detect_fork (sample_config 12 12) 18 = Delta"
proof -
  have "one_fork_per_block (sample_config 12 12) 10 0" by code_simp
  moreover have "Suc (fork_level (sample_config 12 12) (10 + of_nat 0 * BlockTime (sample_config 12 12))) <
      fork_level (sample_config 12 12) (10 + of_nat (Suc 0) * BlockTime (sample_config 12 12))" by code_simp
  moreover have "AllForks ! Suc (fork_level (sample_config 12 12) (10 + of_nat 0 * BlockTime (sample_config 12 12))) = Canyon" by code_simp
  ultimately have "currentFork (track_forks (block_times (sample_config 12 12) 10 4) (NewChainSpec (sample_config 12 12))) = Canyon"
    using fork_tracking_stuck [of "sample_config 12 12" 10 4 0] sample_cumulative [of 12 12] by (simp add: sample_config_def)
  moreover have "Check (sample_config 12 12) = None" "detect_fork (sample_config 12 12) 18 = Delta" by code_simp+
  ultimately show ?thesis by simp
qed

end
