(* ===== verification/DeriveFrames.thy ===== *)
theory DeriveFrames
  imports RollupConfig "HOL-Library.Sublist"
begin

text \<open>
  Frames of the derivation pipeline (\<^verbatim>\<open>op-node/rollup/derive/{params,frame,frame_queue}.go\<close>): their
  binary format, the parser of batcher transactions and the frame queue with its Holocene pruning rules. A reader
  is the list of bytes that remain.
\<close>

section \<open>The frame format\<close>

datatype derive_error =
    IoEOF
  | ErrUnexpectedEOF
  | FrameTooLarge uint32
  | InvalidIsLast
  | EmptyData
  | InvalidVersion byte
  | NoFrames
  | NotEnoughData
  | ResetError string
  | TemporaryError string
  | PlainError string
  | CriticalError string
  | Panic string

type_synonym ChannelID = bytes
type_synonym uint16 = "16 word"

definition ChannelIDLength :: nat where "ChannelIDLength = 16"
definition frameOverhead :: uint64 where "frameOverhead = 200"
definition MaxFrameLen :: uint32 where "MaxFrameLen = 1000000"
definition DerivationVersion0 :: byte where "DerivationVersion0 = 0"

record Frame =
  fID :: ChannelID
  FrameNumber :: uint16
  fData :: bytes
  IsLast :: bool

definition frameSize :: "Frame \<Rightarrow> uint64" where
  "frameSize frame = of_nat (length (fData frame)) + frameOverhead"

definition MarshalBinary :: "Frame \<Rightarrow> bytes" where
  "MarshalBinary f = fID f @ be_bytes 2 (FrameNumber f) @ be_bytes 4 (of_nat (length (fData f)) :: uint32) @ fData f @
     (if IsLast f then [1] else [0])"

text \<open>\<^verbatim>\<open>io.ReadFull\<close>: nothing read is \<^verbatim>\<open>io.EOF\<close>, too little is \<^verbatim>\<open>io.ErrUnexpectedEOF\<close>.\<close>

definition read_full :: "nat \<Rightarrow> bytes \<Rightarrow> derive_error + bytes \<times> bytes" where
  "read_full n r = (if n \<le> length r then Inr (take n r, drop n r)
                    else if r = [] then Inl IoEOF else Inl ErrUnexpectedEOF)"

definition eofAsUnexpectedMissing :: "derive_error + 'a \<Rightarrow> derive_error + 'a" where
  "eofAsUnexpectedMissing x = (case x of Inl IoEOF \<Rightarrow> Inl ErrUnexpectedEOF | _ \<Rightarrow> x)"

definition UnmarshalBinary :: "bytes \<Rightarrow> derive_error + Frame \<times> bytes" where
  "UnmarshalBinary r =
    rbind (read_full ChannelIDLength r) (\<lambda>(channelID, r).
    rbind (eofAsUnexpectedMissing (read_full 2 r)) (\<lambda>(num, r).
    rbind (eofAsUnexpectedMissing (read_full 4 r)) (\<lambda>(len, r).
    let frameLength = (be_word len :: uint32) in
    if MaxFrameLen < frameLength then Inl (FrameTooLarge frameLength)
    else
    rbind (eofAsUnexpectedMissing (read_full (unat frameLength) r)) (\<lambda>(data, r).
    rbind (eofAsUnexpectedMissing (read_full 1 r)) (\<lambda>(b, r).
    let f = \<lparr>fID = channelID, FrameNumber = be_word num, fData = data, IsLast = False\<rparr> in
    if b = [0] then Inr (f, r)
    else if b = [1] then Inr (f\<lparr>IsLast := True\<rparr>, r)
    else Inl InvalidIsLast)))))"

lemma read_full_consumes: "read_full n r = Inr (x, r') \<Longrightarrow> r = x @ r' \<and> length x = n"
  by (auto simp: read_full_def split: if_splits)

lemma eof_Inr [simp]: "eofAsUnexpectedMissing x = Inr y \<longleftrightarrow> x = Inr y"
  by (auto simp: eofAsUnexpectedMissing_def split: sum.splits derive_error.splits)

text \<open>What a successful read has consumed.\<close>

lemma UnmarshalBinary_consumes:
  assumes "UnmarshalBinary r = Inr (f, r')"
  shows "\<exists>num len data b. r = fID f @ num @ len @ data @ [b] @ r' \<and> length (fID f) = 16 \<and> length num = 2 \<and> length len = 4 \<and>
    FrameNumber f = be_word num \<and> (be_word len :: uint32) \<le> MaxFrameLen \<and> length data = unat (be_word len :: uint32) \<and>
    fData f = data \<and> (b = 0 \<and> \<not> IsLast f \<or> b = 1 \<and> IsLast f)"
proof -
  from assms obtain num len data b r1 r2 r3 r4 where r:
    "read_full ChannelIDLength r = Inr (fID f, r1)" "read_full 2 r1 = Inr (num, r2)" "read_full 4 r2 = Inr (len, r3)"
    "(be_word len :: uint32) \<le> MaxFrameLen" "read_full (unat (be_word len :: uint32)) r3 = Inr (data, r4)"
    "read_full 1 r4 = Inr (b, r')" "FrameNumber f = be_word num" "fData f = data" "b = [0] \<and> \<not> IsLast f \<or> b = [1] \<and> IsLast f"
    by (auto simp: UnmarshalBinary_def rbind_Inr_iff Let_def not_less split: if_splits) blast
  from r(9) obtain b' where "b = [b']" "b' = 0 \<and> \<not> IsLast f \<or> b' = 1 \<and> IsLast f" by auto
  then show ?thesis
    using r(4,7,8) read_full_consumes [OF r(1)] read_full_consumes [OF r(2)] read_full_consumes [OF r(3)]
      read_full_consumes [OF r(5)] read_full_consumes [OF r(6)]
    by (intro exI [of _ num] exI [of _ len] exI [of _ data] exI [of _ b']) (auto simp: ChannelIDLength_def)
qed

lemma UnmarshalBinary_shorter: "UnmarshalBinary r = Inr (f, r') \<Longrightarrow> length r' < length r"
  using UnmarshalBinary_consumes [of r f r'] by auto

function parse_loop :: "bytes \<Rightarrow> Frame list \<Rightarrow> derive_error + Frame list" where
  "parse_loop buf frames =
    (if buf = [] then Inr frames
     else case UnmarshalBinary buf of
        Inl e \<Rightarrow> Inl e
      | Inr (f, buf) \<Rightarrow> parse_loop buf (frames @ [f]))"
  by pat_completeness auto
termination
  by (relation "measure (\<lambda>(buf, frames). length buf)") (auto dest: UnmarshalBinary_shorter)

declare parse_loop.simps [simp del]

definition ParseFrames :: "bytes \<Rightarrow> derive_error + Frame list" where
  "ParseFrames data =
    (case data of
       [] \<Rightarrow> Inl EmptyData
     | v # buf \<Rightarrow>
        if v \<noteq> DerivationVersion0 then Inl (InvalidVersion v)
        else rbind (parse_loop buf []) (\<lambda>frames. if frames = [] then Inl NoFrames else Inr frames))"

section \<open>Round trips\<close>

text \<open>A codec that accepts nothing but what its encoder writes.\<close>

locale canonical_codec = codec +
  assumes enc_dec: "dec inp = Inr (x, rest) \<Longrightarrow> inp = enc x @ rest \<and> valid x"
begin

lemma dec_iff: "dec inp = Inr (x, rest) \<longleftrightarrow> valid x \<and> inp = enc x @ rest"
  using dec_enc enc_dec by blast

end

definition valid_frame :: "Frame \<Rightarrow> bool" where
  "valid_frame f \<longleftrightarrow> length (fID f) = 16 \<and> length (fData f) \<le> 1000000"

lemma frame_length: "length (fData f) \<le> 1000000 \<Longrightarrow> unat (of_nat (length (fData f)) :: uint32) = length (fData f)"
  by (intro unat_of_nat_lt) simp

interpretation frame_codec: canonical_codec MarshalBinary UnmarshalBinary valid_frame
proof (unfold_locales, goal_cases)
  case (1 f rest)
  then have l: "unat (of_nat (length (fData f)) :: uint32) = length (fData f)" and "length (fID f) = 16"
    by (simp_all add: valid_frame_def frame_length)
  moreover have "\<not> MaxFrameLen < (of_nat (length (fData f)) :: uint32)"
    using 1 l by (simp add: word_less_nat_alt valid_frame_def MaxFrameLen_def)
  ultimately show ?case
    by (simp add: UnmarshalBinary_def MarshalBinary_def read_full_def ChannelIDLength_def be_word_be_bytes Let_def
        eofAsUnexpectedMissing_def)
next
  case (2 inp f rest)
  from UnmarshalBinary_consumes [OF 2] obtain num len data b where c:
    "inp = fID f @ num @ len @ data @ [b] @ rest" "length (fID f) = 16" "length num = 2" "length len = 4"
    "FrameNumber f = be_word num" "(be_word len :: uint32) \<le> MaxFrameLen" "length data = unat (be_word len :: uint32)"
    "fData f = data" "b = 0 \<and> \<not> IsLast f \<or> b = 1 \<and> IsLast f" by blast
  have "be_bytes 2 (be_word num :: uint16) = num" "be_bytes 4 (be_word len :: uint32) = len"
    using be_bytes_be_word [where 'a = 16, of num] be_bytes_be_word [where 'a = 32, of len] c(3,4) by simp_all
  moreover have "length data \<le> 1000000" using c(6,7) by (simp add: word_le_nat_alt MaxFrameLen_def)
  ultimately show ?case using c by (auto simp: MarshalBinary_def valid_frame_def)
qed

lemma MarshalBinary_nonempty: "valid_frame f \<Longrightarrow> MarshalBinary f \<noteq> []"
  by (auto simp: MarshalBinary_def valid_frame_def)

lemma parse_loop_iff:
  "parse_loop buf acc = Inr fs \<longleftrightarrow> (\<exists>new. fs = acc @ new \<and> list_all valid_frame new \<and> buf = concat (map MarshalBinary new))"
proof (induction buf acc rule: parse_loop.induct)
  case (1 buf acc)
  show ?case
  proof (cases "buf = []")
    case True
    have "new = []" if "list_all valid_frame new" "[] = concat (map MarshalBinary new)" for new
      using that MarshalBinary_nonempty by (cases new) auto
    then show ?thesis using True by (subst parse_loop.simps) auto
  next
    case False
    show ?thesis
    proof (cases "UnmarshalBinary buf")
      case (Inl e)
      have "buf \<noteq> concat (map MarshalBinary new)" if "list_all valid_frame new" for new
        using that Inl False frame_codec.dec_enc by (cases new) auto
      then show ?thesis using Inl False by (subst parse_loop.simps) auto
    next
      case (Inr r)
      obtain f buf' where r: "r = (f, buf')" by (cases r)
      note d = Inr [unfolded r]
      have v: "valid_frame f" "buf = MarshalBinary f @ buf'" using frame_codec.enc_dec [OF d] by auto
      have IH: "parse_loop buf' (acc @ [f]) = Inr fs \<longleftrightarrow>
          (\<exists>new. fs = (acc @ [f]) @ new \<and> list_all valid_frame new \<and> buf' = concat (map MarshalBinary new))"
        using 1 [OF False Inr, of f buf'] r by simp
      have "(\<exists>new. fs = (acc @ [f]) @ new \<and> list_all valid_frame new \<and> buf' = concat (map MarshalBinary new)) \<longleftrightarrow>
          (\<exists>new. fs = acc @ new \<and> list_all valid_frame new \<and> buf = concat (map MarshalBinary new))"
      proof
        assume "\<exists>new. fs = (acc @ [f]) @ new \<and> list_all valid_frame new \<and> buf' = concat (map MarshalBinary new)"
        then obtain new where "fs = (acc @ [f]) @ new \<and> list_all valid_frame new \<and> buf' = concat (map MarshalBinary new)" ..
        then show "\<exists>new. fs = acc @ new \<and> list_all valid_frame new \<and> buf = concat (map MarshalBinary new)"
          using v by (intro exI [of _ "f # new"]) simp
      next
        assume "\<exists>new. fs = acc @ new \<and> list_all valid_frame new \<and> buf = concat (map MarshalBinary new)"
        then obtain new where new: "fs = acc @ new" "list_all valid_frame new" "buf = concat (map MarshalBinary new)" by blast
        then obtain g gs where g: "new = g # gs" using False by (cases new) auto
        then have "UnmarshalBinary buf = Inr (g, concat (map MarshalBinary gs))" using new frame_codec.dec_enc by simp
        then show "\<exists>new. fs = (acc @ [f]) @ new \<and> list_all valid_frame new \<and> buf' = concat (map MarshalBinary new)"
          using d new g by (intro exI [of _ gs]) simp
      qed
      then show ?thesis using IH d False by (subst parse_loop.simps) simp
    qed
  qed
qed

lemma ParseFrames_iff:
  "ParseFrames data = Inr fs \<longleftrightarrow> fs \<noteq> [] \<and> list_all valid_frame fs \<and> data = 0 # concat (map MarshalBinary fs)"
  by (cases data) (auto simp: ParseFrames_def rbind_Inr_iff parse_loop_iff DerivationVersion0_def)

text \<open>C28: Parsing a batcher transaction is the exact inverse of writing frames: \<^verbatim>\<open>ParseFrames\<close> accepts a byte string if and
  only if it is the version byte followed by one or more serialized frames with 16-byte channel ids and at most one
  megabyte of data each, and then returns exactly those frames. In particular nothing is accepted in two ways.\<close>

theorem ParseFrames_exact:
  "ParseFrames data = Inr fs \<longleftrightarrow> fs \<noteq> [] \<and> list_all valid_frame fs \<and> data = 0 # concat (map MarshalBinary fs)"
  by (rule ParseFrames_iff)

section \<open>The frame queue\<close>

text \<open>\<open>discard_at\<close> is the closure \<^verbatim>\<open>discard\<close> at cursor \<open>i\<close>.\<close>

definition discard_at :: "Frame list \<Rightarrow> nat \<Rightarrow> nat \<Rightarrow> Frame list" where
  "discard_at frames i d = take (i + d) frames @ drop (i + 1 + d) frames"

lemma length_discard_at: "i + d < length frames \<Longrightarrow> length (discard_at frames i d) = length frames - 1"
  by (simp add: discard_at_def)

function prune_loop :: "Frame list \<Rightarrow> nat \<Rightarrow> Frame list" where
  "prune_loop frames i =
    (if i + 1 < length frames then
       let current = frames ! i; next = frames ! (i + 1) in
       if fID current = fID next then
         (if IsLast current then prune_loop (discard_at frames i 1) i
          else if FrameNumber next \<noteq> FrameNumber current + 1 then prune_loop (discard_at frames i 1) i
          else prune_loop frames (i + 1))
       else
         (if FrameNumber next = 0 \<and> \<not> IsLast current then
            prune_loop (discard_at frames i 0) (if 0 < i then i - 1 else i)
          else if FrameNumber next \<noteq> 0 then prune_loop (discard_at frames i 1) i
          else prune_loop frames (i + 1))
     else frames)"
  by pat_completeness auto
termination
  by (relation "measure (\<lambda>(frames, i). 2 * length frames - i)") (auto simp: length_discard_at)

declare prune_loop.simps [simp del]

definition pruneFrameQueue :: "Frame list \<Rightarrow> Frame list" where
  "pruneFrameQueue frames = prune_loop frames 0"

text \<open>The previous stage delivers the data of the next batcher transaction or an error, together with its new state; the
  origin is the L1 block it has reached.\<close>

record FrameQueue =
  frames :: "Frame list"
  fqCfg :: Config

type_synonym 'p NextDataProvider = "'p \<Rightarrow> (derive_error + bytes) \<times> 'p"

definition NewFrameQueue :: "Config \<Rightarrow> FrameQueue" where
  "NewFrameQueue cfg = \<lparr>frames = [], fqCfg = cfg\<rparr>"

definition loadNextFrames :: "'p NextDataProvider \<Rightarrow> ('p \<Rightarrow> L1BlockRef) \<Rightarrow> FrameQueue \<times> 'p \<Rightarrow> derive_error option \<times> FrameQueue \<times> 'p" where
  "loadNextFrames nextData origin st =
    (let (fq, prev) = st in
     case nextData prev of
       (Inl e, prev) \<Rightarrow> (Some e, fq, prev)
     | (Inr data, prev) \<Rightarrow>
        (case ParseFrames data of
           Inl _ \<Rightarrow> (None, fq, prev)
         | Inr fs \<Rightarrow>
            let fq = fq\<lparr>frames := frames fq @ fs\<rparr>;
                fq = (if IsHolocene (fqCfg fq) (l1Time (origin prev)) then fq\<lparr>frames := pruneFrameQueue (frames fq)\<rparr> else fq)
            in (None, fq, prev)))"

definition NextFrame :: "'p NextDataProvider \<Rightarrow> ('p \<Rightarrow> L1BlockRef) \<Rightarrow> FrameQueue \<times> 'p \<Rightarrow> (derive_error + Frame) \<times> FrameQueue \<times> 'p" where
  "NextFrame nextData origin st =
    (case (if frames (fst st) = [] then loadNextFrames nextData origin st else (None, st)) of
       (Some e, st) \<Rightarrow> (Inl e, st)
     | (None, fq, prev) \<Rightarrow>
        (case frames fq of
           [] \<Rightarrow> (Inl NotEnoughData, fq, prev)
         | ret # rest \<Rightarrow> (Inr ret, fq\<lparr>frames := rest\<rparr>, prev)))"

definition FrameQueue_reset :: "FrameQueue \<Rightarrow> FrameQueue" where
  "FrameQueue_reset fq = fq\<lparr>frames := []\<rparr>"

definition FrameQueue_Reset :: "FrameQueue \<Rightarrow> derive_error \<times> FrameQueue" where
  "FrameQueue_Reset fq = (IoEOF, FrameQueue_reset fq)"

definition FrameQueue_Transform :: "ForkName \<Rightarrow> FrameQueue \<Rightarrow> FrameQueue" where
  "FrameQueue_Transform f fq = (case f of Holocene \<Rightarrow> FrameQueue_reset fq | _ \<Rightarrow> fq)"

section \<open>Holocene order\<close>

definition follows :: "Frame \<Rightarrow> Frame \<Rightarrow> bool" where
  "follows c n \<longleftrightarrow> (if fID c = fID n then \<not> IsLast c \<and> FrameNumber n = FrameNumber c + 1 else IsLast c \<and> FrameNumber n = 0)"

definition ordered_frames :: "Frame list \<Rightarrow> bool" where
  "ordered_frames fs \<longleftrightarrow> list_all (\<lambda>i. follows (fs ! i) (fs ! Suc i)) [0..<length fs - 1]"

definition ordered_upto :: "Frame list \<Rightarrow> nat \<Rightarrow> bool" where
  "ordered_upto fs i \<longleftrightarrow> (\<forall>j < i. Suc j < length fs \<longrightarrow> follows (fs ! j) (fs ! Suc j))"

lemma ordered_iff: "ordered_frames fs \<longleftrightarrow> ordered_upto fs (length fs)"
  by (auto simp: ordered_frames_def ordered_upto_def list_all_iff)

lemma nth_discard_at:
  "i + d < length fs \<Longrightarrow> j < i + d \<Longrightarrow> discard_at fs i d ! j = fs ! j"
  by (simp add: discard_at_def nth_append)

lemma ordered_discard: "i + d < length fs \<Longrightarrow> ordered_upto fs k \<Longrightarrow> k < i + d \<or> k = 0 \<Longrightarrow> ordered_upto (discard_at fs i d) k"
  by (auto simp: ordered_upto_def nth_discard_at length_discard_at)

lemma subseq_discard: "subseq (discard_at fs i d) fs"
proof -
  have "subseq (drop (i + 1 + d) fs) (drop (i + d) fs)"
    by (metis add.assoc add.commute drop_drop suffix_drop suffix_imp_subseq)
  then have "subseq (take (i + d) fs @ drop (i + 1 + d) fs) (take (i + d) fs @ drop (i + d) fs)" by (intro list_emb_append_mono) auto
  then show ?thesis by (simp add: discard_at_def)
qed

definition drops_current :: "Frame \<Rightarrow> Frame \<Rightarrow> bool" where
  "drops_current c n \<longleftrightarrow> fID c \<noteq> fID n \<and> FrameNumber n = 0 \<and> \<not> IsLast c"

lemma prune_loop_step:
  assumes "i + 1 < length fs"
  shows "follows (fs ! i) (fs ! (i + 1)) \<Longrightarrow> prune_loop fs i = prune_loop fs (i + 1)"
    "drops_current (fs ! i) (fs ! (i + 1)) \<Longrightarrow> prune_loop fs i = prune_loop (discard_at fs i 0) (if 0 < i then i - 1 else i)"
    "\<not> follows (fs ! i) (fs ! (i + 1)) \<Longrightarrow> \<not> drops_current (fs ! i) (fs ! (i + 1)) \<Longrightarrow> prune_loop fs i = prune_loop (discard_at fs i 1) i"
  using assms by (subst prune_loop.simps; auto simp: follows_def drops_current_def Let_def split: if_splits)+

lemma prune_loop_spec:
  assumes "ordered_upto fs i"
  shows "ordered_frames (prune_loop fs i) \<and> subseq (prune_loop fs i) fs \<and> (ordered_frames fs \<longrightarrow> prune_loop fs i = fs)"
  using assms
proof (induction "2 * length fs - i" arbitrary: fs i rule: less_induct)
  case less
  let ?c = "fs ! i" and ?n = "fs ! (i + 1)"
  show ?case
  proof (cases "i + 1 < length fs")
    case False
    then show ?thesis using less.prems by (subst (1 2 3) prune_loop.simps) (auto simp: ordered_iff ordered_upto_def)
  next
    case i: True
    have bad: "\<not> follows ?c ?n \<Longrightarrow> \<not> ordered_frames fs"
      using i by (auto simp: ordered_iff ordered_upto_def intro!: exI [of _ i])
    have sub: "subseq xs (discard_at fs i d) \<Longrightarrow> subseq xs fs" for xs d using subseq_discard subseq_order.trans by blast
    consider "follows ?c ?n" | "\<not> follows ?c ?n" "drops_current ?c ?n" | "\<not> follows ?c ?n" "\<not> drops_current ?c ?n" by blast
    then show ?thesis
    proof cases
      case 1
      have "ordered_upto fs (i + 1)" using 1 less.prems by (auto simp: ordered_upto_def less_Suc_eq)
      then show ?thesis using prune_loop_step(1) [OF i 1] less.hyps [of fs "i + 1"] i by simp
    next
      case 2
      define k where "k = (if 0 < i then i - 1 else i)"
      have o: "ordered_upto (discard_at fs i 0) k"
        using ordered_discard [of i 0 fs "i - 1"] i less.prems by (auto simp: ordered_upto_def k_def)
      have "2 * length (discard_at fs i 0) - k < 2 * length fs - i" using i by (auto simp: length_discard_at k_def)
      from less.hyps [OF this o] show ?thesis
        using prune_loop_step(2) [OF i 2(2), folded k_def] bad [OF 2(1)] by (auto intro: sub)
    next
      case 3
      have o: "ordered_upto (discard_at fs i 1) i" using ordered_discard [of i 1 fs i] i less.prems by simp
      have "2 * length (discard_at fs i 1) - i < 2 * length fs - i" using i by (simp add: length_discard_at)
      from less.hyps [OF this o] show ?thesis
        using prune_loop_step(3) [OF i 3] bad [OF 3(1)] by (auto intro: sub)
    qed
  qed
qed

lemma prune_spec:
  "ordered_frames (pruneFrameQueue fs) \<and> subseq (pruneFrameQueue fs) fs \<and> (ordered_frames fs \<longrightarrow> pruneFrameQueue fs = fs)"
  unfolding pruneFrameQueue_def by (rule prune_loop_spec) (simp add: ordered_upto_def)

text \<open>C29: Pruning the frame queue enforces the Holocene order and nothing else: the result is a subsequence of the queue in
  which every frame continues its channel with the next number or starts a new channel after a closed one; a queue
  already in that order is unchanged, so pruning again changes nothing. The cursor arithmetic never goes wrong and the loop
  terminates.\<close>

theorem prune_enforces_order:
  "ordered_frames (pruneFrameQueue fs) \<and> subseq (pruneFrameQueue fs) fs \<and>
   (pruneFrameQueue fs = fs \<longleftrightarrow> ordered_frames fs) \<and> pruneFrameQueue (pruneFrameQueue fs) = pruneFrameQueue fs"
  using prune_spec [of fs] prune_spec [of "pruneFrameQueue fs"] by metis

end
