(* ===== verification/DeriveChannel.thy ===== *)
theory DeriveChannel
  imports DeriveFrames "HOL-Library.AList"
begin

text \<open>
  Channels (\<^verbatim>\<open>op-node/rollup/derive/{channel,channel_bank,channel_assembler,channel_mux}.go\<close>): reassembly of frames, the
  channel bank used before Holocene, the channel assembler used since, and the multiplexer between them. Go maps are
  association lists with distinct keys, in order of insertion; nothing below depends on the order of iteration. The previous stage is a
  function that delivers the next frame or an error with its new state, and its origin.
\<close>

section \<open>Channels\<close>

datatype frame_error = WrongChannel ChannelID ChannelID | EndOnClosed | DuplicateErr | BeyondEnd uint16 uint16 | FrameOutOfOrder nat uint16

record Channel =
  chid :: ChannelID
  openBlock :: L1BlockRef
  requireInOrder :: bool
  chSize :: uint64
  closed :: bool
  highestFrameNumber :: uint16
  endFrameNumber :: uint16
  inputs :: "(uint64 \<times> Frame) list"
  highestL1InclusionBlock :: L1BlockRef

definition no_block :: L1BlockRef where
  "no_block = \<lparr>l1Hash = 0, l1Number = 0, l1ParentHash = 0, l1Time = 0\<rparr>"

definition NewChannel :: "ChannelID \<Rightarrow> L1BlockRef \<Rightarrow> bool \<Rightarrow> Channel" where
  "NewChannel cid block inOrder =
    \<lparr>chid = cid, openBlock = block, requireInOrder = inOrder, chSize = 0, closed = False, highestFrameNumber = 0,
     endFrameNumber = 0, inputs = [], highestL1InclusionBlock = no_block\<rparr>"

text \<open>The pruning of \<^verbatim>\<open>AddFrame\<close>: buffered frames at or above the end are deleted, and the size of every buffered frame
  is subtracted, whether it is deleted or not.\<close>

definition prune_inputs :: "Channel \<Rightarrow> Channel" where
  "prune_inputs ch =
    ch\<lparr>inputs := filter (\<lambda>(idx, _). \<not> ucast (endFrameNumber ch) \<le> idx) (inputs ch),
       chSize := foldl (\<lambda>s (_, prunedFrame). s - frameSize prunedFrame) (chSize ch) (inputs ch),
       highestFrameNumber := endFrameNumber ch\<rparr>"

definition AddFrame :: "Frame \<Rightarrow> L1BlockRef \<Rightarrow> Channel \<Rightarrow> frame_error + Channel" where
  "AddFrame frame l1InclusionBlock ch =
    (if fID frame \<noteq> chid ch then Inl (WrongChannel (chid ch) (fID frame))
     else if IsLast frame \<and> closed ch then Inl EndOnClosed
     else if map_of (inputs ch) (ucast (FrameNumber frame)) \<noteq> None then Inl DuplicateErr
     else if closed ch \<and> endFrameNumber ch \<le> FrameNumber frame then Inl (BeyondEnd (FrameNumber frame) (endFrameNumber ch))
     else if requireInOrder ch \<and> unat (FrameNumber frame) \<noteq> length (inputs ch)
     then Inl (FrameOutOfOrder (length (inputs ch)) (FrameNumber frame))
     else
       let ch = (if IsLast frame then ch\<lparr>endFrameNumber := FrameNumber frame, closed := True\<rparr> else ch);
           ch = (if IsLast frame \<and> endFrameNumber ch < highestFrameNumber ch then prune_inputs ch else ch);
           ch = (if highestFrameNumber ch < FrameNumber frame then ch\<lparr>highestFrameNumber := FrameNumber frame\<rparr> else ch);
           ch = (if l1Number (highestL1InclusionBlock ch) < l1Number l1InclusionBlock
                 then ch\<lparr>highestL1InclusionBlock := l1InclusionBlock\<rparr> else ch);
           ch = ch\<lparr>inputs := AList.update (ucast (FrameNumber frame)) frame (inputs ch)\<rparr>
       in Inr (ch\<lparr>chSize := chSize ch + frameSize frame\<rparr>))"

definition OpenBlockNumber :: "Channel \<Rightarrow> uint64" where "OpenBlockNumber ch = l1Number (openBlock ch)"

text \<open>The frame numbers from 0 to the end, over which \<^verbatim>\<open>IsReady\<close> and \<^verbatim>\<open>Reader\<close> iterate.\<close>

definition frame_numbers :: "Channel \<Rightarrow> uint64 list" where
  "frame_numbers ch = map of_nat [0..<Suc (unat (endFrameNumber ch))]"

definition IsReady :: "Channel \<Rightarrow> bool" where
  "IsReady ch =
    (if \<not> closed ch then False
     else if length (inputs ch) \<noteq> unat (endFrameNumber ch) + 1 then False
     else list_all (\<lambda>i. map_of (inputs ch) i \<noteq> None) (frame_numbers ch))"

text \<open>The reader is the bytes it delivers; a missing frame panics.\<close>

fun read_frames :: "(uint64 \<times> Frame) list \<Rightarrow> uint64 list \<Rightarrow> derive_error + bytes" where
  "read_frames inp [] = Inr []"
| "read_frames inp (i # is) =
    (case map_of inp i of
       None \<Rightarrow> Inl (Panic ''dev error in channel.Reader'')
     | Some frame \<Rightarrow> rbind (read_frames inp is) (\<lambda>bs. Inr (fData frame @ bs)))"

definition Reader :: "Channel \<Rightarrow> derive_error + bytes" where
  "Reader ch = read_frames (inputs ch) (frame_numbers ch)"

section \<open>The channel bank\<close>

type_synonym 'p NextFrameProvider = "'p \<Rightarrow> (derive_error + Frame) \<times> 'p"

record ChannelBank =
  cbSpec :: ChainSpec
  channels :: "(ChannelID \<times> Channel) list"
  channelQueue :: "ChannelID list"

definition NewChannelBank :: "ChainSpec \<Rightarrow> ChannelBank" where
  "NewChannelBank spec = \<lparr>cbSpec = spec, channels = [], channelQueue = []\<rparr>"

fun prune_queue :: "uint64 \<Rightarrow> uint64 \<Rightarrow> (ChannelID \<times> Channel) list \<Rightarrow> ChannelID list \<Rightarrow>
    derive_error + (ChannelID \<times> Channel) list \<times> ChannelID list" where
  "prune_queue maxSize totalSize chs [] =
    (if maxSize < totalSize then Inl (Panic ''index out of range'') else Inr (chs, []))"
| "prune_queue maxSize totalSize chs (i # q) =
    (if maxSize < totalSize then
       (case map_of chs i of
          None \<Rightarrow> Inl (Panic ''nil channel'')
        | Some ch \<Rightarrow> prune_queue maxSize (totalSize - chSize ch) (AList.delete i chs) q)
     else Inr (chs, i # q))"

definition bank_total :: "(ChannelID \<times> Channel) list \<Rightarrow> uint64" where
  "bank_total chs = sum_list (map (\<lambda>(_, ch). chSize ch) chs)"

definition ChannelBank_prune :: "L1BlockRef \<Rightarrow> ChannelBank \<Rightarrow> derive_error + ChannelBank" where
  "ChannelBank_prune origin cb =
    rbind (prune_queue (MaxChannelBankSize (cbSpec cb) (l1Time origin)) (bank_total (channels cb)) (channels cb) (channelQueue cb))
      (\<lambda>(chs, q). Inr (cb\<lparr>channels := chs, channelQueue := q\<rparr>))"

definition timed_out :: "ChainSpec \<Rightarrow> L1BlockRef \<Rightarrow> Channel \<Rightarrow> bool" where
  "timed_out spec origin ch \<longleftrightarrow> OpenBlockNumber ch + ChannelTimeout spec (l1Time origin) < l1Number origin"

definition IngestFrame :: "L1BlockRef \<Rightarrow> Frame \<Rightarrow> ChannelBank \<Rightarrow> derive_error + ChannelBank" where
  "IngestFrame origin f cb =
    (let (currentCh, cb) =
       (case map_of (channels cb) (fID f) of
          Some ch \<Rightarrow> (ch, cb)
        | None \<Rightarrow>
           let ch = NewChannel (fID f) origin False
           in (ch, cb\<lparr>channels := AList.update (fID f) ch (channels cb), channelQueue := channelQueue cb @ [fID f]\<rparr>))
     in if timed_out (cbSpec cb) origin currentCh then Inr cb
        else case AddFrame f origin currentCh of
               Inl _ \<Rightarrow> Inr cb
             | Inr ch \<Rightarrow> ChannelBank_prune origin (cb\<lparr>channels := AList.update (fID f) ch (channels cb)\<rparr>))"

definition tryReadChannelAtIndex :: "L1BlockRef \<Rightarrow> nat \<Rightarrow> ChannelBank \<Rightarrow> (derive_error + bytes) \<times> ChannelBank" where
  "tryReadChannelAtIndex origin i cb =
    (if length (channelQueue cb) \<le> i then (Inl (Panic ''index out of range''), cb)
     else
       let chanID = channelQueue cb ! i in
       case map_of (channels cb) chanID of
         None \<Rightarrow> (Inl (Panic ''nil channel''), cb)
       | Some ch \<Rightarrow>
          if timed_out (cbSpec cb) origin ch \<or> \<not> IsReady ch then (Inl IoEOF, cb)
          else (Reader ch, cb\<lparr>channels := AList.delete chanID (channels cb),
                              channelQueue := take i (channelQueue cb) @ drop (Suc i) (channelQueue cb)\<rparr>))"

text \<open>The loop over the queue since Canyon; only a success or a panic ends it early.\<close>

function read_loop :: "L1BlockRef \<Rightarrow> nat \<Rightarrow> ChannelBank \<Rightarrow> (derive_error + bytes) \<times> ChannelBank" where
  "read_loop origin i cb =
    (if i < length (channelQueue cb) then
       (case tryReadChannelAtIndex origin i cb of
          (Inl IoEOF, _) \<Rightarrow> read_loop origin (Suc i) cb
        | r \<Rightarrow> r)
     else (Inl IoEOF, cb))"
  by pat_completeness auto
termination
  by (relation "measure (\<lambda>(origin, i, cb). length (channelQueue cb) - i)") auto

declare read_loop.simps [simp del]

text \<open>\<^verbatim>\<open>Read\<close> returns \<^verbatim>\<open>nil, nil\<close> when it drops a channel that timed out; no data at all is the empty list.\<close>

definition ChannelBank_Read :: "L1BlockRef \<Rightarrow> ChannelBank \<Rightarrow> (derive_error + bytes) \<times> ChannelBank" where
  "ChannelBank_Read origin cb =
    (case channelQueue cb of
       [] \<Rightarrow> (Inl IoEOF, cb)
     | first # rest \<Rightarrow>
        (case map_of (channels cb) first of
           None \<Rightarrow> (Inl (Panic ''nil channel''), cb)
         | Some ch \<Rightarrow>
            if timed_out (cbSpec cb) origin ch
            then (Inr [], cb\<lparr>channels := AList.delete first (channels cb), channelQueue := rest\<rparr>)
            else if \<not> IsCanyon (sConfig (cbSpec cb)) (l1Time origin) then tryReadChannelAtIndex origin 0 cb
            else read_loop origin 0 cb))"

definition ChannelBank_NextRawChannel ::
  "'p NextFrameProvider \<Rightarrow> ('p \<Rightarrow> L1BlockRef) \<Rightarrow> ChannelBank \<times> 'p \<Rightarrow> (derive_error + bytes) \<times> ChannelBank \<times> 'p" where
  "ChannelBank_NextRawChannel nextFrame origin st =
    (let (cb, prev) = st in
     case ChannelBank_Read (origin prev) cb of
       (Inl IoEOF, cb) \<Rightarrow>
         (case nextFrame prev of
            (Inl e, prev) \<Rightarrow> (Inl e, cb, prev)
          | (Inr frame, prev) \<Rightarrow>
             (case IngestFrame (origin prev) frame cb of
                Inl e \<Rightarrow> (Inl e, cb, prev)
              | Inr cb \<Rightarrow> (Inl NotEnoughData, cb, prev)))
     | (r, cb) \<Rightarrow> (r, cb, prev))"

definition ChannelBank_Reset :: "ChannelBank \<Rightarrow> derive_error \<times> ChannelBank" where
  "ChannelBank_Reset cb = (IoEOF, cb\<lparr>channels := [], channelQueue := []\<rparr>)"

section \<open>The channel assembler\<close>

record ChannelAssembler =
  caSpec :: ChainSpec
  channel :: "Channel option"

definition NewChannelAssembler :: "ChainSpec \<Rightarrow> ChannelAssembler" where
  "NewChannelAssembler spec = \<lparr>caSpec = spec, channel = None\<rparr>"

definition resetChannel :: "ChannelAssembler \<Rightarrow> ChannelAssembler" where
  "resetChannel ca = ca\<lparr>channel := None\<rparr>"

definition ChannelAssembler_Reset :: "ChannelAssembler \<Rightarrow> derive_error \<times> ChannelAssembler" where
  "ChannelAssembler_Reset ca = (IoEOF, resetChannel ca)"

definition FlushChannel :: "ChannelAssembler \<Rightarrow> ChannelAssembler" where
  "FlushChannel ca = resetChannel ca"

definition channelTimedOut :: "L1BlockRef \<Rightarrow> ChannelAssembler \<Rightarrow> bool" where
  "channelTimedOut origin ca = (case channel ca of None \<Rightarrow> False | Some ch \<Rightarrow> timed_out (caSpec ca) origin ch)"

text \<open>One round of the ingestion loop on a frame: \<open>True\<close> when the loop breaks with a complete channel. The number of
  bytes that bounds the channel is read at the origin after the frame was fetched.\<close>

definition ingest :: "L1BlockRef \<Rightarrow> uint64 \<Rightarrow> Frame \<Rightarrow> ChannelAssembler \<Rightarrow> bool \<times> ChannelAssembler" where
  "ingest origin maxBytes frame ca =
    (let ca = (if FrameNumber frame = 0 then ca\<lparr>channel := Some (NewChannel (fID frame) origin True)\<rparr> else ca) in
     case channel ca of
       None \<Rightarrow> (False, ca)
     | Some ch \<Rightarrow>
        (case AddFrame frame origin ch of
           Inl _ \<Rightarrow> (False, ca)
         | Inr ch \<Rightarrow>
            let ca = ca\<lparr>channel := Some ch\<rparr> in
            if maxBytes < chSize ch then (False, resetChannel ca)
            else (IsLast frame, ca)))"

partial_function (option) ingest_loop ::
  "'p NextFrameProvider \<Rightarrow> ('p \<Rightarrow> L1BlockRef) \<Rightarrow> L1BlockRef \<Rightarrow> ChannelAssembler \<Rightarrow> 'p \<Rightarrow>
     (derive_error option \<times> ChannelAssembler \<times> 'p) option" where
  "ingest_loop nextFrame origin start ca prev =
    (case nextFrame prev of
       (Inl e, prev) \<Rightarrow> Some (Some e, ca, prev)
     | (Inr frame, prev) \<Rightarrow>
        (case ingest start (MaxRLPBytesPerChannel (caSpec ca) (l1Time (origin prev))) frame ca of
           (complete, ca) \<Rightarrow> if complete then Some (None, ca, prev) else ingest_loop nextFrame origin start ca prev))"

declare ingest_loop.simps [code]

definition complete_channel :: "ChannelAssembler \<Rightarrow> (derive_error + bytes) \<times> ChannelAssembler" where
  "complete_channel ca =
    (case channel ca of
       None \<Rightarrow> (Inl (CriticalError ''unexpected non-ready channel''), ca)
     | Some ch \<Rightarrow>
        if \<not> IsReady ch then (Inl (CriticalError ''unexpected non-ready channel''), ca)
        else (Reader ch, resetChannel ca))"

definition ChannelAssembler_NextRawChannel ::
  "'p NextFrameProvider \<Rightarrow> ('p \<Rightarrow> L1BlockRef) \<Rightarrow> ChannelAssembler \<times> 'p \<Rightarrow> ((derive_error + bytes) \<times> ChannelAssembler \<times> 'p) option" where
  "ChannelAssembler_NextRawChannel nextFrame origin st =
    (let (ca, prev) = st;
         ca = (if channelTimedOut (origin prev) ca then resetChannel ca else ca);
         start = origin prev in
     if (case channel ca of None \<Rightarrow> False | Some ch \<Rightarrow> IsReady ch)
     then Some (Inl (CriticalError ''unexpected ready channel''), ca, prev)
     else
       (case ingest_loop nextFrame origin start ca prev of
          None \<Rightarrow> None
        | Some (Some e, ca, prev) \<Rightarrow> Some (Inl e, ca, prev)
        | Some (None, ca, prev) \<Rightarrow> let (r, ca) = complete_channel ca in Some (r, ca, prev)))"

section \<open>The multiplexer\<close>

datatype ChannelStage = Bank ChannelBank | Assembler ChannelAssembler

record ChannelMux =
  muxSpec :: ChainSpec
  stage :: "ChannelStage option"

definition ChannelMux_Reset :: "L1BlockRef \<Rightarrow> ChannelMux \<Rightarrow> derive_error \<times> ChannelMux" where
  "ChannelMux_Reset base c =
    (if IsHolocene (sConfig (muxSpec c)) (l1Time base) then
       let (e, ca) = ChannelAssembler_Reset (case stage c of Some (Assembler ca) \<Rightarrow> ca | _ \<Rightarrow> NewChannelAssembler (muxSpec c))
       in (e, c\<lparr>stage := Some (Assembler ca)\<rparr>)
     else
       let (e, cb) = ChannelBank_Reset (case stage c of Some (Bank cb) \<Rightarrow> cb | _ \<Rightarrow> NewChannelBank (muxSpec c))
       in (e, c\<lparr>stage := Some (Bank cb)\<rparr>))"

definition TransformHolocene :: "ChannelMux \<Rightarrow> derive_error + ChannelMux" where
  "TransformHolocene c =
    (case stage c of
       Some (Bank _) \<Rightarrow> Inr (c\<lparr>stage := Some (Assembler (NewChannelAssembler (muxSpec c)))\<rparr>)
     | Some (Assembler _) \<Rightarrow> Inl (Panic ''Holocene ChannelAssembler already active'')
     | None \<Rightarrow> Inl (Panic ''unknown channel stage type''))"

definition ChannelMux_Transform :: "ForkName \<Rightarrow> ChannelMux \<Rightarrow> derive_error + ChannelMux" where
  "ChannelMux_Transform f c = (case f of Holocene \<Rightarrow> TransformHolocene c | _ \<Rightarrow> Inr c)"

section \<open>Reassembly in any order\<close>

definition chunk_frame :: "ChannelID \<Rightarrow> bytes list \<Rightarrow> nat \<Rightarrow> Frame" where
  "chunk_frame cid ds k = \<lparr>fID = cid, FrameNumber = of_nat k, fData = ds ! k, IsLast = (Suc k = length ds)\<rparr>"

definition chunk_frames :: "ChannelID \<Rightarrow> bytes list \<Rightarrow> Frame list" where
  "chunk_frames cid ds = map (chunk_frame cid ds) [0..<length ds]"

text \<open>Frames are added as \<^verbatim>\<open>IngestFrame\<close> adds them: a frame that is refused is dropped.\<close>

definition add_frames :: "L1BlockRef \<Rightarrow> Frame list \<Rightarrow> Channel \<Rightarrow> Channel" where
  "add_frames origin fs ch = foldl (\<lambda>ch f. case AddFrame f origin ch of Inl _ \<Rightarrow> ch | Inr ch \<Rightarrow> ch) ch fs"

lemma chunk_frame_sel [simp]:
  "fID (chunk_frame cid ds k) = cid" "FrameNumber (chunk_frame cid ds k) = of_nat k" "fData (chunk_frame cid ds k) = ds ! k"
  "IsLast (chunk_frame cid ds k) \<longleftrightarrow> Suc k = length ds"
  by (simp_all add: chunk_frame_def)

lemma ucast_number: "k < 65536 \<Longrightarrow> (ucast (of_nat k :: uint16) :: uint64) = of_nat k"
  by (simp add: word_unat_eq_iff unsigned_ucast_eq unat_of_nat_lt take_bit_nat_eq_self)

lemma number_less: "j < 65536 \<Longrightarrow> k < 65536 \<Longrightarrow> (of_nat j :: uint16) < of_nat k \<longleftrightarrow> j < k"
  by (simp add: word_less_nat_alt unat_of_nat_lt)

lemma number_le: "j < 65536 \<Longrightarrow> k < 65536 \<Longrightarrow> (of_nat j :: uint16) \<le> of_nat k \<longleftrightarrow> j \<le> k"
  by (simp add: word_le_nat_alt unat_of_nat_lt)

lemma key_eq: "j < 65536 \<Longrightarrow> k < 65536 \<Longrightarrow> (of_nat j :: uint64) = of_nat k \<longleftrightarrow> j = k"
  by (auto simp: word_unat_eq_iff unat_of_nat_lt)

text \<open>The channel holds exactly the chunks with the indices in \<open>S\<close>.\<close>

definition holds :: "ChannelID \<Rightarrow> bytes list \<Rightarrow> nat set \<Rightarrow> Channel \<Rightarrow> bool" where
  "holds cid ds S ch \<longleftrightarrow>
    chid ch = cid \<and> \<not> requireInOrder ch \<and> distinct (map fst (inputs ch)) \<and>
    set (inputs ch) = (\<lambda>k. (of_nat k, chunk_frame cid ds k)) ` S \<and>
    (closed ch \<longleftrightarrow> length ds - 1 \<in> S) \<and> (closed ch \<longrightarrow> endFrameNumber ch = of_nat (length ds - 1)) \<and>
    highestFrameNumber ch \<le> of_nat (length ds - 1)"

lemma update_fresh: "k \<notin> fst ` set al \<Longrightarrow> AList.update k v al = al @ [(k, v)]"
  by (induction al) auto

text \<open>A frame that is accepted without pruning.\<close>

definition accepted :: "Frame \<Rightarrow> L1BlockRef \<Rightarrow> Channel \<Rightarrow> Channel" where
  "accepted f b ch = ch\<lparr>endFrameNumber := (if IsLast f then FrameNumber f else endFrameNumber ch), closed := (closed ch \<or> IsLast f),
     highestFrameNumber := max (highestFrameNumber ch) (FrameNumber f),
     highestL1InclusionBlock := (if l1Number (highestL1InclusionBlock ch) < l1Number b then b else highestL1InclusionBlock ch),
     inputs := inputs ch @ [(ucast (FrameNumber f), f)], chSize := chSize ch + frameSize f\<rparr>"

lemma accepted_sel [simp]:
  "chid (accepted f b ch) = chid ch" "openBlock (accepted f b ch) = openBlock ch"
  "requireInOrder (accepted f b ch) = requireInOrder ch" "inputs (accepted f b ch) = inputs ch @ [(ucast (FrameNumber f), f)]"
  "closed (accepted f b ch) \<longleftrightarrow> closed ch \<or> IsLast f"
  "endFrameNumber (accepted f b ch) = (if IsLast f then FrameNumber f else endFrameNumber ch)"
  "highestFrameNumber (accepted f b ch) = max (highestFrameNumber ch) (FrameNumber f)"
  "chSize (accepted f b ch) = chSize ch + frameSize f"
  by (simp_all add: accepted_def)

lemma AddFrame_ok:
  assumes "fID f = chid ch" and "\<not> (IsLast f \<and> closed ch)" and "map_of (inputs ch) (ucast (FrameNumber f)) = None"
    and "\<not> (closed ch \<and> endFrameNumber ch \<le> FrameNumber f)"
    and "\<not> (requireInOrder ch \<and> unat (FrameNumber f) \<noteq> length (inputs ch))"
    and "\<not> (IsLast f \<and> FrameNumber f < highestFrameNumber ch)"
  shows "AddFrame f b ch = Inr (accepted f b ch)"
proof -
  have "AList.update (ucast (FrameNumber f)) f (inputs ch) = inputs ch @ [(ucast (FrameNumber f), f)]"
    using assms(3) by (intro update_fresh) (simp add: map_of_eq_None_iff)
  then show ?thesis using assms by (cases "IsLast f") (auto simp: AddFrame_def accepted_def Let_def max_def)
qed

lemma holds_new: "holds cid ds {} (NewChannel cid b False)"
  by (simp add: holds_def NewChannel_def)

lemma holds_lookup:
  assumes "holds cid ds S ch" and "S \<subseteq> {..<length ds}" and "length ds \<le> 65536" and "k < length ds"
  shows "map_of (inputs ch) (of_nat k) = (if k \<in> S then Some (chunk_frame cid ds k) else None)"
proof -
  have s: "set (inputs ch) = (\<lambda>k. (of_nat k, chunk_frame cid ds k)) ` S" using assms(1) by (simp add: holds_def)
  have "map_of (inputs ch) (of_nat k) = Some f \<longleftrightarrow> k \<in> S \<and> f = chunk_frame cid ds k" for f
  proof -
    have "map_of (inputs ch) (of_nat k) = Some f \<longleftrightarrow> (of_nat k, f) \<in> set (inputs ch)"
      using assms(1) by (simp add: holds_def)
    also have "\<dots> \<longleftrightarrow> (\<exists>j \<in> S. (of_nat j :: uint64) = of_nat k \<and> f = chunk_frame cid ds j)"
      unfolding s image_iff prod.inject by metis
    also have "\<dots> \<longleftrightarrow> k \<in> S \<and> f = chunk_frame cid ds k"
      using assms(2-4) by (auto simp: key_eq lessThan_iff subset_iff)
    finally show ?thesis .
  qed
  then show ?thesis by (cases "map_of (inputs ch) (of_nat k)") auto
qed

lemma holds_card:
  assumes "holds cid ds S ch" and "S \<subseteq> {..<length ds}" and "length ds \<le> 65536"
  shows "length (inputs ch) = card S"
proof -
  have "distinct (inputs ch)" using assms(1) by (auto simp: holds_def distinct_map)
  then have "length (inputs ch) = card ((\<lambda>k. (of_nat k :: uint64, chunk_frame cid ds k)) ` S)"
    using assms(1) by (simp add: holds_def flip: distinct_card)
  moreover have "inj_on (\<lambda>k. (of_nat k :: uint64, chunk_frame cid ds k)) S"
  proof (rule inj_onI)
    fix j k assume "j \<in> S" "k \<in> S" "(of_nat j :: uint64, chunk_frame cid ds j) = (of_nat k, chunk_frame cid ds k)"
    then show "j = k" using key_eq [of j k] assms(2,3) by fastforce
  qed
  ultimately show ?thesis by (simp add: card_image)
qed

lemma AddFrame_holds:
  assumes "holds cid ds S ch" and "S \<subseteq> {..<length ds}" and "length ds \<le> 65536" and "k < length ds"
  shows "(k \<in> S \<longrightarrow> (\<exists>e. AddFrame (chunk_frame cid ds k) b ch = Inl e)) \<and>
    (k \<notin> S \<longrightarrow> (\<exists>ch'. AddFrame (chunk_frame cid ds k) b ch = Inr ch' \<and> holds cid ds (insert k S) ch' \<and>
        chSize ch' = chSize ch + frameSize (chunk_frame cid ds k)))"
proof (intro conjI impI)
  let ?f = "chunk_frame cid ds k"
  have k: "k < 65536" and last: "length ds - 1 < 65536" "k \<le> length ds - 1" using assms(3,4) by auto
  have lk: "map_of (inputs ch) (ucast (FrameNumber ?f)) = (if k \<in> S then Some ?f else None)"
    using holds_lookup [OF assms] k by (simp add: ucast_number)
  show "\<exists>e. AddFrame ?f b ch = Inl e" if "k \<in> S" using that lk by (simp add: AddFrame_def)
  show "\<exists>ch'. AddFrame ?f b ch = Inr ch' \<and> holds cid ds (insert k S) ch' \<and> chSize ch' = chSize ch + frameSize ?f" if new: "k \<notin> S"
  proof -
    have h: "chid ch = cid" "\<not> requireInOrder ch" "distinct (map fst (inputs ch))"
      "closed ch \<longleftrightarrow> length ds - 1 \<in> S" "closed ch \<longrightarrow> endFrameNumber ch = of_nat (length ds - 1)"
      "highestFrameNumber ch \<le> of_nat (length ds - 1)"
      "set (inputs ch) = (\<lambda>k. (of_nat k, chunk_frame cid ds k)) ` S"
      using assms(1) by (simp_all add: holds_def)
    have e1: "\<not> (IsLast ?f \<and> closed ch)" using new h(4) by (metis chunk_frame_sel(4) diff_Suc_1)
    have e2: "\<not> (closed ch \<and> endFrameNumber ch \<le> FrameNumber ?f)"
      using new h(4,5) last number_le [OF last(1) k] by (metis chunk_frame_sel(2) le_antisym)
    have e3: "\<not> (IsLast ?f \<and> FrameNumber ?f < highestFrameNumber ch)"
      using h(6) by (metis chunk_frame_sel(2,4) diff_Suc_1 leD)
    have fresh: "of_nat k \<notin> fst ` set (inputs ch)"
      using new assms(2,3) k by (auto simp: h(7) key_eq subset_iff image_iff)
    have none: "map_of (inputs ch) (ucast (FrameNumber ?f)) = None" using lk new by simp
    have "AddFrame ?f b ch = Inr (accepted ?f b ch)"
      using AddFrame_ok [OF _ e1 none e2 _ e3] h(1,2) by simp
    moreover have "length ds - 1 = k" if "IsLast ?f" using that by (metis chunk_frame_sel(4) diff_Suc_1)
    moreover have "length ds - 1 \<noteq> k" if "\<not> IsLast ?f" using that assms(4) by simp
    moreover have "max (highestFrameNumber ch) (of_nat k) \<le> of_nat (length ds - 1)"
      using h(6) last(2) number_le [OF k last(1)] by simp
    ultimately show ?thesis
      unfolding holds_def using h fresh k by (auto simp: ucast_number)
  qed
qed

definition chunk_sizes :: "bytes list \<Rightarrow> nat set \<Rightarrow> uint64" where
  "chunk_sizes ds S = (\<Sum>k \<in> S. of_nat (length (ds ! k)) + frameOverhead)"

lemma add_frames_holds:
  assumes "holds cid ds S ch" and "S \<subseteq> {..<length ds}" and "length ds \<le> 65536" and "set ks \<subseteq> {..<length ds}"
    and "chSize ch = chunk_sizes ds S"
  shows "holds cid ds (S \<union> set ks) (add_frames b (map (chunk_frame cid ds) ks) ch) \<and>
    chSize (add_frames b (map (chunk_frame cid ds) ks) ch) = chunk_sizes ds (S \<union> set ks)"
  using assms
proof (induction ks arbitrary: S ch)
  case (Cons k ks)
  have k: "k < length ds" using Cons.prems(4) by simp
  note A = AddFrame_holds [OF Cons.prems(1-3) k, of b]
  have fin: "finite S" using Cons.prems(2) finite_subset by blast
  show ?case
  proof (cases "k \<in> S")
    case True
    then obtain e where "AddFrame (chunk_frame cid ds k) b ch = Inl e" using A by blast
    then show ?thesis using Cons.IH [OF Cons.prems(1-3)] Cons.prems(4,5) True by (simp add: add_frames_def insert_absorb)
  next
    case False
    then obtain ch' where c: "AddFrame (chunk_frame cid ds k) b ch = Inr ch'" "holds cid ds (insert k S) ch'"
      "chSize ch' = chSize ch + frameSize (chunk_frame cid ds k)" using A by blast
    have "chSize ch' = chunk_sizes ds (insert k S)"
      using c(3) Cons.prems(5) False fin by (simp add: chunk_sizes_def frameSize_def add.commute)
    then show ?thesis using Cons.IH [OF c(2)] Cons.prems k c(1) by (simp add: add_frames_def)
  qed
qed (simp add: add_frames_def)

lemma read_frames_eq:
  "(\<And>k. k \<in> set ks \<Longrightarrow> map_of inp (of_nat k) = Some (g k)) \<Longrightarrow> read_frames inp (map of_nat ks) = Inr (concat (map (fData \<circ> g) ks))"
  by (induction ks) auto

lemma holds_ready:
  assumes "holds cid ds S ch" and "S \<subseteq> {..<length ds}" and "length ds \<le> 65536" and "ds \<noteq> []"
  shows "IsReady ch \<longleftrightarrow> S = {..<length ds}"
proof
  have last: "length ds - 1 < 65536" using assms(3,4) by (cases ds) auto
  have end_nr: "unat (endFrameNumber ch) = length ds - 1" if "closed ch"
    using that assms(1) last by (simp add: holds_def unat_of_nat_lt)
  show "S = {..<length ds}" if "IsReady ch"
  proof -
    have "closed ch" "length (inputs ch) = length ds" using that end_nr assms(4) by (auto simp: IsReady_def split: if_splits)
    then show ?thesis using holds_card [OF assms(1-3)] card_subset_eq [OF _ assms(2)] by simp
  qed
  show "IsReady ch" if S: "S = {..<length ds}"
  proof -
    have c: "closed ch" using assms(1,4) S by (simp add: holds_def)
    have n: "Suc (unat (endFrameNumber ch)) = length ds" using end_nr [OF c] assms(4) by simp
    have "list_all (\<lambda>i. map_of (inputs ch) i \<noteq> None) (map of_nat [0..<length ds])"
      using holds_lookup [OF assms(1-3)] S by (simp add: list_all_iff)
    then show ?thesis using c n holds_card [OF assms(1-3)] S by (simp add: IsReady_def frame_numbers_def)
  qed
qed

lemma holds_read:
  assumes "holds cid ds {..<length ds} ch" and "length ds \<le> 65536" and "ds \<noteq> []"
  shows "Reader ch = Inr (concat ds)"
proof -
  have last: "length ds - 1 < 65536" using assms(2,3) by (cases ds) auto
  have "closed ch" "endFrameNumber ch = of_nat (length ds - 1)" using assms(1,3) by (auto simp: holds_def)
  then have n: "Suc (unat (endFrameNumber ch)) = length ds" using last assms(3) by (simp add: unat_of_nat_lt)
  have "map (fData \<circ> chunk_frame cid ds) [0..<length ds] = ds" by (rule nth_equalityI) auto
  then show ?thesis
    using read_frames_eq [of "[0..<length ds]" "inputs ch" "chunk_frame cid ds"] holds_lookup [OF assms(1) order_refl assms(2)]
    by (simp add: Reader_def frame_numbers_def n)
qed

text \<open>C12: Reassembly does not depend on the order of arrival: when frames of a channel of at most 65536 frames arrive in any order and
  with any repetitions, the channel is ready exactly when every frame has arrived at least once; reading it then yields
  the data of the frames in their order. The recorded size is that of the frames present.\<close>

theorem channel_reassembly:
  assumes "ds \<noteq> []" and "length ds \<le> 65536" and "set ks \<subseteq> {..<length ds}"
    and "ch = add_frames b (map (chunk_frame cid ds) ks) (NewChannel cid b False)"
  shows "(IsReady ch \<longleftrightarrow> set ks = {..<length ds}) \<and> (IsReady ch \<longrightarrow> Reader ch = Inr (concat ds)) \<and>
    chSize ch = chunk_sizes ds (set ks)"
proof -
  have "chSize (NewChannel cid b False) = chunk_sizes ds {}" by (simp add: NewChannel_def chunk_sizes_def)
  then have h: "holds cid ds (set ks) ch" "chSize ch = chunk_sizes ds (set ks)"
    using add_frames_holds [OF holds_new _ assms(2,3)] assms(4) by auto
  show ?thesis using h holds_ready [OF h(1) assms(3,2,1)] holds_read [OF _ assms(2,1)] by auto
qed

section \<open>The size of a channel that is cut short\<close>

definition frame_sizes :: "(uint64 \<times> Frame) list \<Rightarrow> uint64" where
  "frame_sizes inp = sum_list (map (frameSize \<circ> snd) inp)"

lemma foldl_subtract: "foldl (\<lambda>s (_, f). s - frameSize f) s inp = s - frame_sizes inp"
  by (induction inp arbitrary: s) (auto simp: frame_sizes_def algebra_simps)

text \<open>A closing frame that arrives after frames beyond it resets the recorded size of the channel to its own size:
  the frames below it stay buffered but are no longer counted.\<close>

theorem channel_size_undercount:
  assumes "AddFrame f b ch = Inr ch'" and "IsLast f" and "FrameNumber f < highestFrameNumber ch"
    and "chSize ch = frame_sizes (inputs ch)"
  shows "chSize ch' = frameSize f \<and>
    frame_sizes (inputs ch') = frameSize f + frame_sizes (filter (\<lambda>(idx, _). idx < ucast (FrameNumber f)) (inputs ch))"
proof -
  let ?kept = "filter (\<lambda>(idx, _). \<not> ucast (FrameNumber f) \<le> idx) (inputs ch)"
  have none: "map_of (inputs ch) (ucast (FrameNumber f)) = None"
    using assms(1) by (auto simp: AddFrame_def split: if_splits)
  have "AList.update (ucast (FrameNumber f)) f ?kept = ?kept @ [(ucast (FrameNumber f), f)]"
    by (rule update_fresh) auto
  then have "inputs ch' = ?kept @ [(ucast (FrameNumber f), f)]" "chSize ch' = chSize ch - frame_sizes (inputs ch) + frameSize f"
    using assms(1-3) by (auto simp: AddFrame_def prune_inputs_def foldl_subtract Let_def split: if_splits)
  then show ?thesis using assms(4) by (simp add: frame_sizes_def not_le)
qed

section \<open>The channel bank keeps its queue and its bound\<close>

definition bank_ok :: "(ChannelID \<times> Channel) list \<Rightarrow> ChannelID list \<Rightarrow> bool" where
  "bank_ok chs q \<longleftrightarrow> distinct (map fst chs) \<and> distinct q \<and> set q = fst ` set chs"

definition cb_ok :: "ChannelBank \<Rightarrow> bool" where
  "cb_ok cb \<longleftrightarrow> bank_ok (channels cb) (channelQueue cb)"

lemma bank_ok_lookup: "bank_ok chs q \<Longrightarrow> i \<in> set q \<Longrightarrow> \<exists>ch. map_of chs i = Some ch"
  unfolding bank_ok_def by (metis map_of_eq_None_iff option.exhaust)

lemma bank_ok_delete: "bank_ok chs (q1 @ i # q2) \<Longrightarrow> bank_ok (AList.delete i chs) (q1 @ q2)"
proof -
  assume a: "bank_ok chs (q1 @ i # q2)"
  have "set (map fst (AList.delete i chs)) = set (q1 @ i # q2) - {i}"
    using a by (simp add: bank_ok_def AList.delete_keys)
  then show ?thesis using a by (auto simp: bank_ok_def AList.distinct_delete)
qed

lemma total_delete:
  "distinct (map fst chs) \<Longrightarrow> map_of chs i = Some ch \<Longrightarrow> bank_total (AList.delete i chs) = bank_total chs - chSize ch"
proof (induction chs)
  case (Cons c chs)
  have "AList.delete i chs = chs" if "i \<notin> fst ` set chs" using that by (rule AList.delete_id)
  then show ?case using Cons by (cases c) (auto simp: bank_total_def algebra_simps split: if_splits)
qed simp

lemma total_update_same:
  "distinct (map fst chs) \<Longrightarrow> map_of chs i = Some ch \<Longrightarrow>
     bank_total (AList.update i ch' chs) = bank_total chs - chSize ch + chSize ch'"
  by (induction chs) (auto simp: bank_total_def algebra_simps split: if_splits)

lemma prune_queue_spec:
  assumes "bank_ok chs q" and "tot = bank_total chs"
  shows "\<exists>chs' q'. prune_queue maxSize tot chs q = Inr (chs', q') \<and> bank_ok chs' q' \<and> bank_total chs' \<le> maxSize \<and>
    (\<exists>dropped. q = dropped @ q' \<and> chs' = filter (\<lambda>(i, _). i \<notin> set dropped) chs) \<and>
    (bank_total chs \<le> maxSize \<longrightarrow> q' = q)"
  using assms
proof (induction q arbitrary: chs tot)
  case Nil
  then have "chs = []" "tot = 0" by (auto simp: bank_ok_def bank_total_def)
  then show ?case by (simp add: bank_ok_def bank_total_def)
next
  case (Cons i q)
  show ?case
  proof (cases "maxSize < tot")
    case True
    obtain ch where ch: "map_of chs i = Some ch" using bank_ok_lookup [OF Cons.prems(1)] by auto
    have "tot - chSize ch = bank_total (AList.delete i chs)"
      using total_delete [OF _ ch] Cons.prems by (simp add: bank_ok_def)
    from Cons.IH [OF bank_ok_delete [where ?q1.0 = "[]", simplified, OF Cons.prems(1)] this]
    obtain chs' q' dropped where r: "prune_queue maxSize (tot - chSize ch) (AList.delete i chs) q = Inr (chs', q')"
      "bank_ok chs' q'" "bank_total chs' \<le> maxSize" "q = dropped @ q'"
      "chs' = filter (\<lambda>(i, _). i \<notin> set dropped) (AList.delete i chs)" by blast
    have "chs' = filter (\<lambda>(j, _). j \<notin> set (i # dropped)) chs"
      unfolding r(5) AList.delete_eq filter_filter by (rule filter_cong) auto
    then show ?thesis using True ch r(1-4) Cons.prems(2) by (intro exI conjI) (auto simp: not_less)
  next
    case False
    then show ?thesis using Cons.prems by (intro exI [of _ chs] exI [of _ "i # q"]) (auto intro: exI [of _ "[]"])
  qed
qed


lemma ChannelBank_prune_spec:
  assumes "cb_ok cb"
  shows "\<exists>cb'. ChannelBank_prune o1 cb = Inr cb' \<and> cb_ok cb' \<and> cbSpec cb' = cbSpec cb \<and>
    bank_total (channels cb') \<le> MaxChannelBankSize (cbSpec cb) (l1Time o1)"
proof -
  from prune_queue_spec [OF assms [unfolded cb_ok_def] refl, of "MaxChannelBankSize (cbSpec cb) (l1Time o1)"]
  obtain chs q where "prune_queue (MaxChannelBankSize (cbSpec cb) (l1Time o1)) (bank_total (channels cb)) (channels cb) (channelQueue cb) = Inr (chs, q)"
    "bank_ok chs q" "bank_total chs \<le> MaxChannelBankSize (cbSpec cb) (l1Time o1)" by blast
  then show ?thesis by (simp add: ChannelBank_prune_def cb_ok_def)
qed

lemma bank_ok_update: "bank_ok chs q \<Longrightarrow> i \<in> set q \<Longrightarrow> bank_ok (AList.update i ch chs) q"
  by (auto simp: bank_ok_def AList.distinct_update AList.dom_update)

lemma bank_ok_insert: "bank_ok chs q \<Longrightarrow> map_of chs i = None \<Longrightarrow> bank_ok (AList.update i ch chs) (q @ [i])"
  by (auto simp: bank_ok_def AList.distinct_update AList.dom_update map_of_eq_None_iff)

text \<open>The bank with the channel of a frame opened when it is new.\<close>

definition opened :: "L1BlockRef \<Rightarrow> Frame \<Rightarrow> ChannelBank \<Rightarrow> ChannelBank" where
  "opened o1 f cb =
    (case map_of (channels cb) (fID f) of
       Some ch \<Rightarrow> cb
     | None \<Rightarrow> cb\<lparr>channels := AList.update (fID f) (NewChannel (fID f) o1 False) (channels cb), channelQueue := channelQueue cb @ [fID f]\<rparr>)"

lemma opened_ok:
  assumes "cb_ok cb"
  shows "cb_ok (opened o1 f cb) \<and> fID f \<in> set (channelQueue (opened o1 f cb)) \<and> cbSpec (opened o1 f cb) = cbSpec cb \<and>
    bank_total (channels (opened o1 f cb)) = bank_total (channels cb)"
proof (cases "map_of (channels cb) (fID f)")
  case None
  then have "AList.update (fID f) (NewChannel (fID f) o1 False) (channels cb) = channels cb @ [(fID f, NewChannel (fID f) o1 False)]"
    by (intro update_fresh) (simp add: map_of_eq_None_iff)
  then show ?thesis
    using None assms bank_ok_insert [OF _ None, of _ "NewChannel (fID f) o1 False"]
    by (simp add: opened_def cb_ok_def bank_total_def NewChannel_def)
next
  case (Some ch)
  then show ?thesis using assms map_of_SomeD [OF Some] by (force simp: opened_def cb_ok_def bank_ok_def)
qed

lemma IngestFrame_opened:
  "IngestFrame o1 f cb =
    (let cb' = opened o1 f cb; ch = (case map_of (channels cb) (fID f) of Some ch \<Rightarrow> ch | None \<Rightarrow> NewChannel (fID f) o1 False) in
     if timed_out (cbSpec cb') o1 ch then Inr cb'
     else case AddFrame f o1 ch of Inl _ \<Rightarrow> Inr cb'
        | Inr ch \<Rightarrow> ChannelBank_prune o1 (cb'\<lparr>channels := AList.update (fID f) ch (channels cb')\<rparr>))"
  by (simp add: IngestFrame_def opened_def Let_def split: option.splits)

lemma IngestFrame_spec:
  assumes "cb_ok cb"
  shows "\<exists>cb'. IngestFrame o1 f cb = Inr cb' \<and> cb_ok cb' \<and> cbSpec cb' = cbSpec cb \<and>
    (bank_total (channels cb) \<le> MaxChannelBankSize (cbSpec cb) (l1Time o1) \<longrightarrow>
     bank_total (channels cb') \<le> MaxChannelBankSize (cbSpec cb) (l1Time o1))"
proof -
  define cb1 where "cb1 = opened o1 f cb"
  note o = opened_ok [OF assms, of o1 f, folded cb1_def]
  have "cb_ok (cb1\<lparr>channels := AList.update (fID f) ch (channels cb1)\<rparr>)" for ch
    using o by (simp add: cb_ok_def bank_ok_update)
  from ChannelBank_prune_spec [OF this, of o1] show ?thesis
    using o unfolding IngestFrame_opened cb1_def [symmetric] Let_def
    by (auto split: sum.splits)
qed

section \<open>Reading from the bank\<close>

definition readable :: "L1BlockRef \<Rightarrow> ChannelBank \<Rightarrow> ChannelID \<Rightarrow> bool" where
  "readable o1 cb i = (case map_of (channels cb) i of None \<Rightarrow> False | Some ch \<Rightarrow> \<not> timed_out (cbSpec cb) o1 ch \<and> IsReady ch)"

definition without :: "ChannelID \<Rightarrow> ChannelBank \<Rightarrow> ChannelBank" where
  "without i cb = cb\<lparr>channels := AList.delete i (channels cb), channelQueue := remove1 i (channelQueue cb)\<rparr>"

lemma without_ok: "cb_ok cb \<Longrightarrow> i \<in> set (channelQueue cb) \<Longrightarrow> cb_ok (without i cb)"
proof -
  assume a: "cb_ok cb" "i \<in> set (channelQueue cb)"
  obtain q1 q2 where q: "channelQueue cb = q1 @ i # q2" "i \<notin> set q1" using split_list_first [OF a(2)] by blast
  then show ?thesis
    using bank_ok_delete [of "channels cb" q1 i q2] a(1) by (simp add: cb_ok_def without_def remove1_append)
qed

lemma IsReady_Reader: "IsReady ch \<Longrightarrow> \<exists>data. Reader ch = Inr data"
proof -
  have "list_all (\<lambda>i. map_of inp i \<noteq> None) is \<Longrightarrow> \<exists>data. read_frames inp is = Inr data" for inp "is"
    by (induction "is") auto
  then show "IsReady ch \<Longrightarrow> \<exists>data. Reader ch = Inr data"
    by (auto simp: IsReady_def Reader_def split: if_splits)
qed

lemma remove1_nth: "distinct q \<Longrightarrow> i < length q \<Longrightarrow> remove1 (q ! i) q = take i q @ drop (Suc i) q"
proof -
  assume a: "distinct q" "i < length q"
  have q: "q = take i q @ q ! i # drop (Suc i) q" using a(2) by (rule id_take_nth_drop)
  then have "q ! i \<notin> set (take i q)" using a(1) by (metis distinct_append not_distinct_conv_prefix)
  then show ?thesis by (subst (2) q) (simp add: remove1_append)
qed

lemma tryRead_spec:
  assumes "cb_ok cb" and "i < length (channelQueue cb)"
  shows "tryReadChannelAtIndex o1 i cb =
    (if readable o1 cb (channelQueue cb ! i)
     then (Reader (the (map_of (channels cb) (channelQueue cb ! i))), without (channelQueue cb ! i) cb)
     else (Inl IoEOF, cb))"
proof -
  obtain ch where "map_of (channels cb) (channelQueue cb ! i) = Some ch"
    using bank_ok_lookup [of "channels cb" "channelQueue cb" "channelQueue cb ! i"] assms by (auto simp: cb_ok_def)
  then show ?thesis
    using assms by (auto simp: tryReadChannelAtIndex_def readable_def without_def remove1_nth cb_ok_def bank_ok_def not_le)
qed

definition read_result :: "L1BlockRef \<Rightarrow> ChannelBank \<Rightarrow> ChannelID option \<Rightarrow> (derive_error + bytes) \<times> ChannelBank" where
  "read_result o1 cb found =
    (case found of None \<Rightarrow> (Inl IoEOF, cb) | Some i \<Rightarrow> (Reader (the (map_of (channels cb) i)), without i cb))"

lemma readable_Reader: "readable o1 cb i \<Longrightarrow> \<exists>data. Reader (the (map_of (channels cb) i)) = Inr data"
  by (auto simp: readable_def IsReady_Reader split: option.splits)

lemma read_loop_spec:
  assumes "cb_ok cb"
  shows "read_loop o1 i cb = read_result o1 cb (find (readable o1 cb) (drop i (channelQueue cb)))"
proof (induction "length (channelQueue cb) - i" arbitrary: i)
  case 0
  then show ?case by (simp add: read_loop.simps read_result_def)
next
  case (Suc n)
  then have i: "i < length (channelQueue cb)" by simp
  then have d: "drop i (channelQueue cb) = channelQueue cb ! i # drop (Suc i) (channelQueue cb)" by (rule Cons_nth_drop_Suc [symmetric])
  have IH: "read_loop o1 (Suc i) cb = read_result o1 cb (find (readable o1 cb) (drop (Suc i) (channelQueue cb)))"
    using Suc by simp
  show ?case
    using tryRead_spec [OF assms i, of o1] readable_Reader [of o1 cb "channelQueue cb ! i"] i IH d
    by (auto simp: read_loop.simps [of _ i] read_result_def)
qed

lemma Read_spec:
  assumes "cb_ok cb"
  shows "ChannelBank_Read o1 cb =
    (if channelQueue cb \<noteq> [] \<and> timed_out (cbSpec cb) o1 (the (map_of (channels cb) (hd (channelQueue cb))))
     then (Inr [], without (hd (channelQueue cb)) cb)
     else read_result o1 cb (find (readable o1 cb)
            (if IsCanyon (sConfig (cbSpec cb)) (l1Time o1) then channelQueue cb else take 1 (channelQueue cb)))) \<and>
   cb_ok (snd (ChannelBank_Read o1 cb)) \<and> (\<forall>e. fst (ChannelBank_Read o1 cb) = Inl e \<longrightarrow> e = IoEOF \<and> snd (ChannelBank_Read o1 cb) = cb)"
proof -
  let ?q = "channelQueue cb"
  have e: "ChannelBank_Read o1 cb =
    (if ?q \<noteq> [] \<and> timed_out (cbSpec cb) o1 (the (map_of (channels cb) (hd ?q))) then (Inr [], without (hd ?q) cb)
     else read_result o1 cb (find (readable o1 cb) (if IsCanyon (sConfig (cbSpec cb)) (l1Time o1) then ?q else take 1 ?q)))"
  proof (cases ?q)
    case Nil
    then show ?thesis by (simp add: ChannelBank_Read_def read_result_def)
  next
    case (Cons i q)
    obtain ch where "map_of (channels cb) i = Some ch" using bank_ok_lookup [of "channels cb" ?q i] assms Cons by (auto simp: cb_ok_def)
    then show ?thesis
      using Cons tryRead_spec [OF assms, of 0 o1] read_loop_spec [OF assms, of o1 0]
      by (auto simp: ChannelBank_Read_def without_def read_result_def)
  qed
  have ok: "cb_ok (snd (read_result o1 cb (find (readable o1 cb) q)))" if "set q \<subseteq> set ?q" for q
  proof (cases "find (readable o1 cb) q")
    case (Some i)
    then have "i \<in> set q" by (auto simp: find_Some_iff)
    then show ?thesis using Some that without_ok [OF assms, of i] by (auto simp: read_result_def)
  qed (simp add: read_result_def assms)
  have err: "e = IoEOF \<and> snd (read_result o1 cb (find (readable o1 cb) q)) = cb" if "fst (read_result o1 cb (find (readable o1 cb) q)) = Inl e" for q e
  proof (cases "find (readable o1 cb) q")
    case (Some i)
    then have "readable o1 cb i" by (auto simp: find_Some_iff)
    then show ?thesis using Some that readable_Reader [of o1 cb i] by (auto simp: read_result_def)
  qed (use that in \<open>simp add: read_result_def\<close>)
  show ?thesis
    unfolding e using ok [of ?q] ok [of "take 1 ?q"] err without_ok [OF assms, of "hd ?q"] set_take_subset [of 1 ?q]
    by auto
qed

text \<open>C11: Reading the channel bank: a head channel that timed out is dropped without data; otherwise the result is the data of the
  first channel of the queue that is complete and not timed out (before Canyon only the head is considered), which
  leaves the bank, or \<^verbatim>\<open>io.EOF\<close> with the bank unchanged. Reading never panics.\<close>

theorem channel_bank_read:
  assumes "cb_ok cb"
  shows "ChannelBank_Read o1 cb =
    (if channelQueue cb \<noteq> [] \<and> timed_out (cbSpec cb) o1 (the (map_of (channels cb) (hd (channelQueue cb))))
     then (Inr [], without (hd (channelQueue cb)) cb)
     else read_result o1 cb (find (readable o1 cb)
            (if IsCanyon (sConfig (cbSpec cb)) (l1Time o1) then channelQueue cb else take 1 (channelQueue cb)))) \<and>
   cb_ok (snd (ChannelBank_Read o1 cb)) \<and> (\<forall>e. fst (ChannelBank_Read o1 cb) = Inl e \<longrightarrow> e = IoEOF \<and> snd (ChannelBank_Read o1 cb) = cb)"
  by (rule Read_spec [OF assms])

text \<open>C10: The channel bank is safe: from every bank whose queue lists its channels once, a call of \<^verbatim>\<open>NextRawChannel\<close> panics
  nowhere (the only errors are \<^verbatim>\<open>NotEnoughData\<close> and those of the previous stage), keeps that invariant, and
  keeps the recorded sizes of the channels within the bank's limit.\<close>

theorem channel_bank_safe:
  assumes "cb_ok cb" and "ChannelBank_NextRawChannel nextFrame origin (cb, prev) = (r, cb', prev')"
  shows "cb_ok cb' \<and>
    (\<forall>e. r = Inl e \<longrightarrow> e = NotEnoughData \<or> fst (nextFrame prev) = Inl e) \<and>
    (bank_total (channels cb) \<le> MaxChannelBankSize (cbSpec cb) (l1Time (origin prev')) \<longrightarrow> r = Inl NotEnoughData \<longrightarrow>
      bank_total (channels cb') \<le> MaxChannelBankSize (cbSpec cb) (l1Time (origin prev')))"
proof -
  obtain r1 cb1 where rd: "ChannelBank_Read (origin prev) cb = (r1, cb1)" by (cases "ChannelBank_Read (origin prev) cb")
  have ok1: "cb_ok cb1" and err1: "\<And>e. r1 = Inl e \<Longrightarrow> e = IoEOF \<and> cb1 = cb" using Read_spec [OF assms(1), of "origin prev"] rd by auto
  show ?thesis
  proof (cases r1)
    case (Inr data)
    then show ?thesis using assms(2) rd ok1 by (auto simp: ChannelBank_NextRawChannel_def)
  next
    case (Inl e)
    then have r1: "r1 = Inl IoEOF" "cb1 = cb" using err1 by auto
    show ?thesis
    proof (cases "nextFrame prev")
      case (Pair nf prev1)
      show ?thesis
      proof (cases nf)
        case (Inl e)
        then show ?thesis using assms Pair r1 rd by (auto simp: ChannelBank_NextRawChannel_def)
      next
        case (Inr f)
        obtain cb2 where "IngestFrame (origin prev1) f cb = Inr cb2" "cb_ok cb2"
          "bank_total (channels cb) \<le> MaxChannelBankSize (cbSpec cb) (l1Time (origin prev1)) \<longrightarrow>
           bank_total (channels cb2) \<le> MaxChannelBankSize (cbSpec cb) (l1Time (origin prev1))"
          using IngestFrame_spec [OF assms(1)] by blast
        then show ?thesis using assms Pair Inr r1 rd by (auto simp: ChannelBank_NextRawChannel_def)
      qed
    qed
  qed
qed

section \<open>Concrete channels\<close>

definition sample_ref :: L1BlockRef where
  "sample_ref = \<lparr>l1Hash = 5, l1Number = 7, l1ParentHash = 4, l1Time = 55\<rparr>"

definition sample_cid :: ChannelID where "sample_cid = replicate 16 0"

definition sample_chunks :: "bytes list" where "sample_chunks = [[1, 2], [3], [4, 5]]"

lemma channel_reassembly_witness:
  "Reader (add_frames sample_ref (map (chunk_frame sample_cid sample_chunks) [2, 0, 1, 0]) (NewChannel sample_cid sample_ref False)) =
    Inr [1, 2, 3, 4, 5]"
proof -
  have e: "{..<length sample_chunks} = {0, 1, 2}" by (auto simp: sample_chunks_def)
  have "set [2, 0, 1, 0] = {..<length sample_chunks}" unfolding e by auto
  then show ?thesis
    using channel_reassembly [of sample_chunks "[2, 0, 1, 0]" _ sample_ref sample_cid] by (simp add: sample_chunks_def)
qed

lemma channel_size_undercount_witness:
  "\<exists>ch'. AddFrame \<lparr>fID = sample_cid, FrameNumber = 1, fData = [6], IsLast = True\<rparr> sample_ref
      (add_frames sample_ref (map (chunk_frame sample_cid [[1], [2], [3], [4]]) [0, 2]) (NewChannel sample_cid sample_ref False)) = Inr ch' \<and>
    chSize ch' = 201 \<and> frame_sizes (inputs ch') = 402"
proof -
  let ?f = "\<lparr>fID = sample_cid, FrameNumber = 1, fData = [6], IsLast = True\<rparr>"
  let ?ch = "add_frames sample_ref (map (chunk_frame sample_cid [[1], [2], [3], [4]]) [0, 2]) (NewChannel sample_cid sample_ref False)"
  have "is_ok (AddFrame ?f sample_ref ?ch)" by code_simp
  then obtain ch' where ch': "AddFrame ?f sample_ref ?ch = Inr ch'" by (cases "AddFrame ?f sample_ref ?ch") auto
  have "IsLast ?f" "FrameNumber ?f < highestFrameNumber ?ch" "chSize ?ch = frame_sizes (inputs ?ch)"
    "frameSize ?f = 201" "frame_sizes (filter (\<lambda>(idx, _). idx < ucast (FrameNumber ?f)) (inputs ?ch)) = 201"
    by code_simp+
  then show ?thesis using channel_size_undercount [OF ch'] ch' by simp
qed

definition sample_bank :: ChannelBank where
  "sample_bank = \<lparr>cbSpec = NewChainSpec (sample_config 12 14),
    channels = [(sample_cid, add_frames sample_ref (map (chunk_frame sample_cid sample_chunks) [1, 2, 0]) (NewChannel sample_cid sample_ref False))],
    channelQueue = [sample_cid]\<rparr>"

lemma sample_bank_ok: "cb_ok sample_bank" by (simp add: cb_ok_def bank_ok_def sample_bank_def)

lemma channel_bank_read_witness:
  "cb_ok sample_bank \<and> fst (ChannelBank_Read sample_ref sample_bank) = Inr [1, 2, 3, 4, 5] \<and> cb_ok (snd (ChannelBank_Read sample_ref sample_bank))"
proof -
  have "\<not> timed_out (cbSpec sample_bank) sample_ref (the (map_of (channels sample_bank) (hd (channelQueue sample_bank))))" by code_simp
  moreover have "fst (read_result sample_ref sample_bank (find (readable sample_ref sample_bank)
            (if IsCanyon (sConfig (cbSpec sample_bank)) (l1Time sample_ref) then channelQueue sample_bank else take 1 (channelQueue sample_bank)))) =
      Inr [1, 2, 3, 4, 5]" by code_simp
  ultimately show ?thesis using channel_bank_read [OF sample_bank_ok, of sample_ref] sample_bank_ok by auto
qed

definition next_listed :: "Frame list NextFrameProvider" where
  "next_listed fs = (case fs of [] \<Rightarrow> (Inl IoEOF, []) | f # fs \<Rightarrow> (Inr f, fs))"

lemma channel_bank_safe_witness:
  "cb_ok (fst (snd (ChannelBank_NextRawChannel next_listed (\<lambda>_. sample_ref) (NewChannelBank (NewChainSpec (sample_config 12 14)), chunk_frames sample_cid sample_chunks))))"
  using channel_bank_safe [of "NewChannelBank (NewChainSpec (sample_config 12 14))" next_listed "\<lambda>_. sample_ref" "chunk_frames sample_cid sample_chunks"]
  by (cases "ChannelBank_NextRawChannel next_listed (\<lambda>_. sample_ref) (NewChannelBank (NewChainSpec (sample_config 12 14)), chunk_frames sample_cid sample_chunks)")
    (simp add: cb_ok_def bank_ok_def NewChannelBank_def)

end
