(* ===== verification/DeriveAssembler.thy ===== *)
theory DeriveAssembler
  imports DeriveChannel
begin

text \<open>
  The channel assembler refines a machine over lists of frames; soundness over every previous stage, and completeness over
  a finite supply of batcher transactions. The interfaces between the stages are locales: \<open>item_supply\<close> is what a stage expects of
  the one before it, \<open>frame_supply\<close> and \<open>tx_supply\<close> are its instances for frames and transactions, and the frame
  queue turns the second into the first.
\<close>

section \<open>The assembler as a machine over frame lists\<close>

text \<open>The frames of one complete channel: numbered from 0, with one identifier, only the last one marked.\<close>

definition contiguous :: "Frame list \<Rightarrow> bool" where
  "contiguous fs \<longleftrightarrow> length fs \<le> 65536 \<and>
    (\<forall>k < length fs. FrameNumber (fs ! k) = of_nat k \<and> fID (fs ! k) = fID (hd fs) \<and> (Suc k < length fs \<longrightarrow> \<not> IsLast (fs ! k)))"

definition complete_frames :: "Frame list \<Rightarrow> bool" where
  "complete_frames fs \<longleftrightarrow> fs \<noteq> [] \<and> contiguous fs \<and> IsLast (last fs)"

definition total_size :: "Frame list \<Rightarrow> uint64" where
  "total_size fs = sum_list (map frameSize fs)"

text \<open>One step of the abstract machine: the frames of the open channel, if there is one. The flag says that they are
  complete.\<close>

definition assemble :: "uint64 \<Rightarrow> Frame \<Rightarrow> Frame list option \<Rightarrow> bool \<times> Frame list option" where
  "assemble maxBytes f acc =
    (case (if FrameNumber f = 0 then Some [] else acc) of
       None \<Rightarrow> (False, None)
     | Some fs \<Rightarrow>
        if unat (FrameNumber f) = length fs \<and> (fs = [] \<or> fID f = fID (hd fs)) then
          (if maxBytes < total_size (fs @ [f]) then (False, None) else (IsLast f, Some (fs @ [f])))
        else (False, Some fs))"

definition numbered :: "Frame list \<Rightarrow> (uint64 \<times> Frame) list" where
  "numbered fs = map (\<lambda>k. (of_nat k, fs ! k)) [0..<length fs]"

text \<open>The channel of the assembler holds the frames \<open>fs\<close>, none of which is the last one.\<close>

definition assembling :: "Channel \<Rightarrow> Frame list \<Rightarrow> bool" where
  "assembling ch fs \<longleftrightarrow> requireInOrder ch \<and> \<not> closed ch \<and> inputs ch = numbered fs \<and> contiguous fs \<and>
    (\<forall>f \<in> set fs. fID f = chid ch \<and> \<not> IsLast f) \<and> unat (highestFrameNumber ch) \<le> length fs \<and> chSize ch = total_size fs"

definition ca_rel :: "ChannelAssembler \<Rightarrow> Frame list option \<Rightarrow> bool" where
  "ca_rel ca acc \<longleftrightarrow>
    (case channel ca of
       None \<Rightarrow> acc = None
     | Some ch \<Rightarrow> (\<exists>fs. acc = Some fs \<and> fs \<noteq> [] \<and> assembling ch fs))"

lemma length_numbered [simp]: "length (numbered fs) = length fs"
  by (simp add: numbered_def)

lemma numbered_snoc: "numbered (fs @ [f]) = numbered fs @ [(of_nat (length fs), f)]"
  by (auto simp: numbered_def nth_append)

lemma lookup_numbered:
  assumes "length fs \<le> 65536" and "k < 65536"
  shows "map_of (numbered fs) (of_nat k) = (if k < length fs then Some (fs ! k) else None)"
proof -
  have "inj_on (of_nat :: nat \<Rightarrow> uint64) {0..<65536}" by (auto simp: inj_on_def key_eq)
  then have d: "distinct (map fst (numbered fs))"
    using assms(1) by (auto simp: numbered_def comp_def distinct_map intro: inj_on_subset)
  show ?thesis
  proof (cases "k < length fs")
    case True
    then have "(of_nat k, fs ! k) \<in> set (numbered fs)" by (auto simp: numbered_def)
    then show ?thesis using True d by simp
  next
    case False
    then have "of_nat k \<notin> fst ` set (numbered fs)" using assms by (auto simp: numbered_def key_eq)
    then show ?thesis using False by (simp add: map_of_eq_None_iff)
  qed
qed

lemma number_bound: "unat (n :: uint16) < 65536"
  using unsigned_less [where 'a = nat, of n] by simp

lemma ucast_unat: "(ucast (n :: uint16) :: uint64) = of_nat (unat n)"
  by (simp add: unsigned_of_nat) 

lemma contiguous_snoc:
  assumes "contiguous fs" and "unat (FrameNumber f) = length fs" and "\<forall>g \<in> set fs. fID g = fID f \<and> \<not> IsLast g"
  shows "contiguous (fs @ [f])"
proof -
  have "length fs < 65536" using assms(2) number_bound [of "FrameNumber f"] by simp
  moreover have "FrameNumber f = of_nat (length fs)" by (simp flip: assms(2))
  moreover have "fID (hd (fs @ [f])) = fID f" using assms(3) by (cases fs) auto
  ultimately show ?thesis using assms by (auto simp: contiguous_def nth_append hd_append less_Suc_eq)
qed

lemma AddFrame_assembling:
  assumes "assembling ch fs"
  shows "if fID f = chid ch \<and> unat (FrameNumber f) = length fs then AddFrame f b ch = Inr (accepted f b ch)
         else \<exists>e. AddFrame f b ch = Inl e"
proof (cases "fID f = chid ch \<and> unat (FrameNumber f) = length fs")
  case True
  have a: "\<not> closed ch" "requireInOrder ch" "inputs ch = numbered fs" "unat (highestFrameNumber ch) \<le> length fs" "contiguous fs"
    using assms by (auto simp: assembling_def)
  have "map_of (inputs ch) (ucast (FrameNumber f)) = None"
    unfolding ucast_unat a(3) using True number_bound [of "FrameNumber f"] a(5) lookup_numbered [of fs "unat (FrameNumber f)"]
    by (simp add: contiguous_def)
  moreover have "\<not> FrameNumber f < highestFrameNumber ch" using a(4) True by (simp add: word_less_nat_alt)
  ultimately have "AddFrame f b ch = Inr (accepted f b ch)" using AddFrame_ok [of f ch b] True a(1-3) by simp
  then show ?thesis using True by simp
next
  case False
  then show ?thesis using assms by (auto simp: AddFrame_def assembling_def)
qed


lemma numbered_read: "length fs \<le> 65536 \<Longrightarrow> n = length fs \<Longrightarrow> read_frames (numbered fs) (map of_nat [0..<n]) = Inr (concat (map fData fs))"
proof -
  assume a: "length fs \<le> 65536" "n = length fs"
  have "map (fData \<circ> (!) fs) [0..<length fs] = map fData fs" by (rule nth_equalityI) auto
  then show ?thesis
    using read_frames_eq [of "[0..<length fs]" "numbered fs" "(!) fs"] lookup_numbered [OF a(1)] a by simp
qed

lemma accepted_assembling:
  assumes "assembling ch fs" and "fID f = chid ch" and "unat (FrameNumber f) = length fs"
  shows "if IsLast f
    then IsReady (accepted f b ch) \<and> Reader (accepted f b ch) = Inr (concat (map fData (fs @ [f]))) \<and>
         complete_frames (fs @ [f]) \<and> chSize (accepted f b ch) = total_size (fs @ [f])
    else assembling (accepted f b ch) (fs @ [f])"
proof -
  have a: "inputs ch = numbered fs" "contiguous fs" "\<forall>g \<in> set fs. fID g = fID f \<and> \<not> IsLast g"
     "unat (highestFrameNumber ch) \<le> length fs" "chSize ch = total_size fs"
    using assms by (auto simp: assembling_def)
  have c: "contiguous (fs @ [f])" by (rule contiguous_snoc [OF a(2) assms(3) a(3)])
  have inp: "inputs (accepted f b ch) = numbered (fs @ [f])" by (simp add: numbered_snoc a(1) ucast_unat assms(3))
  have sz: "chSize (accepted f b ch) = total_size (fs @ [f])" by (simp add: a(5) total_size_def)
  show ?thesis
  proof (cases "IsLast f")
    case True
    have len: "length (fs @ [f]) \<le> 65536" using c by (simp only: contiguous_def)
    have n: "frame_numbers (accepted f b ch) = map of_nat [0..<length (fs @ [f])]"
      using True assms(3) by (simp add: frame_numbers_def)
    have "list_all (\<lambda>i. map_of (numbered (fs @ [f])) i \<noteq> None) (map of_nat [0..<length (fs @ [f])])"
      using lookup_numbered [OF len] len by (auto simp: list_all_iff simp del: upt_Suc)
    then have "IsReady (accepted f b ch)"
      unfolding IsReady_def n inp using True assms(3) by simp
    moreover have "Reader (accepted f b ch) = Inr (concat (map fData (fs @ [f])))"
      unfolding Reader_def n inp by (rule numbered_read [OF len refl])
    ultimately show ?thesis using True c sz by (simp add: complete_frames_def)
  next
    case False
    then show ?thesis
      using assms a(3,4) c inp sz by (auto simp: assembling_def max_def)
  qed
qed

lemma new_assembling: "assembling (NewChannel i b True) []"
  by (simp add: assembling_def NewChannel_def numbered_def contiguous_def total_size_def)

lemma ingest_spec:
  assumes "ca_rel ca acc" and "ingest b maxBytes f ca = (d, ca')" and "assemble maxBytes f acc = (d', acc')"
  shows "d = d' \<and> caSpec ca' = caSpec ca \<and>
    (if d then \<exists>ch fs. channel ca' = Some ch \<and> acc' = Some fs \<and> IsReady ch \<and> Reader ch = Inr (concat (map fData fs)) \<and>
                complete_frames fs \<and> total_size fs \<le> maxBytes
     else ca_rel ca' acc')"
proof -
  define c1 where "c1 = (if FrameNumber f = 0 then Some (NewChannel (fID f) b True) else channel ca)"
  define a1 where "a1 = (if FrameNumber f = 0 then Some [] else acc)"
  have i: "ingest b maxBytes f ca = (case c1 of None \<Rightarrow> (False, ca\<lparr>channel := c1\<rparr>)
     | Some ch \<Rightarrow> (case AddFrame f b ch of Inl _ \<Rightarrow> (False, ca\<lparr>channel := c1\<rparr>)
       | Inr ch \<Rightarrow> if maxBytes < chSize ch then (False, ca\<lparr>channel := None\<rparr>) else (IsLast f, ca\<lparr>channel := Some ch\<rparr>)))"
    by (auto simp: ingest_def c1_def resetChannel_def Let_def split: option.splits sum.splits)
  consider (none) "c1 = None" "a1 = None" | (open1) ch fs where "c1 = Some ch" "a1 = Some fs" "assembling ch fs"
      "fs \<noteq> [] \<longrightarrow> chid ch = fID (hd fs)" "fs = [] \<longrightarrow> FrameNumber f = 0 \<and> chid ch = fID f"
  proof (cases "FrameNumber f = 0")
    case True
    then show thesis using new_assembling [of "fID f" b] that(2) by (simp add: c1_def a1_def NewChannel_def)
  next
    case False
    show thesis
    proof (cases "channel ca")
      case None
      then show thesis using assms(1) False that(1) by (simp add: c1_def a1_def ca_rel_def)
    next
      case (Some ch)
      then obtain fs where "acc = Some fs" "fs \<noteq> []" "assembling ch fs" using assms(1) by (auto simp: ca_rel_def)
      moreover have "chid ch = fID (hd fs)" using calculation by (simp add: assembling_def)
      ultimately show thesis using Some False that(2) by (simp add: c1_def a1_def)
    qed
  qed
  then show ?thesis
  proof cases
    case none
    then show ?thesis using assms(2,3) by (auto simp: i assemble_def a1_def [symmetric] ca_rel_def)
  next
    case (open1 ch fs)
    have id: "fID f = chid ch \<longleftrightarrow> fs = [] \<or> fID f = fID (hd fs)" using open1(4,5) by metis
    note A = AddFrame_assembling [OF open1(3), of f b]
    show ?thesis
    proof (cases "fID f = chid ch \<and> unat (FrameNumber f) = length fs")
      case True
      note acc = accepted_assembling [OF open1(3) conjunct1 [OF True] conjunct2 [OF True], of b]
      have sz: "chSize (accepted f b ch) = total_size (fs @ [f])"
        using open1(3) by (simp add: assembling_def total_size_def)
      have "ingest b maxBytes f ca = (if maxBytes < total_size (fs @ [f]) then (False, ca\<lparr>channel := None\<rparr>)
           else (IsLast f, ca\<lparr>channel := Some (accepted f b ch)\<rparr>))"
        using True A by (simp add: i open1(1) sz del: accepted_sel)
      moreover have "assemble maxBytes f acc = (if maxBytes < total_size (fs @ [f]) then (False, None) else (IsLast f, Some (fs @ [f])))"
        using True id by (simp add: assemble_def a1_def [symmetric] open1(2))
      ultimately show ?thesis
        using assms(2,3) acc by (auto simp: ca_rel_def not_less split: if_splits)
    next
      case False
      then obtain e where "AddFrame f b ch = Inl e" using A by auto
      moreover have "fs \<noteq> []" using False open1(5) by auto
      ultimately show ?thesis
        using assms(2,3) False id open1
        by (auto simp: i assemble_def a1_def [symmetric] ca_rel_def)
    qed
  qed
qed

section \<open>Soundness for every previous stage\<close>

definition ca_inv :: "ChannelAssembler \<Rightarrow> bool" where
  "ca_inv ca \<longleftrightarrow> (case channel ca of None \<Rightarrow> True | Some ch \<Rightarrow> inputs ch \<noteq> [] \<and> assembling ch (map snd (inputs ch)))"

lemma snd_numbered: "map snd (numbered fs) = fs"
  by (rule nth_equalityI) (auto simp: numbered_def)

lemma ca_inv_rel: "ca_inv ca \<longleftrightarrow> (\<exists>acc. ca_rel ca acc)"
proof -
  have "inputs ch = numbered fs" if "assembling ch fs" for ch fs using that by (simp add: assembling_def)
  then have "map snd (inputs ch) = fs" if "assembling ch fs" for ch fs using that by (simp add: snd_numbered)
  moreover have "inputs ch \<noteq> [] \<longleftrightarrow> fs \<noteq> []" if "assembling ch fs" for ch fs using that by (auto simp: assembling_def numbered_def)
  ultimately show ?thesis by (cases "channel ca") (auto simp: ca_inv_def ca_rel_def)
qed

lemma ca_rel_reset: "ca_rel (resetChannel ca) None"
  by (simp add: ca_rel_def resetChannel_def)

lemma ca_rel_not_ready: "ca_rel ca acc \<Longrightarrow> (case channel ca of None \<Rightarrow> True | Some ch \<Rightarrow> \<not> IsReady ch)"
  by (auto simp: ca_rel_def assembling_def IsReady_def split: option.splits)

text \<open>The frames fetched from the previous stage, in order, each with the size limit that holds at the origin after it was fetched.\<close>

inductive fetched :: "'p NextFrameProvider \<Rightarrow> ('p \<Rightarrow> uint64) \<Rightarrow> 'p \<Rightarrow> (Frame \<times> uint64) list \<Rightarrow> 'p \<Rightarrow> bool" for nextFrame limit where
  fetched_none: "fetched nextFrame limit p [] p"
| fetched_more: "nextFrame p = (Inr f, p1) \<Longrightarrow> fetched nextFrame limit p1 fs p' \<Longrightarrow> fetched nextFrame limit p ((f, limit p1) # fs) p'"

text \<open>The abstract machine on fetched frames: \<open>True\<close> when the last of them completes a channel, and none before it does.\<close>

fun assemble_fetched :: "(Frame \<times> uint64) list \<Rightarrow> Frame list option \<Rightarrow> bool \<times> Frame list option" where
  "assemble_fetched [] acc = (False, acc)"
| "assemble_fetched ((f, m) # fs) acc = (let (d, acc) = assemble m f acc in if d then (fs = [], acc) else assemble_fetched fs acc)"

text \<open>The frames of the channel that is open in the assembler.\<close>

definition held_frames :: "ChannelAssembler \<Rightarrow> Frame list option" where
  "held_frames ca = map_option (\<lambda>ch. map snd (inputs ch)) (channel ca)"

abbreviation frame_list :: "Frame list option \<Rightarrow> Frame list" where
  "frame_list acc \<equiv> (case acc of None \<Rightarrow> [] | Some fs \<Rightarrow> fs)"

lemma ca_rel_held: "ca_rel ca acc \<Longrightarrow> held_frames ca = acc"
  by (auto simp: ca_rel_def held_frames_def assembling_def snd_numbered split: option.splits)

lemma assemble_subseq: "assemble m f acc = (d, acc') \<Longrightarrow> subseq (frame_list acc') (frame_list acc @ [f])"
  by (auto simp: assemble_def intro: subseq_rev_drop_many subseq_drop_many split: option.splits if_splits)

lemma assemble_fetched_subseq: "assemble_fetched fs acc = (d, acc') \<Longrightarrow> subseq (frame_list acc') (frame_list acc @ map fst fs)"
proof (induction fs arbitrary: acc)
  case (Cons x fs)
  obtain f m where x: "x = (f, m)" by (cases x)
  obtain d1 acc1 where a: "assemble m f acc = (d1, acc1)" by (cases "assemble m f acc")
  note s = assemble_subseq [OF a]
  show ?case
  proof (cases d1)
    case True
    then have "acc' = acc1" using Cons.prems by (simp add: x a)
    moreover have "subseq (frame_list acc1) ((frame_list acc @ [f]) @ map fst fs)" using s by (rule subseq_rev_drop_many)
    ultimately show ?thesis by (simp add: x)
  next
    case False
    then have "subseq (frame_list acc') (frame_list acc1 @ map fst fs)" using Cons by (simp add: x a)
    moreover have "subseq (frame_list acc1 @ map fst fs) ((frame_list acc @ [f]) @ map fst fs)" using s by (intro list_emb_append_mono) simp_all
    ultimately show ?thesis using x by (auto intro: subseq_order.trans)
  qed
qed simp

text \<open>What the loop leaves behind.\<close>

definition loop_result :: "ChannelAssembler \<Rightarrow> Frame list option \<Rightarrow> 'p NextFrameProvider \<Rightarrow> ('p \<Rightarrow> L1BlockRef) \<Rightarrow> 'p \<Rightarrow> derive_error option \<times> ChannelAssembler \<times> 'p \<Rightarrow> bool" where
  "loop_result ca acc nextFrame origin prev res \<longleftrightarrow>
    (let limit = (\<lambda>p. MaxRLPBytesPerChannel (caSpec ca) (l1Time (origin p))) in
     case res of
       (Some e, ca', p') \<Rightarrow>
         (\<exists>fs q acc'. fetched nextFrame limit prev fs q \<and> nextFrame q = (Inl e, p') \<and> assemble_fetched fs acc = (False, acc') \<and> ca_rel ca' acc')
     | (None, ca', p') \<Rightarrow>
         (\<exists>fs ch gs. fetched nextFrame limit prev fs p' \<and> assemble_fetched fs acc = (True, Some gs) \<and> channel ca' = Some ch \<and> IsReady ch \<and>
            Reader ch = Inr (concat (map fData gs)) \<and> complete_frames gs \<and> total_size gs \<le> limit p'))"

lemma ingest_loop_sound:
  assumes "ingest_loop nextFrame origin start ca prev = Some res"
  shows "\<forall>acc. ca_rel ca acc \<longrightarrow> loop_result ca acc nextFrame origin prev res"
proof (rule ingest_loop.raw_induct [OF _ assms, where P = "\<lambda>nextFrame origin start ca prev res. \<forall>acc. ca_rel ca acc \<longrightarrow> loop_result ca acc nextFrame origin prev res"], goal_cases)
  case (1 loop nextFrame origin start ca prev res)
  show ?case
  proof (intro allI impI)
    fix acc assume acc: "ca_rel ca acc"
    obtain nf prev1 where nf: "nextFrame prev = (nf, prev1)" by (cases "nextFrame prev")
    show "loop_result ca acc nextFrame origin prev res"
    proof (cases nf)
      case (Inl e)
      then have r: "res = (Some e, ca, prev1)" using 1(2) nf by simp
      show ?thesis using acc nf Inl unfolding r loop_result_def
        by (auto simp: Let_def intro!: exI [of _ "[]"] exI [of _ prev] fetched_none)
    next
      case (Inr f)
      let ?lim = "\<lambda>p. MaxRLPBytesPerChannel (caSpec ca) (l1Time (origin p))"
      obtain d ca1 where ig: "ingest start (?lim prev1) f ca = (d, ca1)" by (cases "ingest start (?lim prev1) f ca")
      obtain d1 acc1 where as: "assemble (?lim prev1) f acc = (d1, acc1)" by (cases "assemble (?lim prev1) f acc")
      note S = ingest_spec [OF acc ig as]
      have more: "fetched nextFrame ?lim prev1 fs p' \<Longrightarrow> fetched nextFrame ?lim prev ((f, ?lim prev1) # fs) p'" for fs p'
        using fetched_more [of nextFrame prev f prev1 ?lim] nf Inr by simp
      show ?thesis
      proof (cases d)
        case True
        then have r: "res = (None, ca1, prev1)" using 1(2) nf Inr ig by simp
        have "assemble_fetched [(f, ?lim prev1)] acc = (True, acc1)" using True S as by simp
        then show ?thesis using S True more [OF fetched_none] unfolding r loop_result_def by (fastforce simp: Let_def)
      next
        case False
        then have lp: "loop nextFrame origin start ca1 prev1 = Some res" using 1(2) nf Inr ig by simp
        have c: "ca_rel ca1 acc1" "caSpec ca1 = caSpec ca" "\<not> d1" using S False by auto
        have L: "loop_result ca1 acc1 nextFrame origin prev1 res" using 1(1) [OF lp] c(1) by blast
        have run: "assemble_fetched fs acc1 = assemble_fetched ((f, ?lim prev1) # fs) acc" for fs using as c(3) by simp
        obtain oe ca2 p2 where res: "res = (oe, ca2, p2)" by (cases res)
        show ?thesis
        proof (cases oe)
          case None
          then obtain fs ch gs where "fetched nextFrame ?lim prev1 fs p2" "assemble_fetched fs acc1 = (True, Some gs)" "channel ca2 = Some ch" "IsReady ch"
            "Reader ch = Inr (concat (map fData gs))" "complete_frames gs" "total_size gs \<le> ?lim p2"
            using L unfolding res loop_result_def c(2) Let_def by auto
          then show ?thesis using more [of fs p2] None unfolding res loop_result_def Let_def run by (simp del: assemble_fetched.simps) blast
        next
          case (Some e)
          then obtain fs q acc' where "fetched nextFrame ?lim prev1 fs q" "nextFrame q = (Inl e, p2)" "assemble_fetched fs acc1 = (False, acc')" "ca_rel ca2 acc'"
            using L unfolding res loop_result_def c(2) Let_def by auto
          then show ?thesis using more [of fs q] Some unfolding res loop_result_def Let_def run by (simp del: assemble_fetched.simps) blast
        qed
      qed
    qed
  qed
qed

lemma complete_channel_spec:
  "channel ca = Some ch \<Longrightarrow> IsReady ch \<Longrightarrow> complete_channel ca = (Reader ch, resetChannel ca)"
  by (simp add: complete_channel_def)

text \<open>C9: The assembler is sound over every previous stage: whenever \<^verbatim>\<open>NextRawChannel\<close> returns, it has fetched some frames from the previous stage and
  run the abstract machine on them, starting from the frames of the open channel (from none when the channel has timed out). An error is the one with which the
  previous stage answered after these frames (neither of the two critical errors ever occurs, nor the panic of the reader), and the frames of the
  machine stay in the assembler. Data is the concatenation of the frames that the machine has collected with the last fetched one: they form a subsequence of
  the frames held and fetched, are the frames 0, 1, ..., n of a single channel of which exactly the last is marked as last, and stay within the size limit. The
  invariant of the assembler is kept.\<close>

theorem assembler_sound:
  assumes "ca_inv ca" and "ChannelAssembler_NextRawChannel nextFrame origin (ca, prev) = Some (r, ca', prev')"
    and "limit = (\<lambda>p. MaxRLPBytesPerChannel (caSpec ca) (l1Time (origin p)))"
    and "held = (if channelTimedOut (origin prev) ca then None else held_frames ca)"
  shows "ca_inv ca' \<and>
    (case r of
       Inl e \<Rightarrow> \<exists>fs q. fetched nextFrame limit prev fs q \<and> nextFrame q = (Inl e, prev') \<and> assemble_fetched fs held = (False, held_frames ca')
     | Inr data \<Rightarrow> \<exists>fs gs. fetched nextFrame limit prev fs prev' \<and> assemble_fetched fs held = (True, Some gs) \<and> held_frames ca' = None \<and>
         data = concat (map fData gs) \<and> complete_frames gs \<and> total_size gs \<le> limit prev' \<and> subseq gs (frame_list held @ map fst fs))"
proof -
  define ca1 where "ca1 = (if channelTimedOut (origin prev) ca then resetChannel ca else ca)"
  have inv: "ca_inv ca1" "caSpec ca1 = caSpec ca"
    using assms(1) by (auto simp: ca1_def ca_inv_def resetChannel_def)
  then obtain acc where acc: "ca_rel ca1 acc" by (auto simp: ca_inv_rel)
  have held: "held = acc" using ca_rel_held [OF acc] assms(4) by (auto simp: ca1_def held_frames_def resetChannel_def split: if_splits)
  have nr: "\<not> (case channel ca1 of None \<Rightarrow> False | Some ch \<Rightarrow> IsReady ch)"
    using ca_rel_not_ready [OF acc] by (cases "channel ca1") auto
  obtain e ca2 prev2 where loop: "ingest_loop nextFrame origin (origin prev) ca1 prev = Some (e, ca2, prev2)"
    using assms(2) nr by (auto simp: ChannelAssembler_NextRawChannel_def ca1_def [symmetric] Let_def split: option.splits)
  have L: "loop_result ca1 acc nextFrame origin prev (e, ca2, prev2)" using ingest_loop_sound [OF loop] acc by blast
  show ?thesis
  proof (cases e)
    case (Some e')
    then have "r = Inl e'" "ca' = ca2" "prev' = prev2"
      using assms(2) nr loop by (auto simp: ChannelAssembler_NextRawChannel_def ca1_def [symmetric] Let_def)
    then show ?thesis
      using L Some unfolding loop_result_def inv(2) Let_def assms(3) [symmetric] held by (auto simp: ca_inv_rel dest: ca_rel_held)
  next
    case None
    then obtain fs ch gs where ch: "fetched nextFrame limit prev fs prev2" "assemble_fetched fs acc = (True, Some gs)" "channel ca2 = Some ch" "IsReady ch"
       "Reader ch = Inr (concat (map fData gs))" "complete_frames gs" "total_size gs \<le> limit prev2"
      using L unfolding loop_result_def inv(2) Let_def assms(3) [symmetric] by auto
    have "r = Inr (concat (map fData gs)) \<and> ca' = resetChannel ca2 \<and> prev' = prev2"
      using assms(2) nr loop None complete_channel_spec [OF ch(3,4)] ch(5)
      by (simp add: ChannelAssembler_NextRawChannel_def ca1_def [symmetric] Let_def)
    then show ?thesis
      using ch assemble_fetched_subseq [OF ch(2)] held by (auto simp: ca_inv_def held_frames_def resetChannel_def)
  qed
qed

lemma assembler_sound_witness:
  "\<exists>ca' fs gs. ChannelAssembler_NextRawChannel next_listed (\<lambda>_. sample_ref)
      (NewChannelAssembler (NewChainSpec (sample_config 12 14)), chunk_frames sample_cid sample_chunks) = Some (Inr [1, 2, 3, 4, 5], ca', []) \<and>
    ca_inv ca' \<and> fetched next_listed (\<lambda>_. MaxRLPBytesPerChannel (NewChainSpec (sample_config 12 14)) (l1Time sample_ref)) (chunk_frames sample_cid sample_chunks) fs [] \<and>
    complete_frames gs \<and> [1, 2, 3, 4, 5] = concat (map fData gs) \<and> subseq gs (map fst fs)"
proof -
  let ?ca = "NewChannelAssembler (NewChainSpec (sample_config 12 14))"
  let ?r = "ChannelAssembler_NextRawChannel next_listed (\<lambda>_. sample_ref) (?ca, chunk_frames sample_cid sample_chunks)"
  have "(case ?r of None \<Rightarrow> False | Some (r, ca', p) \<Rightarrow> r = Inr [1, 2, 3, 4, 5] \<and> p = [])" by code_simp
  then obtain ca' where r: "?r = Some (Inr [1, 2, 3, 4, 5], ca', [])" by (auto split: option.splits)
  have inv: "ca_inv ?ca" and spec: "caSpec ?ca = NewChainSpec (sample_config 12 14)"
    and held: "None = (if channelTimedOut sample_ref ?ca then None else held_frames ?ca)"
    by (simp_all add: ca_inv_def NewChannelAssembler_def held_frames_def)
  from assembler_sound [OF inv r refl held] obtain fs gs where
    "fetched next_listed (\<lambda>_. MaxRLPBytesPerChannel (caSpec ?ca) (l1Time sample_ref)) (chunk_frames sample_cid sample_chunks) fs []"
    "complete_frames gs" "[1, 2, 3, 4, 5] = concat (map fData gs)" "subseq gs (map fst fs)" "ca_inv ca'" by auto
  then show ?thesis using r unfolding spec by blast
qed

section \<open>Completeness over a finite supply of data\<close>

text \<open>The interface between stages: a previous stage that holds a finite list of items for the current origin and delivers
  them one by one, then an error.\<close>

locale item_supply =
  fixes deliver :: "'p \<Rightarrow> (derive_error + 'i) \<times> 'p" and origin :: "'p \<Rightarrow> L1BlockRef"
    and supply_ok :: "'p \<Rightarrow> bool" and pending :: "'p \<Rightarrow> 'i list"
  assumes delivers: "supply_ok p \<Longrightarrow> pending p = x # xs \<Longrightarrow>
      \<exists>p'. deliver p = (Inr x, p') \<and> supply_ok p' \<and> pending p' = xs \<and> origin p' = origin p"
    and exhausted: "supply_ok p \<Longrightarrow> pending p = [] \<Longrightarrow> \<exists>e p'. deliver p = (Inl e, p')"

text \<open>The abstract machine on a list of frames: the frames of the first channel it completes, if any.\<close>

fun assemble_all :: "uint64 \<Rightarrow> Frame list \<Rightarrow> Frame list option \<Rightarrow> (Frame list \<times> Frame list) option" where
  "assemble_all maxBytes [] acc = None"
| "assemble_all maxBytes (f # fs) acc =
    (let (d, acc) = assemble maxBytes f acc in if d then Some (the acc, fs) else assemble_all maxBytes fs acc)"

locale frame_supply = item_supply deliver origin supply_ok pending
  for deliver :: "'p \<Rightarrow> (derive_error + Frame) \<times> 'p" and origin and supply_ok and pending
begin

lemma ingest_loop_complete:
  assumes "supply_ok p" and "ca_rel ca acc"
  shows "case assemble_all (MaxRLPBytesPerChannel (caSpec ca) (l1Time (origin p))) (pending p) acc of
      None \<Rightarrow> \<exists>e ca' p'. ingest_loop deliver origin start ca p = Some (Some e, ca', p')
    | Some (fs, rest) \<Rightarrow> \<exists>ca' p' ch. ingest_loop deliver origin start ca p = Some (None, ca', p') \<and> supply_ok p' \<and> pending p' = rest \<and>
         channel ca' = Some ch \<and> IsReady ch \<and> Reader ch = Inr (concat (map fData fs))"
  using assms
proof (induction "pending p" arbitrary: p ca acc)
  case Nil
  then obtain e p' where "deliver p = (Inl e, p')" using exhausted by metis
  then show ?case using Nil by (simp add: ingest_loop.simps)
next
  case (Cons f fs)
  then obtain p1 where p1: "deliver p = (Inr f, p1)" "supply_ok p1" "pending p1 = fs" "origin p1 = origin p" using delivers by metis
  let ?m = "MaxRLPBytesPerChannel (caSpec ca) (l1Time (origin p))"
  obtain d ca1 where ig: "ingest start ?m f ca = (d, ca1)" by (cases "ingest start ?m f ca")
  obtain d1 acc1 where as: "assemble ?m f acc = (d1, acc1)" by (cases "assemble ?m f acc")
  note S = ingest_spec [OF Cons.prems(2) ig as]
  have step: "ingest_loop deliver origin start ca p = (if d then Some (None, ca1, p1) else ingest_loop deliver origin start ca1 p1)"
    using p1 ig by (subst ingest_loop.simps) simp
  show ?case
  proof (cases d)
    case True
    then show ?thesis using S step as p1 Cons.hyps(2) [symmetric] by auto
  next
    case False
    then have rel: "ca_rel ca1 acc1" and spec: "caSpec ca1 = caSpec ca" and "d1 = False" using S by auto
    have run: "ingest_loop deliver origin start ca p = ingest_loop deliver origin start ca1 p1" using step False by simp
    have spec_run: "assemble_all ?m (pending p) acc = assemble_all ?m fs acc1"
      using as \<open>d1 = False\<close> Cons.hyps(2) [symmetric] by simp
    show ?thesis
      unfolding run spec_run using Cons.hyps(1) [OF p1(3) [symmetric] p1(2) rel, unfolded spec p1(3,4)] .
  qed
qed

lemma NextRawChannel_complete:
  assumes "supply_ok p" and "channel ca = None"
    and "assemble_all (MaxRLPBytesPerChannel (caSpec ca) (l1Time (origin p))) (pending p) None = Some (fs, rest)"
  shows "\<exists>ca' p'. ChannelAssembler_NextRawChannel deliver origin (ca, p) = Some (Inr (concat (map fData fs)), ca', p') \<and>
    channel ca' = None \<and> supply_ok p' \<and> pending p' = rest"
proof -
  have rel: "ca_rel ca None" using assms(2) by (simp add: ca_rel_def)
  from ingest_loop_complete [OF assms(1) rel, of "origin p"] assms(3)
  obtain ca' p' ch where "ingest_loop deliver origin (origin p) ca p = Some (None, ca', p')" "supply_ok p'" "pending p' = rest"
    "channel ca' = Some ch" "IsReady ch" "Reader ch = Inr (concat (map fData fs))" by auto
  then show ?thesis
    using assms(2) complete_channel_spec [of ca' ch]
    by (simp add: ChannelAssembler_NextRawChannel_def channelTimedOut_def resetChannel_def)
qed

end


section \<open>The frame queue over batcher transactions\<close>

definition tx_frames :: "Config \<Rightarrow> L1BlockRef \<Rightarrow> bytes \<Rightarrow> Frame list" where
  "tx_frames cfg o1 d =
    (case ParseFrames d of Inl _ \<Rightarrow> [] | Inr fs \<Rightarrow> if IsHolocene cfg (l1Time o1) then pruneFrameQueue fs else fs)"

definition queue_pending :: "('p \<Rightarrow> L1BlockRef) \<Rightarrow> ('p \<Rightarrow> bytes list) \<Rightarrow> FrameQueue \<times> 'p \<Rightarrow> Frame list" where
  "queue_pending origin pending st =
    frames (fst st) @ concat (map (tx_frames (fqCfg (fst st)) (origin (snd st))) (pending (snd st)))"

definition queue_ok :: "('p \<Rightarrow> bool) \<Rightarrow> ('p \<Rightarrow> bytes list) \<Rightarrow> FrameQueue \<times> 'p \<Rightarrow> bool" where
  "queue_ok supply_ok pending st \<longleftrightarrow> supply_ok (snd st) \<and> list_all (\<lambda>d. is_ok (ParseFrames d)) (pending (snd st))"

lemma prune_loop_nonempty: "fs \<noteq> [] \<Longrightarrow> prune_loop fs i \<noteq> []"
proof (induction fs i rule: prune_loop.induct)
  case (1 fs i)
  have "discard_at fs i d \<noteq> []" if "i + 1 < length fs" "d \<le> 1" for d
    using that length_discard_at [of i d fs] by (cases "discard_at fs i d") auto
  then show ?case using 1 by (subst prune_loop.simps) (auto simp: Let_def)
qed

lemma tx_frames_nonempty: "is_ok (ParseFrames d) \<Longrightarrow> tx_frames cfg o1 d \<noteq> []"
proof -
  assume "is_ok (ParseFrames d)"
  then obtain fs where fs: "ParseFrames d = Inr fs" by (auto simp: is_ok_iff)
  then have "fs \<noteq> []" by (simp add: ParseFrames_iff)
  then show ?thesis using fs by (simp add: tx_frames_def pruneFrameQueue_def prune_loop_nonempty)
qed

locale tx_supply = item_supply deliver origin supply_ok pending
  for deliver :: "'p \<Rightarrow> (derive_error + bytes) \<times> 'p" and origin and supply_ok and pending

sublocale tx_supply \<subseteq> queue: frame_supply "NextFrame deliver origin" "origin \<circ> snd" "queue_ok supply_ok pending" "queue_pending origin pending"
proof (unfold_locales, goal_cases)
  case (1 st x xs)
  obtain fq p where st: "st = (fq, p)" by (cases st)
  show ?case
  proof (cases "frames fq")
    case (Cons f rest)
    then show ?thesis using 1 by (auto simp: st NextFrame_def queue_ok_def queue_pending_def)
  next
    case Nil
    have "pending p \<noteq> []" using 1 Nil by (auto simp: st queue_pending_def)
    then obtain d ds where d: "pending p = d # ds" by (cases "pending p") auto
    then obtain p1 where p1: "deliver p = (Inr d, p1)" "supply_ok p1" "pending p1 = ds" "origin p1 = origin p"
      using delivers [of p d ds] 1(1) by (auto simp: st queue_ok_def)
    obtain fs where fs: "ParseFrames d = Inr fs" using 1(1) d by (auto simp: st queue_ok_def is_ok_iff)
    have "loadNextFrames deliver origin (fq, p) = (None, fq\<lparr>frames := tx_frames (fqCfg fq) (origin p) d\<rparr>, p1)"
      using p1 fs Nil by (simp add: loadNextFrames_def tx_frames_def)
    moreover obtain f rest where f: "tx_frames (fqCfg fq) (origin p) d = f # rest"
      using tx_frames_nonempty [of d "fqCfg fq" "origin p"] fs by (cases "tx_frames (fqCfg fq) (origin p) d") auto
    ultimately show ?thesis using 1 d p1 Nil f by (auto simp: st NextFrame_def queue_ok_def queue_pending_def)
  qed
next
  case (2 st)
  obtain fq p where st: "st = (fq, p)" by (cases st)
  have "tx_frames (fqCfg fq) (origin p) d \<noteq> []" if "d \<in> set (pending p)" for d
    using that 2(1) by (intro tx_frames_nonempty) (auto simp: st queue_ok_def list_all_iff)
  then have "frames fq = []" "pending p = []" using 2(2) by (cases "pending p", auto simp: st queue_pending_def)+
  then show ?case using exhausted [of p] 2(1) by (auto simp: st queue_ok_def NextFrame_def loadNextFrames_def)
qed

end
