(* ===== verification/Blob.thy ===== *)
theory Blob
  imports Prelude
begin

text \<open>
  Blobs as carriers of rollup data (\<^verbatim>\<open>op-service/eth/blob.go\<close>): 127 bytes of data in every four field elements, the
  two top bits of each element left zero. A blob is the list of its bytes; the cursors of the encoder and the decoder are those
  of the code.
\<close>

section \<open>Encoding and decoding\<close>

definition BlobSize :: nat where "BlobSize = 4096 * 32"
definition MaxBlobDataSize :: nat where "MaxBlobDataSize = (4 * 31 + 3) * 1024 - 4"
definition EncodingVersion :: byte where "EncodingVersion = 0"
definition VersionOffset :: nat where "VersionOffset = 1"
definition Rounds :: nat where "Rounds = 1024"

datatype blob_error = ErrBlobInvalidFieldElement | ErrBlobInvalidEncodingVersion | ErrBlobInvalidLength | ErrBlobInputTooLarge
  | ErrBlobExtraneousData | ErrBlobExtraneousDataFieldElement | BlobPanic

definition Clear :: bytes where "Clear = replicate BlobSize 0"

text \<open>The closures of \<^verbatim>\<open>FromData\<close>, over the state they share.\<close>

record blob_writer =
  wBlob :: bytes
  readOffset :: nat
  writeOffset :: nat
  buf31 :: bytes

definition read1 :: "bytes \<Rightarrow> blob_writer \<Rightarrow> byte \<times> blob_writer" where
  "read1 data s =
    (if length data \<le> readOffset s then (0, s)
     else (data ! readOffset s, s\<lparr>readOffset := readOffset s + 1\<rparr>))"

definition read31 :: "bytes \<Rightarrow> blob_writer \<Rightarrow> blob_writer" where
  "read31 data s =
    (if length data \<le> readOffset s then s\<lparr>buf31 := replicate 31 0\<rparr>
     else
       let src = take 31 (drop (readOffset s) data); n = length src in
       s\<lparr>buf31 := src @ replicate (31 - n) 0, readOffset := readOffset s + n\<rparr>)"

definition write1 :: "byte \<Rightarrow> blob_writer \<Rightarrow> blob_error + blob_writer" where
  "write1 v s =
    (if writeOffset s mod 32 \<noteq> 0 then Inl BlobPanic
     else if v AND 0xC0 \<noteq> 0 then Inl BlobPanic
     else if BlobSize \<le> writeOffset s then Inl BlobPanic
     else Inr (s\<lparr>wBlob := (wBlob s)[writeOffset s := v], writeOffset := writeOffset s + 1\<rparr>))"

definition write31 :: "blob_writer \<Rightarrow> blob_error + blob_writer" where
  "write31 s =
    (if writeOffset s mod 32 \<noteq> 1 then Inl BlobPanic
     else Inr (s\<lparr>wBlob := overwrite (wBlob s) (writeOffset s) (buf31 s), writeOffset := writeOffset s + 31\<rparr>))"

definition write_element :: "byte \<Rightarrow> blob_writer \<Rightarrow> blob_error + blob_writer" where
  "write_element v s = rbind (write1 v s) write31"

text \<open>The first field element carries the version and the length of the data.\<close>

definition read_header :: "bytes \<Rightarrow> blob_writer \<Rightarrow> blob_writer" where
  "read_header data s =
    (let ilen = (of_nat (length data) :: uint32);
         src = take 27 data; n = length src;
         buf = [EncodingVersion, ucast (drop_bit 16 ilen), ucast (drop_bit 8 ilen), ucast ilen] @ src @ drop (4 + n) (buf31 s)
     in s\<lparr>buf31 := buf, readOffset := readOffset s + n\<rparr>)"

text \<open>The four field elements of a round, once the buffer of the first one has been filled.\<close>

definition encode_elements :: "bytes \<Rightarrow> blob_writer \<Rightarrow> blob_error + blob_writer" where
  "encode_elements data s =
    (let (x, s) = read1 data s in
     rbind (write_element (x AND 0x3F) s) (\<lambda>s.
     let s = read31 data s; (y, s) = read1 data s in
     rbind (write_element ((y AND 0x0F) OR drop_bit 2 (x AND 0xC0)) s) (\<lambda>s.
     let s = read31 data s; (z, s) = read1 data s in
     rbind (write_element (z AND 0x3F) s) (\<lambda>s.
     let s = read31 data s in
     write_element (drop_bit 2 (z AND 0xC0) OR drop_bit 4 (y AND 0xF0)) s))))"

definition encode_round :: "bytes \<Rightarrow> nat \<Rightarrow> blob_writer \<Rightarrow> blob_error + blob_writer" where
  "encode_round data round s = encode_elements data (if round = 0 then read_header data s else read31 data s)"

function encode_loop :: "bytes \<Rightarrow> nat \<Rightarrow> blob_writer \<Rightarrow> blob_error + blob_writer" where
  "encode_loop data round s =
    (if round < Rounds \<and> readOffset s < length data then rbind (encode_round data round s) (encode_loop data (round + 1))
     else Inr s)"
  by pat_completeness auto
termination by (relation "measure (\<lambda>(data, round, s). Rounds - round)") auto

declare encode_loop.simps [simp del]

definition FromData :: "bytes \<Rightarrow> blob_error + bytes" where
  "FromData data =
    (if MaxBlobDataSize < length data then Inl ErrBlobInputTooLarge
     else rbind (encode_loop data 0 \<lparr>wBlob = Clear, readOffset = 0, writeOffset = 0, buf31 = replicate 31 0\<rparr>) (\<lambda>s.
       if readOffset s < length data then Inl BlobPanic else Inr (wBlob s)))"

definition decodeFieldElement :: "bytes \<Rightarrow> nat \<Rightarrow> nat \<Rightarrow> bytes \<Rightarrow> blob_error + byte \<times> nat \<times> nat \<times> bytes" where
  "decodeFieldElement b opos ipos output =
    (if (b ! ipos) AND 0xC0 \<noteq> 0 then Inl ErrBlobInvalidFieldElement
     else Inr (b ! ipos, opos + 32, ipos + 32, overwrite output opos (take (length output - opos) (take 31 (drop (ipos + 1) b)))))"

definition reassembleBytes :: "nat \<Rightarrow> byte \<Rightarrow> byte \<Rightarrow> byte \<Rightarrow> byte \<Rightarrow> bytes \<Rightarrow> nat \<times> bytes" where
  "reassembleBytes opos e0 e1 e2 e3 output =
    (let opos = opos - 1;
         x = (e0 AND 0x3F) OR push_bit 2 (e1 AND 0x30);
         y = (e1 AND 0x0F) OR push_bit 4 (e3 AND 0x0F);
         z = (e2 AND 0x3F) OR push_bit 2 (e3 AND 0x30)
     in (opos, output[opos - 32 := z, opos - 64 := y, opos - 96 := x]))"

definition decode_round :: "bytes \<Rightarrow> nat \<Rightarrow> nat \<Rightarrow> bytes \<Rightarrow> blob_error + nat \<times> nat \<times> bytes" where
  "decode_round b opos ipos output =
    rbind (decodeFieldElement b opos ipos output) (\<lambda>(e0, opos, ipos, output).
    rbind (decodeFieldElement b opos ipos output) (\<lambda>(e1, opos, ipos, output).
    rbind (decodeFieldElement b opos ipos output) (\<lambda>(e2, opos, ipos, output).
    rbind (decodeFieldElement b opos ipos output) (\<lambda>(e3, opos, ipos, output).
    let (opos, output) = reassembleBytes opos e0 e1 e2 e3 output in Inr (opos, ipos, output)))))"

function decode_loop :: "bytes \<Rightarrow> nat \<Rightarrow> nat \<Rightarrow> nat \<Rightarrow> nat \<Rightarrow> bytes \<Rightarrow> blob_error + nat \<times> nat \<times> bytes" where
  "decode_loop b outputLen i opos ipos output =
    (if i < Rounds \<and> opos < outputLen
     then rbind (decode_round b opos ipos output) (\<lambda>(opos, ipos, output). decode_loop b outputLen (i + 1) opos ipos output)
     else Inr (opos, ipos, output))"
  by pat_completeness auto
termination by (relation "measure (\<lambda>(b, outputLen, i, opos, ipos, output). Rounds - i)") auto

declare decode_loop.simps [simp del]

definition ToData :: "bytes \<Rightarrow> blob_error + bytes" where
  "ToData b =
    (if b ! VersionOffset \<noteq> EncodingVersion then Inl ErrBlobInvalidEncodingVersion
     else
       let outputLen = push_bit 16 (ucast (b ! 2) :: uint32) OR push_bit 8 (ucast (b ! 3)) OR ucast (b ! 4) in
       if of_nat MaxBlobDataSize < outputLen then Inl ErrBlobInvalidLength
       else
         let output = overwrite (replicate MaxBlobDataSize 0) 0 (take 27 (drop 5 b)) in
         rbind (decodeFieldElement b 28 32 output) (\<lambda>(e1, opos, ipos, output).
         rbind (decodeFieldElement b opos ipos output) (\<lambda>(e2, opos, ipos, output).
         rbind (decodeFieldElement b opos ipos output) (\<lambda>(e3, opos, ipos, output).
         let (opos, output) = reassembleBytes opos (b ! 0) e1 e2 e3 output in
         rbind (decode_loop b (unat outputLen) 1 opos ipos output) (\<lambda>(opos, ipos, output).
         if list_ex (\<lambda>v. v \<noteq> 0) (drop (unat outputLen) output) then Inl ErrBlobExtraneousDataFieldElement
         else if list_ex (\<lambda>v. v \<noteq> 0) (drop ipos b) then Inl ErrBlobExtraneousData
         else Inr (take (unat outputLen) output))))))"

section \<open>The bit layout of a round\<close>

lemma byte_masks:
  "(0x3F :: byte) = mask 6" "(0xC0 :: byte) = push_bit 6 (mask 2)" "(0x0F :: byte) = mask 4"
  "(0xF0 :: byte) = push_bit 4 (mask 4)" "(0x30 :: byte) = push_bit 4 (mask 2)"
  by (simp_all add: mask_eq_exp_minus_1 push_bit_eq_mult)

lemma byte_eqI:
  fixes a b :: byte
  assumes "bit a 0 = bit b 0" "bit a 1 = bit b 1" "bit a 2 = bit b 2" "bit a 3 = bit b 3" "bit a 4 = bit b 4" "bit a 5 = bit b 5"
    "bit a 6 = bit b 6" "bit a 7 = bit b 7"
  shows "a = b"
proof (rule bit_word_eqI)
  fix n assume "n < LENGTH(8)"
  then consider "n = 0" | "n = 1" | "n = 2" | "n = 3" | "n = 4" | "n = 5" | "n = 6" | "n = 7" by fastforce
  then show "bit a n \<longleftrightarrow> bit b n" by cases (use assms in simp_all)
qed

lemma top_bits_clear:
  fixes x y z :: byte
  shows "(x AND 0x3F) AND 0xC0 = 0" "((y AND 0x0F) OR drop_bit 2 (x AND 0xC0)) AND 0xC0 = 0"
    "(drop_bit 2 (z AND 0xC0) OR drop_bit 4 (y AND 0xF0)) AND 0xC0 = 0"
  unfolding byte_masks by (auto intro!: bit_word_eqI simp: bit_simps)

lemma reassembled:
  fixes x y z :: byte
  defines "e1 \<equiv> (y AND 0x0F) OR drop_bit 2 (x AND 0xC0)" and "e3 \<equiv> drop_bit 2 (z AND 0xC0) OR drop_bit 4 (y AND 0xF0)"
  shows "((x AND 0x3F) AND 0x3F) OR push_bit 2 (e1 AND 0x30) = x" "(e1 AND 0x0F) OR push_bit 4 (e3 AND 0x0F) = y"
    "((z AND 0x3F) AND 0x3F) OR push_bit 2 (e3 AND 0x30) = z"
  unfolding e1_def e3_def byte_masks by (rule byte_eqI; simp add: bit_simps)+

text \<open>The 128 bytes of the four field elements that carry 127 bytes of data.\<close>

definition enc_chunk :: "bytes \<Rightarrow> bytes" where
  "enc_chunk c =
    (let x = c ! 31; y = c ! 63; z = c ! 95 in
     (x AND 0x3F) # take 31 c @
     ((y AND 0x0F) OR drop_bit 2 (x AND 0xC0)) # take 31 (drop 32 c) @
     (z AND 0x3F) # take 31 (drop 64 c) @
     (drop_bit 2 (z AND 0xC0) OR drop_bit 4 (y AND 0xF0)) # take 31 (drop 96 c))"

definition pad :: "nat \<Rightarrow> bytes \<Rightarrow> bytes" where
  "pad n xs = take n xs @ replicate (n - length xs) 0"

definition stream :: "bytes \<Rightarrow> bytes" where
  "stream data = EncodingVersion # be_bytes 3 (of_nat (length data) :: uint32) @ data"

definition chunk :: "bytes \<Rightarrow> nat \<Rightarrow> bytes" where
  "chunk s r = pad 127 (drop (127 * r) s)"

lemma length_pad [simp]: "length (pad n xs) = n"
  by (simp add: pad_def)

lemma length_chunk [simp]: "length (chunk s r) = 127"
  by (simp add: chunk_def)

lemma length_enc_chunk: "length c = 127 \<Longrightarrow> length (enc_chunk c) = 128"
  by (simp add: enc_chunk_def Let_def)

lemma nth_pad: "i < n \<Longrightarrow> pad n xs ! i = (if i < length xs then xs ! i else 0)"
  by (auto simp: pad_def nth_append)

lemma take_drop_pad: "i + k \<le> n \<Longrightarrow> take k (drop i (pad n xs)) = pad k (drop i xs)"
  by (rule nth_equalityI) (auto simp: nth_pad)

lemma pad_zero: "pad n [] = replicate n 0"
  by (simp add: pad_def)

lemma enc_zero: "enc_chunk (replicate 127 0) = replicate 128 0"
  by (simp add: enc_chunk_def numeral_eq_Suc)

section \<open>The encoder\<close>

definition wr :: "bytes \<Rightarrow> nat \<Rightarrow> nat \<Rightarrow> bytes \<Rightarrow> blob_writer" where
  "wr b ro w c = \<lparr>wBlob = b, readOffset = ro, writeOffset = w, buf31 = c\<rparr>"

lemma read1_eq: "ro \<le> length data \<Longrightarrow> read1 data (wr b ro w c) = (pad 1 (drop ro data) ! 0, wr b (min (ro + 1) (length data)) w c)"
  by (auto simp: read1_def wr_def nth_pad min_def)

lemma read31_eq: "ro \<le> length data \<Longrightarrow>
    read31 data (wr b ro w c) = wr b (min (ro + 31) (length data)) w (pad 31 (drop ro data))"
  by (auto simp: read31_def wr_def pad_def min_def Let_def)

text \<open>A field element is written behind what is there, over zeros.\<close>

lemma write_element_eq:
  assumes "length done = w" and "w mod 32 = 0" and "v AND 0xC0 = 0" and "length c = 31" and "w + m = BlobSize" and "32 \<le> m"
  shows "write_element v (wr (done @ replicate m 0) ro w c) = Inr (wr ((done @ v # c) @ replicate (m - 32) 0) ro (w + 32) c)"
proof -
  obtain k where k: "m = 32 + k" using assms(6) le_Suc_ex by blast
  have "replicate (32 + k) (0 :: byte) = 0 # replicate (31 + k) 0" by (simp flip: replicate_Suc)
  then have "(done @ replicate (32 + k) 0)[length done := v] = (done @ [v]) @ replicate (31 + k) 0"
    by (simp add: list_update_append)
  moreover have "overwrite ((done @ [v]) @ replicate (31 + k) 0) (length done + 1) c = done @ v # c @ replicate k 0"
    using assms(4) by (simp add: overwrite_def)
  moreover have "(w + 1) mod 32 = 1" using assms(2) by presburger
  ultimately show ?thesis
    using assms by (simp add: write_element_def write1_def write31_def wr_def k)
qed

lemma min_step: "min (min a L + n) L = min (a + n) (L :: nat)"
  by simp

lemma drop_min: "drop (min i (length xs)) xs = drop i xs"
  by (simp add: min_def)

lemma pad_split: "pad (m + n) xs = pad m xs @ pad n (drop m xs)"
  by (rule nth_equalityI) (auto simp: nth_pad nth_append)

lemma encode_elements_eq:
  assumes "length done = w" and "w mod 32 = 0" and "length c0 = 31" and "w + 128 + k = BlobSize" and "ro \<le> length data"
  shows "\<exists>c. length c = 31 \<and> encode_elements data (wr (done @ replicate (128 + k) 0) ro w c0) =
    Inr (wr ((done @ enc_chunk (c0 @ pad 96 (drop ro data))) @ replicate k 0) (min (ro + 96) (length data)) (w + 128) c)"
proof -
  define rest where "rest = drop ro data"
  define x where "x = pad 1 rest ! 0"
  define y where "y = pad 1 (drop 32 rest) ! 0"
  define z where "z = pad 1 (drop 64 rest) ! 0"
  define e0 where "e0 = x AND 0x3F"
  define e1 where "e1 = (y AND 0x0F) OR drop_bit 2 (x AND 0xC0)"
  define e2 where "e2 = z AND 0x3F"
  define e3 where "e3 = drop_bit 2 (z AND 0xC0) OR drop_bit 4 (y AND 0xF0)"
  define c1 where "c1 = pad 31 (drop 1 rest)"
  define c2 where "c2 = pad 31 (drop 33 rest)"
  define c3 where "c3 = pad 31 (drop 65 rest)"
  have c: "c0 @ pad 96 rest = c0 @ x # c1 @ y # c2 @ z # c3"
  proof -
    have "pad 96 rest = pad 1 rest @ pad 31 (drop 1 rest) @ pad 1 (drop 32 rest) @ pad 31 (drop 33 rest) @ pad 1 (drop 64 rest) @ pad 31 (drop 65 rest)"
      using pad_split [of 1 95 rest] pad_split [of 31 64 "drop 1 rest"] pad_split [of 1 63 "drop 32 rest"]
        pad_split [of 31 32 "drop 33 rest"] pad_split [of 1 31 "drop 64 rest"] by simp
    moreover have "pad 1 xs = [pad 1 xs ! 0]" for xs by (cases "pad 1 xs") (auto simp: length_Suc_conv dest: arg_cong [where f = length])
    ultimately show ?thesis unfolding x_def y_def z_def c1_def c2_def c3_def by (metis append_Cons append_Nil)
  qed
  have enc: "enc_chunk (c0 @ pad 96 rest) = e0 # c0 @ e1 # c1 @ e2 # c2 @ e3 # c3"
    unfolding c enc_chunk_def Let_def e0_def e1_def e2_def e3_def using assms(3)
    by (simp add: nth_append c1_def c2_def c3_def)
  have m: "(w + 32) mod 32 = 0" "(w + 64) mod 32 = 0" "(w + 96) mod 32 = 0" using assms(2) by presburger+
  have top: "e0 AND 0xC0 = 0" "e1 AND 0xC0 = 0" "e2 AND 0xC0 = 0" "e3 AND 0xC0 = 0"
    unfolding e0_def e1_def e2_def e3_def by (rule top_bits_clear)+
  have l: "length c1 = 31" "length c2 = 31" "length c3 = 31" by (simp_all add: c1_def c2_def c3_def)
  define d1 where "d1 = done @ e0 # c0"
  define d2 where "d2 = d1 @ e1 # c1"
  define d3 where "d3 = d2 @ e2 # c2"
  have d: "length d1 = w + 32" "length d2 = w + 64" "length d3 = w + 96" using assms(1,3) l by (simp_all add: d1_def d2_def d3_def)
  let ?L = "length data"
  have w1: "write_element e0 (wr (done @ replicate (128 + k) 0) r w c0) = Inr (wr (d1 @ replicate (96 + k) 0) r (w + 32) c0)" for r
    using write_element_eq [OF assms(1,2) top(1) assms(3), of "128 + k" r] assms(4) by (simp add: d1_def)
  have w2: "write_element e1 (wr (d1 @ replicate (96 + k) 0) r (w + 32) c1) = Inr (wr (d2 @ replicate (64 + k) 0) r (w + 64) c1)" for r
    using write_element_eq [OF d(1) m(1) top(2) l(1), of "96 + k" r] assms(4) by (simp add: d2_def add.commute)
  have w3: "write_element e2 (wr (d2 @ replicate (64 + k) 0) r (w + 64) c2) = Inr (wr (d3 @ replicate (32 + k) 0) r (w + 96) c2)" for r
    using write_element_eq [OF d(2) m(2) top(3) l(2), of "64 + k" r] assms(4) by (simp add: d3_def add.commute)
  have w4: "write_element e3 (wr (d3 @ replicate (32 + k) 0) r (w + 96) c3) = Inr (wr ((d3 @ e3 # c3) @ replicate k 0) r (w + 128) c3)" for r
    using write_element_eq [OF d(3) m(3) top(4) l(3), of "32 + k" r] assms(4) by (simp add: add.commute)
  have r1: "read1 data (wr b ro w' c) = (x, wr b (min (ro + 1) ?L) w' c)" for b w' c
    using read1_eq [OF assms(5)] by (simp add: x_def rest_def)
  have rn: "read31 data (wr b (min (ro + n) ?L) w' c) = wr b (min (ro + n + 31) ?L) w' (pad 31 (drop n rest))"
     "read1 data (wr b (min (ro + n) ?L) w' c) = (pad 1 (drop n rest) ! 0, wr b (min (ro + n + 1) ?L) w' c)" for b n w' c
    unfolding read31_eq [OF min.cobounded2] read1_eq [OF min.cobounded2] drop_min min_step rest_def drop_drop
    by (simp_all add: add.commute)
  have a: "read31 data (wr b (min (ro + 1) ?L) w' c) = wr b (min (ro + 32) ?L) w' c1"
    "read1 data (wr b (min (ro + 32) ?L) w' c) = (y, wr b (min (ro + 33) ?L) w' c)"
    "read31 data (wr b (min (ro + 33) ?L) w' c) = wr b (min (ro + 64) ?L) w' c2"
    "read1 data (wr b (min (ro + 64) ?L) w' c) = (z, wr b (min (ro + 65) ?L) w' c)"
    "read31 data (wr b (min (ro + 65) ?L) w' c) = wr b (min (ro + 96) ?L) w' c3" for b w' c
    unfolding rn by (simp_all add: c1_def c2_def c3_def y_def z_def add.commute)
  have "encode_elements data (wr (done @ replicate (128 + k) 0) ro w c0) =
     Inr (wr ((d3 @ e3 # c3) @ replicate k 0) (min (ro + 96) ?L) (w + 128) c3)"
    by (simp only: encode_elements_def Let_def prod.case r1 a e0_def [symmetric] e1_def [symmetric] e2_def [symmetric] e3_def [symmetric]
        w1 w2 w3 w4 rbind_simps)
  then show ?thesis using enc l(3) by (auto simp: rest_def [symmetric] d1_def d2_def d3_def intro!: exI [of _ c3])
qed


definition enc :: "bytes \<Rightarrow> nat \<Rightarrow> bytes" where
  "enc s r = concat (map (\<lambda>i. enc_chunk (chunk s i)) [0..<r])"

lemma length_enc [simp]: "length (enc s r) = 128 * r"
  by (induction r) (auto simp: enc_def length_enc_chunk)

lemma enc_Suc: "enc s (Suc r) = enc s r @ enc_chunk (chunk s r)"
  by (simp add: enc_def)

lemma length_stream: "length (stream data) = length data + 4"
  by (simp add: stream_def)

lemma enc_pad: "length s \<le> 127 * r \<Longrightarrow> enc s (r + n) = enc s r @ replicate (128 * n) 0"
proof (induction n)
  case (Suc n)
  then have "drop (127 * (r + n)) s = []" by simp
  then have "enc_chunk (chunk s (r + n)) = replicate 128 0" by (simp only: chunk_def pad_zero enc_zero)
  then show ?case using Suc by (simp add: enc_Suc flip: replicate_add)
qed simp

lemma BlobSize_rounds: "BlobSize = 128 * Rounds"
  by (simp add: BlobSize_def Rounds_def)

lemma encode_round_later:
  assumes "0 < r" and "r < Rounds" and "length c = 31"
  shows "\<exists>c'. length c' = 31 \<and>
    encode_round data r (wr (enc (stream data) r @ replicate (128 * (Rounds - r)) 0) (min (127 * r - 4) (length data)) (128 * r) c) =
    Inr (wr (enc (stream data) (Suc r) @ replicate (128 * (Rounds - Suc r)) 0) (min (127 * Suc r - 4) (length data)) (128 * Suc r) c')"
proof -
  let ?L = "length data" and ?ro = "127 * r - 4" and ?k = "128 * (Rounds - Suc r)"
  have k: "128 * (Rounds - r) = 128 + ?k" using assms(2) by auto
  have sz: "128 * r + 128 + ?k = BlobSize" using assms(2) by (simp add: BlobSize_rounds)
  have d: "drop (127 * r) (stream data) = drop ?ro data" using assms(1) by (simp add: stream_def drop_Cons' drop_append)
  have ch: "pad 31 (drop ?ro data) @ pad 96 (drop (?ro + 31) data) = chunk (stream data) r"
    using pad_split [of 31 96 "drop ?ro data"] by (simp add: chunk_def d add.commute)
  have e: "encode_round data r (wr B (min ?ro ?L) (128 * r) c) =
      encode_elements data (wr B (min (?ro + 31) ?L) (128 * r) (pad 31 (drop ?ro data)))" for B
    unfolding encode_round_def read31_eq [OF min.cobounded2] drop_min min_step using assms(1) by simp
  have n: "?ro + 31 + 96 = 127 * Suc r - 4" "128 * r + 128 = 128 * Suc r" using assms(1) by simp_all
  have "\<exists>c'. length c' = 31 \<and>
    encode_elements data (wr (enc (stream data) r @ replicate (128 + ?k) 0) (min (?ro + 31) ?L) (128 * r) (pad 31 (drop ?ro data))) =
    Inr (wr ((enc (stream data) r @ enc_chunk (pad 31 (drop ?ro data) @ pad 96 (drop (min (?ro + 31) ?L) data))) @ replicate ?k 0)
       (min (min (?ro + 31) ?L + 96) ?L) (128 * r + 128) c')"
    by (rule encode_elements_eq) (use sz in simp_all)
  then show ?thesis unfolding e k drop_min ch min_step n enc_Suc [symmetric] .
qed

lemma encode_round_first:
  "\<exists>c. length c = 31 \<and>
    encode_round data 0 (wr Clear 0 0 (replicate 31 0)) =
    Inr (wr (enc (stream data) 1 @ replicate (128 * (Rounds - 1)) 0) (min (127 * 1 - 4) (length data)) (128 * 1) c)"
proof -
  let ?L = "length data" and ?s = "stream data" and ?k = "128 * (Rounds - 1)"
  have clear: "Clear = enc ?s 0 @ replicate (128 + ?k) 0" by (simp add: Clear_def BlobSize_rounds Rounds_def enc_def)
  have hdr: "read_header data (wr B 0 0 (replicate 31 0)) = wr B (min 27 ?L) 0 (pad 31 ?s)" for B
    by (simp add: read_header_def wr_def stream_def pad_def Let_def min.commute numeral_3_eq_3)
  have d: "drop 31 ?s = drop 27 data" by (simp add: stream_def)
  have ch: "pad 31 ?s @ pad 96 (drop 27 data) = chunk ?s 0"
    using pad_split [of 31 96 ?s] by (simp add: chunk_def d)
  have "\<exists>c. length c = 31 \<and> encode_elements data (wr (enc ?s 0 @ replicate (128 + ?k) 0) (min 27 ?L) 0 (pad 31 ?s)) =
    Inr (wr ((enc ?s 0 @ enc_chunk (pad 31 ?s @ pad 96 (drop (min 27 ?L) data))) @ replicate ?k 0) (min (min 27 ?L + 96) ?L) (0 + 128) c)"
    by (rule encode_elements_eq) (simp_all add: enc_def BlobSize_rounds Rounds_def)
  then show ?thesis
    unfolding encode_round_def if_True clear hdr drop_min ch min_step enc_Suc [symmetric] by (simp add: hdr)
qed

lemma encode_loop_eq:
  assumes "0 < r" and "r \<le> Rounds" and "length c = 31" and "length data \<le> MaxBlobDataSize"
  shows "\<exists>s. encode_loop data r (wr (enc (stream data) r @ replicate (128 * (Rounds - r)) 0) (min (127 * r - 4) (length data)) (128 * r) c) =
    Inr s \<and> wBlob s = enc (stream data) Rounds \<and> readOffset s = length data"
  using assms(1-3)
proof (induction "Rounds - r" arbitrary: r c)
  case 0
  then have r: "r = Rounds" by simp
  have "length data \<le> 127 * Rounds - 4" using assms(4) by (simp add: MaxBlobDataSize_def Rounds_def)
  then show ?case by (subst encode_loop.simps) (simp add: r wr_def)
next
  case (Suc n)
  then have r: "r < Rounds" by simp
  let ?s = "wr (enc (stream data) r @ replicate (128 * (Rounds - r)) 0) (min (127 * r - 4) (length data)) (128 * r) c"
  show ?case
  proof (cases "127 * r - 4 < length data")
    case True
    then have go: "encode_loop data r ?s = rbind (encode_round data r ?s) (encode_loop data (r + 1))"
      using r by (subst encode_loop.simps) (simp add: wr_def)
    obtain c' where c': "length c' = 31" "encode_round data r ?s =
      Inr (wr (enc (stream data) (Suc r) @ replicate (128 * (Rounds - Suc r)) 0) (min (127 * Suc r - 4) (length data)) (128 * Suc r) c')"
      using encode_round_later [OF Suc.prems(1) r Suc.prems(3)] by blast
    show ?thesis unfolding go c'(2) using Suc.hyps(1) [of "Suc r" c'] Suc.hyps(2) r c'(1) by simp
  next
    case False
    then have "encode_loop data r ?s = Inr ?s" by (subst encode_loop.simps) (simp add: wr_def)
    moreover have "enc (stream data) Rounds = enc (stream data) r @ replicate (128 * (Rounds - r)) 0"
      using enc_pad [of "stream data" r "Rounds - r"] False Suc.prems(1) r by (simp add: length_stream)
    ultimately show ?thesis using False by (simp add: wr_def)
  qed
qed

lemma FromData_eq:
  assumes "length data \<le> MaxBlobDataSize"
  shows "FromData data = Inr (enc (stream data) Rounds)"
proof -
  let ?s = "wr Clear 0 0 (replicate 31 0)"
  have i: "\<lparr>wBlob = Clear, readOffset = 0, writeOffset = 0, buf31 = replicate 31 0\<rparr> = ?s" by (simp add: wr_def)
  show ?thesis
  proof (cases "data = []")
    case True
    have "stream [] = replicate 4 0" by (simp add: stream_def EncodingVersion_def numeral_eq_Suc)
    then have "chunk (stream []) i = replicate 127 0" for i
      by (rule_tac nth_equalityI) (auto simp: chunk_def nth_pad)
    then have "enc (stream []) r = replicate (128 * r) 0" for r
      by (induction r) (simp_all add: enc_Suc enc_zero enc_def [of _ 0] flip: replicate_add)
    then show ?thesis using True by (simp add: FromData_def i encode_loop.simps wr_def Clear_def BlobSize_rounds)
  next
    case False
    then have go: "encode_loop data 0 ?s = rbind (encode_round data 0 ?s) (encode_loop data (0 + 1))"
      by (subst encode_loop.simps) (simp add: wr_def Rounds_def)
    obtain c where c: "length c = 31" "encode_round data 0 ?s =
       Inr (wr (enc (stream data) 1 @ replicate (128 * (Rounds - 1)) 0) (min (127 * 1 - 4) (length data)) (128 * 1) c)"
      using encode_round_first by blast
    obtain s where "encode_loop data 1 (wr (enc (stream data) 1 @ replicate (128 * (Rounds - 1)) 0) (min (127 * 1 - 4) (length data)) (128 * 1) c) = Inr s"
      "wBlob s = enc (stream data) Rounds" "readOffset s = length data"
      using encode_loop_eq [of 1 c data] c(1) assms by (auto simp: Rounds_def)
    then show ?thesis using assms by (simp only: FromData_def i go c(2) rbind_simps add_0) simp
  qed
qed

section \<open>The decoder\<close>

lemma enc_split: "r < Rounds \<Longrightarrow> \<exists>rest. enc s Rounds = enc s r @ enc_chunk (chunk s r) @ rest"
proof -
  assume "r < Rounds"
  then have "[0..<Rounds] = [0..<r] @ r # [Suc r..<Rounds]"
    by (metis le_add_diff_inverse less_imp_le_nat upt_add_eq_append upt_conv_Cons zero_le)
  then show ?thesis by (simp add: enc_def)
qed

lemma enc_chunk_parts:
  assumes "length c = 127"
  shows "enc_chunk c ! 0 = (c ! 31) AND 0x3F" "enc_chunk c ! 32 = (c ! 63 AND 0x0F) OR drop_bit 2 (c ! 31 AND 0xC0)"
    "enc_chunk c ! 64 = (c ! 95) AND 0x3F" "enc_chunk c ! 96 = drop_bit 2 (c ! 95 AND 0xC0) OR drop_bit 4 (c ! 63 AND 0xF0)"
    "take 31 (drop 1 (enc_chunk c)) = take 31 c" "take 31 (drop 33 (enc_chunk c)) = take 31 (drop 32 c)"
    "take 31 (drop 65 (enc_chunk c)) = take 31 (drop 64 c)" "take 31 (drop 97 (enc_chunk c)) = take 31 (drop 96 c)"
  using assms by (simp_all add: enc_chunk_def Let_def nth_append)

lemma blob_at:
  assumes "r < Rounds" and "j < 128"
  shows "enc s Rounds ! (128 * r + j) = enc_chunk (chunk s r) ! j"
    and "j + 31 \<le> 128 \<Longrightarrow> take 31 (drop (128 * r + j) (enc s Rounds)) = take 31 (drop j (enc_chunk (chunk s r)))"
proof -
  obtain rest where e: "enc s Rounds = enc s r @ enc_chunk (chunk s r) @ rest" using enc_split [OF assms(1)] by blast
  show "enc s Rounds ! (128 * r + j) = enc_chunk (chunk s r) ! j"
    unfolding e using assms(2) by (simp add: nth_append length_enc_chunk)
  show "take 31 (drop (128 * r + j) (enc s Rounds)) = take 31 (drop j (enc_chunk (chunk s r)))" if "j + 31 \<le> 128"
    unfolding e using that by (simp add: length_enc_chunk)
qed

lemma chunk_tail:
  assumes "length c = 127"
  shows "c ! 31 # take 31 (drop 32 c) @ c ! 63 # take 31 (drop 64 c) @ c ! 95 # take 31 (drop 96 c) = drop 31 c"
proof -
  have "drop 31 c = c ! 31 # drop 32 c" "drop 63 c = c ! 63 # drop 64 c" "drop 95 c = c ! 95 # drop 96 c"
    using Cons_nth_drop_Suc [of 31 c] Cons_nth_drop_Suc [of 63 c] Cons_nth_drop_Suc [of 95 c] assms by simp_all
  moreover have "drop 32 c = take 31 (drop 32 c) @ drop 63 c" "drop 64 c = take 31 (drop 64 c) @ drop 95 c"
    using append_take_drop_id [of 31 "drop 32 c"] append_take_drop_id [of 31 "drop 64 c"] by simp_all
  moreover have "take 31 (drop 96 c) = drop 96 c" using assms by simp
  ultimately show ?thesis by metis
qed

lemma decodeFieldElement_eq:
  assumes "(b ! ipos) AND 0xC0 = 0" and "length dn = opos" and "31 \<le> m" and "ipos + 32 \<le> length b"
  shows "decodeFieldElement b opos ipos (dn @ replicate m 0) =
    Inr (b ! ipos, opos + 32, ipos + 32, dn @ take 31 (drop (ipos + 1) b) @ replicate (m - 31) 0)"
  using assms by (simp add: decodeFieldElement_def overwrite_def)

text \<open>Filling the gaps that the field elements leave with the three reassembled bytes.\<close>

lemma reassemble_eq:
  assumes "length X1 = 31" "length X2 = 31" "length X3 = 31" and "opos = length D + 97"
    and "e0 = x AND 0x3F" "e1 = (y AND 0x0F) OR drop_bit 2 (x AND 0xC0)" "e2 = z AND 0x3F"
    and "e3 = drop_bit 2 (z AND 0xC0) OR drop_bit 4 (y AND 0xF0)"
  shows "reassembleBytes opos e0 e1 e2 e3 (D @ 0 # X1 @ 0 # X2 @ 0 # X3 @ tl1) =
    (length D + 96, D @ x # X1 @ y # X2 @ z # X3 @ tl1)"
  using assms(1-3) unfolding reassembleBytes_def assms(4-8) reassembled Let_def
  by (simp add: list_update_append)


lemma decode_elements:
  assumes "r < Rounds" and "j < 4" and "length dn = opos" and "31 \<le> m"
  shows "decodeFieldElement (enc s Rounds) opos (128 * r + 32 * j) (dn @ replicate m 0) =
    Inr (enc_chunk (chunk s r) ! (32 * j), opos + 32, 128 * r + 32 * Suc j, dn @ take 31 (drop (32 * j) (chunk s r)) @ replicate (m - 31) 0)"
proof -
  let ?c = "chunk s r"
  have j: "j = 0 \<or> j = 1 \<or> j = 2 \<or> j = 3" using assms(2) by auto
  have at: "enc s Rounds ! (128 * r + 32 * j) = enc_chunk ?c ! (32 * j)" using blob_at(1) [OF assms(1), of "32 * j"] assms(2) by simp
  have "take 31 (drop (128 * r + (32 * j + 1)) (enc s Rounds)) = take 31 (drop (32 * j + 1) (enc_chunk ?c))"
    using assms(1,2) by (intro blob_at(2)) auto
  also have "\<dots> = take 31 (drop (32 * j) ?c)" using j enc_chunk_parts(5-8) [of ?c] by (elim disjE) simp_all
  finally have low: "take 31 (drop (128 * r + 32 * j + 1) (enc s Rounds)) = take 31 (drop (32 * j) ?c)" by (simp add: add.assoc)
  have top: "(enc_chunk ?c ! (32 * j)) AND 0xC0 = 0"
    using j enc_chunk_parts(1-4) [of ?c] top_bits_clear by (elim disjE) simp_all
  have len: "128 * r + 32 * j + 32 \<le> length (enc s Rounds)" using assms(1,2) by simp
  show ?thesis
    using decodeFieldElement_eq [of "enc s Rounds" "128 * r + 32 * j", OF _ assms(3,4) len] at low top by simp
qed

lemma replicate_gap: "32 \<le> m \<Longrightarrow> xs @ ys @ replicate (m - 31) 0 = (xs @ ys @ [0]) @ replicate (m - 32) (0 :: byte)"
proof -
  assume "32 \<le> m"
  then have "m - 31 = Suc (m - 32)" by simp
  then show ?thesis by simp
qed

text \<open>The last three elements of a round, and the bytes reassembled from all four.\<close>

lemma decode_tail:
  assumes "r < Rounds" and "length dn = opos" and "96 \<le> m + 1" and "dn = D @ [0]"
  shows "rbind (decodeFieldElement (enc s Rounds) opos (128 * r + 32) (dn @ replicate m 0)) (\<lambda>(e1, opos, ipos, output).
    rbind (decodeFieldElement (enc s Rounds) opos ipos output) (\<lambda>(e2, opos, ipos, output).
    rbind (decodeFieldElement (enc s Rounds) opos ipos output) (\<lambda>(e3, opos, ipos, output).
    K (reassembleBytes opos (enc_chunk (chunk s r) ! 0) e1 e2 e3 output) ipos))) =
    K (opos + 95, (D @ drop 31 (chunk s r)) @ replicate (m - 95) 0) (128 * Suc r)"
proof -
  let ?c = "chunk s r" and ?b = "enc s Rounds"
  let ?X1 = "take 31 (drop 32 ?c)" and ?X2 = "take 31 (drop 64 ?c)" and ?X3 = "take 31 (drop 96 ?c)"
  have m: "31 \<le> m" "32 \<le> m" "31 \<le> m - 32" "32 \<le> m - 32" "31 \<le> m - 64" using assms(3) by simp_all
  have l1: "length (dn @ ?X1 @ [0]) = opos + 32" and l2: "length ((dn @ ?X1 @ [0]) @ ?X2 @ [0]) = opos + 64"
    using assms(2) by simp_all
  have e1: "decodeFieldElement ?b opos (128 * r + 32) (dn @ replicate m 0) =
     Inr (enc_chunk ?c ! 32, opos + 32, 128 * r + 64, (dn @ ?X1 @ [0]) @ replicate (m - 32) 0)"
    using decode_elements [OF assms(1) _ assms(2) m(1), of 1 s] replicate_gap [OF m(2), of dn ?X1] by simp
  have e2: "decodeFieldElement ?b (opos + 32) (128 * r + 64) ((dn @ ?X1 @ [0]) @ replicate (m - 32) 0) =
     Inr (enc_chunk ?c ! 64, opos + 64, 128 * r + 96, ((dn @ ?X1 @ [0]) @ ?X2 @ [0]) @ replicate (m - 64) 0)"
    using decode_elements [OF assms(1) _ l1 m(3), of 2 s] replicate_gap [OF m(4), of "dn @ ?X1 @ [0]" ?X2] by simp
  have e3: "decodeFieldElement ?b (opos + 64) (128 * r + 96) (((dn @ ?X1 @ [0]) @ ?X2 @ [0]) @ replicate (m - 64) 0) =
     Inr (enc_chunk ?c ! 96, opos + 96, 128 * Suc r, ((dn @ ?X1 @ [0]) @ ?X2 @ [0]) @ ?X3 @ replicate (m - 95) 0)"
    using decode_elements [OF assms(1) _ l2 m(5), of 3 s] by simp
  have out: "((dn @ ?X1 @ [0]) @ ?X2 @ [0]) @ ?X3 @ replicate (m - 95) 0 =
     D @ 0 # ?X1 @ 0 # ?X2 @ 0 # ?X3 @ replicate (m - 95) 0"
    by (simp add: assms(4))
  have pos: "opos + 96 = length D + 97" using assms(2) by (simp add: assms(4))
  have re: "reassembleBytes (opos + 96) (enc_chunk ?c ! 0) (enc_chunk ?c ! 32) (enc_chunk ?c ! 64) (enc_chunk ?c ! 96)
      (((dn @ ?X1 @ [0]) @ ?X2 @ [0]) @ ?X3 @ replicate (m - 95) 0) = (opos + 95, (D @ drop 31 ?c) @ replicate (m - 95) 0)"
  proof -
    have lc: "length ?c = 127" by simp
    have lx: "length ?X1 = 31" "length ?X2 = 31" "length ?X3 = 31" by simp_all
    have "D @ ?c ! 31 # ?X1 @ ?c ! 63 # ?X2 @ ?c ! 95 # ?X3 @ replicate (m - 95) 0 =
        D @ (?c ! 31 # ?X1 @ ?c ! 63 # ?X2 @ ?c ! 95 # ?X3) @ replicate (m - 95) 0"
      by (simp only: append.assoc append_Cons)
    also have "\<dots> = (D @ drop 31 ?c) @ replicate (m - 95) 0" by (simp only: chunk_tail [OF lc] append.assoc)
    finally show ?thesis
      unfolding out reassemble_eq [OF lx pos enc_chunk_parts(1-4) [OF lc]] using pos by simp
  qed
  show ?thesis unfolding e1 rbind_simps prod.case e2 e3 re ..
qed


text \<open>The output after \<open>r\<close> rounds: the data that these rounds carry, without the header.\<close>

definition decoded :: "bytes \<Rightarrow> nat \<Rightarrow> bytes" where
  "decoded s r = drop 4 (pad (127 * r) s)"

lemma decoded_Suc: "0 < r \<Longrightarrow> decoded s (Suc r) = decoded s r @ chunk s r"
  using pad_split [of "127 * r" 127 s] by (simp add: decoded_def chunk_def add.commute)

lemma length_decoded: "length (decoded s r) = 127 * r - 4"
  by (simp add: decoded_def)

lemma decode_round_eq:
  assumes "r < Rounds" and "0 < r" and "127 \<le> m"
  shows "decode_round (enc s Rounds) (127 * r - 4) (128 * r) (decoded s r @ replicate m 0) =
    Inr (127 * Suc r - 4, 128 * Suc r, decoded s (Suc r) @ replicate (m - 127) 0)"
proof -
  let ?c = "chunk s r" and ?b = "enc s Rounds" and ?d = "decoded s r"
  have m: "31 \<le> m" "32 \<le> m" "96 \<le> m - 32 + 1" using assms(3) by simp_all
  have e0: "decodeFieldElement ?b (127 * r - 4) (128 * r) (?d @ replicate m 0) =
     Inr (enc_chunk ?c ! 0, 127 * r - 4 + 32, 128 * r + 32, (?d @ take 31 ?c @ [0]) @ replicate (m - 32) 0)"
    using decode_elements [OF assms(1) _ length_decoded m(1), of 0 s] replicate_gap [OF m(2), of ?d "take 31 ?c"] by simp
  have l: "length (?d @ take 31 ?c @ [0]) = 127 * r - 4 + 32" by (simp add: length_decoded)
  have n: "127 * r - 4 + 32 + 95 = 127 * Suc r - 4" "m - 32 - 95 = m - 127" using assms(2) by simp_all
  show ?thesis
    unfolding decode_round_def e0 rbind_simps prod.case
    using decode_tail [OF assms(1) l m(3), where D = "?d @ take 31 ?c" and s = s and K = "\<lambda>(opos, output) ipos. Inr (opos, ipos, output)"]
    unfolding n decoded_Suc [OF assms(2)] by (simp add: Let_def case_prod_beta')
qed

lemma decode_loop_eq:
  assumes "0 < r" and "r \<le> Rounds" and "length s \<le> 127 * Rounds" and "4 + outputLen = length s"
  shows "\<exists>R. decode_loop (enc s Rounds) outputLen r (127 * r - 4) (128 * r) (decoded s r @ replicate (127 * (Rounds - r)) 0) =
    Inr (127 * R - 4, 128 * R, decoded s R @ replicate (127 * (Rounds - R)) 0) \<and> 0 < R \<and> R \<le> Rounds \<and> length s \<le> 127 * R"
  using assms(1,2)
proof (induction "Rounds - r" arbitrary: r)
  case 0
  then have "r = Rounds" by simp
  then show ?case using assms(3) 0 by (intro exI [of _ Rounds]) (simp add: decode_loop.simps)
next
  case (Suc n)
  then have r: "r < Rounds" by simp
  show ?case
  proof (cases "127 * r - 4 < outputLen")
    case True
    have k: "127 \<le> 127 * (Rounds - r)" "127 * (Rounds - r) - 127 = 127 * (Rounds - Suc r)" using r by auto
    have go: "decode_loop (enc s Rounds) outputLen r (127 * r - 4) (128 * r) (decoded s r @ replicate (127 * (Rounds - r)) 0) =
      decode_loop (enc s Rounds) outputLen (r + 1) (127 * Suc r - 4) (128 * Suc r) (decoded s (Suc r) @ replicate (127 * (Rounds - Suc r)) 0)"
      using True r decode_round_eq [OF r Suc.prems(1) k(1), of s] by (subst decode_loop.simps) (simp add: k(2))
    show ?thesis unfolding go using Suc.hyps(1) [of "Suc r"] Suc.hyps(2) r by simp
  next
    case False
    then show ?thesis using Suc.prems assms(4) by (intro exI [of _ r]) (simp add: decode_loop.simps)
  qed
qed


lemma header_length:
  assumes "length data \<le> MaxBlobDataSize" and "b = enc (stream data) Rounds"
  shows "b ! 1 = 0" and "unat (push_bit 16 (ucast (b ! 2) :: uint32) OR push_bit 8 (ucast (b ! 3)) OR ucast (b ! 4)) = length data"
proof -
  let ?n = "of_nat (length data) :: uint32" and ?c = "chunk (stream data) 0"
  have r: "0 < Rounds" by (simp add: Rounds_def)
  have at: "b ! Suc j = stream data ! j" if "j < 4" for j
    using blob_at(1) [OF r, of "Suc j" "stream data"] that assms(2)
    by (simp add: enc_chunk_def nth_append chunk_def nth_pad length_stream Let_def)
  have s: "stream data ! 0 = 0" "stream data ! 1 = ucast (drop_bit 16 ?n)" "stream data ! 2 = ucast (drop_bit 8 ?n)" "stream data ! 3 = ucast ?n"
    by (simp_all add: stream_def EncodingVersion_def numeral_3_eq_3 numeral_2_eq_2)
  show "b ! 1 = 0" using at [of 0] s(1) by simp
  have b: "b ! 2 = ucast (drop_bit 16 ?n)" "b ! 3 = ucast (drop_bit 8 ?n)" "b ! 4 = ucast ?n"
    using at [of 1] s(2) apply (simp add: numeral_2_eq_2)
    using at [of 2] at [of 3] s(3,4) by simp_all
  have "length data < 2 ^ 24" using assms(1) by (simp add: MaxBlobDataSize_def)
  then have small: "unat ?n = length data" "take_bit 24 ?n = ?n"
    by (simp_all add: unat_of_nat_lt take_bit_of_nat take_bit_nat_eq_self)
  have "push_bit 16 (ucast (b ! 2) :: uint32) OR push_bit 8 (ucast (b ! 3)) OR ucast (b ! 4) = be_word (be_bytes 3 ?n)"
    unfolding b by (simp add: be_word_def numeral_3_eq_3 push_bit_or ac_simps)
  then show "unat (push_bit 16 (ucast (b ! 2) :: uint32) OR push_bit 8 (ucast (b ! 3)) OR ucast (b ! 4)) = length data"
    using small by (simp add: be_word_be_bytes_take)
qed


lemma decoded_end:
  assumes "length s \<le> 127 * R" and "R \<le> Rounds" and "s = stream data"
  shows "decoded s R @ replicate (127 * (Rounds - R)) 0 = data @ replicate (MaxBlobDataSize - length data) 0"
proof -
  have "decoded s R = data @ replicate (127 * R - length s) 0"
    using assms(1) by (simp add: decoded_def pad_def assms(3) stream_def)
  moreover have "127 * R - length s + 127 * (Rounds - R) = MaxBlobDataSize - length data"
    using assms by (simp add: length_stream MaxBlobDataSize_def Rounds_def)
  ultimately show ?thesis by (simp flip: replicate_add)
qed

lemma ToData_eq:
  assumes "length data \<le> MaxBlobDataSize"
  shows "ToData (enc (stream data) Rounds) = Inr data"
proof -
  define s where "s = stream data"
  define b where "b = enc s Rounds"
  define w where "w = push_bit 16 (ucast (b ! 2) :: uint32) OR push_bit 8 (ucast (b ! 3)) OR ucast (b ! 4)"
  let ?c = "chunk s 0" and ?L = "length data"
  define D where "D = drop 4 (take 31 ?c)"
  have r: "0 < Rounds" "1 \<le> Rounds" by (simp_all add: Rounds_def)
  have h: "b ! VersionOffset = EncodingVersion" "unat w = ?L"
    using header_length [OF assms, of b] by (simp_all add: b_def s_def w_def VersionOffset_def EncodingVersion_def)
  have "unat (of_nat MaxBlobDataSize :: uint32) = MaxBlobDataSize" by (rule unat_of_nat_lt) (simp add: MaxBlobDataSize_def)
  then have fits: "\<not> of_nat MaxBlobDataSize < w" using h(2) assms by (simp add: word_less_nat_alt)
  have "take 31 (drop 1 b) = take 31 ?c"
    using blob_at(2) [OF r(1), of 1 s] enc_chunk_parts(5) [of ?c] by (simp add: b_def)
  moreover have "take 27 (drop 5 b) = drop 4 (take 31 (drop 1 b))" by (simp add: drop_take)
  ultimately have first: "take 27 (drop 5 b) = D" by (simp add: D_def)
  have lD: "length (D @ [0]) = 28" by (simp add: D_def)
  have out0: "overwrite (replicate MaxBlobDataSize 0) 0 D = (D @ [0]) @ replicate (MaxBlobDataSize - 28) 0"
  proof -
    have "MaxBlobDataSize - 27 = Suc (MaxBlobDataSize - 28)" by (simp add: MaxBlobDataSize_def)
    then show ?thesis using lD by (simp add: overwrite_def)
  qed
  have b0: "b ! 0 = enc_chunk ?c ! 0" using blob_at(1) [OF r(1), of 0 s] by (simp add: b_def)
  have dec1: "D @ drop 31 ?c = decoded s 1"
    using append_take_drop_id [of 27 "drop 4 ?c"] by (simp add: D_def decoded_def chunk_def drop_take)
  have m: "96 \<le> MaxBlobDataSize - 28 + 1" "MaxBlobDataSize - 28 - 95 = 127 * (Rounds - 1)"
    by (simp_all add: MaxBlobDataSize_def Rounds_def)
  have ls: "4 + ?L = length s" "length s \<le> 127 * Rounds"
    using assms by (simp_all add: s_def length_stream MaxBlobDataSize_def Rounds_def)
  obtain R where R: "decode_loop b ?L 1 (127 * 1 - 4) (128 * 1) (decoded s 1 @ replicate (127 * (Rounds - 1)) 0) =
     Inr (127 * R - 4, 128 * R, decoded s R @ replicate (127 * (Rounds - R)) 0)" "0 < R" "R \<le> Rounds" "length s \<le> 127 * R"
    using decode_loop_eq [OF zero_less_one r(2) ls(2,1)] unfolding b_def by blast
  have out: "decoded s R @ replicate (127 * (Rounds - R)) 0 = data @ replicate (MaxBlobDataSize - ?L) 0"
    by (rule decoded_end [OF R(4,3) s_def])
  have rest: "drop (128 * R) b = replicate (128 * (Rounds - R)) 0"
    using enc_pad [OF R(4), of "Rounds - R"] R(3) by (simp add: b_def)
  let ?K = "\<lambda>(opos, output) ipos. rbind (decode_loop b ?L 1 opos ipos output) (\<lambda>(opos, ipos, output).
         if list_ex (\<lambda>v. v \<noteq> 0) (drop ?L output) then Inl ErrBlobExtraneousDataFieldElement
         else if list_ex (\<lambda>v. v \<noteq> 0) (drop ipos b) then Inl ErrBlobExtraneousData
         else Inr (take ?L output))"
  have "ToData b = rbind (decodeFieldElement b 28 (128 * 0 + 32) ((D @ [0]) @ replicate (MaxBlobDataSize - 28) 0)) (\<lambda>(e1, opos, ipos, output).
    rbind (decodeFieldElement b opos ipos output) (\<lambda>(e2, opos, ipos, output).
    rbind (decodeFieldElement b opos ipos output) (\<lambda>(e3, opos, ipos, output).
    ?K (reassembleBytes opos (enc_chunk ?c ! 0) e1 e2 e3 output) ipos)))"
    using h(1) fits unfolding ToData_def w_def [symmetric] Let_def first out0 b0 h(2) by (simp add: case_prod_beta')
  also have "\<dots> = ?K (28 + 95, (D @ drop 31 ?c) @ replicate (MaxBlobDataSize - 28 - 95) 0) (128 * Suc 0)"
    unfolding b_def by (rule decode_tail [OF r(1) lD m(1) refl])
  also have "\<dots> = Inr data" using R(1) unfolding dec1 m(2) out by (simp add: rest list_ex_iff)
  finally show ?thesis by (simp add: b_def s_def)
qed

text \<open>C13: Whatever data of at most 130044 bytes is put into a blob comes back: encoding succeeds (no assertion of the encoder
  fails), and decoding the blob yields the data, the empty data and data of the full length included. Larger data is refused.\<close>

theorem blob_round_trip:
  "if length data \<le> MaxBlobDataSize then \<exists>b. FromData data = Inr b \<and> length b = BlobSize \<and> ToData b = Inr data
   else FromData data = Inl ErrBlobInputTooLarge"
proof (cases "length data \<le> MaxBlobDataSize")
  case True
  then show ?thesis using FromData_eq [OF True] ToData_eq [OF True] by (simp add: BlobSize_rounds)
qed (simp add: FromData_def)

theorem blob_round_trip_witness:
  "(\<exists>b. FromData [1, 2, 255] = Inr b \<and> length b = BlobSize \<and> ToData b = Inr [1, 2, 255]) \<and>
   FromData (replicate 130045 0) = Inl ErrBlobInputTooLarge"
  using blob_round_trip [of "[1, 2, 255]"] blob_round_trip [of "replicate 130045 0"] by (simp add: MaxBlobDataSize_def)

end
