(* ===== verification/DeriveSource.thy ===== *)
theory DeriveSource
  imports DeriveAssembler Blob
begin

text \<open>
  The first stages of the derivation pipeline (\<^verbatim>\<open>op-node/rollup/derive/{data_source,calldata_source,blob_data_source,
  l1_retrieval,l1_traversal,system_config}.go\<close>, \<^verbatim>\<open>op-service/solabi/util.go\<close>): traversal of L1 with the updates of the system
  configuration, and the batcher data of a block from calldata or blobs. The L1 client is given by what it answers at
  the time of the call: \<open>txsByHash\<close>, \<open>getBlobs\<close>, \<open>blockByNumber\<close>, \<open>receiptsByHash\<close>; \<open>sender\<close> is the signer's recovery of the sender.
\<close>

section \<open>Batcher transactions\<close>

datatype fetch_error = NotFound | FetchFailed string

record L1Tx =
  txType :: byte
  txTo :: "Address option"
  txData :: bytes
  BlobHashes :: "Hash list"
  txSignature :: bytes

definition BlobTxType :: byte where "BlobTxType = 3"
definition DepositTxType :: byte where "DepositTxType = 0x7E"

record DataSourceConfig =
  dsInbox :: Address
  altDAEnabled :: bool

definition isValidBatchTx :: "(L1Tx \<Rightarrow> Address option) \<Rightarrow> Address \<Rightarrow> Address \<Rightarrow> L1Tx \<Rightarrow> bool" where
  "isValidBatchTx sender batchInboxAddr batcherAddr tx =
    (if BlobTxType < txType tx \<and> txType tx \<noteq> DepositTxType then False
     else case txTo tx of
       None \<Rightarrow> False
     | Some to \<Rightarrow>
        if to \<noteq> batchInboxAddr then False
        else case sender tx of
          None \<Rightarrow> False
        | Some seqDataSubmitter \<Rightarrow> seqDataSubmitter = batcherAddr)"

fun DataFromEVMTransactions :: "(L1Tx \<Rightarrow> Address option) \<Rightarrow> DataSourceConfig \<Rightarrow> Address \<Rightarrow> L1Tx list \<Rightarrow> bytes list" where
  "DataFromEVMTransactions sender dsCfg batcherAddr [] = []"
| "DataFromEVMTransactions sender dsCfg batcherAddr (tx # txs) =
    (if isValidBatchTx sender (dsInbox dsCfg) batcherAddr tx
     then txData tx # DataFromEVMTransactions sender dsCfg batcherAddr txs
     else DataFromEVMTransactions sender dsCfg batcherAddr txs)"

section \<open>The calldata source\<close>

record CalldataSource =
  csOpen :: bool
  csData :: "bytes list"
  csRef :: L1BlockRef
  csCfg :: DataSourceConfig
  csBatcher :: Address

definition NewCalldataSource :: "(L1Tx \<Rightarrow> Address option) \<Rightarrow> (Hash \<Rightarrow> fetch_error + L1Tx list) \<Rightarrow> DataSourceConfig \<Rightarrow> L1BlockRef \<Rightarrow> Address \<Rightarrow> CalldataSource" where
  "NewCalldataSource sender txsByHash dsCfg ref batcherAddr =
    (case txsByHash (l1Hash ref) of
       Inl _ \<Rightarrow> \<lparr>csOpen = False, csData = [], csRef = ref, csCfg = dsCfg, csBatcher = batcherAddr\<rparr>
     | Inr txs \<Rightarrow> \<lparr>csOpen = True, csData = DataFromEVMTransactions sender dsCfg batcherAddr txs, csRef = ref, csCfg = dsCfg,
                   csBatcher = batcherAddr\<rparr>)"

definition CalldataSource_Next :: "(L1Tx \<Rightarrow> Address option) \<Rightarrow> (Hash \<Rightarrow> fetch_error + L1Tx list) \<Rightarrow> CalldataSource \<Rightarrow>
    (derive_error + bytes) \<times> CalldataSource" where
  "CalldataSource_Next sender txsByHash ds =
    (case (if csOpen ds then Inr ds
           else case txsByHash (l1Hash (csRef ds)) of
             Inr txs \<Rightarrow> Inr (ds\<lparr>csOpen := True, csData := DataFromEVMTransactions sender (csCfg ds) (csBatcher ds) txs\<rparr>)
           | Inl NotFound \<Rightarrow> Inl (ResetError ''failed to open calldata source'')
           | Inl (FetchFailed _) \<Rightarrow> Inl (TemporaryError ''failed to open calldata source'')) of
       Inl e \<Rightarrow> (Inl e, ds)
     | Inr ds \<Rightarrow>
        (case csData ds of
           [] \<Rightarrow> (Inl IoEOF, ds)
         | data # rest \<Rightarrow> (Inr data, ds\<lparr>csData := rest\<rparr>)))"

section \<open>The blob source\<close>

record blobOrCalldata =
  bcBlob :: "bytes option"
  bcCalldata :: "bytes option"

record IndexedBlobHash =
  ibIndex :: uint64
  ibHash :: Hash

record BlobDataSource =
  bsData :: "blobOrCalldata list option"
  bsRef :: L1BlockRef
  bsBatcher :: Address
  bsCfg :: DataSourceConfig

definition NewBlobDataSource :: "DataSourceConfig \<Rightarrow> L1BlockRef \<Rightarrow> Address \<Rightarrow> BlobDataSource" where
  "NewBlobDataSource dsCfg ref batcherAddr = \<lparr>bsData = None, bsRef = ref, bsBatcher = batcherAddr, bsCfg = dsCfg\<rparr>"

text \<open>\<open>hash_loop\<close> is the inner loop over the blob hashes of one transaction.\<close>

fun hash_loop :: "Hash list \<Rightarrow> nat \<Rightarrow> blobOrCalldata list \<Rightarrow> IndexedBlobHash list \<Rightarrow> blobOrCalldata list \<times> IndexedBlobHash list \<times> nat" where
  "hash_loop [] blobIndex data hashes = (data, hashes, blobIndex)"
| "hash_loop (h # hs) blobIndex data hashes =
    hash_loop hs (blobIndex + 1) (data @ [\<lparr>bcBlob = None, bcCalldata = None\<rparr>]) (hashes @ [\<lparr>ibIndex = of_nat blobIndex, ibHash = h\<rparr>])"

fun txs_loop :: "(L1Tx \<Rightarrow> Address option) \<Rightarrow> DataSourceConfig \<Rightarrow> Address \<Rightarrow> L1Tx list \<Rightarrow> nat \<Rightarrow> blobOrCalldata list \<Rightarrow>
    IndexedBlobHash list \<Rightarrow> blobOrCalldata list \<times> IndexedBlobHash list" where
  "txs_loop sender config batcherAddr [] blobIndex data hashes = (data, hashes)"
| "txs_loop sender config batcherAddr (tx # txs) blobIndex data hashes =
    (if \<not> isValidBatchTx sender (dsInbox config) batcherAddr tx
     then txs_loop sender config batcherAddr txs (blobIndex + length (BlobHashes tx)) data hashes
     else if txType tx \<noteq> BlobTxType
     then txs_loop sender config batcherAddr txs blobIndex (data @ [\<lparr>bcBlob = None, bcCalldata = Some (txData tx)\<rparr>]) hashes
     else
       let (data, hashes, blobIndex) = hash_loop (BlobHashes tx) blobIndex data hashes
       in txs_loop sender config batcherAddr txs blobIndex data hashes)"

definition dataAndHashesFromTxs :: "(L1Tx \<Rightarrow> Address option) \<Rightarrow> DataSourceConfig \<Rightarrow> Address \<Rightarrow> L1Tx list \<Rightarrow>
    blobOrCalldata list \<times> IndexedBlobHash list" where
  "dataAndHashesFromTxs sender config batcherAddr txs = txs_loop sender config batcherAddr txs 0 [] []"

text \<open>A fetched blob may be a nil pointer. The loop of \<^verbatim>\<open>fillBlobPointers\<close> consumes the blobs in order; what is left over is an
  error.\<close>

fun fillBlobPointers :: "blobOrCalldata list \<Rightarrow> bytes option list \<Rightarrow> string + blobOrCalldata list" where
  "fillBlobPointers [] blobs = (if blobs = [] then Inr [] else Inl ''got too many blobs'')"
| "fillBlobPointers (d # ds) blobs =
    (if bcCalldata d \<noteq> None then rbind (fillBlobPointers ds blobs) (\<lambda>ds. Inr (d # ds))
     else case blobs of
       [] \<Rightarrow> Inl ''didn't get enough blobs''
     | None # _ \<Rightarrow> Inl ''found a nil blob''
     | Some b # bs \<Rightarrow> rbind (fillBlobPointers ds bs) (\<lambda>ds. Inr (d\<lparr>bcBlob := Some b\<rparr> # ds)))"

definition BlobDataSource_open :: "(L1Tx \<Rightarrow> Address option) \<Rightarrow> (Hash \<Rightarrow> fetch_error + L1Tx list) \<Rightarrow>
    (L1BlockRef \<Rightarrow> IndexedBlobHash list \<Rightarrow> fetch_error + bytes option list) \<Rightarrow> BlobDataSource \<Rightarrow> derive_error + blobOrCalldata list" where
  "BlobDataSource_open sender txsByHash getBlobs ds =
    (case txsByHash (l1Hash (bsRef ds)) of
       Inl NotFound \<Rightarrow> Inl (ResetError ''failed to open blob data source'')
     | Inl (FetchFailed _) \<Rightarrow> Inl (TemporaryError ''failed to open blob data source'')
     | Inr txs \<Rightarrow>
        let (data, hashes) = dataAndHashesFromTxs sender (bsCfg ds) (bsBatcher ds) txs in
        if hashes = [] then Inr data
        else case getBlobs (bsRef ds) hashes of
          Inl NotFound \<Rightarrow> Inl (ResetError ''failed to fetch blobs'')
        | Inl (FetchFailed _) \<Rightarrow> Inl (TemporaryError ''failed to fetch blobs'')
        | Inr blobs \<Rightarrow>
           (case fillBlobPointers data blobs of
              Inl _ \<Rightarrow> Inl (ResetError ''failed to fill blob pointers'')
            | Inr data \<Rightarrow> Inr data))"

text \<open>The pops of \<^verbatim>\<open>Next\<close>: a blob that does not decode is skipped by the recursive call. A placeholder without a blob cannot be
  dereferenced.\<close>

fun next_blob :: "blobOrCalldata list \<Rightarrow> (derive_error + bytes) \<times> blobOrCalldata list" where
  "next_blob [] = (Inl IoEOF, [])"
| "next_blob (next # rest) =
    (case bcCalldata next of
       Some calldata \<Rightarrow> (Inr calldata, rest)
     | None \<Rightarrow>
        (case bcBlob next of
           None \<Rightarrow> (Inl (Panic ''nil blob''), rest)
         | Some b \<Rightarrow> (case ToData b of Inl _ \<Rightarrow> next_blob rest | Inr data \<Rightarrow> (Inr data, rest))))"

definition BlobDataSource_Next :: "(L1Tx \<Rightarrow> Address option) \<Rightarrow> (Hash \<Rightarrow> fetch_error + L1Tx list) \<Rightarrow>
    (L1BlockRef \<Rightarrow> IndexedBlobHash list \<Rightarrow> fetch_error + bytes option list) \<Rightarrow> BlobDataSource \<Rightarrow> (derive_error + bytes) \<times> BlobDataSource" where
  "BlobDataSource_Next sender txsByHash getBlobs ds =
    (case (case bsData ds of Some d \<Rightarrow> Inr d | None \<Rightarrow> BlobDataSource_open sender txsByHash getBlobs ds) of
       Inl e \<Rightarrow> (Inl e, ds)
     | Inr data \<Rightarrow> let (r, rest) = next_blob data in (r, ds\<lparr>bsData := Some rest\<rparr>))"

section \<open>Opening the data of a block\<close>

datatype DataIter = CalldataIter CalldataSource | BlobIter BlobDataSource | AltDAIter DataIter L1BlockRef

record DataSourceFactory =
  dfCfg :: DataSourceConfig
  ecotoneTime :: "uint64 option"
  hasBlobsFetcher :: bool

definition NewDataSourceFactory :: "Config \<Rightarrow> bool \<Rightarrow> DataSourceFactory" where
  "NewDataSourceFactory cfg blobs =
    \<lparr>dfCfg = \<lparr>dsInbox = BatchInboxAddress cfg, altDAEnabled = AltDAEnabled cfg\<rparr>, ecotoneTime = EcotoneTime cfg, hasBlobsFetcher = blobs\<rparr>"

definition OpenData :: "(L1Tx \<Rightarrow> Address option) \<Rightarrow> (Hash \<Rightarrow> fetch_error + L1Tx list) \<Rightarrow> DataSourceFactory \<Rightarrow> L1BlockRef \<Rightarrow> Address \<Rightarrow>
    derive_error + DataIter" where
  "OpenData sender txsByHash ds ref batcherAddr =
    rbind (if (case ecotoneTime ds of None \<Rightarrow> False | Some t \<Rightarrow> t \<le> l1Time ref) then
             (if \<not> hasBlobsFetcher ds then Inl (PlainError ''ecotone upgrade active but beacon endpoint not configured'')
              else Inr (BlobIter (NewBlobDataSource (dfCfg ds) ref batcherAddr)))
           else Inr (CalldataIter (NewCalldataSource sender txsByHash (dfCfg ds) ref batcherAddr))) (\<lambda>src.
    if altDAEnabled (dfCfg ds) then Inr (AltDAIter src ref) else Inr src)"

text \<open>The alternative data availability source depends on a challenge manager and a storage service; its \<^verbatim>\<open>Next\<close> is the
  parameter \<open>altNext\<close>.\<close>

definition DataIter_Next :: "(DataIter \<Rightarrow> L1BlockRef \<Rightarrow> (derive_error + bytes) \<times> DataIter) \<Rightarrow> (L1Tx \<Rightarrow> Address option) \<Rightarrow>
    (Hash \<Rightarrow> fetch_error + L1Tx list) \<Rightarrow> (L1BlockRef \<Rightarrow> IndexedBlobHash list \<Rightarrow> fetch_error + bytes option list) \<Rightarrow> DataIter \<Rightarrow>
    (derive_error + bytes) \<times> DataIter" where
  "DataIter_Next altNext sender txsByHash getBlobs it =
    (case it of
       CalldataIter ds \<Rightarrow> (let (r, ds) = CalldataSource_Next sender txsByHash ds in (r, CalldataIter ds))
     | BlobIter ds \<Rightarrow> (let (r, ds) = BlobDataSource_Next sender txsByHash getBlobs ds in (r, BlobIter ds))
     | AltDAIter src ref \<Rightarrow> (let (r, src) = altNext src ref in (r, AltDAIter src ref)))"


section \<open>ABI readers and writers\<close>

definition ReadEthBytes32 :: "bytes \<Rightarrow> derive_error + Hash \<times> bytes" where
  "ReadEthBytes32 r = rbind (read_full 32 r) (\<lambda>(b, r). Inr (be_word b, r))"

definition ReadAddress :: "bytes \<Rightarrow> derive_error + Address \<times> bytes" where
  "ReadAddress r =
    rbind (read_full 12 r) (\<lambda>(padding, r).
    if padding \<noteq> replicate 12 0 then Inl (PlainError ''address padding was not empty'')
    else rbind (read_full 20 r) (\<lambda>(a, r). Inr (be_word a, r)))"

definition ReadUint64 :: "bytes \<Rightarrow> derive_error + uint64 \<times> bytes" where
  "ReadUint64 r =
    rbind (read_full 24 r) (\<lambda>(padding, r).
    if padding \<noteq> replicate 24 0 then Inl (PlainError ''number padding was not empty'')
    else case read_full 8 r of
      Inl _ \<Rightarrow> Inl (PlainError ''expected number length to be 8 bytes'')
    | Inr (n, r) \<Rightarrow> Inr (be_word n, r))"

definition EmptyReader :: "bytes \<Rightarrow> bool" where "EmptyReader r \<longleftrightarrow> r = []"

definition WriteUint64 :: "uint64 \<Rightarrow> bytes" where "WriteUint64 n = replicate 24 0 @ be_bytes 8 n"
definition WriteAddress :: "Address \<Rightarrow> bytes" where "WriteAddress a = replicate 12 0 @ be_bytes 20 a"
definition WriteEthBytes32 :: "Hash \<Rightarrow> bytes" where "WriteEthBytes32 h = be_bytes 32 h"

section \<open>Updates of the system configuration\<close>

record L1Log =
  logAddress :: Address
  Topics :: "Hash list"
  logData :: bytes
  logBlockHash :: Hash
  logIndex :: uint64

record Receipt =
  rStatus :: uint64
  Logs :: "L1Log list"

definition ReceiptStatusSuccessful :: uint64 where "ReceiptStatusSuccessful = 1"

definition SystemConfigUpdateBatcher :: Hash where "SystemConfigUpdateBatcher = 0"
definition SystemConfigUpdateFeeScalars :: Hash where "SystemConfigUpdateFeeScalars = 1"
definition SystemConfigUpdateGasLimit :: Hash where "SystemConfigUpdateGasLimit = 2"
definition SystemConfigUpdateUnsafeBlockSigner :: Hash where "SystemConfigUpdateUnsafeBlockSigner = 3"
definition SystemConfigUpdateEIP1559Params :: Hash where "SystemConfigUpdateEIP1559Params = 4"
definition SystemConfigUpdateOperatorFeeParams :: Hash where "SystemConfigUpdateOperatorFeeParams = 5"
definition ConfigUpdateEventVersion0 :: Hash where "ConfigUpdateEventVersion0 = 0"

definition L1ScalarBedrock :: byte where "L1ScalarBedrock = 0"
definition L1ScalarEcotone :: byte where "L1ScalarEcotone = 1"

definition CheckEcotoneL1SystemConfigScalar :: "Hash \<Rightarrow> bool" where
  "CheckEcotoneL1SystemConfigScalar scalar =
    (let b = be_bytes 32 scalar; versionByte = b ! 0 in
     if versionByte = L1ScalarBedrock then go_slice b 1 28 = replicate 27 0
     else if versionByte = L1ScalarEcotone then go_slice b 1 24 = replicate 23 0
     else False)"

text \<open>The two checks with which every update starts, and the one with which it ends.\<close>

definition read_expect :: "uint64 \<Rightarrow> string \<Rightarrow> bytes \<Rightarrow> derive_error + bytes" where
  "read_expect n msg r =
    (case ReadUint64 r of
       Inl _ \<Rightarrow> Inl (CriticalError msg)
     | Inr (v, r) \<Rightarrow> if v \<noteq> n then Inl (CriticalError msg) else Inr r)"

definition read_value :: "(bytes \<Rightarrow> derive_error + 'v \<times> bytes) \<Rightarrow> string \<Rightarrow> bytes \<Rightarrow> derive_error + 'v \<times> bytes" where
  "read_value rd msg r = (case rd r of Inl _ \<Rightarrow> Inl (CriticalError msg) | Inr x \<Rightarrow> Inr x)"

definition expect_end :: "bytes \<Rightarrow> derive_error + unit" where
  "expect_end r = guard (EmptyReader r) (CriticalError ''too many bytes'')"

definition ProcessSystemConfigUpdateLogEvent :: "Hash \<Rightarrow> Config \<Rightarrow> uint64 \<Rightarrow> L1Log \<Rightarrow> SystemConfig \<Rightarrow> derive_error + SystemConfig" where
  "ProcessSystemConfigUpdateLogEvent eventHash rollupCfg l1time ev dest =
    (if length (Topics ev) \<noteq> 3 then Inl (PlainError ''expected 3 event topics'')
     else if Topics ev ! 0 \<noteq> eventHash then Inl (PlainError ''invalid SystemConfig update event'')
     else if Topics ev ! 1 \<noteq> ConfigUpdateEventVersion0 then Inl (PlainError ''unrecognized SystemConfig update event version'')
     else
       let updateType = Topics ev ! 2; reader = logData ev in
       if updateType = SystemConfigUpdateBatcher then
         rbind (read_expect 32 ''invalid pointer field'' reader) (\<lambda>r.
         rbind (read_expect 32 ''invalid length field'' r) (\<lambda>r.
         rbind (read_value ReadAddress ''could not read address'' r) (\<lambda>(address, r).
         rbind (expect_end r) (\<lambda>_. Inr (dest\<lparr>BatcherAddr := address\<rparr>)))))
       else if updateType = SystemConfigUpdateFeeScalars then
         rbind (read_expect 32 ''invalid pointer field'' reader) (\<lambda>r.
         rbind (read_expect 64 ''invalid length field'' r) (\<lambda>r.
         rbind (read_value ReadEthBytes32 ''could not read overhead'' r) (\<lambda>(overhead, r).
         rbind (read_value ReadEthBytes32 ''could not read scalar'' r) (\<lambda>(scalar, r).
         rbind (expect_end r) (\<lambda>_.
         if IsEcotone rollupCfg l1time then
           (if \<not> CheckEcotoneL1SystemConfigScalar scalar then Inr dest
            else Inr (dest\<lparr>Scalar := scalar, Overhead := 0\<rparr>))
         else Inr (dest\<lparr>Overhead := overhead, Scalar := scalar\<rparr>))))))
       else if updateType = SystemConfigUpdateGasLimit then
         rbind (read_expect 32 ''invalid pointer field'' reader) (\<lambda>r.
         rbind (read_expect 32 ''invalid length field'' r) (\<lambda>r.
         rbind (read_value ReadUint64 ''could not read gas limit'' r) (\<lambda>(gasLimit, r).
         rbind (expect_end r) (\<lambda>_. Inr (dest\<lparr>GasLimit := gasLimit\<rparr>)))))
       else if updateType = SystemConfigUpdateEIP1559Params then
         rbind (read_expect 32 ''invalid pointer field'' reader) (\<lambda>r.
         rbind (read_expect 32 ''invalid length field'' r) (\<lambda>r.
         rbind (read_value ReadEthBytes32 ''could not read eip-1559 params'' r) (\<lambda>(params, r).
         rbind (expect_end r) (\<lambda>_. Inr (dest\<lparr>EIP1559Params := ucast params\<rparr>)))))
       else if updateType = SystemConfigUpdateOperatorFeeParams then
         rbind (read_expect 32 ''invalid pointer field'' reader) (\<lambda>r.
         rbind (read_expect 32 ''invalid length field'' r) (\<lambda>r.
         rbind (read_value ReadEthBytes32 ''could not read operator fee params'' r) (\<lambda>(params, r).
         rbind (expect_end r) (\<lambda>_. Inr (dest\<lparr>OperatorFeeParams := params\<rparr>)))))
       else if updateType = SystemConfigUpdateUnsafeBlockSigner then Inr dest
       else Inl (PlainError ''unrecognized L1 sysCfg update type''))"

text \<open>The configuration is updated in place: the result is the list of errors (one \<^verbatim>\<open>multierror\<close>) and the configuration as it
  is left. \<open>logs_loop\<close> is the inner loop over the logs of one receipt.\<close>

fun logs_loop :: "Hash \<Rightarrow> Config \<Rightarrow> uint64 \<Rightarrow> L1Log list \<Rightarrow> derive_error list \<times> SystemConfig \<Rightarrow> derive_error list \<times> SystemConfig" where
  "logs_loop eventHash cfg l1time [] st = st"
| "logs_loop eventHash cfg l1time (ev # evs) (errs, sysCfg) =
    logs_loop eventHash cfg l1time evs
      (if logAddress ev = L1SystemConfigAddress cfg \<and> 0 < length (Topics ev) \<and> Topics ev ! 0 = eventHash then
         (case ProcessSystemConfigUpdateLogEvent eventHash cfg l1time ev sysCfg of
            Inl e \<Rightarrow> (errs @ [e], sysCfg)
          | Inr sysCfg \<Rightarrow> (errs, sysCfg))
       else (errs, sysCfg))"

fun UpdateSystemConfigWithL1Receipts :: "Hash \<Rightarrow> Config \<Rightarrow> uint64 \<Rightarrow> Receipt list \<Rightarrow> derive_error list \<times> SystemConfig \<Rightarrow>
    derive_error list \<times> SystemConfig" where
  "UpdateSystemConfigWithL1Receipts eventHash cfg l1time [] st = st"
| "UpdateSystemConfigWithL1Receipts eventHash cfg l1time (rec # recs) st =
    UpdateSystemConfigWithL1Receipts eventHash cfg l1time recs
      (if rStatus rec \<noteq> ReceiptStatusSuccessful then st else logs_loop eventHash cfg l1time (Logs rec) st)"

section \<open>Traversal and retrieval\<close>

record L1Traversal =
  tBlock :: L1BlockRef
  tDone :: bool
  tSysCfg :: SystemConfig
  tCfg :: Config

definition NextL1Block :: "L1Traversal \<Rightarrow> (derive_error + L1BlockRef) \<times> L1Traversal" where
  "NextL1Block t = (if \<not> tDone t then (Inr (tBlock t), t\<lparr>tDone := True\<rparr>) else (Inl IoEOF, t))"

definition AdvanceL1Block :: "Hash \<Rightarrow> (uint64 \<Rightarrow> fetch_error + L1BlockRef) \<Rightarrow> (Hash \<Rightarrow> fetch_error + Receipt list) \<Rightarrow> L1Traversal \<Rightarrow>
    derive_error option \<times> L1Traversal" where
  "AdvanceL1Block eventHash blockByNumber receiptsByHash t =
    (case blockByNumber (l1Number (tBlock t) + 1) of
       Inl NotFound \<Rightarrow> (Some IoEOF, t)
     | Inl (FetchFailed _) \<Rightarrow> (Some (TemporaryError ''failed to find L1 block info by number''), t)
     | Inr nextL1Origin \<Rightarrow>
        if l1Hash (tBlock t) \<noteq> l1ParentHash nextL1Origin then (Some (ResetError ''detected L1 reorg''), t)
        else case receiptsByHash (l1Hash nextL1Origin) of
          Inl _ \<Rightarrow> (Some (TemporaryError ''failed to fetch receipts of L1 block''), t)
        | Inr receipts \<Rightarrow>
           let (errs, sysCfg) = UpdateSystemConfigWithL1Receipts eventHash (tCfg t) (l1Time nextL1Origin) receipts ([], tSysCfg t);
               t = t\<lparr>tSysCfg := sysCfg\<rparr> in
           if errs \<noteq> [] then (Some (CriticalError ''failed to update L1 sysCfg with receipts''), t)
           else (None, t\<lparr>tBlock := nextL1Origin, tDone := False\<rparr>))"

definition L1Traversal_Reset :: "L1BlockRef \<Rightarrow> SystemConfig \<Rightarrow> L1Traversal \<Rightarrow> derive_error \<times> L1Traversal" where
  "L1Traversal_Reset base cfg t = (IoEOF, t\<lparr>tBlock := base, tDone := False, tSysCfg := cfg\<rparr>)"

record L1Retrieval =
  dataSrc :: DataSourceFactory
  datas :: "DataIter option"

definition NextData :: "(DataIter \<Rightarrow> L1BlockRef \<Rightarrow> (derive_error + bytes) \<times> DataIter) \<Rightarrow> (L1Tx \<Rightarrow> Address option) \<Rightarrow>
    (Hash \<Rightarrow> fetch_error + L1Tx list) \<Rightarrow> (L1BlockRef \<Rightarrow> IndexedBlobHash list \<Rightarrow> fetch_error + bytes option list) \<Rightarrow>
    L1Retrieval \<times> L1Traversal \<Rightarrow> (derive_error + bytes) \<times> L1Retrieval \<times> L1Traversal" where
  "NextData altNext sender txsByHash getBlobs st =
    (let (l1r, prev) = st in
     case (case datas l1r of
             Some it \<Rightarrow> (Inr it, prev)
           | None \<Rightarrow>
              (case NextL1Block prev of
                 (Inl e, prev) \<Rightarrow> (Inl e, prev)
               | (Inr next, prev) \<Rightarrow> (OpenData sender txsByHash (dataSrc l1r) next (BatcherAddr (tSysCfg prev)), prev))) of
       (Inl e, prev) \<Rightarrow> (Inl e, l1r, prev)
     | (Inr it, prev) \<Rightarrow>
        (case DataIter_Next altNext sender txsByHash getBlobs it of
           (Inl IoEOF, it) \<Rightarrow> (Inl IoEOF, l1r\<lparr>datas := None\<rparr>, prev)
         | (r, it) \<Rightarrow> (r, l1r\<lparr>datas := Some it\<rparr>, prev)))"

definition L1Retrieval_Reset :: "(L1Tx \<Rightarrow> Address option) \<Rightarrow> (Hash \<Rightarrow> fetch_error + L1Tx list) \<Rightarrow> L1BlockRef \<Rightarrow> SystemConfig \<Rightarrow> L1Retrieval \<Rightarrow>
    derive_error \<times> L1Retrieval" where
  "L1Retrieval_Reset sender txsByHash base sysCfg l1r =
    (case OpenData sender txsByHash (dataSrc l1r) base (BatcherAddr sysCfg) of
       Inl e \<Rightarrow> (e, l1r\<lparr>datas := None\<rparr>)
     | Inr it \<Rightarrow> (IoEOF, l1r\<lparr>datas := Some it\<rparr>))"

section \<open>Errors of the first stages\<close>

text \<open>A block whose data cannot be opened is skipped: the traversal has marked the block as consumed before the data source is opened,
  so when opening fails (the error is reported once) the next call reports the end of the block's data.\<close>

theorem open_failure_skips_block:
  assumes "datas l1r = None" and "\<not> tDone t"
    and "OpenData sender txsByHash (dataSrc l1r) (tBlock t) (BatcherAddr (tSysCfg t)) = Inl e"
  shows "\<exists>l1r' t'. NextData altNext sender txsByHash getBlobs (l1r, t) = (Inl e, l1r', t') \<and>
    NextData altNext sender txsByHash getBlobs (l1r', t') = (Inl IoEOF, l1r', t')"
  using assms by (simp add: NextData_def NextL1Block_def)

lemma read_full_append [simp]: "length a = n \<Longrightarrow> read_full n (a @ b) = Inr (a, b)"
  by (auto simp: read_full_def)

lemma ReadUint64_Write [simp]: "ReadUint64 (WriteUint64 n @ r) = Inr (n, r)"
  by (simp add: ReadUint64_def WriteUint64_def)

lemma ReadAddress_Write [simp]: "ReadAddress (WriteAddress a @ r) = Inr (a, r)"
  by (simp add: ReadAddress_def WriteAddress_def)

lemma ReadEthBytes32_Write [simp]: "ReadEthBytes32 (WriteEthBytes32 h @ r) = Inr (h, r)"
  by (simp add: ReadEthBytes32_def WriteEthBytes32_def)


datatype config_update =
    NewBatcher Address
  | NewFeeScalars Hash Hash
  | NewGasLimit uint64
  | NewEIP1559Params Hash
  | NewOperatorFeeParams Hash
  | NewUnsafeBlockSigner bytes

text \<open>The event with which the contract announces an update: the type of the update is its third topic, its data is the ABI encoding
  of a byte string that holds the ABI encoding of the values.\<close>

fun update_type :: "config_update \<Rightarrow> Hash" where
  "update_type (NewBatcher _) = SystemConfigUpdateBatcher"
| "update_type (NewFeeScalars _ _) = SystemConfigUpdateFeeScalars"
| "update_type (NewGasLimit _) = SystemConfigUpdateGasLimit"
| "update_type (NewEIP1559Params _) = SystemConfigUpdateEIP1559Params"
| "update_type (NewOperatorFeeParams _) = SystemConfigUpdateOperatorFeeParams"
| "update_type (NewUnsafeBlockSigner _) = SystemConfigUpdateUnsafeBlockSigner"

fun update_data :: "config_update \<Rightarrow> bytes" where
  "update_data (NewBatcher a) = WriteUint64 32 @ WriteUint64 32 @ WriteAddress a"
| "update_data (NewFeeScalars o' s) = WriteUint64 32 @ WriteUint64 64 @ WriteEthBytes32 o' @ WriteEthBytes32 s"
| "update_data (NewGasLimit g) = WriteUint64 32 @ WriteUint64 32 @ WriteUint64 g"
| "update_data (NewEIP1559Params p) = WriteUint64 32 @ WriteUint64 32 @ WriteEthBytes32 p"
| "update_data (NewOperatorFeeParams p) = WriteUint64 32 @ WriteUint64 32 @ WriteEthBytes32 p"
| "update_data (NewUnsafeBlockSigner d) = d"

definition update_log :: "Hash \<Rightarrow> Address \<Rightarrow> config_update \<Rightarrow> Hash \<Rightarrow> uint64 \<Rightarrow> L1Log" where
  "update_log eventHash a u blk idx = \<lparr>logAddress = a, Topics = [eventHash, ConfigUpdateEventVersion0, update_type u], logData = update_data u,
    logBlockHash = blk, logIndex = idx\<rparr>"

fun apply_update :: "Config \<Rightarrow> uint64 \<Rightarrow> config_update \<Rightarrow> SystemConfig \<Rightarrow> SystemConfig" where
  "apply_update cfg t (NewBatcher a) sc = sc\<lparr>BatcherAddr := a\<rparr>"
| "apply_update cfg t (NewFeeScalars o' s) sc =
    (if \<not> IsEcotone cfg t then sc\<lparr>Overhead := o', Scalar := s\<rparr>
     else if CheckEcotoneL1SystemConfigScalar s then sc\<lparr>Overhead := 0, Scalar := s\<rparr> else sc)"
| "apply_update cfg t (NewGasLimit g) sc = sc\<lparr>GasLimit := g\<rparr>"
| "apply_update cfg t (NewEIP1559Params p) sc = sc\<lparr>EIP1559Params := ucast p\<rparr>"
| "apply_update cfg t (NewOperatorFeeParams p) sc = sc\<lparr>OperatorFeeParams := p\<rparr>"
| "apply_update cfg t (NewUnsafeBlockSigner d) sc = sc"

lemma abi_read_last [simp]:
  "ReadUint64 (WriteUint64 n) = Inr (n, [])" "ReadAddress (WriteAddress a) = Inr (a, [])" "ReadEthBytes32 (WriteEthBytes32 h) = Inr (h, [])"
  using ReadUint64_Write [of n "[]"] ReadAddress_Write [of a "[]"] ReadEthBytes32_Write [of h "[]"] by simp_all

lemmas update_type_defs = SystemConfigUpdateBatcher_def SystemConfigUpdateFeeScalars_def SystemConfigUpdateGasLimit_def
  SystemConfigUpdateUnsafeBlockSigner_def SystemConfigUpdateEIP1559Params_def SystemConfigUpdateOperatorFeeParams_def

lemma process_update:
  "ProcessSystemConfigUpdateLogEvent eventHash cfg t (update_log eventHash a u blk idx) sc = Inr (apply_update cfg t u sc)"
  by (cases u) (simp_all add: ProcessSystemConfigUpdateLogEvent_def update_log_def update_type_defs read_expect_def read_value_def
      expect_end_def EmptyReader_def Let_def)

text \<open>A receipt as the contract and others left it: updates among logs that are none.\<close>

datatype log_item = Update config_update Hash uint64 | Other L1Log

fun item_log :: "Hash \<Rightarrow> Address \<Rightarrow> log_item \<Rightarrow> L1Log" where
  "item_log eventHash a (Update u blk idx) = update_log eventHash a u blk idx"
| "item_log eventHash a (Other l) = l"

fun foreign :: "Hash \<Rightarrow> Address \<Rightarrow> log_item \<Rightarrow> bool" where
  "foreign eventHash a (Update u blk idx) = True"
| "foreign eventHash a (Other l) = (logAddress l \<noteq> a \<or> Topics l = [] \<or> hd (Topics l) \<noteq> eventHash)"

fun updates_in :: "log_item list \<Rightarrow> config_update list" where
  "updates_in [] = []"
| "updates_in (Update u blk idx # is) = u # updates_in is"
| "updates_in (Other l # is) = updates_in is"

definition item_receipt :: "Hash \<Rightarrow> Address \<Rightarrow> uint64 \<times> log_item list \<Rightarrow> Receipt" where
  "item_receipt eventHash a r = \<lparr>rStatus = fst r, Logs = map (item_log eventHash a) (snd r)\<rparr>"

definition receipt_updates :: "(uint64 \<times> log_item list) list \<Rightarrow> config_update list" where
  "receipt_updates rs = concat (map (\<lambda>r. if fst r = ReceiptStatusSuccessful then updates_in (snd r) else []) rs)"

lemma logs_loop_updates:
  "list_all (foreign eventHash (L1SystemConfigAddress cfg)) is \<Longrightarrow>
   logs_loop eventHash cfg t (map (item_log eventHash (L1SystemConfigAddress cfg)) is) (errs, sc) =
     (errs, fold (apply_update cfg t) (updates_in is) sc)"
proof (induction "is" arbitrary: sc rule: updates_in.induct)
  case (3 l ls)
  then show ?case by (auto simp: hd_conv_nth)
qed (simp_all add: process_update, simp add: update_log_def)

lemma receipts_updates:
  "list_all (\<lambda>r. list_all (foreign eventHash (L1SystemConfigAddress cfg)) (snd r)) rs \<Longrightarrow>
   UpdateSystemConfigWithL1Receipts eventHash cfg t (map (item_receipt eventHash (L1SystemConfigAddress cfg)) rs) (errs, sc) =
     (errs, fold (apply_update cfg t) (receipt_updates rs) sc)"
  by (induction rs arbitrary: sc) (simp_all add: item_receipt_def receipt_updates_def logs_loop_updates)

text \<open>C14: The traversal follows the L1 chain and replays the system configuration: when the block after the current one is its child and its
  receipts hold any updates announced by the system configuration contract among logs of other contracts or events, then
  advancing succeeds, moves to that block, makes it available once, and applies exactly the updates of the
  successful receipts, in their order.\<close>

theorem traversal_replays_config:
  assumes "blockByNumber (l1Number (tBlock t) + 1) = Inr b" and "l1ParentHash b = l1Hash (tBlock t)"
    and "receiptsByHash (l1Hash b) = Inr (map (item_receipt eventHash (L1SystemConfigAddress (tCfg t))) rs)"
    and "list_all (\<lambda>r. list_all (foreign eventHash (L1SystemConfigAddress (tCfg t))) (snd r)) rs"
  shows "AdvanceL1Block eventHash blockByNumber receiptsByHash t =
      (None, t\<lparr>tBlock := b, tDone := False, tSysCfg := fold (apply_update (tCfg t) (l1Time b)) (receipt_updates rs) (tSysCfg t)\<rparr>)"
  using assms by (simp add: AdvanceL1Block_def receipts_updates Let_def)

definition sample_sysconfig :: SystemConfig where
  "sample_sysconfig = \<lparr>BatcherAddr = 77, Overhead = 0, Scalar = 0, GasLimit = 0, EIP1559Params = 0, OperatorFeeParams = 0, MarshalPreHolocene = True\<rparr>"

definition sample_traversal :: L1Traversal where
  "sample_traversal = \<lparr>tBlock = sample_ref, tDone = False, tSysCfg = sample_sysconfig, tCfg = sample_config 12 14\<rparr>"

lemma open_failure_skips_block_witness:
  "\<exists>l1r' t'. NextData (\<lambda>src ref. (Inl IoEOF, src)) (\<lambda>_. None) (\<lambda>_. Inl NotFound) (\<lambda>ref hs. Inl NotFound)
      (\<lparr>dataSrc = NewDataSourceFactory (sample_config 12 14) False, datas = None\<rparr>, sample_traversal) =
      (Inl (PlainError ''ecotone upgrade active but beacon endpoint not configured''), l1r', t') \<and>
    NextData (\<lambda>src ref. (Inl IoEOF, src)) (\<lambda>_. None) (\<lambda>_. Inl NotFound) (\<lambda>ref hs. Inl NotFound) (l1r', t') = (Inl IoEOF, l1r', t')"
  by (rule open_failure_skips_block)
    (simp_all add: sample_traversal_def sample_ref_def OpenData_def NewDataSourceFactory_def sample_config_def)

lemma traversal_replays_config_witness:
  "AdvanceL1Block 99 (\<lambda>_. Inr \<lparr>l1Hash = 6, l1Number = 8, l1ParentHash = 5, l1Time = 67\<rparr>)
      (\<lambda>_. Inr (map (item_receipt 99 11) [(1, [Update (NewBatcher 78) 6 0, Other \<lparr>logAddress = 3, Topics = [99], logData = [], logBlockHash = 6, logIndex = 1\<rparr>, Update (NewGasLimit 30) 6 2]),
          (0, [Update (NewBatcher 79) 6 3])])) sample_traversal =
    (None, sample_traversal\<lparr>tBlock := \<lparr>l1Hash = 6, l1Number = 8, l1ParentHash = 5, l1Time = 67\<rparr>, tDone := False,
       tSysCfg := sample_sysconfig\<lparr>BatcherAddr := 78, GasLimit := 30\<rparr>\<rparr>)"
proof -
  let ?rs = "[(1, [Update (NewBatcher 78) 6 0, Other \<lparr>logAddress = 3, Topics = [99], logData = [], logBlockHash = 6, logIndex = 1\<rparr>, Update (NewGasLimit 30) 6 2]), (0, [Update (NewBatcher 79) 6 3])]"
  have "receipt_updates ?rs = [NewBatcher 78, NewGasLimit 30]" by (simp add: receipt_updates_def ReceiptStatusSuccessful_def)
  moreover have "L1SystemConfigAddress (tCfg sample_traversal) = 11" "tSysCfg sample_traversal = sample_sysconfig" "l1Hash (tBlock sample_traversal) = 5"
    by (simp_all add: sample_traversal_def sample_config_def sample_ref_def)
  ultimately show ?thesis
    using traversal_replays_config [where t = sample_traversal and rs = ?rs and b = "\<lparr>l1Hash = 6, l1Number = 8, l1ParentHash = 5, l1Time = 67\<rparr>"
        and eventHash = 99 and blockByNumber = "\<lambda>_. Inr \<lparr>l1Hash = 6, l1Number = 8, l1ParentHash = 5, l1Time = 67\<rparr>"
        and receiptsByHash = "\<lambda>_. Inr (map (item_receipt 99 11) ?rs)"] by simp
qed


end
