(* ===== verification/DeriveEndToEnd.thy ===== *)
theory DeriveEndToEnd
  imports DeriveSource
begin

text \<open>
  The first half of the derivation pipeline as a whole: the retrieval stage is interpreted as a supply of batcher data for the frame queue, and a channel that
  the batcher cut into frames, packed into transactions and published in an L1 block comes out of the assembler.
\<close>

section \<open>What a block delivers\<close>

text \<open>The payloads of a block's batcher transactions: since Ecotone those of blob transactions are the blobs, found by their
  index in the block, that decode; everything else is calldata.\<close>

fun decodable :: "bytes list \<Rightarrow> bytes list" where
  "decodable [] = []"
| "decodable (b # bs) = (case ToData b of Inl _ \<Rightarrow> decodable bs | Inr data \<Rightarrow> data # decodable bs)"

fun blob_payloads :: "(L1Tx \<Rightarrow> Address option) \<Rightarrow> (nat \<Rightarrow> bytes) \<Rightarrow> Address \<Rightarrow> Address \<Rightarrow> nat \<Rightarrow> L1Tx list \<Rightarrow> bytes list" where
  "blob_payloads sender blobAt inbox batcher i [] = []"
| "blob_payloads sender blobAt inbox batcher i (tx # txs) =
    (if \<not> isValidBatchTx sender inbox batcher tx then blob_payloads sender blobAt inbox batcher (i + length (BlobHashes tx)) txs
     else if txType tx \<noteq> BlobTxType then txData tx # blob_payloads sender blobAt inbox batcher i txs
     else decodable (map blobAt [i..<i + length (BlobHashes tx)]) @ blob_payloads sender blobAt inbox batcher (i + length (BlobHashes tx)) txs)"

definition block_payloads :: "(L1Tx \<Rightarrow> Address option) \<Rightarrow> (nat \<Rightarrow> bytes) \<Rightarrow> Config \<Rightarrow> L1BlockRef \<Rightarrow> Address \<Rightarrow> L1Tx list \<Rightarrow> bytes list" where
  "block_payloads sender blobAt cfg ref batcher txs =
    (if IsEcotone cfg (l1Time ref) then blob_payloads sender blobAt (BatchInboxAddress cfg) batcher 0 txs
     else map txData (filter (isValidBatchTx sender (BatchInboxAddress cfg) batcher) txs))"

lemma DataFromEVMTransactions_eq:
  "DataFromEVMTransactions sender dsCfg batcher txs = map txData (filter (isValidBatchTx sender (dsInbox dsCfg) batcher) txs)"
  by (induction txs) auto

text \<open>The items of a filled blob list.\<close>

definition filled :: "blobOrCalldata list \<Rightarrow> bool" where
  "filled d \<longleftrightarrow> list_all (\<lambda>x. bcCalldata x \<noteq> None \<or> bcBlob x \<noteq> None) d"

fun blob_items :: "blobOrCalldata list \<Rightarrow> bytes list" where
  "blob_items [] = []"
| "blob_items (x # xs) =
    (case bcCalldata x of
       Some c \<Rightarrow> c # blob_items xs
     | None \<Rightarrow> decodable [the (bcBlob x)] @ blob_items xs)"

lemma next_blob_items:
  "filled d \<Longrightarrow>
    (case blob_items d of
       [] \<Rightarrow> fst (next_blob d) = Inl IoEOF
     | x # xs \<Rightarrow> \<exists>rest. next_blob d = (Inr x, rest) \<and> filled rest \<and> blob_items rest = xs)"
proof (induction d rule: next_blob.induct)
  case (2 x rest)
  then show ?case
    by (cases "bcCalldata x"; cases "bcBlob x"; cases "ToData (the (bcBlob x))")
      (auto simp: filled_def split: list.splits)
qed simp

text \<open>\<^verbatim>\<open>GetBlobs\<close> returns the blobs of the given hashes, in their order.\<close>

definition serves_blobs :: "(L1BlockRef \<Rightarrow> IndexedBlobHash list \<Rightarrow> fetch_error + bytes option list) \<Rightarrow> L1BlockRef \<Rightarrow> (nat \<Rightarrow> bytes) \<Rightarrow> bool" where
  "serves_blobs getBlobs ref blobAt \<longleftrightarrow> (\<forall>hs. getBlobs ref hs = Inr (map (\<lambda>h. Some (blobAt (unat (ibIndex h)))) hs))"

definition holder :: blobOrCalldata where "holder = \<lparr>bcBlob = None, bcCalldata = None\<rparr>"

fun indexed :: "nat \<Rightarrow> Hash list \<Rightarrow> IndexedBlobHash list" where
  "indexed i [] = []"
| "indexed i (h # hs) = \<lparr>ibIndex = of_nat i, ibHash = h\<rparr> # indexed (Suc i) hs"

lemma hash_loop_eq:
  "hash_loop hs i data hashes = (data @ replicate (length hs) holder, hashes @ indexed i hs, i + length hs)"
  by (induction hs i data hashes rule: hash_loop.induct) (simp_all add: holder_def)

text \<open>The placeholders and hashes that the transactions of a block contribute.\<close>

fun plan :: "(L1Tx \<Rightarrow> Address option) \<Rightarrow> Address \<Rightarrow> Address \<Rightarrow> nat \<Rightarrow> L1Tx list \<Rightarrow> blobOrCalldata list \<times> IndexedBlobHash list" where
  "plan sender inbox batcher i [] = ([], [])"
| "plan sender inbox batcher i (tx # txs) =
    (if \<not> isValidBatchTx sender inbox batcher tx then plan sender inbox batcher (i + length (BlobHashes tx)) txs
     else if txType tx \<noteq> BlobTxType then
       let (d, h) = plan sender inbox batcher i txs in (\<lparr>bcBlob = None, bcCalldata = Some (txData tx)\<rparr> # d, h)
     else
       let (d, h) = plan sender inbox batcher (i + length (BlobHashes tx)) txs
       in (replicate (length (BlobHashes tx)) holder @ d, indexed i (BlobHashes tx) @ h))"

lemma txs_loop_plan:
  "txs_loop sender cfg batcher txs i data hashes =
    (data @ fst (plan sender (dsInbox cfg) batcher i txs), hashes @ snd (plan sender (dsInbox cfg) batcher i txs))"
  by (induction sender cfg batcher txs i data hashes rule: txs_loop.induct) (auto simp: hash_loop_eq Let_def case_prod_beta')

lemma rbind_Inr [simp]: "rbind m Inr = m"
  by (cases m) simp_all

lemma fill_holders:
  "length bs = n \<Longrightarrow> fillBlobPointers (replicate n holder @ ds) (map Some bs @ rest) =
    rbind (fillBlobPointers ds rest) (\<lambda>ds. Inr (map (\<lambda>b. holder\<lparr>bcBlob := Some b\<rparr>) bs @ ds))"
proof (induction n arbitrary: bs)
  case (Suc n)
  then obtain b bs' where b: "bs = b # bs'" "length bs' = n" by (cases bs) auto
  have h: "bcCalldata holder = None" by (simp add: holder_def)
  show ?case using Suc.IH [OF b(2)] by (simp add: b(1) h) (simp add: rbind_assoc)
qed simp

lemma indexed_blobs:
  "i + length hs \<le> 2 ^ 64 \<Longrightarrow> map (\<lambda>h. Some (blobAt (unat (ibIndex h)))) (indexed i hs) = map Some (map blobAt [i..<i + length hs])"
proof (induction hs arbitrary: i)
  case (Cons h hs)
  then have "unat (of_nat i :: uint64) = i" by (intro unat_of_nat_lt) simp
  moreover have "[i..<i + length (h # hs)] = i # [Suc i..<Suc i + length hs]" by (simp add: upt_conv_Cons del: upt_Suc)
  ultimately show ?case using Cons by (simp del: upt_Suc)
qed simp

lemma blob_items_append: "blob_items (xs @ ys) = blob_items xs @ blob_items ys"
  by (induction xs) (auto split: option.splits)

lemma blob_items_blobs: "blob_items (map (\<lambda>b. holder\<lparr>bcBlob := Some b\<rparr>) bs) = decodable bs"
  by (induction bs) (auto simp: holder_def split: sum.splits)

lemma fill_plan:
  "i + sum_list (map (length \<circ> BlobHashes) txs) \<le> 2 ^ 64 \<Longrightarrow>
   \<exists>F. fillBlobPointers (fst (plan sender inbox batcher i txs)) (map (\<lambda>h. Some (blobAt (unat (ibIndex h)))) (snd (plan sender inbox batcher i txs))) = Inr F \<and>
     filled F \<and> blob_items F = blob_payloads sender blobAt inbox batcher i txs"
proof (induction txs arbitrary: i)
  case (Cons tx txs)
  let ?p = "plan sender inbox batcher" and ?b = "map (\<lambda>h. Some (blobAt (unat (ibIndex h))))"
  let ?n = "length (BlobHashes tx)"
  have le: "i + ?n + sum_list (map (length \<circ> BlobHashes) txs) \<le> 2 ^ 64" "i + sum_list (map (length \<circ> BlobHashes) txs) \<le> 2 ^ 64"
    "i + ?n \<le> 2 ^ 64" using Cons.prems by (simp_all add: comp_def)
  obtain F1 where F1: "fillBlobPointers (fst (?p (i + ?n) txs)) (?b (snd (?p (i + ?n) txs))) = Inr F1" "filled F1"
    "blob_items F1 = blob_payloads sender blobAt inbox batcher (i + ?n) txs" using Cons.IH [OF le(1)] by blast
  obtain F2 where F2: "fillBlobPointers (fst (?p i txs)) (?b (snd (?p i txs))) = Inr F2" "filled F2"
    "blob_items F2 = blob_payloads sender blobAt inbox batcher i txs" using Cons.IH [OF le(2)] by blast
  consider "\<not> isValidBatchTx sender inbox batcher tx" | "isValidBatchTx sender inbox batcher tx" "txType tx \<noteq> BlobTxType"
    | "isValidBatchTx sender inbox batcher tx" "txType tx = BlobTxType" by blast
  then show ?case
  proof cases
    case 1
    then show ?thesis using F1 by simp
  next
    case 2
    then show ?thesis using F2 by (simp add: Let_def case_prod_beta' filled_def)
  next
    case 3
    define F where "F = map (\<lambda>b. holder\<lparr>bcBlob := Some b\<rparr>) (map blobAt [i..<i + ?n]) @ F1"
    have "fillBlobPointers (replicate ?n holder @ fst (?p (i + ?n) txs)) (?b (indexed i (BlobHashes tx)) @ ?b (snd (?p (i + ?n) txs))) = Inr F"
      unfolding indexed_blobs [OF le(3)] F_def using fill_holders [of "map blobAt [i..<i + ?n]" ?n] F1(1) by simp
    moreover have "filled F" using F1(2) by (auto simp: filled_def list_all_iff F_def)
    moreover have "blob_items F = decodable (map blobAt [i..<i + ?n]) @ blob_payloads sender blobAt inbox batcher (i + ?n) txs"
      unfolding F_def blob_items_append blob_items_blobs F1(3) ..
    ultimately show ?thesis using 3 by (simp add: Let_def case_prod_beta')
  qed
qed (simp add: filled_def)


section \<open>The retrieval stage as a supply of batcher data\<close>

definition iter_items :: "(L1Tx \<Rightarrow> Address option) \<Rightarrow> (Hash \<Rightarrow> fetch_error + L1Tx list) \<Rightarrow>
    (L1BlockRef \<Rightarrow> IndexedBlobHash list \<Rightarrow> fetch_error + bytes option list) \<Rightarrow> DataIter \<Rightarrow> bytes list option" where
  "iter_items sender txsByHash getBlobs it =
    (case it of
       CalldataIter ds \<Rightarrow>
         if csOpen ds then Some (csData ds)
         else (case txsByHash (l1Hash (csRef ds)) of
                 Inl _ \<Rightarrow> None
               | Inr txs \<Rightarrow> Some (DataFromEVMTransactions sender (csCfg ds) (csBatcher ds) txs))
     | BlobIter ds \<Rightarrow>
         (case (case bsData ds of Some d \<Rightarrow> Inr d | None \<Rightarrow> BlobDataSource_open sender txsByHash getBlobs ds) of
            Inl _ \<Rightarrow> None
          | Inr d \<Rightarrow> if filled d then Some (blob_items d) else None)
     | AltDAIter _ _ \<Rightarrow> None)"

definition block_items :: "(L1Tx \<Rightarrow> Address option) \<Rightarrow> (Hash \<Rightarrow> fetch_error + L1Tx list) \<Rightarrow>
    (L1BlockRef \<Rightarrow> IndexedBlobHash list \<Rightarrow> fetch_error + bytes option list) \<Rightarrow> L1Retrieval \<times> L1Traversal \<Rightarrow> bytes list option" where
  "block_items sender txsByHash getBlobs st =
    (case datas (fst st) of
       Some it \<Rightarrow> iter_items sender txsByHash getBlobs it
     | None \<Rightarrow>
        if tDone (snd st) then Some []
        else (case OpenData sender txsByHash (dataSrc (fst st)) (tBlock (snd st)) (BatcherAddr (tSysCfg (snd st))) of
                Inl _ \<Rightarrow> None
              | Inr it \<Rightarrow> iter_items sender txsByHash getBlobs it))"

lemma DataIter_Next_items:
  assumes "iter_items sender txsByHash getBlobs it = Some items"
  shows "case items of
      [] \<Rightarrow> fst (DataIter_Next altNext sender txsByHash getBlobs it) = Inl IoEOF
    | x # xs \<Rightarrow> \<exists>it'. DataIter_Next altNext sender txsByHash getBlobs it = (Inr x, it') \<and> iter_items sender txsByHash getBlobs it' = Some xs"
proof (cases it)
  case (CalldataIter ds)
  then show ?thesis using assms
    by (cases "csOpen ds"; cases "txsByHash (l1Hash (csRef ds))"; cases items)
      (auto simp: iter_items_def DataIter_Next_def CalldataSource_Next_def)
next
  case (BlobIter ds)
  define dr where "dr = (case bsData ds of Some d \<Rightarrow> Inr d | None \<Rightarrow> BlobDataSource_open sender txsByHash getBlobs ds)"
  obtain d where d: "dr = Inr d" "filled d" "items = blob_items d"
    using assms BlobIter by (auto simp: iter_items_def dr_def [symmetric] split: sum.splits if_splits)
  have e: "DataIter_Next altNext sender txsByHash getBlobs it =
      (let (r, rest) = next_blob d in (r, BlobIter (ds\<lparr>bsData := Some rest\<rparr>)))"
    using d(1) BlobIter by (simp add: DataIter_Next_def BlobDataSource_Next_def dr_def [symmetric] case_prod_beta' Let_def)
  show ?thesis
    using next_blob_items [OF d(2)] unfolding e d(3)
    by (auto simp: iter_items_def case_prod_beta' Let_def split: list.splits)
next
  case (AltDAIter src ref)
  then show ?thesis using assms by (simp add: iter_items_def)
qed

interpretation retrieval: tx_supply "NextData altNext sender txsByHash getBlobs" "tBlock \<circ> snd"
    "\<lambda>st. block_items sender txsByHash getBlobs st \<noteq> None" "\<lambda>st. the (block_items sender txsByHash getBlobs st)"
  for altNext sender txsByHash getBlobs
proof (unfold_locales, goal_cases)
  case (1 st x xs)
  obtain l1r t where st: "st = (l1r, t)" by (cases st)
  show ?case
  proof (cases "datas l1r")
    case None
    then obtain it where it: "\<not> tDone t" "OpenData sender txsByHash (dataSrc l1r) (tBlock t) (BatcherAddr (tSysCfg t)) = Inr it"
      "iter_items sender txsByHash getBlobs it = Some (x # xs)"
      using 1 by (auto simp: st block_items_def split: if_splits sum.splits)
    obtain it' where "DataIter_Next altNext sender txsByHash getBlobs it = (Inr x, it')" "iter_items sender txsByHash getBlobs it' = Some xs"
      using DataIter_Next_items [OF it(3), of altNext] by auto
    then show ?thesis
      using None it(1,2) by (intro exI [of _ "(l1r\<lparr>datas := Some it'\<rparr>, t\<lparr>tDone := True\<rparr>)"])
        (simp add: st NextData_def NextL1Block_def block_items_def)
  next
    case (Some it)
    then have "iter_items sender txsByHash getBlobs it = Some (x # xs)" using 1 by (auto simp: st block_items_def)
    then obtain it' where "DataIter_Next altNext sender txsByHash getBlobs it = (Inr x, it')" "iter_items sender txsByHash getBlobs it' = Some xs"
      using DataIter_Next_items [of sender txsByHash getBlobs it "x # xs" altNext] by auto
    then show ?thesis
      using Some by (intro exI [of _ "(l1r\<lparr>datas := Some it'\<rparr>, t)"]) (simp add: st NextData_def block_items_def)
  qed
next
  case (2 st)
  obtain l1r t where st: "st = (l1r, t)" by (cases st)
  show ?case
  proof (cases "datas l1r")
    case None
    show ?thesis
    proof (cases "tDone t")
      case True
      then show ?thesis using None by (simp add: st NextData_def NextL1Block_def)
    next
      case False
      then obtain it where it: "OpenData sender txsByHash (dataSrc l1r) (tBlock t) (BatcherAddr (tSysCfg t)) = Inr it"
        "iter_items sender txsByHash getBlobs it = Some []"
        using None 2 by (auto simp: st block_items_def split: if_splits sum.splits)
      show ?thesis
        using None False it(1) DataIter_Next_items [OF it(2), of altNext]
        by (cases "DataIter_Next altNext sender txsByHash getBlobs it") (auto simp: st NextData_def NextL1Block_def)
    qed
  next
    case (Some it)
    then have "iter_items sender txsByHash getBlobs it = Some []" using 2 by (auto simp: st block_items_def)
    from DataIter_Next_items [OF this, of altNext] show ?thesis
      using Some by (cases "DataIter_Next altNext sender txsByHash getBlobs it") (auto simp: st NextData_def)
  qed
qed

lemma fill_none: "fillBlobPointers d [] = Inr F \<Longrightarrow> F = d"
  by (induction d arbitrary: F) (auto simp: rbind_Inr_iff split: if_splits)

lemma block_items_fresh:
  assumes "datas l1r = None" and "\<not> tDone t" and "dataSrc l1r = NewDataSourceFactory cfg True" and "cAltDAConfig cfg = None"
    and "txsByHash (l1Hash (tBlock t)) = Inr txs" and "serves_blobs getBlobs (tBlock t) blobAt"
    and "sum_list (map (length \<circ> BlobHashes) txs) \<le> 2 ^ 64"
  shows "block_items sender txsByHash getBlobs (l1r, t) = Some (block_payloads sender blobAt cfg (tBlock t) (BatcherAddr (tSysCfg t)) txs)"
proof (cases "IsEcotone cfg (l1Time (tBlock t))")
  case False
  then show ?thesis
    using assms by (simp add: block_items_def OpenData_def NewDataSourceFactory_def AltDAEnabled_def IsEcotone_def active_at_def
        iter_items_def NewCalldataSource_def block_payloads_def DataFromEVMTransactions_eq split: option.splits)
next
  case True
  let ?b = "BatcherAddr (tSysCfg t)" and ?i = "BatchInboxAddress cfg"
  let ?p = "plan sender ?i ?b 0 txs"
  let ?src = "NewBlobDataSource (dfCfg (NewDataSourceFactory cfg True)) (tBlock t) ?b"
  obtain F where F: "fillBlobPointers (fst ?p) (map (\<lambda>h. Some (blobAt (unat (ibIndex h)))) (snd ?p)) = Inr F" "filled F"
    "blob_items F = blob_payloads sender blobAt ?i ?b 0 txs"
    using fill_plan [of 0 txs sender ?i ?b blobAt] assms(7) by auto
  have "BlobDataSource_open sender txsByHash getBlobs ?src = Inr F"
  proof -
    obtain D H where p: "?p = (D, H)" by (cases ?p)
    show ?thesis
      using assms(5,6) F(1) fill_none [of D F]
      by (cases "H = []") (simp_all add: BlobDataSource_open_def NewBlobDataSource_def dataAndHashesFromTxs_def txs_loop_plan NewDataSourceFactory_def
          serves_blobs_def p)
  qed
  then have "iter_items sender txsByHash getBlobs (BlobIter ?src) = Some (blob_payloads sender blobAt ?i ?b 0 txs)"
    using F(2,3) by (simp add: iter_items_def NewBlobDataSource_def)
  moreover have "OpenData sender txsByHash (dataSrc l1r) (tBlock t) ?b = Inr (BlobIter ?src)"
    using True assms(3,4) by (simp add: OpenData_def NewDataSourceFactory_def AltDAEnabled_def IsEcotone_def active_at_def split: option.splits)
  ultimately show ?thesis using assms(1,2) True by (simp add: block_items_def block_payloads_def)
qed

section \<open>From the batcher's frames to the channel\<close>

lemma unat_total_size:
  "sum_list (map (\<lambda>f. length (fData f) + 200) fs) < 2 ^ 64 \<Longrightarrow> unat (total_size fs) = sum_list (map (\<lambda>f. length (fData f) + 200) fs)"
proof -
  assume less: "sum_list (map (\<lambda>f. length (fData f) + 200) fs) < 2 ^ 64"
  define N where "N = sum_list (map (\<lambda>f. length (fData f) + 200) fs)"
  have "total_size fs = of_nat N"
    unfolding N_def by (induction fs) (simp_all add: total_size_def frameSize_def frameOverhead_def)
  moreover have "unat (of_nat N :: uint64) = N" by (rule unat_of_nat_lt) (use less in \<open>simp add: N_def\<close>)
  ultimately show ?thesis unfolding N_def [symmetric] by simp
qed

definition payload_size :: "bytes list \<Rightarrow> nat" where
  "payload_size ds = sum_list (map (\<lambda>d. length d + 200) ds)"

lemma chunk_take_size:
  assumes "payload_size ds \<le> unat m"
  shows "\<not> m < total_size (take k (chunk_frames cid ds))"
proof -
  have e: "map (\<lambda>f. length (fData f) + 200) (chunk_frames cid ds) = map (\<lambda>d. length d + 200) ds"
    by (rule nth_equalityI) (auto simp: chunk_frames_def)
  have "sum_list (map (\<lambda>f. length (fData f) + 200) (take k (chunk_frames cid ds))) \<le> payload_size ds"
    unfolding payload_size_def e [symmetric]
    by (subst (2) append_take_drop_id [of k, symmetric]) (simp only: map_append sum_list_append le_add1)
  moreover have "unat m < 2 ^ 64" using unsigned_less [where 'a = nat, of m] by simp
  ultimately show ?thesis using assms unat_total_size [of "take k (chunk_frames cid ds)"] by (simp add: word_less_nat_alt)
qed

lemma assemble_chunks:
  assumes "length ds \<le> 65536" and "payload_size ds \<le> unat m" and "k < length ds"
  shows "assemble_all m (drop k (chunk_frames cid ds)) (if k = 0 then None else Some (take k (chunk_frames cid ds))) =
    Some (chunk_frames cid ds, [])"
  using assms(3)
proof (induction "length ds - Suc k" arbitrary: k rule: less_induct)
  case less
  let ?fs = "chunk_frames cid ds" and ?f = "chunk_frame cid ds k"
  have len: "length ?fs = length ds" by (simp add: chunk_frames_def)
  have nth: "?fs ! k = ?f" using less.prems by (simp add: chunk_frames_def)
  have d: "drop k ?fs = ?f # drop (Suc k) ?fs" using Cons_nth_drop_Suc [of k ?fs] less.prems len nth by simp
  have t: "take (Suc k) ?fs = take k ?fs @ [?f]" using take_Suc_conv_app_nth [of k ?fs] less.prems len nth by simp
  have k: "k < 65536" "unat (of_nat k :: uint16) = k" using less.prems assms(1) by (simp_all add: unat_of_nat_lt)
  have z: "(of_nat k :: uint16) = 0 \<longleftrightarrow> k = 0" unfolding unat_eq_0 [symmetric] k(2) ..
  have hd: "fID (hd (take k ?fs)) = cid" if "0 < k" using that less.prems by (cases ds) (auto simp: chunk_frames_def upt_conv_Cons simp del: upt_Suc)
  have a: "assemble m ?f (if k = 0 then None else Some (take k ?fs)) = (Suc k = length ds, Some (take (Suc k) ?fs))"
    using chunk_take_size [OF assms(2), of "Suc k" cid] k(2) z hd len less.prems by (auto simp: assemble_def t)
  show ?case
  proof (cases "Suc k = length ds")
    case True
    then show ?thesis unfolding d using a len by (simp del: take_Suc_conv_app_nth)
  next
    case False
    then show ?thesis unfolding d using a less.hyps [of "Suc k"] less.prems by simp
  qed
qed


lemma chunks_ordered:
  assumes "length ds \<le> 65536" and "xs @ ys @ zs = chunk_frames cid ds"
  shows "ordered_frames ys"
proof -
  have "follows (ys ! j) (ys ! Suc j)" if "Suc j < length ys" for j
  proof -
    let ?k = "length xs + j"
    have len: "length xs + length ys + length zs = length ds" using arg_cong [OF assms(2), of length] by (simp add: chunk_frames_def)
    have "ys ! i = chunk_frames cid ds ! (length xs + i)" if "i < length ys" for i
      unfolding assms(2) [symmetric] using that by (simp add: nth_append)
    then have "ys ! j = chunk_frame cid ds ?k" "ys ! Suc j = chunk_frame cid ds (Suc ?k)"
      using that len by (simp_all add: chunk_frames_def)
    then show ?thesis using that len by (simp add: follows_def add.commute)
  qed
  then show ?thesis by (simp add: ordered_iff ordered_upto_def)
qed

definition payload :: "Frame list \<Rightarrow> bytes" where
  "payload fs = DerivationVersion0 # concat (map MarshalBinary fs)"

lemma payload_frames:
  assumes "length ds \<le> 65536" and "xs @ ys @ zs = chunk_frames cid ds" and "ys \<noteq> []" and "length cid = 16"
    and "list_all (\<lambda>d. length d \<le> 1000000) ds"
  shows "ParseFrames (payload ys) = Inr ys \<and> tx_frames cfg o1 (payload ys) = ys"
proof -
  have "valid_frame f" if "f \<in> set ys" for f
  proof -
    have "f \<in> set (chunk_frames cid ds)" using that assms(2) by (metis Un_iff set_append)
    then show ?thesis using assms(4,5) by (auto simp: chunk_frames_def valid_frame_def list_all_length)
  qed
  then have "ParseFrames (payload ys) = Inr ys"
    using assms(3) by (simp add: ParseFrames_iff payload_def DerivationVersion0_def list_all_iff)
  then show ?thesis using prune_spec [of ys] chunks_ordered [OF assms(1,2)] by (simp add: tx_frames_def)
qed

lemma payloads_frames:
  assumes "length ds \<le> 65536" and "length cid = 16" and "list_all (\<lambda>d. length d \<le> 1000000) ds"
    and "xs @ concat parts = chunk_frames cid ds" and "[] \<notin> set parts"
  shows "list_all (\<lambda>d. is_ok (ParseFrames d)) (map payload parts) \<and> concat (map (tx_frames cfg o1) (map payload parts)) = concat parts"
  using assms(4,5)
proof (induction parts arbitrary: xs)
  case (Cons p parts)
  have "ParseFrames (payload p) = Inr p \<and> tx_frames cfg o1 (payload p) = p"
    using payload_frames [OF assms(1) _ _ assms(2,3), of xs p "concat parts"] Cons.prems by auto
  moreover have "list_all (\<lambda>d. is_ok (ParseFrames d)) (map payload parts) \<and> concat (map (tx_frames cfg o1) (map payload parts)) = concat parts"
    using Cons.IH [of "xs @ p"] Cons.prems by simp
  ultimately show ?case by simp
qed simp

text \<open>C2: Derivation recovers what the batcher submitted. Let a channel of at most 65536 frames (of at most a megabyte each,
  within the size limit) be cut into batcher transactions in any way, and let an L1 block contain these payloads, in order, as the
  calldata of the batcher's transactions or, since Ecotone, in calldata and blobs, among any other transactions. Then one call of the
  assembler's \<^verbatim>\<open>NextRawChannel\<close> on top of the frame queue, the retrieval and the traversal stage at that block terminates and returns
  exactly the concatenated data of the channel.\<close>

theorem channel_end_to_end:
  assumes "ds \<noteq> []" and "length ds \<le> 65536" and "length cid = 16" and "list_all (\<lambda>d. length d \<le> 1000000) ds"
    and "payload_size ds \<le> unat (MaxRLPBytesPerChannel (NewChainSpec cfg) (l1Time (tBlock t)))"
    and "concat parts = chunk_frames cid ds" and "[] \<notin> set parts"
    and "datas l1r = None" and "\<not> tDone t" and "dataSrc l1r = NewDataSourceFactory cfg True" and "cAltDAConfig cfg = None"
    and "txsByHash (l1Hash (tBlock t)) = Inr txs" and "serves_blobs getBlobs (tBlock t) blobAt"
    and "sum_list (map (length \<circ> BlobHashes) txs) \<le> 2 ^ 64"
    and "block_payloads sender blobAt cfg (tBlock t) (BatcherAddr (tSysCfg t)) txs = map payload parts"
  shows "\<exists>ca' st'. ChannelAssembler_NextRawChannel (NextFrame (NextData altNext sender txsByHash getBlobs) (tBlock \<circ> snd)) ((tBlock \<circ> snd) \<circ> snd)
      (NewChannelAssembler (NewChainSpec cfg), NewFrameQueue cfg, l1r, t) = Some (Inr (concat ds), ca', st')"
proof -
  let ?ca = "NewChannelAssembler (NewChainSpec cfg)" and ?p = "(NewFrameQueue cfg, l1r, t)"
  let ?ok = "\<lambda>st. block_items sender txsByHash getBlobs st \<noteq> None" and ?items = "\<lambda>st. the (block_items sender txsByHash getBlobs st)"
  have items: "block_items sender txsByHash getBlobs (l1r, t) = Some (map payload parts)"
    using block_items_fresh [where txsByHash = txsByHash and sender = sender, OF assms(8,9,10,11,12,13,14)] assms(15) by simp
  have f: "list_all (\<lambda>d. is_ok (ParseFrames d)) (map payload parts) \<and>
      concat (map (tx_frames cfg (tBlock t)) (map payload parts)) = concat parts"
    using payloads_frames [OF assms(2-4), of "[]" parts] assms(6,7) by simp
  have ok: "queue_ok ?ok ?items ?p" using f items by (simp add: queue_ok_def)
  have pend: "queue_pending (tBlock \<circ> snd) ?items ?p = chunk_frames cid ds"
    using f items assms(6) by (simp add: queue_pending_def NewFrameQueue_def)
  have all: "assemble_all (MaxRLPBytesPerChannel (caSpec ?ca) (l1Time (((tBlock \<circ> snd) \<circ> snd) ?p))) (queue_pending (tBlock \<circ> snd) ?items ?p) None =
      Some (chunk_frames cid ds, [])"
    unfolding pend using assemble_chunks [OF assms(2,5), of 0 cid] assms(1) by (simp add: NewChannelAssembler_def)
  have "concat (map fData (chunk_frames cid ds)) = concat ds"
    by (rule arg_cong [where f = concat], rule nth_equalityI) (auto simp: chunk_frames_def)
  then show ?thesis
    using retrieval.queue.NextRawChannel_complete [where altNext = altNext, OF ok _ all]
    unfolding NewChannelAssembler_def by fastforce
qed

definition sample_batcher :: "L1Tx \<Rightarrow> Address option" where "sample_batcher tx = Some 77"

definition sample_txs :: "L1Tx list" where
  "sample_txs =
    (let fs = chunk_frames sample_cid sample_chunks in
     [\<lparr>txType = 2, txTo = Some 9, txData = payload (take 2 fs), BlobHashes = [], txSignature = []\<rparr>,
      \<lparr>txType = 2, txTo = Some 1, txData = [7], BlobHashes = [], txSignature = []\<rparr>,
      \<lparr>txType = 2, txTo = Some 9, txData = payload (drop 2 fs), BlobHashes = [], txSignature = []\<rparr>])"

lemma channel_end_to_end_witness:
  "\<exists>ca' st'. ChannelAssembler_NextRawChannel
      (NextFrame (NextData (\<lambda>src ref. (Inl IoEOF, src)) sample_batcher (\<lambda>_. Inr sample_txs) (\<lambda>ref hs. Inr (map (\<lambda>_. Some []) hs))) (tBlock \<circ> snd))
      ((tBlock \<circ> snd) \<circ> snd)
      (NewChannelAssembler (NewChainSpec (sample_config 12 14)), NewFrameQueue (sample_config 12 14),
       \<lparr>dataSrc = NewDataSourceFactory (sample_config 12 14) True, datas = None\<rparr>,
       sample_traversal) = Some (Inr [1, 2, 3, 4, 5], ca', st')"
proof -
  have c: "concat [take 2 (chunk_frames sample_cid sample_chunks), drop 2 (chunk_frames sample_cid sample_chunks)] = chunk_frames sample_cid sample_chunks"
    "[] \<notin> set [take 2 (chunk_frames sample_cid sample_chunks), drop 2 (chunk_frames sample_cid sample_chunks)]"
    by code_simp+
  have p: "block_payloads sample_batcher (\<lambda>_. []) (sample_config 12 14) sample_ref 77 sample_txs =
      map payload [take 2 (chunk_frames sample_cid sample_chunks), drop 2 (chunk_frames sample_cid sample_chunks)]" by code_simp
  have s: "payload_size sample_chunks \<le> unat (MaxRLPBytesPerChannel (NewChainSpec (sample_config 12 14)) (l1Time sample_ref))"
    by (simp add: payload_size_def sample_chunks_def MaxRLPBytesPerChannel_def maxRLPBytesPerChannelFjord_def maxRLPBytesPerChannelBedrock_def)
  have "concat sample_chunks = [1, 2, 3, 4, 5]" by code_simp
  moreover have "sample_chunks \<noteq> []" "length sample_chunks \<le> 65536" "length sample_cid = 16" "list_all (\<lambda>d. length d \<le> 1000000) sample_chunks"
    "cAltDAConfig (sample_config 12 14) = None" "sum_list (map (length \<circ> BlobHashes) sample_txs) \<le> 2 ^ 64"
    by (simp_all add: sample_chunks_def sample_cid_def sample_config_def sample_txs_def Let_def)
  moreover have "serves_blobs (\<lambda>ref hs. Inr (map (\<lambda>_. Some []) hs)) sample_ref (\<lambda>_. [])" by (simp add: serves_blobs_def)
  moreover have "tBlock sample_traversal = sample_ref" "\<not> tDone sample_traversal" "BatcherAddr (tSysCfg sample_traversal) = 77"
    by (simp_all add: sample_traversal_def sample_sysconfig_def)
  ultimately show ?thesis
    using channel_end_to_end [OF _ _ _ _ _ c, where txs = sample_txs and blobAt = "\<lambda>_. []" and sender = sample_batcher and t = sample_traversal] s p by simp
qed

end
