(* ===== verification/L1Info.thy ===== *)
theory L1Info
  imports DeriveSource
begin

text \<open>
  The L1 attributes (\<^verbatim>\<open>op-node/rollup/derive/{l1_block_info,deposit_source,payload_util,l2block_util}.go\<close>, the scalars of
  \<^verbatim>\<open>op-service/eth/types.go\<close>, the writers of \<^verbatim>\<open>op-service/solabi/util.go\<close>): the deposit that starts every L2 block, in its three
  binary formats, and the L2 block reference and system configuration read back from it. Keccak is a parameter, as are
  the transaction codec of go-ethereum and the accessors of its block headers.
\<close>

section \<open>ABI writers\<close>

type_synonym keccak = "bytes \<Rightarrow> Hash"

definition ascii :: "string \<Rightarrow> bytes" where "ascii s = map of_char s"

definition WriteHash :: "Hash \<Rightarrow> bytes" where "WriteHash h = be_bytes 32 h"

text \<open>A nil big integer cannot be written: its methods panic. \<^verbatim>\<open>BitLen\<close> and \<^verbatim>\<open>FillBytes\<close> read the absolute value.\<close>

definition WriteUint256 :: "int option \<Rightarrow> derive_error + bytes" where
  "WriteUint256 n =
    (case n of
       None \<Rightarrow> Inl (Panic ''nil big integer'')
     | Some n \<Rightarrow>
        if 2 ^ 256 \<le> \<bar>n\<bar> then Inl (PlainError ''big int exceeds 256 bits'')
        else Inr (be_bytes 32 (word_of_int \<bar>n\<bar> :: 256 word)))"

definition ReadHash :: "bytes \<Rightarrow> derive_error + Hash \<times> bytes" where
  "ReadHash r = rbind (read_full 32 r) (\<lambda>(b, r). Inr (be_word b, r))"

definition ReadUint256 :: "bytes \<Rightarrow> derive_error + int \<times> bytes" where
  "ReadUint256 r = rbind (read_full 32 r) (\<lambda>(b, r). Inr (uint (be_word b :: 256 word), r))"

definition ReadAndValidateSignature :: "bytes \<Rightarrow> bytes \<Rightarrow> derive_error + bytes" where
  "ReadAndValidateSignature expectedSignature r =
    rbind (read_full 4 r) (\<lambda>(sig, r).
    if sig \<noteq> expectedSignature then Inl (PlainError ''invalid function signature'') else Inr r)"

text \<open>\<^verbatim>\<open>binary.Read\<close> of a big-endian integer of \<open>n\<close> bytes; every failure is reported as the given error.\<close>

definition binary_read :: "nat \<Rightarrow> derive_error \<Rightarrow> bytes \<Rightarrow> derive_error + 'a::len word \<times> bytes" where
  "binary_read n e r = (case read_full n r of Inl _ \<Rightarrow> Inl e | Inr (b, r) \<Rightarrow> Inr (be_word b, r))"

section \<open>Scalars of the system configuration\<close>

record EcotoneScalars =
  sBlobBaseFeeScalar :: uint32
  sBaseFeeScalar :: uint32

definition DecodeScalar :: "Hash \<Rightarrow> derive_error + EcotoneScalars" where
  "DecodeScalar scalar =
    (let b = be_bytes 32 scalar in
     if b ! 0 = L1ScalarBedrock then Inr \<lparr>sBlobBaseFeeScalar = 0, sBaseFeeScalar = be_word (go_slice b 28 32)\<rparr>
     else if b ! 0 = L1ScalarEcotone
     then Inr \<lparr>sBlobBaseFeeScalar = be_word (go_slice b 24 28), sBaseFeeScalar = be_word (go_slice b 28 32)\<rparr>
     else Inl (PlainError ''unexpected system config scalar''))"

definition EncodeScalar :: "EcotoneScalars \<Rightarrow> Hash" where
  "EncodeScalar s = be_word ([L1ScalarEcotone] @ replicate 23 0 @ be_bytes 4 (sBlobBaseFeeScalar s) @ be_bytes 4 (sBaseFeeScalar s))"

text \<open>\<^verbatim>\<open>CheckEcotoneL1SystemConfigScalar\<close> fails with \<^verbatim>\<open>ErrBedrockScalarPaddingNotEmpty\<close> exactly when the version byte is that of
  Bedrock.\<close>

definition EcotoneScalars_of :: "SystemConfig \<Rightarrow> derive_error + EcotoneScalars" where
  "EcotoneScalars_of sysCfg =
    (if \<not> CheckEcotoneL1SystemConfigScalar (Scalar sysCfg) then
       (if be_bytes 32 (Scalar sysCfg) ! 0 = L1ScalarBedrock then Inr \<lparr>sBlobBaseFeeScalar = 0, sBaseFeeScalar = - 1\<rparr>
        else Inl (PlainError ''unrecognized scalar version''))
     else DecodeScalar (Scalar sysCfg))"

record OperatorFeeParams_t =
  ofScalar :: uint32
  ofConstant :: uint64

definition DecodeOperatorFeeParams :: "Hash \<Rightarrow> OperatorFeeParams_t" where
  "DecodeOperatorFeeParams scalar =
    (let b = be_bytes 32 scalar in \<lparr>ofScalar = be_word (go_slice b 20 24), ofConstant = be_word (go_slice b 24 32)\<rparr>)"

definition EncodeOperatorFeeParams :: "OperatorFeeParams_t \<Rightarrow> Hash" where
  "EncodeOperatorFeeParams p = be_word (replicate 20 0 @ be_bytes 4 (ofScalar p) @ be_bytes 8 (ofConstant p))"

definition OperatorFee :: "SystemConfig \<Rightarrow> OperatorFeeParams_t" where
  "OperatorFee sysCfg = DecodeOperatorFeeParams (OperatorFeeParams sysCfg)"

section \<open>The attributes and their formats\<close>

record L1BlockInfo =
  iNumber :: uint64
  iTime :: uint64
  iBaseFee :: "int option"
  iBlockHash :: Hash
  iSequenceNumber :: uint64
  iBatcherAddr :: Address
  L1FeeOverhead :: Hash
  L1FeeScalar :: Hash
  iBlobBaseFee :: "int option"
  iBaseFeeScalar :: uint32
  iBlobBaseFeeScalar :: uint32
  OperatorFeeScalar :: uint32
  OperatorFeeConstant :: uint64

definition empty_info :: L1BlockInfo where
  "empty_info = \<lparr>iNumber = 0, iTime = 0, iBaseFee = None, iBlockHash = 0, iSequenceNumber = 0, iBatcherAddr = 0, L1FeeOverhead = 0,
    L1FeeScalar = 0, iBlobBaseFee = None, iBaseFeeScalar = 0, iBlobBaseFeeScalar = 0, OperatorFeeScalar = 0, OperatorFeeConstant = 0\<rparr>"

definition L1InfoBedrockLen :: nat where "L1InfoBedrockLen = 4 + 32 * 8"
definition L1InfoEcotoneLen :: nat where "L1InfoEcotoneLen = 4 + 32 * 5"
definition L1InfoIsthmusLen :: nat where "L1InfoIsthmusLen = 4 + 32 * 5 + 4 + 8"

definition func_bytes4 :: "keccak \<Rightarrow> string \<Rightarrow> bytes" where
  "func_bytes4 keccak sig = take 4 (be_bytes 32 (keccak (ascii sig)))"

definition L1InfoFuncBedrockBytes4 :: "keccak \<Rightarrow> bytes" where
  "L1InfoFuncBedrockBytes4 keccak = func_bytes4 keccak ''setL1BlockValues(uint64,uint64,uint256,bytes32,uint64,bytes32,uint256,uint256)''"
definition L1InfoFuncEcotoneBytes4 :: "keccak \<Rightarrow> bytes" where
  "L1InfoFuncEcotoneBytes4 keccak = func_bytes4 keccak ''setL1BlockValuesEcotone()''"
definition L1InfoFuncIsthmusBytes4 :: "keccak \<Rightarrow> bytes" where
  "L1InfoFuncIsthmusBytes4 keccak = func_bytes4 keccak ''setL1BlockValuesIsthmus()''"

definition marshalBinaryBedrock :: "keccak \<Rightarrow> L1BlockInfo \<Rightarrow> derive_error + bytes" where
  "marshalBinaryBedrock keccak info =
    rbind (WriteUint256 (iBaseFee info)) (\<lambda>baseFee.
    Inr (L1InfoFuncBedrockBytes4 keccak @ WriteUint64 (iNumber info) @ WriteUint64 (iTime info) @ baseFee @ WriteHash (iBlockHash info) @
         WriteUint64 (iSequenceNumber info) @ WriteAddress (iBatcherAddr info) @ WriteEthBytes32 (L1FeeOverhead info) @
         WriteEthBytes32 (L1FeeScalar info)))"

definition unmarshalBinaryBedrock :: "keccak \<Rightarrow> bytes \<Rightarrow> L1BlockInfo \<Rightarrow> derive_error + L1BlockInfo" where
  "unmarshalBinaryBedrock keccak data info =
    (if length data \<noteq> L1InfoBedrockLen then Inl (PlainError ''data is unexpected length'')
     else
       rbind (ReadAndValidateSignature (L1InfoFuncBedrockBytes4 keccak) data) (\<lambda>r.
       rbind (ReadUint64 r) (\<lambda>(number, r).
       rbind (ReadUint64 r) (\<lambda>(time, r).
       rbind (ReadUint256 r) (\<lambda>(baseFee, r).
       rbind (ReadHash r) (\<lambda>(blockHash, r).
       rbind (ReadUint64 r) (\<lambda>(seq, r).
       rbind (ReadAddress r) (\<lambda>(batcher, r).
       rbind (ReadEthBytes32 r) (\<lambda>(overhead, r).
       rbind (ReadEthBytes32 r) (\<lambda>(scalar, r).
       if \<not> EmptyReader r then Inl (PlainError ''too many bytes'')
       else Inr (info\<lparr>iNumber := number, iTime := time, iBaseFee := Some baseFee, iBlockHash := blockHash, iSequenceNumber := seq,
                      iBatcherAddr := batcher, L1FeeOverhead := overhead, L1FeeScalar := scalar\<rparr>)))))))))))"

text \<open>The Ecotone format; \<open>packed_info\<close> is the part it shares with the Isthmus format, which appends the operator fee.\<close>

definition packed_info :: "L1BlockInfo \<Rightarrow> derive_error + bytes" where
  "packed_info info =
    rbind (WriteUint256 (iBaseFee info)) (\<lambda>baseFee.
    rbind (WriteUint256 (case iBlobBaseFee info of None \<Rightarrow> Some 1 | Some f \<Rightarrow> Some f)) (\<lambda>blobBaseFee.
    Inr (be_bytes 4 (iBaseFeeScalar info) @ be_bytes 4 (iBlobBaseFeeScalar info) @ be_bytes 8 (iSequenceNumber info) @
         be_bytes 8 (iTime info) @ be_bytes 8 (iNumber info) @ baseFee @ blobBaseFee @ WriteHash (iBlockHash info) @
         WriteAddress (iBatcherAddr info))))"

definition read_packed :: "derive_error \<Rightarrow> bytes \<Rightarrow> L1BlockInfo \<Rightarrow> derive_error + L1BlockInfo \<times> bytes" where
  "read_packed e r info =
    rbind (binary_read 4 e r) (\<lambda>(baseFeeScalar, r).
    rbind (binary_read 4 e r) (\<lambda>(blobBaseFeeScalar, r).
    rbind (binary_read 8 e r) (\<lambda>(seq, r).
    rbind (binary_read 8 e r) (\<lambda>(time, r).
    rbind (binary_read 8 e r) (\<lambda>(number, r).
    rbind (ReadUint256 r) (\<lambda>(baseFee, r).
    rbind (ReadUint256 r) (\<lambda>(blobBaseFee, r).
    rbind (ReadHash r) (\<lambda>(blockHash, r).
    rbind (ReadAddress r) (\<lambda>(batcher, r).
    Inr (info\<lparr>iNumber := number, iTime := time, iBaseFee := Some baseFee, iBlockHash := blockHash, iSequenceNumber := seq,
              iBatcherAddr := batcher, iBlobBaseFee := Some blobBaseFee, iBaseFeeScalar := baseFeeScalar,
              iBlobBaseFeeScalar := blobBaseFeeScalar\<rparr>, r))))))))))"

definition marshalBinaryEcotone :: "keccak \<Rightarrow> L1BlockInfo \<Rightarrow> derive_error + bytes" where
  "marshalBinaryEcotone keccak info = rbind (packed_info info) (\<lambda>p. Inr (L1InfoFuncEcotoneBytes4 keccak @ p))"

definition unmarshalBinaryEcotone :: "keccak \<Rightarrow> bytes \<Rightarrow> L1BlockInfo \<Rightarrow> derive_error + L1BlockInfo" where
  "unmarshalBinaryEcotone keccak data info =
    (if length data \<noteq> L1InfoEcotoneLen then Inl (PlainError ''data is unexpected length'')
     else
       rbind (ReadAndValidateSignature (L1InfoFuncEcotoneBytes4 keccak) data) (\<lambda>r.
       rbind (read_packed (PlainError ''invalid ecotone l1 block info format'') r info) (\<lambda>(info, r).
       if \<not> EmptyReader r then Inl (PlainError ''too many bytes'') else Inr info)))"

definition marshalBinaryWithSignature :: "bytes \<Rightarrow> L1BlockInfo \<Rightarrow> derive_error + bytes" where
  "marshalBinaryWithSignature signature info =
    rbind (packed_info info) (\<lambda>p.
    Inr (signature @ p @ be_bytes 4 (OperatorFeeScalar info) @ be_bytes 8 (OperatorFeeConstant info)))"

definition marshalBinaryIsthmus :: "keccak \<Rightarrow> L1BlockInfo \<Rightarrow> derive_error + bytes" where
  "marshalBinaryIsthmus keccak info = marshalBinaryWithSignature (L1InfoFuncIsthmusBytes4 keccak) info"

definition unmarshalBinaryWithSignatureAndData :: "bytes \<Rightarrow> bytes \<Rightarrow> L1BlockInfo \<Rightarrow> derive_error + L1BlockInfo" where
  "unmarshalBinaryWithSignatureAndData signature data info =
    (if length data \<noteq> L1InfoIsthmusLen then Inl (PlainError ''data is unexpected length'')
     else
       let e = PlainError ''invalid isthmus l1 block info format'' in
       rbind (ReadAndValidateSignature signature data) (\<lambda>r.
       rbind (read_packed e r info) (\<lambda>(info, r).
       rbind (binary_read 4 e r) (\<lambda>(scalar, r).
       rbind (binary_read 8 e r) (\<lambda>(const, r).
       if \<not> EmptyReader r then Inl (PlainError ''too many bytes'')
       else Inr (info\<lparr>OperatorFeeScalar := scalar, OperatorFeeConstant := const\<rparr>))))))"

definition unmarshalBinaryIsthmus :: "keccak \<Rightarrow> bytes \<Rightarrow> L1BlockInfo \<Rightarrow> derive_error + L1BlockInfo" where
  "unmarshalBinaryIsthmus keccak data info = unmarshalBinaryWithSignatureAndData (L1InfoFuncIsthmusBytes4 keccak) data info"

definition isEcotoneButNotFirstBlock :: "Config \<Rightarrow> uint64 \<Rightarrow> bool" where
  "isEcotoneButNotFirstBlock cfg t \<longleftrightarrow> IsEcotone cfg t \<and> \<not> IsEcotoneActivationBlock cfg t"

definition isIsthmusButNotFirstBlock :: "Config \<Rightarrow> uint64 \<Rightarrow> bool" where
  "isIsthmusButNotFirstBlock cfg t \<longleftrightarrow> IsIsthmus cfg t \<and> \<not> IsIsthmusActivationBlock cfg t"

definition L1BlockInfoFromBytes :: "keccak \<Rightarrow> Config \<Rightarrow> uint64 \<Rightarrow> bytes \<Rightarrow> derive_error + L1BlockInfo" where
  "L1BlockInfoFromBytes keccak cfg l2BlockTime data =
    (if isIsthmusButNotFirstBlock cfg l2BlockTime then unmarshalBinaryIsthmus keccak data empty_info
     else if isEcotoneButNotFirstBlock cfg l2BlockTime then unmarshalBinaryEcotone keccak data empty_info
     else unmarshalBinaryBedrock keccak data empty_info)"

section \<open>Deposit sources\<close>

definition domain_hash :: "keccak \<Rightarrow> uint64 \<Rightarrow> Hash \<Rightarrow> Hash" where
  "domain_hash keccak domain h = keccak (replicate 24 0 @ be_bytes 8 domain @ be_bytes 32 h)"

definition deposit_id :: "keccak \<Rightarrow> Hash \<Rightarrow> uint64 \<Rightarrow> Hash" where
  "deposit_id keccak h n = keccak (be_bytes 32 h @ replicate 24 0 @ be_bytes 8 n)"

definition UserDepositSource_SourceHash :: "keccak \<Rightarrow> Hash \<Rightarrow> uint64 \<Rightarrow> Hash" where
  "UserDepositSource_SourceHash keccak l1BlockHash idx = domain_hash keccak 0 (deposit_id keccak l1BlockHash idx)"

definition L1InfoDepositSource_SourceHash :: "keccak \<Rightarrow> Hash \<Rightarrow> uint64 \<Rightarrow> Hash" where
  "L1InfoDepositSource_SourceHash keccak l1BlockHash seqNumber = domain_hash keccak 1 (deposit_id keccak l1BlockHash seqNumber)"

definition UpgradeDepositSource_SourceHash :: "keccak \<Rightarrow> string \<Rightarrow> Hash" where
  "UpgradeDepositSource_SourceHash keccak intent = domain_hash keccak 2 (keccak (ascii intent))"

definition AfterForceIncludeSource_SourceHash :: "keccak \<Rightarrow> Hash \<Rightarrow> uint64 \<Rightarrow> Hash" where
  "AfterForceIncludeSource_SourceHash keccak l1BlockHash seqNumber = domain_hash keccak 3 (deposit_id keccak l1BlockHash seqNumber)"

definition InvalidatedBlockSource_SourceHash :: "keccak \<Rightarrow> Hash \<Rightarrow> Hash" where
  "InvalidatedBlockSource_SourceHash keccak outputRoot = domain_hash keccak 4 outputRoot"

section \<open>The deposit transaction\<close>

record DepositTx =
  SourceHash :: Hash
  dFrom :: Address
  dTo :: "Address option"
  Mint :: "int option"
  dValue :: int
  dGas :: uint64
  IsSystemTransaction :: bool
  dData :: bytes

text \<open>What the code reads of an L1 header.\<close>

record BlockInfo =
  hHash :: Hash
  hParentHash :: Hash
  hNumber :: uint64
  hTime :: uint64
  hBaseFee :: "int option"
  hBlobBaseFee :: "int option"
  hExcessBlobGas :: "uint64 option"
  hMixDigest :: Hash
  hParentBeaconRoot :: "Hash option"

definition L1InfoDepositerAddress :: Address where "L1InfoDepositerAddress = 0xdeaddeaddeaddeaddeaddeaddeaddeaddead0001"
definition L1BlockAddress :: Address where "L1BlockAddress = 0x4200000000000000000000000000000000000015"
definition RegolithSystemTxGas :: uint64 where "RegolithSystemTxGas = 1000000"

text \<open>The blob base fee: with the Pectra schedule fix it is recomputed from the excess blob gas (\<open>calcBlobFeeCancun\<close>, which
  calls go-ethereum); at last it defaults to 1.\<close>

definition blob_base_fee :: "(uint64 \<Rightarrow> int) \<Rightarrow> Config \<Rightarrow> BlockInfo \<Rightarrow> int" where
  "blob_base_fee calcBlobFeeCancun cfg block =
    (let fee = (case PectraBlobScheduleTime cfg of
                  Some t \<Rightarrow> if hTime block < t then map_option calcBlobFeeCancun (hExcessBlobGas block) else hBlobBaseFee block
                | None \<Rightarrow> hBlobBaseFee block)
     in case fee of None \<Rightarrow> 1 | Some f \<Rightarrow> f)"

definition L1InfoDeposit :: "keccak \<Rightarrow> (uint64 \<Rightarrow> int) \<Rightarrow> Config \<Rightarrow> SystemConfig \<Rightarrow> uint64 \<Rightarrow> BlockInfo \<Rightarrow> uint64 \<Rightarrow> derive_error + DepositTx" where
  "L1InfoDeposit keccak calcBlobFeeCancun cfg sysCfg seqNumber block l2Timestamp =
    (let info = empty_info\<lparr>iNumber := hNumber block, iTime := hTime block, iBaseFee := hBaseFee block, iBlockHash := hHash block,
                            iSequenceNumber := seqNumber, iBatcherAddr := BatcherAddr sysCfg\<rparr> in
     rbind (if isEcotoneButNotFirstBlock cfg l2Timestamp then
              let isIsthmusActivated = isIsthmusButNotFirstBlock cfg l2Timestamp;
                  info = info\<lparr>iBlobBaseFee := Some (blob_base_fee calcBlobFeeCancun cfg block)\<rparr> in
              rbind (EcotoneScalars_of sysCfg) (\<lambda>scalars.
              let info = info\<lparr>iBlobBaseFeeScalar := sBlobBaseFeeScalar scalars, iBaseFeeScalar := sBaseFeeScalar scalars\<rparr>;
                  info = (if isIsthmusActivated
                          then info\<lparr>OperatorFeeScalar := ofScalar (OperatorFee sysCfg), OperatorFeeConstant := ofConstant (OperatorFee sysCfg)\<rparr>
                          else info)
              in if isIsthmusActivated then marshalBinaryIsthmus keccak info else marshalBinaryEcotone keccak info)
            else
              marshalBinaryBedrock keccak (info\<lparr>L1FeeOverhead := Overhead sysCfg, L1FeeScalar := Scalar sysCfg\<rparr>)) (\<lambda>data.
     let out = \<lparr>SourceHash = L1InfoDepositSource_SourceHash keccak (hHash block) seqNumber, dFrom = L1InfoDepositerAddress,
                dTo = Some L1BlockAddress, Mint = None, dValue = 0, dGas = 150000000, IsSystemTransaction = True, dData = data\<rparr>
     in Inr (if IsRegolith cfg l2Timestamp then out\<lparr>IsSystemTransaction := False, dGas := RegolithSystemTxGas\<rparr> else out)))"

text \<open>\<open>marshalTx\<close> is \<^verbatim>\<open>types.NewTx(dep).MarshalBinary()\<close> of go-ethereum.\<close>

definition L1InfoDepositBytes :: "(DepositTx \<Rightarrow> derive_error + bytes) \<Rightarrow> keccak \<Rightarrow> (uint64 \<Rightarrow> int) \<Rightarrow> Config \<Rightarrow> SystemConfig \<Rightarrow> uint64 \<Rightarrow>
    BlockInfo \<Rightarrow> uint64 \<Rightarrow> derive_error + bytes" where
  "L1InfoDepositBytes marshalTx keccak calcBlobFeeCancun cfg sysCfg seqNumber l1Info l2Timestamp =
    rbind (L1InfoDeposit keccak calcBlobFeeCancun cfg sysCfg seqNumber l1Info l2Timestamp) marshalTx"

section \<open>Reading the attributes back\<close>

record ExecutionPayload =
  pParentHash :: Hash
  pBlockNumber :: uint64
  pGasLimit :: uint64
  pTimestamp :: uint64
  ExtraData :: bytes
  pBlockHash :: Hash
  pTransactions :: "bytes list"

text \<open>\<open>unmarshalTx\<close> is \<^verbatim>\<open>Transaction.UnmarshalBinary\<close>: the type and the data of the decoded transaction.\<close>

definition first_tx_info :: "(bytes \<Rightarrow> derive_error + byte \<times> bytes) \<Rightarrow> keccak \<Rightarrow> Config \<Rightarrow> ExecutionPayload \<Rightarrow> derive_error + L1BlockInfo" where
  "first_tx_info unmarshalTx keccak cfg payload =
    (case pTransactions payload of
       [] \<Rightarrow> Inl (PlainError ''l2 block is missing L1 info deposit tx'')
     | tx0 # _ \<Rightarrow>
        rbind (unmarshalTx tx0) (\<lambda>(typ, data).
        if typ \<noteq> DepositTxType then Inl (PlainError ''first payload tx has unexpected tx type'')
        else L1BlockInfoFromBytes keccak cfg (pTimestamp payload) data))"

definition PayloadToBlockRef :: "(bytes \<Rightarrow> derive_error + byte \<times> bytes) \<Rightarrow> keccak \<Rightarrow> Config \<Rightarrow> ExecutionPayload \<Rightarrow> derive_error + L2BlockRef" where
  "PayloadToBlockRef unmarshalTx keccak cfg payload =
    rbind (if pBlockNumber payload = bNumber (gL2 (cGenesis cfg)) then
             (if pBlockHash payload \<noteq> bHash (gL2 (cGenesis cfg)) then Inl (PlainError ''expected L2 genesis hash to match L2 block'')
              else Inr (gL1 (cGenesis cfg), 0))
           else
             rbind (first_tx_info unmarshalTx keccak cfg payload) (\<lambda>info.
             Inr (\<lparr>bHash = iBlockHash info, bNumber = iNumber info\<rparr>, iSequenceNumber info))) (\<lambda>(l1Origin, sequenceNumber).
    Inr \<lparr>l2Hash = pBlockHash payload, l2Number = pBlockNumber payload, l2ParentHash = pParentHash payload, l2Time = pTimestamp payload,
         L1Origin = l1Origin, SequenceNumber = sequenceNumber\<rparr>)"

text \<open>The extra data of Holocene blocks is validated and decoded by go-ethereum's \<^verbatim>\<open>eip1559\<close> package: \<open>holoceneParams\<close> gives the
  re-encoded parameters, or nothing when the extra data is invalid.\<close>

definition PayloadToSystemConfig :: "(bytes \<Rightarrow> derive_error + byte \<times> bytes) \<Rightarrow> keccak \<Rightarrow> (bytes \<Rightarrow> uint64 option) \<Rightarrow> Config \<Rightarrow>
    ExecutionPayload \<Rightarrow> derive_error + SystemConfig" where
  "PayloadToSystemConfig unmarshalTx keccak holoceneParams cfg payload =
    (if pBlockNumber payload = bNumber (gL2 (cGenesis cfg)) then
       (if pBlockHash payload \<noteq> bHash (gL2 (cGenesis cfg)) then Inl (PlainError ''expected L2 genesis hash to match L2 block'')
        else Inr (gSystemConfig (cGenesis cfg)))
     else
       rbind (first_tx_info unmarshalTx keccak cfg payload) (\<lambda>info.
       let scalar = be_bytes 32 (L1FeeScalar info);
           scalar = (if isEcotoneButNotFirstBlock cfg (pTimestamp payload)
                     then overwrite (overwrite (scalar[0 := 1]) 24 (be_bytes 4 (iBlobBaseFeeScalar info))) 28 (be_bytes 4 (iBaseFeeScalar info))
                     else scalar);
           r = \<lparr>BatcherAddr = iBatcherAddr info, Overhead = L1FeeOverhead info, Scalar = be_word scalar, GasLimit = pGasLimit payload,
                EIP1559Params = 0, OperatorFeeParams = 0, MarshalPreHolocene = False\<rparr> in
       rbind (if IsHolocene cfg (pTimestamp payload) then
                (case holoceneParams (ExtraData payload) of
                   None \<Rightarrow> Inl (PlainError ''invalid holocene extra data'')
                 | Some p \<Rightarrow> Inr (r\<lparr>EIP1559Params := p\<rparr>))
              else Inr r) (\<lambda>r.
       Inr (if IsIsthmus cfg (pTimestamp payload)
            then r\<lparr>OperatorFeeParams := EncodeOperatorFeeParams \<lparr>ofScalar = OperatorFeeScalar info, ofConstant = OperatorFeeConstant info\<rparr>\<rparr>
            else r))))"

section \<open>The formats round trip\<close>

lemma ReadHash_Write [simp]: "ReadHash (WriteHash h @ r) = Inr (h, r)"
  by (simp add: ReadHash_def WriteHash_def)

lemma binary_read_be [simp]: "LENGTH('a) \<le> 8 * n \<Longrightarrow> binary_read n e (be_bytes n (w :: 'a::len word) @ r) = Inr (w, r)"
  by (simp add: binary_read_def)

lemma WriteUint256_ok:
  "0 \<le> f \<Longrightarrow> f < 2 ^ 256 \<Longrightarrow> \<exists>w. WriteUint256 (Some f) = Inr w \<and> length w = 32 \<and> (\<forall>r. ReadUint256 (w @ r) = Inr (f, r))"
  by (simp add: WriteUint256_def ReadUint256_def uint_word_of_int take_bit_int_eq_self)

lemma length_func_bytes4 [simp]: "length (func_bytes4 keccak s) = 4"
  by (simp add: func_bytes4_def)

lemma ReadAndValidateSignature_ok [simp]: "length s = 4 \<Longrightarrow> ReadAndValidateSignature s (s @ r) = Inr r"
  by (simp add: ReadAndValidateSignature_def)

lemma length_writers [simp]:
  "length (WriteUint64 n) = 32" "length (WriteAddress a) = 32" "length (WriteEthBytes32 b) = 32" "length (WriteHash h) = 32"
  by (simp_all add: WriteUint64_def WriteAddress_def WriteEthBytes32_def WriteHash_def)

lemmas func_bytes4_defs = L1InfoFuncBedrockBytes4_def L1InfoFuncEcotoneBytes4_def L1InfoFuncIsthmusBytes4_def

definition fee_ok :: "int option \<Rightarrow> bool" where "fee_ok f \<longleftrightarrow> (\<exists>n. f = Some n \<and> 0 \<le> n \<and> n < 2 ^ 256)"

lemma bedrock_round_trip:
  assumes "fee_ok (iBaseFee info)"
  shows "\<exists>data. marshalBinaryBedrock keccak info = Inr data \<and>
    unmarshalBinaryBedrock keccak data i0 = Inr (i0\<lparr>iNumber := iNumber info, iTime := iTime info, iBaseFee := iBaseFee info,
      iBlockHash := iBlockHash info, iSequenceNumber := iSequenceNumber info, iBatcherAddr := iBatcherAddr info,
      L1FeeOverhead := L1FeeOverhead info, L1FeeScalar := L1FeeScalar info\<rparr>)"
proof -
  obtain f w where f: "iBaseFee info = Some f" "WriteUint256 (Some f) = Inr w" "length w = 32" "\<And>r. ReadUint256 (w @ r) = Inr (f, r)"
    using assms WriteUint256_ok by (fastforce simp: fee_ok_def)
  show ?thesis
    using f by (simp add: marshalBinaryBedrock_def unmarshalBinaryBedrock_def L1InfoBedrockLen_def func_bytes4_defs EmptyReader_def)
qed

lemma packed_round_trip:
  assumes "fee_ok (iBaseFee info)" and "fee_ok (iBlobBaseFee info)"
  shows "\<exists>p. packed_info info = Inr p \<and> length p = 160 \<and>
    (\<forall>e r. read_packed e (p @ r) i0 = Inr (i0\<lparr>iNumber := iNumber info, iTime := iTime info, iBaseFee := iBaseFee info,
      iBlockHash := iBlockHash info, iSequenceNumber := iSequenceNumber info, iBatcherAddr := iBatcherAddr info,
      iBlobBaseFee := iBlobBaseFee info, iBaseFeeScalar := iBaseFeeScalar info, iBlobBaseFeeScalar := iBlobBaseFeeScalar info\<rparr>, r))"
proof -
  obtain f w where f: "iBaseFee info = Some f" "WriteUint256 (Some f) = Inr w" "length w = 32" "\<And>r. ReadUint256 (w @ r) = Inr (f, r)"
    using assms(1) WriteUint256_ok by (fastforce simp: fee_ok_def)
  obtain g v where g: "iBlobBaseFee info = Some g" "WriteUint256 (Some g) = Inr v" "length v = 32" "\<And>r. ReadUint256 (v @ r) = Inr (g, r)"
    using assms(2) WriteUint256_ok by (fastforce simp: fee_ok_def)
  show ?thesis using f g by (simp add: packed_info_def read_packed_def)
qed

lemma ecotone_round_trip:
  assumes "fee_ok (iBaseFee info)" and "fee_ok (iBlobBaseFee info)"
  shows "\<exists>data. marshalBinaryEcotone keccak info = Inr data \<and>
    unmarshalBinaryEcotone keccak data i0 = Inr (i0\<lparr>iNumber := iNumber info, iTime := iTime info, iBaseFee := iBaseFee info,
      iBlockHash := iBlockHash info, iSequenceNumber := iSequenceNumber info, iBatcherAddr := iBatcherAddr info,
      iBlobBaseFee := iBlobBaseFee info, iBaseFeeScalar := iBaseFeeScalar info, iBlobBaseFeeScalar := iBlobBaseFeeScalar info\<rparr>)"
proof -
  obtain p where p: "packed_info info = Inr p" "length p = 160"
    "\<And>e. read_packed e p i0 = Inr (i0\<lparr>iNumber := iNumber info, iTime := iTime info, iBaseFee := iBaseFee info,
      iBlockHash := iBlockHash info, iSequenceNumber := iSequenceNumber info, iBatcherAddr := iBatcherAddr info,
      iBlobBaseFee := iBlobBaseFee info, iBaseFeeScalar := iBaseFeeScalar info, iBlobBaseFeeScalar := iBlobBaseFeeScalar info\<rparr>, [])"
    using packed_round_trip [OF assms, of i0] by (metis append_Nil2)
  show ?thesis
    using p by (simp add: marshalBinaryEcotone_def unmarshalBinaryEcotone_def L1InfoEcotoneLen_def func_bytes4_defs EmptyReader_def)
qed

lemma isthmus_round_trip:
  assumes "fee_ok (iBaseFee info)" and "fee_ok (iBlobBaseFee info)"
  shows "\<exists>data. marshalBinaryIsthmus keccak info = Inr data \<and>
    unmarshalBinaryIsthmus keccak data i0 = Inr (i0\<lparr>iNumber := iNumber info, iTime := iTime info, iBaseFee := iBaseFee info,
      iBlockHash := iBlockHash info, iSequenceNumber := iSequenceNumber info, iBatcherAddr := iBatcherAddr info,
      iBlobBaseFee := iBlobBaseFee info, iBaseFeeScalar := iBaseFeeScalar info, iBlobBaseFeeScalar := iBlobBaseFeeScalar info,
      OperatorFeeScalar := OperatorFeeScalar info, OperatorFeeConstant := OperatorFeeConstant info\<rparr>)"
proof -
  have last: "binary_read 8 e (be_bytes 8 (w :: uint64)) = Inr (w, [])" for e w using binary_read_be [of 8 e w "[]"] by simp
  obtain p where p: "packed_info info = Inr p" "length p = 160"
    "\<And>e r. read_packed e (p @ r) i0 = Inr (i0\<lparr>iNumber := iNumber info, iTime := iTime info, iBaseFee := iBaseFee info,
      iBlockHash := iBlockHash info, iSequenceNumber := iSequenceNumber info, iBatcherAddr := iBatcherAddr info,
      iBlobBaseFee := iBlobBaseFee info, iBaseFeeScalar := iBaseFeeScalar info, iBlobBaseFeeScalar := iBlobBaseFeeScalar info\<rparr>, r)"
    using packed_round_trip [OF assms, of i0] by blast
  show ?thesis
    using p last by (simp add: marshalBinaryIsthmus_def marshalBinaryWithSignature_def unmarshalBinaryIsthmus_def
        unmarshalBinaryWithSignatureAndData_def L1InfoIsthmusLen_def func_bytes4_defs EmptyReader_def Let_def)
qed

lemma isthmus_is_ecotone:
  assumes "Check cfg = None" and "isIsthmusButNotFirstBlock cfg t"
  shows "isEcotoneButNotFirstBlock cfg t"
proof -
  have "IsEcotone cfg t'" if "IsIsthmus cfg t'" for t'
    using checked_cumulative [OF assms(1), of 3 7 t' t'] that by (simp add: fork_checks_def)
  then show ?thesis
    using assms(2) by (auto simp: isEcotoneButNotFirstBlock_def isIsthmusButNotFirstBlock_def IsEcotoneActivationBlock_def
        IsIsthmusActivationBlock_def activation_block_def)
qed

text \<open>What the attributes of a block record.\<close>

definition attributes_recorded :: "(uint64 \<Rightarrow> int) \<Rightarrow> Config \<Rightarrow> SystemConfig \<Rightarrow> uint64 \<Rightarrow> BlockInfo \<Rightarrow> uint64 \<Rightarrow> L1BlockInfo \<Rightarrow> bool" where
  "attributes_recorded calcFee cfg sysCfg seq block t info \<longleftrightarrow>
    iNumber info = hNumber block \<and> iTime info = hTime block \<and> iBaseFee info = hBaseFee block \<and> iBlockHash info = hHash block \<and>
    iSequenceNumber info = seq \<and> iBatcherAddr info = BatcherAddr sysCfg \<and>
    (if isEcotoneButNotFirstBlock cfg t then
       L1FeeOverhead info = 0 \<and> L1FeeScalar info = 0 \<and> iBlobBaseFee info = Some (blob_base_fee calcFee cfg block) \<and>
       EcotoneScalars_of sysCfg = Inr \<lparr>sBlobBaseFeeScalar = iBlobBaseFeeScalar info, sBaseFeeScalar = iBaseFeeScalar info\<rparr>
     else L1FeeOverhead info = Overhead sysCfg \<and> L1FeeScalar info = Scalar sysCfg) \<and>
    (if isIsthmusButNotFirstBlock cfg t
     then OperatorFee sysCfg = \<lparr>ofScalar = OperatorFeeScalar info, ofConstant = OperatorFeeConstant info\<rparr>
     else OperatorFeeScalar info = 0 \<and> OperatorFeeConstant info = 0)"

lemma attributes_round_trip:
  assumes "Check cfg = None" and "L1InfoDeposit keccak calcFee cfg sysCfg seq block t = Inr dep"
    and "fee_ok (hBaseFee block)" and "fee_ok (Some (blob_base_fee calcFee cfg block))"
  shows "\<exists>info. L1BlockInfoFromBytes keccak cfg t (dData dep) = Inr info \<and> attributes_recorded calcFee cfg sysCfg seq block t info"
proof -
  let ?i = "empty_info\<lparr>iNumber := hNumber block, iTime := hTime block, iBaseFee := hBaseFee block, iBlockHash := hHash block,
      iSequenceNumber := seq, iBatcherAddr := BatcherAddr sysCfg\<rparr>"
  let ?e = "\<lambda>s. ?i\<lparr>iBlobBaseFee := Some (blob_base_fee calcFee cfg block), iBlobBaseFeeScalar := sBlobBaseFeeScalar s, iBaseFeeScalar := sBaseFeeScalar s\<rparr>"
  let ?is = "isIsthmusButNotFirstBlock cfg t" and ?ec = "isEcotoneButNotFirstBlock cfg t"
  consider (bedrock) "\<not> ?ec" "\<not> ?is" | (ecotone) "?ec" "\<not> ?is" | (isthmus) "?ec" "?is"
    using isthmus_is_ecotone [OF assms(1), of t] by blast
  then show ?thesis
  proof cases
    case bedrock
    then show ?thesis
      using assms(2) bedrock_round_trip [of "?i\<lparr>L1FeeOverhead := Overhead sysCfg, L1FeeScalar := Scalar sysCfg\<rparr>" keccak empty_info] assms(3)
      by (auto simp: L1InfoDeposit_def L1BlockInfoFromBytes_def attributes_recorded_def empty_info_def rbind_Inr_iff Let_def split: if_splits)
  next
    case ecotone
    then obtain s where s: "EcotoneScalars_of sysCfg = Inr s"
      using assms(2) by (auto simp: L1InfoDeposit_def rbind_Inr_iff Let_def)
    show ?thesis
      using ecotone s assms(2) ecotone_round_trip [of "?e s" keccak empty_info] assms(3,4)
      by (auto simp: L1InfoDeposit_def L1BlockInfoFromBytes_def attributes_recorded_def empty_info_def rbind_Inr_iff Let_def split: if_splits)
  next
    case isthmus
    then obtain s where s: "EcotoneScalars_of sysCfg = Inr s"
      using assms(2) by (auto simp: L1InfoDeposit_def rbind_Inr_iff Let_def)
    show ?thesis
      using isthmus s assms(2) isthmus_round_trip [of "(?e s)\<lparr>OperatorFeeScalar := ofScalar (OperatorFee sysCfg),
          OperatorFeeConstant := ofConstant (OperatorFee sysCfg)\<rparr>" keccak empty_info] assms(3,4)
      by (auto simp: L1InfoDeposit_def L1BlockInfoFromBytes_def attributes_recorded_def empty_info_def rbind_Inr_iff Let_def split: if_splits)
  qed
qed

section \<open>The system configuration is recovered\<close>

lemma nth_be_bytes_0: "0 < n \<Longrightarrow> be_bytes n (0 :: 'a::len word) ! 0 = 0"
  by (simp add: be_bytes_0)

lemma ecotone_scalar_bytes:
  fixes blob base :: uint32
  defines "b \<equiv> overwrite (overwrite ((be_bytes 32 (0 :: Hash))[0 := 1]) 24 (be_bytes 4 blob)) 28 (be_bytes 4 base)"
  shows "b = [1] @ replicate 23 0 @ be_bytes 4 blob @ be_bytes 4 base"
proof -
  have z: "(be_bytes 32 (0 :: Hash))[0 := 1] = [1] @ replicate 31 0"
    by (simp add: be_bytes_0 numeral_eq_Suc)
  show ?thesis
    unfolding b_def z overwrite_def by (simp add: take_Cons' drop_Cons')
qed

lemma ecotone_scalar_recovered:
  fixes blob base :: uint32
  assumes "Scalar sc = be_word ([1] @ replicate 23 0 @ be_bytes 4 blob @ be_bytes 4 base)"
  shows "EcotoneScalars_of sc = Inr \<lparr>sBlobBaseFeeScalar = blob, sBaseFeeScalar = base\<rparr>"
proof -
  let ?b = "[1] @ replicate 23 0 @ be_bytes 4 blob @ be_bytes 4 base"
  have b: "be_bytes 32 (Scalar sc) = ?b"
    unfolding assms using be_bytes_be_word [of ?b, where 'a = 256] by simp
  have "go_slice ?b 1 24 = replicate 23 0" by (simp add: go_slice_def)
  moreover have "go_slice ?b 24 28 = be_bytes 4 blob" "go_slice ?b 28 32 = be_bytes 4 base"
    by (simp_all add: go_slice_def take_Cons' drop_Cons')
  moreover have "?b ! 0 = 1" by simp
  ultimately show ?thesis
    unfolding EcotoneScalars_of_def CheckEcotoneL1SystemConfigScalar_def DecodeScalar_def b Let_def
    by (simp add: L1ScalarBedrock_def L1ScalarEcotone_def)
qed

lemma operator_fee_round_trip: "DecodeOperatorFeeParams (EncodeOperatorFeeParams p) = p"
proof -
  let ?b = "replicate 20 0 @ be_bytes 4 (ofScalar p) @ be_bytes 8 (ofConstant p)"
  have b: "be_bytes 32 (EncodeOperatorFeeParams p) = ?b"
    unfolding EncodeOperatorFeeParams_def using be_bytes_be_word [of ?b, where 'a = 256] by simp
  have "go_slice ?b 20 24 = be_bytes 4 (ofScalar p)" "go_slice ?b 24 32 = be_bytes 8 (ofConstant p)"
    by (simp_all add: go_slice_def)
  then show ?thesis unfolding DecodeOperatorFeeParams_def b Let_def by simp
qed

text \<open>Two system configurations that lead to the same attributes and block parameters at a timestamp.\<close>

definition same_fees :: "Config \<Rightarrow> uint64 \<Rightarrow> SystemConfig \<Rightarrow> SystemConfig \<Rightarrow> bool" where
  "same_fees cfg t a b \<longleftrightarrow>
    BatcherAddr a = BatcherAddr b \<and>
    (if isEcotoneButNotFirstBlock cfg t then EcotoneScalars_of a = EcotoneScalars_of b
     else Overhead a = Overhead b \<and> Scalar a = Scalar b) \<and>
    (isIsthmusButNotFirstBlock cfg t \<longrightarrow> OperatorFee a = OperatorFee b)"

text \<open>C15: The chain carries its own configuration: when the first transaction of a block is the attributes deposit that was built for an L1 block
  and a system configuration, then reading the block back gives the L1 block as its origin, the sequence number, and a system
  configuration with the same batcher and the same fee parameters, in each of the three formats.\<close>

theorem attributes_carry_config:
  assumes "Check cfg = None" and "fee_ok (hBaseFee block)" and "fee_ok (Some (blob_base_fee calcFee cfg block))"
    and "L1InfoDeposit keccak calcFee cfg sysCfg seq block (pTimestamp p) = Inr dep"
    and "pTransactions p = tx # txs" and "unmarshalTx tx = Inr (DepositTxType, dData dep)"
    and "pBlockNumber p \<noteq> bNumber (gL2 (cGenesis cfg))"
    and "IsHolocene cfg (pTimestamp p) \<longrightarrow> holoceneParams (ExtraData p) \<noteq> None"
  shows "(\<exists>ref. PayloadToBlockRef unmarshalTx keccak cfg p = Inr ref \<and> L1Origin ref = \<lparr>bHash = hHash block, bNumber = hNumber block\<rparr> \<and>
      SequenceNumber ref = seq \<and> l2Time ref = pTimestamp p) \<and>
    (\<exists>sc. PayloadToSystemConfig unmarshalTx keccak holoceneParams cfg p = Inr sc \<and> GasLimit sc = pGasLimit p \<and>
      same_fees cfg (pTimestamp p) sc sysCfg)"
proof -
  obtain info where info: "L1BlockInfoFromBytes keccak cfg (pTimestamp p) (dData dep) = Inr info"
    "attributes_recorded calcFee cfg sysCfg seq block (pTimestamp p) info"
    using attributes_round_trip [OF assms(1,4,2,3)] by blast
  have first: "first_tx_info unmarshalTx keccak cfg p = Inr info" using info(1) assms(5,6) by (simp add: first_tx_info_def)
  have same: "same_fees cfg (pTimestamp p) sc sysCfg"
    if "BatcherAddr sc = iBatcherAddr info" "Overhead sc = L1FeeOverhead info"
      "Scalar sc = be_word (if isEcotoneButNotFirstBlock cfg (pTimestamp p)
        then overwrite (overwrite ((be_bytes 32 (L1FeeScalar info))[0 := 1]) 24 (be_bytes 4 (iBlobBaseFeeScalar info))) 28 (be_bytes 4 (iBaseFeeScalar info))
        else be_bytes 32 (L1FeeScalar info))"
      "IsIsthmus cfg (pTimestamp p) \<Longrightarrow>
        OperatorFeeParams sc = EncodeOperatorFeeParams \<lparr>ofScalar = OperatorFeeScalar info, ofConstant = OperatorFeeConstant info\<rparr>" for sc
  proof (cases "isEcotoneButNotFirstBlock cfg (pTimestamp p)")
    case True
    then have "EcotoneScalars_of sc = Inr \<lparr>sBlobBaseFeeScalar = iBlobBaseFeeScalar info, sBaseFeeScalar = iBaseFeeScalar info\<rparr>"
      using that(3) info(2) by (intro ecotone_scalar_recovered) (simp add: attributes_recorded_def ecotone_scalar_bytes)
    then show ?thesis
      using True that info(2) by (auto simp: same_fees_def attributes_recorded_def OperatorFee_def operator_fee_round_trip isIsthmusButNotFirstBlock_def split: if_splits)
  next
    case False
    then show ?thesis
      using that info(2) isthmus_is_ecotone [OF assms(1)] by (auto simp: same_fees_def attributes_recorded_def)
  qed
  show ?thesis
    using first assms(7,8) info(2)
    by (auto simp: PayloadToBlockRef_def PayloadToSystemConfig_def attributes_recorded_def Let_def intro!: same)
qed

section \<open>A concrete block\<close>

definition sample_header :: BlockInfo where
  "sample_header = \<lparr>hHash = 5, hParentHash = 4, hNumber = 7, hTime = 55, hBaseFee = Some 1000, hBlobBaseFee = None, hExcessBlobGas = None,
    hMixDigest = 0, hParentBeaconRoot = None\<rparr>"

definition sample_marshal :: "DepositTx \<Rightarrow> derive_error + bytes" where "sample_marshal dep = Inr (DepositTxType # dData dep)"

definition sample_unmarshal :: "bytes \<Rightarrow> derive_error + byte \<times> bytes" where
  "sample_unmarshal b = (case b of [] \<Rightarrow> Inl (PlainError ''empty'') | t # d \<Rightarrow> Inr (t, d))"

definition sample_payload :: "bytes list \<Rightarrow> ExecutionPayload" where
  "sample_payload txs = \<lparr>pParentHash = 1, pBlockNumber = 26, pGasLimit = 30, pTimestamp = 62, ExtraData = [], pBlockHash = 2, pTransactions = txs\<rparr>"

lemma sample_fees: "fee_ok (hBaseFee sample_header)" "fee_ok (Some (blob_base_fee (\<lambda>_. 1) (sample_config 12 14) sample_header))"
  by (simp_all add: fee_ok_def sample_header_def blob_base_fee_def sample_config_def)

lemma attributes_carry_config_witness:
  "\<exists>dep sc. L1InfoDeposit (\<lambda>_. 7) (\<lambda>_. 1) (sample_config 12 14) sample_sysconfig 3 sample_header 62 = Inr dep \<and>
    PayloadToSystemConfig sample_unmarshal (\<lambda>_. 7) (\<lambda>_. None) (sample_config 12 14) (sample_payload [DepositTxType # dData dep]) = Inr sc \<and>
    BatcherAddr sc = 77"
proof -
  have "is_ok (L1InfoDeposit (\<lambda>_. 7) (\<lambda>_. 1) (sample_config 12 14) sample_sysconfig 3 sample_header 62)" by code_simp
  then obtain dep where dep: "L1InfoDeposit (\<lambda>_. 7) (\<lambda>_. 1) (sample_config 12 14) sample_sysconfig 3 sample_header 62 = Inr dep"
    by (auto simp: is_ok_iff)
  let ?p = "sample_payload [DepositTxType # dData dep]"
  have "pTimestamp ?p = 62" "pTransactions ?p = [DepositTxType # dData dep]" "pBlockNumber ?p \<noteq> bNumber (gL2 (cGenesis (sample_config 12 14)))"
    "\<not> IsHolocene (sample_config 12 14) 62"
    by (simp_all add: sample_payload_def sample_config_def IsHolocene_def active_at_def)
  then show ?thesis
    using attributes_carry_config [OF sample_checked sample_fees, where p = ?p and dep = dep and sysCfg = sample_sysconfig and seq = 3
        and keccak = "\<lambda>_. 7" and unmarshalTx = sample_unmarshal and holoceneParams = "\<lambda>_. None"] dep
    by (auto simp: sample_unmarshal_def same_fees_def sample_sysconfig_def)
qed

end
