(* ===== verification/Attributes.thy ===== *)
theory Attributes
  imports L1Info
begin

text \<open>
  Deposits and payload attributes (\<^verbatim>\<open>op-node/rollup/derive/{deposit_log,deposits,attributes,attributes_queue}.go\<close>, the payload attributes of
  \<^verbatim>\<open>op-service/eth/types.go\<close>): the logs of the deposit contract and the transactions they stand for, the attributes from which the
  engine builds an L2 block, and the queue that turns batches into attributes. The network upgrade transactions are given as a parameter.
\<close>

section \<open>Deposit logs\<close>

definition DepositEventABIHash :: "keccak \<Rightarrow> Hash" where
  "DepositEventABIHash keccak = keccak (ascii ''TransactionDeposited(address,address,uint256,bytes)'')"

definition DepositEventVersion0 :: Hash where "DepositEventVersion0 = 0"

definition unmarshalDepositVersion0 :: "DepositTx \<Rightarrow> Address \<Rightarrow> bytes \<Rightarrow> derive_error + DepositTx" where
  "unmarshalDepositVersion0 dep to opaqueData =
    (if length opaqueData < 32 + 32 + 8 + 1 then Inl (PlainError ''unexpected opaqueData length'')
     else
       let mint = uint (be_word (go_slice opaqueData 0 32) :: 256 word) in
       Inr (dep\<lparr>Mint := (if mint = 0 then None else Some mint),
                dValue := uint (be_word (go_slice opaqueData 32 64) :: 256 word),
                dGas := be_word (go_slice opaqueData 64 72),
                dTo := (if opaqueData ! 72 = 0 then Some to else dTo dep),
                dData := drop 73 opaqueData\<rparr>))"

definition UnmarshalDepositLogEvent :: "keccak \<Rightarrow> L1Log \<Rightarrow> derive_error + DepositTx" where
  "UnmarshalDepositLogEvent keccak ev =
    (if length (Topics ev) \<noteq> 4 then Inl (PlainError ''expected 4 event topics'')
     else if Topics ev ! 0 \<noteq> DepositEventABIHash keccak then Inl (PlainError ''invalid deposit event selector'')
     else if length (logData ev) < 64 then Inl (PlainError ''incomplate opaqueData slice header'')
     else if length (logData ev) mod 32 \<noteq> 0 then Inl (PlainError ''expected log data to be multiple of 32 bytes'')
     else
       let from = ucast (Topics ev ! 1) :: Address;
           to = ucast (Topics ev ! 2) :: Address;
           version = Topics ev ! 3;
           opaqueContentOffset = uint (be_word (go_slice (logData ev) 0 32) :: 256 word);
           opaqueContentLength = uint (be_word (go_slice (logData ev) 32 64) :: 256 word);
           remaining = (of_nat (length (logData ev) - 64) :: uint64) in
       if opaqueContentOffset \<noteq> 32 then Inl (PlainError ''invalid opaqueData slice header offset'')
       else if 2 ^ 64 \<le> opaqueContentLength \<or> remaining < word_of_int opaqueContentLength \<or>
               word_of_int opaqueContentLength + 32 \<le> remaining
       then Inl (PlainError ''invalid opaqueData slice header length'')
       else
         let opaqueData = go_slice (logData ev) 64 (64 + nat opaqueContentLength);
             dep = \<lparr>SourceHash = UserDepositSource_SourceHash keccak (logBlockHash ev) (logIndex ev), dFrom = from, dTo = None,
                    Mint = None, dValue = 0, dGas = 0, IsSystemTransaction = False, dData = []\<rparr> in
         if version = DepositEventVersion0 then unmarshalDepositVersion0 dep to opaqueData
         else Inl (PlainError ''invalid deposit version''))"

definition marshalDepositVersion0 :: "DepositTx \<Rightarrow> derive_error + bytes" where
  "marshalDepositVersion0 deposit =
    rbind (case Mint deposit of
             None \<Rightarrow> Inr (replicate 32 0)
           | Some m \<Rightarrow> if 2 ^ 256 \<le> \<bar>m\<bar> then Inl (PlainError ''mint value exceeds 256 bits'')
                       else Inr (be_bytes 32 (word_of_int \<bar>m\<bar> :: 256 word))) (\<lambda>mint.
    if 2 ^ 256 \<le> \<bar>dValue deposit\<bar> then Inl (PlainError ''value value exceeds 256 bits'')
    else Inr (mint @ be_bytes 32 (word_of_int \<bar>dValue deposit\<bar> :: 256 word) @ be_bytes 8 (dGas deposit) @
              [if dTo deposit = None then 1 else 0] @ dData deposit))"

definition MarshalDepositLogEvent :: "keccak \<Rightarrow> Address \<Rightarrow> DepositTx \<Rightarrow> derive_error + L1Log" where
  "MarshalDepositLogEvent keccak depositContractAddr deposit =
    rbind (marshalDepositVersion0 deposit) (\<lambda>opaqueData.
    let topics = [DepositEventABIHash keccak, ucast (dFrom deposit), (case dTo deposit of None \<Rightarrow> 0 | Some a \<Rightarrow> ucast a), DepositEventVersion0];
        data = replicate 24 0 @ be_bytes 8 (32 :: uint64) @ replicate 24 0 @ be_bytes 8 (of_nat (length opaqueData) :: uint64) @ opaqueData;
        data = (if length data mod 32 \<noteq> 0 then data @ replicate (32 - length data mod 32) 0 else data) in
    Inr \<lparr>logAddress = depositContractAddr, Topics = topics, logData = data, logBlockHash = 0, logIndex = 0\<rparr>)"

section \<open>The deposits of a block\<close>

text \<open>The result is the deposits and the collected errors. \<open>deposit_logs\<close> is the inner loop over the logs of a receipt.\<close>

fun deposit_logs :: "keccak \<Rightarrow> Address \<Rightarrow> L1Log list \<Rightarrow> DepositTx list \<times> derive_error list \<Rightarrow> DepositTx list \<times> derive_error list" where
  "deposit_logs keccak addr [] st = st"
| "deposit_logs keccak addr (log # logs) (out, errs) =
    deposit_logs keccak addr logs
      (if logAddress log = addr \<and> 0 < length (Topics log) \<and> Topics log ! 0 = DepositEventABIHash keccak then
         (case UnmarshalDepositLogEvent keccak log of
            Inl e \<Rightarrow> (out, errs @ [e])
          | Inr dep \<Rightarrow> (out @ [dep], errs))
       else (out, errs))"

fun UserDeposits :: "keccak \<Rightarrow> Address \<Rightarrow> Receipt list \<Rightarrow> DepositTx list \<times> derive_error list \<Rightarrow> DepositTx list \<times> derive_error list" where
  "UserDeposits keccak addr [] st = st"
| "UserDeposits keccak addr (rec # recs) st =
    UserDeposits keccak addr recs (if rStatus rec \<noteq> ReceiptStatusSuccessful then st else deposit_logs keccak addr (Logs rec) st)"

fun encode_deposits :: "(DepositTx \<Rightarrow> derive_error + bytes) \<Rightarrow> DepositTx list \<Rightarrow> bytes list \<times> derive_error list \<Rightarrow> bytes list \<times> derive_error list" where
  "encode_deposits marshalTx [] st = st"
| "encode_deposits marshalTx (tx # txs) (out, errs) =
    encode_deposits marshalTx txs
      (case marshalTx tx of
         Inl _ \<Rightarrow> (out, errs @ [PlainError ''failed to encode user tx''])
       | Inr opaqueTx \<Rightarrow> (out @ [opaqueTx], errs))"

definition DeriveDeposits :: "keccak \<Rightarrow> (DepositTx \<Rightarrow> derive_error + bytes) \<Rightarrow> Address \<Rightarrow> Receipt list \<Rightarrow> bytes list \<times> derive_error list" where
  "DeriveDeposits keccak marshalTx addr receipts =
    (let (userDeposits, errs) = UserDeposits keccak addr receipts ([], []) in encode_deposits marshalTx userDeposits ([], errs))"

section \<open>Payload attributes\<close>

record PayloadAttributes =
  aTimestamp :: uint64
  PrevRandao :: Hash
  SuggestedFeeRecipient :: Address
  hasWithdrawals :: bool
  ParentBeaconBlockRoot :: "Hash option"
  aTransactions :: "bytes list"
  NoTxPool :: bool
  aGasLimit :: "uint64 option"
  aEIP1559Params :: "uint64 option"

definition IsDepositsOnly :: "PayloadAttributes \<Rightarrow> bool" where
  "IsDepositsOnly a = list_all (\<lambda>tx. tx \<noteq> [] \<and> tx ! 0 = DepositTxType) (aTransactions a)"

definition WithDepositsOnly :: "PayloadAttributes \<Rightarrow> PayloadAttributes" where
  "WithDepositsOnly a = a\<lparr>aTransactions := filter (\<lambda>tx. 0 < length tx \<and> tx ! 0 = DepositTxType) (aTransactions a)\<rparr>"

definition SequencerFeeVaultAddr :: Address where "SequencerFeeVaultAddr = 0x4200000000000000000000000000000000000011"

text \<open>The L1 and L2 clients as the builder sees them, the transaction codec, and the upgrade transactions of the
  three forks that have some.\<close>

record attributes_env =
  keccakOf :: keccak
  marshalTxOf :: "DepositTx \<Rightarrow> derive_error + bytes"
  calcBlobFeeCancunOf :: "uint64 \<Rightarrow> int"
  systemConfigByL2Hash :: "Hash \<Rightarrow> fetch_error + SystemConfig"
  fetchReceipts :: "Hash \<Rightarrow> fetch_error + BlockInfo \<times> Receipt list"
  infoByHash :: "Hash \<Rightarrow> fetch_error + BlockInfo"
  ecotoneUpgradeTxs :: "derive_error + bytes list"
  fjordUpgradeTxs :: "derive_error + bytes list"
  isthmusUpgradeTxs :: "derive_error + bytes list"
  eventHashOf :: Hash

text \<open>The three sources of a block: the L1 header, the deposits of the first block of an epoch, and the sequence number.\<close>

definition epoch_inputs :: "attributes_env \<Rightarrow> Config \<Rightarrow> L2BlockRef \<Rightarrow> BlockID \<Rightarrow> SystemConfig \<Rightarrow>
    derive_error + BlockInfo \<times> bytes list \<times> uint64 \<times> SystemConfig" where
  "epoch_inputs env cfg l2Parent epoch sysConfig =
    (if bNumber (L1Origin l2Parent) \<noteq> bNumber epoch then
       (case fetchReceipts env (bHash epoch) of
          Inl _ \<Rightarrow> Inl (TemporaryError ''failed to fetch L1 block info and receipts'')
        | Inr (info, receipts) \<Rightarrow>
           if bHash (L1Origin l2Parent) \<noteq> hParentHash info then Inl (ResetError ''cannot create new block with L1 origin'')
           else
             let (deposits, errs) = DeriveDeposits (keccakOf env) (marshalTxOf env) (DepositContractAddress cfg) receipts in
             if errs \<noteq> [] then Inl (CriticalError ''failed to derive some deposits'')
             else
               let (errs, sysConfig) = UpdateSystemConfigWithL1Receipts (eventHashOf env) cfg (hTime info) receipts ([], sysConfig) in
               if errs \<noteq> [] then Inl (CriticalError ''failed to apply derived L1 sysCfg updates'')
               else Inr (info, deposits, 0, sysConfig))
     else if bHash (L1Origin l2Parent) \<noteq> bHash epoch then Inl (ResetError ''cannot create new block in conflict with L1 origin'')
     else
       (case infoByHash env (bHash epoch) of
          Inl _ \<Rightarrow> Inl (TemporaryError ''failed to fetch L1 block info'')
        | Inr info \<Rightarrow> Inr (info, [], SequenceNumber l2Parent + 1, sysConfig)))"

definition upgrade_txs :: "bool \<Rightarrow> derive_error + bytes list \<Rightarrow> derive_error + bytes list" where
  "upgrade_txs active txs =
    (if active then (case txs of Inl _ \<Rightarrow> Inl (CriticalError ''failed to build network upgrade txs'') | Inr txs \<Rightarrow> Inr txs) else Inr [])"

definition PreparePayloadAttributes :: "attributes_env \<Rightarrow> Config \<Rightarrow> bool \<Rightarrow> L2BlockRef \<Rightarrow> BlockID \<Rightarrow> derive_error + PayloadAttributes" where
  "PreparePayloadAttributes env cfg testSkipL1OriginCheck l2Parent epoch =
    (case systemConfigByL2Hash env (l2Hash l2Parent) of
       Inl _ \<Rightarrow> Inl (TemporaryError ''failed to retrieve L2 parent block'')
     | Inr sysConfig \<Rightarrow>
        rbind (epoch_inputs env cfg l2Parent epoch sysConfig) (\<lambda>(l1Info, depositTxs, seqNumber, sysConfig).
        let nextL2Time = l2Time l2Parent + BlockTime cfg in
        if \<not> testSkipL1OriginCheck \<and> nextL2Time < hTime l1Info then Inl (ResetError ''cannot build L2 block before L1 origin'')
        else
          rbind (upgrade_txs (IsEcotoneActivationBlock cfg nextL2Time) (ecotoneUpgradeTxs env)) (\<lambda>ecotone.
          rbind (upgrade_txs (IsFjordActivationBlock cfg nextL2Time) (fjordUpgradeTxs env)) (\<lambda>fjord.
          rbind (upgrade_txs (IsIsthmusActivationBlock cfg nextL2Time) (isthmusUpgradeTxs env)) (\<lambda>isthmus.
          case L1InfoDepositBytes (marshalTxOf env) (keccakOf env) (calcBlobFeeCancunOf env) cfg sysConfig seqNumber l1Info nextL2Time of
            Inl (Panic msg) \<Rightarrow> Inl (Panic msg)
          | Inl _ \<Rightarrow> Inl (CriticalError ''failed to create l1InfoTx'')
          | Inr l1InfoTx \<Rightarrow>
             Inr \<lparr>aTimestamp = nextL2Time, PrevRandao = hMixDigest l1Info, SuggestedFeeRecipient = SequencerFeeVaultAddr,
                  hasWithdrawals = IsCanyon cfg nextL2Time,
                  ParentBeaconBlockRoot =
                    (if IsEcotone cfg nextL2Time then (case hParentBeaconRoot l1Info of None \<Rightarrow> Some 0 | Some r \<Rightarrow> Some r) else None),
                  aTransactions = l1InfoTx # depositTxs @ ecotone @ fjord @ isthmus, NoTxPool = True,
                  aGasLimit = Some (GasLimit sysConfig),
                  aEIP1559Params = (if IsHolocene cfg nextL2Time then Some (EIP1559Params sysConfig) else None)\<rparr>)))))"

section \<open>Deposit logs round trip\<close>

definition word_nat :: "int \<Rightarrow> bool" where "word_nat n \<longleftrightarrow> 0 \<le> n \<and> n < 2 ^ 256"

lemma word_nat_back: "word_nat n \<Longrightarrow> uint (be_word (be_bytes 32 (word_of_int \<bar>n\<bar> :: 256 word)) :: 256 word) = n"
  by (simp add: word_nat_def uint_word_of_int take_bit_int_eq_self)

definition user_deposit :: "DepositTx \<Rightarrow> bool" where
  "user_deposit dep \<longleftrightarrow> \<not> IsSystemTransaction dep \<and> word_nat (dValue dep) \<and> length (dData dep) < 2 ^ 62 \<and>
    (case Mint dep of None \<Rightarrow> True | Some m \<Rightarrow> word_nat m \<and> m \<noteq> 0)"

lemma opaque_round_trip:
  assumes "user_deposit dep"
  shows "\<exists>od. marshalDepositVersion0 dep = Inr od \<and> length od = 73 + length (dData dep) \<and>
    (\<forall>d to. dTo d = None \<and> (dTo dep = None \<or> dTo dep = Some to) \<longrightarrow>
      unmarshalDepositVersion0 d to od = Inr (d\<lparr>Mint := Mint dep, dValue := dValue dep, dGas := dGas dep, dTo := dTo dep, dData := dData dep\<rparr>))"
proof -
  define mint where "mint = (case Mint dep of None \<Rightarrow> replicate 32 0 | Some m \<Rightarrow> be_bytes 32 (word_of_int \<bar>m\<bar> :: 256 word))"
  define val where "val = be_bytes 32 (word_of_int \<bar>dValue dep\<bar> :: 256 word)"
  define rest where "rest = be_bytes 8 (dGas dep) @ [if dTo dep = None then 1 else 0] @ dData dep"
  have len: "length mint = 32" "length val = 32" by (auto simp: mint_def val_def split: option.splits)
  have m: "marshalDepositVersion0 dep = Inr (mint @ val @ rest)"
    using assms by (auto simp: marshalDepositVersion0_def user_deposit_def word_nat_def mint_def val_def rest_def split: option.splits)
  have s: "go_slice (mint @ val @ rest) 0 32 = mint" "go_slice (mint @ val @ rest) 32 64 = val"
    "go_slice (mint @ val @ rest) 64 72 = be_bytes 8 (dGas dep)" "drop 73 (mint @ val @ rest) = dData dep"
    "(mint @ val @ rest) ! 72 = (if dTo dep = None then 1 else 0)"
    using len by (simp_all add: go_slice_def rest_def nth_append)
  have z: "uint (be_word (replicate 32 0) :: 256 word) = 0" using word_nat_back [of 0] by (simp add: word_nat_def be_bytes_0)
  have "(if uint (be_word mint :: 256 word) = 0 then None else Some (uint (be_word mint :: 256 word))) = Mint dep"
    using assms z word_nat_back by (auto simp: mint_def user_deposit_def split: option.splits)
  moreover have "uint (be_word val :: 256 word) = dValue dep"
    unfolding val_def using assms by (intro word_nat_back) (simp add: user_deposit_def)
  ultimately show ?thesis
    using m s len by (auto simp: unmarshalDepositVersion0_def Let_def rest_def)
qed

lemma ucast_address_back: "ucast (ucast (a :: Address) :: Hash) = a"
  by (rule bit_word_eqI) (simp add: bit_ucast_iff)

lemma be_bytes_ucast:
  assumes "LENGTH('a) \<le> LENGTH('b)"
  shows "be_bytes k (ucast (w :: 'a::len word) :: 'b::len word) = be_bytes k w"
proof (induction k arbitrary: w)
  case (Suc k)
  have "drop_bit 8 (ucast w :: 'b word) = ucast (drop_bit 8 w)"
    using assms by (intro bit_word_eqI) (auto simp: bit_drop_bit_eq bit_ucast_iff dest: bit_imp_le_length)
  moreover have "ucast (ucast w :: 'b word) = (ucast w :: byte)"
    using assms by (intro bit_word_eqI) (auto simp: bit_ucast_iff dest: bit_imp_le_length)
  ultimately show ?case using Suc.IH [of "drop_bit 8 w"] by simp
qed simp

lemma be_uint64_word: "uint (be_word (replicate 24 0 @ be_bytes 8 (n :: uint64)) :: 256 word) = uint n"
proof -
  have z: "drop_bit 64 (ucast n :: 256 word) = 0"
    by (intro bit_word_eqI) (auto simp: bit_drop_bit_eq bit_ucast_iff dest: bit_imp_le_length)
  have "be_bytes 32 (ucast n :: 256 word) = replicate 24 0 @ be_bytes 8 n"
    using be_bytes_split [of 24 32 "ucast n :: 256 word"] z by (simp add: be_bytes_ucast be_bytes_0)
  then have "be_word (replicate 24 0 @ be_bytes 8 n) = (ucast n :: 256 word)"
    using be_word_be_bytes [of 32 "ucast n :: 256 word"] by simp
  then show ?thesis by (simp add: uint_up_ucast is_up)
qed


lemma round_up_32: "((n :: nat) + (32 - n mod 32)) mod 32 = 0"
proof -
  have "q * 32 + r + (32 - r) = 32 * (q + 1)" if "r < 32" for q r :: nat using that by simp
  from this [of "n mod 32" "n div 32"] have "n + (32 - n mod 32) = 32 * (n div 32 + 1)" unfolding div_mult_mod_eq by simp
  then show ?thesis by simp
qed

lemma deposit_log_back:
  assumes "user_deposit dep"
  shows "\<exists>ev. MarshalDepositLogEvent keccak addr dep = Inr ev \<and> logAddress ev = addr \<and> hd (Topics ev) = DepositEventABIHash keccak \<and> Topics ev \<noteq> [] \<and>
    (\<forall>blk idx. UnmarshalDepositLogEvent keccak (ev\<lparr>logBlockHash := blk, logIndex := idx\<rparr>) =
      Inr (dep\<lparr>SourceHash := UserDepositSource_SourceHash keccak blk idx\<rparr>))"
proof -
  obtain od where od: "marshalDepositVersion0 dep = Inr od" "length od = 73 + length (dData dep)"
    "\<And>d to. dTo d = None \<Longrightarrow> dTo dep = None \<or> dTo dep = Some to \<Longrightarrow>
      unmarshalDepositVersion0 d to od = Inr (d\<lparr>Mint := Mint dep, dValue := dValue dep, dGas := dGas dep, dTo := dTo dep, dData := dData dep\<rparr>)"
    using opaque_round_trip [OF assms] by blast
  define L where "L = length od"
  have L: "L < 2 ^ 63" using od(2) assms by (simp add: L_def user_deposit_def)
  define hdr where "hdr = replicate 24 0 @ be_bytes 8 (32 :: uint64)"
  define ln where "ln = replicate 24 0 @ be_bytes 8 (of_nat L :: uint64)"
  define pad where "pad = (if (64 + L) mod 32 \<noteq> 0 then replicate (32 - (64 + L) mod 32) 0 else [] :: bytes)"
  define data where "data = hdr @ ln @ od @ pad"
  have len: "length hdr = 32" "length ln = 32" "length data = 64 + L + length pad" by (simp_all add: hdr_def ln_def data_def L_def)
  have pad: "length pad < 32" "(64 + L + length pad) mod 32 = 0"
    using round_up_32 [of "64 + L"] by (auto simp: pad_def)
  have s: "go_slice data 0 32 = hdr" "go_slice data 32 64 = ln" "go_slice data 64 (64 + L) = od"
    using len by (simp_all add: data_def go_slice_def L_def)
  have u: "uint (be_word hdr :: 256 word) = 32" "uint (be_word ln :: 256 word) = int L"
    unfolding hdr_def ln_def be_uint64_word using L by (simp_all add: uint_nat unat_of_nat_lt)
  have ev: "MarshalDepositLogEvent keccak addr dep = Inr \<lparr>logAddress = addr,
      Topics = [DepositEventABIHash keccak, ucast (dFrom dep), (case dTo dep of None \<Rightarrow> 0 | Some a \<Rightarrow> ucast a), DepositEventVersion0],
      logData = data, logBlockHash = 0, logIndex = 0\<rparr>"
    using od(1) by (simp add: MarshalDepositLogEvent_def Let_def data_def hdr_def ln_def pad_def L_def)
  have w: "\<not> (of_nat (length data - 64) :: uint64) < word_of_int (int L)" "\<not> (word_of_int (int L) :: uint64) + 32 \<le> of_nat (length data - 64)"
    using L pad(1) len(3) by (simp_all add: word_less_nat_alt word_le_nat_alt unat_of_nat_lt unat_word_ariths)
  show ?thesis
    unfolding ev using len pad s u w L od(3) assms
    by (auto simp: UnmarshalDepositLogEvent_def Let_def ucast_address_back user_deposit_def split: option.splits)
qed


text \<open>A receipt with deposits (each with the block and the index of its log) among logs of other contracts or events.\<close>

datatype deposit_item = Deposit DepositTx Hash uint64 | OtherLog L1Log

fun deposit_log :: "keccak \<Rightarrow> Address \<Rightarrow> deposit_item \<Rightarrow> L1Log" where
  "deposit_log keccak addr (Deposit dep blk idx) =
    (case MarshalDepositLogEvent keccak addr dep of Inr ev \<Rightarrow> ev\<lparr>logBlockHash := blk, logIndex := idx\<rparr> | Inl _ \<Rightarrow> undefined)"
| "deposit_log keccak addr (OtherLog l) = l"

fun deposit_item_ok :: "keccak \<Rightarrow> Address \<Rightarrow> deposit_item \<Rightarrow> bool" where
  "deposit_item_ok keccak addr (Deposit dep blk idx) = user_deposit dep"
| "deposit_item_ok keccak addr (OtherLog l) = (logAddress l \<noteq> addr \<or> Topics l = [] \<or> hd (Topics l) \<noteq> DepositEventABIHash keccak)"

fun deposits_in :: "keccak \<Rightarrow> deposit_item list \<Rightarrow> DepositTx list" where
  "deposits_in keccak [] = []"
| "deposits_in keccak (Deposit dep blk idx # is) = dep\<lparr>SourceHash := UserDepositSource_SourceHash keccak blk idx\<rparr> # deposits_in keccak is"
| "deposits_in keccak (OtherLog l # is) = deposits_in keccak is"

definition deposit_receipt :: "keccak \<Rightarrow> Address \<Rightarrow> uint64 \<times> deposit_item list \<Rightarrow> Receipt" where
  "deposit_receipt keccak addr r = \<lparr>rStatus = fst r, Logs = map (deposit_log keccak addr) (snd r)\<rparr>"

definition block_deposits :: "keccak \<Rightarrow> (uint64 \<times> deposit_item list) list \<Rightarrow> DepositTx list" where
  "block_deposits keccak rs = concat (map (\<lambda>r. if fst r = ReceiptStatusSuccessful then deposits_in keccak (snd r) else []) rs)"

lemma deposit_logs_exact:
  "list_all (deposit_item_ok keccak addr) is \<Longrightarrow>
   deposit_logs keccak addr (map (deposit_log keccak addr) is) (out, errs) = (out @ deposits_in keccak is, errs)"
proof (induction "is" arbitrary: out rule: deposits_in.induct)
  case (2 keccak dep blk idx ls)
  obtain ev where "MarshalDepositLogEvent keccak addr dep = Inr ev" "logAddress ev = addr" "hd (Topics ev) = DepositEventABIHash keccak"
    "Topics ev \<noteq> []" "UnmarshalDepositLogEvent keccak (ev\<lparr>logBlockHash := blk, logIndex := idx\<rparr>) =
      Inr (dep\<lparr>SourceHash := UserDepositSource_SourceHash keccak blk idx\<rparr>)"
    using deposit_log_back [of dep keccak addr] 2 by auto
  then show ?case using 2 by (auto simp: hd_conv_nth)
next
  case (3 keccak l ls)
  then show ?case by (auto simp: hd_conv_nth)
qed simp

lemma user_deposits_loop:
  "list_all (\<lambda>r. list_all (deposit_item_ok keccak addr) (snd r)) rs \<Longrightarrow>
   UserDeposits keccak addr (map (deposit_receipt keccak addr) rs) (out, errs) = (out @ block_deposits keccak rs, errs)"
  by (induction rs arbitrary: out) (simp_all add: deposit_receipt_def block_deposits_def deposit_logs_exact)

lemma encode_deposits_ok:
  "list_all (\<lambda>tx. marshalTx tx = Inr (txBytes tx)) txs \<Longrightarrow> encode_deposits marshalTx txs (out, errs) = (out @ map txBytes txs, errs)"
  by (induction txs arbitrary: out) simp_all

text \<open>C16: Deposits are neither lost, nor invented, nor reordered: from receipts with any user deposits among logs of other contracts or events
  exactly the deposits of the successful receipts are derived, in their order, each identified by its L1 block and log index, and
  without an error.\<close>

theorem deposits_exact:
  assumes "list_all (\<lambda>r. list_all (deposit_item_ok keccak addr) (snd r)) rs"
    and "list_all (\<lambda>tx. marshalTx tx = Inr (txBytes tx)) (block_deposits keccak rs)"
  shows "DeriveDeposits keccak marshalTx addr (map (deposit_receipt keccak addr) rs) = (map txBytes (block_deposits keccak rs), [])"
  using assms by (simp add: DeriveDeposits_def user_deposits_loop encode_deposits_ok)

section \<open>The next block\<close>

text \<open>What the clients promise: a header fetched by hash is that of the block, with fees in range; and decoding what the transaction codec
  encoded gives a deposit with the same data.\<close>

definition serves_header :: "(uint64 \<Rightarrow> int) \<Rightarrow> Config \<Rightarrow> BlockID \<Rightarrow> BlockInfo \<Rightarrow> bool" where
  "serves_header calcFee cfg epoch info \<longleftrightarrow> hHash info = bHash epoch \<and> hNumber info = bNumber epoch \<and> fee_ok (hBaseFee info) \<and>
    fee_ok (Some (blob_base_fee calcFee cfg info))"

definition serves_epoch :: "attributes_env \<Rightarrow> Config \<Rightarrow> BlockID \<Rightarrow> bool" where
  "serves_epoch env cfg epoch \<longleftrightarrow>
    (case infoByHash env (bHash epoch) of Inl _ \<Rightarrow> True | Inr info \<Rightarrow> serves_header (calcBlobFeeCancunOf env) cfg epoch info) \<and>
    (case fetchReceipts env (bHash epoch) of Inl _ \<Rightarrow> True | Inr (info, _) \<Rightarrow> serves_header (calcBlobFeeCancunOf env) cfg epoch info)"

definition codec_ok :: "(DepositTx \<Rightarrow> derive_error + bytes) \<Rightarrow> (bytes \<Rightarrow> derive_error + byte \<times> bytes) \<Rightarrow> bool" where
  "codec_ok marshalTx unmarshalTx \<longleftrightarrow> (\<forall>dep b. marshalTx dep = Inr b \<longrightarrow> unmarshalTx b = Inr (DepositTxType, dData dep))"

lemma epoch_inputs_ok:
  assumes "epoch_inputs env cfg parent epoch sc = Inr (info, deps, seq, sc')" and "serves_epoch env cfg epoch"
  shows "serves_header (calcBlobFeeCancunOf env) cfg epoch info \<and>
    seq = (if bNumber (L1Origin parent) = bNumber epoch then SequenceNumber parent + 1 else 0) \<and>
    (if bNumber (L1Origin parent) = bNumber epoch then L1Origin parent = epoch else bHash (L1Origin parent) = hParentHash info)"
  using assms by (cases "infoByHash env (bHash epoch)"; cases "fetchReceipts env (bHash epoch)")
    (auto simp: epoch_inputs_def serves_epoch_def Let_def split: if_splits prod.splits)

lemma L1InfoDepositBytes_ok:
  "L1InfoDepositBytes marshalTx keccak calcFee cfg sc seq info t = Inr b \<longleftrightarrow>
    (\<exists>dep. L1InfoDeposit keccak calcFee cfg sc seq info t = Inr dep \<and> marshalTx dep = Inr b)"
  by (auto simp: L1InfoDepositBytes_def rbind_Inr_iff)

lemma PreparePayloadAttributes_ok:
  assumes "PreparePayloadAttributes env cfg skip parent epoch = Inr a"
  obtains sc info deps seq sc' dep tx u1 u2 u3 where "systemConfigByL2Hash env (l2Hash parent) = Inr sc"
    "epoch_inputs env cfg parent epoch sc = Inr (info, deps, seq, sc')"
    "skip \<or> hTime info \<le> l2Time parent + BlockTime cfg"
    "L1InfoDeposit (keccakOf env) (calcBlobFeeCancunOf env) cfg sc' seq info (l2Time parent + BlockTime cfg) = Inr dep"
    "marshalTxOf env dep = Inr tx" "aTransactions a = tx # deps @ u1 @ u2 @ u3" "aTimestamp a = l2Time parent + BlockTime cfg" "NoTxPool a"
    "aGasLimit a = Some (GasLimit sc')"
    "upgrade_txs (IsEcotoneActivationBlock cfg (l2Time parent + BlockTime cfg)) (ecotoneUpgradeTxs env) = Inr u1"
    "upgrade_txs (IsFjordActivationBlock cfg (l2Time parent + BlockTime cfg)) (fjordUpgradeTxs env) = Inr u2"
    "upgrade_txs (IsIsthmusActivationBlock cfg (l2Time parent + BlockTime cfg)) (isthmusUpgradeTxs env) = Inr u3"
proof -
  let ?t = "l2Time parent + BlockTime cfg"
  obtain sc where sc: "systemConfigByL2Hash env (l2Hash parent) = Inr sc"
    using assms by (cases "systemConfigByL2Hash env (l2Hash parent)") (simp_all add: PreparePayloadAttributes_def)
  obtain info deps seq sc' where e: "epoch_inputs env cfg parent epoch sc = Inr (info, deps, seq, sc')"
    using assms sc by (cases "epoch_inputs env cfg parent epoch sc") (auto simp: PreparePayloadAttributes_def)
  have nok: "(\<not> skip \<and> ?t < hTime info) = False"
    using assms sc e by (cases "\<not> skip \<and> ?t < hTime info") (auto simp: PreparePayloadAttributes_def Let_def)
  let ?up = "\<lambda>act txs. upgrade_txs (act cfg ?t) (txs env)"
  obtain u1 u2 u3 where u: "?up IsEcotoneActivationBlock ecotoneUpgradeTxs = Inr u1" "?up IsFjordActivationBlock fjordUpgradeTxs = Inr u2"
    "?up IsIsthmusActivationBlock isthmusUpgradeTxs = Inr u3"
    using assms sc e nok
    by (cases "?up IsEcotoneActivationBlock ecotoneUpgradeTxs"; cases "?up IsFjordActivationBlock fjordUpgradeTxs";
        cases "?up IsIsthmusActivationBlock isthmusUpgradeTxs") (auto simp: PreparePayloadAttributes_def Let_def)
  define b where "b = L1InfoDepositBytes (marshalTxOf env) (keccakOf env) (calcBlobFeeCancunOf env) cfg sc' seq info ?t"
  obtain tx where tx: "b = Inr tx"
    using assms sc e nok u by (cases b) (auto simp: PreparePayloadAttributes_def Let_def b_def [symmetric] split: derive_error.splits)
  have "aTransactions a = tx # deps @ u1 @ u2 @ u3" "aTimestamp a = ?t" "NoTxPool a" "aGasLimit a = Some (GasLimit sc')"
    using assms sc e nok u tx by (auto simp: PreparePayloadAttributes_def Let_def b_def [symmetric])
  moreover obtain dep where "L1InfoDeposit (keccakOf env) (calcBlobFeeCancunOf env) cfg sc' seq info ?t = Inr dep" "marshalTxOf env dep = Inr tx"
    using tx by (auto simp: b_def L1InfoDepositBytes_ok)
  ultimately show thesis using that sc e nok u by (auto simp: not_less)
qed

text \<open>The attributes prepared for an epoch on top of a parent lead to a block that refers to that epoch: read back from a block built on them (with
  any transactions appended), the L1 origin is the epoch, which is that of the parent or a child of it; the sequence number counts the
  blocks of the epoch; the timestamp is one block time after the parent and not before the L1 origin; and no transaction pool is used.\<close>

theorem next_block_origin:
  assumes "PreparePayloadAttributes env cfg False parent epoch = Inr a"
    and "Check cfg = None" and "serves_epoch env cfg epoch" and "codec_ok (marshalTxOf env) unmarshalTx"
    and "pTimestamp p = aTimestamp a" and "pTransactions p = aTransactions a @ txs" and "pBlockNumber p \<noteq> bNumber (gL2 (cGenesis cfg))"
  shows "\<exists>ref info. PayloadToBlockRef unmarshalTx (keccakOf env) cfg p = Inr ref \<and> L1Origin ref = epoch \<and>
    SequenceNumber ref = (if bNumber (L1Origin parent) = bNumber epoch then SequenceNumber parent + 1 else 0) \<and>
    (if bNumber (L1Origin parent) = bNumber epoch then L1Origin parent = epoch else bHash (L1Origin parent) = hParentHash info) \<and>
    serves_header (calcBlobFeeCancunOf env) cfg epoch info \<and>
    l2Time ref = l2Time parent + BlockTime cfg \<and> hTime info \<le> l2Time ref \<and> NoTxPool a"
proof -
  from assms(1) obtain sc info deps seq sc' dep tx u1 u2 u3 where P:
    "epoch_inputs env cfg parent epoch sc = Inr (info, deps, seq, sc')" "hTime info \<le> l2Time parent + BlockTime cfg"
    "L1InfoDeposit (keccakOf env) (calcBlobFeeCancunOf env) cfg sc' seq info (l2Time parent + BlockTime cfg) = Inr dep"
    "marshalTxOf env dep = Inr tx" "aTransactions a = tx # deps @ u1 @ u2 @ u3" "aTimestamp a = l2Time parent + BlockTime cfg" "NoTxPool a"
    by (rule PreparePayloadAttributes_ok) auto
  note E = epoch_inputs_ok [OF P(1) assms(3)]
  have "fee_ok (hBaseFee info)" "fee_ok (Some (blob_base_fee (calcBlobFeeCancunOf env) cfg info))" using E by (auto simp: serves_header_def)
  from attributes_round_trip [OF assms(2) P(3) this] obtain i where
    "L1BlockInfoFromBytes (keccakOf env) cfg (l2Time parent + BlockTime cfg) (dData dep) = Inr i"
    "attributes_recorded (calcBlobFeeCancunOf env) cfg sc' seq info (l2Time parent + BlockTime cfg) i" by blast
  then have "PayloadToBlockRef unmarshalTx (keccakOf env) cfg p = Inr \<lparr>l2Hash = pBlockHash p, l2Number = pBlockNumber p, l2ParentHash = pParentHash p,
      l2Time = pTimestamp p, L1Origin = \<lparr>bHash = hHash info, bNumber = hNumber info\<rparr>, SequenceNumber = seq\<rparr>"
    using assms(4-7) P by (simp add: PayloadToBlockRef_def first_tx_info_def codec_ok_def attributes_recorded_def)
  then show ?thesis using E P assms(5) by (auto simp: serves_header_def)
qed

definition sample_deposit :: DepositTx where
  "sample_deposit = \<lparr>SourceHash = 0, dFrom = 21, dTo = Some 22, Mint = Some 5, dValue = 9, dGas = 100, IsSystemTransaction = False, dData = [1, 2]\<rparr>"

lemma deposits_exact_witness:
  "DeriveDeposits (\<lambda>_. 7) sample_marshal 10 (map (deposit_receipt (\<lambda>_. 7) 10)
      [(1, [Deposit sample_deposit 5 0, OtherLog \<lparr>logAddress = 10, Topics = [8], logData = [], logBlockHash = 5, logIndex = 1\<rparr>]),
       (0, [Deposit sample_deposit 5 2])]) = ([[DepositTxType, 1, 2]], [])"
proof -
  let ?rs = "[(1, [Deposit sample_deposit 5 0, OtherLog \<lparr>logAddress = 10, Topics = [8], logData = [], logBlockHash = 5, logIndex = 1\<rparr>]),
       (0, [Deposit sample_deposit 5 2])]"
  have "list_all (\<lambda>r. list_all (deposit_item_ok (\<lambda>_. 7) 10) (snd r)) ?rs"
    by (simp add: DepositEventABIHash_def user_deposit_def word_nat_def sample_deposit_def)
  then show ?thesis
    using deposits_exact [of "\<lambda>_. 7" 10 ?rs sample_marshal "\<lambda>dep. DepositTxType # dData dep"]
    by (simp add: sample_marshal_def block_deposits_def ReceiptStatusSuccessful_def sample_deposit_def)
qed

definition sample_env :: attributes_env where
  "sample_env = \<lparr>keccakOf = \<lambda>_. 7, marshalTxOf = sample_marshal, calcBlobFeeCancunOf = \<lambda>_. 1, systemConfigByL2Hash = \<lambda>_. Inr sample_sysconfig,
    fetchReceipts = \<lambda>_. Inr (sample_header, []), infoByHash = \<lambda>_. Inr sample_header, ecotoneUpgradeTxs = Inr [], fjordUpgradeTxs = Inr [],
    isthmusUpgradeTxs = Inr [], eventHashOf = 99\<rparr>"

definition sample_parent :: L2BlockRef where
  "sample_parent = \<lparr>l2Hash = 1, l2Number = 25, l2ParentHash = 0, l2Time = 60, L1Origin = \<lparr>bHash = 4, bNumber = 6\<rparr>, SequenceNumber = 4\<rparr>"

lemma next_block_origin_witness:
  "\<exists>a ref. PreparePayloadAttributes sample_env (sample_config 12 14) False sample_parent \<lparr>bHash = 5, bNumber = 7\<rparr> = Inr a \<and>
    PayloadToBlockRef sample_unmarshal (\<lambda>_. 7) (sample_config 12 14) (sample_payload (aTransactions a @ [[1]])) = Inr ref \<and>
    L1Origin ref = \<lparr>bHash = 5, bNumber = 7\<rparr> \<and> SequenceNumber ref = 0 \<and> l2Time ref = 62"
proof -
  let ?e = "\<lparr>bHash = 5, bNumber = 7\<rparr>"
  have "(case PreparePayloadAttributes sample_env (sample_config 12 14) False sample_parent ?e of Inl _ \<Rightarrow> False | Inr a \<Rightarrow> aTimestamp a = 62)"
    by code_simp
  then obtain a where a: "PreparePayloadAttributes sample_env (sample_config 12 14) False sample_parent ?e = Inr a" "aTimestamp a = 62"
    by (auto split: sum.splits)
  have "serves_epoch sample_env (sample_config 12 14) ?e"
    using sample_fees by (simp add: serves_epoch_def serves_header_def sample_env_def) (simp add: sample_header_def)
  moreover have "codec_ok (marshalTxOf sample_env) sample_unmarshal"
    by (auto simp: codec_ok_def sample_env_def sample_marshal_def sample_unmarshal_def)
  moreover have "pTimestamp (sample_payload (aTransactions a @ [[1]])) = aTimestamp a"
    "pTransactions (sample_payload (aTransactions a @ [[1]])) = aTransactions a @ [[1]]"
    "pBlockNumber (sample_payload (aTransactions a @ [[1]])) \<noteq> bNumber (gL2 (cGenesis (sample_config 12 14)))"
    using a(2) by (simp_all add: sample_payload_def sample_config_def)
  ultimately obtain ref where "PayloadToBlockRef sample_unmarshal (keccakOf sample_env) (sample_config 12 14) (sample_payload (aTransactions a @ [[1]])) = Inr ref"
    "L1Origin ref = ?e" "SequenceNumber ref = (if bNumber (L1Origin sample_parent) = bNumber ?e then SequenceNumber sample_parent + 1 else 0)"
    "l2Time ref = l2Time sample_parent + BlockTime (sample_config 12 14)"
    using next_block_origin [OF a(1) sample_checked] by blast
  then show ?thesis using a(1) by (auto simp: sample_env_def sample_parent_def sample_config_def)
qed

end
