(* ===== verification/BatchRules.thy ===== *)
theory BatchRules
  imports Attributes
begin

text \<open>
  Batches and their validity (\<^verbatim>\<open>op-node/rollup/derive/{batches,singular_batch}.go\<close>, the derived form of span batches in \<^verbatim>\<open>span_batch.go\<close>): the rules by
  which a singular batch or a span of batches may extend the safe chain, and the singular batches of a span. The L2 client is given by
  what it answers: \<open>refByNumber\<close> and \<open>payloadByNumber\<close>.
\<close>

section \<open>Singular batches and spans\<close>

record SingularBatch =
  ParentHash :: Hash
  EpochNum :: uint64
  EpochHash :: Hash
  Timestamp :: uint64
  Transactions :: "bytes list"

record SpanBatchElement =
  seEpochNum :: uint64
  seTimestamp :: uint64
  seTransactions :: "bytes list"

text \<open>Of a span batch the fields of its derived form; the encoder's fields are an extension of the record.\<close>

record SpanBatch =
  ParentCheck :: bytes
  L1OriginCheck :: bytes
  Batches :: "SpanBatchElement list"

datatype Batch = Singular SingularBatch | Span SpanBatch

record BatchWithL1InclusionBlock =
  biBatch :: Batch
  L1InclusionBlock :: L1BlockRef

datatype BatchValidity = BatchDrop | BatchAccept | BatchUndecided | BatchFuture | BatchPast

definition SetCodeTxType :: byte where "SetCodeTxType = 4"

definition Epoch :: "SingularBatch \<Rightarrow> BlockID" where
  "Epoch b = \<lparr>bHash = EpochHash b, bNumber = EpochNum b\<rparr>"

definition CheckOriginHash :: "SpanBatch \<Rightarrow> Hash \<Rightarrow> bool" where
  "CheckOriginHash b h \<longleftrightarrow> L1OriginCheck b = take 20 (be_bytes 32 h)"

definition CheckParentHash :: "SpanBatch \<Rightarrow> Hash \<Rightarrow> bool" where
  "CheckParentHash b h \<longleftrightarrow> ParentCheck b = take 20 (be_bytes 32 h)"

section \<open>The rules of singular batches\<close>

text \<open>The loop over the transactions; the first test excludes the panic of reading the type of an empty one.\<close>

fun valid_txs :: "bool \<Rightarrow> bytes list \<Rightarrow> bool" where
  "valid_txs setCodeAllowed [] = True"
| "valid_txs setCodeAllowed (tx # txs) =
    (if length tx = 0 then False
     else if tx ! 0 = DepositTxType then False
     else if \<not> setCodeAllowed \<and> tx ! 0 = SetCodeTxType then False
     else valid_txs setCodeAllowed txs)"

definition checkSingularBatch :: "Config \<Rightarrow> L1BlockRef list \<Rightarrow> L2BlockRef \<Rightarrow> SingularBatch \<Rightarrow> L1BlockRef \<Rightarrow> BatchValidity" where
  "checkSingularBatch cfg l1Blocks l2SafeHead batch l1InclusionBlock =
    (if length l1Blocks = 0 then BatchUndecided
     else
       let epoch = l1Blocks ! 0; nextTimestamp = l2Time l2SafeHead + BlockTime cfg in
       if nextTimestamp < Timestamp batch then (if IsHolocene cfg (l1Time l1InclusionBlock) then BatchDrop else BatchFuture)
       else if Timestamp batch < nextTimestamp then (if IsHolocene cfg (l1Time l1InclusionBlock) then BatchPast else BatchDrop)
       else if ParentHash batch \<noteq> l2Hash l2SafeHead then BatchDrop
       else if EpochNum batch + SeqWindowSize cfg < l1Number l1InclusionBlock then BatchDrop
       else
         case (if EpochNum batch < l1Number epoch then Inl BatchDrop
               else if EpochNum batch = l1Number epoch then Inr epoch
               else if EpochNum batch = l1Number epoch + 1
               then (if length l1Blocks < 2 then Inl BatchUndecided else Inr (l1Blocks ! 1))
               else Inl BatchDrop) of
           Inl v \<Rightarrow> v
         | Inr batchOrigin \<Rightarrow>
            if EpochHash batch \<noteq> l1Hash batchOrigin then BatchDrop
            else if Timestamp batch < l1Time batchOrigin then BatchDrop
            else
              case (if l1Time batchOrigin + MaxSequencerDrift (NewChainSpec cfg) (l1Time batchOrigin) < Timestamp batch then
                      (if length (Transactions batch) = 0 then
                         (if l1Number epoch = l1Number batchOrigin then
                            (if length l1Blocks < 2 then Some BatchUndecided
                             else if l1Time (l1Blocks ! 1) \<le> Timestamp batch then Some BatchDrop else None)
                          else None)
                       else Some BatchDrop)
                    else None) of
                Some v \<Rightarrow> v
              | None \<Rightarrow> if valid_txs (IsIsthmus cfg (Timestamp batch)) (Transactions batch) then BatchAccept else BatchDrop)"

section \<open>The rules of span batches\<close>

definition empty_l2_ref :: L2BlockRef where
  "empty_l2_ref = \<lparr>l2Hash = 0, l2Number = 0, l2ParentHash = 0, l2Time = 0, L1Origin = \<lparr>bHash = 0, bNumber = 0\<rparr>, SequenceNumber = 0\<rparr>"

type_synonym prefix_result = "derive_error + BatchValidity \<times> L2BlockRef"

text \<open>The parent of a span: the safe head or, for a span that overlaps the safe chain, an earlier block. \<open>Inl\<close> is the early return.\<close>

definition span_parent :: "(uint64 \<Rightarrow> fetch_error + L2BlockRef) \<Rightarrow> Config \<Rightarrow> L2BlockRef \<Rightarrow> uint64 \<Rightarrow> prefix_result + L2BlockRef" where
  "span_parent refByNumber cfg l2SafeHead timestamp =
    (if timestamp < l2Time l2SafeHead + BlockTime cfg then
       if l2Time l2SafeHead < timestamp then Inl (Inr (BatchDrop, empty_l2_ref))
       else if BlockTime cfg = 0 then Inl (Inl (Panic ''integer divide by zero''))
       else if (l2Time l2SafeHead - timestamp) mod BlockTime cfg \<noteq> 0 then Inl (Inr (BatchDrop, empty_l2_ref))
       else
         (case refByNumber (l2Number l2SafeHead - (l2Time l2SafeHead - timestamp) div BlockTime cfg - 1) of
            Inl _ \<Rightarrow> Inl (Inr (BatchUndecided, empty_l2_ref))
          | Inr parent \<Rightarrow> Inr parent)
     else Inr l2SafeHead)"

definition checkSpanBatchPrefix :: "(uint64 \<Rightarrow> fetch_error + L2BlockRef) \<Rightarrow> Config \<Rightarrow> L1BlockRef list \<Rightarrow> L2BlockRef \<Rightarrow> SpanBatch \<Rightarrow> L1BlockRef \<Rightarrow>
    prefix_result" where
  "checkSpanBatchPrefix refByNumber cfg l1Blocks l2SafeHead batch l1InclusionBlock =
    (if length l1Blocks = 0 then Inr (BatchUndecided, empty_l2_ref)
     else if Batches batch = [] then Inl (Panic ''index out of range'')
     else
       let epoch = l1Blocks ! 0; startEpochNum = seEpochNum (Batches batch ! 0); timestamp = seTimestamp (Batches batch ! 0);
           lastBlock = Batches batch ! (length (Batches batch) - 1) in
       if startEpochNum = l1Number epoch + 1 \<and> length l1Blocks < 2 then Inr (BatchUndecided, empty_l2_ref)
       else
         let batchOrigin = (if startEpochNum = l1Number epoch + 1 then l1Blocks ! 1 else epoch);
             nextTimestamp = l2Time l2SafeHead + BlockTime cfg in
         if \<not> IsDelta cfg (l1Time batchOrigin) then Inr (BatchDrop, empty_l2_ref)
         else if nextTimestamp < timestamp
         then Inr (if IsHolocene cfg (l1Time l1InclusionBlock) then BatchDrop else BatchFuture, empty_l2_ref)
         else if seTimestamp lastBlock < nextTimestamp
         then Inr (if IsHolocene cfg (l1Time l1InclusionBlock) then BatchPast else BatchDrop, empty_l2_ref)
         else
           case span_parent refByNumber cfg l2SafeHead timestamp of
             Inl r \<Rightarrow> r
           | Inr parentBlock \<Rightarrow>
              if \<not> CheckParentHash batch (l2Hash parentBlock) then Inr (BatchDrop, parentBlock)
              else if startEpochNum + SeqWindowSize cfg < l1Number l1InclusionBlock then Inr (BatchDrop, parentBlock)
              else if bNumber (L1Origin parentBlock) + 1 < startEpochNum then Inr (BatchDrop, parentBlock)
              else
                (case find (\<lambda>b. l1Number b = seEpochNum lastBlock) l1Blocks of
                   None \<Rightarrow> Inr (BatchUndecided, parentBlock)
                 | Some l1Block \<Rightarrow>
                    if \<not> CheckOriginHash batch (l1Hash l1Block) then Inr (BatchDrop, parentBlock)
                    else if startEpochNum < bNumber (L1Origin parentBlock) then Inr (BatchDrop, parentBlock)
                    else Inr (BatchAccept, parentBlock)))"

text \<open>The loops of \<^verbatim>\<open>checkSpanBatch\<close> over the blocks of the span: \<open>origin_from\<close> searches the origin of a block, \<open>span_drift\<close> is the rule of
  the sequencer drift; \<open>None\<close> means that the loop continues. Without a matching L1 block the origin is the zero value.\<close>

fun origin_from :: "uint64 \<Rightarrow> nat \<Rightarrow> L1BlockRef list \<Rightarrow> (nat \<times> L1BlockRef) option" where
  "origin_from num j [] = None"
| "origin_from num j (b # bs) = (if num = l1Number b then Some (j, b) else origin_from num (j + 1) bs)"

definition span_drift :: "Config \<Rightarrow> L1BlockRef list \<Rightarrow> nat \<Rightarrow> L1BlockRef \<Rightarrow> bool \<Rightarrow> SpanBatchElement \<Rightarrow> BatchValidity option" where
  "span_drift cfg l1Blocks originIdx l1Origin originAdvanced e =
    (if l1Time l1Origin + MaxSequencerDrift (NewChainSpec cfg) (l1Time l1Origin) < seTimestamp e then
       (if length (seTransactions e) = 0 then
          (if \<not> originAdvanced then
             (if length l1Blocks \<le> originIdx + 1 then Some BatchUndecided
              else if l1Time (l1Blocks ! (originIdx + 1)) \<le> seTimestamp e then Some BatchDrop else None)
           else None)
        else Some BatchDrop)
     else None)"

fun span_blocks :: "Config \<Rightarrow> L1BlockRef list \<Rightarrow> uint64 \<Rightarrow> nat \<Rightarrow> bool \<Rightarrow> SpanBatchElement option \<Rightarrow> SpanBatchElement list \<Rightarrow> BatchValidity option" where
  "span_blocks cfg l1Blocks safeTime originIdx originAdvanced prev [] = None"
| "span_blocks cfg l1Blocks safeTime originIdx originAdvanced prev (e # es) =
    (if seTimestamp e \<le> safeTime then span_blocks cfg l1Blocks safeTime originIdx originAdvanced (Some e) es
     else
       let (originIdx, l1Origin) =
             (case origin_from (seEpochNum e) originIdx (drop originIdx l1Blocks) of Some r \<Rightarrow> r | None \<Rightarrow> (originIdx, no_block));
           originAdvanced = (case prev of None \<Rightarrow> originAdvanced | Some p \<Rightarrow> seEpochNum p < seEpochNum e) in
       if seTimestamp e < l1Time l1Origin then Some BatchDrop
       else
         case span_drift cfg l1Blocks originIdx l1Origin originAdvanced e of
           Some v \<Rightarrow> Some v
         | None \<Rightarrow>
            if \<not> valid_txs True (seTransactions e) then Some BatchDrop
            else span_blocks cfg l1Blocks safeTime originIdx originAdvanced (Some e) es)"

text \<open>The comparison of an overlapped block with the safe chain: the loop runs over \<open>i\<close> and ends after \<open>n\<close> rounds.\<close>

definition overlap_block :: "(bytes \<Rightarrow> derive_error + byte \<times> bytes) \<Rightarrow> keccak \<Rightarrow> Config \<Rightarrow> SpanBatch \<Rightarrow> nat \<Rightarrow> ExecutionPayload \<Rightarrow>
    derive_error + BatchValidity option" where
  "overlap_block unmarshalTx keccak cfg batch i safePayload =
    (if length (Batches batch) \<le> i then Inl (Panic ''index out of range'')
     else
       let e = Batches batch ! i; safeBlockTxs = pTransactions safePayload; batchTxs = seTransactions e in
       if [] \<in> set safeBlockTxs then Inl (Panic ''index out of range'')
       else
         let depositCount = length (filter (\<lambda>tx. tx ! 0 = DepositTxType) safeBlockTxs) in
         if length safeBlockTxs - depositCount \<noteq> length batchTxs then Inr (Some BatchDrop)
         else if drop depositCount safeBlockTxs \<noteq> batchTxs then Inr (Some BatchDrop)
         else
           (case PayloadToBlockRef unmarshalTx keccak cfg safePayload of
              Inl _ \<Rightarrow> Inr (Some BatchDrop)
            | Inr ref \<Rightarrow> if bNumber (L1Origin ref) \<noteq> seEpochNum e then Inr (Some BatchDrop) else Inr None))"

fun overlap_loop :: "(uint64 \<Rightarrow> fetch_error + ExecutionPayload) \<Rightarrow> (bytes \<Rightarrow> derive_error + byte \<times> bytes) \<Rightarrow> keccak \<Rightarrow> Config \<Rightarrow> SpanBatch \<Rightarrow>
    uint64 \<Rightarrow> nat \<Rightarrow> nat \<Rightarrow> derive_error + BatchValidity option" where
  "overlap_loop payloadByNumber unmarshalTx keccak cfg batch parentNum i 0 = Inr None"
| "overlap_loop payloadByNumber unmarshalTx keccak cfg batch parentNum i (Suc n) =
    (case payloadByNumber (parentNum + of_nat i + 1) of
       Inl _ \<Rightarrow> Inr (Some BatchUndecided)
     | Inr safePayload \<Rightarrow>
        (case overlap_block unmarshalTx keccak cfg batch i safePayload of
           Inl e \<Rightarrow> Inl e
         | Inr (Some v) \<Rightarrow> Inr (Some v)
         | Inr None \<Rightarrow> overlap_loop payloadByNumber unmarshalTx keccak cfg batch parentNum (i + 1) n))"

record l2_env =
  l2Keccak :: keccak
  unmarshalTxOf :: "bytes \<Rightarrow> derive_error + byte \<times> bytes"
  refByNumber :: "uint64 \<Rightarrow> fetch_error + L2BlockRef"
  payloadByNumber :: "uint64 \<Rightarrow> fetch_error + ExecutionPayload"

definition checkSpanBatch :: "l2_env \<Rightarrow> Config \<Rightarrow> L1BlockRef list \<Rightarrow> L2BlockRef \<Rightarrow> SpanBatch \<Rightarrow> L1BlockRef \<Rightarrow> derive_error + BatchValidity" where
  "checkSpanBatch l2 cfg l1Blocks l2SafeHead batch l1InclusionBlock =
    rbind (checkSpanBatchPrefix (refByNumber l2) cfg l1Blocks l2SafeHead batch l1InclusionBlock) (\<lambda>(prefixValidity, parentBlock).
    if prefixValidity \<noteq> BatchAccept then Inr prefixValidity
    else
      let startEpochNum = seEpochNum (Batches batch ! 0); timestamp = seTimestamp (Batches batch ! 0) in
      case span_blocks cfg l1Blocks (l2Time l2SafeHead) 0 (startEpochNum = bNumber (L1Origin parentBlock) + 1) None (Batches batch) of
        Some v \<Rightarrow> Inr v
      | None \<Rightarrow>
         if timestamp < l2Time l2SafeHead + BlockTime cfg then
           rbind (overlap_loop (payloadByNumber l2) (unmarshalTxOf l2) (l2Keccak l2) cfg batch (l2Number parentBlock) 0
                    (unat (l2Number l2SafeHead - l2Number parentBlock))) (\<lambda>r.
           case r of Some v \<Rightarrow> Inr v | None \<Rightarrow> Inr BatchAccept)
         else Inr BatchAccept)"

definition CheckBatch :: "l2_env \<Rightarrow> Config \<Rightarrow> L1BlockRef list \<Rightarrow> L2BlockRef \<Rightarrow> BatchWithL1InclusionBlock \<Rightarrow> derive_error + BatchValidity" where
  "CheckBatch l2 cfg l1Blocks l2SafeHead batch =
    (case biBatch batch of
       Singular b \<Rightarrow> Inr (checkSingularBatch cfg l1Blocks l2SafeHead b (L1InclusionBlock batch))
     | Span b \<Rightarrow> checkSpanBatch l2 cfg l1Blocks l2SafeHead b (L1InclusionBlock batch))"

section \<open>The singular batches of a span\<close>

text \<open>The parent hash is set later, when the batch is handed out.\<close>

fun singular_loop :: "L1BlockRef list \<Rightarrow> uint64 \<Rightarrow> nat \<Rightarrow> SpanBatchElement list \<Rightarrow> derive_error + SingularBatch list" where
  "singular_loop l1Origins safeTime originIdx [] = Inr []"
| "singular_loop l1Origins safeTime originIdx (e # es) =
    (if seTimestamp e \<le> safeTime then singular_loop l1Origins safeTime originIdx es
     else
       case origin_from (seEpochNum e) originIdx (drop originIdx l1Origins) of
         None \<Rightarrow> Inl (PlainError ''unable to find L1 origin for the epoch number'')
       | Some (originIdx, b) \<Rightarrow>
          rbind (singular_loop l1Origins safeTime originIdx es) (\<lambda>rest.
          Inr (\<lparr>ParentHash = 0, EpochNum = seEpochNum e, EpochHash = l1Hash b, Timestamp = seTimestamp e, Transactions = seTransactions e\<rparr> # rest)))"

definition GetSingularBatches :: "SpanBatch \<Rightarrow> L1BlockRef list \<Rightarrow> L2BlockRef \<Rightarrow> derive_error + SingularBatch list" where
  "GetSingularBatches b l1Origins l2SafeHead = singular_loop l1Origins (l2Time l2SafeHead) 0 (Batches b)"

section \<open>More L1 blocks do not change a decision\<close>

lemma singular_more_blocks:
  assumes "checkSingularBatch cfg bs head b incl \<noteq> BatchUndecided"
  shows "checkSingularBatch cfg (bs @ extra) head b incl = checkSingularBatch cfg bs head b incl"
proof -
  have "bs \<noteq> []" using assms by (auto simp: checkSingularBatch_def)
  then consider e where "bs = [e]" | e n rest where "bs = e # n # rest" by (cases bs; cases "tl bs") auto
  then show ?thesis
  proof cases
    case 1
    then show ?thesis using assms
      by (simp add: checkSingularBatch_def Let_def split del: if_split split: if_split_asm)
  next
    case 2
    then show ?thesis by (simp add: checkSingularBatch_def Let_def)
  qed
qed

section \<open>Spans of valid batches\<close>

definition l1_chain :: "nat \<Rightarrow> L1BlockRef list \<Rightarrow> bool" where
  "l1_chain n bs \<longleftrightarrow> (\<forall>j < length bs. unat (l1Number (bs ! j)) = n + j)"

lemma origin_from_chain:
  assumes "l1_chain n bs" and "i \<le> j" and "j < length bs" and "unat num = n + j"
  shows "origin_from num i (drop i bs) = Some (j, bs ! j)"
  using assms(2,3)
proof (induction "j - i" arbitrary: i)
  case 0
  then have "drop i bs = bs ! i # drop (Suc i) bs" by (simp add: Cons_nth_drop_Suc)
  moreover have "num = l1Number (bs ! i)" using 0 assms(1,4) by (simp add: l1_chain_def word_eq_iff_unsigned [where 'a = nat])
  ultimately show ?case using 0 by simp
next
  case (Suc d)
  then have "drop i bs = bs ! i # drop (Suc i) bs" by (simp add: Cons_nth_drop_Suc)
  moreover have "unat (l1Number (bs ! i)) = n + i" using assms(1) Suc by (simp add: l1_chain_def)
  then have "num \<noteq> l1Number (bs ! i)" using Suc.hyps(2) assms(4) by auto
  moreover have "origin_from num (Suc i) (drop (Suc i) bs) = Some (j, bs ! j)" using Suc by (intro Suc.hyps(1)) simp_all
  ultimately show ?case by simp
qed

definition epochs_of :: "L2BlockRef \<Rightarrow> L1BlockRef list \<Rightarrow> L1BlockRef list" where
  "epochs_of head bs = dropWhile (\<lambda>b. l1Number b < bNumber (L1Origin head)) bs"

lemma epochs_of_chain:
  assumes "l1_chain n bs" and "unat (bNumber (L1Origin head)) = n + k" and "k < length bs"
  shows "epochs_of head bs = drop k bs"
proof -
  let ?P = "\<lambda>b. l1Number b < bNumber (L1Origin head)"
  have "dropWhile ?P bs = dropWhile ?P (take k bs @ drop k bs)" by simp
  also have "\<dots> = dropWhile ?P (drop k bs)"
  proof (rule dropWhile_append2)
    fix x assume "x \<in> set (take k bs)"
    then obtain j where "j < k" "x = bs ! j" by (auto simp: in_set_conv_nth)
    then show "?P x" using assms by (simp add: l1_chain_def word_less_nat_alt)
  qed
  also have "\<dots> = drop k bs"
  proof -
    have "drop k bs = bs ! k # drop (Suc k) bs" using assms(3) by (simp add: Cons_nth_drop_Suc)
    moreover have "\<not> ?P (bs ! k)" using assms by (simp add: l1_chain_def word_less_nat_alt)
    ultimately show ?thesis by simp
  qed
  finally show ?thesis by (simp add: epochs_of_def)
qed

text \<open>The block that a batch leads to; \<open>exec\<close> stands for its hash, which execution determines.\<close>

definition apply_batch :: "(L2BlockRef \<Rightarrow> SingularBatch \<Rightarrow> Hash) \<Rightarrow> L2BlockRef \<Rightarrow> SingularBatch \<Rightarrow> L2BlockRef" where
  "apply_batch exec head b = \<lparr>l2Hash = exec head b, l2Number = l2Number head + 1, l2ParentHash = l2Hash head, l2Time = Timestamp b, L1Origin = Epoch b,
    SequenceNumber = (if bNumber (L1Origin head) = EpochNum b then SequenceNumber head + 1 else 0)\<rparr>"

fun batches_valid :: "(L2BlockRef \<Rightarrow> SingularBatch \<Rightarrow> Hash) \<Rightarrow> Config \<Rightarrow> L1BlockRef list \<Rightarrow> L1BlockRef \<Rightarrow> L2BlockRef \<Rightarrow> SingularBatch list \<Rightarrow> bool" where
  "batches_valid exec cfg bs incl head [] = True"
| "batches_valid exec cfg bs incl head (b # rest) =
    (let b = b\<lparr>ParentHash := l2Hash head\<rparr> in
     checkSingularBatch cfg (epochs_of head bs) head b incl = BatchAccept \<and> batches_valid exec cfg bs incl (apply_batch exec head b) rest)"

text \<open>The shape of a span as it is derived from its encoding: timestamps advance by the block time, epochs by at most one.\<close>

fun regular :: "Config \<Rightarrow> uint64 \<Rightarrow> uint64 \<Rightarrow> SpanBatchElement list \<Rightarrow> bool" where
  "regular cfg t ep [] = True"
| "regular cfg t ep (e # es) \<longleftrightarrow>
    seTimestamp e = t + BlockTime cfg \<and> t < seTimestamp e \<and> (seEpochNum e = ep \<or> unat (seEpochNum e) = unat ep + 1) \<and>
    regular cfg (seTimestamp e) (seEpochNum e) es"

lemma span_blocks_valid:
  assumes "l1_chain n bs" and "span_blocks cfg bs safe k adv prev es = None" and "list_all (\<lambda>e. safe < seTimestamp e) es"
    and "regular cfg (l2Time head) (bNumber (L1Origin head)) es"
    and "unat (bNumber (L1Origin head)) = n + k" and "k < length bs"
    and "es \<noteq> [] \<longrightarrow> (case prev of None \<Rightarrow> adv | Some p \<Rightarrow> seEpochNum p < seEpochNum (hd es)) = (seEpochNum (hd es) \<noteq> bNumber (L1Origin head))"
    and "list_all (\<lambda>e. unat (seEpochNum e) < n + length bs \<and> l1Number incl \<le> seEpochNum e + SeqWindowSize cfg) es"
    and "list_all (\<lambda>e. valid_txs True (seTransactions e) \<longrightarrow> valid_txs (IsIsthmus cfg (seTimestamp e)) (seTransactions e)) es"
  shows "\<exists>sbs. singular_loop bs safe k es = Inr sbs \<and> batches_valid exec cfg bs incl head sbs \<and> length sbs = length es"
  using assms(2-)
proof (induction es arbitrary: k adv prev head)
  case (Cons e es)
  let ?o = "bNumber (L1Origin head)"
  define j where "j = (if seEpochNum e = ?o then k else Suc k)"
  have ep: "unat (seEpochNum e) = n + j" using Cons.prems(3,4) by (auto simp: j_def)
  have j: "k \<le> j" "j < length bs" using Cons.prems(7) ep by (auto simp: j_def)
  have orig: "origin_from (seEpochNum e) k (drop k bs) = Some (j, bs ! j)" by (rule origin_from_chain [OF assms(1) j ep])
  let ?adv = "seEpochNum e \<noteq> ?o"
  have adv: "(case prev of None \<Rightarrow> adv | Some p \<Rightarrow> seEpochNum p < seEpochNum e) = ?adv" using Cons.prems(6) by (cases prev) simp_all
  have ts: "\<not> seTimestamp e \<le> safe" using Cons.prems(2) by (simp add: not_le)
  have S: "\<not> seTimestamp e < l1Time (bs ! j)" "span_drift cfg bs j (bs ! j) ?adv e = None" "valid_txs True (seTransactions e)"
    "span_blocks cfg bs safe j ?adv (Some e) es = None"
    using Cons.prems(1) orig adv ts by (auto split: if_splits option.splits)
  define b where "b = \<lparr>ParentHash = l2Hash head, EpochNum = seEpochNum e, EpochHash = l1Hash (bs ! j), Timestamp = seTimestamp e, Transactions = seTransactions e\<rparr>"
  have num: "unat (l1Number (bs ! i)) = n + i" if "i < length bs" for i using assms(1) that by (simp add: l1_chain_def)
  have eps: "epochs_of head bs = drop k bs" by (rule epochs_of_chain [OF assms(1) Cons.prems(4,5)])
  have k: "l1Number (bs ! k) = ?o" using num [OF Cons.prems(5)] Cons.prems(4) by (simp add: word_eq_iff_unsigned [where 'a = nat])
  have d: "length (drop k bs) \<noteq> 0" "drop k bs ! 0 = bs ! k" "j = Suc k \<Longrightarrow> \<not> length (drop k bs) < 2"
    "\<not> length (drop k bs) < 2 \<longleftrightarrow> \<not> length bs \<le> k + 1" "\<not> length bs \<le> k + 1 \<Longrightarrow> drop k bs ! 1 = bs ! (k + 1)"
    using Cons.prems(5) j by auto
  have seq: "\<not> seEpochNum e + SeqWindowSize cfg < l1Number incl" using Cons.prems(7) by (simp add: not_less)
  have txs: "valid_txs (IsIsthmus cfg (seTimestamp e)) (seTransactions e)" using Cons.prems(8) S(3) by simp
  have acc: "checkSingularBatch cfg (drop k bs) head b incl = BatchAccept"
  proof (cases ?adv)
    case True
    then have e: "j = Suc k" "unat (seEpochNum e) = unat ?o + 1" using Cons.prems(3) by (auto simp: j_def)
    then have "seEpochNum e = ?o + 1" "\<not> seEpochNum e < ?o" "?o \<noteq> seEpochNum e"
      by (auto simp: word_eq_iff_unsigned [where 'a = nat] word_less_nat_alt unat_word_ariths) (use unsigned_less [where 'a = nat, of "seEpochNum e"] in simp)
    moreover have "l1Number (bs ! Suc k) \<noteq> ?o" using num [OF j(2)] num [OF Cons.prems(5)] e(1) k by auto
    ultimately show ?thesis
      using S(1,2) txs seq d e(1) k True Cons.prems(3) unfolding checkSingularBatch_def span_drift_def b_def Let_def
      by (simp split: if_splits)
  next
    case False
    then show ?thesis
      using S(1,2) txs seq d k Cons.prems(3) unfolding checkSingularBatch_def span_drift_def b_def Let_def j_def
      by (simp split: if_splits)
  qed
  let ?h = "apply_batch exec head b"
  have "\<exists>sbs. singular_loop bs safe j es = Inr sbs \<and> batches_valid exec cfg bs incl ?h sbs \<and> length sbs = length es"
  proof (rule Cons.IH [OF S(4)])
    show "es \<noteq> [] \<longrightarrow> (case Some e of None \<Rightarrow> ?adv | Some p \<Rightarrow> seEpochNum p < seEpochNum (hd es)) = (seEpochNum (hd es) \<noteq> bNumber (L1Origin ?h))"
      using Cons.prems(3) by (cases es) (auto simp: apply_batch_def b_def Epoch_def word_less_nat_alt)
  qed (use Cons.prems(2,3,7,8) ep j in \<open>auto simp: apply_batch_def b_def Epoch_def\<close>)
  then obtain sbs where sbs: "singular_loop bs safe j es = Inr sbs" "batches_valid exec cfg bs incl ?h sbs" "length sbs = length es" by blast
  show ?case
    using orig ts sbs acc eps
    by (intro exI [of _ "b\<lparr>ParentHash := 0\<rparr> # sbs"]) (simp add: b_def Let_def)
qed simp

definition last_time :: "uint64 \<Rightarrow> SpanBatchElement list \<Rightarrow> uint64" where "last_time t es = (if es = [] then t else seTimestamp (last es))"
definition last_epoch :: "uint64 \<Rightarrow> SpanBatchElement list \<Rightarrow> uint64" where "last_epoch ep es = (if es = [] then ep else seEpochNum (last es))"

lemma regular_append:
  "regular cfg t ep (xs @ ys) \<longleftrightarrow> regular cfg t ep xs \<and> regular cfg (last_time t xs) (last_epoch ep xs) ys"
  by (induction xs arbitrary: t ep) (auto simp: last_time_def last_epoch_def)

lemma regular_bounds:
  "regular cfg t ep es \<Longrightarrow> list_all (\<lambda>e. t < seTimestamp e \<and> ep \<le> seEpochNum e \<and> seEpochNum e \<le> last_epoch ep es) es \<and> ep \<le> last_epoch ep es"
proof (induction es arbitrary: t ep)
  case (Cons e es)
  have l: "last_epoch ep (e # es) = last_epoch (seEpochNum e) es" by (simp add: last_epoch_def)
  have "list_all (\<lambda>x. seTimestamp e < seTimestamp x \<and> seEpochNum e \<le> seEpochNum x \<and> seEpochNum x \<le> last_epoch (seEpochNum e) es) es \<and>
      seEpochNum e \<le> last_epoch (seEpochNum e) es"
    using Cons.IH [of "seTimestamp e" "seEpochNum e"] Cons.prems by auto
  moreover have "ep \<le> seEpochNum e" "t < seTimestamp e" using Cons.prems by (auto simp: word_le_nat_alt)
  ultimately show ?case unfolding l by (auto simp: list_all_iff)
qed (simp add: last_epoch_def)

lemma regular_time:
  "regular cfg t ep es \<Longrightarrow> unat (last_time t es) = unat t + length es * unat (BlockTime cfg)"
proof (induction es arbitrary: t ep)
  case (Cons e es)
  have l: "last_time t (e # es) = last_time (seTimestamp e) es" by (simp add: last_time_def)
  have "unat (seTimestamp e) = unat t + unat (BlockTime cfg)"
    using Cons.prems unat_plus_simple [of t "BlockTime cfg"] by auto
  moreover have "unat (last_time (seTimestamp e) es) = unat (seTimestamp e) + length es * unat (BlockTime cfg)"
    using Cons.IH [of "seTimestamp e" "seEpochNum e"] Cons.prems by auto
  ultimately show ?case unfolding l by simp
qed (simp add: last_time_def)

lemma skip_safe:
  assumes "list_all (\<lambda>e. seTimestamp e \<le> safe) pre"
  shows "span_blocks cfg bs safe k adv prev (pre @ post) = span_blocks cfg bs safe k adv (if pre = [] then prev else Some (last pre)) post"
    and "singular_loop bs safe k (pre @ post) = singular_loop bs safe k post"
  using assms by (induction pre arbitrary: prev) auto

text \<open>The blocks of a span up to and after a time.\<close>

lemma split_at_time:
  assumes "regular cfg t ep es"
  shows "list_all (\<lambda>e. seTimestamp e \<le> s) (takeWhile (\<lambda>e. seTimestamp e \<le> s) es) \<and> list_all (\<lambda>e. s < seTimestamp e) (dropWhile (\<lambda>e. seTimestamp e \<le> s) es)"
  using assms
proof (induction es arbitrary: t ep)
  case (Cons e es)
  have "seTimestamp e < seTimestamp x" if "x \<in> set es" for x
    using regular_bounds [of cfg "seTimestamp e" "seEpochNum e" es] Cons.prems that by (auto simp: list_all_iff)
  then show ?case using Cons by (fastforce simp: list_all_iff not_le intro: less_trans)
qed simp

lemma find_number:
  "find (\<lambda>b. l1Number b = num) bs = Some b \<Longrightarrow> l1_chain n bs \<Longrightarrow> unat num < n + length bs"
  by (auto simp: find_Some_iff l1_chain_def)

lemma overlap_loop_last:
  "overlap_loop pbn utx kc cfg batch parentNum i n = Inr None \<Longrightarrow> m < n \<Longrightarrow>
    \<exists>p. pbn (parentNum + of_nat (i + m) + 1) = Inr p \<and> overlap_block utx kc cfg batch (i + m) p = Inr None"
proof (induction n arbitrary: i m)
  case (Suc n)
  then obtain p where p: "pbn (parentNum + of_nat i + 1) = Inr p" "overlap_block utx kc cfg batch i p = Inr None"
    "overlap_loop pbn utx kc cfg batch parentNum (i + 1) n = Inr None"
    by (auto split: sum.splits option.splits)
  show ?case
  proof (cases m)
    case 0
    then show ?thesis using p by simp
  next
    case (Suc m')
    then show ?thesis using Suc.IH [OF p(3), of m'] Suc.prems by (simp add: add.commute add.left_commute)
  qed
qed simp

text \<open>The L2 client serves the safe chain: a block reference has the number asked for, and the payload at the safe head's number is the safe head.\<close>

definition serves_head :: "l2_env \<Rightarrow> Config \<Rightarrow> L2BlockRef \<Rightarrow> bool" where
  "serves_head l2 cfg head \<longleftrightarrow>
    (\<forall>n. case refByNumber l2 n of Inl _ \<Rightarrow> True | Inr r \<Rightarrow> l2Number r = n) \<and>
    (case payloadByNumber l2 (l2Number head) of Inl _ \<Rightarrow> True
     | Inr p \<Rightarrow> PayloadToBlockRef (unmarshalTxOf l2) (l2Keccak l2) cfg p = Inr head)"

lemma prefix_accepted:
  assumes "checkSpanBatchPrefix rbn cfg bs head batch incl = Inr (BatchAccept, parent)" and "Batches batch = b0 # es"
  shows "bs \<noteq> []" and "\<not> l2Time head + BlockTime cfg < seTimestamp b0" and "\<not> seTimestamp (last (b0 # es)) < l2Time head + BlockTime cfg"
    and "span_parent rbn cfg head (seTimestamp b0) = Inr parent" and "\<not> seEpochNum b0 + SeqWindowSize cfg < l1Number incl"
    and "\<not> bNumber (L1Origin parent) + 1 < seEpochNum b0" and "\<not> seEpochNum b0 < bNumber (L1Origin parent)"
    and "\<exists>b. find (\<lambda>b. l1Number b = seEpochNum (last (b0 # es))) bs = Some b"
proof -
  have l: "Batches batch ! (length (Batches batch) - 1) = last (b0 # es)" using assms(2) by (simp add: last_conv_nth)
  note P = assms(1) [unfolded checkSpanBatchPrefix_def Let_def l, unfolded assms(2), simplified]
  show "bs \<noteq> []" and "\<not> l2Time head + BlockTime cfg < seTimestamp b0" and "\<not> seTimestamp (last (b0 # es)) < l2Time head + BlockTime cfg"
    using P by (auto split: if_split_asm)
  then show "span_parent rbn cfg head (seTimestamp b0) = Inr parent" and "\<not> seEpochNum b0 + SeqWindowSize cfg < l1Number incl"
    and "\<not> bNumber (L1Origin parent) + 1 < seEpochNum b0" and "\<not> seEpochNum b0 < bNumber (L1Origin parent)"
    and "\<exists>b. find (\<lambda>b. l1Number b = seEpochNum (last (b0 # es))) bs = Some b"
    using P by (auto simp: span_parent_def split: if_split_asm sum.splits option.splits)
qed

lemma span_accepted:
  assumes "checkSpanBatch l2 cfg bs head batch incl = Inr BatchAccept" and "Batches batch = b0 # es"
  obtains parent where "checkSpanBatchPrefix (refByNumber l2) cfg bs head batch incl = Inr (BatchAccept, parent)"
    "span_blocks cfg bs (l2Time head) 0 (seEpochNum b0 = bNumber (L1Origin parent) + 1) None (b0 # es) = None"
    "seTimestamp b0 < l2Time head + BlockTime cfg \<Longrightarrow>
      overlap_loop (payloadByNumber l2) (unmarshalTxOf l2) (l2Keccak l2) cfg batch (l2Number parent) 0 (unat (l2Number head - l2Number parent)) = Inr None"
proof -
  obtain v parent where p: "checkSpanBatchPrefix (refByNumber l2) cfg bs head batch incl = Inr (v, parent)"
    using assms(1) by (cases "checkSpanBatchPrefix (refByNumber l2) cfg bs head batch incl") (auto simp: checkSpanBatch_def)
  then have v: "v = BatchAccept" using assms(1) by (auto simp: checkSpanBatch_def split: if_splits)
  have "span_blocks cfg bs (l2Time head) 0 (seEpochNum b0 = bNumber (L1Origin parent) + 1) None (b0 # es) \<noteq> Some BatchAccept"
  proof -
    have "span_blocks cfg bs safe k adv prev xs \<noteq> Some BatchAccept" for safe k adv prev xs
      by (induction xs arbitrary: k adv prev) (auto simp: Let_def case_prod_beta' span_drift_def split: option.splits if_splits)
    then show ?thesis .
  qed
  then have none: "span_blocks cfg bs (l2Time head) 0 (seEpochNum b0 = bNumber (L1Origin parent) + 1) None (b0 # es) = None"
    using assms p v by (auto simp: checkSpanBatch_def Let_def simp del: span_blocks.simps split: option.splits)
  have "overlap_loop (payloadByNumber l2) (unmarshalTxOf l2) (l2Keccak l2) cfg batch (l2Number parent) 0
      (unat (l2Number head - l2Number parent)) = Inr None" (is "?ov = _") if lt: "seTimestamp b0 < l2Time head + BlockTime cfg"
  proof -
    have "overlap_loop pbn utx kc cfg batch pn i n \<noteq> Inr (Some BatchAccept)" for pbn utx kc pn i n
      by (induction n arbitrary: i) (auto simp: overlap_block_def Let_def split: sum.splits option.splits if_splits)
    then have "?ov \<noteq> Inr (Some BatchAccept)" .
    moreover obtain r where "?ov = Inr r" "case r of Some v \<Rightarrow> v = BatchAccept | None \<Rightarrow> True"
      using assms p v lt none
      by (auto simp: checkSpanBatch_def Let_def rbind_Inr_iff simp del: span_blocks.simps split: option.splits if_splits)
    ultimately show ?thesis by (cases r) auto
  qed
  then show thesis using that p v none by blast
qed

lemma span_parent_time:
  assumes "span_parent rbn cfg head ts = Inr parent" and "ts \<le> l2Time head" and "l2Time head < l2Time head + BlockTime cfg"
  shows "unat ts + unat ((l2Time head - ts) div BlockTime cfg) * unat (BlockTime cfg) = unat (l2Time head)"
proof -
  have "ts < l2Time head + BlockTime cfg" using assms(2,3) by simp
  then have m: "(l2Time head - ts) mod BlockTime cfg = 0"
    using assms(1,2) by (auto simp: span_parent_def not_less split: if_splits sum.splits)
  have u: "unat (l2Time head - ts) = unat (l2Time head) - unat ts" using assms(2) by (simp add: unat_sub)
  have "(unat (l2Time head) - unat ts) mod unat (BlockTime cfg) = 0" using m u by (metis unat_0 unat_mod)
  then show ?thesis using assms(2) by (simp add: unat_div u mod_eq_0_iff_dvd word_le_nat_alt)
qed

text \<open>The overlap of an accepted span with the safe chain ends at the safe head.\<close>

lemma overlap_ends_at_head:
  assumes "checkSpanBatchPrefix (refByNumber l2) cfg bs head batch incl = Inr (BatchAccept, parent)" and "Batches batch = b0 # es"
    and "overlap_loop (payloadByNumber l2) (unmarshalTxOf l2) (l2Keccak l2) cfg batch (l2Number parent) 0 (unat (l2Number head - l2Number parent)) = Inr None"
    and "serves_head l2 cfg head" and "seTimestamp b0 \<le> l2Time head" and "l2Time head < l2Time head + BlockTime cfg"
  defines "D \<equiv> unat ((l2Time head - seTimestamp b0) div BlockTime cfg)"
  shows "D < length (b0 # es) \<and> seEpochNum ((b0 # es) ! D) = bNumber (L1Origin head) \<and>
    unat (seTimestamp b0) + D * unat (BlockTime cfg) = unat (l2Time head)"
proof -
  let ?d = "(l2Time head - seTimestamp b0) div BlockTime cfg"
  have sp: "span_parent (refByNumber l2) cfg head (seTimestamp b0) = Inr parent" using prefix_accepted(4) [OF assms(1,2)] .
  have lt: "seTimestamp b0 < l2Time head + BlockTime cfg" using assms(5,6) by simp
  have ref: "refByNumber l2 (l2Number head - ?d - 1) = Inr parent" and bt: "BlockTime cfg \<noteq> 0"
    using sp lt assms(5) by (auto simp: span_parent_def not_less split: if_splits sum.splits)
  have pn: "l2Number parent = l2Number head - ?d - 1" using assms(4) ref by (auto simp: serves_head_def split: sum.splits)
  have time: "unat (seTimestamp b0) + D * unat (BlockTime cfg) = unat (l2Time head)"
    unfolding D_def by (rule span_parent_time [OF sp assms(5,6)])
  have "unat (l2Time head) + 1 < 2 ^ 64"
    using assms(6) unsigned_less [where 'a = nat, of "l2Time head + BlockTime cfg"] by (simp add: word_less_nat_alt)
  moreover have "D \<le> unat (l2Time head)"
  proof -
    have "1 \<le> unat (BlockTime cfg)" using bt unat_gt_0 [of "BlockTime cfg"] by linarith
    then have "D * 1 \<le> D * unat (BlockTime cfg)" by (rule mult_le_mono2)
    then show ?thesis using time by linarith
  qed
  ultimately have D1: "D + 1 < 2 ^ 64" by simp
  have "l2Number head - l2Number parent = ?d + 1" unfolding pn by simp
  moreover have "unat (?d + 1) = D + 1" using D1 by (simp add: D_def unat_word_ariths)
  ultimately have cnt: "unat (l2Number head - l2Number parent) = D + 1" by simp
  have num: "l2Number parent + of_nat (0 + D) + 1 = l2Number head" unfolding pn by (simp add: D_def)
  from overlap_loop_last [OF assms(3) [unfolded cnt], of D, unfolded num]
  obtain p where p: "payloadByNumber l2 (l2Number head) = Inr p" "overlap_block (unmarshalTxOf l2) (l2Keccak l2) cfg batch (0 + D) p = Inr None" by auto
  have "PayloadToBlockRef (unmarshalTxOf l2) (l2Keccak l2) cfg p = Inr head" using assms(4) p(1) by (simp add: serves_head_def)
  then show ?thesis
    using p(2) assms(2) time by (auto simp: overlap_block_def Let_def split: if_splits)
qed

text \<open>A regular span that reaches a time at a multiple of the block time has a block there.\<close>

lemma regular_meets:
  assumes "regular cfg t0 e0 (pre @ post)" and "list_all (\<lambda>e. seTimestamp e \<le> t) pre" and "list_all (\<lambda>e. t < seTimestamp e) post" and "post \<noteq> []"
    and "t0 \<le> t" and "unat t0 + D * unat (BlockTime cfg) = unat t"
  shows "length pre = D \<and> last_time t0 pre = t \<and> regular cfg t (last_epoch e0 pre) post"
proof -
  have r: "regular cfg t0 e0 pre" "regular cfg (last_time t0 pre) (last_epoch e0 pre) post" using assms(1) by (simp_all add: regular_append)
  have tp: "unat (last_time t0 pre) = unat t0 + length pre * unat (BlockTime cfg)" by (rule regular_time [OF r(1)])
  have "unat (seTimestamp (hd post)) = unat (last_time t0 pre) + unat (BlockTime cfg)"
    using r(2) assms(4) unat_plus_simple [of "last_time t0 pre" "BlockTime cfg"] by (cases post) auto
  moreover have "t < seTimestamp (hd post)" using assms(3,4) by (cases post) auto
  ultimately have "D * unat (BlockTime cfg) < Suc (length pre) * unat (BlockTime cfg)"
    using tp assms(6) unfolding word_less_nat_alt by simp
  moreover have "last_time t0 pre \<le> t" using assms(2,5) by (auto simp: last_time_def list_all_iff)
  then have "length pre * unat (BlockTime cfg) \<le> D * unat (BlockTime cfg)" using tp assms(6) unfolding word_le_nat_alt by linarith
  ultimately have "length pre = D" unfolding mult_le_cancel2 mult_less_cancel2 by (simp only: simp_thms) linarith
  moreover from this have "last_time t0 pre = t" using tp assms(6) by (simp add: word_eq_iff_unsigned [where 'a = nat])
  ultimately show ?thesis using r(2) by simp
qed

lemma span_window:
  assumes "list_all (\<lambda>e. e0 \<le> seEpochNum e \<and> unat (seEpochNum e) < n) es" and "n + unat (SeqWindowSize cfg) < 2 ^ 64"
    and "\<not> e0 + SeqWindowSize cfg < l1Number incl"
  shows "list_all (\<lambda>e. unat (seEpochNum e) < n \<and> l1Number incl \<le> seEpochNum e + SeqWindowSize cfg) es"
proof (unfold list_all_iff, intro ballI)
  fix e assume "e \<in> set es"
  then have e: "e0 \<le> seEpochNum e" "unat (seEpochNum e) < n" using assms(1) by (auto simp: list_all_iff)
  then have "unat (seEpochNum e + SeqWindowSize cfg) = unat (seEpochNum e) + unat (SeqWindowSize cfg)"
    "unat (e0 + SeqWindowSize cfg) = unat e0 + unat (SeqWindowSize cfg)"
    using assms(2) unfolding word_le_nat_alt by (auto simp: unat_word_ariths)
  then show "unat (seEpochNum e) < n \<and> l1Number incl \<le> seEpochNum e + SeqWindowSize cfg"
    using e assms(3) unfolding word_le_nat_alt word_less_nat_alt by linarith
qed

text \<open>The two ways in which an accepted span attaches to the safe head.\<close>

lemma span_starts_at_head:
  assumes "checkSpanBatchPrefix rbn cfg bs head batch incl = Inr (BatchAccept, parent)" and "Batches batch = b0 # es"
    and "l2Time head < seTimestamp b0" and "unat (bNumber (L1Origin head)) + 1 < 2 ^ 64"
  defines "ep \<equiv> bNumber (L1Origin head)"
  shows "parent = head \<and> seTimestamp b0 = l2Time head + BlockTime cfg \<and> (seEpochNum b0 = ep \<or> unat (seEpochNum b0) = unat ep + 1) \<and>
    (seEpochNum b0 = ep + 1 \<longleftrightarrow> seEpochNum b0 \<noteq> ep)"
proof -
  note A = prefix_accepted [OF assms(1,2)]
  have ts: "seTimestamp b0 = l2Time head + BlockTime cfg" and par: "parent = head"
    using A(2,4) assms(3) by (auto simp: span_parent_def split: if_splits)
  have o1: "unat (ep + 1) = unat ep + 1" using assms(4) by (simp add: ep_def unat_word_ariths)
  have "unat (seEpochNum b0) = unat ep \<or> unat (seEpochNum b0) = unat ep + 1"
    using A(6,7) o1 unfolding par ep_def by (auto simp: word_less_nat_alt)
  then show ?thesis using ts par o1 by (auto simp: word_eq_iff_unsigned [where 'a = nat])
qed

text \<open>C21: A valid span is a sequence of valid batches: when the rules of span batches accept a span of regular shape on top of the safe head (whether it starts
  right after the safe head or overlaps the safe chain), then it expands to singular batches, at least one, and each of them passes the rules of singular
  batches on top of the block that the previous one leads to. The L1 blocks are consecutive, starting with the origin of the safe head; transactions
  of the type that Isthmus introduces are excluded before Isthmus, since only the rules of singular batches check for them.\<close>

theorem span_batch_blocks_valid:
  assumes "checkSpanBatch l2 cfg bs head batch incl = Inr BatchAccept"
    and "Batches batch = b0 # es" and "regular cfg (seTimestamp b0) (seEpochNum b0) es"
    and "l1_chain (unat (bNumber (L1Origin head))) bs" and "unat (bNumber (L1Origin head)) + length bs + unat (SeqWindowSize cfg) < 2 ^ 64"
    and "l2Time head < l2Time head + BlockTime cfg" and "serves_head l2 cfg head"
    and "list_all (\<lambda>e. valid_txs True (seTransactions e) \<longrightarrow> valid_txs (IsIsthmus cfg (seTimestamp e)) (seTransactions e)) (b0 # es)"
  shows "\<exists>sbs. GetSingularBatches batch bs head = Inr sbs \<and> sbs \<noteq> [] \<and> batches_valid exec cfg bs incl head sbs"
proof -
  let ?o = "bNumber (L1Origin head)" and ?all = "b0 # es" and ?t = "l2Time head"
  obtain parent where P: "checkSpanBatchPrefix (refByNumber l2) cfg bs head batch incl = Inr (BatchAccept, parent)"
    and S: "span_blocks cfg bs ?t 0 (seEpochNum b0 = bNumber (L1Origin parent) + 1) None ?all = None"
    and O: "seTimestamp b0 < ?t + BlockTime cfg \<Longrightarrow>
      overlap_loop (payloadByNumber l2) (unmarshalTxOf l2) (l2Keccak l2) cfg batch (l2Number parent) 0 (unat (l2Number head - l2Number parent)) = Inr None"
    using span_accepted [OF assms(1,2)] by blast
  note A = prefix_accepted [OF P assms(2)]
  obtain b where "find (\<lambda>b. l1Number b = seEpochNum (last ?all)) bs = Some b" using A(8) by blast
  then have last: "unat (seEpochNum (last ?all)) < unat ?o + length bs" by (rule find_number [OF _ assms(4)])
  define pre post where "pre = takeWhile (\<lambda>e. seTimestamp e \<le> ?t) ?all" and "post = dropWhile (\<lambda>e. seTimestamp e \<le> ?t) ?all"
  have split: "?all = pre @ post" by (simp add: pre_def post_def)
  have ep: "list_all (\<lambda>e. seEpochNum b0 \<le> seEpochNum e \<and> seEpochNum e \<le> seEpochNum (last ?all)) ?all"
    using regular_bounds [OF assms(3)] by (auto simp: list_all_iff last_epoch_def split: if_splits)
  have "list_all (\<lambda>e. seTimestamp b0 < seTimestamp e) es" using regular_bounds [OF assms(3)] by (auto simp: list_all_iff)
  then have times: "list_all (\<lambda>e. seTimestamp e \<le> ?t) pre" "list_all (\<lambda>e. ?t < seTimestamp e) post"
    using split_at_time [OF assms(3), of ?t] by (auto simp: pre_def post_def list_all_iff)
  have "post \<noteq> []"
  proof
    assume "post = []"
    then have "last ?all \<in> set pre" unfolding split by (metis append_Nil2 last_in_set list.distinct(1) split)
    then have "seTimestamp (last ?all) \<le> ?t" using times(1) by (auto simp: list_all_iff)
    then show False using A(3) assms(6) by simp
  qed
  have reg: "regular cfg ?t ?o post \<and>
    (case (if pre = [] then None else Some (last pre)) of None \<Rightarrow> seEpochNum b0 = bNumber (L1Origin parent) + 1 | Some p \<Rightarrow> seEpochNum p < seEpochNum (hd post)) =
      (seEpochNum (hd post) \<noteq> ?o)"
  proof (cases "pre = []")
    case True
    then have post: "post = ?all" and gt: "?t < seTimestamp b0" using split times(2) by auto
    have "unat ?o + 1 < 2 ^ 64" using assms(5) A(1) by (cases bs) simp_all
    from span_starts_at_head [OF P assms(2) gt this] show ?thesis using True post gt assms(3) by simp
  next
    case False
    then obtain pre' where pre: "pre = b0 # pre'" "es = pre' @ post" using split by (cases pre) auto
    then have le: "seTimestamp b0 \<le> ?t" using times(1) by simp
    let ?D = "unat ((?t - seTimestamp b0) div BlockTime cfg)"
    have D: "seEpochNum (?all ! ?D) = ?o" "unat (seTimestamp b0) + ?D * unat (BlockTime cfg) = unat ?t"
      using overlap_ends_at_head [OF P assms(2) O assms(7) le assms(6)] le assms(6) by auto
    have "list_all (\<lambda>e. seTimestamp e \<le> ?t) pre'" using times(1) by (simp add: pre(1))
    from regular_meets [OF assms(3) [unfolded pre(2)] this times(2) \<open>post \<noteq> []\<close> le D(2)]
    have M: "length pre' = ?D" "regular cfg ?t (last_epoch (seEpochNum b0) pre') post" by blast+
    have lp: "last_epoch (seEpochNum b0) pre' = seEpochNum (last pre)" by (simp add: last_epoch_def pre(1))
    have "length pre = Suc (length pre')" by (simp add: pre(1))
    then have "(pre @ post) ! length pre' = last pre" using last_conv_nth [OF False] by (simp add: nth_append)
    then have e: "seEpochNum (last pre) = ?o" using D(1) unfolding split M(1) by simp
    then show ?thesis using M(2) False \<open>post \<noteq> []\<close> by (cases post) (auto simp: lp word_less_nat_alt)
  qed
  have win: "list_all (\<lambda>e. unat (seEpochNum e) < unat ?o + length bs \<and> l1Number incl \<le> seEpochNum e + SeqWindowSize cfg) ?all"
    using ep last assms(5) A(5) by (intro span_window [where ?e0.0 = "seEpochNum b0"]) (auto simp: list_all_iff word_le_nat_alt)
  have S': "span_blocks cfg bs ?t 0 (seEpochNum b0 = bNumber (L1Origin parent) + 1) (if pre = [] then None else Some (last pre)) post = None"
    using S skip_safe(1) [OF times(1)] unfolding split by metis
  have in_post: "list_all Q ?all \<Longrightarrow> list_all Q post" for Q unfolding split by simp
  obtain sbs where sbs: "singular_loop bs ?t 0 post = Inr sbs" "batches_valid exec cfg bs incl head sbs" "length sbs = length post"
    using span_blocks_valid [OF assms(4) S' times(2), of head incl exec] reg A(1) in_post [OF win] in_post [OF assms(8)] by auto
  then show ?thesis
    using \<open>post \<noteq> []\<close> skip_safe(2) [OF times(1)] unfolding GetSingularBatches_def assms(2) split by fastforce
qed

section \<open>A concrete span\<close>

definition sample_l1 :: "uint64 \<Rightarrow> uint64 \<Rightarrow> L1BlockRef" where
  "sample_l1 n t = \<lparr>l1Hash = ucast n + 100, l1Number = n, l1ParentHash = ucast n + 99, l1Time = t\<rparr>"

definition sample_l1_blocks :: "L1BlockRef list" where "sample_l1_blocks = [sample_l1 6 50, sample_l1 7 58, sample_l1 8 70]"

definition sample_span :: SpanBatch where
  "sample_span = \<lparr>ParentCheck = take 20 (be_bytes 32 (1 :: Hash)), L1OriginCheck = take 20 (be_bytes 32 (107 :: Hash)),
    Batches = [\<lparr>seEpochNum = 6, seTimestamp = 62, seTransactions = [[2, 5], [0]]\<rparr>, \<lparr>seEpochNum = 7, seTimestamp = 64, seTransactions = []\<rparr>]\<rparr>"

definition sample_l2_env :: l2_env where
  "sample_l2_env = \<lparr>l2Keccak = \<lambda>_. 7, unmarshalTxOf = sample_unmarshal, refByNumber = \<lambda>_. Inl NotFound,
    payloadByNumber = \<lambda>_. Inl NotFound\<rparr>"

lemma sample_span_accepted:
  "checkSpanBatch sample_l2_env (sample_config 12 14) sample_l1_blocks sample_parent sample_span (sample_l1 8 70) = Inr BatchAccept"
  by code_simp

lemma span_batch_blocks_valid_witness:
  "\<exists>sbs. GetSingularBatches sample_span sample_l1_blocks sample_parent = Inr sbs \<and> sbs \<noteq> [] \<and>
    batches_valid (\<lambda>_ _. 9) (sample_config 12 14) sample_l1_blocks (sample_l1 8 70) sample_parent sbs"
proof -
  let ?b0 = "\<lparr>seEpochNum = 6, seTimestamp = 62, seTransactions = [[2, 5], [0]]\<rparr>" and ?es = "[\<lparr>seEpochNum = 7, seTimestamp = 64, seTransactions = []\<rparr>]"
  have "Batches sample_span = ?b0 # ?es" "regular (sample_config 12 14) (seTimestamp ?b0) (seEpochNum ?b0) ?es"
    by (simp_all add: sample_span_def sample_config_def)
  moreover have "l1_chain (unat (bNumber (L1Origin sample_parent))) sample_l1_blocks"
    by (auto simp: l1_chain_def sample_parent_def sample_l1_blocks_def sample_l1_def less_Suc_eq nth_Cons split: nat.splits)
  moreover have "unat (bNumber (L1Origin sample_parent)) + length sample_l1_blocks + unat (SeqWindowSize (sample_config 12 14)) < 2 ^ 64"
    "l2Time sample_parent < l2Time sample_parent + BlockTime (sample_config 12 14)"
    by (simp_all add: sample_parent_def sample_l1_blocks_def sample_config_def)
  moreover have "serves_head sample_l2_env (sample_config 12 14) sample_parent" by (simp add: serves_head_def sample_l2_env_def)
  moreover have "list_all (\<lambda>e. valid_txs True (seTransactions e) \<longrightarrow> valid_txs (IsIsthmus (sample_config 12 14) (seTimestamp e)) (seTransactions e)) (?b0 # ?es)"
    by (simp add: SetCodeTxType_def DepositTxType_def)
  ultimately show ?thesis by (intro span_batch_blocks_valid [OF sample_span_accepted])
qed

section \<open>Transactions that a later fork introduces\<close>

text \<open>A span in which the transaction \<open>i\<close> of the block \<open>j\<close> is replaced.\<close>

definition replace_tx :: "SpanBatch \<Rightarrow> nat \<Rightarrow> nat \<Rightarrow> bytes \<Rightarrow> SpanBatch" where
  "replace_tx b j i tx = b\<lparr>Batches := (Batches b)[j := (Batches b ! j)\<lparr>seTransactions := (seTransactions (Batches b ! j))[i := tx]\<rparr>]\<rparr>"

text \<open>What the rules of a span see of a block: its epoch, its time, the number of its transactions, and that none of them is empty or a deposit.\<close>

definition looks_like :: "SpanBatchElement \<Rightarrow> SpanBatchElement \<Rightarrow> bool" where
  "looks_like e e' \<longleftrightarrow> seEpochNum e' = seEpochNum e \<and> seTimestamp e' = seTimestamp e \<and> length (seTransactions e') = length (seTransactions e) \<and>
    (valid_txs True (seTransactions e) \<longrightarrow> valid_txs True (seTransactions e'))"

lemma span_blocks_looks:
  assumes "list_all2 looks_like es es'" and "rel_option (\<lambda>p p'. seEpochNum p' = seEpochNum p) prev prev'"
    and "span_blocks cfg bs t k adv prev es = None"
  shows "span_blocks cfg bs t k adv prev' es' = None"
  using assms
proof (induction arbitrary: k adv prev prev' rule: list_all2_induct)
  case (Cons e es e' es')
  have prev: "(case prev' of None \<Rightarrow> a | Some p \<Rightarrow> seEpochNum p < seEpochNum e') = (case prev of None \<Rightarrow> a | Some p \<Rightarrow> seEpochNum p < seEpochNum e)" for a
    using Cons.prems(1) Cons.hyps(1) by (auto simp: looks_like_def option_rel_Some1 split: option.splits)
  have same: "seEpochNum e' = seEpochNum e" "seTimestamp e' = seTimestamp e" "length (seTransactions e') = length (seTransactions e)"
    "valid_txs True (seTransactions e) \<Longrightarrow> valid_txs True (seTransactions e')" using Cons.hyps(1) by (auto simp: looks_like_def)
  have drift: "span_drift cfg bs i o1 a e' = span_drift cfg bs i o1 a e" for i o1 a using same by (simp add: span_drift_def)
  have IH: "span_blocks cfg bs t k' a (Some e) es = None \<Longrightarrow> span_blocks cfg bs t k' a (Some e') es' = None" for k' a
    by (rule Cons.IH) (simp_all add: same)
  from Cons.prems(2) show ?case
    by (simp add: same prev drift Let_def split: if_splits prod.splits option.splits) (auto simp: IH same)
qed simp

lemma valid_txs_set_code:
  "i < length txs \<Longrightarrow> valid_txs True txs \<Longrightarrow> valid_txs True (txs[i := SetCodeTxType # tx])"
  "i < length txs \<Longrightarrow> \<not> valid_txs False (txs[i := SetCodeTxType # tx])"
  by (induction txs arbitrary: i) (auto simp: SetCodeTxType_def DepositTxType_def split: nat.splits if_splits)

lemma replace_looks:
  assumes "j < length (Batches b)" and "i < length (seTransactions (Batches b ! j))"
  shows "list_all2 looks_like (Batches b) (Batches (replace_tx b j i (SetCodeTxType # tx)))"
  using assms valid_txs_set_code(1) [of i "seTransactions (Batches b ! j)" tx]
  by (auto simp: list_all2_conv_all_nth replace_tx_def looks_like_def nth_list_update)

lemma prefix_looks:
  assumes "list_all2 looks_like (Batches b) es" and "Batches b \<noteq> []"
  shows "checkSpanBatchPrefix refs cfg bs head (b\<lparr>Batches := es\<rparr>) incl = checkSpanBatchPrefix refs cfg bs head b incl"
proof -
  have len: "length es = length (Batches b)" using assms(1) by (simp add: list_all2_lengthD)
  have same: "seEpochNum (es ! k) = seEpochNum (Batches b ! k)" "seTimestamp (es ! k) = seTimestamp (Batches b ! k)" if "k < length (Batches b)" for k
    using list_all2_nthD [OF assms(1) that] by (simp_all add: looks_like_def)
  have "0 < length (Batches b)" "length (Batches b) - 1 < length (Batches b)" using assms(2) by simp_all
  note ends = same [OF this(1)] same [OF this(2)]
  have "es = [] \<longleftrightarrow> Batches b = []" using len by auto
  moreover have "CheckParentHash (b\<lparr>Batches := es\<rparr>) h = CheckParentHash b h" "CheckOriginHash (b\<lparr>Batches := es\<rparr>) h = CheckOriginHash b h" for h
    by (simp_all add: CheckParentHash_def CheckOriginHash_def)
  ultimately show ?thesis unfolding checkSpanBatchPrefix_def Let_def by (simp add: len ends [unfolded One_nat_def] cong: if_cong sum.case_cong option.case_cong)
qed

lemma singular_of_element:
  assumes "singular_loop origins t k es = Inr sbs" and "e \<in> set es" and "t < seTimestamp e"
  shows "\<exists>sb \<in> set sbs. Timestamp sb = seTimestamp e \<and> Transactions sb = seTransactions e"
  using assms
proof (induction es arbitrary: k sbs)
  case (Cons a es)
  then show ?case
    by (cases "e = a") (fastforce simp: rbind_Inr_iff not_le split: if_splits option.splits)+
qed simp

lemma set_code_not_accepted:
  assumes "\<not> valid_txs (IsIsthmus cfg (Timestamp sb)) (Transactions sb)"
  shows "checkSingularBatch cfg bs head sb incl \<noteq> BatchAccept"
  using assms by (auto simp: checkSingularBatch_def Let_def split: sum.splits option.splits)

text \<open>C27: The two sets of rules differ before Isthmus. In every span that is accepted and starts after the safe head, any transaction of a block before Isthmus may be replaced by one of
  the type that Isthmus introduces (SetCode), whatever its contents: the span is still accepted, although the rules of singular batches never accept the singular
  batch that this block expands to, whatever the parent, the L1 blocks and the inclusion block are.\<close>

theorem span_accepts_set_code:
  assumes "checkSpanBatch l2 cfg bs head batch incl = Inr BatchAccept" and "l2Time head + BlockTime cfg \<le> seTimestamp (Batches batch ! 0)"
    and "j < length (Batches batch)" and "i < length (seTransactions (Batches batch ! j))"
    and "l2Time head < seTimestamp (Batches batch ! j)" and "\<not> IsIsthmus cfg (seTimestamp (Batches batch ! j))"
  shows "checkSpanBatch l2 cfg bs head (replace_tx batch j i (SetCodeTxType # tx)) incl = Inr BatchAccept \<and>
    (\<forall>sbs. GetSingularBatches (replace_tx batch j i (SetCodeTxType # tx)) bs head = Inr sbs \<longrightarrow>
      (\<exists>sb \<in> set sbs. Timestamp sb = seTimestamp (Batches batch ! j) \<and> (SetCodeTxType # tx) \<in> set (Transactions sb) \<and>
        (\<forall>h bs' head' incl'. checkSingularBatch cfg bs' head' (sb\<lparr>ParentHash := h\<rparr>) incl' \<noteq> BatchAccept)))"
proof -
  let ?b = "replace_tx batch j i (SetCodeTxType # tx)"
  let ?e = "(Batches batch ! j)\<lparr>seTransactions := (seTransactions (Batches batch ! j))[i := SetCodeTxType # tx]\<rparr>"
  have ne: "Batches batch \<noteq> []" using assms(3) by auto
  note looks = replace_looks [OF assms(3,4), of tx]
  have b: "?b = batch\<lparr>Batches := Batches ?b\<rparr>" by (simp add: replace_tx_def)
  have prefix: "checkSpanBatchPrefix refs cfg bs head ?b incl = checkSpanBatchPrefix refs cfg bs head batch incl" for refs
    by (subst b) (rule prefix_looks [OF looks ne])
  have first: "seEpochNum (Batches ?b ! 0) = seEpochNum (Batches batch ! 0)" "seTimestamp (Batches ?b ! 0) = seTimestamp (Batches batch ! 0)"
    using list_all2_nthD [OF looks, of 0] ne by (simp_all add: looks_like_def)
  obtain b0 es where bs0: "Batches batch = b0 # es" using ne by (cases "Batches batch") auto
  obtain parent where pre: "checkSpanBatchPrefix (refByNumber l2) cfg bs head batch incl = Inr (BatchAccept, parent)"
    and blocks: "span_blocks cfg bs (l2Time head) 0 (seEpochNum (Batches batch ! 0) = bNumber (L1Origin parent) + 1) None (Batches batch) = None"
    by (rule span_accepted [OF assms(1) bs0]) (simp add: bs0)
  have "span_blocks cfg bs (l2Time head) 0 (seEpochNum (Batches batch ! 0) = bNumber (L1Origin parent) + 1) None (Batches ?b) = None"
    by (rule span_blocks_looks [OF looks _ blocks]) simp
  then have acc: "checkSpanBatch l2 cfg bs head ?b incl = Inr BatchAccept"
    using assms(2) by (simp add: checkSpanBatch_def prefix pre first linorder_not_less [symmetric])
  have e: "?e \<in> set (Batches ?b)" using assms(3) by (auto simp: replace_tx_def set_update_memI)
  have "\<exists>sb \<in> set sbs. Timestamp sb = seTimestamp (Batches batch ! j) \<and> (SetCodeTxType # tx) \<in> set (Transactions sb) \<and>
        (\<forall>h bs' head' incl'. checkSingularBatch cfg bs' head' (sb\<lparr>ParentHash := h\<rparr>) incl' \<noteq> BatchAccept)"
    if "GetSingularBatches ?b bs head = Inr sbs" for sbs
  proof -
    from singular_of_element [OF that [unfolded GetSingularBatches_def] e] assms(5) obtain sb where
      sb: "sb \<in> set sbs" "Timestamp sb = seTimestamp (Batches batch ! j)" "Transactions sb = (seTransactions (Batches batch ! j))[i := SetCodeTxType # tx]"
      by auto
    then show ?thesis
      using assms(4,6) valid_txs_set_code(2) [OF assms(4), of tx] by (intro bexI [of _ sb] conjI allI set_code_not_accepted) (auto simp: set_update_memI)
  qed
  with acc show ?thesis by blast
qed

lemma span_accepts_set_code_witness:
  "\<exists>sbs. checkSpanBatch sample_l2_env (sample_config 12 14) sample_l1_blocks sample_parent (replace_tx sample_span 0 1 [SetCodeTxType, 9]) (sample_l1 8 70) = Inr BatchAccept \<and>
    GetSingularBatches (replace_tx sample_span 0 1 [SetCodeTxType, 9]) sample_l1_blocks sample_parent = Inr sbs \<and>
    (\<exists>sb \<in> set sbs. \<forall>h bs head incl. checkSingularBatch (sample_config 12 14) bs head (sb\<lparr>ParentHash := h\<rparr>) incl \<noteq> BatchAccept)"
proof -
  have c: "l2Time sample_parent + BlockTime (sample_config 12 14) \<le> seTimestamp (Batches sample_span ! 0)" "0 < length (Batches sample_span)"
    "1 < length (seTransactions (Batches sample_span ! 0))" "l2Time sample_parent < seTimestamp (Batches sample_span ! 0)"
    "\<not> IsIsthmus (sample_config 12 14) (seTimestamp (Batches sample_span ! 0))" by code_simp+
  have "is_ok (GetSingularBatches (replace_tx sample_span 0 1 [SetCodeTxType, 9]) sample_l1_blocks sample_parent)" by code_simp
  then obtain sbs where "GetSingularBatches (replace_tx sample_span 0 1 [SetCodeTxType, 9]) sample_l1_blocks sample_parent = Inr sbs" by (auto simp: is_ok_iff)
  with span_accepts_set_code [OF sample_span_accepted c, of "[9]"] show ?thesis by blast
qed

end
