(* ===== verification/BatchStage.thy ===== *)
theory BatchStage
  imports BatchRules
begin

text \<open>
  The batch stages (\<^verbatim>\<open>op-node/rollup/derive/{base_batch_stage,batch_queue,batch_stage,batch_mux}.go\<close>): the L1 blocks that a batch may refer to, the queue of
  batches before Holocene, the strictly ordered stage since Holocene, the empty batches of an expired sequencing window, and the
  switch between the stages. The previous stage is given by three operations on its state: \<open>prevNext\<close> (\<^verbatim>\<open>NextBatch\<close>), \<open>prevOrigin\<close> and \<open>prevFlush\<close>.
\<close>

section \<open>The common base\<close>

record baseBatchStage =
  bsConfig :: Config
  bsOrigin :: L1BlockRef
  l1Blocks :: "L1BlockRef list"
  nextSpan :: "SingularBatch list"

definition newBaseBatchStage :: "Config \<Rightarrow> baseBatchStage" where
  "newBaseBatchStage cfg = \<lparr>bsConfig = cfg, bsOrigin = no_block, l1Blocks = [], nextSpan = []\<rparr>"

definition popNextBatch :: "L2BlockRef \<Rightarrow> 'a baseBatchStage_scheme \<Rightarrow> derive_error + SingularBatch \<times> 'a baseBatchStage_scheme" where
  "popNextBatch parent bs =
    (case nextSpan bs of
       [] \<Rightarrow> Inl (Panic ''popping non-existent span-batch, invalid state'')
     | b # rest \<Rightarrow> Inr (b\<lparr>ParentHash := l2Hash parent\<rparr>, bs\<lparr>nextSpan := rest\<rparr>))"

definition nextFromSpanBatch :: "L2BlockRef \<Rightarrow> 'a baseBatchStage_scheme \<Rightarrow> (SingularBatch \<times> bool) option \<times> 'a baseBatchStage_scheme" where
  "nextFromSpanBatch parent bs =
    (case nextSpan bs of
       [] \<Rightarrow> (None, bs)
     | b # rest \<Rightarrow>
        if Timestamp b = l2Time parent + BlockTime (bsConfig bs)
        then (Some (b\<lparr>ParentHash := l2Hash parent\<rparr>, rest = []), bs\<lparr>nextSpan := rest\<rparr>)
        else (None, bs\<lparr>nextSpan := []\<rparr>))"

definition originBehind :: "L1BlockRef \<Rightarrow> L2BlockRef \<Rightarrow> bool" where
  "originBehind prevOrigin parent \<longleftrightarrow> l1Number prevOrigin < bNumber (L1Origin parent)"

text \<open>The loop that drops the L1 blocks before the origin of the parent; without a match nothing changes.\<close>

definition advance_blocks :: "uint64 \<Rightarrow> L1BlockRef list \<Rightarrow> L1BlockRef list" where
  "advance_blocks num bs =
    (if bs \<noteq> [] \<and> l1Number (bs ! 0) < num \<and> list_ex (\<lambda>b. num = l1Number b) bs
     then dropWhile (\<lambda>b. num \<noteq> l1Number b) bs else bs)"

definition updateOrigins :: "L1BlockRef \<Rightarrow> L2BlockRef \<Rightarrow> 'a baseBatchStage_scheme \<Rightarrow> 'a baseBatchStage_scheme" where
  "updateOrigins prevOrigin parent bs =
    (let bs = (if bsOrigin bs \<noteq> prevOrigin then
                 bs\<lparr>bsOrigin := prevOrigin, l1Blocks := (if \<not> originBehind prevOrigin parent then l1Blocks bs @ [prevOrigin] else [])\<rparr>
               else bs)
     in bs\<lparr>l1Blocks := advance_blocks (bNumber (L1Origin parent)) (l1Blocks bs)\<rparr>)"

definition base_reset :: "L1BlockRef \<Rightarrow> 'a baseBatchStage_scheme \<Rightarrow> 'a baseBatchStage_scheme" where
  "base_reset base bs = bs\<lparr>bsOrigin := base, l1Blocks := [base], nextSpan := []\<rparr>"

definition deriveNextEmptyBatch :: "bool \<Rightarrow> L2BlockRef \<Rightarrow> 'a baseBatchStage_scheme \<Rightarrow> (derive_error + SingularBatch) \<times> 'a baseBatchStage_scheme" where
  "deriveNextEmptyBatch outOfData parent bs =
    (if l1Blocks bs = [] then (Inl (Panic ''index out of range''), bs)
     else
       let epoch = l1Blocks bs ! 0;
           expiryEpoch = l1Number epoch + SeqWindowSize (bsConfig bs);
           forceEmptyBatches = (expiryEpoch = l1Number (bsOrigin bs) \<and> outOfData \<or> expiryEpoch < l1Number (bsOrigin bs));
           firstOfEpoch = (l1Number epoch = bNumber (L1Origin parent) + 1);
           nextTimestamp = l2Time parent + BlockTime (bsConfig bs) in
       if \<not> forceEmptyBatches then (Inl IoEOF, bs)
       else if length (l1Blocks bs) < 2 then (Inl IoEOF, bs)
       else if nextTimestamp < l1Time (l1Blocks bs ! 1) \<or> firstOfEpoch then
         (Inr \<lparr>ParentHash = l2Hash parent, EpochNum = l1Number epoch, EpochHash = l1Hash epoch, Timestamp = nextTimestamp, Transactions = []\<rparr>, bs)
       else (Inl IoEOF, bs\<lparr>l1Blocks := drop 1 (l1Blocks bs)\<rparr>))"

definition l1_id :: "L1BlockRef \<Rightarrow> BlockID" where "l1_id b = \<lparr>bHash = l1Hash b, bNumber = l1Number b\<rparr>"

text \<open>The test that the buffered epoch matches the parent: its origin, or one block ahead of it.\<close>

definition epoch_mismatch :: "L2BlockRef \<Rightarrow> L1BlockRef \<Rightarrow> bool" where
  "epoch_mismatch parent epoch \<longleftrightarrow> L1Origin parent \<noteq> l1_id epoch \<and> bNumber (L1Origin parent) \<noteq> l1Number epoch - 1"

section \<open>The batch queue before Holocene\<close>

record BatchQueue = baseBatchStage +
  batches :: "BatchWithL1InclusionBlock list"

definition NewBatchQueue :: "Config \<Rightarrow> BatchQueue" where
  "NewBatchQueue cfg = \<lparr>bsConfig = cfg, bsOrigin = no_block, l1Blocks = [], nextSpan = [], batches = []\<rparr>"

definition AddBatch :: "l2_env \<Rightarrow> Batch \<Rightarrow> L2BlockRef \<Rightarrow> BatchQueue \<Rightarrow> derive_error + BatchQueue" where
  "AddBatch l2 batch parent bq =
    (if l1Blocks bq = [] then Inl (Panic ''cannot add batch, no origin was prepared'')
     else
       let data = \<lparr>biBatch = batch, L1InclusionBlock = bsOrigin bq\<rparr> in
       rbind (CheckBatch l2 (bsConfig bq) (l1Blocks bq) parent data) (\<lambda>validity.
       if validity = BatchDrop then Inr bq else Inr (bq\<lparr>batches := batches bq @ [data]\<rparr>)))"

text \<open>The loop over the buffered batches: \<open>Inl\<close> ends the derivation with an error and the batches that are kept; \<open>Inr\<close> is the accepted
  batch, if any, and the remaining ones. A critical error leaves the buffer as it was.\<close>

fun batch_loop :: "l2_env \<Rightarrow> Config \<Rightarrow> L1BlockRef list \<Rightarrow> L2BlockRef \<Rightarrow> BatchWithL1InclusionBlock list \<Rightarrow> BatchWithL1InclusionBlock list \<Rightarrow>
    BatchWithL1InclusionBlock list \<Rightarrow> derive_error \<times> BatchWithL1InclusionBlock list + BatchWithL1InclusionBlock option \<times> BatchWithL1InclusionBlock list" where
  "batch_loop l2 cfg blocks parent whole [] remaining = Inr (None, remaining)"
| "batch_loop l2 cfg blocks parent whole (b # bs) remaining =
    (case CheckBatch l2 cfg blocks parent b of
       Inl e \<Rightarrow> Inl (e, whole)
     | Inr BatchFuture \<Rightarrow> batch_loop l2 cfg blocks parent whole bs (remaining @ [b])
     | Inr BatchDrop \<Rightarrow> batch_loop l2 cfg blocks parent whole bs remaining
     | Inr BatchAccept \<Rightarrow> Inr (Some b, remaining @ bs)
     | Inr BatchUndecided \<Rightarrow> Inl (IoEOF, remaining @ b # bs)
     | Inr BatchPast \<Rightarrow> Inl (CriticalError ''unknown batch validity type'', whole))"

definition deriveNextBatch :: "l2_env \<Rightarrow> bool \<Rightarrow> L2BlockRef \<Rightarrow> BatchQueue \<Rightarrow> (derive_error + Batch) \<times> BatchQueue" where
  "deriveNextBatch l2 outOfData parent bq =
    (if l1Blocks bq = [] then (Inl (CriticalError ''cannot derive next batch, no origin was prepared''), bq)
     else if epoch_mismatch parent (l1Blocks bq ! 0)
     then (Inl (ResetError ''buffered L1 chain epoch in batch queue does not match safe head origin''), bq)
     else
       case batch_loop l2 (bsConfig bq) (l1Blocks bq) parent (batches bq) (batches bq) [] of
         Inl (e, kept) \<Rightarrow> (Inl e, bq\<lparr>batches := kept\<rparr>)
       | Inr (Some b, remaining) \<Rightarrow> (Inr (biBatch b), bq\<lparr>batches := remaining\<rparr>)
       | Inr (None, remaining) \<Rightarrow>
          (case deriveNextEmptyBatch outOfData parent (bq\<lparr>batches := remaining\<rparr>) of
             (Inl e, bq) \<Rightarrow> (Inl e, bq)
           | (Inr b, bq) \<Rightarrow> (Inr (Singular b), bq)))"

definition BatchQueue_NextBatch :: "('p \<Rightarrow> (derive_error + Batch) \<times> 'p) \<Rightarrow> ('p \<Rightarrow> L1BlockRef) \<Rightarrow> l2_env \<Rightarrow> L2BlockRef \<Rightarrow> BatchQueue \<times> 'p \<Rightarrow>
    (derive_error + SingularBatch \<times> bool) \<times> BatchQueue \<times> 'p" where
  "BatchQueue_NextBatch prevNext prevOrigin l2 parent st =
    (let (bq, prev) = st in
     case nextFromSpanBatch parent bq of
       (Some (batch, isLast), bq) \<Rightarrow> (Inr (batch, isLast), bq, prev)
     | (None, bq) \<Rightarrow>
        let bq = updateOrigins (prevOrigin prev) parent bq;
            behind = originBehind (prevOrigin prev) parent;
            (r, prev) = prevNext prev in
        case (case r of
                Inl e \<Rightarrow> if e = IoEOF then Inr (True, bq) else Inl e
              | Inr batch \<Rightarrow> if \<not> behind then rbind (AddBatch l2 batch parent bq) (\<lambda>bq. Inr (False, bq)) else Inr (False, bq)) of
          Inl e \<Rightarrow> (Inl e, bq, prev)
        | Inr (outOfData, bq) \<Rightarrow>
           if behind then (Inl (if outOfData then IoEOF else NotEnoughData), bq, prev)
           else
             (case deriveNextBatch l2 outOfData parent bq of
                (Inl e, bq) \<Rightarrow> (Inl (if e = IoEOF then (if outOfData then IoEOF else NotEnoughData) else e), bq, prev)
              | (Inr (Singular b), bq) \<Rightarrow> (Inr (b, nextSpan bq = []), bq, prev)
              | (Inr (Span s), bq) \<Rightarrow>
                 (case GetSingularBatches s (l1Blocks bq) parent of
                    Inl _ \<Rightarrow> (Inl (CriticalError ''unable to find L1 origin''), bq, prev)
                  | Inr sbs \<Rightarrow>
                     (case popNextBatch parent (bq\<lparr>nextSpan := sbs\<rparr>) of
                        Inl e \<Rightarrow> (Inl e, bq\<lparr>nextSpan := sbs\<rparr>, prev)
                      | Inr (b, bq) \<Rightarrow> (Inr (b, nextSpan bq = []), bq, prev)))))"

definition BatchQueue_Reset :: "L1BlockRef \<Rightarrow> BatchQueue \<Rightarrow> derive_error \<times> BatchQueue" where
  "BatchQueue_Reset base bq = (IoEOF, (base_reset base bq)\<lparr>batches := []\<rparr>)"

section \<open>The batch stage since Holocene\<close>

text \<open>\<open>BatchStage_FlushChannel\<close> also flushes the previous stage.\<close>

definition BatchStage_FlushChannel :: "('p \<Rightarrow> 'p) \<Rightarrow> baseBatchStage \<times> 'p \<Rightarrow> baseBatchStage \<times> 'p" where
  "BatchStage_FlushChannel prevFlush st = ((fst st)\<lparr>nextSpan := []\<rparr>, prevFlush (snd st))"

definition nextSingularBatchCandidate :: "('p \<Rightarrow> (derive_error + Batch) \<times> 'p) \<Rightarrow> ('p \<Rightarrow> 'p) \<Rightarrow> l2_env \<Rightarrow> L2BlockRef \<Rightarrow> baseBatchStage \<times> 'p \<Rightarrow>
    (derive_error + SingularBatch) \<times> baseBatchStage \<times> 'p" where
  "nextSingularBatchCandidate prevNext prevFlush l2 parent st =
    (let (bs, prev) = st in
     case nextFromSpanBatch parent bs of
       (Some (batch, _), bs) \<Rightarrow> (Inr batch, bs, prev)
     | (None, bs) \<Rightarrow>
        (case prevNext prev of
           (Inl e, prev) \<Rightarrow> (Inl e, bs, prev)
         | (Inr (Singular b), prev) \<Rightarrow> (Inr b, bs, prev)
         | (Inr (Span s), prev) \<Rightarrow>
            (case checkSpanBatchPrefix (refByNumber l2) (bsConfig bs) (l1Blocks bs) parent s (bsOrigin bs) of
               Inl e \<Rightarrow> (Inl e, bs, prev)
             | Inr (BatchAccept, _) \<Rightarrow>
                (case GetSingularBatches s (l1Blocks bs) parent of
                   Inl _ \<Rightarrow> (Inl (CriticalError ''unable to find L1 origin''), bs, prev)
                 | Inr sbs \<Rightarrow>
                    (case popNextBatch parent (bs\<lparr>nextSpan := sbs\<rparr>) of
                       Inl e \<Rightarrow> (Inl e, bs\<lparr>nextSpan := sbs\<rparr>, prev)
                     | Inr (b, bs) \<Rightarrow> (Inr b, bs, prev)))
             | Inr (BatchPast, _) \<Rightarrow> (Inl NotEnoughData, bs, prev)
             | Inr (BatchDrop, _) \<Rightarrow> (Inl NotEnoughData, BatchStage_FlushChannel prevFlush (bs, prev))
             | Inr (BatchUndecided, _) \<Rightarrow> (Inl NotEnoughData, bs, prev)
             | Inr (BatchFuture, _) \<Rightarrow> (Inl (CriticalError ''impossible future batch validity''), bs, prev))))"

definition BatchStage_NextBatch :: "('p \<Rightarrow> (derive_error + Batch) \<times> 'p) \<Rightarrow> ('p \<Rightarrow> L1BlockRef) \<Rightarrow> ('p \<Rightarrow> 'p) \<Rightarrow> l2_env \<Rightarrow> L2BlockRef \<Rightarrow> baseBatchStage \<times> 'p \<Rightarrow>
    (derive_error + SingularBatch \<times> bool) \<times> baseBatchStage \<times> 'p" where
  "BatchStage_NextBatch prevNext prevOrigin prevFlush l2 parent st =
    (let (bs, prev) = st;
         bs = updateOrigins (prevOrigin prev) parent bs in
     if originBehind (prevOrigin prev) parent \<or> bNumber (L1Origin parent) = l1Number (bsOrigin bs) then
       (case prevNext prev of
          (Inl e, prev) \<Rightarrow> (Inl e, bs, prev)
        | (Inr _, prev) \<Rightarrow> (Inl NotEnoughData, bs, prev))
     else if length (l1Blocks bs) < 2 then (Inl (CriticalError ''unexpected low buffered origin count''), bs, prev)
     else if epoch_mismatch parent (l1Blocks bs ! 0)
     then (Inl (ResetError ''buffered L1 chain epoch in batch queue does not match safe head origin''), bs, prev)
     else
       case nextSingularBatchCandidate prevNext prevFlush l2 parent (bs, prev) of
         (Inl e, bs, prev) \<Rightarrow>
           if e = IoEOF then
             (case deriveNextEmptyBatch True parent bs of
                (Inl e, bs) \<Rightarrow> (Inl e, bs, prev)
              | (Inr b, bs) \<Rightarrow> (Inr (b, True), bs, prev))
           else (Inl e, bs, prev)
       | (Inr batch, bs, prev) \<Rightarrow>
          (case checkSingularBatch (bsConfig bs) (l1Blocks bs) parent batch (bsOrigin bs) of
             BatchAccept \<Rightarrow> (Inr (batch, True), bs, prev)
           | BatchPast \<Rightarrow> (Inl NotEnoughData, bs, prev)
           | BatchDrop \<Rightarrow> (Inl NotEnoughData, BatchStage_FlushChannel prevFlush (bs, prev))
           | BatchUndecided \<Rightarrow> (Inl NotEnoughData, bs, prev)
           | BatchFuture \<Rightarrow> (Inl (CriticalError ''impossible batch validity''), bs, prev)))"

definition BatchStage_Reset :: "L1BlockRef \<Rightarrow> baseBatchStage \<Rightarrow> derive_error \<times> baseBatchStage" where
  "BatchStage_Reset base bs = (IoEOF, base_reset base bs)"

section \<open>The switch between the stages\<close>

datatype SingularBatchProvider = QueueStage BatchQueue | HoloceneStage baseBatchStage

record BatchMux =
  bmCfg :: Config
  provider :: "SingularBatchProvider option"

definition BatchMux_Reset :: "L1BlockRef \<Rightarrow> BatchMux \<Rightarrow> derive_error \<times> BatchMux" where
  "BatchMux_Reset base b =
    (if IsHolocene (bmCfg b) (l1Time base) then
       (let (e, bs) = BatchStage_Reset base (case provider b of Some (HoloceneStage bs) \<Rightarrow> bs | _ \<Rightarrow> newBaseBatchStage (bmCfg b))
        in (e, b\<lparr>provider := Some (HoloceneStage bs)\<rparr>))
     else
       (let (e, bq) = BatchQueue_Reset base (case provider b of Some (QueueStage bq) \<Rightarrow> bq | _ \<Rightarrow> NewBatchQueue (bmCfg b))
        in (e, b\<lparr>provider := Some (QueueStage bq)\<rparr>)))"

definition BatchMux_TransformHolocene :: "BatchMux \<Rightarrow> derive_error + BatchMux" where
  "BatchMux_TransformHolocene b =
    (case provider b of
       Some (QueueStage bq) \<Rightarrow>
         Inr (b\<lparr>provider := Some (HoloceneStage ((newBaseBatchStage (bmCfg b))\<lparr>l1Blocks := l1Blocks bq, bsOrigin := bsOrigin bq\<rparr>))\<rparr>)
     | Some (HoloceneStage _) \<Rightarrow> Inl (Panic ''Holocene BatchStage already active'')
     | None \<Rightarrow> Inl (Panic ''unknown batch stage type''))"

definition BatchMux_Transform :: "ForkName \<Rightarrow> BatchMux \<Rightarrow> derive_error + BatchMux" where
  "BatchMux_Transform f b = (if f = Holocene then BatchMux_TransformHolocene b else Inr b)"

section \<open>What the rules of singular batches guarantee\<close>

lemma singular_accepted:
  assumes "checkSingularBatch cfg bs head b incl = BatchAccept"
  shows "Timestamp b = l2Time head + BlockTime cfg" and "ParentHash b = l2Hash head"
    and "\<exists>i < 2. i < length bs \<and> EpochHash b = l1Hash (bs ! i) \<and> l1Time (bs ! i) \<le> Timestamp b \<and> EpochNum b = l1Number (bs ! 0) + of_nat i"
    and "valid_txs (IsIsthmus cfg (Timestamp b)) (Transactions b)"
proof -
  have ne: "length bs \<noteq> 0" using assms by (auto simp: checkSingularBatch_def)
  show "Timestamp b = l2Time head + BlockTime cfg" "ParentHash b = l2Hash head" "valid_txs (IsIsthmus cfg (Timestamp b)) (Transactions b)"
    using assms ne by (simp_all add: checkSingularBatch_def Let_def split del: if_split split: if_split_asm option.split_asm sum.split_asm)
  show "\<exists>i < 2. i < length bs \<and> EpochHash b = l1Hash (bs ! i) \<and> l1Time (bs ! i) \<le> Timestamp b \<and> EpochNum b = l1Number (bs ! 0) + of_nat i"
  proof (cases "EpochNum b = l1Number (bs ! 0)")
    case True
    then show ?thesis
      using assms ne by (intro exI [of _ 0]) (auto simp: checkSingularBatch_def Let_def split del: if_split split: if_split_asm option.split_asm sum.split_asm)
  next
    case False
    then show ?thesis
      using assms ne by (intro exI [of _ 1]) (auto simp: checkSingularBatch_def Let_def split del: if_split split: if_split_asm option.split_asm sum.split_asm)
  qed
qed

section \<open>Every batch of the Holocene stage is valid\<close>

definition forced_empty :: "baseBatchStage \<Rightarrow> L2BlockRef \<Rightarrow> SingularBatch \<Rightarrow> bool" where
  "forced_empty bs parent b \<longleftrightarrow>
    Transactions b = [] \<and> Timestamp b = l2Time parent + BlockTime (bsConfig bs) \<and> ParentHash b = l2Hash parent \<and>
    2 \<le> length (l1Blocks bs) \<and> Epoch b = l1_id (l1Blocks bs ! 0) \<and>
    l1Number (l1Blocks bs ! 0) + SeqWindowSize (bsConfig bs) \<le> l1Number (bsOrigin bs) \<and>
    (Timestamp b < l1Time (l1Blocks bs ! 1) \<or> l1Number (l1Blocks bs ! 0) = bNumber (L1Origin parent) + 1)"

lemma deriveNextEmptyBatch_ok:
  "deriveNextEmptyBatch ood parent bs = (Inr b, bs') \<Longrightarrow> forced_empty bs parent b \<and> bs' = bs"
  by (auto simp: deriveNextEmptyBatch_def forced_empty_def Let_def Epoch_def l1_id_def split: if_splits)

lemma updateOrigins_config [simp]: "bsConfig (updateOrigins o1 parent bs) = bsConfig bs"
  by (simp add: updateOrigins_def Let_def)

lemma nextFromSpanBatch_config: "nextFromSpanBatch parent bs = (r, bs') \<Longrightarrow> bsConfig bs' = bsConfig bs"
  by (auto simp: nextFromSpanBatch_def split: list.splits if_splits)

lemma candidate_config:
  assumes "nextSingularBatchCandidate prevNext prevFlush l2 parent (bs, prev) = (r, bs', prev')"
  shows "bsConfig bs' = bsConfig bs"
proof -
  obtain r1 bs1 where n: "nextFromSpanBatch parent bs = (r1, bs1)" by (cases "nextFromSpanBatch parent bs")
  have c: "bsConfig bs1 = bsConfig bs" using nextFromSpanBatch_config [OF n] .
  show ?thesis
    using assms n c
    by (auto simp: nextSingularBatchCandidate_def popNextBatch_def BatchStage_FlushChannel_def
        split: option.splits prod.splits sum.splits Batch.splits BatchValidity.splits list.splits)
qed

lemma stage_sound:
  assumes "BatchStage_NextBatch prevNext prevOrigin prevFlush l2 parent (bs, prev) = (Inr (b, isLast), bs', prev')"
  shows "Timestamp b = l2Time parent + BlockTime (bsConfig bs) \<and> ParentHash b = l2Hash parent \<and> bsConfig bs' = bsConfig bs \<and>
    (checkSingularBatch (bsConfig bs) (l1Blocks bs') parent b (bsOrigin bs') = BatchAccept \<or> forced_empty bs' parent b)"
proof -
  let ?bs = "updateOrigins (prevOrigin prev) parent bs"
  obtain r bs1 p1 where c: "nextSingularBatchCandidate prevNext prevFlush l2 parent (?bs, prev) = (r, bs1, p1)"
    by (cases "nextSingularBatchCandidate prevNext prevFlush l2 parent (?bs, prev)")
  have cfg: "bsConfig bs1 = bsConfig bs" using candidate_config [OF c] by simp
  have pass: "\<not> (originBehind (prevOrigin prev) parent \<or> bNumber (L1Origin parent) = l1Number (bsOrigin ?bs))" "\<not> length (l1Blocks ?bs) < 2"
    "\<not> epoch_mismatch parent (l1Blocks ?bs ! 0)"
    using assms by (auto simp: BatchStage_NextBatch_def Let_def split: if_splits prod.splits sum.splits)
  show ?thesis
  proof (cases r)
    case (Inl e)
    then show ?thesis
      using assms pass c cfg deriveNextEmptyBatch_ok [of True parent bs1]
      by (cases "deriveNextEmptyBatch True parent bs1") (auto simp: BatchStage_NextBatch_def Let_def forced_empty_def split: if_splits sum.splits)
  next
    case (Inr b1)
    then show ?thesis
      using assms pass c cfg singular_accepted(1,2) [of "bsConfig bs" "l1Blocks bs1" parent b1 "bsOrigin bs1"]
      by (auto simp: BatchStage_NextBatch_def Let_def BatchStage_FlushChannel_def split: BatchValidity.splits)
  qed
qed

text \<open>C20: Every batch that the Holocene stage hands out extends the parent: it carries the parent's hash and the next timestamp and has passed all the
  rules of singular batches at the current L1 origin, or it is the empty batch of the oldest buffered epoch, made because the sequencing
  window of that epoch has expired.\<close>

theorem batch_stage_sound:
  assumes "BatchStage_NextBatch prevNext prevOrigin prevFlush l2 parent (bs, prev) = (Inr (b, isLast), bs', prev')"
  shows "Timestamp b = l2Time parent + BlockTime (bsConfig bs) \<and> ParentHash b = l2Hash parent \<and> bsConfig bs' = bsConfig bs \<and>
    (checkSingularBatch (bsConfig bs) (l1Blocks bs') parent b (bsOrigin bs') = BatchAccept \<or> forced_empty bs' parent b)"
  using assms by (rule stage_sound)

section \<open>The stage does not panic\<close>

lemma singular_loop_nonempty:
  "singular_loop bs safe k es = Inr sbs \<Longrightarrow> es \<noteq> [] \<Longrightarrow> safe < seTimestamp (last es) \<Longrightarrow> sbs \<noteq> []"
proof (induction es arbitrary: k sbs)
  case (Cons e es)
  show ?case
  proof (cases "seTimestamp e \<le> safe")
    case True
    then have "es \<noteq> []" using Cons.prems(3) by (auto simp: not_less)
    then show ?thesis using Cons True by simp
  next
    case False
    then show ?thesis using Cons.prems(1) by (auto simp: rbind_Inr_iff split: option.splits)
  qed
qed simp

text \<open>What the decoder of span batches promises: a span is never empty.\<close>

definition feeds_spans :: "('p \<Rightarrow> (derive_error + Batch) \<times> 'p) \<Rightarrow> 'p \<Rightarrow> bool" where
  "feeds_spans prevNext p \<longleftrightarrow> (case fst (prevNext p) of Inr (Span s) \<Rightarrow> Batches s \<noteq> [] | _ \<Rightarrow> True)"

lemma prefix_no_panic:
  assumes "checkSpanBatchPrefix rbn cfg bs head s incl = Inl e" and "Batches s \<noteq> []" and "BlockTime cfg \<noteq> 0"
  shows False
  using assms by (auto simp: checkSpanBatchPrefix_def span_parent_def Let_def split: if_split_asm sum.splits option.splits)

lemma candidate_errors:
  assumes "nextSingularBatchCandidate prevNext prevFlush l2 parent (bs, prev) = (Inl (Panic m), bs', prev')"
    and "feeds_spans prevNext prev" and "l2Time parent < l2Time parent + BlockTime (bsConfig bs)"
  shows "fst (prevNext prev) = Inl (Panic m)"
proof -
  obtain r1 bs1 where n: "nextFromSpanBatch parent bs = (r1, bs1)" by (cases "nextFromSpanBatch parent bs")
  have c: "bsConfig bs1 = bsConfig bs" using nextFromSpanBatch_config [OF n] .
  have bt: "BlockTime (bsConfig bs) \<noteq> 0" using assms(3) by auto
  obtain r p1 where p: "prevNext prev = (r, p1)" by (cases "prevNext prev")
  have r1: "r1 = None" using assms(1) n by (cases r1) (auto simp: nextSingularBatchCandidate_def)
  show ?thesis
  proof (cases r)
    case (Inl e)
    then show ?thesis using assms(1) n p r1 by (simp add: nextSingularBatchCandidate_def)
  next
    case (Inr batch)
    then obtain s where s: "batch = Span s" using assms(1) n p r1 by (cases batch) (auto simp: nextSingularBatchCandidate_def)
    have ne: "Batches s \<noteq> []" using assms(2) p Inr s by (simp add: feeds_spans_def)
    then obtain b0 es where b: "Batches s = b0 # es" by (cases "Batches s") auto
    obtain v par where pre: "checkSpanBatchPrefix (refByNumber l2) (bsConfig bs1) (l1Blocks bs1) parent s (bsOrigin bs1) = Inr (v, par)"
      using prefix_no_panic [OF _ ne, of "refByNumber l2" "bsConfig bs1"] bt c by (cases "checkSpanBatchPrefix (refByNumber l2) (bsConfig bs1) (l1Blocks bs1) parent s (bsOrigin bs1)") auto
    have v: "v = BatchAccept"
      using assms(1) n p r1 Inr s pre by (cases v) (auto simp: nextSingularBatchCandidate_def BatchStage_FlushChannel_def)
    have "l2Time parent < seTimestamp (last (Batches s))"
      using prefix_accepted(3) [OF pre [unfolded v] b] assms(3) b c by simp
    then have "sbs \<noteq> []" if "GetSingularBatches s (l1Blocks bs1) parent = Inr sbs" for sbs
      using singular_loop_nonempty [OF _ ne] that by (auto simp: GetSingularBatches_def)
    then show ?thesis
      using assms(1) n p r1 Inr s pre v
      by (auto simp: nextSingularBatchCandidate_def popNextBatch_def split: sum.splits list.splits)
  qed
qed

lemma candidate_blocks:
  assumes "nextSingularBatchCandidate prevNext prevFlush l2 parent (bs, prev) = (r, bs', prev')"
  shows "l1Blocks bs' = l1Blocks bs"
proof -
  obtain r1 bs1 where n: "nextFromSpanBatch parent bs = (r1, bs1)" by (cases "nextFromSpanBatch parent bs")
  have c: "l1Blocks bs1 = l1Blocks bs" using n by (auto simp: nextFromSpanBatch_def split: list.splits if_splits)
  show ?thesis
    using assms n c
    by (auto simp: nextSingularBatchCandidate_def popNextBatch_def BatchStage_FlushChannel_def
        split: option.splits prod.splits sum.splits Batch.splits BatchValidity.splits list.splits)
qed

lemma stage_panic:
  assumes "BatchStage_NextBatch prevNext prevOrigin prevFlush l2 parent (bs, prev) = (Inl (Panic m), bs', prev')"
    and "feeds_spans prevNext prev" and "l2Time parent < l2Time parent + BlockTime (bsConfig bs)"
  shows "fst (prevNext prev) = Inl (Panic m)"
proof -
  let ?bs = "updateOrigins (prevOrigin prev) parent bs"
  obtain r bs1 p1 where c: "nextSingularBatchCandidate prevNext prevFlush l2 parent (?bs, prev) = (r, bs1, p1)"
    by (cases "nextSingularBatchCandidate prevNext prevFlush l2 parent (?bs, prev)")
  show ?thesis
  proof (cases "originBehind (prevOrigin prev) parent \<or> bNumber (L1Origin parent) = l1Number (bsOrigin ?bs)")
    case True
    then show ?thesis using assms(1) by (cases "prevNext prev") (auto simp: BatchStage_NextBatch_def Let_def split: sum.splits)
  next
    case False
    then have pass: "\<not> length (l1Blocks ?bs) < 2" "\<not> epoch_mismatch parent (l1Blocks ?bs ! 0)"
      using assms(1) by (auto simp: BatchStage_NextBatch_def Let_def split: if_splits)
    have bl: "l1Blocks bs1 = l1Blocks ?bs" using candidate_blocks [OF c] .
    have empty: "fst (deriveNextEmptyBatch True parent bs1) \<noteq> Inl (Panic m)" using pass(1) bl by (auto simp: deriveNextEmptyBatch_def Let_def)
    have "r = Inl (Panic m)"
      using assms(1) False pass c empty
      by (cases "deriveNextEmptyBatch True parent bs1")
        (auto simp: BatchStage_NextBatch_def Let_def BatchStage_FlushChannel_def split: sum.splits if_splits BatchValidity.splits)
    then show ?thesis using candidate_errors [of prevNext prevFlush l2 parent ?bs prev m bs1 p1] c assms(2,3) by simp
  qed
qed

text \<open>C23: The Holocene stage panics nowhere: neither the pop from an expanded span (which holds at least one batch after the parent), nor an index into
  the buffered L1 blocks, nor the division by the block time, provided timestamps do not overflow and spans are not empty and the
  previous stage does not panic.\<close>

theorem batch_stage_no_panic:
  assumes "feeds_spans prevNext prev" and "l2Time parent < l2Time parent + BlockTime (bsConfig bs)" and "\<forall>m. fst (prevNext prev) \<noteq> Inl (Panic m)"
  shows "\<forall>m. fst (BatchStage_NextBatch prevNext prevOrigin prevFlush l2 parent (bs, prev)) \<noteq> Inl (Panic m)"
  using stage_panic [OF _ assms(1,2)] assms(3) by (metis prod.collapse)

section \<open>Every batch of the queue extends the parent\<close>

text \<open>The shape in which a span is derived from its encoding, where numbers may wrap around: timestamps advance by the block time, epochs by at most one.\<close>

fun steps :: "Config \<Rightarrow> uint64 \<Rightarrow> uint64 \<Rightarrow> SpanBatchElement list \<Rightarrow> bool" where
  "steps cfg t ep [] = True"
| "steps cfg t ep (e # es) \<longleftrightarrow> seTimestamp e = t + BlockTime cfg \<and> (seEpochNum e = ep \<or> seEpochNum e = ep + 1) \<and> steps cfg (seTimestamp e) (seEpochNum e) es"

definition span_shape :: "Config \<Rightarrow> SpanBatch \<Rightarrow> bool" where
  "span_shape cfg s = (case Batches s of [] \<Rightarrow> False | b0 # es \<Rightarrow> steps cfg (seTimestamp b0) (seEpochNum b0) es \<and> length es < 10000000)"

text \<open>Room for the timestamps of a longest span on top of a block.\<close>

definition time_room :: "Config \<Rightarrow> L2BlockRef \<Rightarrow> bool" where
  "time_room cfg head \<longleftrightarrow> BlockTime cfg \<noteq> 0 \<and> unat (l2Time head) + 10000001 * unat (BlockTime cfg) < 2 ^ 64"

lemma time_room_next: "time_room cfg head \<Longrightarrow> unat (l2Time head + BlockTime cfg) = unat (l2Time head) + unat (BlockTime cfg)"
  by (simp add: time_room_def unat_word_ariths)

lemma time_room_less: "time_room cfg head \<Longrightarrow> l2Time head < l2Time head + BlockTime cfg"
  by (simp add: word_less_nat_alt time_room_next) (simp add: time_room_def word_less_nat_alt unat_gt_0)

fun batch_shape :: "Config \<Rightarrow> Batch \<Rightarrow> bool" where
  "batch_shape cfg (Singular b) = True"
| "batch_shape cfg (Span s) = span_shape cfg s"

lemma batch_loop_accept:
  "batch_loop l2 cfg blocks parent whole bs rem = Inr (Some b, rem') \<Longrightarrow> CheckBatch l2 cfg blocks parent b = Inr BatchAccept \<and> b \<in> set bs"
  by (induction bs arbitrary: rem) (auto split: sum.splits BatchValidity.splits)

text \<open>The first block of such a span after a time that the span meets.\<close>

lemma steps_next:
  assumes "steps cfg t0 ep es" and "unat t0 + length es * unat (BlockTime cfg) < 2 ^ 64" and "BlockTime cfg \<noteq> 0"
    and "unat t0 + D * unat (BlockTime cfg) = unat t" and "dropWhile (\<lambda>e. seTimestamp e \<le> t) es = e # post"
  shows "seTimestamp e = t + BlockTime cfg"
  using assms
proof (induction es arbitrary: t0 ep D)
  case (Cons x es)
  have u: "unat (t0 + BlockTime cfg) = unat t0 + unat (BlockTime cfg)" using Cons.prems(2) by (simp add: unat_word_ariths)
  have x: "seTimestamp x = t0 + BlockTime cfg" "steps cfg (seTimestamp x) (seEpochNum x) es" using Cons.prems(1) by auto
  show ?case
  proof (cases "seTimestamp x \<le> t")
    case True
    then have le: "unat t0 + unat (BlockTime cfg) \<le> unat t" using u x(1) by (simp add: word_le_nat_alt)
    moreover have "0 < unat (BlockTime cfg)" using Cons.prems(3) by (simp add: unat_gt_0)
    ultimately obtain D' where D: "D = Suc D'" using Cons.prems(4) by (cases D) simp_all
    show ?thesis
      using Cons.IH [OF x(2), of D'] Cons.prems(2-5) u x(1) D True by (simp add: add.assoc)
  next
    case False
    then have "unat t < unat t0 + unat (BlockTime cfg)" using u x(1) by (simp add: word_less_nat_alt not_le)
    then have "D = 0" using Cons.prems(4) by (cases D) auto
    then have "t = t0" using Cons.prems(4) by (simp add: word_eq_iff_unsigned [where 'a = nat])
    then show ?thesis using Cons.prems(5) False x(1) by simp
  qed
qed simp

lemma singular_loop_skips: "singular_loop bs t k es = singular_loop bs t k (dropWhile (\<lambda>e. seTimestamp e \<le> t) es)"
  by (induction es) simp_all

lemma span_first_batch:
  assumes "checkSpanBatch l2 cfg bs head s incl = Inr BatchAccept" and "span_shape cfg s" and "time_room cfg head"
    and "GetSingularBatches s bs head = Inr sbs"
  shows "\<exists>b rest. sbs = b # rest \<and> Timestamp b = l2Time head + BlockTime cfg"
proof -
  let ?t = "l2Time head" and ?late = "dropWhile (\<lambda>e. seTimestamp e \<le> l2Time head)"
  note less = time_room_less [OF assms(3)]
  obtain b0 es where b: "Batches s = b0 # es" "steps cfg (seTimestamp b0) (seEpochNum b0) es" "length es < 10000000"
    using assms(2) by (auto simp: span_shape_def split: list.splits)
  obtain parent where P: "checkSpanBatchPrefix (refByNumber l2) cfg bs head s incl = Inr (BatchAccept, parent)"
    using span_accepted [OF assms(1) b(1)] by blast
  note A = prefix_accepted [OF P b(1)]
  have bound: "unat (seTimestamp b0) \<le> unat ?t + unat (BlockTime cfg)" using A(2) time_room_next [OF assms(3)] by (simp add: word_less_nat_alt not_less)
  have room: "unat (seTimestamp b0) + length es * unat (BlockTime cfg) < 2 ^ 64"
  proof -
    have "length es * unat (BlockTime cfg) \<le> 10000000 * unat (BlockTime cfg)" using b(3) by (intro mult_right_mono) simp_all
    moreover have "unat ?t + 10000001 * unat (BlockTime cfg) < 2 ^ 64" using assms(3) by (simp only: time_room_def)
    ultimately show ?thesis using bound by linarith
  qed
  have "?t < seTimestamp (last (b0 # es))" using A(3) less by simp
  then have "?late (b0 # es) \<noteq> []" unfolding dropWhile_eq_Nil_conv by (metis last_in_set leD list.distinct(1))
  then obtain e post where e: "?late (b0 # es) = e # post" by (cases "?late (b0 # es)") auto
  have ts: "seTimestamp e = ?t + BlockTime cfg"
  proof (cases "?t < seTimestamp b0")
    case True
    then show ?thesis using e A(2,4) by (auto simp: span_parent_def split: if_splits)
  next
    case False
    then have le: "seTimestamp b0 \<le> ?t" by simp
    show ?thesis
      using steps_next [OF b(2) room _ span_parent_time [OF A(4) le less]] e le assms(3) by (simp add: time_room_def)
  qed
  have "\<not> seTimestamp e \<le> ?t" using ts less by simp
  moreover have "singular_loop bs ?t 0 (e # post) = Inr sbs" using assms(4) singular_loop_skips [of bs ?t 0 "b0 # es"] e by (simp add: GetSingularBatches_def b(1))
  ultimately show ?thesis using ts by (auto simp: rbind_Inr_iff split: option.splits)
qed

lemma deriveNextBatch_ok:
  assumes "deriveNextBatch l2 ood parent bq = (Inr batch, bq')" and "list_all (\<lambda>b. batch_shape (bsConfig bq) (biBatch b)) (batches bq)"
  shows "bsConfig bq' = bsConfig bq \<and> batch_shape (bsConfig bq) batch \<and>
    (case batch of
       Singular b \<Rightarrow> Timestamp b = l2Time parent + BlockTime (bsConfig bq) \<and> ParentHash b = l2Hash parent
     | Span s \<Rightarrow> \<exists>incl. checkSpanBatch l2 (bsConfig bq) (l1Blocks bq') parent s incl = Inr BatchAccept)"
proof -
  have pass: "l1Blocks bq \<noteq> []" "\<not> epoch_mismatch parent (l1Blocks bq ! 0)"
    using assms(1) by (auto simp: deriveNextBatch_def split: if_splits)
  obtain found rem where loop: "batch_loop l2 (bsConfig bq) (l1Blocks bq) parent (batches bq) (batches bq) [] = Inr (found, rem)"
    using assms(1) pass by (cases "batch_loop l2 (bsConfig bq) (l1Blocks bq) parent (batches bq) (batches bq) []") (auto simp: deriveNextBatch_def)
  show ?thesis
  proof (cases found)
    case None
    then show ?thesis
      using assms(1) pass loop
      by (auto simp: deriveNextBatch_def deriveNextEmptyBatch_def Let_def split: prod.splits sum.splits if_splits)
  next
    case (Some b)
    then have b: "batch = biBatch b" "bq' = bq\<lparr>batches := rem\<rparr>" using assms(1) pass loop by (auto simp: deriveNextBatch_def)
    have acc: "CheckBatch l2 (bsConfig bq) (l1Blocks bq) parent b = Inr BatchAccept" "b \<in> set (batches bq)"
      using batch_loop_accept [OF loop [unfolded Some]] by auto
    then show ?thesis
      using b assms(2) singular_accepted(1,2)
      by (cases "biBatch b") (auto simp: CheckBatch_def list_all_iff)
  qed
qed

lemma AddBatch_ok:
  assumes "AddBatch l2 batch parent bq = Inr bq'" and "batch_shape (bsConfig bq) batch"
    and "list_all (\<lambda>b. batch_shape (bsConfig bq) (biBatch b)) (batches bq)"
  shows "bsConfig bq' = bsConfig bq \<and> list_all (\<lambda>b. batch_shape (bsConfig bq') (biBatch b)) (batches bq')"
  using assms by (auto simp: AddBatch_def Let_def rbind_Inr_iff split: if_splits)

lemma queue_frames [frame_simps]:
  "batches (updateOrigins o1 parent bq) = batches (bq :: BatchQueue)"
  "nextFromSpanBatch parent bq = (r, bq') \<Longrightarrow> batches bq' = batches bq"
  by (auto simp: updateOrigins_def nextFromSpanBatch_def Let_def split: list.splits if_splits)

lemma queue_sound:
  assumes "BatchQueue_NextBatch prevNext prevOrigin l2 parent (bq, prev) = (Inr (b, isLast), bq', prev')"
    and "list_all (\<lambda>b. batch_shape (bsConfig bq) (biBatch b)) (batches bq)"
    and "case fst (prevNext prev) of Inr batch \<Rightarrow> batch_shape (bsConfig bq) batch | Inl _ \<Rightarrow> True"
    and "time_room (bsConfig bq) parent"
  shows "Timestamp b = l2Time parent + BlockTime (bsConfig bq) \<and> ParentHash b = l2Hash parent"
proof -
  let ?cfg = "bsConfig bq"
  obtain r1 bq1 where n: "nextFromSpanBatch parent bq = (r1, bq1)" by (cases "nextFromSpanBatch parent bq")
  show ?thesis
  proof (cases r1)
    case (Some x)
    then show ?thesis
      using assms(1) n by (auto simp: BatchQueue_NextBatch_def nextFromSpanBatch_def split: list.splits if_splits)
  next
    case None
    let ?bq = "updateOrigins (prevOrigin prev) parent bq1"
    have inv1: "bsConfig ?bq = ?cfg" "list_all (\<lambda>b. batch_shape ?cfg (biBatch b)) (batches ?bq)"
      using nextFromSpanBatch_config [OF n] assms(2) queue_frames(2) [OF n] by (simp_all add: queue_frames(1))
    obtain r p1 where p: "prevNext prev = (r, p1)" by (cases "prevNext prev")
    define step where "step = (case r of Inl e \<Rightarrow> if e = IoEOF then Inr (True, ?bq) else Inl e
        | Inr batch \<Rightarrow> if \<not> originBehind (prevOrigin prev) parent then rbind (AddBatch l2 batch parent ?bq) (\<lambda>bq. Inr (False, bq)) else Inr (False, ?bq))"
    obtain ood bq2 where st: "step = Inr (ood, bq2)" and nb: "\<not> originBehind (prevOrigin prev) parent"
      using assms(1) n None p
      by (cases step) (auto simp: BatchQueue_NextBatch_def Let_def step_def [symmetric] split: if_splits)
    have inv2: "bsConfig bq2 = ?cfg \<and> list_all (\<lambda>b. batch_shape ?cfg (biBatch b)) (batches bq2)"
      using st inv1 assms(3) p nb AddBatch_ok [of l2 _ parent ?bq] by (fastforce simp: step_def rbind_Inr_iff split: sum.splits if_splits)
    obtain batch bq3 where d: "deriveNextBatch l2 ood parent bq2 = (Inr batch, bq3)"
      using assms(1) n None p st nb
      by (cases "deriveNextBatch l2 ood parent bq2"; cases "fst (deriveNextBatch l2 ood parent bq2)")
        (auto simp: BatchQueue_NextBatch_def Let_def step_def [symmetric])
    have ok: "bsConfig bq3 = ?cfg" "batch_shape ?cfg batch" "case batch of
       Singular b \<Rightarrow> Timestamp b = l2Time parent + BlockTime ?cfg \<and> ParentHash b = l2Hash parent
     | Span s \<Rightarrow> \<exists>incl. checkSpanBatch l2 ?cfg (l1Blocks bq3) parent s incl = Inr BatchAccept"
      using deriveNextBatch_ok [OF d, unfolded conjunct1 [OF inv2]] conjunct2 [OF inv2] by blast+
    show ?thesis
    proof (cases batch)
      case (Singular b1)
      then show ?thesis using assms(1) n None p st nb d ok by (auto simp: BatchQueue_NextBatch_def Let_def step_def [symmetric])
    next
      case (Span s)
      then obtain incl where acc: "checkSpanBatch l2 ?cfg (l1Blocks bq3) parent s incl = Inr BatchAccept" using ok by auto
      obtain sbs where g: "GetSingularBatches s (l1Blocks bq3) parent = Inr sbs"
        using assms(1) n None p st nb d Span
        by (cases "GetSingularBatches s (l1Blocks bq3) parent") (auto simp: BatchQueue_NextBatch_def Let_def step_def [symmetric])
      obtain b1 rest where "sbs = b1 # rest" "Timestamp b1 = l2Time parent + BlockTime ?cfg"
        using span_first_batch [OF acc _ assms(4) g] ok(2) Span by auto
      then show ?thesis
        using assms(1) n None p st nb d Span g by (auto simp: BatchQueue_NextBatch_def Let_def step_def [symmetric] popNextBatch_def)
    qed
  qed
qed

text \<open>C22: Every batch that the queue hands out extends the parent: it carries the parent's hash and the timestamp one block time after it, whether it is a
  singular batch, the next one of a cached span, the first one of a span that was just accepted (also of a span that overlaps
  the safe chain), or an empty batch of an expired sequencing window.\<close>

theorem batch_queue_sound:
  assumes "BatchQueue_NextBatch prevNext prevOrigin l2 parent (bq, prev) = (Inr (b, isLast), bq', prev')"
    and "list_all (\<lambda>b. batch_shape (bsConfig bq) (biBatch b)) (batches bq)"
    and "case fst (prevNext prev) of Inr batch \<Rightarrow> batch_shape (bsConfig bq) batch | Inl _ \<Rightarrow> True"
    and "time_room (bsConfig bq) parent"
  shows "Timestamp b = l2Time parent + BlockTime (bsConfig bq) \<and> ParentHash b = l2Hash parent"
  using assms by (rule queue_sound)

section \<open>A concrete stage\<close>

fun next_batch_listed :: "Batch list \<Rightarrow> (derive_error + Batch) \<times> Batch list" where
  "next_batch_listed [] = (Inl IoEOF, [])"
| "next_batch_listed (b # bs) = (Inr b, bs)"

definition sample_stage :: baseBatchStage where
  "sample_stage = (newBaseBatchStage (sample_config 12 14))\<lparr>bsOrigin := sample_l1 7 58, l1Blocks := [sample_l1 6 50, sample_l1 7 58]\<rparr>"

definition sample_parent_at :: L2BlockRef where "sample_parent_at = sample_parent\<lparr>L1Origin := l1_id (sample_l1 6 50)\<rparr>"

abbreviation sample_stage_next :: "Batch list \<Rightarrow> (derive_error + SingularBatch \<times> bool) \<times> baseBatchStage \<times> Batch list" where
  "sample_stage_next prev \<equiv> BatchStage_NextBatch next_batch_listed (\<lambda>_. sample_l1 8 70) (\<lambda>_. []) sample_l2_env sample_parent_at (sample_stage, prev)"

lemma batch_stage_sound_witness:
  "\<exists>b bs'. sample_stage_next [Span sample_span] = (Inr (b, True), bs', []) \<and> Timestamp b = 62 \<and> ParentHash b = 1 \<and> bsConfig bs' = sample_config 12 14"
proof -
  have "(case sample_stage_next [Span sample_span] of (Inr (b, isLast), bs', prev') \<Rightarrow> isLast \<and> prev' = [] | _ \<Rightarrow> False)" by code_simp
  then obtain b bs' where r: "sample_stage_next [Span sample_span] = (Inr (b, True), bs', [])" by (auto split: prod.splits sum.splits)
  from batch_stage_sound [OF this] r show ?thesis
    by (auto simp: sample_stage_def newBaseBatchStage_def sample_parent_at_def sample_parent_def sample_config_def)
qed

lemma batch_stage_no_panic_witness: "\<forall>m. fst (sample_stage_next [Span sample_span]) \<noteq> Inl (Panic m)"
  by (rule batch_stage_no_panic)
    (simp_all add: feeds_spans_def sample_span_def sample_parent_at_def sample_parent_def sample_stage_def newBaseBatchStage_def sample_config_def)

definition sample_queue :: BatchQueue where
  "sample_queue = (NewBatchQueue (sample_config 12 14))\<lparr>bsOrigin := sample_l1 7 58, l1Blocks := [sample_l1 6 50, sample_l1 7 58]\<rparr>"

lemma batch_queue_sound_witness:
  "\<exists>b bq'. BatchQueue_NextBatch next_batch_listed (\<lambda>_. sample_l1 8 70) sample_l2_env sample_parent_at (sample_queue, [Span sample_span]) =
      (Inr (b, False), bq', []) \<and> Timestamp b = 62 \<and> ParentHash b = 1"
proof -
  let ?r = "BatchQueue_NextBatch next_batch_listed (\<lambda>_. sample_l1 8 70) sample_l2_env sample_parent_at (sample_queue, [Span sample_span])"
  have "(case ?r of (Inr (b, isLast), bq', prev') \<Rightarrow> \<not> isLast \<and> prev' = [] | _ \<Rightarrow> False)" by code_simp
  then obtain b bq' where r: "?r = (Inr (b, False), bq', [])" by (auto split: prod.splits sum.splits)
  have c: "bsConfig sample_queue = sample_config 12 14" "batches sample_queue = []" by (simp_all add: sample_queue_def NewBatchQueue_def)
  have "span_shape (sample_config 12 14) sample_span" by (simp add: span_shape_def sample_span_def sample_config_def)
  then have "Timestamp b = l2Time sample_parent_at + BlockTime (bsConfig sample_queue) \<and> ParentHash b = l2Hash sample_parent_at"
    by (intro batch_queue_sound [OF r]) (simp_all add: c time_room_def sample_parent_at_def sample_parent_def sample_config_def)
  then show ?thesis using r c by (simp add: sample_parent_at_def sample_parent_def sample_config_def)
qed

end
