(* ===== verification/DeriveAttributes.thy ===== *)
theory DeriveAttributes
  imports BatchStage
begin

text \<open>
  The queue of payload attributes (\<^verbatim>\<open>op-node/rollup/derive/attributes_queue.go\<close>) on top of a provider of batches. What the queue needs of the provider is
  the locale \<open>batch_provider\<close>; the switch between the two batch stages is an interpretation of it.
\<close>

section \<open>The queue\<close>

record AttributesWithParent =
  awAttributes :: PayloadAttributes
  awParent :: L2BlockRef
  Concluding :: bool
  DerivedFrom :: L1BlockRef

definition AttributesWithParent_WithDepositsOnly :: "AttributesWithParent \<Rightarrow> AttributesWithParent" where
  "AttributesWithParent_WithDepositsOnly a = a\<lparr>awAttributes := WithDepositsOnly (awAttributes a)\<rparr>"

definition IsDerived :: "AttributesWithParent \<Rightarrow> bool" where
  "IsDerived a \<longleftrightarrow> DerivedFrom a \<noteq> no_block"

record AttributesQueue =
  aqConfig :: Config
  aqBatch :: "SingularBatch option"
  aqConcluding :: bool
  lastAttribs :: "AttributesWithParent option"

definition NewAttributesQueue :: "Config \<Rightarrow> AttributesQueue" where
  "NewAttributesQueue cfg = \<lparr>aqConfig = cfg, aqBatch = None, aqConcluding = False, lastAttribs = None\<rparr>"

type_synonym attributes_builder = "L2BlockRef \<Rightarrow> BlockID \<Rightarrow> derive_error + PayloadAttributes"

definition createNextAttributes :: "attributes_builder \<Rightarrow> SingularBatch \<Rightarrow> L2BlockRef \<Rightarrow> AttributesQueue \<Rightarrow> derive_error + PayloadAttributes" where
  "createNextAttributes builder batch l2SafeHead aq =
    (if ParentHash batch \<noteq> l2Hash l2SafeHead then Inl (ResetError ''valid batch has bad parent hash'')
     else if l2Time l2SafeHead + BlockTime (aqConfig aq) \<noteq> Timestamp batch then Inl (ResetError ''valid batch has bad timestamp'')
     else
       rbind (builder l2SafeHead (Epoch batch)) (\<lambda>attrs.
       Inr (attrs\<lparr>NoTxPool := True, aTransactions := aTransactions attrs @ Transactions batch\<rparr>)))"

definition NextAttributes :: "attributes_builder \<Rightarrow> (L2BlockRef \<Rightarrow> 'p \<Rightarrow> (derive_error + SingularBatch \<times> bool) \<times> 'p) \<Rightarrow> ('p \<Rightarrow> L1BlockRef) \<Rightarrow> L2BlockRef \<Rightarrow>
    AttributesQueue \<times> 'p \<Rightarrow> (derive_error + AttributesWithParent) \<times> AttributesQueue \<times> 'p" where
  "NextAttributes builder prevNext prevOrigin parent st =
    (let (aq, prev) = st in
     case (case aqBatch aq of
             Some batch \<Rightarrow> (Inr (batch, aqConcluding aq), prev)
           | None \<Rightarrow> prevNext parent prev) of
       (Inl e, prev) \<Rightarrow> (Inl e, aq, prev)
     | (Inr (batch, isLast), prev) \<Rightarrow>
        let aq = aq\<lparr>aqBatch := Some batch, aqConcluding := isLast\<rparr> in
        (case createNextAttributes builder batch parent aq of
           Inl e \<Rightarrow> (Inl e, aq, prev)
         | Inr attrs \<Rightarrow>
            let attr = \<lparr>awAttributes = attrs, awParent = parent, Concluding = aqConcluding aq, DerivedFrom = prevOrigin prev\<rparr> in
            (Inr attr, aq\<lparr>lastAttribs := Some attr, aqBatch := None, aqConcluding := False\<rparr>, prev)))"

definition AttributesQueue_Reset :: "AttributesQueue \<Rightarrow> derive_error \<times> AttributesQueue" where
  "AttributesQueue_Reset aq = (IoEOF, aq\<lparr>aqBatch := None, aqConcluding := False, lastAttribs := None\<rparr>)"

definition l2_id :: "L2BlockRef \<Rightarrow> BlockID" where "l2_id b = \<lparr>bHash = l2Hash b, bNumber = l2Number b\<rparr>"

definition DepositsOnlyAttributes :: "('p \<Rightarrow> derive_error + 'p) \<Rightarrow> BlockID \<Rightarrow> L1BlockRef \<Rightarrow> AttributesQueue \<times> 'p \<Rightarrow>
    (derive_error + AttributesWithParent) \<times> AttributesQueue \<times> 'p" where
  "DepositsOnlyAttributes prevFlush parent derivedFrom st =
    (let (aq, prev) = st in
     if aqBatch aq \<noteq> None then (Inl (PlainError ''unexpected buffered batch''), aq, prev)
     else
       (case lastAttribs aq of
          None \<Rightarrow> (Inl (PlainError ''no attributes generated yet''), aq, prev)
        | Some a \<Rightarrow>
           if derivedFrom \<noteq> DerivedFrom a then (Inl (PlainError ''unexpected derivation origin''), aq, prev)
           else if parent \<noteq> l2_id (awParent a) then (Inl (PlainError ''unexpected parent''), aq, prev)
           else
             (case prevFlush prev of
                Inl e \<Rightarrow> (Inl e, aq, prev)
              | Inr prev \<Rightarrow>
                 let attrs = AttributesWithParent_WithDepositsOnly a in
                 (Inr attrs, aq\<lparr>lastAttribs := Some attrs\<rparr>, prev))))"

text \<open>The methods that the switch of the batch stages forwards to its active stage; without one the call dereferences a nil interface.
  The queue before Holocene panics when it is flushed.\<close>

definition BatchMux_NextBatch :: "('p \<Rightarrow> (derive_error + Batch) \<times> 'p) \<Rightarrow> ('p \<Rightarrow> L1BlockRef) \<Rightarrow> ('p \<Rightarrow> 'p) \<Rightarrow> l2_env \<Rightarrow> L2BlockRef \<Rightarrow> BatchMux \<times> 'p \<Rightarrow>
    (derive_error + SingularBatch \<times> bool) \<times> BatchMux \<times> 'p" where
  "BatchMux_NextBatch prevNext prevOrigin prevFlush l2 parent st =
    (let (b, prev) = st in
     case provider b of
       None \<Rightarrow> (Inl (Panic ''nil pointer dereference''), b, prev)
     | Some (QueueStage bq) \<Rightarrow>
        (let (r, bq, prev) = BatchQueue_NextBatch prevNext prevOrigin l2 parent (bq, prev) in (r, b\<lparr>provider := Some (QueueStage bq)\<rparr>, prev))
     | Some (HoloceneStage bs) \<Rightarrow>
        (let (r, bs, prev) = BatchStage_NextBatch prevNext prevOrigin prevFlush l2 parent (bs, prev) in (r, b\<lparr>provider := Some (HoloceneStage bs)\<rparr>, prev)))"

definition BatchMux_FlushChannel :: "('p \<Rightarrow> 'p) \<Rightarrow> BatchMux \<times> 'p \<Rightarrow> derive_error + BatchMux \<times> 'p" where
  "BatchMux_FlushChannel prevFlush st =
    (let (b, prev) = st in
     case provider b of
       None \<Rightarrow> Inl (Panic ''nil pointer dereference'')
     | Some (QueueStage bq) \<Rightarrow> Inl (Panic ''BatchQueue: invalid FlushChannel call'')
     | Some (HoloceneStage bs) \<Rightarrow>
        (let (bs, prev) = BatchStage_FlushChannel prevFlush (bs, prev) in Inr (b\<lparr>provider := Some (HoloceneStage bs)\<rparr>, prev)))"

section \<open>What the queue needs of the batches\<close>

text \<open>A provider hands out batches that extend the parent, as long as its invariant holds, which every call keeps.\<close>

locale batch_provider =
  fixes nextBatch :: "L2BlockRef \<Rightarrow> 'p \<Rightarrow> (derive_error + SingularBatch \<times> bool) \<times> 'p"
    and cfg :: Config
    and inv :: "'p \<Rightarrow> bool"
  assumes keeps: "inv p \<Longrightarrow> nextBatch parent p = (r, p') \<Longrightarrow> inv p'"
    and extends: "inv p \<Longrightarrow> nextBatch parent p = (Inr (b, isLast), p') \<Longrightarrow> time_room cfg parent \<Longrightarrow>
      Timestamp b = l2Time parent + BlockTime cfg \<and> ParentHash b = l2Hash parent"
begin

text \<open>A call that asks for a batch fails with an error of the provider or of the builder, never with one of its own checks.\<close>

lemma attributes_of_batch:
  assumes "inv p" and "aqBatch aq = None" and "aqConfig aq = cfg" and "time_room cfg parent"
  shows "(\<exists>e p'. nextBatch parent p = (Inl e, p') \<and> NextAttributes builder nextBatch origin parent (aq, p) = (Inl e, aq, p')) \<or>
    (\<exists>b isLast p'. nextBatch parent p = (Inr (b, isLast), p') \<and> inv p' \<and>
      (case builder parent (Epoch b) of
         Inl e \<Rightarrow> NextAttributes builder nextBatch origin parent (aq, p) = (Inl e, aq\<lparr>aqBatch := Some b, aqConcluding := isLast\<rparr>, p')
       | Inr attrs \<Rightarrow> \<exists>a. a = \<lparr>awAttributes = attrs\<lparr>NoTxPool := True, aTransactions := aTransactions attrs @ Transactions b\<rparr>, awParent = parent,
             Concluding = isLast, DerivedFrom = origin p'\<rparr> \<and>
           NextAttributes builder nextBatch origin parent (aq, p) = (Inr a, aq\<lparr>lastAttribs := Some a, aqBatch := None, aqConcluding := False\<rparr>, p')))"
proof (cases "nextBatch parent p")
  case (Pair r p')
  show ?thesis
  proof (cases r)
    case (Inl e)
    then show ?thesis using Pair assms(2) by (simp add: NextAttributes_def)
  next
    case (Inr x)
    obtain b isLast where "x = (b, isLast)" by (cases x)
    with Inr Pair have n: "nextBatch parent p = (Inr (b, isLast), p')" by simp
    have "Timestamp b = l2Time parent + BlockTime cfg" "ParentHash b = l2Hash parent" using extends [OF assms(1) n assms(4)] by auto
    then show ?thesis
      using n keeps [OF assms(1) n] assms(2,3)
      by (cases "builder parent (Epoch b)") (auto simp: NextAttributes_def createNextAttributes_def Let_def)
  qed
qed

lemma attributes_ok:
  assumes "NextAttributes builder nextBatch origin parent (aq, p) = (Inr a, aq', p')"
    and "inv p" and "aqBatch aq = None" and "aqConfig aq = cfg" and "time_room cfg parent"
  obtains b attrs where "nextBatch parent p = (Inr (b, Concluding a), p')" and "builder parent (Epoch b) = Inr attrs"
    and "a = \<lparr>awAttributes = attrs\<lparr>NoTxPool := True, aTransactions := aTransactions attrs @ Transactions b\<rparr>, awParent = parent, Concluding = Concluding a,
      DerivedFrom = origin p'\<rparr>"
    and "aq' = aq\<lparr>lastAttribs := Some a, aqBatch := None, aqConcluding := False\<rparr>" and "Timestamp b = l2Time parent + BlockTime cfg" and "inv p'"
proof -
  obtain b isLast q where n: "nextBatch parent p = (Inr (b, isLast), q)"
    using attributes_of_batch [OF assms(2-5), of builder origin] assms(1) by (cases "nextBatch parent p") auto
  obtain attrs where at: "builder parent (Epoch b) = Inr attrs"
    using attributes_of_batch [OF assms(2-5), of builder origin] assms(1) n by (cases "builder parent (Epoch b)") auto
  have "NextAttributes builder nextBatch origin parent (aq, p) = (Inr \<lparr>awAttributes = attrs\<lparr>NoTxPool := True, aTransactions := aTransactions attrs @ Transactions b\<rparr>,
      awParent = parent, Concluding = isLast, DerivedFrom = origin q\<rparr>, aq', p')" "q = p'" "inv q"
    "aq' = aq\<lparr>lastAttribs := Some a, aqBatch := None, aqConcluding := False\<rparr>"
    using attributes_of_batch [OF assms(2-5), of builder origin] assms(1) n at by simp_all
  then show thesis using that n at assms(1) extends [OF assms(2) n assms(5)] by simp
qed

text \<open>A batch is not lost when the builder fails: the next call on the same parent takes it up again and leaves the provider alone.\<close>

lemma failed_builder_retries:
  assumes "inv p" and "aqBatch aq = None" and "aqConfig aq = cfg" and "time_room cfg parent"
    and "nextBatch parent p = (Inr (b, isLast), p')" and "builder parent (Epoch b) = Inl e" and "builder' parent (Epoch b) = Inr attrs"
  shows "\<exists>a. NextAttributes builder' nextBatch origin parent (snd (NextAttributes builder nextBatch origin parent (aq, p))) =
      NextAttributes builder' nextBatch origin parent (aq, p) \<and> fst (NextAttributes builder' nextBatch origin parent (aq, p)) = Inr a"
  using attributes_of_batch [OF assms(1-4), of builder origin] extends [OF assms(1,5,4)] assms(2,3,5-7)
  by (auto simp: NextAttributes_def createNextAttributes_def Let_def)

end

section \<open>The batch stages provide\<close>

definition bqueue_ok :: "Config \<Rightarrow> BatchQueue \<Rightarrow> bool" where
  "bqueue_ok cfg bq \<longleftrightarrow> bsConfig bq = cfg \<and> list_all (\<lambda>b. batch_shape cfg (biBatch b)) (batches bq)"

definition feeds_shapes :: "Config \<Rightarrow> ('p \<Rightarrow> (derive_error + Batch) \<times> 'p) \<Rightarrow> bool" where
  "feeds_shapes cfg prevNext \<longleftrightarrow> (\<forall>p. case fst (prevNext p) of Inr batch \<Rightarrow> batch_shape cfg batch | Inl _ \<Rightarrow> True)"

definition mux_ok :: "('p \<Rightarrow> (derive_error + Batch) \<times> 'p) \<Rightarrow> Config \<Rightarrow> BatchMux \<times> 'p \<Rightarrow> bool" where
  "mux_ok prevNext cfg st \<longleftrightarrow> feeds_shapes cfg prevNext \<and> bmCfg (fst st) = cfg \<and>
    (case provider (fst st) of None \<Rightarrow> True | Some (QueueStage bq) \<Rightarrow> bqueue_ok cfg bq | Some (HoloceneStage bs) \<Rightarrow> bsConfig bs = cfg)"

lemma deriveNextEmptyBatch_keeps:
  "deriveNextEmptyBatch ood parent (bs :: 'a baseBatchStage_scheme) = (r, bs') \<Longrightarrow> bsConfig bs' = bsConfig bs"
  "deriveNextEmptyBatch ood parent (bq :: BatchQueue) = (r', bq') \<Longrightarrow> batches bq' = batches bq"
  by (auto simp: deriveNextEmptyBatch_def Let_def split: if_splits)

lemma batch_loop_kept:
  "batch_loop l2 cfg blocks parent whole bs rem = Inl (e, kept) \<Longrightarrow> set kept \<subseteq> set whole \<union> set rem \<union> set bs"
  "batch_loop l2 cfg blocks parent whole bs rem = Inr (found, kept) \<Longrightarrow> set kept \<subseteq> set rem \<union> set bs"
  by (induction bs arbitrary: rem) (fastforce split: sum.splits BatchValidity.splits)+

lemma deriveNextBatch_keeps:
  assumes "deriveNextBatch l2 ood parent bq = (r, bq')" and "bqueue_ok cfg bq"
  shows "bqueue_ok cfg bq'"
proof (cases "l1Blocks bq = [] \<or> epoch_mismatch parent (l1Blocks bq ! 0)")
  case True
  then show ?thesis using assms by (auto simp: deriveNextBatch_def split: if_splits)
next
  case False
  show ?thesis
  proof (cases "batch_loop l2 (bsConfig bq) (l1Blocks bq) parent (batches bq) (batches bq) []")
    case (Inl x)
    obtain e kept where x: "x = (e, kept)" by (cases x)
    have "set kept \<subseteq> set (batches bq)" using batch_loop_kept(1) [OF Inl [unfolded x]] by simp
    then show ?thesis using assms False Inl x by (auto simp: deriveNextBatch_def bqueue_ok_def list_all_iff)
  next
    case (Inr x)
    obtain found kept where x: "x = (found, kept)" by (cases x)
    have ok: "bqueue_ok cfg (bq\<lparr>batches := kept\<rparr>)" using assms(2) batch_loop_kept(2) [OF Inr [unfolded x]] by (fastforce simp: bqueue_ok_def list_all_iff)
    obtain r1 bq1 where e: "deriveNextEmptyBatch ood parent (bq\<lparr>batches := kept\<rparr>) = (r1, bq1)"
      by (cases "deriveNextEmptyBatch ood parent (bq\<lparr>batches := kept\<rparr>)")
    have "bqueue_ok cfg bq1" using ok deriveNextEmptyBatch_keeps [OF e] by (simp add: bqueue_ok_def)
    then show ?thesis
      using assms(1) False Inr x ok e by (cases found; cases r1) (auto simp: deriveNextBatch_def)
  qed
qed


lemma queue_keeps:
  assumes "BatchQueue_NextBatch prevNext prevOrigin l2 parent (bq, prev) = (r, bq', prev')" and "bqueue_ok cfg bq" and "feeds_shapes cfg prevNext"
  shows "bqueue_ok cfg bq'"
proof -
  obtain r1 bq1 where n: "nextFromSpanBatch parent bq = (r1, bq1)" by (cases "nextFromSpanBatch parent bq")
  have ok1: "bqueue_ok cfg bq1" using assms(2) nextFromSpanBatch_config [OF n] queue_frames(2) [OF n] by (simp add: bqueue_ok_def)
  let ?bq = "updateOrigins (prevOrigin prev) parent bq1"
  have ok2: "bqueue_ok cfg ?bq" using ok1 by (simp add: bqueue_ok_def queue_frames(1))
  obtain r p1 where p: "prevNext prev = (r, p1)" by (cases "prevNext prev")
  have shape: "batch_shape cfg batch" if "r = Inr batch" for batch using assms(3) p that by (auto simp: feeds_shapes_def dest: spec [of _ prev])
  have add: "bqueue_ok cfg bq2" if "AddBatch l2 batch parent ?bq = Inr bq2" "r = Inr batch" for batch bq2
    using AddBatch_ok [OF that(1)] ok2 shape [OF that(2)] by (auto simp: bqueue_ok_def)
  note derive = deriveNextBatch_keeps [of l2 _ parent]
  have "bqueue_ok cfg (bq2\<lparr>nextSpan := sp\<rparr>)" if "bqueue_ok cfg bq2" for bq2 sp using that by (simp add: bqueue_ok_def)
  then show ?thesis
    using assms(1) n p ok1 ok2 add derive
    by (auto simp: BatchQueue_NextBatch_def Let_def popNextBatch_def rbind_Inr_iff
        split: option.splits prod.splits sum.splits Batch.splits list.splits if_splits)
qed


lemma stage_keeps:
  assumes "BatchStage_NextBatch prevNext prevOrigin prevFlush l2 parent (bs, prev) = (r, bs', prev')"
  shows "bsConfig bs' = bsConfig bs"
proof -
  let ?bs = "updateOrigins (prevOrigin prev) parent bs"
  obtain r1 bs1 p1 where c: "nextSingularBatchCandidate prevNext prevFlush l2 parent (?bs, prev) = (r1, bs1, p1)"
    by (cases "nextSingularBatchCandidate prevNext prevFlush l2 parent (?bs, prev)")
  have cfg: "bsConfig bs1 = bsConfig bs" using candidate_config [OF c] by simp
  obtain r2 bs2 where e: "deriveNextEmptyBatch True parent bs1 = (r2, bs2)" by (cases "deriveNextEmptyBatch True parent bs1")
  have "bsConfig bs2 = bsConfig bs" using deriveNextEmptyBatch_keeps(1) [OF e] cfg by simp
  then show ?thesis
    using assms c cfg e
    by (auto simp: BatchStage_NextBatch_def Let_def BatchStage_FlushChannel_def split: if_splits prod.splits sum.splits BatchValidity.splits)
qed

interpretation mux: batch_provider "BatchMux_NextBatch prevNext prevOrigin prevFlush l2" cfg "mux_ok prevNext cfg"
proof
  fix p :: "BatchMux \<times> 'a" and parent r p'
  assume "mux_ok prevNext cfg p" "BatchMux_NextBatch prevNext prevOrigin prevFlush l2 parent p = (r, p')"
  then show "mux_ok prevNext cfg p'"
    by (auto simp: mux_ok_def BatchMux_NextBatch_def split: option.splits SingularBatchProvider.splits prod.splits dest: queue_keeps stage_keeps)
next
  fix p :: "BatchMux \<times> 'a" and parent b isLast p'
  assume ok: "mux_ok prevNext cfg p" and n: "BatchMux_NextBatch prevNext prevOrigin prevFlush l2 parent p = (Inr (b, isLast), p')"
    and t: "time_room cfg parent"
  obtain m prev where p: "p = (m, prev)" by (cases p)
  have feed: "case fst (prevNext prev) of Inr batch \<Rightarrow> batch_shape cfg batch | Inl _ \<Rightarrow> True" using ok by (auto simp: mux_ok_def feeds_shapes_def)
  consider bq bq' q where "provider m = Some (QueueStage bq)" "BatchQueue_NextBatch prevNext prevOrigin l2 parent (bq, prev) = (Inr (b, isLast), bq', q)"
    | bs bs' q where "provider m = Some (HoloceneStage bs)" "BatchStage_NextBatch prevNext prevOrigin prevFlush l2 parent (bs, prev) = (Inr (b, isLast), bs', q)"
    using n unfolding p by (auto simp: BatchMux_NextBatch_def split: option.splits SingularBatchProvider.splits prod.splits)
  then show "Timestamp b = l2Time parent + BlockTime cfg \<and> ParentHash b = l2Hash parent"
  proof cases
    case 1
    then have q: "bqueue_ok cfg bq" using ok p by (simp add: mux_ok_def)
    then have "bsConfig bq = cfg" by (simp add: bqueue_ok_def)
    from queue_sound [OF 1(2), unfolded this] q feed t show ?thesis by (simp add: bqueue_ok_def)
  next
    case 2
    then have "bsConfig bs = cfg" using ok p by (simp add: mux_ok_def)
    from stage_sound [OF 2(2), unfolded this] show ?thesis by simp
  qed
qed

lemma mux_reset_ok:
  assumes "mux_ok prevNext cfg (b, p)"
  shows "mux_ok prevNext cfg (snd (BatchMux_Reset base b), p')"
  using assms
  by (auto simp: mux_ok_def bqueue_ok_def BatchMux_Reset_def BatchQueue_Reset_def BatchStage_Reset_def base_reset_def newBaseBatchStage_def NewBatchQueue_def
      split: option.splits SingularBatchProvider.splits)

lemma mux_transform_ok:
  assumes "mux_ok prevNext cfg (b, p)" and "BatchMux_Transform f b = Inr b'"
  shows "mux_ok prevNext cfg (b', p)"
  using assms
  by (auto simp: mux_ok_def BatchMux_Transform_def BatchMux_TransformHolocene_def newBaseBatchStage_def split: if_splits option.splits SingularBatchProvider.splits)

section \<open>Derived attributes\<close>

text \<open>What the codec and the upgrade transactions promise: they are deposits.\<close>

definition is_deposit :: "bytes \<Rightarrow> bool" where "is_deposit tx \<longleftrightarrow> tx \<noteq> [] \<and> tx ! 0 = DepositTxType"

definition builds_deposits :: "attributes_env \<Rightarrow> bool" where
  "builds_deposits env \<longleftrightarrow> (\<forall>dep b. marshalTxOf env dep = Inr b \<longrightarrow> is_deposit b) \<and>
    list_all (\<lambda>u. case u of Inl _ \<Rightarrow> True | Inr txs \<Rightarrow> list_all is_deposit txs) [ecotoneUpgradeTxs env, fjordUpgradeTxs env, isthmusUpgradeTxs env]"

lemma encode_deposits_typed:
  assumes "\<And>dep b. marshalTx dep = Inr b \<Longrightarrow> is_deposit b"
  shows "list_all is_deposit out \<Longrightarrow> list_all is_deposit (fst (encode_deposits marshalTx deps (out, errs)))"
  using assms by (induction deps arbitrary: out errs) (simp_all split: sum.split)

lemma upgrade_txs_ok:
  "upgrade_txs act u = Inr txs \<Longrightarrow> (case u of Inl _ \<Rightarrow> True | Inr txs \<Rightarrow> list_all is_deposit txs) \<Longrightarrow> list_all is_deposit txs"
  by (auto simp: upgrade_txs_def split: if_splits sum.splits)

lemma epoch_inputs_deposits:
  assumes "epoch_inputs env cfg parent epoch sc = Inr (info, deps, seq, sc')" and "builds_deposits env"
  shows "list_all is_deposit deps"
proof -
  have "list_all is_deposit (fst (DeriveDeposits (keccakOf env) (marshalTxOf env) addr rs))" for addr rs
    using assms(2) by (auto simp: DeriveDeposits_def builds_deposits_def split: prod.splits intro!: encode_deposits_typed)
  then show ?thesis using assms(1) by (auto simp: epoch_inputs_def Let_def split: if_splits sum.splits prod.splits) (metis fst_conv)
qed

lemma prepared_deposits:
  assumes "PreparePayloadAttributes env cfg skip parent epoch = Inr a" and "builds_deposits env"
  shows "list_all is_deposit (aTransactions a)"
proof -
  have up: "case ecotoneUpgradeTxs env of Inl _ \<Rightarrow> True | Inr txs \<Rightarrow> list_all is_deposit txs" "case fjordUpgradeTxs env of Inl _ \<Rightarrow> True | Inr txs \<Rightarrow> list_all is_deposit txs"
    "case isthmusUpgradeTxs env of Inl _ \<Rightarrow> True | Inr txs \<Rightarrow> list_all is_deposit txs"
    using assms(2) by (auto simp: builds_deposits_def)
  from assms(1) obtain sc info deps seq sc' dep tx u1 u2 u3 where P:
    "epoch_inputs env cfg parent epoch sc = Inr (info, deps, seq, sc')" "marshalTxOf env dep = Inr tx" "aTransactions a = tx # deps @ u1 @ u2 @ u3"
    "upgrade_txs (IsEcotoneActivationBlock cfg (l2Time parent + BlockTime cfg)) (ecotoneUpgradeTxs env) = Inr u1"
    "upgrade_txs (IsFjordActivationBlock cfg (l2Time parent + BlockTime cfg)) (fjordUpgradeTxs env) = Inr u2"
    "upgrade_txs (IsIsthmusActivationBlock cfg (l2Time parent + BlockTime cfg)) (isthmusUpgradeTxs env) = Inr u3"
    by (rule PreparePayloadAttributes_ok) auto
  moreover have "is_deposit tx" using P(2) assms(2) by (auto simp: builds_deposits_def)
  ultimately show ?thesis
    using epoch_inputs_deposits [OF P(1) assms(2)] upgrade_txs_ok [OF P(4) up(1)] upgrade_txs_ok [OF P(5) up(2)] upgrade_txs_ok [OF P(6) up(3)] by simp
qed

lemma with_deposits_only_again: "AttributesWithParent_WithDepositsOnly (AttributesWithParent_WithDepositsOnly a) = AttributesWithParent_WithDepositsOnly a"
  by (simp add: AttributesWithParent_WithDepositsOnly_def WithDepositsOnly_def)

lemma valid_txs_no_deposit: "valid_txs s txs \<Longrightarrow> tx \<in> set txs \<Longrightarrow> \<not> is_deposit tx"
  by (induction s txs rule: valid_txs.induct) (auto simp: is_deposit_def split: if_splits)

text \<open>C17: Attributes that the pipeline derives on top of a parent lead to the next block of the chain. They belong to a batch that the active batch stage handed out
  for the parent, in the phase before or after Holocene: the prepared transactions of the batch's epoch are followed by exactly the transactions of the batch, and none of
  the pool; and read back from a block built on them, the L1 origin is the epoch of the batch, the timestamp is one block time after the parent and the sequence
  number counts the blocks of the epoch. The queue is left without a batch, ready for the next parent.\<close>

theorem derived_block_extends:
  assumes "NextAttributes (PreparePayloadAttributes env cfg False) (BatchMux_NextBatch prevNext prevOrigin prevFlush l2) origin parent (aq, m) = (Inr a, aq', m')"
    and "mux_ok prevNext cfg m" and "aqBatch aq = None" and "aqConfig aq = cfg" and "time_room cfg parent"
    and "Check cfg = None" and "BatchMux_NextBatch prevNext prevOrigin prevFlush l2 parent m = (Inr (b, isLast), m1)" and "serves_epoch env cfg (Epoch b)" and "codec_ok (marshalTxOf env) unmarshalTx"
    and "pTimestamp p = aTimestamp (awAttributes a)" and "pTransactions p = aTransactions (awAttributes a)"
    and "pBlockNumber p \<noteq> bNumber (gL2 (cGenesis cfg))"
  shows "\<exists>attrs ref. m' = m1 \<and> Concluding a = isLast \<and> PreparePayloadAttributes env cfg False parent (Epoch b) = Inr attrs \<and>
    pTransactions p = aTransactions attrs @ Transactions b \<and> NoTxPool (awAttributes a) \<and> awParent a = parent \<and>
    PayloadToBlockRef unmarshalTx (keccakOf env) cfg p = Inr ref \<and> L1Origin ref = Epoch b \<and> l2Time ref = l2Time parent + BlockTime cfg \<and>
    SequenceNumber ref = (if bNumber (L1Origin parent) = EpochNum b then SequenceNumber parent + 1 else 0) \<and>
    aqBatch aq' = None \<and> mux_ok prevNext cfg m'"
proof -
  obtain b' attrs where b': "BatchMux_NextBatch prevNext prevOrigin prevFlush l2 parent m = (Inr (b', Concluding a), m')"
    "PreparePayloadAttributes env cfg False parent (Epoch b') = Inr attrs"
    "a = \<lparr>awAttributes = attrs\<lparr>NoTxPool := True, aTransactions := aTransactions attrs @ Transactions b'\<rparr>, awParent = parent, Concluding = Concluding a,
      DerivedFrom = origin m'\<rparr>" "aq' = aq\<lparr>lastAttribs := Some a, aqBatch := None, aqConcluding := False\<rparr>" "mux_ok prevNext cfg m'"
    by (rule mux.attributes_ok [OF assms(1-5)]) blast
  have same: "b' = b" "isLast = Concluding a" "m1 = m'" using b'(1) assms(7) by simp_all
  note b = b' [unfolded same(1)]
  have at: "awAttributes a = attrs\<lparr>NoTxPool := True, aTransactions := aTransactions attrs @ Transactions b\<rparr>" "awParent a = parent" by (subst b(3), simp)+
  have p: "pTimestamp p = aTimestamp attrs" "pTransactions p = aTransactions attrs @ Transactions b" using assms(10,11) at by simp_all
  from next_block_origin [OF b(2) assms(6,8,9) p assms(12)]
  show ?thesis using b(1,2,4,5) p(2) at same(2,3) by (auto simp: Epoch_def)
qed

text \<open>C18: When the engine rejects the block of a batch since Holocene, the replacement is the same block without the transactions of the batch: the attributes
  returned then carry exactly the prepared transactions of the epoch, which are all deposits, on the same parent and with the same timestamp; the stages before the
  batch stage are flushed, and the batch stage forgets the rest of the span that the batch came from, so none of its blocks is handed out later. Asking again gives the same attributes.\<close>

theorem deposits_only_replacement:
  assumes "NextAttributes (PreparePayloadAttributes env cfg False) (BatchMux_NextBatch prevNext prevOrigin prevFlush l2) origin parent (aq, m) = (Inr a, aq', m')"
    and "mux_ok prevNext cfg m" and "aqBatch aq = None" and "aqConfig aq = cfg" and "time_room cfg parent"
    and "builds_deposits env" and "provider (fst m) = Some (HoloceneStage bs)"
  shows "\<exists>attrs b a' aq'' m''. BatchMux_NextBatch prevNext prevOrigin prevFlush l2 parent m = (Inr (b, Concluding a), m') \<and>
    PreparePayloadAttributes env cfg False parent (Epoch b) = Inr attrs \<and>
    DepositsOnlyAttributes (BatchMux_FlushChannel prevFlush) (l2_id parent) (DerivedFrom a) (aq', m') = (Inr a', aq'', m'') \<and>
    awAttributes a' = attrs\<lparr>NoTxPool := True\<rparr> \<and> IsDepositsOnly (awAttributes a') \<and> awParent a' = parent \<and> DerivedFrom a' = DerivedFrom a \<and>
    snd m'' = prevFlush (snd m') \<and>
    (\<exists>bs''. provider (fst m'') = Some (HoloceneStage bs'') \<and> nextSpan bs'' = [] \<and> (\<forall>next. nextFromSpanBatch next bs'' = (None, bs''))) \<and>
    fst (DepositsOnlyAttributes (BatchMux_FlushChannel prevFlush) (l2_id parent) (DerivedFrom a) (aq'', m'')) = Inr a'"
proof -
  obtain b attrs where b: "BatchMux_NextBatch prevNext prevOrigin prevFlush l2 parent m = (Inr (b, Concluding a), m')"
    "PreparePayloadAttributes env cfg False parent (Epoch b) = Inr attrs"
    "a = \<lparr>awAttributes = attrs\<lparr>NoTxPool := True, aTransactions := aTransactions attrs @ Transactions b\<rparr>, awParent = parent, Concluding = Concluding a,
      DerivedFrom = origin m'\<rparr>" "aq' = aq\<lparr>lastAttribs := Some a, aqBatch := None, aqConcluding := False\<rparr>"
    by (rule mux.attributes_ok [OF assms(1-5)]) blast
  have at: "awAttributes a = attrs\<lparr>NoTxPool := True, aTransactions := aTransactions attrs @ Transactions b\<rparr>" "awParent a = parent" by (subst b(3), simp)+
  obtain bs' q where s: "BatchStage_NextBatch prevNext prevOrigin prevFlush l2 parent (bs, snd m) = (Inr (b, Concluding a), bs', q)"
    "m' = ((fst m)\<lparr>provider := Some (HoloceneStage bs')\<rparr>, q)"
    using b(1) assms(7) by (cases m) (auto simp: BatchMux_NextBatch_def split: prod.splits)
  have "\<not> is_deposit tx" if "tx \<in> set (Transactions b)" for tx
    using stage_sound [OF s(1)] singular_accepted(4) [of "bsConfig bs" "l1Blocks bs'" parent b "bsOrigin bs'"] valid_txs_no_deposit [OF _ that] that
    by (auto simp: forced_empty_def)
  moreover have dep: "list_all is_deposit (aTransactions attrs)" using prepared_deposits [OF b(2) assms(6)] .
  ultimately have f: "filter (\<lambda>tx. tx \<noteq> [] \<and> tx ! 0 = DepositTxType) (aTransactions attrs @ Transactions b) = aTransactions attrs"
    by (auto simp: list_all_iff is_deposit_def filter_empty_conv)
  let ?a = "AttributesWithParent_WithDepositsOnly a"
  have w: "awAttributes ?a = attrs\<lparr>NoTxPool := True\<rparr>" "awParent ?a = parent" "DerivedFrom ?a = DerivedFrom a"
    using at f by (simp_all add: AttributesWithParent_WithDepositsOnly_def WithDepositsOnly_def)
  show ?thesis
    using b(1,2,4) s(2) at(2) w dep with_deposits_only_again [of a]
    by (auto simp: DepositsOnlyAttributes_def BatchMux_FlushChannel_def BatchStage_FlushChannel_def Let_def IsDepositsOnly_def is_deposit_def list_all_iff
        nextFromSpanBatch_def)
qed

text \<open>C19: A batch survives a failure of the builder (for example of the L1 client): the call fails with the builder's error, and calling again on the same parent, when the
  builder works, gives the attributes that the first call would have given, without asking the batch stages again.\<close>

theorem builder_failure_retries:
  assumes "mux_ok prevNext cfg m" and "aqBatch aq = None" and "aqConfig aq = cfg" and "time_room cfg parent"
    and "stages parent m = (Inr (b, isLast), m')" and "stages = BatchMux_NextBatch prevNext prevOrigin prevFlush l2"
    and "builder parent (Epoch b) = Inl e" and "builder' parent (Epoch b) = Inr attrs"
  shows "\<exists>a. fst (NextAttributes builder stages origin parent (aq, m)) = Inl e \<and>
    fst (NextAttributes builder' stages origin parent (aq, m)) = Inr a \<and>
    NextAttributes builder' stages origin parent (snd (NextAttributes builder stages origin parent (aq, m))) = NextAttributes builder' stages origin parent (aq, m)"
  using mux.failed_builder_retries [OF assms(1-4) assms(5) [unfolded assms(6)], of builder e builder' attrs origin] assms(7,8)
    mux.attributes_of_batch [OF assms(1-4), of prevOrigin prevFlush l2 builder origin] assms(5-7)
  by auto


section \<open>A concrete derivation\<close>

definition sample_mux :: BatchMux where "sample_mux = \<lparr>bmCfg = sample_config 12 14, provider = Some (HoloceneStage sample_stage)\<rparr>"

text \<open>The sample client serves the L1 block 7; its parent's hash is that of the sample block 6.\<close>

definition sample_builder_env :: attributes_env where
  "sample_builder_env = sample_env\<lparr>infoByHash := \<lambda>h. if h = 106 then Inr (sample_header\<lparr>hHash := 106, hNumber := 6\<rparr>) else Inl NotFound,
    fetchReceipts := \<lambda>_. Inl NotFound\<rparr>"

definition next_sample_span :: "unit \<Rightarrow> (derive_error + Batch) \<times> unit" where "next_sample_span p = (Inr (Span sample_span), p)"

abbreviation sample_stages :: "L2BlockRef \<Rightarrow> BatchMux \<times> unit \<Rightarrow> (derive_error + SingularBatch \<times> bool) \<times> BatchMux \<times> unit" where
  "sample_stages \<equiv> BatchMux_NextBatch next_sample_span (\<lambda>_. sample_l1 8 70) (\<lambda>p. p) sample_l2_env"

abbreviation sample_next :: "(derive_error + AttributesWithParent) \<times> AttributesQueue \<times> BatchMux \<times> unit" where
  "sample_next \<equiv> NextAttributes (PreparePayloadAttributes sample_builder_env (sample_config 12 14) False) sample_stages (\<lambda>_. sample_l1 8 70) sample_parent_at
    (NewAttributesQueue (sample_config 12 14), sample_mux, ())"

lemma sample_next_ok:
  obtains a aq' m' where "sample_next = (Inr a, aq', m')" and "aTimestamp (awAttributes a) = 62" and "DerivedFrom a = sample_l1 8 70"
proof -
  have "(case sample_next of (Inr a, _) \<Rightarrow> aTimestamp (awAttributes a) = 62 \<and> DerivedFrom a = sample_l1 8 70 | _ \<Rightarrow> False)" by code_simp
  then show thesis using that by (auto split: prod.splits sum.splits)
qed

lemma sample_mux_ok:
  "mux_ok next_sample_span (sample_config 12 14) (sample_mux, ())" "aqBatch (NewAttributesQueue (sample_config 12 14)) = None"
  "aqConfig (NewAttributesQueue (sample_config 12 14)) = sample_config 12 14"
  "time_room (sample_config 12 14) sample_parent_at"
  by (simp_all add: mux_ok_def feeds_shapes_def next_sample_span_def span_shape_def sample_span_def sample_mux_def sample_stage_def newBaseBatchStage_def
      NewAttributesQueue_def sample_parent_at_def sample_parent_def) (simp_all add: time_room_def sample_parent_at_def sample_parent_def sample_config_def)

lemma sample_batch:
  obtains b m' where "sample_stages sample_parent_at (sample_mux, ()) = (Inr (b, True), m')" and "Epoch b = \<lparr>bHash = 106, bNumber = 6\<rparr>"
proof -
  have "(case sample_stages sample_parent_at (sample_mux, ()) of (Inr (b, l), _) \<Rightarrow> l \<and> bHash (Epoch b) = 106 \<and> bNumber (Epoch b) = 6 | _ \<Rightarrow> False)" by code_simp
  then show thesis using that by (auto split: prod.splits sum.splits)
qed

lemma sample_serves: "serves_epoch sample_builder_env (sample_config 12 14) \<lparr>bHash = 106, bNumber = 6\<rparr>"
  by (simp add: serves_epoch_def sample_builder_env_def serves_header_def fee_ok_def blob_base_fee_def sample_header_def sample_config_def)

lemma derived_block_extends_witness:
  "\<exists>a aq' m' txs ref. sample_next = (Inr a, aq', m') \<and> aTransactions (awAttributes a) = txs @ [[2, 5], [0]] \<and>
    PayloadToBlockRef sample_unmarshal (\<lambda>_. 7) (sample_config 12 14) (sample_payload (aTransactions (awAttributes a))) = Inr ref \<and>
    L1Origin ref = \<lparr>bHash = 106, bNumber = 6\<rparr> \<and> l2Time ref = 62 \<and> SequenceNumber ref = 5"
proof -
  obtain a aq' m' where a: "sample_next = (Inr a, aq', m')" "aTimestamp (awAttributes a) = 62" by (rule sample_next_ok)
  obtain b m1 where b: "sample_stages sample_parent_at (sample_mux, ()) = (Inr (b, True), m1)" "Epoch b = \<lparr>bHash = 106, bNumber = 6\<rparr>" by (rule sample_batch)
  have t: "Transactions b = [[2, 5], [0]]"
  proof -
    have "(case sample_stages sample_parent_at (sample_mux, ()) of (Inr (b, l), _) \<Rightarrow> Transactions b = [[2, 5], [0]] | _ \<Rightarrow> False)" by code_simp
    then show ?thesis using b(1) by simp
  qed
  have c: "codec_ok (marshalTxOf sample_builder_env) sample_unmarshal"
    by (auto simp: codec_ok_def sample_builder_env_def sample_env_def sample_marshal_def sample_unmarshal_def)
  have p: "pTimestamp (sample_payload (aTransactions (awAttributes a))) = aTimestamp (awAttributes a)"
    "pTransactions (sample_payload (aTransactions (awAttributes a))) = aTransactions (awAttributes a)"
    "pBlockNumber (sample_payload (aTransactions (awAttributes a))) \<noteq> bNumber (gL2 (cGenesis (sample_config 12 14)))"
    using a(2) by (simp_all add: sample_payload_def sample_config_def)
  have k: "keccakOf sample_builder_env = (\<lambda>_. 7)" "l2Time sample_parent_at + BlockTime (sample_config 12 14) = 62"
    "bNumber (L1Origin sample_parent_at) = 6" "SequenceNumber sample_parent_at = 4"
    by (simp_all add: sample_builder_env_def sample_env_def sample_parent_at_def sample_parent_def sample_config_def l1_id_def sample_l1_def)
  have n: "EpochNum b = 6" using b(2) by (simp add: Epoch_def)
  from derived_block_extends [OF a(1) sample_mux_ok sample_checked b(1) sample_serves [folded b(2)] c p]
  obtain attrs :: PayloadAttributes and ref where r: "pTransactions (sample_payload (aTransactions (awAttributes a))) = aTransactions attrs @ Transactions b"
    "PayloadToBlockRef sample_unmarshal (keccakOf sample_builder_env) (sample_config 12 14) (sample_payload (aTransactions (awAttributes a))) = Inr ref"
    "L1Origin ref = Epoch b" "l2Time ref = l2Time sample_parent_at + BlockTime (sample_config 12 14)"
    "SequenceNumber ref = (if bNumber (L1Origin sample_parent_at) = EpochNum b then SequenceNumber sample_parent_at + 1 else 0)"
    by blast
  show ?thesis
    using a(1) r b(2) t p(2) k n
    by (intro exI [of _ a] exI [of _ aq'] exI [of _ m'] exI [of _ "aTransactions attrs"] exI [of _ ref]) simp
qed

lemma deposits_only_replacement_witness:
  "\<exists>a aq' m' a' aq'' m''. sample_next = (Inr a, aq', m') \<and>
    DepositsOnlyAttributes (BatchMux_FlushChannel (\<lambda>p. p)) (l2_id sample_parent_at) (sample_l1 8 70) (aq', m') = (Inr a', aq'', m'') \<and>
    IsDepositsOnly (awAttributes a') \<and> (\<exists>bs''. provider (fst m'') = Some (HoloceneStage bs'') \<and> nextSpan bs'' = [])"
proof -
  obtain a aq' m' where a: "sample_next = (Inr a, aq', m')" "DerivedFrom a = sample_l1 8 70" by (rule sample_next_ok)
  have "builds_deposits sample_builder_env"
    by (auto simp: builds_deposits_def sample_builder_env_def sample_env_def sample_marshal_def is_deposit_def)
  moreover have "provider (fst (sample_mux, ())) = Some (HoloceneStage sample_stage)" by (simp add: sample_mux_def)
  ultimately show ?thesis using deposits_only_replacement [OF a(1) sample_mux_ok] a by auto
qed

lemma builder_failure_retries_witness:
  "\<exists>a. fst (NextAttributes (\<lambda>_ _. Inl (TemporaryError ''l1'')) sample_stages (\<lambda>_. sample_l1 8 70) sample_parent_at
      (NewAttributesQueue (sample_config 12 14), sample_mux, ())) = Inl (TemporaryError ''l1'') \<and> fst sample_next = Inr a"
proof -
  obtain b m1 where b: "sample_stages sample_parent_at (sample_mux, ()) = (Inr (b, True), m1)" "Epoch b = \<lparr>bHash = 106, bNumber = 6\<rparr>" by (rule sample_batch)
  have "is_ok (PreparePayloadAttributes sample_builder_env (sample_config 12 14) False sample_parent_at \<lparr>bHash = 106, bNumber = 6\<rparr>)" by code_simp
  then obtain attrs where "PreparePayloadAttributes sample_builder_env (sample_config 12 14) False sample_parent_at (Epoch b) = Inr attrs"
    by (auto simp: b(2) is_ok_iff)
  with builder_failure_retries [where stages = sample_stages and builder = "\<lambda>_ _. Inl (TemporaryError ''l1'')" and origin = "\<lambda>_. sample_l1 8 70"
      and builder' = "PreparePayloadAttributes sample_builder_env (sample_config 12 14) False", OF sample_mux_ok b(1) refl refl]
  show ?thesis by blast
qed

end
