(* ===== verification/SpanWire.thy ===== *)
theory SpanWire
  imports DeriveAttributes
begin

text \<open>
  The wire format of span batches (\<^verbatim>\<open>op-node/rollup/derive/span_batch{,_util,_tx,_txs}.go\<close>): the encoder, which appends singular batches to a span, the decoder and
  the derivation of the span from its raw form. RLP and the transactions of go-ethereum are given by a record of their functions, \<open>tx_env\<close>.
\<close>

section \<open>Variable-length integers and bit lists\<close>

text \<open>\<^verbatim>\<open>binary.PutUvarint\<close> and \<^verbatim>\<open>binary.ReadUvarint\<close>.\<close>

function PutUvarint :: "uint64 \<Rightarrow> bytes" where
  "PutUvarint x = (if 0x80 \<le> x then (ucast x OR 0x80) # PutUvarint (drop_bit 7 x) else [ucast x])"
  by auto
termination
proof (relation "measure unat")
  fix x :: uint64 assume "0x80 \<le> x"
  then show "(drop_bit 7 x, x) \<in> measure unat"
    by (simp add: word_le_nat_alt unat_div drop_bit_eq_div)
qed simp

declare PutUvarint.simps [simp del]

text \<open>The first argument is the number of bytes that may still be read, at most ten.\<close>

fun read_uvarint :: "nat \<Rightarrow> uint64 \<Rightarrow> nat \<Rightarrow> bytes \<Rightarrow> derive_error + uint64 \<times> bytes" where
  "read_uvarint 0 x s r = Inl (PlainError ''binary: varint overflows a 64-bit integer'')"
| "read_uvarint (Suc k) x s [] = Inl (if k < 9 then ErrUnexpectedEOF else IoEOF)"
| "read_uvarint (Suc k) x s (b # r) =
    (if b < 0x80 then
       (if k = 0 \<and> 1 < b then Inl (PlainError ''binary: varint overflows a 64-bit integer'') else Inr (x OR push_bit s (ucast b), r))
     else read_uvarint k (x OR push_bit s (ucast (b AND 0x7F))) (s + 7) r)"

definition ReadUvarint :: "bytes \<Rightarrow> derive_error + uint64 \<times> bytes" where
  "ReadUvarint r = read_uvarint 10 0 0 r"

text \<open>Big integers that hold bit lists: \<^verbatim>\<open>SetBit\<close>, \<^verbatim>\<open>SetBytes\<close> and \<^verbatim>\<open>FillBytes\<close> of \<^verbatim>\<open>math/big\<close>.\<close>

definition SetBit :: "nat \<Rightarrow> nat \<Rightarrow> uint64 \<Rightarrow> derive_error + nat" where
  "SetBit n i b =
    (if b = 0 then Inr (unset_bit i n) else if b = 1 then Inr (set_bit i n) else Inl (Panic ''set bit not 0 or 1''))"

definition SetBytes :: "bytes \<Rightarrow> nat" where
  "SetBytes bs = foldl (\<lambda>acc b. acc * 256 + unat b) 0 bs"

fun FillBytes :: "nat \<Rightarrow> nat \<Rightarrow> bytes" where
  "FillBytes 0 n = []"
| "FillBytes (Suc k) n = FillBytes k (n div 256) @ [of_nat n]"

definition buf_len :: "uint64 \<Rightarrow> nat" where
  "buf_len bitLength = unat (bitLength div 8) + (if bitLength mod 8 \<noteq> 0 then 1 else 0)"

definition decodeSpanBatchBits :: "uint64 \<Rightarrow> bytes \<Rightarrow> derive_error + nat \<times> bytes" where
  "decodeSpanBatchBits bitLength r =
    (case read_full (buf_len bitLength) r of
       Inl _ \<Rightarrow> Inl (PlainError ''failed to read bits'')
     | Inr (buf, r) \<Rightarrow>
        let out = SetBytes buf in
        if unat bitLength < bit_len out then Inl (PlainError ''bitfield has too many bits'') else Inr (out, r))"

text \<open>\<^verbatim>\<open>FillBytes\<close> panics when the number does not fit; the test before it excludes that.\<close>

definition encodeSpanBatchBits :: "uint64 \<Rightarrow> nat \<Rightarrow> derive_error + bytes" where
  "encodeSpanBatchBits bitLength bits =
    (if unat bitLength < bit_len bits then Inl (PlainError ''bitfield is larger than bitLength'')
     else if 8 * buf_len bitLength < bit_len bits then Inl (Panic ''math/big: buffer too small to fit value'')
     else Inr (FillBytes (buf_len bitLength) bits))"

section \<open>Transactions\<close>

datatype ('al, 'au) spanBatchTxData =
    spanBatchLegacyTxData int int bytes
  | spanBatchAccessListTxData int int bytes 'al
  | spanBatchDynamicFeeTxData int int int bytes 'al
  | spanBatchSetCodeTxData "256 word" "256 word" "256 word" bytes 'al 'au

text \<open>The transactions of go-ethereum that the code builds and reads; access lists and authorizations are opaque. The types that span batches
  do not support have their type only.\<close>

datatype ('al, 'au) TxData =
    LegacyTx (tNonce: uint64) (tGasPrice: int) (tGas: uint64) (tTo: "Address option") (tValue: int) (tData: bytes) (tV: int) (tR: int) (tS: int)
  | AccessListTx (tChainID: int) (tNonce: uint64) (tGasPrice: int) (tGas: uint64) (tTo: "Address option") (tValue: int) (tData: bytes) (tAccessList: 'al)
      (tV: int) (tR: int) (tS: int)
  | DynamicFeeTx (tChainID: int) (tNonce: uint64) (tTip: int) (tFee: int) (tGas: uint64) (tTo: "Address option") (tValue: int) (tData: bytes)
      (tAccessList: 'al) (tV: int) (tR: int) (tS: int)
  | SetCodeTx (tChainID256: "256 word") (tNonce: uint64) (tTip256: "256 word") (tFee256: "256 word") (tGas: uint64) (tTo20: Address) (tValue256: "256 word")
      (tData: bytes) (tAccessList: 'al) (tAuthList: 'au) (tV256: "256 word") (tR256: "256 word") (tS256: "256 word")
  | OtherTx (tType: byte)

definition LegacyTxType :: byte where "LegacyTxType = 0"
definition AccessListTxType :: byte where "AccessListTxType = 1"
definition DynamicFeeTxType :: byte where "DynamicFeeTxType = 2"

fun tx_type :: "('al, 'au) TxData \<Rightarrow> byte" where
  "tx_type (LegacyTx _ _ _ _ _ _ _ _ _) = LegacyTxType"
| "tx_type (AccessListTx _ _ _ _ _ _ _ _ _ _ _) = AccessListTxType"
| "tx_type (DynamicFeeTx _ _ _ _ _ _ _ _ _ _ _ _) = DynamicFeeTxType"
| "tx_type (SetCodeTx _ _ _ _ _ _ _ _ _ _ _ _ _) = SetCodeTxType"
| "tx_type (OtherTx t) = t"

definition is_set_code :: "('al, 'au) TxData \<Rightarrow> bool" where "is_set_code tx = (case tx of SetCodeTx _ _ _ _ _ _ _ _ _ _ _ _ _ \<Rightarrow> True | _ \<Rightarrow> False)"

definition RawSignatureValues :: "('al, 'au) TxData \<Rightarrow> int \<times> int \<times> int" where
  "RawSignatureValues tx = (if is_set_code tx then (uint (tV256 tx), uint (tR256 tx), uint (tS256 tx)) else (tV tx, tR tx, tS tx))"

definition To :: "('al, 'au) TxData \<Rightarrow> Address option" where
  "To tx = (if is_set_code tx then Some (tTo20 tx) else tTo tx)"

text \<open>What the code calls of go-ethereum: the decoder and encoder of transactions, \<^verbatim>\<open>Protected\<close> and \<^verbatim>\<open>ChainId\<close>, the RLP encoding of the structs of span batches,
  the RLP decoder of each struct (by the type of the transaction), and \<^verbatim>\<open>Stream.Raw\<close>, which splits an RLP list off the input.\<close>

record ('al, 'au) tx_env =
  txUnmarshal :: "bytes \<Rightarrow> derive_error + ('al, 'au) TxData"
  txMarshal :: "('al, 'au) TxData \<Rightarrow> derive_error + bytes"
  txProtected :: "('al, 'au) TxData \<Rightarrow> bool"
  txChainId :: "('al, 'au) TxData \<Rightarrow> int"
  rlpEncode :: "('al, 'au) spanBatchTxData \<Rightarrow> derive_error + bytes"
  rlpDecode :: "byte \<Rightarrow> bytes \<Rightarrow> derive_error + ('al, 'au) spanBatchTxData"
  rlpList :: "uint64 \<Rightarrow> bytes \<Rightarrow> derive_error + bytes \<times> bytes"

fun span_tx_type :: "('al, 'au) spanBatchTxData \<Rightarrow> byte" where
  "span_tx_type (spanBatchLegacyTxData _ _ _) = LegacyTxType"
| "span_tx_type (spanBatchAccessListTxData _ _ _ _) = AccessListTxType"
| "span_tx_type (spanBatchDynamicFeeTxData _ _ _ _ _) = DynamicFeeTxType"
| "span_tx_type (spanBatchSetCodeTxData _ _ _ _ _ _) = SetCodeTxType"

definition spanBatchTx_MarshalBinary :: "('al, 'au) tx_env \<Rightarrow> ('al, 'au) spanBatchTxData \<Rightarrow> derive_error + bytes" where
  "spanBatchTx_MarshalBinary env inner =
    (if span_tx_type inner = LegacyTxType then rlpEncode env inner
     else rbind (rlpEncode env inner) (\<lambda>b. Inr (span_tx_type inner # b)))"

definition spanBatchTx_decodeTyped :: "('al, 'au) tx_env \<Rightarrow> bytes \<Rightarrow> derive_error + ('al, 'au) spanBatchTxData" where
  "spanBatchTx_decodeTyped env b =
    (if length b \<le> 1 then Inl (PlainError ''failed to decode span batch'')
     else if b ! 0 = AccessListTxType \<or> b ! 0 = DynamicFeeTxType \<or> b ! 0 = SetCodeTxType then
       (case rlpDecode env (b ! 0) (drop 1 b) of
          Inl _ \<Rightarrow> Inl (PlainError ''failed to decode span batch tx data'')
        | Inr inner \<Rightarrow> Inr inner)
     else Inl (PlainError ''transaction type not supported''))"

definition spanBatchTx_UnmarshalBinary :: "('al, 'au) tx_env \<Rightarrow> bytes \<Rightarrow> derive_error + ('al, 'au) spanBatchTxData" where
  "spanBatchTx_UnmarshalBinary env b =
    (if 0 < length b \<and> 0x7F < b ! 0 then
       (case rlpDecode env LegacyTxType b of
          Inl _ \<Rightarrow> Inl (PlainError ''failed to decode spanBatchLegacyTxData'')
        | Inr data \<Rightarrow> Inr data)
     else spanBatchTx_decodeTyped env b)"

definition MustFromBig :: "int \<Rightarrow> derive_error + 256 word" where
  "MustFromBig n = (if 0 \<le> n \<and> n < 2 ^ 256 then Inr (word_of_int n) else Inl (Panic ''overflow''))"

fun convertToFullTx :: "uint64 \<Rightarrow> uint64 \<Rightarrow> Address option \<Rightarrow> int \<Rightarrow> int \<Rightarrow> int \<Rightarrow> int \<Rightarrow> ('al, 'au) spanBatchTxData \<Rightarrow> derive_error + ('al, 'au) TxData" where
  "convertToFullTx nonce gas to chainID v r s (spanBatchLegacyTxData value gasPrice data) = Inr (LegacyTx nonce gasPrice gas to value data v r s)"
| "convertToFullTx nonce gas to chainID v r s (spanBatchAccessListTxData value gasPrice data al) =
    Inr (AccessListTx chainID nonce gasPrice gas to value data al v r s)"
| "convertToFullTx nonce gas to chainID v r s (spanBatchDynamicFeeTxData value tip fee data al) =
    Inr (DynamicFeeTx chainID nonce tip fee gas to value data al v r s)"
| "convertToFullTx nonce gas to chainID v r s (spanBatchSetCodeTxData value tip fee data al au) =
    (case to of
       None \<Rightarrow> Inl (PlainError ''to address is required for SetCodeTx'')
     | Some to \<Rightarrow>
        rbind (MustFromBig chainID) (\<lambda>c. rbind (MustFromBig v) (\<lambda>v. rbind (MustFromBig r) (\<lambda>r. rbind (MustFromBig s) (\<lambda>s.
        Inr (SetCodeTx c nonce tip fee gas to value data al au v r s))))))"

fun newSpanBatchTx :: "('al, 'au) TxData \<Rightarrow> derive_error + ('al, 'au) spanBatchTxData" where
  "newSpanBatchTx (LegacyTx _ gasPrice _ _ value data _ _ _) = Inr (spanBatchLegacyTxData value gasPrice data)"
| "newSpanBatchTx (AccessListTx _ _ gasPrice _ _ value data al _ _ _) = Inr (spanBatchAccessListTxData value gasPrice data al)"
| "newSpanBatchTx (DynamicFeeTx _ _ tip fee _ _ value data al _ _ _) = Inr (spanBatchDynamicFeeTxData value tip fee data al)"
| "newSpanBatchTx (SetCodeTx _ _ tip fee _ _ value data al au _ _ _) = Inr (spanBatchSetCodeTxData value tip fee data al au)"
| "newSpanBatchTx (OtherTx _) = Inl (PlainError ''invalid tx type'')"

section \<open>The transactions of a span\<close>

record spanBatchSignature =
  sigV :: uint64
  sigR :: "256 word"
  sigS :: "256 word"

record spanBatchTxs =
  totalBlockTxCount :: uint64
  contractCreationBits :: nat
  yParityBits :: nat
  txSigs :: "spanBatchSignature list"
  txNonces :: "uint64 list"
  txGases :: "uint64 list"
  txTos :: "Address list"
  txDatas :: "bytes list"
  protectedBits :: nat
  txTypes :: "byte list"
  totalLegacyTxCount :: uint64

definition MaxSpanBatchElementCount :: uint64 where "MaxSpanBatchElementCount = 10000000"

definition ErrTooBigSpanBatchSize :: derive_error where "ErrTooBigSpanBatchSize = PlainError ''span batch size limit reached''"
definition ErrEmptySpanBatch :: derive_error where "ErrEmptySpanBatch = PlainError ''span-batch must not be empty''"

text \<open>The loops that read a number of items of the same kind.\<close>

fun read_n :: "nat \<Rightarrow> (bytes \<Rightarrow> derive_error + 'a \<times> bytes) \<Rightarrow> bytes \<Rightarrow> derive_error + 'a list \<times> bytes" where
  "read_n 0 rd r = Inr ([], r)"
| "read_n (Suc n) rd r = rbind (rd r) (\<lambda>(x, r). rbind (read_n n rd r) (\<lambda>(xs, r). Inr (x # xs, r)))"

definition encode_sig :: "spanBatchSignature \<Rightarrow> bytes" where
  "encode_sig txSig = be_bytes 32 (sigR txSig) @ be_bytes 32 (sigS txSig)"

definition decode_sig :: "bytes \<Rightarrow> derive_error + spanBatchSignature \<times> bytes" where
  "decode_sig r =
    rbind (read_full 32 r) (\<lambda>(sigR, r). rbind (read_full 32 r) (\<lambda>(sigS, r). Inr (\<lparr>sigV = 0, sigR = be_word sigR, sigS = be_word sigS\<rparr>, r)))"

definition decode_to :: "bytes \<Rightarrow> derive_error + Address \<times> bytes" where
  "decode_to r = rbind (read_full 20 r) (\<lambda>(b, r). Inr (be_word b, r))"

definition contractCreationCount :: "spanBatchTxs \<Rightarrow> uint64" where
  "contractCreationCount btx = of_nat (length (filter (bit (contractCreationBits btx)) [0..<unat (totalBlockTxCount btx)]))"

definition ReadTxData :: "('al, 'au) tx_env \<Rightarrow> bytes \<Rightarrow> derive_error + (bytes \<times> byte) \<times> bytes" where
  "ReadTxData env r =
    (case r of
       [] \<Rightarrow> Inl (PlainError ''failed to read tx initial byte'')
     | b # r' \<Rightarrow>
        let (txType, txData, r) = (if b \<le> 0x7F then (b, [b], r') else (0, [], r)) in
        rbind (rlpList env MaxSpanBatchElementCount r) (\<lambda>(txPayload, r). Inr ((txData @ txPayload, txType), r)))"

definition spanBatchTxs_encode :: "spanBatchTxs \<Rightarrow> derive_error + bytes" where
  "spanBatchTxs_encode btx =
    rbind (encodeSpanBatchBits (totalBlockTxCount btx) (contractCreationBits btx)) (\<lambda>creation.
    rbind (encodeSpanBatchBits (totalBlockTxCount btx) (yParityBits btx)) (\<lambda>parity.
    rbind (encodeSpanBatchBits (totalLegacyTxCount btx) (protectedBits btx)) (\<lambda>protected.
    Inr (creation @ parity @ concat (map encode_sig (txSigs btx)) @ concat (map (be_bytes 20) (txTos btx)) @ concat (txDatas btx) @
         concat (map PutUvarint (txNonces btx)) @ concat (map PutUvarint (txGases btx)) @ protected))))"

definition spanBatchTxs_decode :: "('al, 'au) tx_env \<Rightarrow> spanBatchTxs \<Rightarrow> bytes \<Rightarrow> derive_error + spanBatchTxs \<times> bytes" where
  "spanBatchTxs_decode env btx r =
    (let n = unat (totalBlockTxCount btx) in
     if MaxSpanBatchElementCount < totalBlockTxCount btx then Inl ErrTooBigSpanBatchSize
     else
       rbind (decodeSpanBatchBits (totalBlockTxCount btx) r) (\<lambda>(creation, r).
       rbind (decodeSpanBatchBits (totalBlockTxCount btx) r) (\<lambda>(parity, r).
       rbind (read_n n decode_sig r) (\<lambda>(sigs, r).
       rbind (read_n (unat (totalBlockTxCount btx - contractCreationCount (btx\<lparr>contractCreationBits := creation\<rparr>))) decode_to r) (\<lambda>(tos, r).
       rbind (read_n n (ReadTxData env) r) (\<lambda>(datas, r).
       let legacy = totalLegacyTxCount btx + of_nat (length (filter (\<lambda>d. snd d = LegacyTxType) datas)) in
       rbind (read_n n ReadUvarint r) (\<lambda>(nonces, r).
       rbind (read_n n ReadUvarint r) (\<lambda>(gases, r).
       if MaxSpanBatchElementCount < legacy then Inl ErrTooBigSpanBatchSize
       else
         rbind (decodeSpanBatchBits legacy r) (\<lambda>(protected, r).
         Inr (btx\<lparr>contractCreationBits := creation, yParityBits := parity, txSigs := sigs, txTos := tos, txDatas := map fst datas,
           txTypes := map snd datas, totalLegacyTxCount := legacy, txNonces := nonces, txGases := gases, protectedBits := protected\<rparr>, r))))))))))"

text \<open>The loop of \<^verbatim>\<open>recoverV\<close>: the index of the transaction, the index into the protected bits and the types still to come.\<close>

fun recover_loop :: "int \<Rightarrow> nat \<Rightarrow> nat \<Rightarrow> nat \<Rightarrow> nat \<Rightarrow> byte list \<Rightarrow> derive_error + uint64 list" where
  "recover_loop chainID parity protected idx pidx [] = Inr []"
| "recover_loop chainID parity protected idx pidx (t # ts) =
    (let b = (if bit parity idx then 1 else 0) in
     if t = LegacyTxType then
       rbind (recover_loop chainID parity protected (idx + 1) (pidx + 1) ts) (\<lambda>vs.
       Inr ((if bit protected pidx then word_of_int chainID * 2 + 35 + b else 27 + b) # vs))
     else if t = AccessListTxType \<or> t = DynamicFeeTxType \<or> t = SetCodeTxType then
       rbind (recover_loop chainID parity protected (idx + 1) pidx ts) (\<lambda>vs. Inr (b # vs))
     else Inl (PlainError ''invalid tx type''))"

definition recoverV :: "int \<Rightarrow> spanBatchTxs \<Rightarrow> derive_error + spanBatchTxs" where
  "recoverV chainID btx =
    (if length (txTypes btx) \<noteq> length (txSigs btx) then Inl (PlainError ''tx type length and tx sigs length mismatch'')
     else
       rbind (recover_loop chainID (yParityBits btx) (protectedBits btx) 0 0 (txTypes btx)) (\<lambda>vs.
       Inr (btx\<lparr>txSigs := map2 (\<lambda>s v. s\<lparr>sigV := v\<rparr>) (txSigs btx) vs\<rparr>)))"

definition get_at :: "'a list \<Rightarrow> nat \<Rightarrow> derive_error + 'a" where
  "get_at xs i = (if i < length xs then Inr (xs ! i) else Inl (Panic ''index out of range''))"

text \<open>One round of \<^verbatim>\<open>fullTxs\<close>; \<open>to\<close> is what the lookup of the recipient gives.\<close>

definition full_tx :: "('al, 'au) tx_env \<Rightarrow> int \<Rightarrow> spanBatchTxs \<Rightarrow> nat \<Rightarrow> derive_error + Address option \<Rightarrow> derive_error + bytes" where
  "full_tx env chainID btx idx to =
    rbind (get_at (txDatas btx) idx) (\<lambda>data. rbind (spanBatchTx_UnmarshalBinary env data) (\<lambda>stx.
    rbind (get_at (txNonces btx) idx) (\<lambda>nonce. rbind (get_at (txGases btx) idx) (\<lambda>gas. rbind to (\<lambda>to. rbind (get_at (txSigs btx) idx) (\<lambda>txSig.
    rbind (convertToFullTx nonce gas to chainID (uint (sigV txSig)) (uint (sigR txSig)) (uint (sigS txSig)) stx) (txMarshal env)))))))"

fun full_loop :: "('al, 'au) tx_env \<Rightarrow> int \<Rightarrow> spanBatchTxs \<Rightarrow> nat \<Rightarrow> nat \<Rightarrow> nat \<Rightarrow> derive_error + bytes list" where
  "full_loop env chainID btx toIdx idx 0 = Inr []"
| "full_loop env chainID btx toIdx idx (Suc n) =
    (if bit (contractCreationBits btx) idx then
       rbind (full_tx env chainID btx idx (Inr None)) (\<lambda>tx. rbind (full_loop env chainID btx toIdx (idx + 1) n) (\<lambda>txs. Inr (tx # txs)))
     else
       rbind (full_tx env chainID btx idx
                (if length (txTos btx) \<le> toIdx then Inl (PlainError ''tx to not enough'') else Inr (Some (txTos btx ! toIdx)))) (\<lambda>tx.
       rbind (full_loop env chainID btx (toIdx + 1) (idx + 1) n) (\<lambda>txs. Inr (tx # txs))))"

definition fullTxs :: "('al, 'au) tx_env \<Rightarrow> int \<Rightarrow> spanBatchTxs \<Rightarrow> derive_error + bytes list" where
  "fullTxs env chainID btx = full_loop env chainID btx 0 0 (unat (totalBlockTxCount btx))"

definition isProtectedV :: "uint64 \<Rightarrow> byte \<Rightarrow> bool" where
  "isProtectedV v t = (if t = LegacyTxType then v \<noteq> 27 \<and> v \<noteq> 28 else True)"

definition convertVToYParity :: "uint64 \<Rightarrow> byte \<Rightarrow> derive_error + uint64" where
  "convertVToYParity v t =
    (if t = LegacyTxType then Inr (if isProtectedV v t then (v - 35) AND 1 else v - 27)
     else if t = AccessListTxType \<or> t = DynamicFeeTxType \<or> t = SetCodeTxType then Inr v
     else Inl (PlainError ''invalid tx type''))"

text \<open>One round of \<^verbatim>\<open>AddTxs\<close>, at the index \<open>i\<close> of the span. An error leaves a span that is not used any more.\<close>

definition add_tx :: "('al, 'au) tx_env \<Rightarrow> int \<Rightarrow> nat \<Rightarrow> bytes \<Rightarrow> spanBatchTxs \<Rightarrow> derive_error + spanBatchTxs" where
  "add_tx env chainID i b sbtx =
    (case txUnmarshal env b of
       Inl _ \<Rightarrow> Inl (PlainError ''failed to decode tx'')
     | Inr tx \<Rightarrow>
        rbind (if tx_type tx = LegacyTxType then
                 rbind (SetBit (protectedBits sbtx) (unat (totalLegacyTxCount sbtx)) (if txProtected env tx then 1 else 0)) (\<lambda>p.
                 Inr (sbtx\<lparr>protectedBits := p, totalLegacyTxCount := totalLegacyTxCount sbtx + 1\<rparr>))
               else Inr sbtx) (\<lambda>sbtx.
        if txProtected env tx \<and> txChainId env tx \<noteq> chainID then Inl (PlainError ''protected tx has another chain ID'')
        else
          let (v, r, s) = RawSignatureValues tx;
              txSig = \<lparr>sigV = word_of_int v, sigR = word_of_int r, sigS = word_of_int s\<rparr>;
              sbtx = sbtx\<lparr>txSigs := txSigs sbtx @ [txSig], txTos := (case To tx of None \<Rightarrow> txTos sbtx | Some to \<Rightarrow> txTos sbtx @ [to])\<rparr> in
          rbind (SetBit (contractCreationBits sbtx) i (if To tx = None then 1 else 0)) (\<lambda>c.
          rbind (convertVToYParity (sigV txSig) (tx_type tx)) (\<lambda>yParityBit.
          rbind (SetBit (yParityBits sbtx) i yParityBit) (\<lambda>y.
          rbind (newSpanBatchTx tx) (\<lambda>stx.
          rbind (spanBatchTx_MarshalBinary env stx) (\<lambda>txData.
          Inr (sbtx\<lparr>contractCreationBits := c, yParityBits := y, txNonces := txNonces sbtx @ [tNonce tx], txGases := txGases sbtx @ [tGas tx],
            txDatas := txDatas sbtx @ [txData], txTypes := txTypes sbtx @ [tx_type tx]\<rparr>)))))))) "

fun add_loop :: "('al, 'au) tx_env \<Rightarrow> int \<Rightarrow> nat \<Rightarrow> bytes list \<Rightarrow> spanBatchTxs \<Rightarrow> derive_error + spanBatchTxs" where
  "add_loop env chainID i [] sbtx = Inr sbtx"
| "add_loop env chainID i (tx # txs) sbtx = rbind (add_tx env chainID i tx sbtx) (add_loop env chainID (i + 1) txs)"

definition AddTxs :: "('al, 'au) tx_env \<Rightarrow> int \<Rightarrow> bytes list \<Rightarrow> spanBatchTxs \<Rightarrow> derive_error + spanBatchTxs" where
  "AddTxs env chainID txs sbtx =
    rbind (add_loop env chainID (unat (totalBlockTxCount sbtx)) txs sbtx) (\<lambda>sbtx.
    Inr (sbtx\<lparr>totalBlockTxCount := totalBlockTxCount sbtx + of_nat (length txs)\<rparr>))"

definition no_txs :: spanBatchTxs where
  "no_txs = \<lparr>totalBlockTxCount = 0, contractCreationBits = 0, yParityBits = 0, txSigs = [], txNonces = [], txGases = [], txTos = [], txDatas = [],
     protectedBits = 0, txTypes = [], totalLegacyTxCount = 0\<rparr>"

definition newSpanBatchTxs :: "('al, 'au) tx_env \<Rightarrow> int \<Rightarrow> bytes list \<Rightarrow> derive_error + spanBatchTxs" where
  "newSpanBatchTxs env chainID txs = AddTxs env chainID txs no_txs"

section \<open>Raw spans\<close>

record RawSpanBatch =
  relTimestamp :: uint64
  l1OriginNum :: uint64
  parentCheck :: bytes
  l1OriginCheck :: bytes
  blockCount :: uint64
  originBits :: nat
  blockTxCounts :: "uint64 list"
  rawTxs :: spanBatchTxs

definition decodePrefix :: "bytes \<Rightarrow> derive_error + (uint64 \<times> uint64 \<times> bytes \<times> bytes) \<times> bytes" where
  "decodePrefix r =
    rbind (ReadUvarint r) (\<lambda>(rel, r). rbind (ReadUvarint r) (\<lambda>(num, r).
    rbind (read_full 20 r) (\<lambda>(parent, r). rbind (read_full 20 r) (\<lambda>(origin, r). Inr ((rel, num, parent, origin), r)))))"

definition decodeBlockCount :: "bytes \<Rightarrow> derive_error + uint64 \<times> bytes" where
  "decodeBlockCount r =
    rbind (ReadUvarint r) (\<lambda>(n, r).
    if MaxSpanBatchElementCount < n then Inl ErrTooBigSpanBatchSize
    else if n = 0 then Inl ErrEmptySpanBatch
    else Inr (n, r))"

definition decode_tx_count :: "bytes \<Rightarrow> derive_error + uint64 \<times> bytes" where
  "decode_tx_count r =
    rbind (ReadUvarint r) (\<lambda>(n, r). if MaxSpanBatchElementCount < n then Inl ErrTooBigSpanBatchSize else Inr (n, r))"

text \<open>The sum with \<^verbatim>\<open>math.SafeAdd\<close>.\<close>

fun sum_counts :: "uint64 \<Rightarrow> uint64 list \<Rightarrow> derive_error + uint64" where
  "sum_counts acc [] = Inr acc"
| "sum_counts acc (c # cs) = (if acc + c < acc then Inl ErrTooBigSpanBatchSize else sum_counts (acc + c) cs)"

definition decodeTxs :: "('al, 'au) tx_env \<Rightarrow> uint64 list \<Rightarrow> bytes \<Rightarrow> derive_error + spanBatchTxs \<times> bytes" where
  "decodeTxs env counts r =
    (if counts = [] then Inl (PlainError ''failed to read txs: blockTxCounts not set'')
     else
       rbind (sum_counts 0 counts) (\<lambda>n.
       if MaxSpanBatchElementCount < n then Inl ErrTooBigSpanBatchSize
       else spanBatchTxs_decode env (no_txs\<lparr>totalBlockTxCount := n\<rparr>) r))"

definition RawSpanBatch_decode :: "('al, 'au) tx_env \<Rightarrow> bytes \<Rightarrow> derive_error + RawSpanBatch \<times> bytes" where
  "RawSpanBatch_decode env r =
    rbind (decodePrefix r) (\<lambda>((rel, num, parent, origin), r).
    rbind (decodeBlockCount r) (\<lambda>(count, r).
    if MaxSpanBatchElementCount < count then Inl ErrTooBigSpanBatchSize
    else
      rbind (decodeSpanBatchBits count r) (\<lambda>(bits, r).
      rbind (read_n (unat count) decode_tx_count r) (\<lambda>(counts, r).
      rbind (decodeTxs env counts r) (\<lambda>(txs, r).
      Inr (\<lparr>relTimestamp = rel, l1OriginNum = num, parentCheck = parent, l1OriginCheck = origin, blockCount = count, originBits = bits,
        blockTxCounts = counts, rawTxs = txs\<rparr>, r))))))"

definition RawSpanBatch_encode :: "RawSpanBatch \<Rightarrow> derive_error + bytes" where
  "RawSpanBatch_encode b =
    rbind (encodeSpanBatchBits (blockCount b) (originBits b)) (\<lambda>bits.
    rbind (spanBatchTxs_encode (rawTxs b)) (\<lambda>txs.
    Inr (PutUvarint (relTimestamp b) @ PutUvarint (l1OriginNum b) @ parentCheck b @ l1OriginCheck b @
         PutUvarint (blockCount b) @ bits @ concat (map PutUvarint (blockTxCounts b)) @ txs)))"

section \<open>Deriving a span\<close>

text \<open>The loop over the origin bits runs from the last block to the first.\<close>

fun origin_nums :: "nat \<Rightarrow> nat \<Rightarrow> uint64 \<Rightarrow> uint64 list \<Rightarrow> uint64 list" where
  "origin_nums bits 0 num acc = acc"
| "origin_nums bits (Suc i) num acc = origin_nums bits i (if bit bits i \<and> 0 < i then num - 1 else num) (num # acc)"

fun block_elements :: "uint64 \<Rightarrow> uint64 \<Rightarrow> bytes list \<Rightarrow> nat \<Rightarrow> nat \<Rightarrow> uint64 list \<Rightarrow> uint64 list \<Rightarrow> derive_error + SpanBatchElement list" where
  "block_elements t0 blockTime txs i txIdx [] counts = Inr []"
| "block_elements t0 blockTime txs i txIdx (num # nums) [] = Inl (Panic ''index out of range'')"
| "block_elements t0 blockTime txs i txIdx (num # nums) (c # counts) =
    (if length txs < txIdx + unat c then Inl (Panic ''index out of range'')
     else
       rbind (block_elements t0 blockTime txs (i + 1) (txIdx + unat c) nums counts) (\<lambda>rest.
       Inr (\<lparr>seEpochNum = num, seTimestamp = t0 + blockTime * of_nat i, seTransactions = take (unat c) (drop txIdx txs)\<rparr> # rest)))"

definition RawSpanBatch_derive :: "('al, 'au) tx_env \<Rightarrow> uint64 \<Rightarrow> uint64 \<Rightarrow> int \<Rightarrow> RawSpanBatch \<Rightarrow> derive_error + SpanBatch" where
  "RawSpanBatch_derive env blockTime genesisTimestamp chainID b =
    (if blockCount b = 0 then Inl ErrEmptySpanBatch
     else
       rbind (recoverV chainID (rawTxs b)) (\<lambda>txs.
       rbind (fullTxs env chainID txs) (\<lambda>fullTxs.
       rbind (block_elements (genesisTimestamp + relTimestamp b) blockTime fullTxs 0 0 (origin_nums (originBits b) (unat (blockCount b)) (l1OriginNum b) [])
                (blockTxCounts b)) (\<lambda>elements.
       Inr \<lparr>ParentCheck = parentCheck b, L1OriginCheck = l1OriginCheck b, Batches = elements\<rparr>))))"

section \<open>Building a span\<close>

record SpanBatchBuilder = SpanBatch +
  GenesisTimestamp :: uint64
  ChainID :: int
  sbOriginBits :: nat
  sbBlockTxCounts :: "uint64 list"
  sbtxs :: spanBatchTxs

definition NewSpanBatch :: "uint64 \<Rightarrow> int \<Rightarrow> SpanBatchBuilder" where
  "NewSpanBatch genesisTimestamp chainID =
    \<lparr>ParentCheck = replicate 20 0, L1OriginCheck = replicate 20 0, Batches = [], GenesisTimestamp = genesisTimestamp, ChainID = chainID, sbOriginBits = 0,
      sbBlockTxCounts = [], sbtxs = no_txs\<rparr>"

definition singularBatchToElement :: "SingularBatch \<Rightarrow> SpanBatchElement" where
  "singularBatchToElement b = \<lparr>seEpochNum = EpochNum b, seTimestamp = Timestamp b, seTransactions = Transactions b\<rparr>"

definition AppendSingularBatch :: "('al, 'au) tx_env \<Rightarrow> SingularBatch \<Rightarrow> uint64 \<Rightarrow> SpanBatchBuilder \<Rightarrow> derive_error + SpanBatchBuilder" where
  "AppendSingularBatch env singularBatch seqNum b =
    (if Batches b \<noteq> [] \<and> Timestamp singularBatch < seTimestamp (last (Batches b)) then Inl (Panic ''span batch is not ordered'')
     else
       let e = singularBatchToElement singularBatch;
           first = (Batches b = []);
           epochBit = (if first then (if seqNum = 0 then 1 else 0) else if seEpochNum (last (Batches b)) < seEpochNum e then 1 else 0);
           b = b\<lparr>Batches := Batches b @ [e], L1OriginCheck := take 20 (be_bytes 32 (EpochHash singularBatch)),
                ParentCheck := (if first then take 20 (be_bytes 32 (ParentHash singularBatch)) else ParentCheck b)\<rparr> in
       rbind (SetBit (sbOriginBits b) (length (Batches b) - 1) epochBit) (\<lambda>bits.
       rbind (AddTxs env (ChainID b) (seTransactions e) (sbtxs b)) (\<lambda>txs.
       Inr (b\<lparr>sbOriginBits := bits, sbBlockTxCounts := sbBlockTxCounts b @ [of_nat (length (seTransactions e))], sbtxs := txs\<rparr>))))"

definition ToRawSpanBatch :: "SpanBatchBuilder \<Rightarrow> derive_error + RawSpanBatch" where
  "ToRawSpanBatch b =
    (if Batches b = [] then Inl (PlainError ''cannot merge empty singularBatch list'')
     else
       let span_start = Batches b ! 0; span_end = Batches b ! (length (Batches b) - 1) in
       Inr \<lparr>relTimestamp = seTimestamp span_start - GenesisTimestamp b, l1OriginNum = seEpochNum span_end, parentCheck = ParentCheck b,
         l1OriginCheck = L1OriginCheck b, blockCount = of_nat (length (Batches b)), originBits = sbOriginBits b, blockTxCounts = sbBlockTxCounts b,
         rawTxs = sbtxs b\<rparr>)"

end
