(* ===== verification/SpanRoundTrip.thy ===== *)
theory SpanRoundTrip
  imports SpanWire
begin

text \<open>
  What the wire format of span batches guarantees: every derived span has the shape that the batch stages rely on, the parts of the format are codecs (interpretations
  of the locale \<open>codec\<close>), and what the encoder writes is what the decoder and the derivation read back.
\<close>

section \<open>The shape of derived spans\<close>

fun stepwise :: "uint64 list \<Rightarrow> bool" where
  "stepwise (x # y # r) \<longleftrightarrow> (y = x \<or> y = x + 1) \<and> stepwise (y # r)"
| "stepwise _ = True"

lemma stepwise_Cons: "stepwise (x # acc) \<longleftrightarrow> stepwise acc \<and> (acc = [] \<or> hd acc = x \<or> hd acc = x + 1)"
  by (cases acc) auto

lemma origin_nums_shape:
  "length (origin_nums bits n num acc) = n + length acc"
  "stepwise acc \<Longrightarrow> acc = [] \<or> hd acc = num \<or> hd acc = num + 1 \<Longrightarrow> stepwise (origin_nums bits n num acc)"
  by (induction n arbitrary: num acc) (auto simp: stepwise_Cons)

lemma block_elements_steps:
  assumes "block_elements t0 bt txs i k (num # nums) counts = Inr es" and "stepwise (num # nums)"
  shows "\<exists>e es'. es = e # es' \<and> length es' = length nums \<and> seEpochNum e = num \<and> seTimestamp e = t0 + bt * of_nat i \<and>
    (\<forall>cfg. BlockTime cfg = bt \<longrightarrow> steps cfg (seTimestamp e) (seEpochNum e) es')"
  using assms
proof (induction nums arbitrary: i k num counts es)
  case Nil
  then show ?case by (cases counts) (auto simp: rbind_Inr_iff split: if_splits)
next
  case (Cons num2 nums)
  then obtain c counts' where c: "counts = c # counts'" by (cases counts) auto
  then obtain rest where r: "block_elements t0 bt txs (i + 1) (k + unat c) (num2 # nums) counts' = Inr rest"
    "es = \<lparr>seEpochNum = num, seTimestamp = t0 + bt * of_nat i, seTransactions = take (unat c) (drop k txs)\<rparr> # rest"
    using Cons.prems(1) by (auto simp: rbind_Inr_iff split: if_splits)
  from Cons.IH [OF r(1)] Cons.prems(2) obtain e es' where "rest = e # es'" "length es' = length nums" "seEpochNum e = num2"
    "seTimestamp e = t0 + bt * of_nat (i + 1)" "\<forall>cfg. BlockTime cfg = bt \<longrightarrow> steps cfg (seTimestamp e) (seEpochNum e) es'" by auto
  then show ?case using r(2) Cons.prems(2) by (auto simp: algebra_simps)
qed

lemma decoded_count:
  assumes "RawSpanBatch_decode env r = Inr (raw, rest)"
  shows "blockCount raw \<noteq> 0 \<and> unat (blockCount raw) \<le> 10000000"
  using assms by (auto simp: RawSpanBatch_decode_def decodeBlockCount_def rbind_Inr_iff MaxSpanBatchElementCount_def word_less_nat_alt not_less split: if_splits)

lemma derived_shape:
  assumes "RawSpanBatch_decode env r = Inr (raw, rest)" and "RawSpanBatch_derive env (BlockTime cfg) genesis chainID raw = Inr s"
  shows "span_shape cfg s"
proof -
  let ?nums = "origin_nums (originBits raw) (unat (blockCount raw)) (l1OriginNum raw) []"
  note n = decoded_count [OF assms(1)]
  have l: "length ?nums = unat (blockCount raw)" by (simp add: origin_nums_shape(1))
  then obtain num nums where nums: "?nums = num # nums" using n by (cases ?nums) (auto simp: unat_eq_0)
  have "stepwise (num # nums)" using origin_nums_shape(2) [of "[]"] nums by (metis stepwise.simps(2))
  moreover obtain full where "block_elements (genesis + relTimestamp raw) (BlockTime cfg) full 0 0 (num # nums) (blockTxCounts raw) = Inr (Batches s)"
    using assms(2) nums by (auto simp: RawSpanBatch_derive_def rbind_Inr_iff split: if_splits)
  ultimately show ?thesis using block_elements_steps [of _ "BlockTime cfg"] l n nums by (fastforce simp: span_shape_def)
qed

section \<open>Variable-length integers round trip\<close>

lemma push_bit_split: "push_bit s (take_bit 7 x) OR push_bit (s + 7) (drop_bit 7 x) = push_bit s (x :: uint64)"
proof (intro bit_word_eqI)
  fix n assume "n < LENGTH(64)"
  moreover have "7 + (n - (s + 7)) = n - s" if "\<not> n - s < 7" using that by linarith
  ultimately show "bit (push_bit s (take_bit 7 x) OR push_bit (s + 7) (drop_bit 7 x)) n \<longleftrightarrow> bit (push_bit s x) n"
    by (cases "n - s < 7") (auto simp: bit_simps)
qed

lemma uvarint_byte:
  "\<not> (ucast (x :: uint64) OR 0x80 :: byte) < 0x80"
  "ucast ((ucast x OR 0x80 :: byte) AND 0x7F) = take_bit 7 x"
proof -
  show "\<not> (ucast x OR 0x80 :: byte) < 0x80"
    using le_word_or1 [of "0x80 :: byte" "ucast x"] by (simp add: not_less)
  have "(0x7F :: byte) = mask 7" by (simp add: mask_eq_exp_minus_1)
  then have m: "(ucast x OR 0x80 :: byte) AND 0x7F = ucast x AND mask 7" by (simp add: word_ao_dist)
  show "ucast ((ucast x OR 0x80 :: byte) AND 0x7F) = take_bit 7 x"
    unfolding m by (intro bit_word_eqI) (auto simp: bit_simps)
qed

lemma read_put_uvarint:
  assumes "s + 7 * k = 70" and "unat x < 2 ^ (64 - s)" and "s \<le> 63"
  shows "read_uvarint k acc s (PutUvarint x @ rest) = Inr (acc OR push_bit s x, rest)"
  using assms
proof (induction x arbitrary: acc s k rule: PutUvarint.induct)
  case (1 x)
  then obtain k' where k: "k = Suc k'" by (cases k) auto
  show ?case
  proof (cases "0x80 \<le> x")
    case False
    then have small: "unat x < 128" by (simp add: word_le_nat_alt not_le)
    then have b: "unat (ucast x :: byte) = unat x" by (simp add: unsigned_ucast_eq take_bit_nat_eq_self)
    have "ucast (ucast x :: byte) = x" using b small by (simp add: word_eq_iff_unsigned [where 'a = nat] unsigned_ucast_eq unsigned_take_bit_eq take_bit_nat_eq_self)
    moreover have "\<not> (k' = 0 \<and> 1 < (ucast x :: byte))" using 1(2,3) k b by (auto simp: word_less_nat_alt)
    moreover have "(ucast x :: byte) < 0x80" using b small by (simp add: word_less_nat_alt)
    ultimately show ?thesis using False k by (subst PutUvarint.simps) auto
  next
    case True
    then have big: "2 ^ 7 \<le> unat x" by (simp add: word_le_nat_alt)
    then have "(2 :: nat) ^ 7 < 2 ^ (64 - s)" using 1(3) by linarith
    then have s: "7 < 64 - s" using power_less_imp_less_exp [of 2 7 "64 - s"] by simp
    have d: "unat (drop_bit 7 x) < 2 ^ (64 - (s + 7))"
    proof -
      have e: "64 - s = 64 - (s + 7) + 7" using s by simp
      have "(2 :: nat) ^ (64 - s) = 2 ^ (64 - (s + 7)) * 2 ^ 7" by (subst e) (simp only: power_add)
      then show ?thesis using 1(3) by (simp add: drop_bit_eq_div unat_div less_mult_imp_div_less)
    qed
    have "read_uvarint k' (acc OR push_bit s (take_bit 7 x)) (s + 7) (PutUvarint (drop_bit 7 x) @ rest) =
      Inr ((acc OR push_bit s (take_bit 7 x)) OR push_bit (s + 7) (drop_bit 7 x), rest)"
      using 1(2) k s d by (intro 1(1) [OF True]) simp_all
    then show ?thesis using True k uvarint_byte [of x] push_bit_split [of s x] by (subst PutUvarint.simps) (simp add: or.assoc)
  qed
qed

interpretation uvarint: codec PutUvarint ReadUvarint "\<lambda>_. True"
proof
  fix x rest
  show "ReadUvarint (PutUvarint x @ rest) = Inr (x, rest)"
    using read_put_uvarint [of 0 10 x 0 rest] unsigned_less [where 'a = nat, of x] by (simp add: ReadUvarint_def)
qed

interpretation sigs: codec encode_sig decode_sig "\<lambda>s. sigV s = 0"
  by unfold_locales (simp add: encode_sig_def decode_sig_def read_full_def be_word_be_bytes)

interpretation tos: codec "be_bytes 20" decode_to "\<lambda>_ :: Address. True"
  by unfold_locales (simp add: decode_to_def read_full_def be_word_be_bytes)

section \<open>Bit lists round trip\<close>

lemma SetBytes_snoc [simp]: "SetBytes (bs @ [b]) = SetBytes bs * 256 + unat b" "SetBytes [] = 0"
  by (simp_all add: SetBytes_def)

lemma fill_bytes:
  "length (FillBytes k n) = k" "n < 256 ^ k \<Longrightarrow> SetBytes (FillBytes k n) = n"
proof (induction k arbitrary: n)
  case (Suc k)
  { case 2
    then have "n div 256 < 256 ^ k" by (simp add: less_mult_imp_div_less mult.commute)
    moreover have "unat (of_nat n :: byte) = n mod 256" by (simp add: unat_of_nat)
    ultimately show ?case using Suc by simp }
qed simp_all

lemma bit_len_le_iff: "bit_len n \<le> k \<longleftrightarrow> n < 2 ^ k"
  by (cases "n = 0") (simp_all add: bit_len_lt_pow)

lemma buf_len_bits: "unat n \<le> 8 * buf_len n"
proof -
  have "unat n = unat n div 8 * 8 + unat n mod 8" by simp
  then show ?thesis by (auto simp: buf_len_def unat_div unat_mod simp flip: unat_eq_0)
qed

text \<open>Bits below the length are written and read back.\<close>

lemma bits_encode: "bits < 2 ^ unat n \<Longrightarrow> encodeSpanBatchBits n bits = Inr (FillBytes (buf_len n) bits)"
  using buf_len_bits [of n] by (auto simp: encodeSpanBatchBits_def bit_len_le_iff not_less dest: order_trans [OF iffD2 [OF bit_len_le_iff]])

interpretation bits: codec "FillBytes (buf_len n)" "decodeSpanBatchBits n" "\<lambda>bits. bits < 2 ^ unat n"
proof
  fix bits :: nat and rest assume b: "bits < 2 ^ unat n"
  have "(2 :: nat) ^ unat n \<le> 2 ^ (8 * buf_len n)" using buf_len_bits by (intro power_increasing) simp_all
  then have "bits < 256 ^ buf_len n" using b by (simp add: power_mult)
  then show "decodeSpanBatchBits n (FillBytes (buf_len n) bits @ rest) = Inr (bits, rest)"
    using b by (simp add: decodeSpanBatchBits_def read_full_def fill_bytes Let_def bit_len_le_iff not_less)
qed

section \<open>Bit lists of flags\<close>

definition flags :: "bool list \<Rightarrow> nat" where "flags bs = horner_sum of_bool 2 bs"

lemma flags_Nil [simp]: "flags [] = 0" by (simp add: flags_def)

lemma bit_flags: "bit (flags bs) i \<longleftrightarrow> i < length bs \<and> bs ! i"
  by (simp add: flags_def bit_horner_sum_bit_iff)

lemma flags_less: "flags bs < 2 ^ length bs"
proof (induction bs)
  case (Cons b bs)
  then show ?case by (cases b) (simp_all add: flags_def)
qed simp

lemma SetBit_flags: "SetBit (flags bs) (length bs) (of_bool b) = Inr (flags (bs @ [b]))"
proof -
  have "(if b then set_bit (length bs) (flags bs) else unset_bit (length bs) (flags bs)) = flags (bs @ [b])"
    by (intro bit_eqI) (auto simp: bit_set_bit_iff bit_unset_bit_iff bit_flags nth_append less_Suc_eq)
  then show ?thesis by (auto simp: SetBit_def split: if_splits)
qed

lemma SetBit_flags_map: "SetBit (flags (map f xs)) (length xs) (if p then 1 else 0) = Inr (flags (map f xs @ [p]))"
  using SetBit_flags [of "map f xs" p] by (cases p) simp_all

section \<open>The transactions of a span round trip\<close>

text \<open>What RLP promises: the encoding of a struct is a list (its first byte is above 0x7F), decodes to the struct, and is split off the
  input when it is within the limit.\<close>

definition rlp_ok :: "('al, 'au) tx_env \<Rightarrow> bool" where
  "rlp_ok env \<longleftrightarrow> (\<forall>inner e. rlpEncode env inner = Inr e \<longrightarrow> e \<noteq> [] \<and> 0x7F < e ! 0 \<and> rlpDecode env (span_tx_type inner) e = Inr inner \<and>
    (length e \<le> unat MaxSpanBatchElementCount \<longrightarrow> (\<forall>rest. rlpList env MaxSpanBatchElementCount (e @ rest) = Inr (e, rest))))"

definition sig_v :: "('al, 'au) TxData \<Rightarrow> int" where "sig_v d = fst (RawSignatureValues d)"

definition y_parity :: "('al, 'au) tx_env \<Rightarrow> ('al, 'au) TxData \<Rightarrow> bool" where
  "y_parity env d = (if tx_type d = LegacyTxType then (if txProtected env d then even (sig_v d) else sig_v d = 28) else sig_v d = 1)"

fun right_chain :: "int \<Rightarrow> ('al, 'au) TxData \<Rightarrow> bool" where
  "right_chain c (LegacyTx _ _ _ _ _ _ _ _ _) = True"
| "right_chain c (AccessListTx c' _ _ _ _ _ _ _ _ _ _) = (c' = c)"
| "right_chain c (DynamicFeeTx c' _ _ _ _ _ _ _ _ _ _ _) = (c' = c)"
| "right_chain c (SetCodeTx c' _ _ _ _ _ _ _ _ _ _ _ _) = (uint c' = c)"
| "right_chain c (OtherTx _) = False"

text \<open>A transaction that a span can carry: encoded canonically, for this chain, with a signature in range whose \<open>v\<close> follows EIP-155 when the transaction is
  protected, and not too large.\<close>

definition tx_ok :: "('al, 'au) tx_env \<Rightarrow> int \<Rightarrow> bytes \<times> ('al, 'au) TxData \<Rightarrow> bool" where
  "tx_ok env c p \<longleftrightarrow> (let (b, d) = p; (v, r, s) = RawSignatureValues d; y = of_bool (y_parity env d) in
    txUnmarshal env b = Inr d \<and> txMarshal env d = Inr b \<and> right_chain c d \<and> (txProtected env d \<longrightarrow> txChainId env d = c) \<and>
    v = (if tx_type d = LegacyTxType then (if txProtected env d then 2 * c + 35 + y else 27 + y) else y) \<and>
    0 \<le> r \<and> r < 2 ^ 256 \<and> 0 \<le> s \<and> s < 2 ^ 256 \<and>
    (\<exists>inner e. newSpanBatchTx d = Inr inner \<and> rlpEncode env inner = Inr e \<and> length e \<le> unat MaxSpanBatchElementCount))"

definition tx_sig :: "('al, 'au) TxData \<Rightarrow> spanBatchSignature" where
  "tx_sig d = (let (v, r, s) = RawSignatureValues d in \<lparr>sigV = word_of_int v, sigR = word_of_int r, sigS = word_of_int s\<rparr>)"

definition tx_tos :: "('al, 'au) TxData list \<Rightarrow> Address list" where
  "tx_tos ds = concat (map (\<lambda>d. case To d of None \<Rightarrow> [] | Some a \<Rightarrow> [a]) ds)"

definition tx_data :: "('al, 'au) tx_env \<Rightarrow> ('al, 'au) TxData \<Rightarrow> bytes" where
  "tx_data env d = (case newSpanBatchTx d of Inr inner \<Rightarrow> (case spanBatchTx_MarshalBinary env inner of Inr b \<Rightarrow> b | Inl _ \<Rightarrow> []) | Inl _ \<Rightarrow> [])"

text \<open>The encoder's state after the transactions \<open>ds\<close>, with the given total.\<close>

definition txs_of :: "('al, 'au) tx_env \<Rightarrow> uint64 \<Rightarrow> ('al, 'au) TxData list \<Rightarrow> spanBatchTxs" where
  "txs_of env n ds =
    (let legacy = filter (\<lambda>d. tx_type d = LegacyTxType) ds in
     \<lparr>totalBlockTxCount = n, contractCreationBits = flags (map (\<lambda>d. To d = None) ds), yParityBits = flags (map (y_parity env) ds), txSigs = map tx_sig ds,
      txNonces = map tNonce ds, txGases = map tGas ds, txTos = tx_tos ds, txDatas = map (tx_data env) ds, protectedBits = flags (map (txProtected env) legacy),
      txTypes = map tx_type ds, totalLegacyTxCount = of_nat (length legacy)\<rparr>)"

lemma parity_back:
  assumes "tx_ok env c (b, d)" and "0 \<le> c" and "2 * c + 36 < 2 ^ 64"
  shows "convertVToYParity (word_of_int (sig_v d)) (tx_type d) = Inr (of_bool (y_parity env d))"
proof -
  have v: "sig_v d = (if tx_type d = LegacyTxType then (if txProtected env d then 2 * c + 35 + of_bool (y_parity env d) else 27 + of_bool (y_parity env d))
      else of_bool (y_parity env d))"
    using assms(1) by (auto simp: tx_ok_def sig_v_def Let_def split: prod.splits)
  have t: "tx_type d = LegacyTxType \<or> tx_type d = AccessListTxType \<or> tx_type d = DynamicFeeTxType \<or> tx_type d = SetCodeTxType"
    using assms(1) by (cases d) (auto simp: tx_ok_def Let_def split: prod.splits)
  show ?thesis
  proof (cases "tx_type d = LegacyTxType")
    case False
    then show ?thesis using t v by (auto simp: convertVToYParity_def)
  next
    case True
    show ?thesis
    proof (cases "txProtected env d")
      case False
      then show ?thesis using True v by (auto simp: convertVToYParity_def isProtectedV_def)
    next
      case prot: True
      define y :: int where "y = of_bool (y_parity env d)"
      have y: "0 \<le> y" "y \<le> 1" by (simp_all add: y_def)
      have s: "sig_v d = 2 * c + 35 + y" using v True prot by (simp add: y_def)
      have "0 \<le> sig_v d" "sig_v d < 2 ^ LENGTH(64)" using assms(2,3) y unfolding s by simp_all
      then have "uint (word_of_int (sig_v d) :: uint64) = sig_v d" by (subst uint_word_of_int) (rule mod_pos_pos_trivial)
      then have "35 \<le> uint (word_of_int (sig_v d) :: uint64)" using y assms(2) unfolding s by linarith
      then have "word_of_int (sig_v d) \<noteq> (27 :: uint64)" "word_of_int (sig_v d) \<noteq> (28 :: uint64)" by auto
      moreover have "(word_of_int (sig_v d) - 35 :: uint64) AND 1 = of_bool (y_parity env d)"
      proof -
        have "word_of_int (sig_v d) - 35 = (word_of_int (2 * c + y) :: uint64)" unfolding s by (simp add: word_of_int_hom_syms algebra_simps)
        moreover have "w AND 1 = of_bool (bit w 0)" for w :: uint64 by (intro bit_word_eqI) (auto simp: bit_simps bit_1_iff)
        moreover have "bit (word_of_int (2 * c + y) :: uint64) 0 = y_parity env d" by (simp add: bit_word_of_int_iff bit_0 y_def)
        ultimately show ?thesis by (simp only:)
      qed
      ultimately show ?thesis using True by (simp add: convertVToYParity_def isProtectedV_def)
    qed
  qed
qed


lemma add_tx_of:
  assumes "tx_ok env c (b, d)" and "0 \<le> c" and "2 * c + 36 < 2 ^ 64" and "length ds < 2 ^ 64"
  shows "add_tx env c (length ds) b (txs_of env n ds) = Inr (txs_of env n (ds @ [d]))"
proof -
  let ?legacy = "filter (\<lambda>d. tx_type d = LegacyTxType) ds"
  have ok: "txUnmarshal env b = Inr d" "txProtected env d \<Longrightarrow> txChainId env d = c"
    using assms(1) by (auto simp: tx_ok_def Let_def split: prod.splits)
  obtain inner e where i: "newSpanBatchTx d = Inr inner" "rlpEncode env inner = Inr e"
    using assms(1) by (auto simp: tx_ok_def Let_def split: prod.splits)
  obtain tb where m: "spanBatchTx_MarshalBinary env inner = Inr tb" using i(2) by (cases "span_tx_type inner = LegacyTxType") (simp_all add: spanBatchTx_MarshalBinary_def)
  have l: "unat (of_nat (length ?legacy) :: uint64) = length ?legacy"
    using order.strict_trans1 [OF length_filter_le assms(4)] by (intro unat_of_nat_lt) simp
  have par: "SetBit (flags (map (y_parity env) ds)) (length ds) (of_bool (y_parity env d)) = Inr (flags (map (y_parity env) ds @ [y_parity env d]))"
    using SetBit_flags [of "map (y_parity env) ds" "y_parity env d"] by simp
  note set = SetBit_flags_map [of _ ds] SetBit_flags_map [of _ ?legacy]
  obtain v r s where sv: "RawSignatureValues d = (v, r, s)" by (cases "RawSignatureValues d")
  then have y: "convertVToYParity (word_of_int v) (tx_type d) = Inr (of_bool (y_parity env d))" using parity_back [OF assms(1-3)] by (simp add: sig_v_def)
  show ?thesis
    using ok i m l sv y par
    by (auto simp: set add_tx_def txs_of_def Let_def tx_sig_def tx_tos_def tx_data_def split: option.splits)
qed

lemma add_loop_of:
  assumes "list_all (tx_ok env c) ps" and "0 \<le> c" and "2 * c + 36 < 2 ^ 64" and "length ds + length ps < 2 ^ 64"
  shows "add_loop env c (length ds) (map fst ps) (txs_of env n ds) = Inr (txs_of env n (ds @ map snd ps))"
  using assms(1,4)
proof (induction ps arbitrary: ds)
  case (Cons p ps)
  then show ?case using add_tx_of [of env c "fst p" "snd p" ds n] assms(2,3) Cons.IH [of "ds @ [snd p]"] by simp
qed simp

lemma AddTxs_of:
  assumes "list_all (tx_ok env c) ps" and "0 \<le> c" and "2 * c + 36 < 2 ^ 64" and "length ds + length ps < 2 ^ 64"
  shows "AddTxs env c (map fst ps) (txs_of env (of_nat (length ds)) ds) = Inr (txs_of env (of_nat (length (ds @ map snd ps))) (ds @ map snd ps))"
proof -
  have "unat (of_nat (length ds) :: uint64) = length ds" using assms(4) by (intro unat_of_nat_lt) simp
  then show ?thesis using add_loop_of [OF assms] by (simp add: AddTxs_def txs_of_def Let_def)
qed

lemma read_n_map:
  assumes "\<And>x rest. x \<in> set xs \<Longrightarrow> rd (f x @ rest) = Inr (g x, rest)"
  shows "read_n (length xs) rd (concat (map f xs) @ rest) = Inr (map g xs, rest)"
  using assms by (induction xs) simp_all

lemma count_flags: "length (filter (bit (flags bs)) [0..<length bs]) = length (filter id bs)"
proof -
  have "filter (bit (flags bs)) [0..<length bs] = filter (\<lambda>i. bs ! i) [0..<length bs]" by (intro filter_cong) (auto simp: bit_flags)
  also have "length \<dots> = length (filter id (map (\<lambda>i. bs ! i) [0..<length bs]))" by (simp add: filter_map o_def)
  finally show ?thesis by (simp add: map_nth id_def)
qed

lemma tx_tos_length: "length (tx_tos ds) + length (filter id (map (\<lambda>d. To d = None) ds)) = length ds"
  by (induction ds) (auto simp: tx_tos_def split: option.splits)

lemma tx_types [simp]:
  "LegacyTxType \<le> 0x7F" "AccessListTxType \<le> 0x7F" "DynamicFeeTxType \<le> 0x7F" "SetCodeTxType \<le> 0x7F"
  "AccessListTxType \<noteq> LegacyTxType" "DynamicFeeTxType \<noteq> LegacyTxType" "SetCodeTxType \<noteq> LegacyTxType"
  by (simp_all add: LegacyTxType_def AccessListTxType_def DynamicFeeTxType_def SetCodeTxType_def)

lemma span_tx_type_of: "newSpanBatchTx d = Inr inner \<Longrightarrow> span_tx_type inner = tx_type d"
  by (cases d) auto

lemma span_tx_types: "t = span_tx_type inner \<Longrightarrow> t = LegacyTxType \<or> (t \<noteq> LegacyTxType \<and> t \<le> 0x7F \<and> (t = AccessListTxType \<or> t = DynamicFeeTxType \<or> t = SetCodeTxType))"
  by (cases inner) simp_all

lemma tx_data_ok:
  assumes "tx_ok env c (b, d)" and "rlp_ok env"
  obtains inner where "newSpanBatchTx d = Inr inner" and "spanBatchTx_UnmarshalBinary env (tx_data env d) = Inr inner"
    and "\<And>rest. ReadTxData env (tx_data env d @ rest) = Inr ((tx_data env d, tx_type d), rest)"
proof -
  obtain inner e where i: "newSpanBatchTx d = Inr inner" "rlpEncode env inner = Inr e" "length e \<le> unat MaxSpanBatchElementCount"
    using assms(1) by (auto simp: tx_ok_def Let_def split: prod.splits)
  have r: "e \<noteq> []" "0x7F < e ! 0" "rlpDecode env (span_tx_type inner) e = Inr inner" "\<And>rest. rlpList env MaxSpanBatchElementCount (e @ rest) = Inr (e, rest)"
    using assms(2) i(2,3) by (auto simp: rlp_ok_def)
  obtain x e' where e: "e = x # e'" using r(1) by (cases e) auto
  have t: "span_tx_type inner = tx_type d" using span_tx_type_of [OF i(1)] .
  show thesis
  proof (cases "tx_type d = LegacyTxType")
    case True
    then have "tx_data env d = e" using i t by (simp add: tx_data_def spanBatchTx_MarshalBinary_def)
    moreover have "\<not> x \<le> 0x7F" using r(2) e by (simp add: not_le)
    ultimately show thesis
      using that [OF i(1)] r True t e by (simp add: spanBatchTx_UnmarshalBinary_def ReadTxData_def LegacyTxType_def)
  next
    case False
    then have d: "tx_data env d = tx_type d # e" using i t by (simp add: tx_data_def spanBatchTx_MarshalBinary_def)
    have k: "tx_type d \<le> 0x7F" "tx_type d = AccessListTxType \<or> tx_type d = DynamicFeeTxType \<or> tx_type d = SetCodeTxType"
      using span_tx_types [OF t [symmetric]] False by auto
    have "spanBatchTx_UnmarshalBinary env (tx_type d # e) = Inr inner"
      using k r(1,3) t by (simp add: spanBatchTx_UnmarshalBinary_def spanBatchTx_decodeTyped_def not_le [symmetric])
    moreover have "ReadTxData env (tx_type d # e @ rest) = Inr ((tx_type d # e, tx_type d), rest)" for rest using k(1) r(4) by (simp add: ReadTxData_def)
    ultimately show thesis using that [OF i(1)] d by simp
  qed
qed

definition txs_bytes :: "('al, 'au) tx_env \<Rightarrow> ('al, 'au) TxData list \<Rightarrow> bytes" where
  "txs_bytes env ds = (let legacy = filter (\<lambda>d. tx_type d = LegacyTxType) ds in
    FillBytes (buf_len (of_nat (length ds))) (flags (map (\<lambda>d. To d = None) ds)) @ FillBytes (buf_len (of_nat (length ds))) (flags (map (y_parity env) ds)) @
    concat (map (encode_sig \<circ> tx_sig) ds) @ concat (map (be_bytes 20) (tx_tos ds)) @ concat (map (tx_data env) ds) @ concat (map (PutUvarint \<circ> tNonce) ds) @
    concat (map (PutUvarint \<circ> tGas) ds) @ FillBytes (buf_len (of_nat (length legacy))) (flags (map (txProtected env) legacy)))"

lemma txs_encode:
  assumes "length ds \<le> 10000000"
  shows "spanBatchTxs_encode (txs_of env (of_nat (length ds)) ds) = Inr (txs_bytes env ds)"
proof -
  let ?legacy = "filter (\<lambda>d. tx_type d = LegacyTxType) ds"
  have u: "unat (of_nat (length xs) :: uint64) = length xs" if "length xs \<le> 10000000" for xs :: "'c list" using that by (intro unat_of_nat_lt) simp
  have l: "length ?legacy \<le> 10000000" using order_trans [OF length_filter_le assms] .
  have "encodeSpanBatchBits (of_nat (length xs)) (flags (map f xs)) = Inr (FillBytes (buf_len (of_nat (length xs))) (flags (map f xs)))"
    if "length xs \<le> 10000000" for f and xs :: "('a, 'b) TxData list"
    using flags_less [of "map f xs"] u [OF that] by (intro bits_encode) simp
  from this [OF assms] this [OF l] show ?thesis by (simp add: spanBatchTxs_encode_def txs_of_def txs_bytes_def Let_def)
qed

lemma txs_decode:
  assumes "list_all (tx_ok env c) ps" and "rlp_ok env" and "length ps \<le> 10000000"
  defines "ds \<equiv> map snd ps"
  shows "spanBatchTxs_decode env (no_txs\<lparr>totalBlockTxCount := of_nat (length ds)\<rparr>) (txs_bytes env ds @ rest) =
      Inr ((txs_of env (of_nat (length ds)) ds)\<lparr>txSigs := map (\<lambda>d. (tx_sig d)\<lparr>sigV := 0\<rparr>) ds\<rparr>, rest)"
proof -
  have len: "length ds \<le> 10000000" using assms(3) by (simp add: ds_def)
  let ?legacy = "filter (\<lambda>d. tx_type d = LegacyTxType) ds"
  have l: "length ?legacy \<le> 10000000" using order_trans [OF length_filter_le len] .
  have u: "unat (of_nat (length xs) :: uint64) = length xs" if "length xs \<le> 10000000" for xs :: "'c list" using that by (intro unat_of_nat_lt) simp
  have le: "\<not> MaxSpanBatchElementCount < of_nat (length xs)" if "length xs \<le> 10000000" for xs :: "'c list"
    using u [OF that] that by (simp add: word_less_nat_alt MaxSpanBatchElementCount_def)
  have bits: "decodeSpanBatchBits (of_nat (length xs)) (FillBytes (buf_len (of_nat (length xs))) (flags (map f xs)) @ r) = Inr (flags (map f xs), r)"
    if "length xs \<le> 10000000" for f r and xs :: "('a, 'b) TxData list"
    using flags_less [of "map f xs"] u [OF that] by (intro bits.dec_enc) simp
  have sigs: "read_n (length ds) decode_sig (concat (map (encode_sig \<circ> tx_sig) ds) @ r) = Inr (map (\<lambda>d. (tx_sig d)\<lparr>sigV := 0\<rparr>) ds, r)" for r
    using sigs.dec_enc by (intro read_n_map) (simp add: encode_sig_def decode_sig_def read_full_def be_word_be_bytes)
  have tos: "read_n (length (tx_tos ds)) decode_to (concat (map (be_bytes 20) (tx_tos ds)) @ r) = Inr (tx_tos ds, r)" for r
    using read_n_map [of "tx_tos ds" decode_to "be_bytes 20" "\<lambda>a. a"] tos.dec_enc by simp
  have datas: "read_n (length ds) (ReadTxData env) (concat (map (tx_data env) ds) @ r) = Inr (map (\<lambda>d. (tx_data env d, tx_type d)) ds, r)" for r
  proof (rule read_n_map)
    fix d rest assume "d \<in> set ds"
    then obtain b where "tx_ok env c (b, d)" using assms(1) by (force simp: ds_def list_all_iff)
    then show "ReadTxData env (tx_data env d @ rest) = Inr ((tx_data env d, tx_type d), rest)" using tx_data_ok [OF _ assms(2)] by metis
  qed
  have ints: "read_n (length ds) ReadUvarint (concat (map (PutUvarint \<circ> f) ds) @ r) = Inr (map f ds, r)" for f r
    using uvarint.dec_enc by (intro read_n_map) simp
  have cc: "unat (of_nat (length ds) - contractCreationCount (no_txs\<lparr>totalBlockTxCount := of_nat (length ds), contractCreationBits := flags (map (\<lambda>d. To d = None) ds)\<rparr>)) =
    length (tx_tos ds)"
  proof -
    let ?k = "length (filter id (map (\<lambda>d. To d = None) ds))"
    have "contractCreationCount (no_txs\<lparr>totalBlockTxCount := of_nat (length ds), contractCreationBits := flags (map (\<lambda>d. To d = None) ds)\<rparr>) = of_nat ?k"
      using count_flags [of "map (\<lambda>d. To d = None) ds"] u [OF len] by (simp add: contractCreationCount_def)
    moreover have "of_nat (length ds) - of_nat ?k = (of_nat (length (tx_tos ds)) :: uint64)" 
      unfolding tx_tos_length [of ds, symmetric] of_nat_add by (rule add_diff_cancel_right')
    moreover have "length (tx_tos ds) \<le> 10000000" using tx_tos_length [of ds] len by linarith
    ultimately show ?thesis using u [of "tx_tos ds"] by simp
  qed
  let ?tys = "map (\<lambda>d. (tx_data env d, tx_type d)) ds"
  have leg: "length (filter (\<lambda>d. snd d = LegacyTxType) ?tys) = length ?legacy" by (simp add: filter_map o_def)
  have total: "totalBlockTxCount (no_txs\<lparr>totalBlockTxCount := of_nat (length ds)\<rparr>) = of_nat (length ds)"
    "totalLegacyTxCount (no_txs\<lparr>totalBlockTxCount := of_nat (length ds)\<rparr>) = 0" by (simp_all add: no_txs_def)
  have "spanBatchTxs_decode env (no_txs\<lparr>totalBlockTxCount := of_nat (length ds)\<rparr>) (txs_bytes env ds @ rest) =
    Inr (no_txs\<lparr>totalBlockTxCount := of_nat (length ds), contractCreationBits := flags (map (\<lambda>d. To d = None) ds), yParityBits := flags (map (y_parity env) ds),
      txSigs := map (\<lambda>d. (tx_sig d)\<lparr>sigV := 0\<rparr>) ds, txTos := tx_tos ds, txDatas := map fst ?tys, txTypes := map snd ?tys,
      totalLegacyTxCount := of_nat (length ?legacy), txNonces := map tNonce ds, txGases := map tGas ds, protectedBits := flags (map (txProtected env) ?legacy)\<rparr>, rest)"
    unfolding spanBatchTxs_decode_def txs_bytes_def Let_def total append_assoc
    by (simp only: le [OF len] le [OF l] if_False bits [OF len] bits [OF l] rbind_simps prod.case u [OF len] sigs cc tos datas ints leg add_0)
  then show ?thesis by (simp add: txs_of_def no_txs_def Let_def o_def)
qed

lemma recover_of:
  assumes "list_all (tx_ok env c) ps" and "all = pre @ map snd ps"
  shows "recover_loop c (flags (map (y_parity env) all)) (flags (map (txProtected env) (filter (\<lambda>d. tx_type d = LegacyTxType) all))) (length pre)
      (length (filter (\<lambda>d. tx_type d = LegacyTxType) pre)) (map tx_type (map snd ps)) = Inr (map (sigV \<circ> tx_sig) (map snd ps))"
  using assms
proof (induction ps arbitrary: pre)
  case (Cons p ps)
  obtain b d where p: "p = (b, d)" by (cases p)
  let ?leg = "\<lambda>d. tx_type d = LegacyTxType"
  have ok: "tx_ok env c (b, d)" using Cons.prems(1) p by simp
  have all: "all = (pre @ [d]) @ map snd ps" using Cons.prems(2) p by simp
  have IH: "recover_loop c (flags (map (y_parity env) all)) (flags (map (txProtected env) (filter ?leg all))) (length (pre @ [d]))
      (length (filter ?leg (pre @ [d]))) (map tx_type (map snd ps)) = Inr (map (sigV \<circ> tx_sig) (map snd ps))"
    using Cons.prems(1) by (intro Cons.IH [OF _ all]) simp
  have par: "bit (flags (map (y_parity env) all)) (length pre) = y_parity env d" by (simp add: bit_flags all nth_append)
  have prot: "bit (flags (map (txProtected env) (filter ?leg all))) (length (filter ?leg pre)) = txProtected env d" if "?leg d"
    using that by (simp add: bit_flags all nth_append)
  have v: "sigV (tx_sig d) = word_of_int (sig_v d)" by (simp add: tx_sig_def sig_v_def split: prod.splits)
  have s: "sig_v d = (if ?leg d then (if txProtected env d then 2 * c + 35 + of_bool (y_parity env d) else 27 + of_bool (y_parity env d))
      else of_bool (y_parity env d))"
    using ok by (auto simp: tx_ok_def sig_v_def Let_def split: prod.splits)
  have t: "?leg d \<or> tx_type d = AccessListTxType \<or> tx_type d = DynamicFeeTxType \<or> tx_type d = SetCodeTxType"
    using ok by (cases d) (auto simp: tx_ok_def Let_def split: prod.splits)
  have w: "word_of_int c * 2 + 35 + y = (word_of_int (2 * c + 35) + y :: uint64)" for y by (simp add: mult.commute)
  show ?case
    using IH par prot t v s w by (cases "?leg d") (auto simp: p)
qed simp

lemma recoverV_of:
  assumes "list_all (tx_ok env c) ps"
  defines "ds \<equiv> map snd ps"
  shows "recoverV c ((txs_of env n ds)\<lparr>txSigs := map (\<lambda>d. (tx_sig d)\<lparr>sigV := 0\<rparr>) ds\<rparr>) = Inr (txs_of env n ds)"
proof -
  have "map2 (\<lambda>s v. s\<lparr>sigV := v\<rparr>) (map (\<lambda>d. (tx_sig d)\<lparr>sigV := 0\<rparr>) xs) (map (sigV \<circ> tx_sig) xs) = map tx_sig xs" for xs :: "('a, 'b) TxData list"
    by (induction xs) simp_all
  moreover have "recover_loop c (flags (map (y_parity env) ds)) (flags (map (txProtected env) (filter (\<lambda>d. tx_type d = LegacyTxType) ds))) 0 0 (map tx_type ds) =
      Inr (map (sigV \<circ> tx_sig) ds)"
    using recover_of [OF assms(1), of ds "[]"] by (simp add: ds_def)
  ultimately show ?thesis by (simp add: recoverV_def txs_of_def Let_def)
qed

lemma MustFromBig_uint [simp]: "MustFromBig (uint w) = Inr w"
  using uint_lt2p [of w] by (simp add: MustFromBig_def)

lemma full_tx_of:
  assumes "tx_ok env c (b, d)" and "rlp_ok env" and "all = pre @ d # post" and "0 \<le> c" and "2 * c + 36 < 2 ^ 64"
  shows "full_tx env c (txs_of env n all) (length pre) (Inr (To d)) = Inr b"
proof -
  obtain inner where i: "newSpanBatchTx d = Inr inner" "spanBatchTx_UnmarshalBinary env (tx_data env d) = Inr inner"
    using tx_data_ok [OF assms(1,2)] by metis
  obtain v r s where sg: "RawSignatureValues d = (v, r, s)" by (cases "RawSignatureValues d")
  define y :: int where "y = of_bool (y_parity env d)"
  have y: "0 \<le> y" "y \<le> 1" by (simp_all add: y_def)
  have ok: "txMarshal env d = Inr b" "right_chain c d" "0 \<le> r" "r < 2 ^ 256" "0 \<le> s" "s < 2 ^ 256"
    "v = (if tx_type d = LegacyTxType then (if txProtected env d then 2 * c + 35 + y else 27 + y) else y)"
    using assms(1) sg by (auto simp: tx_ok_def Let_def y_def)
  have "0 \<le> v" "v < 2 ^ 64" using ok(7) y assms(4,5) by (auto split: if_splits)
  then have u: "uint (word_of_int v :: uint64) = v" "uint (word_of_int r :: 256 word) = r" "uint (word_of_int s :: 256 word) = s"
    using ok(3-6) by (simp_all add: uint_word_of_int)
  have "convertToFullTx (tNonce d) (tGas d) (To d) c v r s inner = Inr d"
    using i(1) ok(2) sg \<open>0 \<le> v\<close> \<open>v < 2 ^ 64\<close>
    by (cases d) (auto simp: RawSignatureValues_def is_set_code_def To_def)
  then show ?thesis
    using i(2) ok(1) sg u
    by (simp add: full_tx_def get_at_def txs_of_def Let_def assms(3) nth_append tx_sig_def)
qed

lemma full_of:
  assumes "list_all (tx_ok env c) ps" and "all = pre @ map snd ps" and "rlp_ok env" and "0 \<le> c" and "2 * c + 36 < 2 ^ 64"
  shows "full_loop env c (txs_of env n all) (length (tx_tos pre)) (length pre) (length ps) = Inr (map fst ps)"
  using assms(1,2)
proof (induction ps arbitrary: pre)
  case (Cons p ps)
  obtain b d where p: "p = (b, d)" by (cases p)
  have all: "all = (pre @ [d]) @ map snd ps" "all = pre @ d # map snd ps" using Cons.prems(2) p by simp_all
  have IH: "full_loop env c (txs_of env n all) (length (tx_tos (pre @ [d]))) (length (pre @ [d])) (length ps) = Inr (map fst ps)"
    using Cons.prems(1) by (intro Cons.IH [OF _ all(1)]) simp
  have tx: "full_tx env c (txs_of env n all) (length pre) (Inr (To d)) = Inr b"
    using Cons.prems(1) p by (intro full_tx_of [OF _ assms(3) all(2) assms(4,5)]) simp
  have bit: "bit (contractCreationBits (txs_of env n all)) (length pre) = (To d = None)"
    by (simp add: txs_of_def Let_def bit_flags all(2) nth_append)
  show ?case
  proof (cases "To d")
    case None
    then show ?thesis using IH tx bit by (simp add: p tx_tos_def)
  next
    case (Some a)
    have "txTos (txs_of env n all) = tx_tos pre @ a # tx_tos (map snd ps)" using Some by (simp add: txs_of_def Let_def all(2) tx_tos_def)
    then show ?thesis using IH tx bit Some by (simp add: p tx_tos_def nth_append)
  qed
qed simp

lemma fullTxs_of:
  assumes "list_all (tx_ok env c) ps" and "rlp_ok env" and "0 \<le> c" and "2 * c + 36 < 2 ^ 64" and "length ps \<le> 10000000"
  shows "fullTxs env c (txs_of env (of_nat (length ps)) (map snd ps)) = Inr (map fst ps)"
proof -
  have "unat (of_nat (length ps) :: uint64) = length ps" using assms(5) by (intro unat_of_nat_lt) simp
  then show ?thesis using full_of [OF assms(1) _ assms(2-4), of "map snd ps" "[]" "of_nat (length ps)"] by (simp add: fullTxs_def txs_of_def Let_def tx_tos_def)
qed

section \<open>Spans round trip\<close>

text \<open>Appending batches one after the other, each with its sequence number.\<close>

fun append_all :: "('al, 'au) tx_env \<Rightarrow> SpanBatchBuilder \<Rightarrow> (SingularBatch \<times> uint64) list \<Rightarrow> derive_error + SpanBatchBuilder" where
  "append_all env b [] = Inr b"
| "append_all env b ((sb, seq) # qs) = rbind (AppendSingularBatch env sb seq b) (\<lambda>b. append_all env b qs)"

definition tx_pairs :: "('al, 'au) tx_env \<Rightarrow> bytes list \<Rightarrow> (bytes \<times> ('al, 'au) TxData) list" where
  "tx_pairs env txs = map (\<lambda>b. (b, case txUnmarshal env b of Inr d \<Rightarrow> d | Inl _ \<Rightarrow> OtherTx 0)) txs"

abbreviation elements :: "(SingularBatch \<times> uint64) list \<Rightarrow> SpanBatchElement list" where
  "elements qs \<equiv> map (singularBatchToElement \<circ> fst) qs"

definition epoch_flag :: "(SingularBatch \<times> uint64) list \<Rightarrow> nat \<Rightarrow> bool" where
  "epoch_flag qs i = (if i = 0 then snd (qs ! 0) = 0 else EpochNum (fst (qs ! (i - 1))) < EpochNum (fst (qs ! i)))"

definition span_of :: "('al, 'au) tx_env \<Rightarrow> uint64 \<Rightarrow> int \<Rightarrow> (SingularBatch \<times> uint64) list \<Rightarrow> SpanBatchBuilder" where
  "span_of env g c qs =
    (let txs = concat (map (Transactions \<circ> fst) qs) in
     \<lparr>ParentCheck = (if qs = [] then replicate 20 0 else take 20 (be_bytes 32 (ParentHash (fst (hd qs))))),
      L1OriginCheck = (if qs = [] then replicate 20 0 else take 20 (be_bytes 32 (EpochHash (fst (last qs))))),
      Batches = elements qs, GenesisTimestamp = g, ChainID = c, sbOriginBits = flags (map (epoch_flag qs) [0..<length qs]),
      sbBlockTxCounts = map (of_nat \<circ> length \<circ> Transactions \<circ> fst) qs,
      sbtxs = txs_of env (of_nat (length txs)) (map snd (tx_pairs env txs))\<rparr>)"

lemma tx_pairs_simps [simp]: "tx_pairs env [] = []" "map fst (tx_pairs env txs) = txs" "length (tx_pairs env txs) = length txs" "tx_pairs env (xs @ ys) = tx_pairs env xs @ tx_pairs env ys"
  by (simp_all add: tx_pairs_def o_def)

lemma epoch_flags_snoc:
  "map (epoch_flag (qs @ [q])) [0..<length (qs @ [q])] = map (epoch_flag qs) [0..<length qs] @ [epoch_flag (qs @ [q]) (length qs)]"
  by (auto simp: epoch_flag_def nth_append)

lemma append_of:
  assumes "list_all (tx_ok env c) (tx_pairs env (Transactions sb))" and "0 \<le> c" and "2 * c + 36 < 2 ^ 64"
    and "length (concat (map (Transactions \<circ> fst) qs)) + length (Transactions sb) < 2 ^ 64"
    and "qs \<noteq> [] \<Longrightarrow> Timestamp (fst (last qs)) \<le> Timestamp sb"
  shows "AppendSingularBatch env sb seq (span_of env g c qs) = Inr (span_of env g c (qs @ [(sb, seq)]))"
proof -
  let ?txs = "concat (map (Transactions \<circ> fst) qs)"
  have add: "AddTxs env c (Transactions sb) (txs_of env (of_nat (length ?txs)) (map snd (tx_pairs env ?txs))) =
      Inr (txs_of env (of_nat (length (?txs @ Transactions sb))) (map snd (tx_pairs env (?txs @ Transactions sb))))"
    using AddTxs_of [OF assms(1-3), of "map snd (tx_pairs env ?txs)"] assms(4) by simp
  let ?bit = "epoch_flag (qs @ [(sb, seq)]) (length qs)"
  have bit: "(if Batches (span_of env g c qs) = [] then (if seq = 0 then 1 else 0)
      else if seEpochNum (last (Batches (span_of env g c qs))) < seEpochNum (singularBatchToElement sb) then 1 else 0) = (of_bool ?bit :: uint64)"
    by (cases qs rule: rev_cases) (auto simp: span_of_def Let_def epoch_flag_def singularBatchToElement_def nth_append)
  have set: "SetBit (flags (map (epoch_flag qs) [0..<length qs])) (length qs) (of_bool ?bit) = Inr (flags (map (epoch_flag (qs @ [(sb, seq)])) [0..<length (qs @ [(sb, seq)])]))"
    unfolding epoch_flags_snoc using SetBit_flags [of "map (epoch_flag qs) [0..<length qs]" ?bit] by simp
  have ord: "\<not> (Batches (span_of env g c qs) \<noteq> [] \<and> Timestamp sb < seTimestamp (last (Batches (span_of env g c qs))))"
    using assms(5) by (cases qs rule: rev_cases) (auto simp: span_of_def Let_def singularBatchToElement_def not_less)
  have f: "sbOriginBits (span_of env g c qs) = flags (map (epoch_flag qs) [0..<length qs])" "length (Batches (span_of env g c qs)) = length qs"
    "ChainID (span_of env g c qs) = c" "sbtxs (span_of env g c qs) = txs_of env (of_nat (length ?txs)) (map snd (tx_pairs env ?txs))"
    by (simp_all add: span_of_def Let_def)
  have "seTransactions (singularBatchToElement sb) = Transactions sb" by (simp add: singularBatchToElement_def)
  then show ?thesis
    using set add unfolding AppendSingularBatch_def Let_def bit
    by (simp add: ord [simplified] f set [simplified] add) (auto simp: span_of_def Let_def hd_append o_def singularBatchToElement_def)
qed


lemma append_all_of:
  assumes "list_all (\<lambda>q. list_all (tx_ok env c) (tx_pairs env (Transactions (fst q)))) (pre @ qs)" and "0 \<le> c" and "2 * c + 36 < 2 ^ 64"
    and "length (concat (map (Transactions \<circ> fst) (pre @ qs))) < 2 ^ 64" and "sorted_wrt (\<lambda>p q. Timestamp (fst p) \<le> Timestamp (fst q)) (pre @ qs)"
  shows "append_all env (span_of env g c pre) qs = Inr (span_of env g c (pre @ qs))"
  using assms
proof (induction qs arbitrary: pre)
  case (Cons q qs)
  obtain sb seq where q: "q = (sb, seq)" by (cases q)
  have "AppendSingularBatch env sb seq (span_of env g c pre) = Inr (span_of env g c (pre @ [(sb, seq)]))"
  proof (rule append_of)
    show "Timestamp (fst (last pre)) \<le> Timestamp sb" if "pre \<noteq> []"
      using Cons.prems(5) that by (auto simp: q sorted_wrt_append)
  qed (use Cons.prems in \<open>auto simp: q o_def\<close>)
  moreover have "append_all env (span_of env g c (pre @ [q])) qs = Inr (span_of env g c ((pre @ [q]) @ qs))"
    using Cons.prems by (intro Cons.IH) auto
  ultimately show ?case by (simp add: q)
qed simp

text \<open>Reading the origins back, from the last block to the first.\<close>

lemma origin_nums_back:
  assumes "\<And>i. 0 < i \<Longrightarrow> i < length eps \<Longrightarrow> bit bits i \<longleftrightarrow> eps ! (i - 1) < eps ! i"
    and "\<And>i. 0 < i \<Longrightarrow> i < length eps \<Longrightarrow> eps ! i = eps ! (i - 1) \<or> unat (eps ! i) = unat (eps ! (i - 1)) + 1"
  shows "k \<le> length eps \<Longrightarrow> (0 < k \<Longrightarrow> num = eps ! (k - 1)) \<Longrightarrow> origin_nums bits k num (drop k eps) = eps"
proof (induction k arbitrary: num)
  case (Suc i)
  have num: "num = eps ! i" and i: "i < length eps" using Suc.prems by simp_all
  have d: "num # drop (Suc i) eps = drop i eps" using num i by (simp add: Cons_nth_drop_Suc)
  have "(if bit bits i \<and> 0 < i then num - 1 else num) = eps ! (i - 1)" if pos: "0 < i"
  proof (cases "bit bits i")
    case True
    then have "unat (eps ! i) = unat (eps ! (i - 1)) + 1" using assms(1,2) [OF pos i] by (auto simp: word_less_nat_alt)
    then have "eps ! i = eps ! (i - 1) + 1"
      using unsigned_less [where 'a = nat, of "eps ! i"] by (simp add: word_eq_iff_unsigned [where 'a = nat] unat_word_ariths)
    then show ?thesis using True pos num by simp
  next
    case False
    then have "\<not> unat (eps ! (i - 1)) < unat (eps ! i)" using assms(1) [OF pos i] by (simp add: word_less_nat_alt)
    then show ?thesis using assms(2) [OF pos i] False num by auto
  qed
  then have "origin_nums bits i (if bit bits i \<and> 0 < i then num - 1 else num) (drop i eps) = eps" using i by (intro Suc.IH) simp_all
  then show ?case unfolding origin_nums.simps d .
qed simp

lemma block_elements_back:
  assumes "\<And>j. j < length es \<Longrightarrow> seTimestamp (es ! j) = t0 + bt * of_nat (i + j)" and "list_all (\<lambda>e. length (seTransactions e) < 2 ^ 64) es"
  shows "block_elements t0 bt (pre @ concat (map seTransactions es)) i (length pre) (map seEpochNum es) (map (of_nat \<circ> length \<circ> seTransactions) es) = Inr es"
  using assms
proof (induction es arbitrary: i pre)
  case (Cons e es)
  have u: "unat (of_nat (length (seTransactions e)) :: uint64) = length (seTransactions e)" using Cons.prems(2) by (intro unat_of_nat_lt) simp
  have "block_elements t0 bt ((pre @ seTransactions e) @ concat (map seTransactions es)) (i + 1) (length (pre @ seTransactions e)) (map seEpochNum es)
      (map (of_nat \<circ> length \<circ> seTransactions) es) = Inr es"
    using Cons.prems(1) [of "Suc j" for j] Cons.prems(2) by (intro Cons.IH) simp_all
  moreover have "seTimestamp e = t0 + bt * of_nat i" using Cons.prems(1) [of 0] by simp
  ultimately show ?case using u by (simp add: o_def)
qed simp

lemma sum_counts_of:
  "unat acc + sum_list ns < 2 ^ 64 \<Longrightarrow> sum_counts acc (map of_nat ns) = Inr (acc + of_nat (sum_list ns))"
proof (induction ns arbitrary: acc)
  case (Cons n ns)
  have n: "unat (of_nat n :: uint64) = n" using Cons.prems by (intro unat_of_nat_lt) simp
  then have a: "unat (acc + of_nat n) = unat acc + n" using Cons.prems by (simp add: unat_word_ariths)
  then have "\<not> acc + of_nat n < acc" by (simp add: word_less_nat_alt)
  then show ?case using Cons.IH [of "acc + of_nat n"] Cons.prems a by (simp add: add.assoc)
qed simp

lemma regular_nth:
  assumes "regular cfg (seTimestamp e) (seEpochNum e) es" and "i < length es"
  shows "seTimestamp ((e # es) ! Suc i) = seTimestamp ((e # es) ! i) + BlockTime cfg" and "seTimestamp ((e # es) ! i) < seTimestamp ((e # es) ! Suc i)"
    and "seEpochNum ((e # es) ! Suc i) = seEpochNum ((e # es) ! i) \<or> unat (seEpochNum ((e # es) ! Suc i)) = unat (seEpochNum ((e # es) ! i)) + 1"
  using assms
proof (induction es arbitrary: e i)
  case (Cons x es)
  { case 1 then show ?case using Cons(1) [of x "i - 1"] by (cases i) auto }
  { case 2 then show ?case using Cons(2) [of x "i - 1"] by (cases i) auto }
  { case 3 then show ?case using Cons(3) [of x "i - 1"] by (cases i) auto }
qed simp_all

lemma regular_times:
  assumes "regular cfg (seTimestamp e) (seEpochNum e) es" and "j < length (e # es)"
  shows "seTimestamp ((e # es) ! j) = seTimestamp e + BlockTime cfg * of_nat j"
  using assms(2)
proof (induction j)
  case (Suc j)
  then show ?case using regular_nth(1) [OF assms(1), of j] by (simp add: algebra_simps)
qed simp

lemma regular_sorted: "regular cfg (seTimestamp e) (seEpochNum e) es \<Longrightarrow> sorted_wrt (\<lambda>a b. seTimestamp a \<le> seTimestamp b) (e # es)"
proof (induction es arbitrary: e)
  case (Cons x es)
  have "list_all (\<lambda>a. seTimestamp e \<le> seTimestamp a) (x # es)" using regular_bounds [OF Cons.prems] by (auto simp: list_all_iff less_imp_le)
  then show ?case using Cons.IH [of x] Cons.prems by (auto simp: list_all_iff)
qed simp

text \<open>The raw span that is written and, but for the signatures' \<open>v\<close>, read back.\<close>

lemma raw_decode:
  assumes "list_all (tx_ok env c) ps" and "rlp_ok env" and "length ps \<le> 10000000"
    and "raw = \<lparr>relTimestamp = rel, l1OriginNum = num, parentCheck = par, l1OriginCheck = orig, blockCount = of_nat (length bs), originBits = flags bs,
      blockTxCounts = map of_nat ns, rawTxs = txs_of env (of_nat (length ps)) (map snd ps)\<rparr>"
    and "length par = 20" and "length orig = 20" and "bs \<noteq> []" and "length bs \<le> 10000000" and "length ns = length bs" and "sum_list ns = length ps"
  shows "\<exists>e. RawSpanBatch_encode raw = Inr e \<and>
    RawSpanBatch_decode env (e @ rest) = Inr (raw\<lparr>rawTxs := (rawTxs raw)\<lparr>txSigs := map (\<lambda>d. (tx_sig d)\<lparr>sigV := 0\<rparr>) (map snd ps)\<rparr>\<rparr>, rest)"
proof -
  have u: "unat (of_nat (length bs) :: uint64) = length bs" using assms(8) by (intro unat_of_nat_lt) simp
  have le: "\<not> MaxSpanBatchElementCount < of_nat n" if "n \<le> 10000000" for n
    using that unat_of_nat_lt [where 'a = 64, of n] by (simp add: word_less_nat_alt MaxSpanBatchElementCount_def)
  have ne: "(of_nat (length bs) :: uint64) \<noteq> 0" using u assms(7) by (metis length_0_conv unat_0)
  have fl: "flags bs < 2 ^ unat (of_nat (length bs) :: uint64)" using flags_less [of bs] u by simp
  have small: "n \<le> 10000000" if "n \<in> set ns" for n using member_le_sum_list [OF that] assms(3,10) by linarith
  have counts: "read_n (length bs) decode_tx_count (concat (map PutUvarint (map of_nat ns)) @ r) = Inr (map of_nat ns, r)" for r
    using read_n_map [of ns decode_tx_count "PutUvarint \<circ> of_nat" of_nat r] small le assms(9)
    by (simp add: decode_tx_count_def uvarint.dec_enc)
  have sum: "sum_counts 0 (map of_nat ns) = Inr (of_nat (length ps))" using sum_counts_of [of 0 ns] assms(3,10) by simp
  have nsne: "map of_nat ns \<noteq> ([] :: uint64 list)" using assms(7,9) by auto
  have full: "read_full 20 (p @ r) = Inr (p, r)" if "length p = 20" for p r using that by (simp add: read_full_def)
  note tx = txs_decode [OF assms(1-3), unfolded length_map] txs_encode [of "map snd ps" env, unfolded length_map, OF assms(3)]
  let ?e = "PutUvarint rel @ PutUvarint num @ par @ orig @ PutUvarint (of_nat (length bs)) @ FillBytes (buf_len (of_nat (length bs))) (flags bs) @
    concat (map PutUvarint (map of_nat ns)) @ txs_bytes env (map snd ps)"
  have "RawSpanBatch_encode raw = Inr ?e" using bits_encode [OF fl] tx(2) by (simp add: RawSpanBatch_encode_def assms(4))
  moreover have "RawSpanBatch_decode env (?e @ rest) = Inr (raw\<lparr>rawTxs := (rawTxs raw)\<lparr>txSigs := map (\<lambda>d. (tx_sig d)\<lparr>sigV := 0\<rparr>) (map snd ps)\<rparr>\<rparr>, rest)"
    unfolding RawSpanBatch_decode_def decodePrefix_def decodeBlockCount_def decodeTxs_def append_assoc
    by (simp only: uvarint.dec_enc rbind_simps prod.case full [OF assms(5)] full [OF assms(6)] le [OF assms(8)] ne if_False u bits.dec_enc [OF fl] counts sum nsne
        le [OF assms(3)] tx(1)) (simp add: assms(4))
  ultimately show ?thesis by blast
qed

lemma new_span: "NewSpanBatch g c = span_of env g c []"
  by (simp add: NewSpanBatch_def span_of_def txs_of_def no_txs_def tx_tos_def)

text \<open>Deriving what was read back gives the elements.\<close>

lemma raw_derive:
  assumes "list_all (tx_ok env c) (tx_pairs env txs)" and "rlp_ok env" and "0 \<le> c" and "2 * c + 36 < 2 ^ 64" and "length txs \<le> 10000000"
    and "txs = concat (map seTransactions es)" and "es = e0 # es'" and "regular cfg (seTimestamp e0) (seEpochNum e0) es'" and "length es \<le> 10000000"
    and "\<And>i. 0 < i \<Longrightarrow> i < length es \<Longrightarrow> bit bits i \<longleftrightarrow> seEpochNum (es ! (i - 1)) < seEpochNum (es ! i)"
  shows "RawSpanBatch_derive env (BlockTime cfg) g c \<lparr>relTimestamp = seTimestamp e0 - g, l1OriginNum = seEpochNum (last es), parentCheck = par, l1OriginCheck = orig,
      blockCount = of_nat (length es), originBits = bits, blockTxCounts = map (of_nat \<circ> length \<circ> seTransactions) es,
      rawTxs = (txs_of env (of_nat (length txs)) (map snd (tx_pairs env txs)))\<lparr>txSigs := map (\<lambda>d. (tx_sig d)\<lparr>sigV := 0\<rparr>) (map snd (tx_pairs env txs))\<rparr>\<rparr> =
    Inr \<lparr>ParentCheck = par, L1OriginCheck = orig, Batches = es\<rparr>"
proof -
  have u: "unat (of_nat (length es) :: uint64) = length es" using assms(9) by (intro unat_of_nat_lt) simp
  have ne: "(of_nat (length es) :: uint64) \<noteq> 0" using u assms(7) by (metis length_0_conv list.distinct(1) unat_0)
  have nums: "origin_nums bits (length es) (seEpochNum (last es)) [] = map seEpochNum es"
  proof -
    have "origin_nums bits (length es) (seEpochNum (last es)) (drop (length es) (map seEpochNum es)) = map seEpochNum es"
    proof (rule origin_nums_back)
      fix i assume "0 < i" "i < length (map seEpochNum es)"
      then show "bit bits i \<longleftrightarrow> map seEpochNum es ! (i - 1) < map seEpochNum es ! i" using assms(10) by simp
    next
      fix i assume i: "0 < i" "i < length (map seEpochNum es)"
      then obtain k where k: "i = Suc k" "k < length es'" using assms(7) by (cases i) auto
      have "map seEpochNum es ! i = seEpochNum (es ! i)" "map seEpochNum es ! (i - 1) = seEpochNum (es ! (i - 1))" using i by simp_all
      then show "map seEpochNum es ! i = map seEpochNum es ! (i - 1) \<or> unat (map seEpochNum es ! i) = unat (map seEpochNum es ! (i - 1)) + 1"
        using regular_nth(3) [OF assms(8) k(2)] k(1) assms(7) by simp
    qed (use assms(7) in \<open>simp_all add: last_conv_nth\<close>)
    then show ?thesis by simp
  qed
  have "length (seTransactions e) \<le> length txs" if "e \<in> set es" for e
    using that unfolding assms(6) by (simp add: length_concat o_def member_le_sum_list)
  then have small: "list_all (\<lambda>e. length (seTransactions e) < 2 ^ 64) es" using assms(5) by (fastforce simp: list_all_iff)
  have el: "block_elements (g + (seTimestamp e0 - g)) (BlockTime cfg) txs 0 0 (map seEpochNum es) (map (of_nat \<circ> length \<circ> seTransactions) es) = Inr es"
    using block_elements_back [of es "seTimestamp e0" "BlockTime cfg" 0 "[]"] regular_times [OF assms(8)] small assms(6,7) by simp
  have len: "length (tx_pairs env txs) \<le> 10000000" using assms(5) by simp
  show ?thesis
    using recoverV_of [OF assms(1), of "of_nat (length txs)"] fullTxs_of [OF assms(1-4) len] nums el u ne by (simp add: RawSpanBatch_derive_def)
qed

lemma span_wire:
  assumes "rlp_ok env" and "0 \<le> c" and "2 * c + 36 < 2 ^ 64"
    and "elements qs = e0 # es" and "regular cfg (seTimestamp e0) (seEpochNum e0) es"
    and "length qs \<le> 10000000" and "length (concat (map (Transactions \<circ> fst) qs)) \<le> 10000000"
    and "list_all (\<lambda>q. list_all (tx_ok env c) (tx_pairs env (Transactions (fst q)))) qs"
  shows "\<exists>b raw e raw' span. append_all env (NewSpanBatch g c) qs = Inr b \<and> ToRawSpanBatch b = Inr raw \<and> RawSpanBatch_encode raw = Inr e \<and>
    RawSpanBatch_decode env (e @ rest) = Inr (raw', rest) \<and> RawSpanBatch_derive env (BlockTime cfg) g c raw' = Inr span \<and>
    Batches span = elements qs \<and> CheckParentHash span (ParentHash (fst (hd qs))) \<and> CheckOriginHash span (EpochHash (fst (last qs)))"
proof -
  let ?txs = "concat (map (Transactions \<circ> fst) qs)"
  have ne: "qs \<noteq> []" using assms(4) by auto
  have sorted: "sorted_wrt (\<lambda>p q. Timestamp (fst p) \<le> Timestamp (fst q)) qs"
    using regular_sorted [OF assms(5)] unfolding assms(4) [symmetric] by (simp add: sorted_wrt_map singularBatchToElement_def)
  have b: "append_all env (NewSpanBatch g c) qs = Inr (span_of env g c qs)"
    using append_all_of [of env c "[]" qs g] assms(2,3,7,8) sorted by (simp add: new_span [of g c env])
  have txs: "list_all (tx_ok env c) (tx_pairs env ?txs)" using assms(8) by (induction qs) simp_all
  have et: "?txs = concat (map seTransactions (elements qs))" by (simp add: singularBatchToElement_def o_def)
  let ?par = "take 20 (be_bytes 32 (ParentHash (fst (hd qs))))" and ?orig = "take 20 (be_bytes 32 (EpochHash (fst (last qs))))"
  let ?bits = "map (epoch_flag qs) [0..<length qs]" and ?ns = "map (length \<circ> Transactions \<circ> fst) qs"
  define raw where "raw = \<lparr>relTimestamp = seTimestamp e0 - g, l1OriginNum = seEpochNum (last (elements qs)), parentCheck = ?par, l1OriginCheck = ?orig,
    blockCount = of_nat (length ?bits), originBits = flags ?bits, blockTxCounts = map of_nat ?ns,
    rawTxs = txs_of env (of_nat (length (tx_pairs env ?txs))) (map snd (tx_pairs env ?txs))\<rparr>"
  have lq: "length qs = Suc (length es)" using arg_cong [OF assms(4), of length] unfolding length_map by simp
  have r: "ToRawSpanBatch (span_of env g c qs) = Inr raw"
    using ne assms(4) lq by (simp add: ToRawSpanBatch_def span_of_def raw_def Let_def last_conv_nth o_def)
  have len: "length (tx_pairs env ?txs) \<le> 10000000" using assms(7) by simp
  obtain e where e: "RawSpanBatch_encode raw = Inr e"
    "RawSpanBatch_decode env (e @ rest) = Inr (raw\<lparr>rawTxs := (rawTxs raw)\<lparr>txSigs := map (\<lambda>d. (tx_sig d)\<lparr>sigV := 0\<rparr>) (map snd (tx_pairs env ?txs))\<rparr>\<rparr>, rest)"
    using raw_decode [OF txs assms(1) len raw_def, of rest] ne assms(6) by (auto simp: length_concat o_def)
  have d: "RawSpanBatch_derive env (BlockTime cfg) g c (raw\<lparr>rawTxs := (rawTxs raw)\<lparr>txSigs := map (\<lambda>d. (tx_sig d)\<lparr>sigV := 0\<rparr>) (map snd (tx_pairs env ?txs))\<rparr>\<rparr>) =
    Inr \<lparr>ParentCheck = ?par, L1OriginCheck = ?orig, Batches = elements qs\<rparr>"
  proof -
    have bits: "bit (flags ?bits) i \<longleftrightarrow> seEpochNum (elements qs ! (i - 1)) < seEpochNum (elements qs ! i)" if "0 < i" "i < length (elements qs)" for i
      using that by (simp add: bit_flags epoch_flag_def singularBatchToElement_def)
    have counts: "map of_nat ?ns = map (of_nat \<circ> length \<circ> seTransactions) (elements qs)" by (simp add: singularBatchToElement_def)
    show ?thesis
      unfolding raw_def counts using raw_derive [OF txs assms(1-3,7) et assms(4,5) _ bits, of g ?par ?orig] assms(6) by simp
  qed
  show ?thesis using b r e d by (intro exI conjI) (auto simp: CheckParentHash_def CheckOriginHash_def)
qed

text \<open>C24: What the batcher writes the derivation reads: a sequence of singular batches that continue each other (timestamps one block time apart, epochs
  advancing by at most one), with transactions that a span can carry, is appended to a span without a panic, and the bytes of the span decode, with any bytes
  after them left over, and derive to a span with exactly these blocks, whose checks match the parent hash of the first and the origin hash of the last batch.\<close>

theorem span_round_trip:
  assumes "rlp_ok env" and "0 \<le> c" and "2 * c + 36 < 2 ^ 64"
    and "elements qs = e0 # es" and "regular cfg (seTimestamp e0) (seEpochNum e0) es"
    and "length qs \<le> 10000000" and "length (concat (map (Transactions \<circ> fst) qs)) \<le> 10000000"
    and "list_all (\<lambda>q. list_all (tx_ok env c) (tx_pairs env (Transactions (fst q)))) qs"
  shows "\<exists>b raw e raw' span. append_all env (NewSpanBatch g c) qs = Inr b \<and> ToRawSpanBatch b = Inr raw \<and> RawSpanBatch_encode raw = Inr e \<and>
    RawSpanBatch_decode env (e @ rest) = Inr (raw', rest) \<and> RawSpanBatch_derive env (BlockTime cfg) g c raw' = Inr span \<and>
    Batches span = elements qs \<and> CheckParentHash span (ParentHash (fst (hd qs))) \<and> CheckOriginHash span (EpochHash (fst (last qs)))"
  using assms by (rule span_wire)

section \<open>A concrete span on the wire\<close>

definition sample_tx :: "(unit, unit) TxData" where "sample_tx = LegacyTx 1 7 21000 (Some 5) 9 [] 28 3 4"

text \<open>A codec of one transaction.\<close>

definition sample_tx_env :: "(unit, unit) tx_env" where
  "sample_tx_env = \<lparr>txUnmarshal = \<lambda>b. if b = [0xF0] then Inr sample_tx else Inl (PlainError ''tx''),
    txMarshal = \<lambda>d. if d = sample_tx then Inr [0xF0] else Inl (PlainError ''tx''), txProtected = \<lambda>_. False, txChainId = \<lambda>_. 0,
    rlpEncode = \<lambda>i. if i = spanBatchLegacyTxData 9 7 [] then Inr [0xC1, 9] else Inl (PlainError ''rlp''),
    rlpDecode = \<lambda>t e. if t = LegacyTxType \<and> e = [0xC1, 9] then Inr (spanBatchLegacyTxData 9 7 []) else Inl (PlainError ''rlp''),
    rlpList = \<lambda>_ r. if take 2 r = [0xC1, 9] then Inr ([0xC1, 9], drop 2 r) else Inl (PlainError ''rlp'')\<rparr>"

definition sample_batches :: "(SingularBatch \<times> uint64) list" where
  "sample_batches = [(\<lparr>ParentHash = 1, EpochNum = 6, EpochHash = 106, Timestamp = 62, Transactions = [[0xF0]]\<rparr>, 5),
    (\<lparr>ParentHash = 0, EpochNum = 7, EpochHash = 107, Timestamp = 64, Transactions = [[0xF0], [0xF0]]\<rparr>, 0)]"

lemma sample_rlp_ok: "rlp_ok sample_tx_env"
  by (auto simp: rlp_ok_def sample_tx_env_def split: if_splits)

lemma sample_tx_ok: "tx_ok sample_tx_env 248 ([0xF0], sample_tx)"
  by (simp add: tx_ok_def sample_tx_env_def sample_tx_def RawSignatureValues_def is_set_code_def y_parity_def sig_v_def MaxSpanBatchElementCount_def)

lemma sample_batches_ok:
  "elements sample_batches = \<lparr>seEpochNum = 6, seTimestamp = 62, seTransactions = [[0xF0]]\<rparr> # [\<lparr>seEpochNum = 7, seTimestamp = 64, seTransactions = [[0xF0], [0xF0]]\<rparr>]"
  "regular (sample_config 12 14) 62 6 [\<lparr>seEpochNum = 7, seTimestamp = 64, seTransactions = [[0xF0], [0xF0]]\<rparr>]"
  "length sample_batches \<le> 10000000" "length (concat (map (Transactions \<circ> fst) sample_batches)) \<le> 10000000"
  "list_all (\<lambda>q. list_all (tx_ok sample_tx_env 248) (tx_pairs sample_tx_env (Transactions (fst q)))) sample_batches"
proof -
  have "tx_pairs sample_tx_env [[0xF0]] = [([0xF0], sample_tx)]" "tx_pairs sample_tx_env [[0xF0], [0xF0]] = [([0xF0], sample_tx), ([0xF0], sample_tx)]"
    by (simp_all add: tx_pairs_def sample_tx_env_def)
  then show "list_all (\<lambda>q. list_all (tx_ok sample_tx_env 248) (tx_pairs sample_tx_env (Transactions (fst q)))) sample_batches"
    using sample_tx_ok by (simp add: sample_batches_def)
qed (simp_all add: sample_batches_def singularBatchToElement_def sample_config_def)

lemma span_round_trip_witness:
  "\<exists>b raw e raw' span. append_all sample_tx_env (NewSpanBatch 10 248) sample_batches = Inr b \<and> ToRawSpanBatch b = Inr raw \<and> RawSpanBatch_encode raw = Inr e \<and>
    RawSpanBatch_decode sample_tx_env (e @ [1, 2]) = Inr (raw', [1, 2]) \<and> RawSpanBatch_derive sample_tx_env 2 10 248 raw' = Inr span \<and>
    Batches span = elements sample_batches"
proof -
  have "BlockTime (sample_config 12 14) = 2" by (simp add: sample_config_def)
  then show ?thesis
    using span_round_trip [OF sample_rlp_ok _ _ sample_batches_ok(1) _ sample_batches_ok(3-5), of "sample_config 12 14" 10 "[1, 2]"] sample_batches_ok(2) by auto
qed

end
