(* ===== verification/ChannelIn.thy ===== *)
theory ChannelIn
  imports SpanRoundTrip
begin

text \<open>
  From channels to batches (\<^verbatim>\<open>op-node/rollup/derive/{channel_in_reader,batch}.go\<close> and the batch reader of \<^verbatim>\<open>channel.go\<close>): decompression, the typed encoding of batches
  and the stage that feeds the batch stages. The decompressors and the RLP stream are given by a record of their functions, \<open>reader_env\<close>.
\<close>

section \<open>Typed batches\<close>

datatype BatchData = SingularData SingularBatch | SpanData RawSpanBatch

definition SingularBatchType :: byte where "SingularBatchType = 0"
definition SpanBatchType :: byte where "SpanBatchType = 1"

text \<open>\<open>'s\<close> is the state of an RLP stream on top of a decompressor: \<open>streamBytes\<close> reads the next byte string. The singular batch is a plain RLP struct.\<close>

record 's reader_env =
  zlibOpen :: "bytes \<Rightarrow> uint64 \<Rightarrow> derive_error + 's"
  brotliOpen :: "bytes \<Rightarrow> uint64 \<Rightarrow> 's"
  streamBytes :: "'s \<Rightarrow> (derive_error + bytes) \<times> 's"
  singularEncode :: "SingularBatch \<Rightarrow> derive_error + bytes"
  singularDecode :: "bytes \<Rightarrow> derive_error + SingularBatch"

definition encodeTyped :: "'s reader_env \<Rightarrow> BatchData \<Rightarrow> derive_error + bytes" where
  "encodeTyped renv b =
    (case b of
       SingularData sb \<Rightarrow> rbind (singularEncode renv sb) (\<lambda>e. Inr (SingularBatchType # e))
     | SpanData raw \<Rightarrow> rbind (RawSpanBatch_encode raw) (\<lambda>e. Inr (SpanBatchType # e)))"

definition decodeTyped :: "('al, 'au) tx_env \<Rightarrow> 's reader_env \<Rightarrow> bytes \<Rightarrow> derive_error + BatchData" where
  "decodeTyped env renv data =
    (if length data = 0 then Inl (PlainError ''batch too short'')
     else if data ! 0 = SingularBatchType then rbind (singularDecode renv (drop 1 data)) (\<lambda>sb. Inr (SingularData sb))
     else if data ! 0 = SpanBatchType then rbind (RawSpanBatch_decode env (drop 1 data)) (\<lambda>(raw, _). Inr (SpanData raw))
     else Inl (PlainError ''unrecognized batch type''))"

definition DeriveSpanBatch :: "('al, 'au) tx_env \<Rightarrow> uint64 \<Rightarrow> uint64 \<Rightarrow> int \<Rightarrow> BatchData \<Rightarrow> derive_error + SpanBatch" where
  "DeriveSpanBatch env blockTime genesisTimestamp chainID b =
    (case b of
       SingularData _ \<Rightarrow> Inl (CriticalError ''failed type assertion to SpanBatch'')
     | SpanData raw \<Rightarrow> RawSpanBatch_derive env blockTime genesisTimestamp chainID raw)"

definition GetSingularBatch :: "BatchData \<Rightarrow> derive_error + SingularBatch" where
  "GetSingularBatch b = (case b of SingularData sb \<Rightarrow> Inr sb | SpanData _ \<Rightarrow> Inl (CriticalError ''failed type assertion to SingularBatch''))"

section \<open>Reading batches from a channel\<close>

definition ZlibCM8 :: byte where "ZlibCM8 = 8"
definition ZlibCM15 :: byte where "ZlibCM15 = 15"
definition ChannelVersionBrotli :: byte where "ChannelVersionBrotli = 1"

definition BatchReader :: "'s reader_env \<Rightarrow> bytes \<Rightarrow> uint64 \<Rightarrow> bool \<Rightarrow> derive_error + 's" where
  "BatchReader renv r maxRLPBytesPerChannel isFjord =
    (if r = [] then Inl IoEOF
     else
       let compressionType = r ! 0 in
       if compressionType AND 0x0F = ZlibCM8 \<or> compressionType AND 0x0F = ZlibCM15 then zlibOpen renv r maxRLPBytesPerChannel
       else if compressionType = ChannelVersionBrotli then
         (if \<not> isFjord then Inl (PlainError ''cannot accept brotli compressed batch before Fjord'')
          else Inr (brotliOpen renv (drop 1 r) maxRLPBytesPerChannel))
       else Inl (PlainError ''cannot distinguish the compression algo used''))"

text \<open>The function that the batch reader returns.\<close>

definition next_batch_data :: "('al, 'au) tx_env \<Rightarrow> 's reader_env \<Rightarrow> 's \<Rightarrow> (derive_error + BatchData) \<times> 's" where
  "next_batch_data env renv s = (let (r, s) = streamBytes renv s in (rbind r (decodeTyped env renv), s))"

section \<open>The stage\<close>

record 's ChannelInReader =
  nextBatchFn :: "'s option"

definition WriteChannel :: "'s reader_env \<Rightarrow> Config \<Rightarrow> uint64 \<Rightarrow> bytes \<Rightarrow> 's ChannelInReader \<Rightarrow> derive_error + 's ChannelInReader" where
  "WriteChannel renv cfg originTime data cr =
    rbind (BatchReader renv data (MaxRLPBytesPerChannel (NewChainSpec cfg) originTime) (IsFjord cfg originTime)) (\<lambda>f. Inr (cr\<lparr>nextBatchFn := Some f\<rparr>))"

definition NextChannel :: "'s ChannelInReader \<Rightarrow> 's ChannelInReader" where
  "NextChannel cr = cr\<lparr>nextBatchFn := None\<rparr>"

text \<open>The chain identifier of a configuration that lacks it, which \<^verbatim>\<open>Check\<close> refuses, is taken to be 0.\<close>

definition typed_batch :: "('al, 'au) tx_env \<Rightarrow> Config \<Rightarrow> uint64 \<Rightarrow> BatchData \<Rightarrow> derive_error + Batch" where
  "typed_batch env cfg originTime batchData =
    (case batchData of
       SingularData _ \<Rightarrow> rbind (GetSingularBatch batchData) (\<lambda>b. Inr (Singular b))
     | SpanData _ \<Rightarrow>
        if \<not> IsDelta cfg originTime then Inl (TemporaryError ''cannot accept span batch'')
        else
          rbind (DeriveSpanBatch env (BlockTime cfg) (gL2Time (cGenesis cfg)) (case L2ChainID cfg of Some c \<Rightarrow> c | None \<Rightarrow> 0) batchData) (\<lambda>b. Inr (Span b)))"

definition ChannelInReader_NextBatch :: "('al, 'au) tx_env \<Rightarrow> 's reader_env \<Rightarrow> Config \<Rightarrow> ('p \<Rightarrow> (derive_error + bytes) \<times> 'p) \<Rightarrow> ('p \<Rightarrow> L1BlockRef) \<Rightarrow>
    's ChannelInReader \<times> 'p \<Rightarrow> (derive_error + Batch) \<times> 's ChannelInReader \<times> 'p" where
  "ChannelInReader_NextBatch env renv cfg prevNext prevOrigin st =
    (let (cr, prev) = st in
     case (case nextBatchFn cr of
             Some _ \<Rightarrow> (Inr cr, prev)
           | None \<Rightarrow>
              (case prevNext prev of
                 (Inl e, prev) \<Rightarrow> (Inl e, prev)
               | (Inr data, prev) \<Rightarrow>
                  (case WriteChannel renv cfg (l1Time (prevOrigin prev)) data cr of
                     Inl _ \<Rightarrow> (Inl (TemporaryError ''error creating batch reader''), prev)
                   | Inr cr \<Rightarrow> (Inr cr, prev)))) of
       (Inl e, prev) \<Rightarrow> (Inl e, cr, prev)
     | (Inr cr, prev) \<Rightarrow>
        (case nextBatchFn cr of
           None \<Rightarrow> (Inl (Panic ''nil pointer dereference''), cr, prev)
         | Some f \<Rightarrow>
            (case next_batch_data env renv f of
               (Inl _, _) \<Rightarrow> (Inl NotEnoughData, NextChannel cr, prev)
             | (Inr batchData, f) \<Rightarrow> (typed_batch env cfg (l1Time (prevOrigin prev)) batchData, cr\<lparr>nextBatchFn := Some f\<rparr>, prev))))"

definition ChannelInReader_Reset :: "'s ChannelInReader \<Rightarrow> derive_error \<times> 's ChannelInReader" where
  "ChannelInReader_Reset cr = (IoEOF, cr\<lparr>nextBatchFn := None\<rparr>)"

definition ChannelInReader_FlushChannel :: "('p \<Rightarrow> 'p) \<Rightarrow> 's ChannelInReader \<times> 'p \<Rightarrow> 's ChannelInReader \<times> 'p" where
  "ChannelInReader_FlushChannel prevFlush st = ((fst st)\<lparr>nextBatchFn := None\<rparr>, prevFlush (snd st))"

section \<open>The stage feeds well-shaped batches\<close>

lemma reader_feeds: "feeds_shapes cfg (ChannelInReader_NextBatch env renv cfg prevNext prevOrigin)"
proof -
  have "batch_shape cfg batch" if tb: "typed_batch env cfg t bd = Inr batch" and nb: "next_batch_data env renv s = (Inr bd, s')" for t bd batch s s'
  proof (cases bd)
    case (SingularData sb)
    then show ?thesis using tb by (auto simp: typed_batch_def GetSingularBatch_def)
  next
    case (SpanData raw)
    obtain r rest where "RawSpanBatch_decode env r = Inr (raw, rest)"
      using nb SpanData by (auto simp: next_batch_data_def decodeTyped_def rbind_Inr_iff split: prod.splits if_splits)
    then show ?thesis using tb SpanData derived_shape by (auto simp: typed_batch_def DeriveSpanBatch_def rbind_Inr_iff split: if_splits)
  qed
  then show ?thesis
    by (auto simp: feeds_shapes_def ChannelInReader_NextBatch_def Let_def split: prod.splits sum.splits option.splits)
qed

text \<open>C26: Whatever bytes a channel holds, every span that the stage hands to the batch stages is well-shaped: it has between one and ten million blocks, whose
  timestamps advance by the block time and whose epochs advance by at most one (modulo the width of the numbers).\<close>

theorem channel_reader_shapes: "feeds_shapes cfg (ChannelInReader_NextBatch env renv cfg prevNext prevOrigin)"
  by (rule reader_feeds)

section \<open>A channel delivers its batches\<close>

text \<open>Calling a stage a number of times.\<close>

fun pull :: "('st \<Rightarrow> 'r \<times> 'st) \<Rightarrow> nat \<Rightarrow> 'st \<Rightarrow> 'r list \<times> 'st" where
  "pull next 0 st = ([], st)"
| "pull next (Suc n) st = (let (r, st) = next st; (rs, st) = pull next n st in (r # rs, st))"

text \<open>The byte strings that a stream still delivers before it ends.\<close>

fun stream_items :: "'s reader_env \<Rightarrow> 's \<Rightarrow> bytes list \<Rightarrow> bool" where
  "stream_items renv s [] = (case fst (streamBytes renv s) of Inl _ \<Rightarrow> True | Inr _ \<Rightarrow> False)"
| "stream_items renv s (b # bs) = (fst (streamBytes renv s) = Inr b \<and> stream_items renv (snd (streamBytes renv s)) bs)"

text \<open>The encodings of a batch: of a singular batch, or of a span built from singular batches that continue each other.\<close>

inductive encodes :: "('al, 'au) tx_env \<Rightarrow> 's reader_env \<Rightarrow> Config \<Rightarrow> int \<Rightarrow> bytes \<Rightarrow> Batch \<Rightarrow> bool" for env renv cfg c where
  singular: "singularEncode renv sb = Inr e \<Longrightarrow> encodes env renv cfg c (SingularBatchType # e) (Singular sb)"
| span: "append_all env (NewSpanBatch (gL2Time (cGenesis cfg)) c) qs = Inr b \<Longrightarrow> ToRawSpanBatch b = Inr raw \<Longrightarrow> RawSpanBatch_encode raw = Inr e \<Longrightarrow>
    elements qs = e0 # es \<Longrightarrow> regular cfg (seTimestamp e0) (seEpochNum e0) es \<Longrightarrow> length qs \<le> 10000000 \<Longrightarrow>
    length (concat (map (Transactions \<circ> fst) qs)) \<le> 10000000 \<Longrightarrow> list_all (\<lambda>q. list_all (tx_ok env c) (tx_pairs env (Transactions (fst q)))) qs \<Longrightarrow>
    encodes env renv cfg c (SpanBatchType # e)
      (Span \<lparr>ParentCheck = take 20 (be_bytes 32 (ParentHash (fst (hd qs)))), L1OriginCheck = take 20 (be_bytes 32 (EpochHash (fst (last qs)))), Batches = elements qs\<rparr>)"

definition singular_codec :: "'s reader_env \<Rightarrow> bool" where
  "singular_codec renv \<longleftrightarrow> (\<forall>sb e. singularEncode renv sb = Inr e \<longrightarrow> singularDecode renv e = Inr sb)"

lemma encodes_typed:
  assumes "encodes env renv cfg c b batch" and "rlp_ok env" and "0 \<le> c" and "2 * c + 36 < 2 ^ 64" and "singular_codec renv" and "IsDelta cfg t" and "L2ChainID cfg = Some c"
  shows "\<exists>bd. decodeTyped env renv b = Inr bd \<and> typed_batch env cfg t bd = Inr batch"
  using assms(1)
proof cases
  case (singular sb e)
  then show ?thesis using assms(5) by (auto simp: decodeTyped_def singular_codec_def typed_batch_def GetSingularBatch_def)
next
  case (span qs b raw e e0 es)
  from span_wire [OF assms(2-4) span(6-10), of "gL2Time (cGenesis cfg)" "[]"] span(3-5) obtain raw' s where
    d: "RawSpanBatch_decode env e = Inr (raw', [])" "RawSpanBatch_derive env (BlockTime cfg) (gL2Time (cGenesis cfg)) c raw' = Inr s"
    "Batches s = elements qs" "CheckParentHash s (ParentHash (fst (hd qs)))" "CheckOriginHash s (EpochHash (fst (last qs)))" by auto
  have "SingularBatchType \<noteq> SpanBatchType" by (simp add: SingularBatchType_def SpanBatchType_def)
  then show ?thesis
    using d span(1,2) assms(6,7) by (cases s) (auto simp: decodeTyped_def typed_batch_def DeriveSpanBatch_def CheckParentHash_def CheckOriginHash_def)
qed

lemma reader_delivers:
  assumes "stream_items renv s items" and "list_all2 (encodes env renv cfg c) items bs" and "rlp_ok env" and "0 \<le> c" and "2 * c + 36 < 2 ^ 64"
    and "singular_codec renv" and "IsDelta cfg (l1Time (prevOrigin p))" and "L2ChainID cfg = Some c"
  shows "pull (ChannelInReader_NextBatch env renv cfg prevNext prevOrigin) (length bs + 1) (\<lparr>nextBatchFn = Some s\<rparr>, p) =
    (map Inr bs @ [Inl NotEnoughData], \<lparr>nextBatchFn = None\<rparr>, p)"
  using assms(1,2)
proof (induction items arbitrary: s bs)
  case Nil
  then show ?case
    by (cases "streamBytes renv s"; cases "fst (streamBytes renv s)") (auto simp: ChannelInReader_NextBatch_def next_batch_data_def NextChannel_def)
next
  case (Cons b items)
  then obtain batch bs' where bs: "bs = batch # bs'" "encodes env renv cfg c b batch" "list_all2 (encodes env renv cfg c) items bs'" by (auto simp: list_all2_Cons1)
  obtain s' where s: "streamBytes renv s = (Inr b, s')" "stream_items renv s' items" using Cons.prems(1) by (cases "streamBytes renv s") auto
  obtain bd where bd: "decodeTyped env renv b = Inr bd" "typed_batch env cfg (l1Time (prevOrigin p)) bd = Inr batch"
    using encodes_typed [OF bs(2) assms(3-8)] by blast
  have "ChannelInReader_NextBatch env renv cfg prevNext prevOrigin (\<lparr>nextBatchFn = Some s\<rparr>, p) = (Inr batch, \<lparr>nextBatchFn = Some s'\<rparr>, p)"
    using s bd by (simp add: ChannelInReader_NextBatch_def next_batch_data_def)
  then show ?case using Cons.IH [OF s(2) bs(3)] bs(1) by simp
qed

text \<open>C25: A channel delivers its batches: when the raw channel that the previous stage returns opens as a stream of encoded batches (singular batches, or spans as the
  batcher builds them), successive calls of the stage return exactly these batches in their order; the call after the last one closes the channel and asks
  to be called again.\<close>

theorem channel_delivers_batches:
  assumes "prevNext p0 = (Inr data, p)" and "BatchReader renv data (MaxRLPBytesPerChannel (NewChainSpec cfg) (l1Time (prevOrigin p))) (IsFjord cfg (l1Time (prevOrigin p))) = Inr s"
    and "stream_items renv s items" and "list_all2 (encodes env renv cfg c) items bs" and "bs \<noteq> []" and "rlp_ok env" and "singular_codec renv"
    and "0 \<le> c" and "2 * c + 36 < 2 ^ 64" and "IsDelta cfg (l1Time (prevOrigin p))" and "L2ChainID cfg = Some c"
  shows "pull (ChannelInReader_NextBatch env renv cfg prevNext prevOrigin) (length bs + 1) (\<lparr>nextBatchFn = None\<rparr>, p0) =
    (map Inr bs @ [Inl NotEnoughData], \<lparr>nextBatchFn = None\<rparr>, p)"
proof -
  obtain n where n: "length bs + 1 = Suc n" by simp
  have "ChannelInReader_NextBatch env renv cfg prevNext prevOrigin (\<lparr>nextBatchFn = None\<rparr>, p0) =
      ChannelInReader_NextBatch env renv cfg prevNext prevOrigin (\<lparr>nextBatchFn = Some s\<rparr>, p)"
    using assms(1,2) by (simp add: ChannelInReader_NextBatch_def WriteChannel_def)
  then show ?thesis
    using reader_delivers [where prevOrigin = prevOrigin and p = p, OF assms(3,4,6,8,9,7,10,11), of prevNext] unfolding n by simp
qed

section \<open>A concrete channel\<close>

definition sample_singular :: SingularBatch where
  "sample_singular = \<lparr>ParentHash = 3, EpochNum = 7, EpochHash = 107, Timestamp = 66, Transactions = []\<rparr>"

definition sample_span_bytes :: bytes where
  "sample_span_bytes = (case rbind (append_all sample_tx_env (NewSpanBatch 10 248) sample_batches) (\<lambda>b. rbind (ToRawSpanBatch b) RawSpanBatch_encode) of
     Inr e \<Rightarrow> e | Inl _ \<Rightarrow> [])"

text \<open>A channel with one span and one singular batch, as a list of byte strings.\<close>

definition sample_reader_env :: "bytes list reader_env" where
  "sample_reader_env = \<lparr>zlibOpen = \<lambda>_ _. Inr [SpanBatchType # sample_span_bytes, [SingularBatchType, 5]], brotliOpen = \<lambda>_ _. [],
    streamBytes = \<lambda>s. case s of [] \<Rightarrow> (Inl IoEOF, []) | b # bs \<Rightarrow> (Inr b, bs),
    singularEncode = \<lambda>sb. if sb = sample_singular then Inr [5] else Inl (PlainError ''rlp''), singularDecode = \<lambda>e. if e = [5] then Inr sample_singular else Inl (PlainError ''rlp'')\<rparr>"

lemma channel_delivers_batches_witness:
  "\<exists>s. Batches s = elements sample_batches \<and>
    pull (ChannelInReader_NextBatch sample_tx_env sample_reader_env (sample_config 12 14) (\<lambda>p. (Inr [0x78], p)) (\<lambda>_ :: unit. sample_l1 8 70)) 3 (\<lparr>nextBatchFn = None\<rparr>, ()) =
      ([Inr (Span s), Inr (Singular sample_singular), Inl NotEnoughData], \<lparr>nextBatchFn = None\<rparr>, ())"
proof -
  let ?o = "\<lambda>_ :: unit. sample_l1 8 70" and ?cfg = "sample_config 12 14" and ?items = "[SpanBatchType # sample_span_bytes, [SingularBatchType, 5]]"
  let ?s = "\<lparr>ParentCheck = take 20 (be_bytes 32 (ParentHash (fst (hd sample_batches)))), L1OriginCheck = take 20 (be_bytes 32 (EpochHash (fst (last sample_batches)))),
    Batches = elements sample_batches\<rparr>"
  have g: "gL2Time (cGenesis ?cfg) = 10" "L2ChainID ?cfg = Some 248" by (simp_all add: sample_config_def)
  obtain b raw e where e: "append_all sample_tx_env (NewSpanBatch 10 248) sample_batches = Inr b" "ToRawSpanBatch b = Inr raw" "RawSpanBatch_encode raw = Inr e"
    using span_wire [OF sample_rlp_ok _ _ sample_batches_ok(1) _ sample_batches_ok(3-5), of ?cfg 10 "[]"] sample_batches_ok(2) by auto
  have reg: "regular ?cfg (seTimestamp \<lparr>seEpochNum = 6, seTimestamp = 62, seTransactions = [[0xF0]]\<rparr>) (seEpochNum \<lparr>seEpochNum = 6, seTimestamp = 62, seTransactions = [[0xF0]]\<rparr>)
      [\<lparr>seEpochNum = 7, seTimestamp = 64, seTransactions = [[0xF0], [0xF0]]\<rparr>]"
    using sample_batches_ok(2) by simp
  have "encodes sample_tx_env sample_reader_env ?cfg 248 (SpanBatchType # e) (Span ?s)"
    using encodes.span [OF _ e(2,3) sample_batches_ok(1) reg sample_batches_ok(3-5), of sample_reader_env] e(1) g(1) by simp
  moreover have "sample_span_bytes = e" using e by (simp add: sample_span_bytes_def)
  moreover have "encodes sample_tx_env sample_reader_env ?cfg 248 [SingularBatchType, 5] (Singular sample_singular)"
    by (rule encodes.singular) (simp add: sample_reader_env_def)
  ultimately have enc: "list_all2 (encodes sample_tx_env sample_reader_env ?cfg 248) ?items [Span ?s, Singular sample_singular]" by simp
  have open_ok: "BatchReader sample_reader_env [0x78] (MaxRLPBytesPerChannel (NewChainSpec ?cfg) (l1Time (?o ()))) (IsFjord ?cfg (l1Time (?o ()))) = Inr ?items"
    by (simp add: BatchReader_def sample_reader_env_def ZlibCM8_def)
  have rest: "stream_items sample_reader_env ?items ?items" "singular_codec sample_reader_env" "IsDelta ?cfg (l1Time (?o ()))"
    by (auto simp: sample_reader_env_def singular_codec_def sample_l1_def sample_config_def IsDelta_def active_at_def split: if_splits)
  from channel_delivers_batches [where prevOrigin = ?o and p = "()" and prevNext = "\<lambda>p. (Inr [0x78], p)", OF _ open_ok rest(1) enc _ sample_rlp_ok rest(2) _ _ rest(3) g(2)]
  show ?thesis by (intro exI [of _ ?s]) (simp add: numeral_3_eq_3 numeral_2_eq_2)
qed

end
