(* ===== verification/Spec2Isabelle.thy ===== *)
theory Spec2Isabelle
  imports Prelude Arch CannonMemory CannonMerkle CannonExec CannonAlu CannonSyscalls CannonState CannonVM
    CannonRel CannonStepRel CannonMachine CannonScheduler CannonCodec
    GamePosition GameTypes GameSolver GameTree GameHonest GameRules
    MonResolve MonHonest MonBonds MonClaims
    RollupConfig DeriveFrames DeriveChannel DeriveAssembler Blob DeriveSource DeriveEndToEnd L1Info Attributes
    BatchRules BatchStage DeriveAttributes SpanWire SpanRoundTrip ChannelIn
begin

text \<open>
  \<^bold>\<open>A verification library for the core of oasys-opstack.\<close>

  The repository is the Go implementation of a rollup: an L2 chain whose blocks are derived from data that a batcher publishes on
  L1, and whose state proposals on L1 are defended by a dispute game that ends in one step of a virtual machine. Three groups of
  theories follow the three parts.

  \<^bold>\<open>The fault-proof VM\<close> (\<^verbatim>\<open>src/cannon/mipsevm\<close>), the 64-bit multithreaded Cannon.
  \<^item> \<open>Arch\<close>: the constants and address arithmetic of \<^verbatim>\<open>arch/\<close>.
  \<^item> \<open>CannonMemory\<close>: \<^verbatim>\<open>memory/page.go\<close>, \<^verbatim>\<open>memory/memory64.go\<close>, \<^verbatim>\<open>memory/binary_tree.go\<close>: pages with cached Merkle trees, the page table with
    its two-entry lookup cache and the node index. Read over write; the lookup cache is transparent.
    \<open>CannonMerkle\<close>: with every cache the root is the hash of the full binary tree over the contents; writes keep the caches valid; proofs verify.
  \<^item> \<open>CannonExec\<close>, \<open>CannonAlu\<close>: \<^verbatim>\<open>exec/mips_instructions.go\<close>: decoding and the instruction core; arithmetic against its mathematical meaning.
  \<^item> \<open>CannonSyscalls\<close>: \<^verbatim>\<open>exec/mips_syscalls.go\<close>, \<^verbatim>\<open>exec/preimage.go\<close>: memory mapping, pre-image reads, hints.
  \<^item> \<open>CannonState\<close>, \<open>CannonCodec\<close>: \<^verbatim>\<open>multithreaded/{state,thread}.go\<close>: the witness, the state hash, and the serialization with its round trip.
  \<^item> \<open>CannonVM\<close>: \<^verbatim>\<open>multithreaded/{mips,instrumented}.go\<close>: the step of the machine with threads, futexes, reservations and scheduling, every
    panic a value. \<open>CannonRel\<close>, \<open>CannonStepRel\<close>, \<open>CannonMachine\<close>: a relation between runs with and without proof generation,
    the machine invariant, and both for runs of any length; \<open>CannonScheduler\<close>: fairness of preemption.

  \<^bold>\<open>The dispute game\<close> (\<^verbatim>\<open>src/op-challenger/game/fault\<close>, \<^verbatim>\<open>src/op-dispute-mon\<close>).
  \<^item> \<open>GamePosition\<close>, \<open>GameTypes\<close>: \<^verbatim>\<open>types/{position,types,game}.go\<close>: positions, claims, the game state, clocks. \<open>GameSolver\<close>: \<^verbatim>\<open>solver/*.go\<close>:
    the claim solver, the honest-claim tracker, the game solver and the rules with which the code tests itself.
    \<open>GameTree\<close>, \<open>GameHonest\<close>, \<open>GameRules\<close>: the shape of a game, and what the rules report on the actions of the solver: nothing, whatever the other players do, except
    on moves against claims that the contract has already resolved as countered. The setting is one trace and claim identifiers that do not collide.
  \<^item> \<open>MonResolve\<close>: \<^verbatim>\<open>mon/transform\<close>, \<^verbatim>\<open>mon/resolution\<close>, \<^verbatim>\<open>mon/forecast.go\<close>: the bidirectional tree, the resolution loop against its recursive meaning, the
    forecast. \<open>MonHonest\<close> combines it with the solver: a game in which the honest challenger has nothing left to do resolves for the truth.
    \<open>MonBonds\<close>, \<open>MonClaims\<close>: \<^verbatim>\<open>mon/bonds\<close>, \<^verbatim>\<open>mon/claims.go\<close>, \<^verbatim>\<open>mon/withdrawals.go\<close>: credits, collateral and the books of the claim monitor.

  \<^bold>\<open>The derivation pipeline\<close> (\<^verbatim>\<open>src/op-node/rollup\<close>), stage by stage, each stage a function over the state of the stages below it.
  \<^item> \<open>RollupConfig\<close>: \<^verbatim>\<open>types.go\<close>, \<^verbatim>\<open>chain_spec.go\<close>: configuration, fork schedule, limits.
  \<^item> \<open>DeriveSource\<close>: \<^verbatim>\<open>derive/{l1_traversal,l1_retrieval,data_source,calldata_source,blob_data_source,system_config}.go\<close>: L1 traversal with the
    replay of system configuration updates; batcher data from calldata and blobs. \<open>Blob\<close>: \<^verbatim>\<open>op-service/eth/blob.go\<close>.
  \<^item> \<open>DeriveFrames\<close>: \<^verbatim>\<open>derive/{frame,frame_queue}.go\<close>. \<open>DeriveChannel\<close>: \<^verbatim>\<open>derive/{channel,channel_bank,channel_assembler,channel_mux}.go\<close>.
  \<^item> \<open>DeriveAssembler\<close>: the assembler refines a machine over the frames that it fetches from the previous stage; the interfaces between stages are the locales \<open>item_supply\<close>, \<open>frame_supply\<close>
    and \<open>tx_supply\<close>, and the frame queue over any supply of transactions is a supply of frames.
    \<open>DeriveEndToEnd\<close>: the retrieval stage is such a supply, so what the batcher published is what the assembler returns.
  \<^item> \<open>SpanWire\<close>: \<^verbatim>\<open>derive/span_batch{,_util,_tx,_txs}.go\<close>: the wire format of span batches, decoder and encoder. \<open>SpanRoundTrip\<close>: each field codec is an
    interpretation of one locale, and what the encoder writes for a span of blocks the decoder and \<^verbatim>\<open>derive\<close> give back.
  \<^item> \<open>ChannelIn\<close>: \<^verbatim>\<open>derive/{channel_in_reader,batch}.go\<close> and the batch reader of \<^verbatim>\<open>derive/channel.go\<close>: from the bytes of a channel to batches; the reader delivers the
    batches that were written, and every span batch it hands on has consecutive block times.
  \<^item> \<open>BatchRules\<close>: \<^verbatim>\<open>derive/{batches,singular_batch}.go\<close>: validity of singular and span batches against the safe chain; an accepted span batch
    is a chain of blocks each of which satisfies the rules of a singular batch. \<open>BatchStage\<close>: \<^verbatim>\<open>derive/{base_batch_stage,batch_queue,batch_stage,batch_mux}.go\<close>: the
    batch stages before and after Holocene; a batch they return extends the parent, and the stages do not panic.
  \<^item> \<open>L1Info\<close>: \<^verbatim>\<open>derive/{l1_block_info,deposit_source,payload_util}.go\<close>: the L1 attributes deposit, its encoding and the way back to the system
    configuration. \<open>Attributes\<close>: \<^verbatim>\<open>derive/{deposit_log,deposits,attributes}.go\<close>: deposits from receipts and the payload attributes of a block.
    \<open>DeriveAttributes\<close>: \<^verbatim>\<open>derive/attributes_queue.go\<close>: a block derived from a batch extends its parent with the transactions of the batch; replacement by a deposits-only block;
    retries. The batch stage below is the locale \<open>batch_provider\<close>, interpreted on \<open>BatchMux\<close>.

  \<^bold>\<open>Conventions.\<close> Go's fixed-width integers are words and wrap as in Go; \<^verbatim>\<open>int\<close> values that only count list elements are \<open>nat\<close>. Panics and errors
  are values of error datatypes. Go maps are association lists without duplicate keys or partial functions. Loops are recursive
  functions with termination proofs; the one loop whose end depends on another stage (\<open>ingest_loop\<close>) is a partial function, and its termination
  over a finite supply of frames is proved. Functions outside the repository (Keccak, the pre-image oracle, L1 clients, sender recovery,
  trace providers) are parameters. Logging and metrics are left out.

  \<^bold>\<open>Not modelled.\<close> Processes, networking, RPC, databases and contract bindings; the engine controller, which drives an external execution engine, and the pipeline
  object, whose stages are modelled one by one; the single-threaded predecessor of the VM; deployment tools and tests.
\<close>

end
